(* ===== verification/Py_Prelude.thy ===== *)
theory Py_Prelude
  imports Complex_Main "HOL-Library.Word" "HOL-Library.AList"
begin

unbundle bit_operations_syntax

section \<open>Prelude: the Python layer the components share\<close>

text \<open>
  What every component of the development uses and no component owns: the exceptions the
  library raises, as values of a sum type; Python's scalar values with their own notion of
  truth and equality (\<open>True == 1 == 1.0\<close>); \<open>bytes\<close> as lists of 8-bit words; dictionaries as
  insertion-ordered association lists, with \<^const>\<open>AList.update\<close> as item assignment; and the
  string helpers (\<open>lower\<close>, hexadecimal formatting, substring tests) the code calls.

  Python's unbounded integers are \<^typ>\<open>int\<close>.  Python floats are exact rationals: every scale
  factor of the glossary is a power of two, so the arithmetic on temperatures is exact in
  binary64 too; the divisions by 10, 100 and 10000 of the tenths nibble and of the energy
  encodings are modelled without their final rounding.
\<close>

subsection \<open>Exceptions\<close>

datatype frame_fault = TooShort | BadStart | Truncated | CrcMismatch | ChecksumMismatch

datatype py_error =
    ValueError
  | IndexError
  | KeyError
  | TypeError
  | ZeroDivisionError
  | FrameError frame_fault
  | FormulaError
  | AttributeError
  | ConnectionError
  | ReplayError
  | HandshakeError
  | AuthenticationError
  | InvalidTag
  | StructError
  | SlotPoolExhausted
  | OverflowError
  | MemoryError
  | RecursionError

type_synonym 'a res = "py_error + 'a"

definition bind_res :: "'a res \<Rightarrow> ('a \<Rightarrow> 'b res) \<Rightarrow> 'b res" where
  "bind_res m f = (case m of Inl e \<Rightarrow> Inl e | Inr x \<Rightarrow> f x)"

lemma bind_res_simps [simp]:
  "bind_res (Inl e) f = Inl e"
  "bind_res (Inr x) f = f x"
  by (simp_all add: bind_res_def)

lemma bind_res_eq_Inr [simp]: "bind_res r k = Inr out \<longleftrightarrow> (\<exists>mid. r = Inr mid \<and> k mid = Inr out)"
  by (cases r) simp_all

lemma bind_res_cong [fundef_cong]:
  "m = m' \<Longrightarrow> (\<And>x. m' = Inr x \<Longrightarrow> f x = f' x) \<Longrightarrow> bind_res m f = bind_res m' f'"
  by (cases m') auto

text \<open>A \<open>for\<close> loop whose body may raise: the first exception leaves the loop.\<close>

fun fold_res :: "('a \<Rightarrow> 's \<Rightarrow> 's res) \<Rightarrow> 'a list \<Rightarrow> 's \<Rightarrow> 's res" where
  "fold_res f [] s = Inr s"
| "fold_res f (x # xs) s = bind_res (f x s) (fold_res f xs)"

fun map_res :: "('a \<Rightarrow> 'b res) \<Rightarrow> 'a list \<Rightarrow> 'b list res" where
  "map_res f [] = Inr []"
| "map_res f (x # xs) = bind_res (f x) (\<lambda>y. bind_res (map_res f xs) (\<lambda>ys. Inr (y # ys)))"

lemma fold_res_append:
  "fold_res f (xs @ ys) s = bind_res (fold_res f xs s) (fold_res f ys)"
proof (induction xs arbitrary: s)
  case Nil
  then show ?case by simp
next
  case (Cons x xs)
  then show ?case by (cases "f x s") simp_all
qed

lemma fold_res_invariant:
  assumes "fold_res f xs s = Inr t" and "P s"
    and "\<And>x u v. x \<in> set xs \<Longrightarrow> P u \<Longrightarrow> f x u = Inr v \<Longrightarrow> P v"
  shows "P t"
  using assms
proof (induction xs arbitrary: s)
  case Nil
  then show ?case by simp
next
  case (Cons x xs)
  from Cons.prems(1) obtain u where u: "f x s = Inr u" "fold_res f xs u = Inr t"
    by auto
  have "P u" using Cons.prems(2,3) u(1) by auto
  then show ?case using Cons.IH [OF u(2)] Cons.prems(3) by auto
qed

lemma map_res_length: "map_res f xs = Inr ys \<Longrightarrow> length ys = length xs"
  by (induction xs arbitrary: ys) auto

lemma map_res_all:
  assumes "\<And>x. x \<in> set xs \<Longrightarrow> \<exists>y. h x = Inr y \<and> P x y"
  shows "\<exists>ys. map_res h xs = Inr ys \<and> list_all2 P xs ys"
  using assms
proof (induction xs)
  case Nil
  then show ?case by simp
next
  case (Cons x xs)
  obtain y where y: "h x = Inr y" "P x y" using Cons.prems [of x] by auto
  obtain ys where ys: "map_res h xs = Inr ys" "list_all2 P xs ys" using Cons.IH Cons.prems by auto
  then show ?case using y by simp
qed

subsection \<open>Scalar values\<close>

datatype pyval = PNone | PBool bool | PInt int | PFloat rat | PStr string

fun num_of :: "pyval \<Rightarrow> rat option" where
  "num_of (PBool b) = Some (if b then 1 else 0)"
| "num_of (PInt i) = Some (of_int i)"
| "num_of (PFloat q) = Some q"
| "num_of _ = None"

text \<open>Truth value testing (\<open>if value:\<close>) and \<open>==\<close>.\<close>

fun truthy :: "pyval \<Rightarrow> bool" where
  "truthy PNone \<longleftrightarrow> False"
| "truthy (PBool b) \<longleftrightarrow> b"
| "truthy (PInt i) \<longleftrightarrow> i \<noteq> 0"
| "truthy (PFloat q) \<longleftrightarrow> q \<noteq> 0"
| "truthy (PStr s) \<longleftrightarrow> s \<noteq> []"

definition py_eq :: "pyval \<Rightarrow> pyval \<Rightarrow> bool" where
  "py_eq a b \<longleftrightarrow>
     (case num_of a of
        None \<Rightarrow> a = b
      | Some x \<Rightarrow> (case num_of b of None \<Rightarrow> False | Some y \<Rightarrow> x = y))"

lemma py_eq_refl [simp]: "py_eq a a"
  by (cases a) (simp_all add: py_eq_def)

lemma py_eq_sym: "py_eq a b \<longleftrightarrow> py_eq b a"
  by (cases a; cases b) (auto simp: py_eq_def)

lemma py_eq_trans: "py_eq a b \<Longrightarrow> py_eq b c \<Longrightarrow> py_eq a c"
  by (cases a; cases b; cases c) (auto simp: py_eq_def split: if_splits)

lemma py_eq_truthy: "py_eq a b \<Longrightarrow> truthy a = truthy b"
  by (cases a; cases b) (auto simp: py_eq_def split: if_splits)

lemma py_eq_PNone [simp]: "py_eq PNone v \<longleftrightarrow> v = PNone" "py_eq v PNone \<longleftrightarrow> v = PNone"
  by (cases v; simp add: py_eq_def)+

fun is_numeric :: "pyval \<Rightarrow> bool" where  \<comment> \<open>\<open>isinstance(v, (int, float)) and not isinstance(v, bool)\<close>\<close>
  "is_numeric (PInt _) \<longleftrightarrow> True"
| "is_numeric (PFloat _) \<longleftrightarrow> True"
| "is_numeric _ \<longleftrightarrow> False"

text \<open>\<open>+\<close> on numbers: \<open>int\<close> stays \<open>int\<close>, anything with a float becomes a float.\<close>

fun py_add :: "pyval \<Rightarrow> pyval \<Rightarrow> pyval res" where
  "py_add (PInt a) (PInt b) = Inr (PInt (a + b))"
| "py_add a b =
     (case num_of a of
        None \<Rightarrow> Inl TypeError
      | Some x \<Rightarrow>
          (case num_of b of
             None \<Rightarrow> Inl TypeError
           | Some y \<Rightarrow>
               (case (a, b) of
                  (PFloat _, _) \<Rightarrow> Inr (PFloat (x + y))
                | (_, PFloat _) \<Rightarrow> Inr (PFloat (x + y))
                | _ \<Rightarrow> Inr (PInt \<lfloor>x + y\<rfloor>))))"

text \<open>\<open>int(x)\<close> truncates towards zero.\<close>

definition trunc :: "rat \<Rightarrow> int" where
  "trunc q = (if 0 \<le> q then \<lfloor>q\<rfloor> else \<lceil>q\<rceil>)"

lemma trunc_of_int [simp]: "trunc (of_int i) = i"
  by (simp add: trunc_def)

lemma trunc_numeral [simp]: "trunc (numeral n) = numeral n" "trunc (- numeral n) = - numeral n"
  "trunc 0 = 0" "trunc 1 = 1"
  by (simp_all add: trunc_def)

text \<open>\<open>round(x)\<close> of Python 3 rounds halves to the even neighbour.\<close>

definition py_round :: "rat \<Rightarrow> int" where
  "py_round q =
     (let f = \<lfloor>q\<rfloor>; d = q - of_int f
      in if d < 1/2 then f else if d > 1/2 then f + 1 else if even f then f else f + 1)"

lemma py_round_near: "\<bar>of_int (py_round q) - q\<bar> \<le> 1/2"
proof -
  have "of_int \<lfloor>q\<rfloor> \<le> q" and "q < of_int \<lfloor>q\<rfloor> + 1"
    by linarith+
  then show ?thesis
    by (simp add: py_round_def Let_def abs_le_iff)
qed

lemma py_round_of_int [simp]: "py_round (of_int i) = i"
  by (simp add: py_round_def)

subsection \<open>Bytes\<close>

type_synonym byte = "8 word"
type_synonym bytes = "byte list"

lemma uint_byte_bounds [simp]: "0 \<le> uint (b :: byte)" "uint (b :: byte) < 256" "uint (b :: byte) \<le> 255"
  using uint_lt2p [of b] by simp_all

lemma unat_byte_bound [simp]: "unat (b :: byte) < 256"
  using unsigned_less [where ?'a = nat and ?'b = 8, of b] by simp

lemma unat_div_16 [simp]: "unat (b :: byte) div 16 < 16"
proof -
  have "unat b < 256" by simp
  then show ?thesis by arith
qed

text \<open>Storing an \<open>int\<close> in a \<open>bytearray\<close> raises \<open>ValueError\<close> outside \<open>range(256)\<close>.\<close>

definition to_byte :: "int \<Rightarrow> byte res" where
  "to_byte i = (if 0 \<le> i \<and> i < 256 then Inr (word_of_int i) else Inl ValueError)"

lemma to_byte_uint [simp]: "to_byte (uint b) = Inr b"
  by (simp add: to_byte_def)

lemma to_byte_Inr: "to_byte i = Inr b \<longleftrightarrow> 0 \<le> i \<and> i < 256 \<and> uint b = i"
  by (auto simp: to_byte_def word_of_int_inverse uint_word_of_int take_bit_int_eq_self)

text \<open>\<open>x & 0xFF\<close> followed by a store never raises.\<close>

definition low_byte :: "int \<Rightarrow> byte" where
  "low_byte i = word_of_int (i AND 0xFF)"

lemma and_FF_eq_mod: "(i :: int) AND 0xFF = i mod 256"
  using take_bit_eq_mask [of 8 i] by (simp add: take_bit_eq_mod mask_eq_exp_minus_1)

lemma uint_low_byte: "uint (low_byte i) = i mod 256"
  by (simp add: low_byte_def and_FF_eq_mod uint_word_of_int)

lemma to_byte_and_FF [simp]: "to_byte (i AND 0xFF) = Inr (low_byte i)"
  by (simp add: to_byte_def low_byte_def and_FF_eq_mod)

text \<open>Indexing by a non-negative index.\<close>

definition py_nth :: "'a list \<Rightarrow> nat \<Rightarrow> 'a res" where
  "py_nth xs i = (if i < length xs then Inr (xs ! i) else Inl IndexError)"

lemma py_nth_simps [simp]:
  "i < length xs \<Longrightarrow> py_nth xs i = Inr (xs ! i)"
  "length xs \<le> i \<Longrightarrow> py_nth xs i = Inl IndexError"
  by (simp_all add: py_nth_def)

definition slice :: "nat \<Rightarrow> nat \<Rightarrow> 'a list \<Rightarrow> 'a list" where  \<comment> \<open>\<open>xs[i:j]\<close>\<close>
  "slice i j xs = take (j - i) (drop i xs)"

lemma length_slice [simp]: "length (slice i j xs) = min (j - i) (length xs - i)"
  by (simp add: slice_def)

text \<open>Indexing and slicing by any \<open>int\<close>: a negative index counts from the end.\<close>

definition wrap_index :: "nat \<Rightarrow> int \<Rightarrow> int" where  \<comment> \<open>the position an index stands for\<close>
  "wrap_index len k = (if 0 \<le> k then k else k + int len)"

definition py_index :: "'a list \<Rightarrow> int \<Rightarrow> 'a res" where
  "py_index seq k =
     (let p = wrap_index (length seq) k
      in if p < 0 then Inl IndexError else py_nth seq (nat p))"

definition py_slice :: "int \<Rightarrow> int \<Rightarrow> 'a list \<Rightarrow> 'a list" where
  "py_slice i j xs =
     (let n = int (length xs);
          lo = nat (if i < 0 then max 0 (n + i) else i);
          hi = nat (if j < 0 then max 0 (n + j) else j)
      in slice lo hi xs)"

lemma py_index_nat [simp]: "py_index xs (int n) = py_nth xs n"
  by (simp add: py_index_def wrap_index_def)

subsection \<open>Dictionaries\<close>

type_synonym ('k, 'v) dict = "('k \<times> 'v) list"

abbreviation dget :: "('k, 'v) dict \<Rightarrow> 'k \<Rightarrow> 'v option" where
  "dget d k \<equiv> map_of d k"

abbreviation dset :: "'k \<Rightarrow> 'v \<Rightarrow> ('k, 'v) dict \<Rightarrow> ('k, 'v) dict" where
  "dset \<equiv> AList.update"

definition dkeys :: "('k, 'v) dict \<Rightarrow> 'k list" where
  "dkeys d = map fst d"

definition has_key :: "('k, 'v) dict \<Rightarrow> 'k \<Rightarrow> bool" where
  "has_key d k \<longleftrightarrow> map_of d k \<noteq> None"

definition dget_or :: "('k, 'v) dict \<Rightarrow> 'k \<Rightarrow> 'v \<Rightarrow> 'v" where
  "dget_or d k v = (case map_of d k of None \<Rightarrow> v | Some x \<Rightarrow> x)"

lemma dget_dset [simp]: "dget (dset k v d) k' = (if k' = k then Some v else dget d k')"
  by (simp add: update_conv')

lemma dset_same: "dget d k = Some v \<Longrightarrow> dset k v d = d"
  by (induction d) (auto split: if_splits)

lemma dset_commute_lookup: "dget (dset k v (dset k' v' d)) = (dget d)(k' \<mapsto> v', k \<mapsto> v)"
  by (rule ext) simp

lemma has_key_set: "has_key d k \<longleftrightarrow> k \<in> set (dkeys d)"
  by (auto simp: has_key_def dkeys_def map_of_eq_None_iff)

lemma has_key_dset [simp]: "has_key (dset k v d) k' \<longleftrightarrow> k' = k \<or> has_key d k'"
  by (simp add: has_key_def)

lemma distinct_dkeys_dset [simp, intro]: "distinct (dkeys d) \<Longrightarrow> distinct (dkeys (dset k v d))"
  by (simp add: dkeys_def distinct_update)

lemma in_dset:
  assumes "distinct (dkeys d)"
  shows "(k', v') \<in> set (dset k v d) \<longleftrightarrow> (if k' = k then v' = v else (k', v') \<in> set d)"
proof -
  have "distinct (map fst (dset k v d))" using assms by (simp add: dkeys_def distinct_update)
  from map_of_eq_Some_iff [OF this, of k' v'] show ?thesis
    using map_of_eq_Some_iff [of d k' v'] assms by (simp add: dkeys_def eq_commute)
qed

lemma dset_dset [simp]: "dset k v (dset k w d) = dset k v d"
  by (induction d) auto

lemma dkeys_dset: "dkeys (dset k v d) = (if has_key d k then dkeys d else dkeys d @ [k])"
  by (induction d) (auto simp: dkeys_def has_key_def)

text \<open>\<open>dict.update\<close> with a second dict: the entries in order, later ones winning.\<close>

definition dupdate :: "('k, 'v) dict \<Rightarrow> ('k, 'v) dict \<Rightarrow> ('k, 'v) dict" where
  "dupdate d e = fold (\<lambda>(k, v). dset k v) e d"

lemma dget_fold_dset:
  "dget (fold (\<lambda>(k, v). dset k v) e d) k =
     (case map_of (rev e) k of None \<Rightarrow> dget d k | Some v \<Rightarrow> Some v)"
  by (induction e arbitrary: d)
     (auto simp: map_add_def split: option.splits)

lemma map_of_rev: "distinct (dkeys d) \<Longrightarrow> map_of (rev d) k = map_of d k"
proof -
  assume d: "distinct (dkeys d)"
  then have iff: "map_of (rev d) k = Some v \<longleftrightarrow> map_of d k = Some v" for v
    by (simp add: dkeys_def rev_map [symmetric])
  show ?thesis
  proof (cases "map_of d k")
    case None
    then have "map_of (rev d) k = None" by (simp add: map_of_eq_None_iff)
    with None show ?thesis by simp
  next
    case (Some v)
    then show ?thesis using iff by simp
  qed
qed

text \<open>A dictionary comprehension over a dictionary.\<close>

lemma dget_comprehension:
  assumes "distinct (dkeys d)"
  shows "dget (fold (\<lambda>(k, v). dset k (f v)) d []) k = map_option f (dget d k)"
proof -
  have "fold (\<lambda>(k, v). dset k (f v)) d e = fold (\<lambda>(k, v). dset k v) (map (\<lambda>(k, v). (k, f v)) d) e" for e
    by (induction d arbitrary: e) auto
  then have "dget (fold (\<lambda>(k, v). dset k (f v)) d []) k = map_of (rev (map (\<lambda>(k, v). (k, f v)) d)) k"
    by (simp add: dget_fold_dset split: option.split)
  also have "\<dots> = map_of (map (\<lambda>(k, v). (k, f v)) d) k"
    using assms by (intro map_of_rev) (simp add: dkeys_def comp_def case_prod_unfold)
  finally show ?thesis by (simp add: map_of_map)
qed

subsection \<open>Strings\<close>

definition lower_char :: "char \<Rightarrow> char" where
  "lower_char c = (let n = (of_char c :: nat) in if 65 \<le> n \<and> n \<le> 90 then char_of (n + 32) else c)"

definition lower :: "string \<Rightarrow> string" where
  "lower s = map lower_char s"

definition starts_with :: "string \<Rightarrow> string \<Rightarrow> bool" where
  "starts_with p s \<longleftrightarrow> take (length p) s = p"

fun contains :: "string \<Rightarrow> string \<Rightarrow> bool" where  \<comment> \<open>\<open>p in s\<close>\<close>
  "contains p [] \<longleftrightarrow> p = []"
| "contains p (c # s) \<longleftrightarrow> starts_with p (c # s) \<or> contains p s"

text \<open>
  \<open>int(s)\<close> on a string: surrounding white space, an optional sign, decimal digits with single
  underscores between them.  Anything else raises \<open>ValueError\<close>.
\<close>

definition is_space :: "char \<Rightarrow> bool" where
  "is_space c \<longleftrightarrow> c \<in> {CHR '' '', CHR 0x09, CHR 0x0A, CHR 0x0B, CHR 0x0C, CHR 0x0D}"

definition str_space :: "char \<Rightarrow> bool" where  \<comment> \<open>\<open>str.isspace\<close>\<close>
  "str_space c \<longleftrightarrow> is_space c \<or> c \<in> {CHR 0x1C, CHR 0x1D, CHR 0x1E, CHR 0x1F, CHR 0x85, CHR 0xA0}"

definition strip :: "string \<Rightarrow> string" where
  "strip s = rev (dropWhile str_space (rev (dropWhile str_space s)))"

definition digit_val :: "char \<Rightarrow> nat option" where
  "digit_val c = (let n = (of_char c :: nat) in if 48 \<le> n \<and> n \<le> 57 then Some (n - 48) else None)"

fun digits_val :: "int \<Rightarrow> string \<Rightarrow> int res" where
  "digits_val acc [] = Inr acc"
| "digits_val acc (c # s) =
     (case digit_val c of
        Some d \<Rightarrow> digits_val (10 * acc + int d) s
      | None \<Rightarrow>
          (if c = CHR ''_'' then
             (case s of
                [] \<Rightarrow> Inl ValueError
              | c' # s' \<Rightarrow> (case digit_val c' of
                              Some d \<Rightarrow> digits_val (10 * acc + int d) s'
                            | None \<Rightarrow> Inl ValueError))
           else Inl ValueError))"

definition unsigned_of_str :: "string \<Rightarrow> int res" where
  "unsigned_of_str s =
     (case s of
        [] \<Rightarrow> Inl ValueError
      | c # s' \<Rightarrow> (case digit_val c of Some d \<Rightarrow> digits_val (int d) s' | None \<Rightarrow> Inl ValueError))"

definition int_of_str :: "string \<Rightarrow> int res" where
  "int_of_str s =
     (case strip s of
        [] \<Rightarrow> Inl ValueError
      | c # s' \<Rightarrow>
          (if c = CHR ''-'' then bind_res (unsigned_of_str s') (\<lambda>n. Inr (- n))
           else if c = CHR ''+'' then unsigned_of_str s'
           else unsigned_of_str (c # s')))"

text \<open>\<open>int(v)\<close> of a scalar.\<close>

fun py_int :: "pyval \<Rightarrow> int res" where
  "py_int PNone = Inl TypeError"
| "py_int (PBool b) = Inr (if b then 1 else 0)"
| "py_int (PInt i) = Inr i"
| "py_int (PFloat q) = Inr (trunc q)"
| "py_int (PStr s) = int_of_str s"

text \<open>\<open>str(n)\<close> of a non-negative integer.\<close>

fun dec :: "nat \<Rightarrow> string" where
  "dec n = (if n < 10 then [char_of (48 + n)] else dec (n div 10) @ [char_of (48 + n mod 10)])"

declare dec.simps [simp del]

text \<open>\<open>sep.join(xs)\<close>\<close>

fun join_with :: "string \<Rightarrow> string list \<Rightarrow> string" where
  "join_with sep [] = []"
| "join_with sep [x] = x"
| "join_with sep (x # xs) = x @ sep @ join_with sep xs"

definition hex_digit :: "nat \<Rightarrow> char" where
  "hex_digit n = ''0123456789ABCDEF'' ! n"

text \<open>The format \<open>f"0x{b:02X}"\<close> of a byte.\<close>

definition hex2 :: "byte \<Rightarrow> string" where
  "hex2 b = [hex_digit (unat b div 16), hex_digit (unat b mod 16)]"

definition hex_id :: "byte \<Rightarrow> string" where
  "hex_id b = ''0x'' @ hex2 b"

lemma hex_digit_inj: "i < 16 \<Longrightarrow> j < 16 \<Longrightarrow> hex_digit i = hex_digit j \<Longrightarrow> i = j"
proof -
  assume "i < 16" "j < 16" "hex_digit i = hex_digit j"
  moreover have "distinct ''0123456789ABCDEF''" by simp
  ultimately show ?thesis
    unfolding hex_digit_def by (simp add: nth_eq_iff_index_eq)
qed

lemma lower_hex_digit_inj:
  assumes "i < 16" "j < 16" "lower_char (hex_digit i) = lower_char (hex_digit j)"
  shows "i = j"
proof -
  have m: "map (\<lambda>i. lower_char (hex_digit i)) [0..<16] = ''0123456789abcdef''"
    by code_simp
  have n: "lower_char (hex_digit k) = ''0123456789abcdef'' ! k" if "k < 16" for k
  proof -
    have "map (\<lambda>i. lower_char (hex_digit i)) [0..<16] ! k = lower_char (hex_digit k)"
      using that by (simp del: upt_rec_numeral)
    then show ?thesis by (simp only: m)
  qed
  have "distinct ''0123456789abcdef''" by simp
  then show ?thesis
    using assms by (simp add: n nth_eq_iff_index_eq)
qed

text \<open>Two bytes print to the same identifier, up to case, only when they are equal.\<close>

lemma lower_hex_id_inj [simp]: "lower (hex_id a) = lower (hex_id b) \<longleftrightarrow> a = b"
proof
  assume "lower (hex_id a) = lower (hex_id b)"
  then have "unat a div 16 = unat b div 16" and "unat a mod 16 = unat b mod 16"
    by (auto simp: lower_def hex_id_def hex2_def intro!: lower_hex_digit_inj)
  then have "unat a = unat b"
    by (metis div_mult_mod_eq)
  then show "a = b" by (simp add: word_unat_eq_iff)
qed simp

lemma hex_id_inj [simp]: "hex_id a = hex_id b \<longleftrightarrow> a = b"
  using lower_hex_id_inj [of a b] by fastforce

text \<open>Printed numbers read back.\<close>

lemma dec_not_Nil [simp]: "dec n \<noteq> []"
  by (subst dec.simps) simp

lemma dec_digits: "list_all (\<lambda>c. digit_val c \<noteq> None) (dec n)"
proof (induction n rule: dec.induct)
  case (1 n)
  have d: "digit_val (char_of (48 + k)) = Some k" if "k < 10" for k :: nat
    using that by (simp add: digit_val_def)
  show ?case
  proof (cases "n < 10")
    case True
    then show ?thesis by (subst dec.simps) (simp add: d)
  next
    case False
    then show ?thesis using 1 d [of "n mod 10"] by (subst dec.simps) simp
  qed
qed

lemma digits_val_append:
  "list_all (\<lambda>c. digit_val c \<noteq> None) s \<Longrightarrow> digits_val acc s = Inr k \<Longrightarrow> digits_val acc (s @ t) = digits_val k t"
  by (induction acc s rule: digits_val.induct) (auto split: option.splits)

lemma digits_val_dec: "digits_val 0 (dec n) = Inr (int n)"
proof (induction n rule: dec.induct)
  case (1 n)
  have d: "digit_val (char_of (48 + k)) = Some k" if "k < 10" for k :: nat
    using that by (simp add: digit_val_def)
  show ?case
  proof (cases "n < 10")
    case True
    then show ?thesis by (subst dec.simps) (simp add: d)
  next
    case False
    then have "digits_val 0 (dec (n div 10) @ [char_of (48 + n mod 10)]) = digits_val (int (n div 10)) [char_of (48 + n mod 10)]"
      using 1 dec_digits digits_val_append by blast
    also have "\<dots> = Inr (10 * int (n div 10) + int (n mod 10))" using d [of "n mod 10"] by simp
    also have "10 * int (n div 10) + int (n mod 10) = int (10 * (n div 10) + n mod 10)" by (simp only: of_nat_add of_nat_mult of_nat_numeral)
    also have "\<dots> = int n" by (simp only: mult_div_mod_eq)
    finally show ?thesis using False by (subst dec.simps) simp
  qed
qed

lemma digit_not_special: "digit_val c \<noteq> None \<Longrightarrow> c \<noteq> CHR ''_'' \<and> c \<noteq> CHR ''-'' \<and> c \<noteq> CHR ''+'' \<and> \<not> str_space c"
  by (auto simp: digit_val_def str_space_def is_space_def)

lemma int_of_str_dec: "int_of_str (dec n) = Inr (int n)"
proof -
  have ns: "\<not> str_space c" if "c \<in> set (dec n)" for c
    using dec_digits [of n] that digit_not_special by (auto simp: list_all_iff)
  have "strip (dec n) = dec n"
  proof -
    have "\<not> str_space (hd (dec n))" "\<not> str_space (hd (rev (dec n)))" using ns by (simp_all add: hd_rev)
    then have "dropWhile str_space (dec n) = dec n" "dropWhile str_space (rev (dec n)) = rev (dec n)"
      by (simp_all only: dropWhile_eq_self_iff simp_thms)
    then show ?thesis by (simp add: strip_def)
  qed
  moreover obtain c s where c: "dec n = c # s" using dec_not_Nil [of n] by (cases "dec n") auto
  moreover have "digit_val c \<noteq> None" using dec_digits [of n] c by simp
  moreover have "digits_val 0 (c # s) = Inr (int n)" using digits_val_dec c by metis
  ultimately show ?thesis using digit_not_special [of c] by (auto simp: int_of_str_def unsigned_of_str_def)
qed

lemma dec_no_leading_zero: "0 < n \<Longrightarrow> hd (dec n) \<noteq> CHR ''0''"
proof (induction n rule: dec.induct)
  case (1 n)
  show ?case
  proof (cases "n < 10")
    case True
    then have "hd (dec n) = char_of (48 + n)" by (subst dec.simps) simp
    moreover have "(of_char (char_of (48 + n)) :: nat) \<noteq> of_char CHR ''0''" using True 1(2) by simp
    ultimately show ?thesis by metis
  next
    case False
    then show ?thesis using 1 by (subst dec.simps) simp
  qed
qed

end
