(* ===== verification/Frame.thy ===== *)
theory Frame
  imports Py_Prelude
begin

section \<open>The UART frame envelope (\<open>blaueis/core/frame.py\<close>)\<close>

text \<open>
  CRC-8 by table, the additive checksum, \<open>build_frame\<close>, \<open>parse_frame\<close>, \<open>validate_frame\<close> and
  the fixed-shape builders: the B1 property query, Follow Me, the display toggle and the
  handshake frames of the gateway.  The builders that read their body from the glossary are in
  the theory of the frame planner.  Lemmas: the table is the bitwise CRC-8/MAXIM; the
  checksum makes every frame sum to zero; \<open>parse_frame\<close> undoes \<open>build_frame\<close>; every one-byte
  error outside the length byte is detected.
\<close>

subsection \<open>CRC-8\<close>

definition CRC8_TABLE :: "byte list" where
  "CRC8_TABLE =
    [0x00, 0x5E, 0xBC, 0xE2, 0x61, 0x3F, 0xDD, 0x83,
     0xC2, 0x9C, 0x7E, 0x20, 0xA3, 0xFD, 0x1F, 0x41,
     0x9D, 0xC3, 0x21, 0x7F, 0xFC, 0xA2, 0x40, 0x1E,
     0x5F, 0x01, 0xE3, 0xBD, 0x3E, 0x60, 0x82, 0xDC,
     0x23, 0x7D, 0x9F, 0xC1, 0x42, 0x1C, 0xFE, 0xA0,
     0xE1, 0xBF, 0x5D, 0x03, 0x80, 0xDE, 0x3C, 0x62,
     0xBE, 0xE0, 0x02, 0x5C, 0xDF, 0x81, 0x63, 0x3D,
     0x7C, 0x22, 0xC0, 0x9E, 0x1D, 0x43, 0xA1, 0xFF,
     0x46, 0x18, 0xFA, 0xA4, 0x27, 0x79, 0x9B, 0xC5,
     0x84, 0xDA, 0x38, 0x66, 0xE5, 0xBB, 0x59, 0x07,
     0xDB, 0x85, 0x67, 0x39, 0xBA, 0xE4, 0x06, 0x58,
     0x19, 0x47, 0xA5, 0xFB, 0x78, 0x26, 0xC4, 0x9A,
     0x65, 0x3B, 0xD9, 0x87, 0x04, 0x5A, 0xB8, 0xE6,
     0xA7, 0xF9, 0x1B, 0x45, 0xC6, 0x98, 0x7A, 0x24,
     0xF8, 0xA6, 0x44, 0x1A, 0x99, 0xC7, 0x25, 0x7B,
     0x3A, 0x64, 0x86, 0xD8, 0x5B, 0x05, 0xE7, 0xB9,
     0x8C, 0xD2, 0x30, 0x6E, 0xED, 0xB3, 0x51, 0x0F,
     0x4E, 0x10, 0xF2, 0xAC, 0x2F, 0x71, 0x93, 0xCD,
     0x11, 0x4F, 0xAD, 0xF3, 0x70, 0x2E, 0xCC, 0x92,
     0xD3, 0x8D, 0x6F, 0x31, 0xB2, 0xEC, 0x0E, 0x50,
     0xAF, 0xF1, 0x13, 0x4D, 0xCE, 0x90, 0x72, 0x2C,
     0x6D, 0x33, 0xD1, 0x8F, 0x0C, 0x52, 0xB0, 0xEE,
     0x32, 0x6C, 0x8E, 0xD0, 0x53, 0x0D, 0xEF, 0xB1,
     0xF0, 0xAE, 0x4C, 0x12, 0x91, 0xCF, 0x2D, 0x73,
     0xCA, 0x94, 0x76, 0x28, 0xAB, 0xF5, 0x17, 0x49,
     0x08, 0x56, 0xB4, 0xEA, 0x69, 0x37, 0xD5, 0x8B,
     0x57, 0x09, 0xEB, 0xB5, 0x36, 0x68, 0x8A, 0xD4,
     0x95, 0xCB, 0x29, 0x77, 0xF4, 0xAA, 0x48, 0x16,
     0xE9, 0xB7, 0x55, 0x0B, 0x88, 0xD6, 0x34, 0x6A,
     0x2B, 0x75, 0x97, 0xC9, 0x4A, 0x14, 0xF6, 0xA8,
     0x74, 0x2A, 0xC8, 0x96, 0x15, 0x4B, 0xA9, 0xF7,
     0xB6, 0xE8, 0x0A, 0x54, 0xD7, 0x89, 0x6B, 0x35]"

fun crc8_loop :: "byte \<Rightarrow> bytes \<Rightarrow> byte" where
  "crc8_loop crc [] = crc"
| "crc8_loop crc (b # bs) = crc8_loop (CRC8_TABLE ! unat (crc XOR b)) bs"

definition crc8 :: "bytes \<Rightarrow> byte" where
  "crc8 data = crc8_loop 0 data"

lemma length_CRC8_TABLE [simp]: "length CRC8_TABLE = 256"
  by (simp add: CRC8_TABLE_def)

text \<open>
  The reference: CRC-8/MAXIM is the reflected polynomial \<open>0x8C\<close>, one shift per bit.
\<close>

definition crc8_shift :: "byte \<Rightarrow> byte" where
  "crc8_shift c = (if bit c 0 then drop_bit 1 c XOR 0x8C else drop_bit 1 c)"

definition crc8_byte :: "byte \<Rightarrow> byte" where
  "crc8_byte c = (crc8_shift ^^ 8) c"

fun crc8_bitwise :: "byte \<Rightarrow> bytes \<Rightarrow> byte" where
  "crc8_bitwise crc [] = crc"
| "crc8_bitwise crc (b # bs) = crc8_bitwise (crc8_byte (crc XOR b)) bs"

lemma crc8_byte_unfold: "crc8_byte c = crc8_shift (crc8_shift (crc8_shift (crc8_shift (crc8_shift (crc8_shift (crc8_shift (crc8_shift c)))))))"
  by (simp add: crc8_byte_def numeral_eq_Suc)



lemma crc8_shift_of_nat:
  assumes "n < 256"
  shows "crc8_shift (word_of_nat n) =
    (if odd n then word_of_nat (n div 2) XOR 0x8C else word_of_nat (n div 2))"
proof -
  have "bit (word_of_nat n :: byte) 0 \<longleftrightarrow> odd n"
    by (simp add: bit_of_nat_iff bit_0)
  moreover have "drop_bit 1 (word_of_nat n :: byte) = word_of_nat (n div 2)"
    using assms by (simp add: drop_bit_eq_div word_unat_eq_iff unat_div unat_of_nat)
  ultimately show ?thesis by (simp add: crc8_shift_def)
qed

lemma crc8_shift_numeral:
  "crc8_shift 0 = 0" "crc8_shift 1 = 0x8C"
  "(numeral (num.Bit0 n) :: nat) < 256 \<Longrightarrow> crc8_shift (numeral (num.Bit0 n)) = numeral n"
  "(numeral (num.Bit1 n) :: nat) < 256 \<Longrightarrow> crc8_shift (numeral (num.Bit1 n)) = numeral n XOR 0x8C"
  using crc8_shift_of_nat [of 0] crc8_shift_of_nat [of 1]
    crc8_shift_of_nat [of "numeral (num.Bit0 n)"] crc8_shift_of_nat [of "numeral (num.Bit1 n)"]
    by (simp_all add: crc8_shift_def numeral_Bit0_div_2 numeral_Bit1_div_2 del: numeral_less_iff)

definition ALL_BYTES :: "byte list" where "ALL_BYTES =
    [0, 1, 2, 3, 4, 5, 6, 7, 8, 9, 10, 11, 12, 13, 14, 15, 16, 17, 18, 19, 20, 21, 22, 23, 24,
     25, 26, 27, 28, 29, 30, 31, 32, 33, 34, 35, 36, 37, 38, 39, 40, 41, 42, 43, 44, 45, 46,
     47, 48, 49, 50, 51, 52, 53, 54, 55, 56, 57, 58, 59, 60, 61, 62, 63, 64, 65, 66, 67, 68,
     69, 70, 71, 72, 73, 74, 75, 76, 77, 78, 79, 80, 81, 82, 83, 84, 85, 86, 87, 88, 89, 90,
     91, 92, 93, 94, 95, 96, 97, 98, 99, 100, 101, 102, 103, 104, 105, 106, 107, 108, 109, 110,
     111, 112, 113, 114, 115, 116, 117, 118, 119, 120, 121, 122, 123, 124, 125, 126, 127, 128,
     129, 130, 131, 132, 133, 134, 135, 136, 137, 138, 139, 140, 141, 142, 143, 144, 145, 146,
     147, 148, 149, 150, 151, 152, 153, 154, 155, 156, 157, 158, 159, 160, 161, 162, 163, 164,
     165, 166, 167, 168, 169, 170, 171, 172, 173, 174, 175, 176, 177, 178, 179, 180, 181, 182,
     183, 184, 185, 186, 187, 188, 189, 190, 191, 192, 193, 194, 195, 196, 197, 198, 199, 200,
     201, 202, 203, 204, 205, 206, 207, 208, 209, 210, 211, 212, 213, 214, 215, 216, 217, 218,
     219, 220, 221, 222, 223, 224, 225, 226, 227, 228, 229, 230, 231, 232, 233, 234, 235, 236,
     237, 238, 239, 240, 241, 242, 243, 244, 245, 246, 247, 248, 249, 250, 251, 252, 253, 254,
     255]"
lemma unat_ALL_BYTES: "map unat ALL_BYTES = [0..<256]"
proof -
  have "[0..<256] = 0 # 1 # [2..<256 :: nat]"
    by (simp add: upt_rec [of 0] upt_rec [of "Suc 0"] numeral_2_eq_2)
  then show ?thesis by (simp add: ALL_BYTES_def)
qed

lemma crc8_table_ALL_BYTES: "map crc8_byte ALL_BYTES = CRC8_TABLE"
  by (simp add: crc8_byte_unfold crc8_shift_numeral CRC8_TABLE_def ALL_BYTES_def)

lemma crc8_table: "CRC8_TABLE ! unat w = crc8_byte w"
proof -
  have len: "length ALL_BYTES = 256"
    using arg_cong [OF unat_ALL_BYTES, of length] by simp
  have "map unat ALL_BYTES ! unat w = unat w"
    by (simp only: unat_ALL_BYTES) (simp add: nth_upt [of 0, simplified])
  then have "ALL_BYTES ! unat w = w"
    using len by (simp add: word_unat_eq_iff)
  moreover have "map crc8_byte ALL_BYTES ! unat w = crc8_byte (ALL_BYTES ! unat w)"
    using len by simp
  ultimately show ?thesis by (simp add: crc8_table_ALL_BYTES)
qed

lemma crc8_loop_bitwise: "crc8_loop crc data = crc8_bitwise crc data"
  by (induction data arbitrary: crc) (simp_all add: crc8_table)

lemma crc8_loop_append: "crc8_loop crc (xs @ ys) = crc8_loop (crc8_loop crc xs) ys"
  by (induction xs arbitrary: crc) simp_all

text \<open>The check value appended to the data brings the register back to zero.\<close>

lemma crc8_residue: "crc8 (data @ [crc8 data]) = 0"
  using crc8_table [of 0]
  by (simp add: crc8_def crc8_loop_append crc8_byte_unfold crc8_shift_numeral)

text \<open>One step of the register is injective, so a changed byte changes the check value.\<close>

lemma byte_xor_cancel [simp]: "(c :: byte) XOR a = d XOR a \<longleftrightarrow> c = d" "a XOR c = a XOR d \<longleftrightarrow> c = d"
  by (auto simp: bit_eq_iff bit_xor_iff)

lemma crc8_shift_inj: "crc8_shift c = crc8_shift d \<longleftrightarrow> c = d"
proof
  assume eq: "crc8_shift c = crc8_shift d"
  have top: "bit (crc8_shift x) 7 = bit x 0" for x
  proof -
    have "\<not> bit (drop_bit 1 x) 7"
      using bit_imp_le_length [of x 8] by (auto simp: bit_drop_bit_eq)
    moreover have "bit (0x8C :: byte) 7" by simp
    ultimately show ?thesis
      unfolding crc8_shift_def by (simp only: bit_xor_iff split: if_split) blast
  qed
  have low: "bit c 0 = bit d 0"
    using top [of c] top [of d] eq by simp
  then have "drop_bit 1 c = drop_bit 1 d"
    using eq by (auto simp: crc8_shift_def split: if_splits)
  then have "bit c (Suc m) = bit d (Suc m)" for m
    by (metis bit_drop_bit_eq comp_apply plus_1_eq_Suc)
  with low show "c = d"
    by (intro bit_eqI) (metis not0_implies_Suc)
qed simp

lemma crc8_byte_inj [simp]: "crc8_byte c = crc8_byte d \<longleftrightarrow> c = d"
  by (simp add: crc8_byte_unfold crc8_shift_inj)

lemma crc8_loop_inj [simp]: "crc8_loop c data = crc8_loop d data \<longleftrightarrow> c = d"
  by (induction data arbitrary: c d) (simp_all add: crc8_table)

lemma crc8_update_neq:
  assumes "i < length data" and "b \<noteq> data ! i"
  shows "crc8 (data[i := b]) \<noteq> crc8 data"
proof -
  have "data = take i data @ data ! i # drop (Suc i) data"
    using assms(1) by (rule id_take_nth_drop)
  moreover have "data[i := b] = take i data @ b # drop (Suc i) data"
    using assms(1) by (rule upd_conv_take_nth_drop)
  ultimately obtain xs ys where "data = xs @ data ! i # ys" and "data[i := b] = xs @ b # ys"
    by blast
  then have "crc8 data = crc8_loop (crc8_byte (crc8_loop 0 xs XOR data ! i)) ys"
    and "crc8 (data[i := b]) = crc8_loop (crc8_byte (crc8_loop 0 xs XOR b)) ys"
    by (metis crc8_def crc8_loop.simps(2) crc8_loop_append crc8_table)+
  with assms(2) show ?thesis by simp
qed

subsection \<open>Checksum, building and parsing\<close>

definition frame_checksum :: "bytes \<Rightarrow> int" where
  "frame_checksum frame = (256 - sum_list (map uint (butlast (tl frame)))) AND 0xFF"

definition build_frame :: "bytes \<Rightarrow> int \<Rightarrow> int \<Rightarrow> int \<Rightarrow> int \<Rightarrow> int \<Rightarrow> bytes res" where
  "build_frame body msg_type appliance proto sub seq =
     (let frame_len = 9 + int (length body) + 2;
          sync = frame_len XOR appliance
      in bind_res (to_byte frame_len) (\<lambda>b_len.
         bind_res (to_byte appliance) (\<lambda>b_appliance.
         bind_res (to_byte msg_type) (\<lambda>b_msg.
           let frame =
             [0xAA, b_len, b_appliance, low_byte sync, 0x00, 0x00,
              low_byte seq, low_byte proto, low_byte sub, b_msg]
             @ body @ [crc8 body] @ [0x00]
           in Inr (butlast frame @ [word_of_int (frame_checksum frame)])))))"

record parsed_frame =
  pf_msg_type :: int
  pf_body :: bytes
  pf_appliance :: int
  pf_proto :: int
  pf_sub :: int
  pf_seq :: int
  pf_crc_ok :: bool
  pf_checksum_ok :: bool

definition parse_frame :: "bytes \<Rightarrow> parsed_frame res" where
  "parse_frame data =
     (if length data < 13 then Inl (FrameError TooShort)
      else if data ! 0 \<noteq> 0xAA then Inl (FrameError BadStart)
      else
        let frame_len = unat (data ! 1);
            expected_total = frame_len + 1
        in if length data < expected_total then Inl (FrameError Truncated)
           else
             let body = slice 10 (length data - 2) data;
                 frame_crc = data ! (length data - 2);
                 frame_chk = uint (data ! (length data - 1));
                 calc_crc = crc8 body;
                 calc_chk = frame_checksum (take expected_total data)
             in Inr \<lparr>pf_msg_type = uint (data ! 9), pf_body = body,
                     pf_appliance = uint (data ! 2), pf_proto = uint (data ! 7),
                     pf_sub = uint (data ! 8), pf_seq = uint (data ! 6),
                     pf_crc_ok = (frame_crc = calc_crc),
                     pf_checksum_ok = (frame_chk = calc_chk)\<rparr>)"

definition validate_frame :: "bytes \<Rightarrow> parsed_frame res" where
  "validate_frame data =
     bind_res (parse_frame data) (\<lambda>result.
       if \<not> pf_crc_ok result then Inl (FrameError CrcMismatch)
       else if \<not> pf_checksum_ok result then Inl (FrameError ChecksumMismatch)
       else Inr result)"

definition extract_msg_id :: "bytes \<Rightarrow> int option" where
  "extract_msg_id frame =
     (if length frame < 12 \<or> frame ! 0 \<noteq> 0xAA then None else Some (uint (frame ! 10)))"

subsection \<open>Lemmas on the envelope\<close>

lemma word_of_int_sum_uint: "(word_of_int (sum_list (map uint xs)) :: byte) = sum_list xs"
  by (induction xs) (simp_all add: wi_hom_add)

lemma frame_checksum_eq: "frame_checksum frame = uint (- sum_list (butlast (tl frame)))"
proof -
  let ?s = "sum_list (map uint (butlast (tl frame)))"
  have "- sum_list (butlast (tl frame)) = (word_of_int (- ?s) :: byte)"
    by (simp add: word_of_int_sum_uint)
  then have "uint (- sum_list (butlast (tl frame))) = (- ?s) mod 256"
    by (simp only: uint_word_of_int) simp
  then show ?thesis
    by (simp add: frame_checksum_def and_FF_eq_mod)
qed

lemma uint_11_plus: "n \<le> 244 \<Longrightarrow> uint (11 + word_of_nat n :: byte) = 11 + int n"
proof -
  assume "n \<le> 244"
  moreover have "(11 + word_of_nat n :: byte) = word_of_int (11 + int n)" by simp
  then have "uint (11 + word_of_nat n :: byte) = (11 + int n) mod 256"
    by (simp only: uint_word_of_int) simp
  ultimately show ?thesis by simp
qed

lemma frame_checksum_bounds [simp]: "0 \<le> frame_checksum f" "frame_checksum f < 256"
  by (simp_all add: frame_checksum_eq)

definition header :: "bytes \<Rightarrow> int \<Rightarrow> int \<Rightarrow> int \<Rightarrow> int \<Rightarrow> int \<Rightarrow> bytes" where
  "header body msg_type appliance proto sub seq =
     [0xAA, word_of_int (11 + int (length body)), word_of_int appliance,
      low_byte ((11 + int (length body)) XOR appliance), 0, 0,
      low_byte seq, low_byte proto, low_byte sub, word_of_int msg_type]"

abbreviation envelope_ok :: "bytes \<Rightarrow> int \<Rightarrow> int \<Rightarrow> bool" where
  "envelope_ok body msg_type appliance \<equiv>
     length body \<le> 244 \<and> 0 \<le> msg_type \<and> msg_type < 256 \<and> 0 \<le> appliance \<and> appliance < 256"

lemma build_frame_layout:
  assumes "envelope_ok body msg_type appliance"
  shows "build_frame body msg_type appliance proto sub seq =
     Inr (header body msg_type appliance proto sub seq @ body @
          [crc8 body, - sum_list (tl (header body msg_type appliance proto sub seq) @ body @ [crc8 body])])"
  using assms
  by (simp add: build_frame_def header_def to_byte_def Let_def frame_checksum_eq butlast_append)

lemma build_frame_error:
  "build_frame body msg_type appliance proto sub seq = Inl e \<longleftrightarrow>
     \<not> envelope_ok body msg_type appliance \<and> e = ValueError"
  by (auto simp: build_frame_def to_byte_def Let_def)

lemma build_frame_InrD:
  "build_frame body msg_type appliance proto sub seq = Inr f \<Longrightarrow> envelope_ok body msg_type appliance"
  using build_frame_error [of body msg_type appliance proto sub seq ValueError] by fastforce

lemma build_frame_length:
  "build_frame body msg_type appliance proto sub seq = Inr f \<Longrightarrow> length f = length body + 12"
  by (frule build_frame_InrD) (auto simp: build_frame_layout header_def)

text \<open>A well-formed frame: the fields of the header, and both integrity fields.\<close>

lemma built_frame_fields:
  assumes "build_frame body msg_type appliance proto sub seq = Inr f"
  shows "f ! 0 = 0xAA" and "uint (f ! 1) = 11 + int (length body)" and "uint (f ! 2) = appliance"
    and "uint (f ! 6) = seq mod 256" and "uint (f ! 7) = proto mod 256"
    and "uint (f ! 8) = sub mod 256" and "uint (f ! 9) = msg_type"
    and "drop 10 f = body @ [crc8 body, last f]"
    and "last f = - sum_list (butlast (tl f))"
proof -
  have ok: "envelope_ok body msg_type appliance" by (rule build_frame_InrD) (rule assms)
  note f = build_frame_layout [OF ok, of proto sub seq, unfolded assms, simplified sum.inject]
  show "f ! 0 = 0xAA" and "uint (f ! 1) = 11 + int (length body)" and "uint (f ! 2) = appliance"
    and "uint (f ! 6) = seq mod 256" and "uint (f ! 7) = proto mod 256"
    and "uint (f ! 8) = sub mod 256" and "uint (f ! 9) = msg_type"
    and "drop 10 f = body @ [crc8 body, last f]"
    and "last f = - sum_list (butlast (tl f))"
    using ok by (simp_all add: f header_def uint_low_byte uint_word_of_int uint_11_plus nth_append butlast_append)
qed

lemma parse_built:
  assumes "build_frame body msg_type appliance proto sub seq = Inr f" and "body \<noteq> []"
  shows "parse_frame f = Inr
    \<lparr>pf_msg_type = msg_type, pf_body = body, pf_appliance = appliance, pf_proto = proto mod 256,
     pf_sub = sub mod 256, pf_seq = seq mod 256, pf_crc_ok = True, pf_checksum_ok = True\<rparr>"
proof -
  note fields = built_frame_fields [OF assms(1)]
  have len: "length f = length body + 12" by (rule build_frame_length) (rule assms)
  have total: "unat (f ! 1) + 1 = length f"
    using fields(2) len by (simp add: unat_eq_nat_uint nat_add_distrib)
  have body: "slice 10 (length f - 2) f = body"
    using fields(8) len by (simp add: slice_def)
  have crc: "f ! (length f - 2) = crc8 body"
  proof -
    have "f ! (length f - 2) = drop 10 f ! (length f - 12)" using len by simp
    then show ?thesis using fields(8) len by (simp add: nth_append)
  qed
  have "f ! (length f - 1) = last f"
    using len by (metis last_conv_nth length_0_conv add_is_0 zero_neq_numeral)
  then have chk: "uint (f ! (length f - 1)) = frame_checksum f"
    by (simp only: fields(9) frame_checksum_eq)
  have long: "\<not> length f < 13" using len assms(2) by (cases body) simp_all
  show ?thesis
    unfolding parse_frame_def Let_def
    using long fields(1-7) total body crc chk by simp
qed

lemma validate_built:
  assumes "build_frame body msg_type appliance proto sub seq = Inr f" and "body \<noteq> []"
  shows "validate_frame f = Inr
    \<lparr>pf_msg_type = msg_type, pf_body = body, pf_appliance = appliance, pf_proto = proto mod 256,
     pf_sub = sub mod 256, pf_seq = seq mod 256, pf_crc_ok = True, pf_checksum_ok = True\<rparr>"
  by (simp add: validate_frame_def parse_built [OF assms])

lemma parse_frame_fault: "parse_frame data = Inl e \<Longrightarrow> \<exists>r. e = FrameError r"
  by (auto simp: parse_frame_def Let_def split: if_splits)

lemma sum_list_update_word:
  fixes xs :: bytes
  shows "i < length xs \<Longrightarrow> sum_list (xs[i := b]) = sum_list xs - xs ! i + b"
  by (induction xs arbitrary: i) (auto split: nat.splits)

lemma checksum_ok_sum:
  assumes "1 < length f"
  shows "uint (f ! (length f - 1)) = frame_checksum f \<longleftrightarrow> sum_list (tl f) = 0"
proof -
  have ne: "tl f \<noteq> []" using assms by (cases f) auto
  have l: "f ! (length f - 1) = last (tl f)"
    using assms by (metis last_conv_nth last_tl length_greater_0_conv less_trans ne zero_less_one)
  have "sum_list (tl f) = sum_list (butlast (tl f)) + last (tl f)"
    using append_butlast_last_id [OF ne] by (metis sum_list.append sum_list_simps(2) sum_list.Nil add.right_neutral)
  then show ?thesis
    by (simp add: l frame_checksum_eq eq_neg_iff_add_eq_0 add.commute del: One_nat_def flip: word_uint_eq_iff)
qed

lemma built_sum_zero:
  assumes "build_frame body msg_type appliance proto sub seq = Inr f"
  shows "sum_list (tl f) = 0"
proof -
  have len: "1 < length f" using build_frame_length [OF assms] by simp
  then have "f ! (length f - 1) = last f" by (metis last_conv_nth length_0_conv not_less_zero)
  then have "uint (f ! (length f - 1)) = frame_checksum f"
    by (simp only: built_frame_fields(9) [OF assms] frame_checksum_eq)
  then show ?thesis using checksum_ok_sum [OF len] by simp
qed

text \<open>The frame layer as its clients use it: what they send arrives as it was built.\<close>

locale frame_link =
  fixes build :: "bytes \<Rightarrow> int \<Rightarrow> int \<Rightarrow> int \<Rightarrow> int \<Rightarrow> int \<Rightarrow> bytes res"
    and receive :: "bytes \<Rightarrow> parsed_frame res"
  assumes deliver: "build body msg app proto sub seq = Inr f \<Longrightarrow> body \<noteq> [] \<Longrightarrow>
      \<exists>p. receive f = Inr p \<and> pf_body p = body \<and> pf_msg_type p = msg \<and> pf_appliance p = app"
    and small_builds: "length body \<le> 244 \<Longrightarrow> 0 \<le> msg \<Longrightarrow> msg < 256 \<Longrightarrow> 0 \<le> app \<Longrightarrow> app < 256 \<Longrightarrow>
      \<exists>f. build body msg app proto sub seq = Inr f"
begin

lemma no_two_readings:
  assumes "build body msg app proto sub seq = Inr f" and "build body' msg' app' proto' sub' seq' = Inr f"
    and "body \<noteq> []" and "body' \<noteq> []"
  shows "body = body' \<and> msg = msg' \<and> app = app'"
  using deliver [OF assms(1,3)] deliver [OF assms(2,4)] by auto

lemma sent_is_received:
  assumes "0 < length body" and "length body \<le> 244" and "0 \<le> msg" and "msg < 256" and "0 \<le> app" and "app < 256"
  shows "\<exists>f p. build body msg app proto sub seq = Inr f \<and> receive f = Inr p \<and>
    pf_body p = body \<and> pf_msg_type p = msg"
  using small_builds [of body msg app proto sub seq] deliver assms by (metis length_greater_0_conv)

end

interpretation link: frame_link build_frame validate_frame
proof unfold_locales
  fix body f and msg app proto sub seq :: int
  assume "build_frame body msg app proto sub seq = Inr f" and "body \<noteq> []"
  then show "\<exists>p. validate_frame f = Inr p \<and> pf_body p = body \<and> pf_msg_type p = msg \<and> pf_appliance p = app"
    using validate_built by fastforce
next
  fix body :: bytes and msg app proto sub seq :: int
  assume "length body \<le> 244" "0 \<le> msg" "msg < 256" "0 \<le> app" "app < 256"
  then show "\<exists>f. build_frame body msg app proto sub seq = Inr f"
    using build_frame_layout [of body msg app proto sub seq] by blast
qed

subsection \<open>Fixed-shape builders\<close>

definition build_b1_property_query :: "(int \<times> int) list \<Rightarrow> int \<Rightarrow> int \<Rightarrow> int \<Rightarrow> bytes res" where
  "build_b1_property_query prop_ids appliance proto sub =
     (if prop_ids = [] then Inl ValueError
      else bind_res (to_byte (int (length prop_ids))) (\<lambda>count.
        build_frame ([0xB1, count] @ concat (map (\<lambda>(lo, hi). [low_byte lo, low_byte hi]) prop_ids))
          0x03 appliance proto sub 0))"

definition build_follow_me_frame :: "rat \<Rightarrow> int \<Rightarrow> int \<Rightarrow> int \<Rightarrow> bytes res" where
  "build_follow_me_frame celsius appliance proto sub =
     (let c = max 0 (min 50 celsius);
          raw = max 0 (min 255 (py_round (c * 2 + 50)))
      in bind_res (to_byte raw) (\<lambda>b.
         build_frame ([0x41, 0, 0, 0, 0x01, b] @ replicate 18 0) 0x03 appliance proto sub 0))"

definition build_display_toggle_frame :: "int \<Rightarrow> int \<Rightarrow> int \<Rightarrow> bytes res" where
  "build_display_toggle_frame appliance proto sub =
     build_frame ([0x41, 0x61, 0x00, 0xFF, 0x02, 0x00, 0x02, 0x00] @ replicate 13 0)
       0x03 appliance proto sub 0"

definition build_sn_query :: "int \<Rightarrow> int \<Rightarrow> int \<Rightarrow> bytes res" where
  "build_sn_query appliance proto sub = build_frame (replicate 20 0) 0x07 appliance proto sub 0"

definition build_model_query :: "int \<Rightarrow> int \<Rightarrow> int \<Rightarrow> bytes res" where
  "build_model_query appliance proto sub = build_frame (replicate 20 0) 0xA0 appliance proto sub 0"

type_synonym ip = "int \<times> int \<times> int \<times> int"

definition reversed_ip :: "ip \<Rightarrow> bytes res" where  \<comment> \<open>\<open>body[3] = ip[3]; ...; body[6] = ip[0]\<close>\<close>
  "reversed_ip ip = (case ip of (a, b, c, d) \<Rightarrow> map_res to_byte [d, c, b, a])"

definition build_network_init :: "int \<Rightarrow> ip \<Rightarrow> int \<Rightarrow> int \<Rightarrow> bytes res" where
  "build_network_init appliance ip proto sub =
     bind_res (reversed_ip ip) (\<lambda>octets.
       build_frame ([0x01, 0x01, 0x04] @ octets @ [0xFF] @ replicate 12 0) 0x0D appliance proto sub 0)"

definition build_network_status_response :: "ip \<Rightarrow> int \<Rightarrow> bool \<Rightarrow> bytes res" where
  "build_network_status_response ip signal is_connected =
     bind_res (reversed_ip ip) (\<lambda>octets.
       Inr ([if is_connected then 0x01 else 0x00, 0x01, 0x04] @ octets @ [0xFF, low_byte signal]
            @ replicate 11 0))"

definition build_version_response :: "int \<Rightarrow> int \<Rightarrow> int \<Rightarrow> bytes res" where
  "build_version_response appliance proto sub =
     build_frame (map of_char ''V1.0.0'' @ replicate 14 0) 0x13 appliance proto sub 0"

lemma reversed_ip_length: "reversed_ip ip = Inr os \<Longrightarrow> length os = 4"
  by (auto simp: reversed_ip_def split: prod.splits)

text \<open>The identifiers of a property query, read back from the body on the wire.\<close>

fun query_pairs :: "bytes \<Rightarrow> (int \<times> int) list" where
  "query_pairs (lo # hi # rest) = (uint lo, uint hi) # query_pairs rest"
| "query_pairs _ = []"

lemma query_pairs_concat:
  "query_pairs (concat (map (\<lambda>(lo, hi). [low_byte lo, low_byte hi]) ps)) =
     map (\<lambda>(lo, hi). (lo mod 256, hi mod 256)) ps"
  by (induction ps) (auto simp: uint_low_byte)

lemma length_pair_bytes: "length (concat (map (\<lambda>(lo, hi). [f lo, g hi]) ps)) = 2 * length ps"
  by (induction ps) auto

lemma b1_query_body:
  assumes "ps \<noteq> []" and "length ps < 256"
  shows "build_b1_property_query ps appliance proto sub =
    build_frame ([0xB1, word_of_nat (length ps)] @ concat (map (\<lambda>(lo, hi). [low_byte lo, low_byte hi]) ps))
      3 appliance proto sub 0"
  using assms by (simp add: build_b1_property_query_def to_byte_def)

lemma b1_query_bound:
  assumes "0 \<le> appliance" and "appliance < 256"
  shows "(\<exists>f. build_b1_property_query ps appliance proto sub = Inr f) \<longleftrightarrow> ps \<noteq> [] \<and> length ps \<le> 121"
proof (cases "ps \<noteq> [] \<and> length ps < 256")
  case True
  let ?body = "[0xB1, word_of_nat (length ps)] @ concat (map (\<lambda>(lo, hi). [low_byte lo, low_byte hi]) ps)"
  have ok: "envelope_ok ?body 3 appliance \<longleftrightarrow> length ps \<le> 121"
    using assms by (auto simp: length_pair_bytes)
  show ?thesis
  proof (cases "length ps \<le> 121")
    case True
    then show ?thesis
      using \<open>ps \<noteq> [] \<and> length ps < 256\<close> build_frame_layout [OF ok [THEN iffD2]]
      by (simp add: b1_query_body)
  next
    case False
    then have "build_frame ?body 3 appliance proto sub 0 = Inl ValueError"
      using ok by (simp only: build_frame_error) blast
    then show ?thesis
      using False \<open>ps \<noteq> [] \<and> length ps < 256\<close> by (simp add: b1_query_body)
  qed
next
  case False
  then show ?thesis by (auto simp: build_b1_property_query_def to_byte_def)
qed

subsection \<open>Properties\<close>

text \<open>C1: a frame built from any body of 1 to 244 bytes passes \<open>validate_frame\<close>, which returns the body,
  message type and appliance it was built from, and the low bytes of the remaining header fields.\<close>

theorem frame_roundtrip:
  assumes "1 \<le> length body" and "length body \<le> 244"
    and "0 \<le> msg_type" and "msg_type < 256" and "0 \<le> appliance" and "appliance < 256"
  shows "\<exists>f. build_frame body msg_type appliance proto sub seq = Inr f \<and>
    length f = length body + 12 \<and>
    validate_frame f = Inr
      \<lparr>pf_msg_type = msg_type, pf_body = body, pf_appliance = appliance, pf_proto = proto mod 256,
       pf_sub = sub mod 256, pf_seq = seq mod 256, pf_crc_ok = True, pf_checksum_ok = True\<rparr>"
proof -
  from assms obtain f where f: "build_frame body msg_type appliance proto sub seq = Inr f"
    using build_frame_layout [of body msg_type appliance proto sub seq] by blast
  moreover have "body \<noteq> []" using assms(1) by auto
  ultimately show ?thesis
    using validate_built build_frame_length by blast
qed

theorem frame_roundtrip_witness:
  "\<exists>f. build_frame [0x41, 0x81] 3 0xAC 0 0 7 = Inr f \<and> length f = length [0x41, 0x81 :: byte] + 12 \<and>
    validate_frame f = Inr
      \<lparr>pf_msg_type = 3, pf_body = [0x41, 0x81], pf_appliance = 0xAC, pf_proto = 0 mod 256,
       pf_sub = 0 mod 256, pf_seq = 7 mod 256, pf_crc_ok = True, pf_checksum_ok = True\<rparr>"
  by (rule frame_roundtrip) simp_all

text \<open>The table-driven CRC is CRC-8/MAXIM: on every input it equals the bitwise register with the
  reflected polynomial \<open>0x8C\<close>, and the data followed by its own check value leaves the register at zero.\<close>

theorem crc8_is_maxim: "crc8 data = crc8_bitwise 0 data \<and> crc8 (data @ [crc8 data]) = 0"
  by (simp add: crc8_residue) (simp add: crc8_def crc8_loop_bitwise)

text \<open>The CRC of a frame notices the change of a byte exactly when it is in the body or the CRC itself.\<close>

lemma changed_frame_crc:
  assumes "build_frame body msg_type appliance proto sub seq = Inr f" and "i < length f" and "b \<noteq> f ! i"
  shows "f[i := b] ! (length f - 2) = crc8 (slice 10 (length f - 2) (f[i := b])) \<longleftrightarrow>
    \<not> (10 \<le> i \<and> i \<le> length f - 2)"
proof -
  have len: "length f = length body + 12" by (rule build_frame_length) (rule assms(1))
  have d: "drop 10 f = body @ [crc8 body, last f]" by (rule built_frame_fields(8)) (rule assms(1))
  define g where "g = drop 10 (f[i := b])"
  have parts: "slice 10 (length f - 2) (f[i := b]) = take (length body) g"
      "f[i := b] ! (length f - 2) = g ! length body"
    using len by (simp_all add: g_def slice_def)
  show ?thesis
  proof (cases "i < 10")
    case True
    then have "g = body @ [crc8 body, last f]" by (simp add: g_def d)
    then show ?thesis using True parts by (simp add: nth_append)
  next
    case False
    then have g: "g = (body @ [crc8 body, last f])[i - 10 := b]" by (simp add: g_def drop_update_swap d)
    have old: "f ! i = (body @ [crc8 body, last f]) ! (i - 10)"
      using False assms(2) by (simp flip: d)
    consider "i - 10 < length body" | "i - 10 = length body" | "i - 10 = Suc (length body)"
      using assms(2) len False by linarith
    then show ?thesis
    proof cases
      case 1
      then have "crc8 (body[i - 10 := b]) \<noteq> crc8 body"
        using crc8_update_neq old assms(3) by (simp add: nth_append)
      then show ?thesis using 1 False parts g len by (auto simp: list_update_append nth_append)
    next
      case 2
      then have "b \<noteq> crc8 body" using old assms(3) by (simp add: nth_append)
      then show ?thesis using 2 False parts g len by (auto simp: list_update_append nth_append)
    next
      case 3
      then show ?thesis using False parts g len by (auto simp: list_update_append nth_append)
    qed
  qed
qed

text \<open>C2: after any change of one byte of a built frame, the length byte excepted, \<open>validate_frame\<close>
  raises \<open>FrameError\<close>, and by the check that is meant for the byte: a changed start byte is refused as
  a bad start, a change in the body or in the CRC byte fails the CRC, and a change in the rest of the
  header or in the checksum byte leaves the CRC right and fails the checksum.\<close>

theorem single_byte_error_detected:
  assumes "build_frame body msg_type appliance proto sub seq = Inr f" and "body \<noteq> []"
    and "i < length f" and "i \<noteq> 1" and "b \<noteq> f ! i"
  shows "validate_frame (f[i := b]) = Inl (FrameError
    (if i = 0 then BadStart
     else if 10 \<le> i \<and> i \<le> length f - 2 then CrcMismatch else ChecksumMismatch))"
proof (cases "i = 0")
  case True
  have "f ! 0 = 0xAA" by (rule built_frame_fields(1)) (rule assms(1))
  moreover have "\<not> length f < 13"
    using build_frame_length [OF assms(1)] assms(2) by (cases body) simp_all
  ultimately show ?thesis
    using True assms by (simp add: validate_frame_def parse_frame_def)
next
  case False
  let ?g = "f[i := b]"
  have len: "length f = length body + 12" and long: "\<not> length f < 13"
    using build_frame_length [OF assms(1)] assms(2) by (cases body; simp)+
  have start: "?g ! 0 = 0xAA" and total: "unat (?g ! 1) + 1 = length f"
    using built_frame_fields(1,2) [OF assms(1)] False len assms(4)
    by (simp_all add: unat_eq_nat_uint nat_add_distrib)
  have "sum_list (tl f) = 0" by (rule built_sum_zero) (rule assms(1))
  moreover have "tl ?g = (tl f)[i - 1 := b]" and "tl f ! (i - 1) = f ! i" and "i - 1 < length (tl f)"
    using False assms(3) by (cases f; cases i; simp)+
  ultimately have "sum_list (tl ?g) \<noteq> 0"
    using assms(5) by (simp add: sum_list_update_word)
  then have bad: "uint (?g ! (length f - 1)) \<noteq> frame_checksum ?g"
    using checksum_ok_sum [of ?g] len by simp
  show ?thesis
    unfolding validate_frame_def parse_frame_def Let_def
    using False long start total bad changed_frame_crc [OF assms(1,3,5)] by simp
qed

theorem single_byte_error_detected_witness:
  "\<exists>f. build_frame [0x41] 3 0xAC 0 0 0 = Inr f \<and> f ! 4 = 0 \<and> f ! 10 = 0x41 \<and>
     validate_frame (f[4 := 7]) = Inl (FrameError ChecksumMismatch) \<and>
     validate_frame (f[10 := 0x40]) = Inl (FrameError CrcMismatch)"
proof -
  obtain f where f: "build_frame [0x41] 3 0xAC 0 0 0 = Inr f" "f ! 4 = 0" "f ! 10 = 0x41" "length f = 13"
    by (simp add: build_frame_layout header_def)
  then have "validate_frame (f[4 := 7]) = Inl (FrameError ChecksumMismatch)"
    using single_byte_error_detected [OF f(1), of 4 7] by simp
  moreover have "validate_frame (f[10 := 0x40]) = Inl (FrameError CrcMismatch)"
    using single_byte_error_detected [OF f(1), of 10 "0x40"] f by simp
  ultimately show ?thesis using f by blast
qed

text \<open>The length byte is not protected: a frame whose length byte was lowered by one in transit
  still passes \<open>validate_frame\<close>, because the parser never compares the declared length with the
  number of bytes it was given.\<close>

theorem length_byte_error_accepted:
  "\<exists>f p. build_frame [0x3F] 3 0xAC 0 0 0 = Inr f \<and> f ! 1 = 0x0C \<and>
     validate_frame (f[1 := 0x0B]) = Inr p \<and> pf_body p = [0x3F]"
  by (simp add: build_frame_layout header_def validate_frame_def parse_frame_def Let_def
      slice_def frame_checksum_eq crc8_def CRC8_TABLE_def low_byte_def)

text \<open>A property query is built exactly for 1 to 121 identifiers, and its body on the wire carries
  the tag, the count and every identifier in order.\<close>

theorem b1_query_roundtrip:
  assumes "0 \<le> appliance" and "appliance < 256" and "build_b1_property_query ps appliance proto sub = Inr f"
  shows "ps \<noteq> [] \<and> length ps \<le> 121 \<and>
    (\<exists>p. validate_frame f = Inr p \<and> pf_msg_type p = 3 \<and> hd (pf_body p) = 0xB1 \<and>
         unat (pf_body p ! 1) = length ps \<and>
         query_pairs (drop 2 (pf_body p)) = map (\<lambda>(lo, hi). (lo mod 256, hi mod 256)) ps)"
proof -
  have n: "ps \<noteq> [] \<and> length ps \<le> 121"
    using b1_query_bound [OF assms(1,2)] assms(3) by blast
  then obtain p where "validate_frame f = Inr p" "pf_msg_type p = 3"
      "pf_body p = [0xB1, word_of_nat (length ps)] @ concat (map (\<lambda>(lo, hi). [low_byte lo, low_byte hi]) ps)"
    using link.deliver assms(3) by (auto simp: b1_query_body) (metis append_Cons list.distinct(1))
  with n show ?thesis by (simp add: query_pairs_concat unat_of_nat)
qed

theorem b1_query_roundtrip_witness:
  "\<exists>f p. build_b1_property_query [(0x42, 0), (0x15, 0)] 0xAC 0 0 = Inr f \<and> validate_frame f = Inr p \<and>
     query_pairs (drop 2 (pf_body p)) = [(0x42, 0), (0x15, 0)]"
proof -
  obtain f where f: "build_b1_property_query [(0x42, 0), (0x15, 0)] 0xAC 0 0 = Inr f"
    using b1_query_bound [of "0xAC" "[(0x42, 0), (0x15, 0)]" 0 0] by auto
  have "(0 :: int) \<le> 0xAC" "(0xAC :: int) < 256" by simp_all
  from b1_query_roundtrip [OF this f] f show ?thesis by auto
qed

text \<open>Follow Me sends a temperature clamped to 0..50 degrees as a raw byte between 50 and 150 that
  decodes, by \<open>(raw - 50) / 2\<close>, to within a quarter of a degree of it; the frame always builds.\<close>

theorem follow_me_accuracy:
  assumes "0 \<le> appliance" and "appliance < 256"
  shows "\<exists>f p. build_follow_me_frame celsius appliance proto sub = Inr f \<and> validate_frame f = Inr p \<and>
    length (pf_body p) = 24 \<and> 50 \<le> uint (pf_body p ! 5) \<and> uint (pf_body p ! 5) \<le> 150 \<and>
    \<bar>(of_int (uint (pf_body p ! 5)) - 50) / 2 - max 0 (min 50 celsius)\<bar> \<le> 1/4"
proof -
  define c where "c = max 0 (min 50 celsius)"
  define r where "r = py_round (c * 2 + 50)"
  have c: "0 \<le> c" "c \<le> 50" by (simp_all add: c_def)
  have near: "\<bar>of_int r - (c * 2 + 50)\<bar> \<le> 1/2" unfolding r_def by (rule py_round_near)
  then have "of_int r < (151 :: rat)" "(49 :: rat) < of_int r" using c by linarith+
  then have r: "50 \<le> r" "r \<le> 150" by linarith+
  then obtain b where b: "to_byte (max 0 (min 255 r)) = Inr b" "uint b = r"
    by (simp add: to_byte_def uint_word_of_int)
  have "build_follow_me_frame celsius appliance proto sub =
      build_frame ([0x41, 0, 0, 0, 0x01, b] @ replicate 18 0) 3 appliance proto sub 0"
    using b by (simp add: build_follow_me_frame_def c_def r_def Let_def)
  moreover obtain f p where "build_frame ([0x41, 0, 0, 0, 0x01, b] @ replicate 18 0) 3 appliance proto sub 0 = Inr f"
      "validate_frame f = Inr p" "pf_body p = [0x41, 0, 0, 0, 0x01, b] @ replicate 18 0"
    using link.sent_is_received [of "[0x41, 0, 0, 0, 0x01, b] @ replicate 18 0" 3 appliance proto sub 0]
      assms by auto
  moreover have "\<bar>(of_int r - 50) / 2 - c\<bar> \<le> 1/4" using near by (simp add: abs_le_iff field_simps)
  ultimately show ?thesis using b r by (auto simp: c_def)
qed

theorem follow_me_accuracy_witness:
  "\<exists>f p. build_follow_me_frame (43/2) 0xAC 0 0 = Inr f \<and> validate_frame f = Inr p \<and>
    length (pf_body p) = 24 \<and> 50 \<le> uint (pf_body p ! 5) \<and> uint (pf_body p ! 5) \<le> 150 \<and>
    \<bar>(of_int (uint (pf_body p ! 5)) - 50) / 2 - max 0 (min 50 (43/2 :: rat))\<bar> \<le> 1/4"
  by (rule follow_me_accuracy) simp_all

end
