(* ===== verification/Glossary.thy ===== *)
theory Glossary
  imports Py_Prelude
begin

section \<open>The glossary: the data the codec interprets (\<open>codec.py\<close>, field walkers)\<close>

text \<open>
  The library is driven by \<open>data/glossary.yaml\<close>.  Its entries are plain dictionaries whose
  shape \<open>glossary_schema.json\<close> fixes; they are records here, an absent key being \<open>None\<close> or the
  empty list.  What the code iterates over (categories, fields, protocols, capability values)
  is an ordered association list, as a Python dictionary is.  The operations are the walkers of
  \<open>codec.py\<close>: \<open>walk_fields\<close>, \<open>build_field_map\<close>, \<open>build_cap_index\<close>, \<open>infer_generation\<close>.
\<close>

subsection \<open>Nested values passed through unread\<close>

datatype yaml = YScalar pyval | YList "yaml list" | YDict "(string \<times> yaml) list"

subsection \<open>Decode steps and encodings\<close>

record bit_source =
  bs_offset :: nat
  bs_bits :: "nat \<times> nat"

record half_bit_def =
  hb_offset :: nat
  hb_bit :: nat

record tenths_def =
  tn_offset :: nat
  tn_nibble :: "string option"

record decode_step =
  ds_property_id :: "string option"
  ds_offset :: "nat option"
  ds_bits :: "(nat \<times> nat) option"
  ds_logic :: "string option"
  ds_sources :: "bit_source list"
  ds_invert :: bool
  ds_condition :: "string option"
  ds_condition_predicate :: "string option"
  ds_add :: "pyval option"
  ds_half_bit :: "half_bit_def option"
  ds_encoding :: "string option"
  ds_tenths_nibble :: "tenths_def option"

definition plain_step :: "nat \<Rightarrow> nat \<times> nat \<Rightarrow> decode_step" where
  "plain_step offset bits =
     \<lparr>ds_property_id = None, ds_offset = Some offset, ds_bits = Some bits, ds_logic = None,
      ds_sources = [], ds_invert = False, ds_condition = None, ds_condition_predicate = None,
      ds_add = None, ds_half_bit = None, ds_encoding = None, ds_tenths_nibble = None\<rparr>"

record encoding_def =
  en_scale :: "rat option"
  en_offset :: "rat option"
  en_byte_count :: "nat option"
  en_byte_order :: "string option"

type_synonym encodings = "(string, encoding_def) dict"

subsection \<open>Capabilities and constraint envelopes\<close>

record envelope =
  ev_valid_range :: "pyval list option"
  ev_valid_set :: "pyval list option"
  ev_step :: "pyval option"
  ev_correction :: "string option"
  ev_extra :: "(string \<times> yaml) list"  \<comment> \<open>\<open>slider\<close>, \<open>values\<close>, \<open>custom_value\<close>\<close>

definition no_envelope :: envelope where
  "no_envelope = \<lparr>ev_valid_range = None, ev_valid_set = None, ev_step = None,
                  ev_correction = None, ev_extra = []\<rparr>"

record constraints =
  ac_by_mode :: "(string option, envelope) dict option"  \<comment> \<open>the key \<open>None\<close> is a rule without a mode\<close>
  ac_top :: envelope

record cap_value =
  cv_raw :: "int option"
  cv_encoding :: "string option"
  cv_feature_available :: "string option"
  cv_ui_gate :: "yaml option"
  cv_envelope :: envelope

record cap_rule =
  cr_offset :: "nat option"
  cr_formula :: "string option"
  cr_role :: "string option"
  cr_mode :: "string option"
  cr_unit :: "string option"

record capability =
  cap_id :: "string option"
  cap_type :: "string option"
  cap_values :: "(string, cap_value) dict"
  cap_decode :: "(string, cap_rule) dict"
  cap_frames :: "string list"
  cap_default :: "constraints option"

subsection \<open>Visibility, gates, composites\<close>

record ux_block =
  ux_hardware_flag :: "string option"
  ux_visible_in_modes :: "string list option"

record interlock =
  il_field :: "string option"
  il_at :: "string option"
  il_modes :: "string list option"
  il_blocks_when :: "string option"

record mode_fork =
  mf_cap_id :: "string option"
  mf_when_raw :: "int option"
  mf_modes :: "string list option"

record gate_block =
  ga_requires_power :: "bool option"
  ga_cap_mode :: bool
  ga_mode_forks :: "mode_fork list"
  ga_interlocks :: "interlock list"

record member_wire =
  mw_byte_position :: string
  mw_encoding :: "string option"
  mw_bit_range :: "nat list"

datatype wire_spec = NoWire | OneWire member_wire | WireList "member_wire list"

record proto_loc =
  pl_direction :: "string option"
  pl_decode :: "decode_step list"
  pl_property_id :: "string option"

record field_def =
  fd_data_type :: "string option"
  fd_feature_available :: "string option"
  fd_default_priority :: "string list option"
  fd_default_value :: "pyval option"
  fd_sentinel_values :: "int list"
  fd_range :: "pyval list option"
  fd_values :: "(string, pyval option) dict"
  fd_valid_modes :: "string list"
  fd_protocols :: "(string, proto_loc) dict"
  fd_capability :: "capability option"
  fd_ux :: "ux_block option"
  fd_gate :: "gate_block option"
  fd_forces :: "(string, pyval) dict"
  fd_members :: "(string \<times> wire_spec) list"
  fd_has_composite :: bool
  fd_formula :: "string option"
  fd_has_derived :: bool
  fd_global_constraints :: "yaml list"
  fd_excluded_reasons :: "string list"
  fd_unit :: "string option"

subsection \<open>Frames and the glossary itself\<close>

datatype body_spec =
    BodyBytes nat "int list"
  | BodyBytesAt nat "(int \<times> int) list"
  | BodyAssembled "nat option" string
  | BodyUnknown

record frame_spec =
  fs_body :: body_spec
  fs_msg_type :: "int option"
  fs_triggers :: "string list"
  fs_bus :: "string list"

text \<open>
  A node under a category is a field (a dictionary with a \<open>description\<close>), a group of nodes (a
  dictionary without one) or anything else; a category that is not a dictionary is \<open>None\<close>.
\<close>

datatype node = Field field_def | Group "(string \<times> node) list" | Other

type_synonym categories = "(string \<times> (string \<times> node) list option) list"

record glossary =
  gl_fields :: categories
  gl_encodings :: encodings
  gl_frames :: "(string, frame_spec) dict"
  gl_protocol_generations :: "(string, string) dict"
  gl_version :: string

subsection \<open>Field walkers\<close>

text \<open>The visits of \<open>walk_fields\<close> and \<open>build_field_map\<close>: category, node, members of a group.\<close>

fun node_fields :: "string \<times> node \<Rightarrow> (string \<times> field_def) list" where
  "node_fields (key, Field d) = [(key, d)]"
| "node_fields (key, Group ns) =
     concat (map (\<lambda>(n, x). case x of Field d \<Rightarrow> [(n, d)] | _ \<Rightarrow> []) ns)"
| "node_fields (key, Other) = []"

definition category_fields :: "string \<times> (string \<times> node) list option \<Rightarrow> (string \<times> field_def) list" where
  "category_fields c = (case snd c of None \<Rightarrow> [] | Some nodes \<Rightarrow> concat (map node_fields nodes))"

definition visited_fields :: "glossary \<Rightarrow> (string \<times> field_def) list" where
  "visited_fields g = concat (map category_fields (gl_fields g))"

definition walk_fields :: "glossary \<Rightarrow> (string, field_def) dict" where
  "walk_fields g = fold (\<lambda>(name, d). dset name d) (visited_fields g) []"

record field_entry =
  fe_name :: string
  fe_decode :: "decode_step list"
  fe_data_type :: "string option"
  fe_capability :: "capability option"
  fe_default_value :: "pyval option"
  fe_sentinel_values :: "int list"
  fe_value_range :: "pyval list option"

definition check_field :: "field_entry list \<Rightarrow> string \<Rightarrow> field_def \<Rightarrow> string \<Rightarrow> field_entry list" where
  "check_field result name d protocol_key =
     (case dget (fd_protocols d) protocol_key of
        None \<Rightarrow> result
      | Some ploc \<Rightarrow>
          (if pl_decode ploc = [] then result
           else result @
             [\<lparr>fe_name = name, fe_decode = pl_decode ploc, fe_data_type = fd_data_type d,
               fe_capability = fd_capability d, fe_default_value = fd_default_value d,
               fe_sentinel_values = fd_sentinel_values d, fe_value_range = fd_range d\<rparr>]))"

definition build_field_map :: "glossary \<Rightarrow> string \<Rightarrow> field_entry list" where
  "build_field_map g protocol_key =
     fold (\<lambda>(name, d) result. check_field result name d protocol_key) (visited_fields g) []"

definition build_cap_index :: "(string, field_def) dict \<Rightarrow> (string \<times> string, string list) dict" where
  "build_cap_index flds =
     fold (\<lambda>(name, d) index.
        case fd_capability d of
          None \<Rightarrow> index
        | Some cap \<Rightarrow>
            (case (cap_id cap, cap_type cap) of
               (Some cid, Some cty) \<Rightarrow>
                 (let key = (lower cid, cty)
                  in dset key (dget_or index key [] @ [name]) index)
             | _ \<Rightarrow> index))
       flds []"

definition infer_generation :: "string \<Rightarrow> glossary \<Rightarrow> string option" where
  "infer_generation frame_key g = dget (gl_protocol_generations g) frame_key"

subsection \<open>Lemmas\<close>

lemma distinct_walk_fields [simp]: "distinct (dkeys (walk_fields g))"
proof -
  have "distinct (dkeys d) \<Longrightarrow> distinct (dkeys (fold (\<lambda>(name, x). dset name x) ps d))"
    for ps :: "(string \<times> field_def) list" and d
    by (induction ps arbitrary: d) auto
  then show ?thesis by (simp add: walk_fields_def dkeys_def)
qed

text \<open>The last definition visited under a name is the one \<open>walk_fields\<close> keeps.\<close>

lemma walk_fields_lookup: "dget (walk_fields g) name = map_of (rev (visited_fields g)) name"
  by (simp add: walk_fields_def dget_fold_dset split: option.splits)

lemma build_field_map_eq:
  "build_field_map g key = concat (map (\<lambda>(name, d). check_field [] name d key) (visited_fields g))"
proof -
  have "fold (\<lambda>(name, d) result. check_field result name d key) ps acc =
      acc @ concat (map (\<lambda>(name, d). check_field [] name d key) ps)"
    for ps acc
    by (induction ps arbitrary: acc) (auto simp: check_field_def split: option.splits)
  then show ?thesis by (simp add: build_field_map_def)
qed

lemma build_field_map_decode: "e \<in> set (build_field_map g key) \<Longrightarrow> fe_decode e \<noteq> []"
  by (auto simp: build_field_map_eq check_field_def split: option.splits if_splits)

text \<open>An entry of the map for a key comes from a field that lists exactly that protocol.\<close>

lemma build_field_map_origin:
  assumes "e \<in> set (build_field_map g key)"
  shows "\<exists>d ploc. (fe_name e, d) \<in> set (visited_fields g) \<and> dget (fd_protocols d) key = Some ploc \<and>
    pl_decode ploc = fe_decode e \<and> fe_data_type e = fd_data_type d"
proof -
  from assms obtain n d where "(n, d) \<in> set (visited_fields g)" and "e \<in> set (check_field [] n d key)"
    by (auto simp: build_field_map_eq)
  then show ?thesis
    by (cases "dget (fd_protocols d) key")
       (auto simp: check_field_def split: if_splits intro!: exI [of _ d])
qed

lemma has_key_walk_fields: "has_key (walk_fields g) name \<longleftrightarrow> name \<in> fst ` set (visited_fields g)"
  by (simp add: has_key_def walk_fields_lookup map_of_eq_None_iff)

lemma build_field_map_has_key: "e \<in> set (build_field_map g key) \<Longrightarrow> has_key (walk_fields g) (fe_name e)"
  using build_field_map_origin has_key_walk_fields by (metis fst_conv image_eqI)

text \<open>The index holds a field exactly under its own capability identity.\<close>

lemma build_cap_index_member:
  "name \<in> set (dget_or (build_cap_index flds) (cid, cty) []) \<longleftrightarrow>
     (\<exists>d cap i. (name, d) \<in> set flds \<and> fd_capability d = Some cap \<and>
        cap_id cap = Some i \<and> lower i = cid \<and> cap_type cap = Some cty)"
proof -
  let ?step = "\<lambda>(name, d) index. case fd_capability d of None \<Rightarrow> index
        | Some cap \<Rightarrow> (case (cap_id cap, cap_type cap) of
               (Some cid, Some cty) \<Rightarrow> (let key = (lower cid, cty)
                  in dset key (dget_or index key [] @ [name]) index) | _ \<Rightarrow> index)"
  have gen: "name \<in> set (dget_or (fold ?step fs index) (cid, cty) []) \<longleftrightarrow>
     name \<in> set (dget_or index (cid, cty) []) \<or>
     (\<exists>d cap i. (name, d) \<in> set fs \<and> fd_capability d = Some cap \<and>
        cap_id cap = Some i \<and> lower i = cid \<and> cap_type cap = Some cty)" for fs index
  proof (induction fs arbitrary: index)
    case Nil
    then show ?case by simp
  next
    case (Cons p fs)
    obtain n d where p: "p = (n, d)" by (cases p)
    show ?case
      unfolding fold_simps Cons.IH p
      by (auto simp: dget_or_def Let_def split: option.splits if_splits)
  qed
  show ?thesis unfolding build_cap_index_def gen by (simp add: dget_or_def)
qed

end
