(* ===== verification/Tlv.thy ===== *)
theory Tlv
  imports Py_Prelude
begin

section \<open>TLV records of capability and property frames (\<open>codec.py\<close>)\<close>

text \<open>
  \<open>parse_b5_tlv\<close> reads the records of a B5 capability response (identifier, type, length, data)
  and the next-page flag behind them; \<open>parse_b0b1_tlv\<close> those of a B0/B1 property frame
  (identifier low and high byte, status, length, data), each with the outcome
  \<open>classify_b0b1_record\<close> gives it.  Both loops are the same cursor over the body with another
  header: the locale \<open>tlv_cursor\<close> states that contract once, its lemmas (the cursor stays inside the
  body, no record is read past its end, what an encoder wrote is what comes back) are proved
  there, and both parsers are instances.
\<close>

subsection \<open>Capability records\<close>

definition bytes_hex :: "bytes \<Rightarrow> string" where  \<comment> \<open>\<open>data.hex()\<close>\<close>
  "bytes_hex bs = concat (map (\<lambda>b. lower (hex2 b)) bs)"

record cap_record =
  cr_cap_id :: string
  cr_cap_type :: int
  cr_key_16 :: string
  cr_data_len :: nat
  cr_data :: bytes
  cr_data_hex :: string

definition mk_cap_record :: "byte \<Rightarrow> byte \<Rightarrow> bytes \<Rightarrow> cap_record" where
  "mk_cap_record cid ctype data =
     \<lparr>cr_cap_id = ''0x'' @ hex2 cid, cr_cap_type = uint ctype,
      cr_key_16 = ''0x'' @ hex2 ctype @ hex2 cid,
      cr_data_len = length data, cr_data = data, cr_data_hex = bytes_hex data\<rparr>"

text \<open>
  The loop \<open>while pos < len(body) and len(records) < record_count\<close>; the first argument counts
  the records still allowed.
\<close>

fun b5_loop :: "nat \<Rightarrow> bytes \<Rightarrow> nat \<Rightarrow> cap_record list \<Rightarrow> cap_record list \<times> nat" where
  "b5_loop 0 body pos records = (records, pos)"
| "b5_loop (Suc n) body pos records =
     (if pos < length body then
        if pos + 3 > length body then (records, pos)
        else
          let cap_id = body ! pos;
              cap_type = body ! (pos + 1);
              data_len = unat (body ! (pos + 2))
          in if pos + 3 + data_len > length body then (records, pos)
             else b5_loop n body (pos + 3 + data_len)
                    (records @ [mk_cap_record cap_id cap_type (slice (pos + 3) (pos + 3 + data_len) body)])
      else (records, pos))"

definition parse_b5_tlv :: "bytes \<Rightarrow> (cap_record list \<times> bool) res" where
  "parse_b5_tlv body =
     bind_res (py_nth body 0) (\<lambda>tag.
       if tag \<noteq> 0xB5 then Inl ValueError
       else bind_res (py_nth body 1) (\<lambda>record_count.
         let (records, pos) = b5_loop (unat record_count) body 2 [];
             next_frame = (if pos < length body then body ! pos = 1 else False)
         in Inr (records, next_frame)))"

subsection \<open>Property records\<close>

datatype outcome = Rec_ok | Rec_empty | Rec_in_progress | Rec_rejected | Rec_unknown

definition B0B1_STATUS_OK :: byte where "B0B1_STATUS_OK = 0x00"
definition B0B1_STATUS_IN_PROGRESS :: byte where "B0B1_STATUS_IN_PROGRESS = 0x01"
definition B0B1_STATUS_FAILED :: byte where "B0B1_STATUS_FAILED = 0x10"
definition B0B1_STATUS_INVALID_ATTR :: byte where "B0B1_STATUS_INVALID_ATTR = 0x11"
definition B0B1_STATUS_VALUE_ERROR :: byte where "B0B1_STATUS_VALUE_ERROR = 0x12"

definition classify_b0b1_record :: "byte \<Rightarrow> nat \<Rightarrow> outcome" where
  "classify_b0b1_record status data_len =
     (if status = B0B1_STATUS_OK then (if data_len > 0 then Rec_ok else Rec_empty)
      else if status = B0B1_STATUS_IN_PROGRESS then Rec_in_progress
      else if status \<in> {B0B1_STATUS_FAILED, B0B1_STATUS_INVALID_ATTR, B0B1_STATUS_VALUE_ERROR} then Rec_rejected
      else Rec_unknown)"

record prop_record =
  pr_property_id :: string
  pr_status :: byte
  pr_outcome :: outcome
  pr_is_readable :: bool
  pr_data_len :: nat
  pr_data :: bytes

definition prop_key :: "byte \<Rightarrow> byte \<Rightarrow> string" where  \<comment> \<open>\<open>f"0x{lo:02X},0x{hi:02X}"\<close>\<close>
  "prop_key lo hi = hex_id lo @ '','' @ hex_id hi"

definition mk_prop_record :: "byte \<Rightarrow> byte \<Rightarrow> byte \<Rightarrow> bytes \<Rightarrow> prop_record" where
  "mk_prop_record lo hi status data =
     (let outcome = classify_b0b1_record status (length data)
      in \<lparr>pr_property_id = prop_key lo hi, pr_status = status, pr_outcome = outcome,
          pr_is_readable = (outcome = Rec_ok), pr_data_len = length data, pr_data = data\<rparr>)"

lemma mk_prop_record_simps [simp]:
  "pr_is_readable (mk_prop_record lo hi status data) \<longleftrightarrow> status = 0 \<and> data \<noteq> []"
  "pr_status (mk_prop_record lo hi status data) = status"
  "pr_data (mk_prop_record lo hi status data) = data"
  "pr_property_id (mk_prop_record lo hi status data) = prop_key lo hi"
  by (auto simp: mk_prop_record_def classify_b0b1_record_def B0B1_STATUS_OK_def
      B0B1_STATUS_IN_PROGRESS_def Let_def)

fun b0b1_loop :: "nat \<Rightarrow> bytes \<Rightarrow> nat \<Rightarrow> prop_record list \<Rightarrow> prop_record list \<times> nat" where
  "b0b1_loop 0 body pos records = (records, pos)"
| "b0b1_loop (Suc n) body pos records =
     (if pos < length body then
        if pos + 4 > length body then (records, pos)
        else
          let lo = body ! pos;
              hi = body ! (pos + 1);
              status = body ! (pos + 2);
              data_len = unat (body ! (pos + 3))
          in if pos + 4 + data_len > length body then (records, pos)
             else b0b1_loop n body (pos + 4 + data_len)
                    (records @ [mk_prop_record lo hi status (slice (pos + 4) (pos + 4 + data_len) body)])
      else (records, pos))"

definition parse_b0b1_tlv :: "bytes \<Rightarrow> prop_record list res" where
  "parse_b0b1_tlv body =
     bind_res (py_nth body 1) (\<lambda>record_count. Inr (fst (b0b1_loop (unat record_count) body 2 [])))"

subsection \<open>The cursor, once\<close>

locale tlv_cursor =
  fixes hdr :: nat
    and mk :: "bytes \<Rightarrow> bytes \<Rightarrow> 'r"
    and loop :: "nat \<Rightarrow> bytes \<Rightarrow> nat \<Rightarrow> 'r list \<Rightarrow> 'r list \<times> nat"
  assumes hdr_pos: "0 < hdr"
    and loop_0: "loop 0 body pos rs = (rs, pos)"
    and loop_Suc: "loop (Suc n) body pos rs =
      (if pos + hdr \<le> length body \<and> pos + hdr + unat (body ! (pos + hdr - 1)) \<le> length body
       then loop n body (pos + hdr + unat (body ! (pos + hdr - 1)))
              (rs @ [mk (slice pos (pos + hdr) body)
                        (slice (pos + hdr) (pos + hdr + unat (body ! (pos + hdr - 1))) body)])
       else (rs, pos))"
begin

text \<open>The cursor never leaves the body and never moves back.\<close>

lemma cursor_bounds:
  assumes "loop n body pos rs = (rs', pos')" and "pos \<le> length body"
  shows "pos \<le> pos' \<and> pos' \<le> length body"
  using assms
proof (induction n arbitrary: pos rs)
  case 0
  then show ?case by (simp add: loop_0)
next
  case (Suc n)
  show ?case
  proof (cases "pos + hdr \<le> length body \<and> pos + hdr + unat (body ! (pos + hdr - 1)) \<le> length body")
    case True
    with Suc.prems have "loop n body (pos + hdr + unat (body ! (pos + hdr - 1)))
        (rs @ [mk (slice pos (pos + hdr) body)
           (slice (pos + hdr) (pos + hdr + unat (body ! (pos + hdr - 1))) body)]) = (rs', pos')"
      by (simp add: loop_Suc)
    from Suc.IH [OF this] True show ?thesis by auto
  next
    case False
    with Suc.prems show ?thesis by (auto simp: loop_Suc)
  qed
qed

lemma record_bound:
  assumes "loop n body pos rs = (rs', pos')"
  shows "length rs' \<le> length rs + n"
  using assms
proof (induction n arbitrary: pos rs)
  case 0
  then show ?case by (simp add: loop_0)
next
  case (Suc n)
  then show ?case by (fastforce simp: loop_Suc split: if_splits)
qed

text \<open>An entry as an encoder writes it: the header ends with the length of the data.\<close>

definition entry :: "bytes \<times> bytes \<Rightarrow> bool" where
  "entry e \<longleftrightarrow> length (fst e) = hdr \<and> unat (last (fst e)) = length (snd e)"

lemma loop_entry:
  assumes "entry (h, d)"
  shows "loop (Suc n) (pre @ h @ d @ post) (length pre) rs =
    loop n (pre @ h @ d @ post) (length pre + hdr + length d) (rs @ [mk h d])"
proof -
  have h: "length h = hdr" and l: "unat (last h) = length d" using assms by (auto simp: entry_def)
  have "h \<noteq> []" using h hdr_pos by auto
  have "(pre @ h @ d @ post) ! (length pre + (hdr - 1)) = (h @ d @ post) ! (hdr - 1)"
    by (rule nth_append_length_plus)
  moreover have "length pre + hdr - 1 = length pre + (hdr - 1)" using hdr_pos by simp
  moreover have "(h @ d @ post) ! (hdr - 1) = last h"
    using h hdr_pos \<open>h \<noteq> []\<close> by (simp add: nth_append last_conv_nth)
  ultimately have "(pre @ h @ d @ post) ! (length pre + hdr - 1) = last h" by simp
  then show ?thesis
    using h l by (simp add: loop_Suc slice_def)
qed

lemma loop_entries:
  assumes "\<forall>e \<in> set es. entry e"
  shows "loop (length es) (pre @ concat (map (\<lambda>(h, d). h @ d) es) @ post) (length pre) rs =
    (rs @ map (\<lambda>(h, d). mk h d) es, length pre + length (concat (map (\<lambda>(h, d). h @ d) es)))"
  using assms
proof (induction es arbitrary: pre rs)
  case Nil
  then show ?case by (simp add: loop_0)
next
  case (Cons e es)
  obtain h d where e: "e = (h, d)" by (cases e)
  have hd: "entry (h, d)" using Cons.prems e by simp
  have len: "length h = hdr" using hd by (simp add: entry_def)
  have "\<forall>e \<in> set es. entry e" using Cons.prems by simp
  from Cons.IH [OF this, of "pre @ h @ d" "rs @ [mk h d]"]
  show ?case
    using loop_entry [OF hd, of "length es" pre "concat (map (\<lambda>(h, d). h @ d) es) @ post" rs]
    by (simp add: e len add.assoc)
qed

text \<open>
  Conversely, whatever the body holds, the bytes between the two cursor positions are exactly
  the entries returned: the loop drops and invents nothing.
\<close>

lemma loop_exact:
  assumes "loop n body pos rs = (rs', pos')" and "pos \<le> length body"
  shows "\<exists>es. length es \<le> n \<and> (\<forall>e \<in> set es. entry e) \<and> rs' = rs @ map (\<lambda>(h, d). mk h d) es \<and>
    drop pos body = concat (map (\<lambda>(h, d). h @ d) es) @ drop pos' body"
  using assms
proof (induction n arbitrary: pos rs)
  case 0
  then show ?case by (auto simp: loop_0 intro!: exI [of _ "[]"])
next
  case (Suc n)
  let ?h = "slice pos (pos + hdr) body" and ?k = "unat (body ! (pos + hdr - 1))"
  let ?d = "slice (pos + hdr) (pos + hdr + ?k) body"
  show ?case
  proof (cases "pos + hdr \<le> length body \<and> pos + hdr + ?k \<le> length body")
    case True
    with Suc.prems have "loop n body (pos + hdr + ?k) (rs @ [mk ?h ?d]) = (rs', pos')"
      by (simp add: loop_Suc)
    from Suc.IH [OF this] True obtain es where es: "length es \<le> n" "\<forall>e \<in> set es. entry e"
      "rs' = rs @ map (\<lambda>(h, d). mk h d) ((?h, ?d) # es)"
      "drop (pos + hdr + ?k) body = concat (map (\<lambda>(h, d). h @ d) es) @ drop pos' body"
      by auto
    have "last ?h = body ! (pos + hdr - 1)"
      using True hdr_pos by (simp add: slice_def last_conv_nth min_absorb2 le_diff_conv2)
    then have "entry (?h, ?d)" using True by (auto simp: entry_def min_def)
    moreover have "drop pos body = ?h @ ?d @ drop (pos + hdr + ?k) body"
    proof -
      have "?h = take hdr (drop pos body)" and "?d = take ?k (drop hdr (drop pos body))"
        and "drop (pos + hdr + ?k) body = drop ?k (drop hdr (drop pos body))"
        by (simp_all add: slice_def ac_simps)
      then show ?thesis by (simp only: append_take_drop_id)
    qed
    ultimately show ?thesis
      using es by (intro exI [of _ "(?h, ?d) # es"]) simp
  next
    case False
    with Suc.prems show ?thesis by (auto simp: loop_Suc intro!: exI [of _ "[]"])
  qed
qed

end

interpretation b5: tlv_cursor 3 "\<lambda>h d. mk_cap_record (h ! 0) (h ! 1) d" b5_loop
  by unfold_locales (auto simp: slice_def Let_def nth_append add.commute)

interpretation b0b1: tlv_cursor 4 "\<lambda>h d. mk_prop_record (h ! 0) (h ! 1) (h ! 2) d" b0b1_loop
  by unfold_locales (auto simp: slice_def Let_def nth_append add.commute)

subsection \<open>Properties\<close>

text \<open>What a device sends: the records of a capability response and of a property frame on the wire.\<close>

definition b5_entry :: "byte \<times> byte \<times> bytes \<Rightarrow> bytes" where
  "b5_entry e = (case e of (cid, ctype, data) \<Rightarrow> [cid, ctype, word_of_nat (length data)] @ data)"

definition encode_b5 :: "(byte \<times> byte \<times> bytes) list \<Rightarrow> byte \<Rightarrow> bytes" where
  "encode_b5 es flag = [0xB5, word_of_nat (length es)] @ concat (map b5_entry es) @ [flag, 0]"

definition prop_entry :: "byte \<times> byte \<times> byte \<times> bytes \<Rightarrow> bytes" where
  "prop_entry e = (case e of (lo, hi, status, data) \<Rightarrow> [lo, hi, status, word_of_nat (length data)] @ data)"

definition encode_props :: "byte \<Rightarrow> (byte \<times> byte \<times> byte \<times> bytes) list \<Rightarrow> bytes" where
  "encode_props tag es = [tag, word_of_nat (length es)] @ concat (map prop_entry es)"

text \<open>A capability response of up to 255 records parses back to exactly those records in order, and
  the next-page flag is read from the byte behind them.\<close>

theorem b5_roundtrip:
  assumes "length es < 256" and "\<forall>e \<in> set es. length (snd (snd e)) < 256"
  shows "parse_b5_tlv (encode_b5 es flag) =
    Inr (map (\<lambda>(cid, ctype, data). mk_cap_record cid ctype data) es, flag = 1)"
proof -
  let ?split = "\<lambda>(cid, ctype, data). ([cid, ctype, word_of_nat (length data)], data)"
  let ?es = "map ?split es" and ?pre = "[0xB5, word_of_nat (length es) :: byte]"
  have wf: "\<forall>e \<in> set ?es. b5.entry e"
    using assms(2) by (auto simp: b5.entry_def unat_of_nat)
  have loop: "b5_loop (length es) (encode_b5 es flag) 2 [] =
      (map (\<lambda>(cid, ctype, data). mk_cap_record cid ctype data) es, 2 + length (concat (map b5_entry es)))"
    using b5.loop_entries [OF wf, of ?pre "[flag, 0]" "[]"]
    by (simp add: comp_def case_prod_unfold encode_b5_def b5_entry_def [abs_def] numeral_2_eq_2)
  have "encode_b5 es flag ! (2 + length (concat (map b5_entry es))) = flag"
    by (simp add: encode_b5_def nth_append)
  moreover have "2 + length (concat (map b5_entry es)) < length (encode_b5 es flag)"
    by (simp add: encode_b5_def)
  moreover have "py_nth (encode_b5 es flag) 0 = Inr 0xB5"
    and "py_nth (encode_b5 es flag) 1 = Inr (word_of_nat (length es))"
    by (simp_all add: encode_b5_def py_nth_def)
  moreover have "unat (word_of_nat (length es) :: byte) = length es"
    using assms(1) by (simp add: unat_of_nat)
  ultimately show ?thesis
    using loop by (simp only: parse_b5_tlv_def bind_res_simps) simp
qed

theorem b5_roundtrip_witness:
  "parse_b5_tlv (encode_b5 [(0x10, 2, [1]), (0x25, 2, [34, 60, 0])] 1) =
     Inr (map (\<lambda>(cid, ctype, data). mk_cap_record cid ctype data)
           [(0x10, 2, [1]), (0x25, 2, [34, 60, 0])], (1 :: byte) = 1)"
  by (rule b5_roundtrip) simp_all

text \<open>On every body that starts with the B5 tag and a count, truncated or overlong ones included,
  the parser returns: at most the counted number of records, which are exactly the bytes that
  follow the two header bytes up to the cursor, and the flag of the byte at the cursor.\<close>

theorem b5_parse_exact:
  assumes "2 \<le> length body" and "body ! 0 = 0xB5"
  shows "\<exists>es rest. parse_b5_tlv body =
      Inr (map (\<lambda>(cid, ctype, data). mk_cap_record cid ctype data) es, rest \<noteq> [] \<and> hd rest = 1) \<and>
    length es \<le> unat (body ! 1) \<and> (\<forall>(cid, ctype, data) \<in> set es. length data < 256) \<and>
    body = take 2 body @ concat (map b5_entry es) @ rest"
proof -
  obtain rs pos where loop: "b5_loop (unat (body ! 1)) body 2 [] = (rs, pos)"
    by (cases "b5_loop (unat (body ! 1)) body 2 []")
  obtain es where es: "length es \<le> unat (body ! 1)" "\<forall>e \<in> set es. b5.entry e"
    "rs = map (\<lambda>(h, d). mk_cap_record (h ! 0) (h ! 1) d) es"
    "drop 2 body = concat (map (\<lambda>(h, d). h @ d) es) @ drop pos body"
    using b5.loop_exact [OF loop] assms(1) by auto
  let ?join = "\<lambda>(h :: bytes, d :: bytes). (h ! 0, h ! 1, d)"
  have shape: "b5_entry (?join e) = fst e @ snd e" "length (snd e) < 256" if "e \<in> set es" for e
  proof -
    obtain h d where e: "e = (h, d)" by (cases e)
    from es(2) that e have h: "length h = 3" "unat (last h) = length d" by (auto simp: b5.entry_def)
    then obtain a b c where abc: "h = [a, b, c]"
      by (auto simp: length_Suc_conv numeral_3_eq_3)
    have "length d = unat c" using h(2) abc by simp
    then have "word_of_nat (length d) = c" by simp
    with abc e show "b5_entry (?join e) = fst e @ snd e"
      by (simp add: b5_entry_def)
    show "length (snd e) < 256" using h(2) unat_byte_bound [of "last h"] e by (simp del: unat_byte_bound unsigned_less)
  qed
  have conc: "concat (map b5_entry (map ?join es)) = concat (map (\<lambda>(h, d). h @ d) es)"
    using shape(1) by (auto simp: comp_def case_prod_unfold intro!: arg_cong [of _ _ concat])
  have pos: "(if pos < length body then body ! pos = 1 else False) = (drop pos body \<noteq> [] \<and> hd (drop pos body) = 1)"
    by (auto simp: hd_drop_conv_nth)
  have p1: "parse_b5_tlv body = Inr (map (\<lambda>(cid, ctype, data). mk_cap_record cid ctype data) (map ?join es),
      drop pos body \<noteq> [] \<and> hd (drop pos body) = 1)"
  proof -
    have "0 < length body" and "1 < length body" using assms(1) by linarith+
    then have "py_nth body 0 = Inr 0xB5" and "py_nth body 1 = Inr (body ! 1)"
      using assms(2) by (simp_all only: py_nth_def if_True)
    moreover have "rs = map (\<lambda>(cid, ctype, data). mk_cap_record cid ctype data) (map ?join es)"
      by (simp add: es(3) comp_def case_prod_unfold)
    ultimately show ?thesis
      using loop pos by (simp only: parse_b5_tlv_def bind_res_simps) simp
  qed
  have p2: "body = take 2 body @ concat (map b5_entry (map ?join es)) @ drop pos body"
    using es(4) conc by (metis append_take_drop_id)
  have p3: "\<forall>(cid, ctype, data) \<in> set (map ?join es). length data < 256"
    using shape(2) by auto
  show ?thesis
    using es(1)
    by (intro exI [of _ "map ?join es"] exI [of _ "drop pos body"] conjI p1 p2 p3) (simp only: length_map)
qed

theorem b5_parse_exact_witness:
  "\<exists>es rest. parse_b5_tlv [0xB5, 2, 0x10, 2, 1, 1, 0x25, 2, 9] =
      Inr (map (\<lambda>(cid, ctype, data). mk_cap_record cid ctype data) es, rest \<noteq> [] \<and> hd rest = 1) \<and>
    length es \<le> unat ([0xB5, 2, 0x10, 2, 1, 1, 0x25, 2, 9] ! 1 :: byte) \<and>
    (\<forall>(cid, ctype, data) \<in> set es. length data < 256) \<and>
    [0xB5, 2, 0x10, 2, 1, 1, 0x25, 2, 9] =
      take 2 [0xB5, 2, 0x10, 2, 1, 1, 0x25, 2, 9 :: byte] @ concat (map b5_entry es) @ rest"
  by (rule b5_parse_exact) simp_all

text \<open>A property frame of up to 255 records parses back to exactly those records, each readable
  exactly when its status is OK and it carries data.\<close>

theorem b0b1_roundtrip:
  assumes "length es < 256" and "\<forall>e \<in> set es. length (snd (snd (snd e))) < 256"
  shows "\<exists>rs. parse_b0b1_tlv (encode_props tag es) = Inr rs \<and>
    rs = map (\<lambda>(lo, hi, status, data). mk_prop_record lo hi status data) es \<and>
    (\<forall>r \<in> set rs. pr_is_readable r \<longleftrightarrow> pr_status r = 0 \<and> pr_data r \<noteq> [])"
proof -
  let ?split = "\<lambda>(lo, hi, status, data). ([lo, hi, status, word_of_nat (length data)], data)"
  let ?es = "map ?split es" and ?pre = "[tag, word_of_nat (length es) :: byte]"
  have wf: "\<forall>e \<in> set ?es. b0b1.entry e"
    using assms(2) by (auto simp: b0b1.entry_def unat_of_nat)
  have loop: "fst (b0b1_loop (length es) (encode_props tag es) 2 []) =
      map (\<lambda>(lo, hi, status, data). mk_prop_record lo hi status data) es"
    using b0b1.loop_entries [OF wf, of ?pre "[]" "[]"]
    by (simp add: comp_def case_prod_unfold encode_props_def prop_entry_def [abs_def] numeral_2_eq_2)
  have "\<forall>r \<in> set (map (\<lambda>(lo, hi, status, data). mk_prop_record lo hi status data) es).
      pr_is_readable r \<longleftrightarrow> pr_status r = 0 \<and> pr_data r \<noteq> []"
    by auto
  moreover have "parse_b0b1_tlv (encode_props tag es) = Inr (fst (b0b1_loop (length es) (encode_props tag es) 2 []))"
  proof -
    have "py_nth (encode_props tag es) 1 = Inr (word_of_nat (length es))"
      by (simp add: encode_props_def py_nth_def)
    moreover have "unat (word_of_nat (length es) :: byte) = length es"
      using assms(1) by (simp add: unat_of_nat)
    ultimately show ?thesis by (simp only: parse_b0b1_tlv_def bind_res_simps)
  qed
  ultimately show ?thesis by (simp add: loop)
qed

theorem b0b1_roundtrip_witness:
  "\<exists>rs. parse_b0b1_tlv (encode_props 0xB1 [(0x15, 0, 0, [55]), (0x42, 0, 0x11, [])]) = Inr rs \<and>
    rs = map (\<lambda>(lo, hi, status, data). mk_prop_record lo hi status data)
      [(0x15, 0, 0, [55]), (0x42, 0, 0x11, [])] \<and>
    (\<forall>r \<in> set rs. pr_is_readable r \<longleftrightarrow> pr_status r = 0 \<and> pr_data r \<noteq> [])"
  by (rule b0b1_roundtrip) simp_all

end
