(* ===== verification/Codec.thy ===== *)
theory Codec
  imports Glossary Tlv
begin

section \<open>Bits, encodings, field decoding and encoding (\<open>codec.py\<close>, \<open>decode_predicates.py\<close>)\<close>

text \<open>
  \<open>extract_bits\<close> and \<open>insert_bits\<close> on Python integers, the named encodings, \<open>decode_field\<close> with its
  chain of decode steps and suppression gates, and \<open>encode_field\<close>, the inverse used by the command
  builders.  The exceptions a step can raise are values; \<open>decode_field\<close> turns \<open>IndexError\<close> and
  \<open>KeyError\<close> into an error result as its \<open>except\<close> clause does.
\<close>

subsection \<open>Bit fields\<close>

definition extract_bits :: "int \<Rightarrow> nat \<times> nat \<Rightarrow> int res" where
  "extract_bits byte_val bits =
     (case bits of (high, low) \<Rightarrow>
        if high + 1 < low then Inl ValueError  \<comment> \<open>negative shift count\<close>
        else let m = push_bit low (push_bit (high + 1 - low) 1 - 1)
             in Inr (drop_bit low (byte_val AND m)))"

definition insert_bits :: "int \<Rightarrow> nat \<times> nat \<Rightarrow> int \<Rightarrow> int res" where
  "insert_bits byte_val bits value =
     (case bits of (high, low) \<Rightarrow>
        if high + 1 < low then Inl ValueError
        else let m = push_bit low (push_bit (high + 1 - low) 1 - 1)
             in Inr ((byte_val AND NOT m) OR (push_bit low value AND m)))"

definition bcd :: "int \<Rightarrow> int" where
  "bcd b = (drop_bit 4 b AND 0xF) * 10 + (b AND 0xF)"

abbreviation width :: "nat \<times> nat \<Rightarrow> nat" where
  "width bits \<equiv> fst bits + 1 - snd bits"

abbreviation wf_bits :: "nat \<times> nat \<Rightarrow> bool" where  \<comment> \<open>a \<open>[high, low]\<close> pair within one byte\<close>
  "wf_bits bits \<equiv> snd bits \<le> fst bits \<and> fst bits < 8"

lemma bit_ones [simp]: "bit (2 ^ w - 1 :: int) n \<longleftrightarrow> n < w"
  using bit_mask_iff [of w n, where ?'a = int] by (simp add: mask_eq_exp_minus_1)

lemma field_mask: "push_bit low (push_bit w 1 - 1) = (push_bit low (mask w) :: int)"
  by (simp add: mask_eq_exp_minus_1 push_bit_eq_mult)

lemma bit_field_mask: "bit (push_bit low (mask w) :: int) n \<longleftrightarrow> low \<le> n \<and> n < low + w"
  by (auto simp: bit_push_bit_iff bit_mask_iff)

lemma extract_bits_eq:
  assumes "snd bits \<le> fst bits + 1"
  shows "extract_bits b bits = Inr (take_bit (width bits) (drop_bit (snd bits) b))"
proof -
  obtain high low where bits: "bits = (high, low)" by (cases bits)
  have "drop_bit low (b AND push_bit low (mask (high + 1 - low))) = take_bit (high + 1 - low) (drop_bit low b)"
    by (intro bit_eqI) (auto simp: bit_drop_bit_eq bit_and_iff bit_field_mask bit_take_bit_iff)
  then show ?thesis
    using assms unfolding bits extract_bits_def field_mask by (simp add: Let_def del: push_bit_minus_one)
qed

lemma bit_insert_bits:
  assumes "insert_bits b bits v = Inr c"
  shows "bit c n \<longleftrightarrow> (if snd bits \<le> n \<and> n \<le> fst bits then bit v (n - snd bits) else bit b n)"
proof -
  obtain high low where bits: "bits = (high, low)" by (cases bits)
  let ?m = "push_bit low (mask (high + 1 - low)) :: int"
  have c: "c = (b AND NOT ?m) OR (push_bit low v AND ?m)"
    using assms unfolding bits insert_bits_def field_mask by (simp add: Let_def split: if_splits)
  show ?thesis
    unfolding c bit_or_iff bit_and_iff bit_not_iff bit_field_mask bits bit_push_bit_iff by (auto simp: bit_mask_iff)
qed

lemma insert_bits_ok: "snd bits \<le> fst bits + 1 \<Longrightarrow> \<exists>c. insert_bits b bits v = Inr c"
  by (auto simp: insert_bits_def Let_def split: prod.splits)

lemma extract_insert_same:
  assumes "insert_bits b bits v = Inr c" and "snd bits \<le> fst bits"
  shows "extract_bits c bits = Inr (v mod 2 ^ width bits)"
proof -
  have "take_bit (width bits) (drop_bit (snd bits) c) = take_bit (width bits) v"
    using assms(2) by (intro bit_eqI)
      (auto simp: bit_take_bit_iff bit_drop_bit_eq bit_insert_bits [OF assms(1)])
  then show ?thesis using assms(2) by (simp add: extract_bits_eq take_bit_eq_mod)
qed

definition disjoint_bits :: "nat \<times> nat \<Rightarrow> nat \<times> nat \<Rightarrow> bool" where
  "disjoint_bits p q \<longleftrightarrow> fst p < snd q \<or> fst q < snd p"

lemma extract_insert_other:
  assumes "insert_bits b bits v = Inr c" and "disjoint_bits bits other"
  shows "extract_bits c other = extract_bits b other"
proof (cases "snd other \<le> fst other + 1")
  case True
  have "take_bit (width other) (drop_bit (snd other) c) = take_bit (width other) (drop_bit (snd other) b)"
    using assms(2) by (intro bit_eqI)
      (auto simp: bit_take_bit_iff bit_drop_bit_eq bit_insert_bits [OF assms(1)] disjoint_bits_def)
  then show ?thesis using True by (simp add: extract_bits_eq)
next
  case False
  then show ?thesis by (cases other) (simp add: extract_bits_def)
qed

lemma insert_bits_byte:
  assumes "insert_bits b bits v = Inr c" and "0 \<le> b" and "b < 256" and "fst bits < 8"
  shows "0 \<le> c \<and> c < 256"
proof -
  have "take_bit 8 b = b" using assms(2,3) by (simp add: take_bit_int_eq_self_iff)
  then have b: "bit b n \<Longrightarrow> n < 8" for n by (metis bit_take_bit_iff)
  have "take_bit 8 c = c"
    using b assms(4) by (intro bit_eqI) (auto simp: bit_take_bit_iff bit_insert_bits [OF assms(1)])
  then show ?thesis by (simp add: take_bit_int_eq_self_iff)
qed

subsection \<open>Encodings\<close>

definition byte_at :: "bytes \<Rightarrow> int \<Rightarrow> int res" where
  "byte_at body i = bind_res (py_index body i) (\<lambda>b. Inr (uint b))"

fun le_value :: "bytes \<Rightarrow> int" where  \<comment> \<open>\<open>int.from_bytes(bs, 'little')\<close>\<close>
  "le_value [] = 0"
| "le_value (b # bs) = uint b + 256 * le_value bs"

definition be_value :: "bytes \<Rightarrow> int" where  \<comment> \<open>\<open>int.from_bytes(bs, 'big')\<close>\<close>
  "be_value bs = foldl (\<lambda>acc b. acc * 256 + uint b) 0 bs"

definition read_uint :: "bytes \<Rightarrow> int \<Rightarrow> nat \<Rightarrow> string \<Rightarrow> int res" where
  "read_uint body offset n_bytes order =
     (if offset + int n_bytes > int (length body) then Inl IndexError
      else if order = ''le'' then Inr (le_value (py_slice offset (offset + int n_bytes) body))
      else Inr (be_value (py_slice offset (offset + int n_bytes) body)))"

definition no_encoding :: encoding_def where
  "no_encoding = \<lparr>en_scale = None, en_offset = None, en_byte_count = None, en_byte_order = None\<rparr>"

definition lookup_encoding :: "encodings \<Rightarrow> string \<Rightarrow> encoding_def" where  \<comment> \<open>\<open>encodings.get(name, {})\<close>\<close>
  "lookup_encoding encs name = dget_or encs name no_encoding"

definition py_float :: "pyval \<Rightarrow> pyval res" where
  "py_float v = (case num_of v of Some q \<Rightarrow> Inr (PFloat q) | None \<Rightarrow> Inl TypeError)"

definition scaled :: "pyval \<Rightarrow> encoding_def \<Rightarrow> pyval res" where
  "scaled raw enc =
     (case (en_offset enc, en_scale enc) of
        (Some off, Some sc) \<Rightarrow>
          (case num_of raw of
             None \<Rightarrow> Inl TypeError
           | Some r \<Rightarrow> if sc = 0 then Inl ZeroDivisionError else Inr (PFloat ((r - off) / (1 / sc))))
      | _ \<Rightarrow> py_float raw)"

definition apply_encoding ::
  "pyval \<Rightarrow> string \<Rightarrow> encodings \<Rightarrow> bytes option \<Rightarrow> int \<Rightarrow> pyval res" where
  "apply_encoding raw enc_name encs body_opt o' =
     (let enc = lookup_encoding encs enc_name;
          count = (case en_byte_count enc of None \<Rightarrow> 1 | Some n \<Rightarrow> n)
      in case body_opt of
           None \<Rightarrow> scaled raw enc
         | Some body \<Rightarrow>
             (if count \<le> 1 then scaled raw enc
              else if contains ''bcd'' enc_name \<and> count = 4 then
                bind_res (byte_at body o') (\<lambda>b0. bind_res (byte_at body (o' + 1)) (\<lambda>b1.
                bind_res (byte_at body (o' + 2)) (\<lambda>b2. bind_res (byte_at body (o' + 3)) (\<lambda>b3.
                  Inr (PFloat (of_int (bcd b0 * 10000 + bcd b1 * 100 + bcd b2) + of_int (bcd b3) / 100))))))
              else if contains ''bcd'' enc_name \<and> count = 3 then
                bind_res (byte_at body o') (\<lambda>b0. bind_res (byte_at body (o' + 1)) (\<lambda>b1.
                bind_res (byte_at body (o' + 2)) (\<lambda>b2.
                  Inr (PFloat (of_int (bcd b0) + of_int (bcd b1) / 100 + of_int (bcd b2) / 10000)))))
              else if contains ''linear'' enc_name \<and> count = 4 then
                bind_res (byte_at body o') (\<lambda>b0. bind_res (byte_at body (o' + 1)) (\<lambda>b1.
                bind_res (byte_at body (o' + 2)) (\<lambda>b2. bind_res (byte_at body (o' + 3)) (\<lambda>b3.
                  Inr (PFloat (of_int (b0 * 16777216 + b1 * 65536 + b2 * 256 + b3) / 100))))))
              else if contains ''linear'' enc_name \<and> count = 3 then
                bind_res (byte_at body o') (\<lambda>b0. bind_res (byte_at body (o' + 1)) (\<lambda>b1.
                bind_res (byte_at body (o' + 2)) (\<lambda>b2.
                  Inr (PFloat (of_int (b0 * 65536 + b1 * 256 + b2) / 10000)))))
              else if en_byte_order enc = Some ''le'' \<or> en_byte_order enc = Some ''be'' then
                bind_res (read_uint body o' count (the (en_byte_order enc))) (\<lambda>n. Inr (PInt n))
              else py_float raw))"

definition resolve_capability_encoding ::
  "capability option \<Rightarrow> cap_record list option \<Rightarrow> string option" where
  "resolve_capability_encoding capability cap_records =
     (case (capability, cap_records) of
        (Some cap, Some recs) \<Rightarrow>
          (let wanted = (case cap_id cap of None \<Rightarrow> '''' | Some i \<Rightarrow> lower i)
           in case find (\<lambda>r. lower (cr_cap_id r) = wanted) recs of
                None \<Rightarrow> None
              | Some r \<Rightarrow>
                  (case cr_data r of
                     [] \<Rightarrow> None
                   | raw # _ \<Rightarrow>
                       (case find (\<lambda>(_, v). cv_raw v = Some (uint raw) \<and> cv_encoding v \<noteq> None) (cap_values cap) of
                          None \<Rightarrow> None
                        | Some (_, v) \<Rightarrow> cv_encoding v)))
      | _ \<Rightarrow> None)"

definition reverse_encoding :: "pyval \<Rightarrow> string \<Rightarrow> encodings \<Rightarrow> int res" where
  "reverse_encoding v enc_name encs =
     (let enc = lookup_encoding encs enc_name
      in case (en_offset enc, en_scale enc) of
           (Some off, Some sc) \<Rightarrow>
             (if sc = 0 then Inl ZeroDivisionError
              else case num_of v of
                     None \<Rightarrow> Inl TypeError
                   | Some x \<Rightarrow> Inr (trunc (x * (1 / sc) + off)))
         | _ \<Rightarrow> py_int v)"

subsection \<open>Encoding a field into a body\<close>

definition store_bits :: "bytes \<Rightarrow> nat \<Rightarrow> nat \<times> nat \<Rightarrow> int \<Rightarrow> bytes res" where
  \<comment> \<open>\<open>body[offset] = insert_bits(body[offset], bits, value)\<close>, for an offset inside the body\<close>
  "store_bits body offset bits v =
     bind_res (insert_bits (uint (body ! offset)) bits v) (\<lambda>n.
     bind_res (to_byte n) (\<lambda>b. Inr (body[offset := b])))"

definition is_half :: "pyval \<Rightarrow> bool" where  \<comment> \<open>\<open>isinstance(value, float) and (value % 1) != 0\<close>\<close>
  "is_half v = (case v of PFloat q \<Rightarrow> q \<noteq> of_int \<lfloor>q\<rfloor> | _ \<Rightarrow> False)"

definition raw_of_value :: "decode_step \<Rightarrow> string option \<Rightarrow> pyval \<Rightarrow> encodings \<Rightarrow> int res" where
  "raw_of_value s data_type v encs =
     (if data_type = Some ''bool'' then Inr (if truthy v then 1 else 0)
      else case ds_encoding s of
             Some (c # cs) \<Rightarrow> reverse_encoding v (c # cs) encs
           | _ \<Rightarrow>
               (case ds_add s of
                  Some a \<Rightarrow>
                    (case (num_of v, num_of a) of
                       (Some x, Some y) \<Rightarrow> Inr (trunc (x - y))
                     | _ \<Rightarrow> Inl TypeError)
                | None \<Rightarrow> py_int v))"

definition encode_field ::
  "bytes \<Rightarrow> decode_step list \<Rightarrow> string option \<Rightarrow> pyval \<Rightarrow> encodings \<Rightarrow> bytes res" where
  "encode_field body steps data_type v encs =
     (case steps of
        [] \<Rightarrow> Inr body
      | s # _ \<Rightarrow>
          (if v = PNone then Inr body
           else if ds_logic s \<noteq> None then
             fold_res (\<lambda>src b. if bs_offset src < length b
                                then store_bits b (bs_offset src) (bs_bits src) (if truthy v then 1 else 0)
                                else Inr b)
               (ds_sources s) body
           else
             (case ds_offset s of
                None \<Rightarrow> Inl KeyError
              | Some offset \<Rightarrow>
                  (case ds_bits s of
                     None \<Rightarrow> Inl KeyError
                   | Some bits \<Rightarrow>
                       (if length body \<le> offset then Inr body
                        else bind_res (raw_of_value s data_type v encs) (\<lambda>raw.
                             bind_res (store_bits body offset bits raw) (\<lambda>body'.
                               case ds_half_bit s of
                                 None \<Rightarrow> Inr body'
                               | Some hb \<Rightarrow>
                                   (if hb_offset hb < length body'
                                    then store_bits body' (hb_offset hb) (hb_bit hb, hb_bit hb)
                                           (if is_half v then 1 else 0)
                                    else Inr body'))))))))"

subsection \<open>Decode predicates\<close>

definition DRY_MODES :: "int set" where
  "DRY_MODES = {3, 6}"

definition temp_extended_setpoint_active :: "bytes \<Rightarrow> int \<Rightarrow> bool" where
  "temp_extended_setpoint_active body val =
     (if val = 0 then False
      else if length body \<le> 2 then True
      else let mode = drop_bit 5 (uint (body ! 2) AND 0xE0) in mode \<notin> DRY_MODES)"

definition DECODE_PREDICATES :: "(string, bytes \<Rightarrow> int \<Rightarrow> bool) dict" where
  "DECODE_PREDICATES = [(''temp_extended_setpoint_active'', temp_extended_setpoint_active)]"

subsection \<open>Decoding a field\<close>

datatype decoded =
    Value pyval                     \<comment> \<open>\<open>{"value": v}\<close>\<close>
  | Suppressed pyval string         \<comment> \<open>\<open>{"value": None, "raw": r, "suppression": reason}\<close>\<close>
  | NoValue string                  \<comment> \<open>\<open>{"value": None, "note": n}\<close>\<close>
  | DecodeError py_error            \<comment> \<open>\<open>{"value": None, "error": e}\<close>\<close>

datatype step_result = Continue | Return decoded

fun or_sources :: "bytes \<Rightarrow> bit_source list \<Rightarrow> bool \<Rightarrow> bool res" where
  "or_sources body [] result = Inr result"
| "or_sources body (src # srcs) result =
     (if length body \<le> bs_offset src then or_sources body srcs result
      else bind_res (extract_bits (uint (body ! bs_offset src)) (bs_bits src)) (\<lambda>val.
             or_sources body srcs (if val \<noteq> 0 then True else result)))"

definition condition_fails :: "string option \<Rightarrow> int \<Rightarrow> bool" where
  "condition_fails cond val \<longleftrightarrow>
     (cond = Some ''!= 0'' \<and> val = 0) \<or> (cond = Some ''> 0'' \<and> val \<le> 0)"

definition half_bit_set :: "bytes \<Rightarrow> half_bit_def option \<Rightarrow> bool" where
  "half_bit_set body hb =
     (case hb of None \<Rightarrow> False
      | Some h \<Rightarrow> hb_offset h < length body \<and> uint (body ! hb_offset h) AND push_bit (hb_bit h) 1 \<noteq> 0)"

definition out_of_range :: "pyval list option \<Rightarrow> pyval \<Rightarrow> bool" where
  "out_of_range lo_hi v =
     (case lo_hi of
        Some [lo, hi] \<Rightarrow>
          is_numeric v \<and>
          (case (num_of v, num_of lo, num_of hi) of
             (Some x, Some l, Some h) \<Rightarrow> x < l \<or> x > h
           | _ \<Rightarrow> False)
      | _ \<Rightarrow> False)"

text \<open>From the extracted integer to the result: addition, half bit, encoding, tenths, bool, range.\<close>

definition finish_step ::
  "bytes \<Rightarrow> decode_step \<Rightarrow> nat \<Rightarrow> nat \<times> nat \<Rightarrow> string option \<Rightarrow> encodings \<Rightarrow>
   capability option \<Rightarrow> cap_record list option \<Rightarrow> pyval list option \<Rightarrow> int \<Rightarrow> decoded res" where
  "finish_step body s offset bits data_type encs capability cap_records value_range val0 =
     bind_res (case ds_add s of None \<Rightarrow> Inr (PInt val0) | Some a \<Rightarrow> py_add (PInt val0) a) (\<lambda>v1.
     bind_res (if half_bit_set body (ds_half_bit s) then py_add v1 (PFloat (1/2)) else Inr v1) (\<lambda>v2.
     let enc_name = (if ds_encoding s = Some ''capability''
                     then resolve_capability_encoding capability cap_records else ds_encoding s)
     in bind_res (case enc_name of
                    Some (c # cs) \<Rightarrow> apply_encoding v2 (c # cs) encs (Some body) (int offset)
                  | _ \<Rightarrow> Inr v2) (\<lambda>v3.
        bind_res (case ds_tenths_nibble s of
                    None \<Rightarrow> Inr v3
                  | Some tn \<Rightarrow>
                      (if tn_offset tn < length body then
                         let raw = uint (body ! tn_offset tn);
                             nibble = (if tn_nibble tn = Some ''high'' then drop_bit 4 raw AND 0x0F else raw AND 0x0F)
                         in py_add v3 (PFloat (of_int nibble / 10))
                       else Inr v3)) (\<lambda>v4.
        let v5 = (if data_type = Some ''bool'' \<and> fst bits = snd bits then PBool (truthy v4) else v4)
        in if out_of_range value_range v5 then Inr (Suppressed v5 ''out_of_range'')
           else Inr (Value v5)))))"

definition decode_one ::
  "decode_step \<Rightarrow> string option \<Rightarrow> bytes \<Rightarrow> encodings \<Rightarrow> capability option \<Rightarrow>
   cap_record list option \<Rightarrow> int list \<Rightarrow> pyval list option \<Rightarrow> step_result res" where
  "decode_one s data_type body encs capability cap_records sentinels value_range =
     (case ds_logic s of
        Some lg \<Rightarrow>
          (if lg = ''or''
           then bind_res (or_sources body (ds_sources s) False) (\<lambda>r. Inr (Return (Value (PBool r))))
           else Inr Continue)
      | None \<Rightarrow>
          (case ds_offset s of
             None \<Rightarrow> Inl KeyError
           | Some offset \<Rightarrow>
               (case ds_bits s of
                  None \<Rightarrow> Inl KeyError
                | Some bits \<Rightarrow>
                    (if length body \<le> offset then Inr Continue
                     else if uint (body ! offset) \<in> set sentinels
                     then Inr (Return (Suppressed (PInt (uint (body ! offset))) ''sentinel''))
                     else bind_res (extract_bits (uint (body ! offset)) bits) (\<lambda>raw.
                       let w = (if fst bits \<ge> snd bits then fst bits - snd bits + 1 else 1);
                           val = (if ds_invert s then push_bit w 1 - 1 - raw else raw)
                       in if condition_fails (ds_condition s) val then Inr Continue
                          else
                            let finish = bind_res (finish_step body s offset bits data_type encs
                                  capability cap_records value_range val) (\<lambda>d. Inr (Return d))
                            in case ds_condition_predicate s of
                                 Some (c # cs) \<Rightarrow>
                                   (case dget DECODE_PREDICATES (c # cs) of
                                      None \<Rightarrow> Inl KeyError
                                    | Some pred \<Rightarrow> if pred body val then finish else Inr Continue)
                               | _ \<Rightarrow> finish)))))"

fun decode_steps ::
  "decode_step list \<Rightarrow> string option \<Rightarrow> bytes \<Rightarrow> encodings \<Rightarrow> capability option \<Rightarrow>
   cap_record list option \<Rightarrow> int list \<Rightarrow> pyval list option \<Rightarrow> decoded res" where
  "decode_steps [] dt body encs cap recs sent rng = Inr (NoValue ''no decode step matched'')"
| "decode_steps (s # ss) dt body encs cap recs sent rng =
     bind_res (decode_one s dt body encs cap recs sent rng) (\<lambda>r.
       case r of
         Return d \<Rightarrow> Inr d
       | Continue \<Rightarrow> decode_steps ss dt body encs cap recs sent rng)"

definition decode_field ::
  "decode_step list \<Rightarrow> string option \<Rightarrow> bytes \<Rightarrow> encodings \<Rightarrow> capability option \<Rightarrow>
   cap_record list option \<Rightarrow> int list \<Rightarrow> pyval list option \<Rightarrow> decoded res" where
  "decode_field steps dt body encs cap recs sent rng =
     (if steps = [] then Inr (NoValue ''no decode steps'')
      else case decode_steps steps dt body encs cap recs sent rng of
             Inl IndexError \<Rightarrow> Inr (DecodeError IndexError)
           | Inl KeyError \<Rightarrow> Inr (DecodeError KeyError)
           | Inl e \<Rightarrow> Inl e
           | Inr d \<Rightarrow> Inr d)"

text \<open>\<open>decoded.get("value")\<close>\<close>

fun decoded_value :: "decoded \<Rightarrow> pyval" where
  "decoded_value (Value v) = v"
| "decoded_value _ = PNone"

subsection \<open>Lemmas on storing bits in a body\<close>

lemma store_bits_InrD:
  assumes "store_bits body i bits v = Inr body'" and "i < length body"
  shows "\<exists>c. insert_bits (uint (body ! i)) bits v = Inr (uint c) \<and> body' = body[i := c]"
  using assms by (auto simp: store_bits_def to_byte_Inr)

lemma store_bits_ok:
  assumes "wf_bits bits"
  shows "\<exists>c. insert_bits (uint (body ! i)) bits v = Inr (uint c) \<and> store_bits body i bits v = Inr (body[i := c])"
proof -
  obtain n where n: "insert_bits (uint (body ! i)) bits v = Inr n"
    using insert_bits_ok [of bits "uint (body ! i)" v] assms by auto
  then have "0 \<le> n \<and> n < 256" using insert_bits_byte assms by simp
  then show ?thesis
    using n by (intro exI [of _ "word_of_int n"])
      (simp add: store_bits_def to_byte_def uint_word_of_int)
qed

text \<open>Storing touches no bit outside its own field.\<close>

definition apart :: "nat \<times> nat \<times> nat \<Rightarrow> nat \<times> nat \<times> nat \<Rightarrow> bool" where
  "apart p q \<longleftrightarrow> (fst p = fst q \<longrightarrow> disjoint_bits (snd p) (snd q))"

definition field_at :: "bytes \<Rightarrow> nat \<times> nat \<times> nat \<Rightarrow> int res" where
  "field_at body p = extract_bits (uint (body ! fst p)) (snd p)"

lemma store_bits_frame:
  assumes "store_bits body i bits v = Inr body'" and "i < length body" and "apart (i, bits) q"
  shows "length body' = length body \<and> field_at body' q = field_at body q"
proof -
  obtain c where c: "insert_bits (uint (body ! i)) bits v = Inr (uint c)" "body' = body[i := c]"
    using store_bits_InrD [OF assms(1,2)] by blast
  show ?thesis
  proof (cases "fst q = i")
    case True
    then have "disjoint_bits bits (snd q)" using assms(3) by (simp add: apart_def)
    from extract_insert_other [OF c(1) this] show ?thesis
      using True assms(2) by (simp add: field_at_def c(2))
  next
    case False
    then show ?thesis by (simp add: field_at_def c(2))
  qed
qed

lemma store_bits_same:
  assumes "store_bits body i bits v = Inr body'" and "i < length body" and "snd bits \<le> fst bits"
  shows "field_at body' (i, bits) = Inr (v mod 2 ^ width bits)"
proof -
  obtain c where c: "insert_bits (uint (body ! i)) bits v = Inr (uint c)" "body' = body[i := c]"
    using store_bits_InrD [OF assms(1,2)] by blast
  then show ?thesis
    using extract_insert_same [OF c(1) assms(3)] assms(2) by (simp add: field_at_def)
qed

text \<open>The positions \<open>encode_field\<close> may write.\<close>

definition written :: "decode_step list \<Rightarrow> (nat \<times> nat \<times> nat) list" where
  "written steps =
     (case steps of
        [] \<Rightarrow> []
      | s # _ \<Rightarrow>
          (if ds_logic s \<noteq> None then map (\<lambda>src. (bs_offset src, bs_bits src)) (ds_sources s)
           else (case (ds_offset s, ds_bits s) of (Some i, Some bits) \<Rightarrow> [(i, bits)] | _ \<Rightarrow> [])
             @ (case ds_half_bit s of None \<Rightarrow> [] | Some hb \<Rightarrow> [(hb_offset hb, hb_bit hb, hb_bit hb)])))"

lemma encode_sources_frame:
  assumes "fold_res (\<lambda>src b. if bs_offset src < length b then store_bits b (bs_offset src) (bs_bits src) v
      else Inr b) srcs body = Inr body'"
    and "\<forall>src \<in> set srcs. apart (bs_offset src, bs_bits src) q"
  shows "length body' = length body \<and> field_at body' q = field_at body q"
  using assms
proof (induction srcs arbitrary: body)
  case Nil
  then show ?case by simp
next
  case (Cons src srcs)
  from Cons.prems(1) obtain b where b: "(if bs_offset src < length body
      then store_bits body (bs_offset src) (bs_bits src) v else Inr body) = Inr b"
    and rest: "fold_res (\<lambda>src b. if bs_offset src < length b then store_bits b (bs_offset src) (bs_bits src) v
      else Inr b) srcs b = Inr body'" by auto
  have "length b = length body \<and> field_at b q = field_at body q"
    using b store_bits_frame Cons.prems(2) by (auto split: if_splits)
  then show ?case using Cons.IH [OF rest] Cons.prems(2) by simp
qed

lemma encode_field_frame_lemma:
  assumes enc: "encode_field body steps dt v encs = Inr body'"
    and apart: "\<forall>p \<in> set (written steps). apart p q"
  shows "length body' = length body \<and> field_at body' q = field_at body q"
proof (cases steps)
  case Nil
  then show ?thesis using enc by (simp add: encode_field_def)
next
  case (Cons s ss)
  show ?thesis
  proof (cases "ds_logic s")
    case (Some lg)
    then show ?thesis
      using enc apart Cons encode_sources_frame [of "if truthy v then 1 else 0" "ds_sources s" body body' q]
      by (auto simp: encode_field_def written_def split: if_splits)
  next
    case None
    show ?thesis
    proof (cases "v = PNone \<or> (\<exists>i. ds_offset s = Some i \<and> length body \<le> i)")
      case True
      then have "body' = body" using enc Cons None
        by (cases "ds_bits s") (auto simp: encode_field_def split: if_splits)
      then show ?thesis by simp
    next
      case False
      then obtain i where i: "ds_offset s = Some i" using enc Cons None
        by (cases "ds_offset s") (simp_all add: encode_field_def)
      obtain bits where bits: "ds_bits s = Some bits" using enc Cons None False i
        by (cases "ds_bits s") (simp_all add: encode_field_def)
      have "i < length body" using False i by auto
      then obtain raw b where b: "store_bits body i bits raw = Inr b"
        and fin: "(case ds_half_bit s of None \<Rightarrow> Inr b | Some hb \<Rightarrow>
           (if hb_offset hb < length b then store_bits b (hb_offset hb) (hb_bit hb, hb_bit hb)
              (if is_half v then 1 else 0) else Inr b)) = Inr body'"
      proof -
        obtain raw where raw: "raw_of_value s dt v encs = Inr raw"
          using enc Cons None False i bits
          by (cases "raw_of_value s dt v encs") (simp_all add: encode_field_def not_le)
        obtain b where "store_bits body i bits raw = Inr b"
          using enc Cons None False i bits raw
          by (cases "store_bits body i bits raw") (simp_all add: encode_field_def not_le)
        then show ?thesis
          using that [of raw b] enc Cons None False i bits raw by (simp add: encode_field_def not_le)
      qed
      have "apart (i, bits) q" using apart Cons None i bits by (simp add: written_def)
      then have 1: "length b = length body \<and> field_at b q = field_at body q"
        by (rule store_bits_frame [OF b \<open>i < length body\<close>])
      show ?thesis
      proof (cases "ds_half_bit s")
        case None
        then show ?thesis using 1 fin by simp
      next
        case (Some hb)
        then have "apart (hb_offset hb, hb_bit hb, hb_bit hb) q"
          using apart Cons \<open>ds_logic s = None\<close> by (auto simp: written_def)
        then show ?thesis
          using 1 fin Some store_bits_frame [of b "hb_offset hb" "(hb_bit hb, hb_bit hb)"]
          by (auto split: if_splits)
      qed
    qed
  qed
qed

subsection \<open>Lemmas on the suppression gates\<close>

lemma py_add_numeric: "py_add a b = Inr v \<Longrightarrow> num_of v \<noteq> None \<and> (is_numeric v)"
  by (cases a; cases b) auto

lemma finish_step_gate:
  assumes "finish_step body s i bits dt encs cap recs rng n = Inr d"
  shows "(\<exists>v. d = Value v \<and> \<not> out_of_range rng v) \<or> (\<exists>v. d = Suppressed v ''out_of_range'' \<and> out_of_range rng v)"
  using assms by (auto simp: finish_step_def Let_def split: if_splits)

lemma decode_one_gate:
  assumes "decode_one s dt body encs cap recs sent rng = Inr (Return d)"
  shows "(\<exists>r. d = Value (PBool r)) \<or>
    (\<exists>i. ds_offset s = Some i \<and> i < length body \<and>
       ((uint (body ! i) \<in> set sent \<and> d = Suppressed (PInt (uint (body ! i))) ''sentinel'') \<or>
        (uint (body ! i) \<notin> set sent \<and>
          ((\<exists>v. d = Value v \<and> \<not> out_of_range rng v) \<or>
           (\<exists>v. d = Suppressed v ''out_of_range'' \<and> out_of_range rng v)))))"
proof (cases "ds_logic s")
  case (Some lg)
  then show ?thesis using assms by (auto simp: decode_one_def split: if_splits)
next
  case None
  then obtain i bits where s: "ds_offset s = Some i" "ds_bits s = Some bits" "i < length body"
    using assms by (auto simp: decode_one_def split: if_splits option.split_asm)
  show ?thesis
  proof (cases "uint (body ! i) \<in> set sent")
    case True
    then show ?thesis using assms None s by (auto simp: decode_one_def)
  next
    case False
    then obtain n where "finish_step body s i bits dt encs cap recs rng n = Inr d"
      using assms None s
      by (auto simp: decode_one_def Let_def split: if_splits option.split_asm list.split_asm)
    from finish_step_gate [OF this] show ?thesis using False s by blast
  qed
qed

lemma decode_steps_last:
  assumes "decode_steps steps dt body encs cap recs sent rng = Inr d"
  shows "d = NoValue ''no decode step matched'' \<or>
    (\<exists>s \<in> set steps. decode_one s dt body encs cap recs sent rng = Inr (Return d))"
  using assms
proof (induction steps)
  case Nil
  then show ?case by simp
next
  case (Cons s steps)
  then obtain r where "decode_one s dt body encs cap recs sent rng = Inr r" by auto
  with Cons show ?case by (cases r) auto
qed


lemma decode_field_cases:
  assumes "decode_field steps dt body encs cap recs sent rng = Inr d" and "d \<noteq> NoValue ''no decode steps''"
    and "d \<noteq> NoValue ''no decode step matched''" and "\<And>e. d \<noteq> DecodeError e"
  shows "\<exists>s \<in> set steps. decode_one s dt body encs cap recs sent rng = Inr (Return d)"
proof -
  have "decode_steps steps dt body encs cap recs sent rng = Inr d"
    using assms by (cases "decode_steps steps dt body encs cap recs sent rng")
      (auto simp: decode_field_def split: if_splits py_error.split_asm)
  from decode_steps_last [OF this] show ?thesis using assms(3) by simp
qed

text \<open>A decode step that reads one bit field, with an offset and perhaps a half-degree flag elsewhere.\<close>

definition setpoint_step :: "nat \<Rightarrow> nat \<times> nat \<Rightarrow> int \<Rightarrow> half_bit_def \<Rightarrow> string option \<Rightarrow> decode_step" where
  "setpoint_step i bits a hb pred =
     (plain_step i bits)\<lparr>ds_add := Some (PInt a), ds_half_bit := Some hb, ds_condition_predicate := pred\<rparr>"

text \<open>The \<open>target_temperature\<close> entry of the glossary: the command body and the status response.\<close>

definition TARGET_TEMPERATURE_CMD :: "decode_step list" where
  "TARGET_TEMPERATURE_CMD = [setpoint_step 2 (3, 0) 16 \<lparr>hb_offset = 2, hb_bit = 4\<rparr> None]"

definition TARGET_TEMPERATURE_RSP :: "decode_step list" where
  "TARGET_TEMPERATURE_RSP =
     [setpoint_step 13 (4, 0) 12 \<lparr>hb_offset = 2, hb_bit = 4\<rparr> (Some ''temp_extended_setpoint_active''),
      setpoint_step 2 (3, 0) 16 \<lparr>hb_offset = 2, hb_bit = 4\<rparr> None]"

lemma half_bit_extract:
  "uint (b :: byte) AND 2 ^ n = 0 \<longleftrightarrow> \<not> bit (uint b) n"
  by (rule and_exp_eq_0_iff_not_bit)

lemma field_at_bit: "field_at body (i, n, n) = Inr (of_bool (bit (uint (body ! i)) n))"
  by (simp add: field_at_def extract_bits_eq take_bit_eq_mod bit_iff_odd_drop_bit odd_iff_mod_2_eq_one)

lemma decode_setpoint:
  assumes "i < length body" and "field_at body (i, bits) = Inr k" and "hb_offset hb < length body"
    and "pred = None \<or> pred = Some ''temp_extended_setpoint_active'' \<and> temp_extended_setpoint_active body k"
    and "dt \<noteq> Some ''bool''"
  shows "decode_one (setpoint_step i bits a hb pred) dt body encs cap recs [] None =
    Inr (Return (Value (if bit (uint (body ! hb_offset hb)) (hb_bit hb)
                        then PFloat (of_int (k + a) + 1/2) else PInt (k + a))))"
  using assms
  by (auto simp: setpoint_step_def plain_step_def decode_one_def finish_step_def field_at_def Let_def
      condition_fails_def half_bit_set_def half_bit_extract out_of_range_def DECODE_PREDICATES_def)

lemma encode_setpoint:
  assumes "i < length body" and "wf_bits bits" and "hb_offset hb < length body" and "hb_bit hb < 8"
    and "apart (hb_offset hb, hb_bit hb, hb_bit hb) (i, bits)" and "dt \<noteq> Some ''bool''"
    and "num_of v = Some x"
  shows "\<exists>body'. encode_field body [setpoint_step i bits a hb pred] dt v encs = Inr body' \<and>
    length body' = length body \<and> field_at body' (i, bits) = Inr (trunc (x - of_int a) mod 2 ^ width bits) \<and>
    bit (uint (body' ! hb_offset hb)) (hb_bit hb) = is_half v"
proof -
  let ?raw = "trunc (x - of_int a)" and ?h = "if is_half v then 1 else 0 :: int"
  obtain b where b: "store_bits body i bits ?raw = Inr b"
    using store_bits_ok [OF assms(2)] by blast
  have len: "length b = length body" using store_bits_InrD [OF b assms(1)] by auto
  obtain b' where b': "store_bits b (hb_offset hb) (hb_bit hb, hb_bit hb) ?h = Inr b'"
    using store_bits_ok [of "(hb_bit hb, hb_bit hb)" b] assms(4) by auto
  have "v \<noteq> PNone" using assms(7) by auto
  then have "encode_field body [setpoint_step i bits a hb pred] dt v encs = Inr b'"
    using assms b b' len
    by (simp add: encode_field_def setpoint_step_def plain_step_def raw_of_value_def not_le)
  moreover have "length b' = length body \<and> field_at b' (i, bits) = field_at b (i, bits)"
    using store_bits_frame [OF b'] assms len by simp
  moreover have "field_at b (i, bits) = Inr (?raw mod 2 ^ width bits)"
    using store_bits_same [OF b assms(1)] assms(2) by simp
  moreover have "field_at b' (hb_offset hb, hb_bit hb, hb_bit hb) = Inr (?h mod 2)"
    using store_bits_same [OF b'] assms(3) len by simp
  then have "bit (uint (b' ! hb_offset hb)) (hb_bit hb) = is_half v"
    by (auto simp: field_at_bit split: if_splits)
  ultimately show ?thesis by auto
qed

lemma is_half_half: "num_of v = Some (of_int n + 1/2) \<Longrightarrow> is_half v"
proof -
  assume v: "num_of v = Some (of_int n + 1/2)"
  have f: "\<lfloor>of_int n + 1/2 :: rat\<rfloor> = n" by linarith
  have ne: "(of_int n + 1/2 :: rat) \<noteq> of_int m" for m
  proof
    assume eq: "(of_int n + 1/2 :: rat) = of_int m"
    have "\<lfloor>of_int m :: rat\<rfloor> = n" using f unfolding eq .
    then have "n = m" by simp
    with eq have "(of_int m + 1/2 :: rat) = of_int m" by simp
    then show False by linarith
  qed
  show ?thesis
    using v ne ne [symmetric] ne [of 0] ne [of 1] f by (cases v) (auto simp: is_half_def split: if_splits)
qed

lemma is_half_int: "num_of v = Some (of_int n) \<Longrightarrow> \<not> is_half v"
  by (cases v) (auto simp: is_half_def)

lemma trunc_half: "0 \<le> n \<Longrightarrow> trunc (of_int n + 1/2) = n"
  by (simp add: trunc_def) linarith


subsection \<open>Properties\<close>

text \<open>A bit field of a byte behaves as a register: what \<open>insert_bits\<close> writes, modulo the width of
  the field, is what \<open>extract_bits\<close> reads; every disjoint field keeps its value; a byte stays a byte.\<close>

theorem bit_field_register:
  assumes "snd bits \<le> fst bits" and "fst bits < 8" and "0 \<le> b" and "b < 256"
  shows "\<exists>c. insert_bits b bits v = Inr c \<and> 0 \<le> c \<and> c < 256 \<and>
    extract_bits c bits = Inr (v mod 2 ^ width bits) \<and>
    (\<forall>other. disjoint_bits bits other \<longrightarrow> extract_bits c other = extract_bits b other)"
proof -
  obtain c where c: "insert_bits b bits v = Inr c" using insert_bits_ok assms(1) by (meson le_SucI le_add1 le_trans)
  then show ?thesis
    using extract_insert_same [OF c assms(1)] extract_insert_other [OF c] insert_bits_byte [OF c assms(3,4,2)]
    by auto
qed

theorem bit_field_register_witness:
  "\<exists>c. insert_bits 0xE1 (4, 2) 5 = Inr c \<and> 0 \<le> c \<and> c < 256 \<and>
    extract_bits c (4, 2) = Inr (5 mod 2 ^ width (4, 2)) \<and>
    (\<forall>other. disjoint_bits (4, 2) other \<longrightarrow> extract_bits c other = extract_bits 0xE1 other)"
  by (rule bit_field_register) simp_all

text \<open>Encoding a field changes no other field: every bit range of every byte that is disjoint from the
  positions of the first decode step, its OR sources and its half-degree flag keeps its value, and the
  body keeps its length.\<close>

theorem encode_field_frame:
  assumes "encode_field body steps dt v encs = Inr body'"
    and "\<forall>p \<in> set (written steps). apart p (i, bits)"
  shows "length body' = length body \<and>
    extract_bits (uint (body' ! i)) bits = extract_bits (uint (body ! i)) bits"
  using encode_field_frame_lemma [OF assms] by (simp add: field_at_def)

theorem encode_field_frame_witness:
  "\<exists>body'. encode_field [0x40, 0x81, 0xE3] TARGET_TEMPERATURE_CMD (Some ''float'') (PFloat (45/2)) [] = Inr body' \<and>
    length body' = 3 \<and> extract_bits (uint (body' ! 2)) (7, 5) = Inr 7"
proof -
  let ?body = "[0x40, 0x81, 0xE3] :: bytes"
  have apart: "\<forall>p \<in> set (written TARGET_TEMPERATURE_CMD). apart p (2, 7, 5)"
    by (simp add: written_def TARGET_TEMPERATURE_CMD_def setpoint_step_def plain_step_def apart_def disjoint_bits_def)
  obtain body' where e: "encode_field ?body TARGET_TEMPERATURE_CMD (Some ''float'') (PFloat (45/2)) [] = Inr body'"
    using encode_setpoint [of 2 ?body "(3, 0)" "\<lparr>hb_offset = 2, hb_bit = 4\<rparr>" "Some ''float''" "PFloat (45/2)" "45/2" 16 None "[]"]
    by (auto simp: TARGET_TEMPERATURE_CMD_def apart_def disjoint_bits_def)
  have "extract_bits (uint (?body ! 2)) (7, 5) = Inr 7" by (simp add: extract_bits_eq drop_bit_eq_div take_bit_eq_mod)
  with encode_field_frame [OF e apart] e show ?thesis by auto
qed

text \<open>A setpoint written by \<open>encode_field\<close> is the value \<open>decode_field\<close> reads back, half degrees
  included: for every integer or half-integer in the range of the bit field, wherever the half-degree
  flag lives, provided it is not inside the field itself.\<close>

theorem setpoint_roundtrip:
  assumes "i < length body" and "snd bits \<le> fst bits" and "fst bits < 8"
    and "hb_offset hb < length body" and "hb_bit hb < 8"
    and "hb_offset hb = i \<longrightarrow> disjoint_bits (hb_bit hb, hb_bit hb) bits"
    and "dt \<noteq> Some ''bool''" and "0 \<le> k" and "k < 2 ^ width bits"
    and "num_of v = Some (of_int (k + a) + (if half then 1/2 else 0))"
  shows "\<exists>body' w. encode_field body [setpoint_step i bits a hb None] dt v encs = Inr body' \<and>
    decode_field [setpoint_step i bits a hb None] dt body' encs cap recs [] None = Inr (Value w) \<and> py_eq w v"
proof -
  let ?s = "setpoint_step i bits a hb None"
  have tr: "trunc (of_int (k + a) + (if half then 1/2 else 0) - of_int a) mod 2 ^ width bits = k"
    using assms(8,9) trunc_half [of k] by simp
  have hv: "is_half v = half"
    using assms(10) is_half_half [of v "k + a"] is_half_int [of v "k + a"] by (cases half) simp_all
  obtain body' where b: "encode_field body [?s] dt v encs = Inr body'" "length body' = length body"
      "field_at body' (i, bits) = Inr k" "bit (uint (body' ! hb_offset hb)) (hb_bit hb) = half"
    using encode_setpoint [of i body bits hb dt v _ a None encs] assms tr hv by (auto simp: apart_def)
  then have "decode_one ?s dt body' encs cap recs [] None =
      Inr (Return (Value (if half then PFloat (of_int (k + a) + 1/2) else PInt (k + a))))"
    using assms by (subst decode_setpoint) auto
  then have "decode_field [?s] dt body' encs cap recs [] None =
      Inr (Value (if half then PFloat (of_int (k + a) + 1/2) else PInt (k + a)))"
    by (simp add: decode_field_def)
  moreover have "py_eq (if half then PFloat (of_int (k + a) + 1/2) else PInt (k + a)) v"
    using assms(10) by (simp add: py_eq_def)
  ultimately show ?thesis using b by blast
qed

theorem setpoint_roundtrip_witness:
  "\<exists>body' w. encode_field [0x40, 0x81, 0xE3] TARGET_TEMPERATURE_CMD (Some ''float'') (PFloat (45/2)) [] = Inr body' \<and>
    decode_field TARGET_TEMPERATURE_CMD (Some ''float'') body' [] None None [] None = Inr (Value w) \<and>
    py_eq w (PFloat (45/2))"
  unfolding TARGET_TEMPERATURE_CMD_def
  by (rule setpoint_roundtrip [where k = 6 and half = True]) (simp_all add: disjoint_bits_def)

text \<open>The suppression gates hold on every decode chain: a numeric value that \<open>decode_field\<close> returns
  lies within the declared range, and a sentinel suppression carries a byte of the body that is in the
  field's sentinel set.\<close>

theorem decode_field_gates:
  assumes "decode_field steps dt body encs cap recs sent (Some [lo, hi]) = Inr d"
    and "num_of lo = Some l" and "num_of hi = Some h"
  shows "(\<forall>v x. d = Value v \<longrightarrow> is_numeric v \<longrightarrow> num_of v = Some x \<longrightarrow> l \<le> x \<and> x \<le> h) \<and>
    (\<forall>v. d = Suppressed v ''sentinel'' \<longrightarrow>
       (\<exists>s i. s \<in> set steps \<and> ds_offset s = Some i \<and> i < length body \<and>
          v = PInt (uint (body ! i)) \<and> uint (body ! i) \<in> set sent))"
proof (cases "d = NoValue ''no decode steps'' \<or> d = NoValue ''no decode step matched'' \<or> (\<exists>e. d = DecodeError e)")
  case True
  then show ?thesis by auto
next
  case False
  then obtain s where s: "s \<in> set steps" "decode_one s dt body encs cap recs sent (Some [lo, hi]) = Inr (Return d)"
    using decode_field_cases [OF assms(1)] by blast
  have gate: "l \<le> x \<and> x \<le> h" if "\<not> out_of_range (Some [lo, hi]) v" "is_numeric v" "num_of v = Some x" for v x
    using that assms(2,3) by (simp add: out_of_range_def)
  from decode_one_gate [OF s(2)] show ?thesis using s(1) gate by auto
qed

theorem decode_field_gates_witness:
  "\<exists>v. decode_field [plain_step 0 (7, 0)] (Some ''uint8'') [0xFF] [] None None [0xFF] (Some [PInt 0, PInt 100])
      = Inr (Suppressed v ''sentinel'') \<and> v = PInt 255 \<and> 255 \<in> set [0xFF :: int]"
proof -
  have d: "decode_field [plain_step 0 (7, 0)] (Some ''uint8'') [0xFF] [] None None [0xFF] (Some [PInt 0, PInt 100])
      = Inr (Suppressed (PInt 255) ''sentinel'')"
    by (simp add: decode_field_def decode_one_def plain_step_def)
  with decode_field_gates [OF d, of 0 100] show ?thesis by auto
qed

text \<open>The status response decodes the target temperature from byte 13 outside the dehumidify modes
  when the override is set, and otherwise (dry or smart dry, or no override) from the primary nibble
  of byte 2; the half-degree flag counts in both cases.\<close>

theorem target_temperature_source:
  assumes "13 < length body"
  shows "\<exists>v. decode_field TARGET_TEMPERATURE_RSP (Some ''float'') body encs cap recs [] None = Inr (Value v) \<and>
    num_of v = Some (of_int (if uint (body ! 13) mod 32 = 0 \<or> uint (body ! 2) div 32 \<in> {3, 6}
                             then uint (body ! 2) mod 16 + 16 else uint (body ! 13) mod 32 + 12)
                     + (if bit (uint (body ! 2)) 4 then 1/2 else 0))"
proof -
  let ?k = "uint (body ! 13) mod 32"
  have k: "field_at body (13, 4, 0) = Inr ?k" and p: "field_at body (2, 3, 0) = Inr (uint (body ! 2) mod 16)"
    by (simp_all add: field_at_def extract_bits_eq take_bit_eq_mod)
  have mode: "drop_bit 5 (uint (body ! 2)) AND 7 = uint (body ! 2) div 32"
  proof -
    have "(x :: int) AND 7 = x mod 8" for x
      using take_bit_eq_mask [of 3 x] by (simp add: take_bit_eq_mod mask_eq_exp_minus_1)
    moreover have "uint (body ! 2) div 32 mod 8 = uint (body ! 2) div 32"
      using uint_byte_bounds(1,2) [of "body ! 2"] by (intro mod_pos_pos_trivial) linarith+
    ultimately show ?thesis by (simp add: drop_bit_eq_div)
  qed
  have act: "temp_extended_setpoint_active body ?k \<longleftrightarrow> \<not> (?k = 0 \<or> uint (body ! 2) div 32 \<in> {3, 6})"
    using assms by (simp add: temp_extended_setpoint_active_def DRY_MODES_def Let_def mode)
  show ?thesis
  proof (cases "temp_extended_setpoint_active body ?k")
    case True
    have "decode_one (hd TARGET_TEMPERATURE_RSP) (Some ''float'') body encs cap recs [] None =
      Inr (Return (Value (if bit (uint (body ! 2)) 4 then PFloat (of_int (?k + 12) + 1/2) else PInt (?k + 12))))"
      using decode_setpoint [of 13 body "(4, 0)" ?k "\<lparr>hb_offset = 2, hb_bit = 4\<rparr>"] k True assms
      by (simp add: TARGET_TEMPERATURE_RSP_def)
    then show ?thesis using True act by (simp add: TARGET_TEMPERATURE_RSP_def decode_field_def)
  next
    case False
    have "decode_one (hd TARGET_TEMPERATURE_RSP) (Some ''float'') body encs cap recs [] None = Inr Continue"
      using False k assms by (simp add: TARGET_TEMPERATURE_RSP_def decode_one_def setpoint_step_def plain_step_def
        field_at_def condition_fails_def DECODE_PREDICATES_def)
    moreover have "decode_one (hd (tl TARGET_TEMPERATURE_RSP)) (Some ''float'') body encs cap recs [] None =
      Inr (Return (Value (if bit (uint (body ! 2)) 4 then PFloat (of_int (uint (body ! 2) mod 16 + 16) + 1/2)
                          else PInt (uint (body ! 2) mod 16 + 16))))"
      using decode_setpoint [of 2 body "(3, 0)" _ "\<lparr>hb_offset = 2, hb_bit = 4\<rparr>"] p assms
      by (simp add: TARGET_TEMPERATURE_RSP_def)
    ultimately show ?thesis using False act by (simp add: TARGET_TEMPERATURE_RSP_def decode_field_def)
  qed
qed

theorem target_temperature_source_witness:
  "\<exists>v. decode_field TARGET_TEMPERATURE_RSP (Some ''float'')
        ([0xC0, 1, 0x75, 0, 0, 0, 0, 0, 0, 0, 0, 0, 0, 9] :: bytes) [] None None [] None = Inr (Value v) \<and>
     num_of v = Some (43/2)"
  using target_temperature_source [of "[0xC0, 1, 0x75, 0, 0, 0, 0, 0, 0, 0, 0, 0, 0, 9] :: bytes" "[]" None None]
  by (simp add: bit_iff_odd)

end
