(* ===== verification/Status.thy ===== *)
theory Status
  imports Codec "HOL-Library.List_Lexorder" "HOL-Library.Char_ord"
begin

section \<open>The device status (\<open>blaueis/core/status.py\<close>)\<close>

text \<open>
  The in-memory store of a device: per field its availability, its value slots by frame key, its
  read priority and its constraint envelope; the session metadata with the ingest phase and the
  frame counters; and the raw capability records.  \<open>build_status\<close> creates it from the glossary.
  Timestamps are ISO strings, compared lexicographically as Python compares them.  The phases of
  the session are ordered: boot, capabilities received, steady state.
\<close>

subsection \<open>Data\<close>

record suppression_info =
  su_reason :: string
  su_raw :: pyval
  su_frame_no :: int
  su_ts :: string

record rejection_info =
  ri_outcome :: outcome
  ri_status :: byte
  ri_data_len :: nat
  ri_property_id :: string
  ri_frame_no :: int
  ri_ts :: string

record slot =
  sl_value :: pyval
  sl_raw :: pyval
  sl_frame_no :: "int option"
  sl_ts :: "string option"
  sl_generation :: "string option"
  sl_suppression :: "suppression_info option"
  sl_rejection :: "rejection_info option"

text \<open>The slot \<open>{}\<close> that \<open>setdefault\<close> creates for a field that was only ever rejected.\<close>

definition empty_slot :: slot where
  "empty_slot = \<lparr>sl_value = PNone, sl_raw = PNone, sl_frame_no = None, sl_ts = None,
                 sl_generation = None, sl_suppression = None, sl_rejection = None\<rparr>"

type_synonym sources = "(string, slot) dict"

record status_field =
  sf_feature_available :: "string option"  \<comment> \<open>absent in a field created by an optimistic write\<close>
  sf_data_type :: "string option"
  sf_writable :: bool
  sf_sources :: sources
  sf_default_priority :: "string list option"
  sf_active_constraints :: "constraints option"
  sf_global_constraints :: "yaml list"

definition bare_field :: status_field where  \<comment> \<open>\<open>{"sources": {}}\<close>\<close>
  "bare_field =
     \<lparr>sf_feature_available = None, sf_data_type = None, sf_writable = False, sf_sources = [],
      sf_default_priority = None, sf_active_constraints = None, sf_global_constraints = []\<rparr>"

datatype phase = Boot | Post_b5 | Steady_state

record meta =
  me_device :: string
  me_phase :: phase
  me_glossary_version :: string
  me_b5_received :: bool
  me_caps_finalized :: bool
  me_frame_counts :: "(string, int) dict"
  me_last_ingest_at :: "string option"

record status =
  st_meta :: meta
  st_fields :: "(string, status_field) dict"
  st_capabilities_raw :: "cap_record list"

text \<open>The phases in the order of a session.\<close>

fun phase_rank :: "phase \<Rightarrow> nat" where
  "phase_rank Boot = 0"
| "phase_rank Post_b5 = 1"
| "phase_rank Steady_state = 2"

instantiation phase :: linorder
begin

definition less_eq_phase :: "phase \<Rightarrow> phase \<Rightarrow> bool" where
  "less_eq_phase p q \<longleftrightarrow> phase_rank p \<le> phase_rank q"

definition less_phase :: "phase \<Rightarrow> phase \<Rightarrow> bool" where
  "less_phase p q \<longleftrightarrow> phase_rank p < phase_rank q"

instance
proof
  fix p q r :: phase
  show "p < q \<longleftrightarrow> p \<le> q \<and> \<not> q \<le> p" by (auto simp: less_eq_phase_def less_phase_def)
  show "p \<le> p" by (simp add: less_eq_phase_def)
  show "p \<le> q \<Longrightarrow> q \<le> r \<Longrightarrow> p \<le> r" by (simp add: less_eq_phase_def)
  show "p \<le> q \<Longrightarrow> q \<le> p \<Longrightarrow> p = q" by (cases p; cases q) (simp_all add: less_eq_phase_def)
  show "p \<le> q \<or> q \<le> p" by (auto simp: less_eq_phase_def)
qed

end

lemma phase_order [simp]: "Boot \<le> p" "p \<le> Steady_state" "Post_b5 \<le> p \<longleftrightarrow> p \<noteq> Boot"
  by (cases p; simp add: less_eq_phase_def)+

subsection \<open>Access\<close>

abbreviation map_field :: "string \<Rightarrow> (status_field \<Rightarrow> status_field) \<Rightarrow> status \<Rightarrow> status" where
  "map_field name f st \<equiv>
     (case dget (st_fields st) name of
        None \<Rightarrow> st
      | Some sf \<Rightarrow> st\<lparr>st_fields := dset name (f sf) (st_fields st)\<rparr>)"

definition bump :: "string \<Rightarrow> int \<Rightarrow> status \<Rightarrow> status" where
  \<comment> \<open>\<open>counts[key] = counts.get(key, 0) + n\<close>\<close>
  "bump key n st =
     st\<lparr>st_meta := (st_meta st)\<lparr>me_frame_counts :=
          dset key (dget_or (me_frame_counts (st_meta st)) key 0 + n) (me_frame_counts (st_meta st))\<rparr>\<rparr>"

definition feature :: "status \<Rightarrow> string \<Rightarrow> string option" where
  "feature st name = (case dget (st_fields st) name of None \<Rightarrow> None | Some sf \<Rightarrow> sf_feature_available sf)"

definition field_sources :: "status \<Rightarrow> string \<Rightarrow> sources" where
  "field_sources st name = (case dget (st_fields st) name of None \<Rightarrow> [] | Some sf \<Rightarrow> sf_sources sf)"

lemma bump_simps [simp]:
  "st_fields (bump key n st) = st_fields st"
  "st_capabilities_raw (bump key n st) = st_capabilities_raw st"
  "me_phase (st_meta (bump key n st)) = me_phase (st_meta st)"
  "me_caps_finalized (st_meta (bump key n st)) = me_caps_finalized (st_meta st)"
  "me_b5_received (st_meta (bump key n st)) = me_b5_received (st_meta st)"
  by (simp_all add: bump_def)

subsection \<open>Building\<close>

definition initial_constraints :: "field_def \<Rightarrow> constraints option" where
  "initial_constraints fdef =
     (case fd_capability fdef of
        None \<Rightarrow> None
      | Some cap \<Rightarrow>
          (case cap_default cap of
             None \<Rightarrow> None
           | Some d \<Rightarrow>
               let out = \<lparr>ac_by_mode = ac_by_mode d, ac_top = (ac_top d)\<lparr>ev_extra := []\<rparr>\<rparr>
               in if out = \<lparr>ac_by_mode = None, ac_top = no_envelope\<rparr> then None else Some out))"

definition writable_field :: "field_def \<Rightarrow> bool" where
  "writable_field fdef \<longleftrightarrow> list_ex (\<lambda>(_, p). pl_direction p = Some ''command'') (fd_protocols fdef)"

definition initial_field :: "field_def \<Rightarrow> status_field" where
  "initial_field fdef =
     \<lparr>sf_feature_available = Some (case fd_feature_available fdef of None \<Rightarrow> ''always'' | Some fa \<Rightarrow> fa),
      sf_data_type = fd_data_type fdef,
      sf_writable = writable_field fdef,
      sf_sources = [],
      sf_default_priority = Some (case fd_default_priority fdef of None \<Rightarrow> [''protocol_all''] | Some p \<Rightarrow> p),
      sf_active_constraints = initial_constraints fdef,
      sf_global_constraints = fd_global_constraints fdef\<rparr>"

definition build_status :: "string \<Rightarrow> glossary \<Rightarrow> status" where
  "build_status device g =
     \<lparr>st_meta =
        \<lparr>me_device = device, me_phase = Boot, me_glossary_version = gl_version g, me_b5_received = False,
         me_caps_finalized = False, me_frame_counts = [], me_last_ingest_at = None\<rparr>,
      st_fields = fold (\<lambda>(name, fdef). dset name (initial_field fdef)) (walk_fields g) [],
      st_capabilities_raw = []\<rparr>"

lemma build_status_lookup:
  "dget (st_fields (build_status device g)) name = map_option initial_field (dget (walk_fields g) name)"
  by (simp add: build_status_def dget_comprehension)

end
