(* ===== verification/Formula.thy ===== *)
theory Formula
  imports Py_Prelude
begin

section \<open>The formula evaluator (\<open>blaueis/core/formula.py\<close>)\<close>

text \<open>
  \<open>evaluate\<close> parses a \<open>derived_from.formula\<close> string as a Python expression and interprets a
  whitelisted part of its syntax tree over a dictionary of inputs.  The syntax tree is \<open>expr\<close>, with
  one constructor for all nodes \<open>_eval_node\<close> rejects.  The parser covers the arithmetic fragment of
  the expression grammar with Python's precedences, over the number literals of Python and ASCII
  names, on one line; any other string is a syntax error of the model: it is one for Python too, or
  a node that is rejected, hence the same exception for \<open>evaluate\<close>.

  What depends on the interpreter and not on the program is an argument, the record \<open>interpreter\<close>:
  which texts \<open>ast.parse\<close> gives up on although their grammar is right (\<open>MemoryError\<close>, \<open>RecursionError\<close>,
  an encoding error of the source text, or too many nested parentheses, which is a \<open>SyntaxError\<close>),
  which trees exceed a limit while they are evaluated, and the values of the powers that are not
  rational: a fractional exponent gives a float, over a negative base a complex number, and
  \<open>evaluate\<close> goes on with it.  Complex numbers have rational complex_parts, as floats are rationals.
\<close>

subsection \<open>Syntax trees\<close>

datatype bin_op = Add | Sub | Mult | Div | FloorDiv | Mod | Pow | OtherBinOp
datatype unary_op = UAdd | USub | OtherUnaryOp

datatype expr =
    Constant pyval
  | Name string
  | BinOp expr bin_op expr
  | UnaryOp unary_op expr
  | OtherNode

subsection \<open>The interpreter\<close>

datatype parse_fault = Syntax_Error | Other_Fault py_error  \<comment> \<open>\<open>SyntaxError\<close>, any other exception\<close>

text \<open>
  \<open>ip_pow\<close>: the power of a positive base with a fractional exponent; \<open>ip_cpow\<close>: the power of a
  complex base other than zero.  \<open>None\<close> stands for \<open>OverflowError\<close>.
\<close>

record interpreter =
  ip_parse_fault :: "string \<Rightarrow> parse_fault option"
  ip_eval_fault :: "expr \<Rightarrow> (string, pyval) dict \<Rightarrow> py_error option"
  ip_pow :: "rat \<Rightarrow> rat \<Rightarrow> rat option"
  ip_cpow :: "rat \<times> rat \<Rightarrow> rat \<times> rat \<Rightarrow> (rat \<times> rat) option"

subsection \<open>Evaluation\<close>

datatype number = Real_Num pyval | Complex_Num rat rat

definition is_float :: "pyval \<Rightarrow> bool" where
  "is_float v = (case v of PFloat _ \<Rightarrow> True | _ \<Rightarrow> False)"

text \<open>The result of an operator on two real numbers is a float when either operand is one.\<close>

definition num_result :: "pyval \<Rightarrow> pyval \<Rightarrow> rat \<Rightarrow> number" where
  "num_result a b q = Real_Num (if is_float a \<or> is_float b then PFloat q else PInt \<lfloor>q\<rfloor>)"

definition complex_result :: "(rat \<times> rat) option \<Rightarrow> number res" where
  "complex_result r = (case r of None \<Rightarrow> Inl OverflowError | Some (re, im) \<Rightarrow> Inr (Complex_Num re im))"

text \<open>\<open>complex.__pow__\<close>: an exponent of zero gives one, a base of zero is only raised to positive numbers.\<close>

definition complex_power :: "interpreter \<Rightarrow> rat \<times> rat \<Rightarrow> rat \<times> rat \<Rightarrow> number res" where
  "complex_power ip base exponent =
     (if exponent = (0, 0) then Inr (Complex_Num 1 0)
      else if base = (0, 0) then
        (if snd exponent \<noteq> 0 \<or> fst exponent < 0 then Inl ZeroDivisionError else Inr (Complex_Num 0 0))
      else complex_result (ip_cpow ip base exponent))"

text \<open>
  \<open>operator.pow\<close> on real numbers: an integral exponent gives an exact power, a float when it is
  negative; a fractional one gives a float, or a complex number when the base is negative.
\<close>

definition power_op :: "interpreter \<Rightarrow> pyval \<Rightarrow> pyval \<Rightarrow> rat \<Rightarrow> rat \<Rightarrow> number res" where
  "power_op ip a b x y =
     (if y = of_int \<lfloor>y\<rfloor> then
        (if 0 \<le> y then Inr (num_result a b (x ^ nat \<lfloor>y\<rfloor>))
         else if x = 0 then Inl ZeroDivisionError
         else Inr (Real_Num (PFloat (1 / x ^ nat (- \<lfloor>y\<rfloor>)))))
      else if x = 0 then (if y < 0 then Inl ZeroDivisionError else Inr (Real_Num (PFloat 0)))
      else if x < 0 then complex_power ip (x, 0) (y, 0)
      else (case ip_pow ip x y of None \<Rightarrow> Inl OverflowError | Some q \<Rightarrow> Inr (Real_Num (PFloat q))))"

fun apply_real :: "interpreter \<Rightarrow> bin_op \<Rightarrow> pyval \<Rightarrow> pyval \<Rightarrow> rat \<Rightarrow> rat \<Rightarrow> number res" where
  "apply_real ip Add a b x y = Inr (num_result a b (x + y))"
| "apply_real ip Sub a b x y = Inr (num_result a b (x - y))"
| "apply_real ip Mult a b x y = Inr (num_result a b (x * y))"
| "apply_real ip Div a b x y = (if y = 0 then Inl ZeroDivisionError else Inr (Real_Num (PFloat (x / y))))"
| "apply_real ip FloorDiv a b x y =
     (if y = 0 then Inl ZeroDivisionError else Inr (num_result a b (of_int \<lfloor>x / y\<rfloor>)))"
| "apply_real ip Mod a b x y =
     (if y = 0 then Inl ZeroDivisionError else Inr (num_result a b (x - of_int \<lfloor>x / y\<rfloor> * y)))"
| "apply_real ip Pow a b x y = power_op ip a b x y"
| "apply_real ip OtherBinOp a b x y = Inl FormulaError"

text \<open>Complex arithmetic; \<open>//\<close> and \<open>%\<close> are not defined on complex numbers.\<close>

fun apply_complex :: "interpreter \<Rightarrow> bin_op \<Rightarrow> rat \<times> rat \<Rightarrow> rat \<times> rat \<Rightarrow> number res" where
  "apply_complex ip Add (a, b) (c, d) = Inr (Complex_Num (a + c) (b + d))"
| "apply_complex ip Sub (a, b) (c, d) = Inr (Complex_Num (a - c) (b - d))"
| "apply_complex ip Mult (a, b) (c, d) = Inr (Complex_Num (a * c - b * d) (a * d + b * c))"
| "apply_complex ip Div (a, b) (c, d) =
     (let n = c * c + d * d
      in if n = 0 then Inl ZeroDivisionError
         else Inr (Complex_Num ((a * c + b * d) / n) ((b * c - a * d) / n)))"
| "apply_complex ip FloorDiv z w = Inl TypeError"
| "apply_complex ip Mod z w = Inl TypeError"
| "apply_complex ip Pow z w = complex_power ip z w"
| "apply_complex ip OtherBinOp z w = Inl FormulaError"

fun complex_parts :: "number \<Rightarrow> (rat \<times> rat) option" where  \<comment> \<open>conversion to a complex number\<close>
  "complex_parts (Complex_Num re im) = Some (re, im)"
| "complex_parts (Real_Num v) = (case num_of v of None \<Rightarrow> None | Some x \<Rightarrow> Some (x, 0))"

fun apply_bin :: "interpreter \<Rightarrow> bin_op \<Rightarrow> number \<Rightarrow> number \<Rightarrow> number res" where
  "apply_bin ip op (Real_Num a) (Real_Num b) =
     (case (num_of a, num_of b) of (Some x, Some y) \<Rightarrow> apply_real ip op a b x y | _ \<Rightarrow> Inl TypeError)"
| "apply_bin ip op u w =
     (case (complex_parts u, complex_parts w) of (Some z, Some z') \<Rightarrow> apply_complex ip op z z' | _ \<Rightarrow> Inl TypeError)"

fun apply_unary :: "unary_op \<Rightarrow> number \<Rightarrow> number res" where
  "apply_unary UAdd v = Inr v"
| "apply_unary USub (Real_Num (PInt i)) = Inr (Real_Num (PInt (- i)))"
| "apply_unary USub (Real_Num (PFloat q)) = Inr (Real_Num (PFloat (- q)))"
| "apply_unary USub (Complex_Num re im) = Inr (Complex_Num (- re) (- im))"
| "apply_unary USub (Real_Num _) = Inl TypeError"
| "apply_unary OtherUnaryOp v = Inl FormulaError"

fun eval_node :: "interpreter \<Rightarrow> expr \<Rightarrow> (string, pyval) dict \<Rightarrow> number res" where
  "eval_node ip (Constant v) inputs = (if is_numeric v then Inr (Real_Num v) else Inl FormulaError)"
| "eval_node ip (Name n) inputs =
     (case dget inputs n of
        None \<Rightarrow> Inl FormulaError
      | Some v \<Rightarrow> if is_numeric v then Inr (Real_Num v) else Inl FormulaError)"
| "eval_node ip (BinOp l op r) inputs =
     (if op = OtherBinOp then Inl FormulaError
      else bind_res (eval_node ip l inputs) (\<lambda>a. bind_res (eval_node ip r inputs) (apply_bin ip op a)))"
| "eval_node ip (UnaryOp op e) inputs =
     (if op = OtherUnaryOp then Inl FormulaError
      else bind_res (eval_node ip e inputs) (apply_unary op))"
| "eval_node ip OtherNode inputs = Inl FormulaError"

subsection \<open>Parsing\<close>

datatype token = TNum pyval | TName string | TOp string | TLPar | TRPar

definition is_digit :: "char \<Rightarrow> bool" where
  "is_digit c \<longleftrightarrow> digit_val c \<noteq> None"

definition is_ident_start :: "char \<Rightarrow> bool" where
  "is_ident_start c \<longleftrightarrow> (let n = (of_char c :: nat) in (65 \<le> n \<and> n \<le> 90) \<or> (97 \<le> n \<and> n \<le> 122) \<or> n = 95)"

definition is_ident :: "char \<Rightarrow> bool" where
  "is_ident c \<longleftrightarrow> is_ident_start c \<or> is_digit c"

text \<open>Words Python reserves; a name token may not be one of them.\<close>

definition KEYWORDS :: "string list" where
  "KEYWORDS =
     [''False'', ''None'', ''True'', ''and'', ''as'', ''assert'', ''async'', ''await'', ''break'', ''class'',
      ''continue'', ''def'', ''del'', ''elif'', ''else'', ''except'', ''finally'', ''for'', ''from'', ''global'',
      ''if'', ''import'', ''in'', ''is'', ''lambda'', ''nonlocal'', ''not'', ''or'', ''pass'', ''raise'', ''return'',
      ''try'', ''while'', ''with'', ''yield'']"

text \<open>
  Number literals: decimal integers without superfluous leading zeros, integers of base 16, 8 and 2,
  floats with a point or an exponent; digits may be separated by single underscores.
\<close>

definition digit_of :: "nat \<Rightarrow> char \<Rightarrow> nat option" where
  "digit_of base c =
     (let n = (of_char c :: nat);
          v = (if 48 \<le> n \<and> n \<le> 57 then n - 48 else if 65 \<le> n \<and> n \<le> 90 then n - 55
               else if 97 \<le> n \<and> n \<le> 122 then n - 87 else base)
      in if v < base then Some v else None)"

definition digits_start :: "nat \<Rightarrow> string \<Rightarrow> bool" where
  "digits_start base s \<longleftrightarrow> s \<noteq> [] \<and> digit_of base (hd s) \<noteq> None"

fun scan_digits :: "nat \<Rightarrow> string \<Rightarrow> string \<times> string" where
  "scan_digits base [] = ([], [])"
| "scan_digits base (c # s) =
     (if digit_of base c \<noteq> None then (case scan_digits base s of (ds, r) \<Rightarrow> (c # ds, r))
      else if c = CHR ''_'' \<and> digits_start base s then scan_digits base s
      else ([], c # s))"

definition radix_value :: "nat \<Rightarrow> string \<Rightarrow> int" where
  "radix_value base s =
     foldl (\<lambda>acc c. int base * acc + int (case digit_of base c of Some d \<Rightarrow> d | None \<Rightarrow> 0)) 0 s"

definition radix_of :: "char \<Rightarrow> nat option" where
  "radix_of c = (if c \<in> {CHR ''x'', CHR ''X''} then Some 16 else if c \<in> {CHR ''o'', CHR ''O''} then Some 8
                 else if c \<in> {CHR ''b'', CHR ''B''} then Some 2 else None)"

definition scan_exponent :: "string \<Rightarrow> (int \<times> string) option" where
  "scan_exponent s =
     (if s \<noteq> [] \<and> hd s \<in> {CHR ''e'', CHR ''E''} then
        (let negative = tl s \<noteq> [] \<and> hd (tl s) = CHR ''-'';
             r = (if tl s \<noteq> [] \<and> hd (tl s) \<in> {CHR ''+'', CHR ''-''} then tl (tl s) else tl s)
         in if digits_start 10 r then
              (case scan_digits 10 r of
                 (ds, rest) \<Rightarrow> Some (if negative then - radix_value 10 ds else radix_value 10 ds, rest))
            else None)
      else None)"

definition scale10 :: "rat \<Rightarrow> int \<Rightarrow> rat" where
  "scale10 m e = (if 0 \<le> e then m * 10 ^ nat e else m / 10 ^ nat (- e))"

definition scan_fraction :: "string \<Rightarrow> bool \<times> string \<times> string" where  \<comment> \<open>is there a point, its digits\<close>
  "scan_fraction s =
     (if s \<noteq> [] \<and> hd s = CHR ''.''
      then (True, if digits_start 10 (tl s) then scan_digits 10 (tl s) else ([], tl s))
      else (False, [], s))"

definition scan_decimal :: "string \<Rightarrow> (token \<times> string) option" where
  "scan_decimal s =
     (case (if digits_start 10 s then scan_digits 10 s else ([], s)) of
        (whole, r1) \<Rightarrow>
          (case scan_fraction r1 of
             (point, fraction, r2) \<Rightarrow>
               let mantissa = of_int (radix_value 10 (whole @ fraction)) / 10 ^ length fraction
               in case scan_exponent r2 of
                    Some (e, r3) \<Rightarrow> Some (TNum (PFloat (scale10 mantissa e)), r3)
                  | None \<Rightarrow>
                      if point then Some (TNum (PFloat mantissa), r2)
                      else if 1 < length whole \<and> hd whole = CHR ''0'' \<and> radix_value 10 whole \<noteq> 0 then None
                      else Some (TNum (PInt (radix_value 10 whole)), r2)))"

definition scan_radix :: "string \<Rightarrow> (token \<times> string) option" where  \<comment> \<open>after the zero of the prefix\<close>
  "scan_radix s =
     (case radix_of (hd s) of
        None \<Rightarrow> None
      | Some base \<Rightarrow>
          (let r = (if tl s \<noteq> [] \<and> hd (tl s) = CHR ''_'' then tl (tl s) else tl s)
           in if digits_start base r
              then (case scan_digits base r of (ds, rest) \<Rightarrow> Some (TNum (PInt (radix_value base ds)), rest))
              else None))"

text \<open>No letter, digit or underscore may follow a literal (\<open>1j\<close> is a constant that is rejected).\<close>

definition scan_number :: "string \<Rightarrow> (token \<times> string) option" where
  "scan_number s =
     (case (if hd s = CHR ''0'' \<and> tl s \<noteq> [] \<and> radix_of (hd (tl s)) \<noteq> None then scan_radix (tl s)
            else scan_decimal s) of
        None \<Rightarrow> None
      | Some (t, rest) \<Rightarrow> if rest \<noteq> [] \<and> is_ident (hd rest) then None else Some (t, rest))"

lemma scan_digits_length:
  "length (snd (scan_digits base s)) \<le> length s"
  "digits_start base s \<Longrightarrow> length (snd (scan_digits base s)) < length s"
proof -
  show le: "length (snd (scan_digits base s)) \<le> length s" for s
    by (induction base s rule: scan_digits.induct) (auto split: prod.split)
  show "digits_start base s \<Longrightarrow> length (snd (scan_digits base s)) < length s"
    using le [of "tl s"] by (cases s) (auto simp: digits_start_def split: prod.split)
qed

lemma scan_exponent_length:
  assumes "scan_exponent s = Some (e, r)"
  shows "length r \<le> length s"
proof -
  let ?r = "if tl s \<noteq> [] \<and> hd (tl s) \<in> {CHR ''+'', CHR ''-''} then tl (tl s) else tl s"
  have "r = snd (scan_digits 10 ?r)"
    using assms unfolding scan_exponent_def Let_def by (auto split: if_splits prod.split_asm)
  then have "length r \<le> length ?r" by (simp only: scan_digits_length(1))
  then show ?thesis by (auto split: if_splits)
qed

text \<open>A literal takes at least its first character.\<close>

lemma scan_decimal_length:
  assumes "scan_decimal s = Some (t, r)" and "digits_start 10 s \<or> s \<noteq> [] \<and> hd s = CHR ''.''"
  shows "length r < length s"
proof -
  obtain whole r1 where w: "(if digits_start 10 s then scan_digits 10 s else ([], s)) = (whole, r1)" by fastforce
  obtain point fraction r2 where q: "scan_fraction r1 = (point, fraction, r2)"
    by (cases "scan_fraction r1") auto
  have r: "r = r2 \<or> (\<exists>e. scan_exponent r2 = Some (e, r))"
    using assms(1) unfolding scan_decimal_def w prod.case q Let_def by (auto split: option.split_asm if_splits)
  then have "length r \<le> length r2" using scan_exponent_length by blast
  also have "length r2 \<le> length (if r1 \<noteq> [] \<and> hd r1 = CHR ''.'' then tl r1 else r1)"
    using q scan_digits_length(1) [of 10 "tl r1"] by (auto simp: scan_fraction_def split: if_splits)
  also have "\<dots> < length s"
    using w assms(2) scan_digits_length(2) [of 10 s] by (cases r1) (auto split: if_splits)
  finally show ?thesis .
qed

lemma scan_radix_length:
  assumes "scan_radix s = Some (t, r)"
  shows "length r \<le> length s"
proof -
  obtain base where b: "radix_of (hd s) = Some base"
    using assms by (auto simp: scan_radix_def split: option.split_asm)
  let ?r = "if tl s \<noteq> [] \<and> hd (tl s) = CHR ''_'' then tl (tl s) else tl s"
  have "r = snd (scan_digits base ?r)"
    using assms b unfolding scan_radix_def Let_def by (auto split: if_splits prod.split_asm)
  then have "length r \<le> length ?r" by (simp only: scan_digits_length(1))
  then show ?thesis by (auto split: if_splits)
qed

lemma scan_number_length:
  assumes "scan_number s = Some (t, r)" and "digits_start 10 s \<or> s \<noteq> [] \<and> hd s = CHR ''.''"
  shows "length r < length s"
proof (cases "hd s = CHR ''0'' \<and> tl s \<noteq> [] \<and> radix_of (hd (tl s)) \<noteq> None")
  case True
  then have "scan_radix (tl s) = Some (t, r)"
    using assms(1) by (auto simp: scan_number_def split: option.split_asm prod.split_asm if_splits)
  then show ?thesis using scan_radix_length [of "tl s" t r] assms(2) by (cases s) (auto simp: digits_start_def)
next
  case False
  then have "scan_decimal s = Some (t, r)"
    using assms(1) unfolding scan_number_def if_not_P [OF False]
    by (auto split: option.split_asm prod.split_asm if_splits)
  then show ?thesis using scan_decimal_length assms(2) by blast
qed

function tokenize :: "string \<Rightarrow> token list option" where
  "tokenize [] = Some []"
| "tokenize (c # s) =
     (if c = CHR '' '' \<or> c = CHR 0x09 then tokenize s
      else if c = CHR ''#'' then Some []
      else if digits_start 10 (c # s) \<or> c = CHR ''.'' \<and> digits_start 10 s then
        (case scan_number (c # s) of
           None \<Rightarrow> None
         | Some (t, rest) \<Rightarrow> (case tokenize rest of Some ts \<Rightarrow> Some (t # ts) | None \<Rightarrow> None))
      else if is_ident_start c then
        let name = takeWhile is_ident (c # s)
        in if name \<in> set KEYWORDS then None
           else case tokenize (dropWhile is_ident s) of
                  Some ts \<Rightarrow> Some (TName name # ts) | None \<Rightarrow> None
      else if c = CHR ''('' then (case tokenize s of Some ts \<Rightarrow> Some (TLPar # ts) | None \<Rightarrow> None)
      else if c = CHR '')'' then (case tokenize s of Some ts \<Rightarrow> Some (TRPar # ts) | None \<Rightarrow> None)
      else if (c = CHR ''*'' \<or> c = CHR ''/'') \<and> s \<noteq> [] \<and> hd s = c then
        (case tokenize (tl s) of Some ts \<Rightarrow> Some (TOp [c, c] # ts) | None \<Rightarrow> None)
      else if c \<in> {CHR ''+'', CHR ''-'', CHR ''*'', CHR ''/'', CHR ''%''} then
        (case tokenize s of Some ts \<Rightarrow> Some (TOp [c] # ts) | None \<Rightarrow> None)
      else None)"
  by pat_completeness auto

termination tokenize
proof (relation "measure length", goal_cases)
  case (3 c s pair t rest)
  then show ?case using scan_number_length [of "c # s" t rest] by auto
qed (auto intro: le_less_trans [OF length_dropWhile_le])

text \<open>
  The expression grammar, by precedence: sums of terms of factors of powers of atoms.  The first
  argument is fuel; every token is passed by at most five levels, so five times the number of
  tokens, plus five, is enough.
\<close>

definition sum_op :: "string \<Rightarrow> bin_op option" where
  "sum_op s = (if s = ''+'' then Some Add else if s = ''-'' then Some Sub else None)"

definition term_op :: "string \<Rightarrow> bin_op option" where
  "term_op s = (if s = ''*'' then Some Mult else if s = ''/'' then Some Div
                else if s = ''//'' then Some FloorDiv else if s = ''%'' then Some Mod else None)"

definition sign_op :: "string \<Rightarrow> unary_op option" where
  "sign_op s = (if s = ''+'' then Some UAdd else if s = ''-'' then Some USub else None)"

datatype level = LSum | LSumRest expr | LTerm | LTermRest expr | LFactor | LPower | LAtom

primrec p_expr :: "nat \<Rightarrow> level \<Rightarrow> token list \<Rightarrow> (expr \<times> token list) option" where
  "p_expr 0 level ts = None"
| "p_expr (Suc n) level ts =
     (case level of
        LSum \<Rightarrow> (case p_expr n LTerm ts of None \<Rightarrow> None | Some (e, r) \<Rightarrow> p_expr n (LSumRest e) r)
      | LSumRest e \<Rightarrow>
          (case ts of
             TOp s # r \<Rightarrow>
               (case sum_op s of
                  None \<Rightarrow> Some (e, ts)
                | Some op \<Rightarrow>
                    (case p_expr n LTerm r of
                       None \<Rightarrow> None | Some (e', r') \<Rightarrow> p_expr n (LSumRest (BinOp e op e')) r'))
           | _ \<Rightarrow> Some (e, ts))
      | LTerm \<Rightarrow> (case p_expr n LFactor ts of None \<Rightarrow> None | Some (e, r) \<Rightarrow> p_expr n (LTermRest e) r)
      | LTermRest e \<Rightarrow>
          (case ts of
             TOp s # r \<Rightarrow>
               (case term_op s of
                  None \<Rightarrow> Some (e, ts)
                | Some op \<Rightarrow>
                    (case p_expr n LFactor r of
                       None \<Rightarrow> None | Some (e', r') \<Rightarrow> p_expr n (LTermRest (BinOp e op e')) r'))
           | _ \<Rightarrow> Some (e, ts))
      | LFactor \<Rightarrow>
          (case ts of
             TOp s # r \<Rightarrow>
               (case sign_op s of
                  None \<Rightarrow> None
                | Some op \<Rightarrow>
                    (case p_expr n LFactor r of None \<Rightarrow> None | Some (e, r') \<Rightarrow> Some (UnaryOp op e, r')))
           | _ \<Rightarrow> p_expr n LPower ts)
      | LPower \<Rightarrow>
          (case p_expr n LAtom ts of
             None \<Rightarrow> None
           | Some (e, r) \<Rightarrow>
               (case r of
                  TOp s # r' \<Rightarrow>
                    (if s = ''**'' then
                       (case p_expr n LFactor r' of
                          None \<Rightarrow> None | Some (e', r'') \<Rightarrow> Some (BinOp e Pow e', r''))
                     else Some (e, r))
                | _ \<Rightarrow> Some (e, r)))
      | LAtom \<Rightarrow>
          (case ts of
             TNum v # r \<Rightarrow> Some (Constant v, r)
           | TName x # r \<Rightarrow> Some (Name x, r)
           | TLPar # r \<Rightarrow> (case p_expr n LSum r of Some (e, TRPar # r') \<Rightarrow> Some (e, r') | _ \<Rightarrow> None)
           | _ \<Rightarrow> None))"

definition parse_tokens :: "token list \<Rightarrow> expr option" where
  "parse_tokens ts = (case p_expr (5 * length ts + 5) LSum ts of Some (e, []) \<Rightarrow> Some e | _ \<Rightarrow> None)"

definition ast_parse :: "interpreter \<Rightarrow> string \<Rightarrow> parse_fault + expr" where
  "ast_parse ip s =
     (case ip_parse_fault ip s of
        Some fault \<Rightarrow> Inl fault
      | None \<Rightarrow>
          if s \<noteq> [] \<and> (hd s = CHR '' '' \<or> hd s = CHR 0x09) then Inl Syntax_Error  \<comment> \<open>unexpected indent\<close>
          else (case tokenize s of
                  None \<Rightarrow> Inl Syntax_Error
                | Some ts \<Rightarrow> (case parse_tokens ts of None \<Rightarrow> Inl Syntax_Error | Some body \<Rightarrow> Inr body)))"

text \<open>
  Only a \<open>SyntaxError\<close> of the parser is converted, any other exception of it leaves \<open>evaluate\<close> as it
  is; every exception of the evaluation becomes a \<open>FormulaError\<close>.
\<close>

definition evaluate :: "interpreter \<Rightarrow> string \<Rightarrow> (string, pyval) dict \<Rightarrow> number res" where
  "evaluate ip formula inputs =
     (case ast_parse ip formula of
        Inl Syntax_Error \<Rightarrow> Inl FormulaError
      | Inl (Other_Fault e) \<Rightarrow> Inl e
      | Inr body \<Rightarrow>
          (case ip_eval_fault ip body inputs of
             Some _ \<Rightarrow> Inl FormulaError
           | None \<Rightarrow> (case eval_node ip body inputs of Inl _ \<Rightarrow> Inl FormulaError | Inr v \<Rightarrow> Inr v)))"

text \<open>
  The interpreter for the formulas of the glossary, which are short and use no power: it hits no
  limit, and the powers without a rational value are errors.
\<close>

definition GLOSSARY_PYTHON :: interpreter where
  "GLOSSARY_PYTHON =
     \<lparr>ip_parse_fault = \<lambda>_. None, ip_eval_fault = \<lambda>_ _. None, ip_pow = \<lambda>_ _. None, ip_cpow = \<lambda>_ _. None\<rparr>"

subsection \<open>Lemmas\<close>

fun allowed :: "expr \<Rightarrow> bool" where  \<comment> \<open>the whitelist\<close>
  "allowed (Constant v) \<longleftrightarrow> is_numeric v"
| "allowed (Name _) \<longleftrightarrow> True"
| "allowed (BinOp l op r) \<longleftrightarrow> op \<noteq> OtherBinOp \<and> allowed l \<and> allowed r"
| "allowed (UnaryOp op e) \<longleftrightarrow> op \<noteq> OtherUnaryOp \<and> allowed e"
| "allowed OtherNode \<longleftrightarrow> False"

fun names :: "expr \<Rightarrow> string set" where
  "names (Name n) = {n}"
| "names (BinOp l _ r) = names l \<union> names r"
| "names (UnaryOp _ e) = names e"
| "names _ = {}"

fun has_power :: "expr \<Rightarrow> bool" where
  "has_power (BinOp l op r) \<longleftrightarrow> op = Pow \<or> has_power l \<or> has_power r"
| "has_power (UnaryOp _ e) \<longleftrightarrow> has_power e"
| "has_power _ \<longleftrightarrow> False"

definition plain_number :: "number \<Rightarrow> bool" where
  "plain_number v \<longleftrightarrow> (case v of Real_Num u \<Rightarrow> is_numeric u | Complex_Num _ _ \<Rightarrow> False)"

definition is_number :: "number \<Rightarrow> bool" where
  "is_number v \<longleftrightarrow> (case v of Real_Num u \<Rightarrow> is_numeric u | Complex_Num _ _ \<Rightarrow> True)"

lemmas number_defs = plain_number_def is_number_def num_result_def complex_power_def complex_result_def

lemma plain_number_Real: "plain_number v \<Longrightarrow> \<exists>u. v = Real_Num u \<and> is_numeric u"
  by (cases v) (auto simp: plain_number_def)

lemma apply_real_number: "apply_real ip op a b x y = Inr v \<Longrightarrow> is_number v \<and> (op \<noteq> Pow \<longrightarrow> plain_number v)"
  by (cases op) (auto simp: power_op_def number_defs split: if_splits option.split_asm)

lemma apply_complex_number: "apply_complex ip op z w = Inr v \<Longrightarrow> is_number v"
  by (cases z; cases w; cases op) (auto simp: number_defs Let_def split: if_splits option.split_asm)

lemma apply_bin_number: "apply_bin ip op a b = Inr v \<Longrightarrow> is_number v"
  by (cases a; cases b) (auto dest: apply_real_number apply_complex_number split: option.split_asm)

lemma apply_bin_plain:
  "apply_bin ip op a b = Inr v \<Longrightarrow> plain_number a \<Longrightarrow> plain_number b \<Longrightarrow> op \<noteq> Pow \<Longrightarrow> plain_number v"
  by (auto dest!: plain_number_Real dest: apply_real_number split: option.split_asm)

lemma apply_unary_number:
  "apply_unary op a = Inr v \<Longrightarrow> is_number a \<Longrightarrow> is_number v"
  "apply_unary op a = Inr v \<Longrightarrow> plain_number a \<Longrightarrow> plain_number v"
  by (cases "(op, a)" rule: apply_unary.cases; auto simp: number_defs)+

lemma eval_node_sound:
  "eval_node ip e inputs = Inr v \<Longrightarrow> is_number v \<and> (has_power e \<or> plain_number v) \<and> allowed e \<and>
     (\<forall>n \<in> names e. \<exists>u. dget inputs n = Some u \<and> is_numeric u)"
proof (induction e arbitrary: v)
  case (BinOp l op r)
  then obtain a b where ab: "eval_node ip l inputs = Inr a" "eval_node ip r inputs = Inr b"
      "apply_bin ip op a b = Inr v" "op \<noteq> OtherBinOp"
    by (auto split: if_splits)
  from BinOp.IH(1) [OF ab(1)] BinOp.IH(2) [OF ab(2)] show ?case
    using ab(4) apply_bin_number [OF ab(3)] apply_bin_plain [OF ab(3)] by auto
next
  case (UnaryOp op e)
  then obtain a where a: "eval_node ip e inputs = Inr a" "apply_unary op a = Inr v" "op \<noteq> OtherUnaryOp"
    by (auto split: if_splits)
  from UnaryOp.IH [OF a(1)] show ?case using a(3) apply_unary_number [OF a(2)] by auto
qed (auto simp: number_defs split: if_splits option.split_asm)

lemma dget_filter_names: "n \<in> S \<Longrightarrow> dget (filter (\<lambda>(k, u). k \<in> S) d) n = dget d n"
  by (induction d) auto

text \<open>Only the inputs a formula names can change its value.\<close>

lemma eval_node_local: "(\<forall>n \<in> names e. dget d n = dget d' n) \<Longrightarrow> eval_node ip e d = eval_node ip e d'"
  by (induction e) auto

text \<open>Printing with parentheses around every operation.\<close>

fun bin_token :: "bin_op \<Rightarrow> string" where
  "bin_token Add = ''+''" | "bin_token Sub = ''-''" | "bin_token Mult = ''*''" | "bin_token Div = ''/''"
| "bin_token FloorDiv = ''//''" | "bin_token Mod = ''%''" | "bin_token Pow = ''**''"
| "bin_token OtherBinOp = ''''"

fun print_expr :: "expr \<Rightarrow> token list" where
  "print_expr (Constant v) = [TNum v]"
| "print_expr (Name n) = [TName n]"
| "print_expr (BinOp l op r) = TLPar # print_expr l @ [TOp (bin_token op)] @ print_expr r @ [TRPar]"
| "print_expr (UnaryOp op e) = TLPar # TOp (if op = USub then ''-'' else ''+'') # print_expr e @ [TRPar]"
| "print_expr OtherNode = []"

lemmas op_defs = sum_op_def term_op_def sign_op_def

lemma print_expr_head:
  "allowed e \<Longrightarrow> \<exists>t r. print_expr e = t # r \<and> (\<forall>s. t \<noteq> TOp s)"
  by (cases e) auto

declare p_expr.simps(2) [simp del]

lemma p_atom_simps:
  "p_expr (Suc n) LAtom (TNum v # r) = Some (Constant v, r)"
  "p_expr (Suc n) LAtom (TName x # r) = Some (Name x, r)"
  "p_expr n LSum ts = Some (e, TRPar # r) \<Longrightarrow> p_expr (Suc n) LAtom (TLPar # ts) = Some (e, r)"
  by (simp_all add: p_expr.simps(2))

lemma p_power_plain:
  "p_expr n LAtom ts = Some (e, r) \<Longrightarrow> (\<And>r'. r \<noteq> TOp ''**'' # r') \<Longrightarrow> p_expr (Suc n) LPower ts = Some (e, r)"
  by (auto simp: p_expr.simps(2) split: list.split token.split)

lemma p_power_op:
  "p_expr n LAtom ts = Some (e, TOp ''**'' # r) \<Longrightarrow> p_expr n LFactor r = Some (e', r') \<Longrightarrow>
   p_expr (Suc n) LPower ts = Some (BinOp e Pow e', r')"
  by (simp add: p_expr.simps(2))

lemma p_factor_plain:
  "p_expr n LPower (t # ts) = Some (e, r) \<Longrightarrow> (\<And>s. t \<noteq> TOp s) \<Longrightarrow> p_expr (Suc n) LFactor (t # ts) = Some (e, r)"
  by (auto simp: p_expr.simps(2) split: token.split)

lemma p_factor_sign:
  "p_expr n LFactor ts = Some (e, r) \<Longrightarrow> sign_op s = Some op \<Longrightarrow>
   p_expr (Suc n) LFactor (TOp s # ts) = Some (UnaryOp op e, r)"
  by (simp add: p_expr.simps(2))

lemma p_term_plain:
  "p_expr n LFactor ts = Some (e, r) \<Longrightarrow> p_expr (Suc n) LTerm ts = p_expr n (LTermRest e) r"
  "p_expr n LTerm ts = Some (e, r) \<Longrightarrow> p_expr (Suc n) LSum ts = p_expr n (LSumRest e) r"
  by (simp_all add: p_expr.simps(2))

lemma p_rest:
  "p_expr (Suc n) (LTermRest e) (TRPar # r) = Some (e, TRPar # r)"
  "p_expr (Suc n) (LSumRest e) (TRPar # r) = Some (e, TRPar # r)"
  "term_op s = None \<Longrightarrow> p_expr (Suc n) (LTermRest e) (TOp s # r) = Some (e, TOp s # r)"
  "term_op s = Some op \<Longrightarrow> p_expr n LFactor ts = Some (e', r) \<Longrightarrow>
     p_expr (Suc n) (LTermRest e) (TOp s # ts) = p_expr n (LTermRest (BinOp e op e')) r"
  "sum_op s = Some op \<Longrightarrow> p_expr n LTerm ts = Some (e', r) \<Longrightarrow>
     p_expr (Suc n) (LSumRest e) (TOp s # ts) = p_expr n (LSumRest (BinOp e op e')) r"
  by (simp_all add: p_expr.simps(2))

text \<open>From an atom to the levels above it, when a closing parenthesis follows.\<close>

lemma p_close:
  assumes "p_expr (Suc n) LAtom ts = Some (e, TRPar # r)" and "ts = t # ts'" and "\<And>s. t \<noteq> TOp s"
  shows "p_expr (Suc (Suc (Suc n))) LFactor ts = Some (e, TRPar # r)"
    and "p_expr (Suc (Suc (Suc (Suc n)))) LTerm ts = Some (e, TRPar # r)"
proof -
  have "p_expr (Suc (Suc n)) LPower ts = Some (e, TRPar # r)" by (rule p_power_plain [OF assms(1)]) simp
  then show f: "p_expr (Suc (Suc (Suc n))) LFactor ts = Some (e, TRPar # r)"
    unfolding assms(2) by (rule p_factor_plain) (rule assms(3))
  show "p_expr (Suc (Suc (Suc (Suc n)))) LTerm ts = Some (e, TRPar # r)"
    by (simp add: p_term_plain(1) [OF f] p_rest)
qed

lemma print_atom:
  "allowed e \<Longrightarrow> 5 * length (print_expr e) \<le> n + 4 \<Longrightarrow> p_expr (Suc n) LAtom (print_expr e @ rest) = Some (e, rest)"
proof (induction e arbitrary: n rest)
  case (BinOp l op r)
  let ?nl = "length (print_expr l)" and ?nr = "length (print_expr r)"
  have "5 * ?nl + 5 * ?nr + 11 \<le> n" using BinOp.prems(2) by simp
  then obtain m where m: "n = m + 7" and m': "5 * ?nl + 5 * ?nr + 4 \<le> m"
    using that [of "n - 7"] by simp
  have n: "n = Suc (Suc (Suc (Suc (Suc (Suc (Suc m))))))" by (simp add: m)
  let ?R = "print_expr r @ TRPar # rest"
  let ?T = "TOp (bin_token op) # ?R"
  let ?L = "print_expr l @ ?T"
  have l: "p_expr (Suc (Suc (Suc m))) LAtom ?L = Some (l, ?T)"
    using BinOp.IH(1) [of "Suc (Suc m)" ?T] BinOp.prems(1) m' by simp
  have r: "p_expr (Suc k) LAtom ?R = Some (r, TRPar # rest)" if "m \<le> k" for k
    using BinOp.IH(2) [of k "TRPar # rest"] BinOp.prems(1) m' that by simp
  obtain tl rl where hl: "?L = tl # rl" "\<And>s. tl \<noteq> TOp s"
    using print_expr_head [of l] BinOp.prems(1) by auto
  obtain tr rr where hr: "?R = tr # rr" "\<And>s. tr \<noteq> TOp s"
    using print_expr_head [of r] BinOp.prems(1) by auto
  note R = p_close [OF r hr]
  have "p_expr n LSum ?L = Some (BinOp l op r, TRPar # rest)"
  proof (cases "op = Pow")
    case True
    have "p_expr (Suc (Suc (Suc (Suc m)))) LPower ?L = Some (BinOp l Pow r, TRPar # rest)"
      using p_power_op [of "Suc (Suc (Suc m))" ?L l ?R r "TRPar # rest"] l R(1) [of m] True by simp
    then have "p_expr (Suc (Suc (Suc (Suc (Suc m))))) LFactor ?L = Some (BinOp l Pow r, TRPar # rest)"
      unfolding hl(1) by (rule p_factor_plain) (rule hl(2))
    then show ?thesis by (simp add: n True p_term_plain p_rest)
  next
    case False
    then have "p_expr (Suc (Suc (Suc (Suc m)))) LPower ?L = Some (l, ?T)"
      using BinOp.prems(1) by (intro p_power_plain [OF l]) (cases op; simp)
    then have "p_expr (Suc (Suc (Suc (Suc (Suc m))))) LFactor ?L = Some (l, ?T)"
      unfolding hl(1) by (rule p_factor_plain) (rule hl(2))
    note L = p_term_plain(1) [OF this]
    show ?thesis
    proof (cases "term_op (bin_token op)")
      case None
      then have s: "sum_op (bin_token op) = Some op"
        using BinOp.prems(1) False by (cases op) (simp_all add: op_defs)
      from None have "p_expr (Suc (Suc (Suc (Suc (Suc (Suc m)))))) LTerm ?L = Some (l, ?T)"
        by (simp add: L p_rest)
      then show ?thesis
        using p_rest(5) [OF s R(2) [of "Suc m"]] by (simp add: n p_term_plain p_rest)
    next
      case (Some op')
      then have "op' = op" using BinOp.prems(1) False by (cases op) (auto simp: op_defs)
      then have "p_expr (Suc (Suc (Suc (Suc (Suc (Suc m)))))) LTerm ?L = Some (BinOp l op r, TRPar # rest)"
        using Some p_rest(4) [of _ op "Suc (Suc (Suc (Suc m)))" ?R r "TRPar # rest" l] R(1) [of "Suc m"]
        by (simp add: L p_rest)
      then show ?thesis by (simp add: n p_term_plain p_rest)
    qed
  qed
  then show ?case by (simp add: p_atom_simps)
next
  case (UnaryOp op e)
  let ?E = "print_expr e @ TRPar # rest" and ?s = "if op = USub then ''-'' else ''+''"
  have "5 * length (print_expr e) + 11 \<le> n" using UnaryOp.prems(2) by simp
  then obtain m where m: "n = m + 7" and m': "5 * length (print_expr e) + 4 \<le> m"
    using that [of "n - 7"] by simp
  have n: "n = Suc (Suc (Suc (Suc (Suc (Suc (Suc m))))))" by (simp add: m)
  have e: "p_expr (Suc k) LAtom ?E = Some (e, TRPar # rest)" if "m \<le> k" for k
    using UnaryOp.IH [of k "TRPar # rest"] UnaryOp.prems(1) m' that by simp
  obtain te re where he: "?E = te # re" "\<And>s. te \<noteq> TOp s"
    using print_expr_head [of e] UnaryOp.prems(1) by auto
  have "sign_op ?s = Some op" using UnaryOp.prems(1) by (cases op) (auto simp: op_defs)
  from p_factor_sign [OF p_close(1) [OF e he] this, of "Suc m"]
  have "p_expr (Suc (Suc (Suc (Suc (Suc m))))) LFactor (TOp ?s # ?E) = Some (UnaryOp op e, TRPar # rest)"
    by simp
  then have "p_expr n LSum (TOp ?s # ?E) = Some (UnaryOp op e, TRPar # rest)"
    by (simp add: n p_term_plain p_rest del: if_distrib)
  then show ?case by (simp add: p_atom_simps)
qed (auto simp: p_atom_simps)

text \<open>The example of the docstring: \<open>evaluate("(raw - 50) * 0.5", {"raw": 74})\<close> is \<open>12.0\<close>.\<close>

lemma evaluate_docstring:
  "evaluate GLOSSARY_PYTHON ''(raw - 50) * 0.5'' [(''raw'', PInt 74)] = Inr (Real_Num (PFloat 12))"
  by code_simp

lemma evaluate_precedence:
  "evaluate GLOSSARY_PYTHON ''-2 ** 2 + 7 // 2 * 3'' [] = Inr (Real_Num (PInt 5))"
  "evaluate GLOSSARY_PYTHON ''__import__(raw)'' [] = Inl FormulaError"
  by code_simp+

lemma evaluate_literals:
  "evaluate GLOSSARY_PYTHON ''0x1_f + 1_0 + 2.5e1 - .5'' [] = Inr (Real_Num (PFloat (131 / 2)))"
  "evaluate GLOSSARY_PYTHON ''1e-2 * 0b11 # per cent'' [] = Inr (Real_Num (PFloat (3 / 100)))"
  "evaluate GLOSSARY_PYTHON ''007'' [] = Inl FormulaError"
  by code_simp+

text \<open>
  What the annotation \<open>-> float\<close> does not tell: a negative base under a fractional power makes the
  result a complex number, whatever value the interpreter computes for it, and \<open>evaluate\<close> returns it.
\<close>

lemma complex_result_returned:
  assumes "ip_parse_fault ip ''((0 - 8) ** (1 / 2))'' = None" and "\<And>e d. ip_eval_fault ip e d = None"
    and "ip_cpow ip (- 8, 0) (1 / 2, 0) = Some (re, im)"
  shows "evaluate ip ''((0 - 8) ** (1 / 2))'' [] = Inr (Complex_Num re im)"
proof -
  let ?body = "BinOp (BinOp (Constant (PInt 0)) Sub (Constant (PInt 8))) Pow (BinOp (Constant (PInt 1)) Div (Constant (PInt 2)))"
  let ?tokens = "[TLPar, TLPar, TNum (PInt 0), TOp ''-'', TNum (PInt 8), TRPar, TOp ''**'',
                  TLPar, TNum (PInt 1), TOp ''/'', TNum (PInt 2), TRPar, TRPar]"
  have "tokenize ''((0 - 8) ** (1 / 2))'' = Some ?tokens" by code_simp
  moreover have "parse_tokens ?tokens = Some ?body" by code_simp
  ultimately have "ast_parse ip ''((0 - 8) ** (1 / 2))'' = Inr ?body"
    using assms(1) by (auto simp: ast_parse_def split: option.split)
  moreover have "\<lfloor>1 / 2 :: rat\<rfloor> = 0" by (rule floor_unique) simp_all
  ultimately show ?thesis
    using assms(2,3) by (simp add: evaluate_def power_op_def number_defs is_float_def)
qed

text \<open>An exception of the parser that is no \<open>SyntaxError\<close> leaves \<open>evaluate\<close> unconverted.\<close>

lemma parser_fault_escapes:
  "ip_parse_fault ip formula = Some (Other_Fault e) \<Longrightarrow> evaluate ip formula inputs = Inl e"
  by (simp add: evaluate_def ast_parse_def)

subsection \<open>Properties\<close>



text \<open>The parser inverts printing: every whitelisted tree, written with parentheses around each
  operation, parses back to itself, so the fuel of the parser is enough at every nesting depth.\<close>

theorem print_parse_roundtrip:
  assumes "allowed e"
  shows "parse_tokens (print_expr e) = Some e"
proof -
  obtain t r where h: "print_expr e = t # r" "\<And>s. t \<noteq> TOp s" using print_expr_head [OF assms] by blast
  have n: "5 * length (print_expr e) + 5 = Suc (Suc (Suc (Suc (Suc (5 * length (print_expr e))))))" by simp
  have "p_expr (Suc (5 * length (print_expr e))) LAtom (print_expr e) = Some (e, [])"
    using print_atom [OF assms, of "5 * length (print_expr e)" "[]"] by simp
  then have "p_expr (Suc (Suc (5 * length (print_expr e)))) LPower (print_expr e) = Some (e, [])"
    by (rule p_power_plain) simp
  then have "p_expr (Suc (Suc (Suc (5 * length (print_expr e))))) LFactor (print_expr e) = Some (e, [])"
    unfolding h(1) by (rule p_factor_plain) (rule h(2))
  then show ?thesis
    unfolding parse_tokens_def n by (simp add: p_term_plain p_expr.simps(2) [of _ "LTermRest _"] p_expr.simps(2) [of _ "LSumRest _"])
qed

theorem print_parse_roundtrip_witness:
  "parse_tokens (print_expr (BinOp (UnaryOp USub (BinOp (Name ''raw'') Sub (Constant (PInt 50)))) Pow (Constant (PInt 2)))) =
     Some (BinOp (UnaryOp USub (BinOp (Name ''raw'') Sub (Constant (PInt 50)))) Pow (Constant (PInt 2)))"
  by (rule print_parse_roundtrip) simp

end
