(* ===== verification/Decode.thy ===== *)
theory Decode
  imports Codec Formula
begin

section \<open>Decoding whole frames and capabilities (\<open>codec.py\<close>)\<close>

text \<open>
  \<open>decode_enum_cap\<close> and \<open>decode_data_cap\<close>, the two decoders of a capability record;
  \<open>identify_frame\<close>; the composite members and their formula; and \<open>decode_frame_fields\<close>, the loop
  over the field map of a protocol key, with the TLV records of property frames matched to the
  fields by property identifier, the rejections set aside, and the second pass over composites.
\<close>

subsection \<open>Capability values\<close>

record enum_cap =
  ec_decoded_key :: "string option"
  ec_raw :: "int option"
  ec_envelope :: envelope
  ec_ui_gate :: "yaml option"
  ec_feature_available :: "string option"

definition decode_enum_cap :: "capability \<Rightarrow> int option \<Rightarrow> enum_cap" where
  "decode_enum_cap cap_def raw_value =
     (case find (\<lambda>(_, vdef). cv_raw vdef = raw_value) (cap_values cap_def) of
        Some (sym_name, vdef) \<Rightarrow>
          \<lparr>ec_decoded_key = Some sym_name, ec_raw = raw_value, ec_envelope = cv_envelope vdef,
           ec_ui_gate = cv_ui_gate vdef, ec_feature_available = cv_feature_available vdef\<rparr>
      | None \<Rightarrow>
          \<lparr>ec_decoded_key = None, ec_raw = raw_value, ec_envelope = no_envelope,
           ec_ui_gate = None, ec_feature_available = None\<rparr>)"

record data_item =
  di_raw :: int
  di_value :: pyval
  di_role :: "string option"
  di_mode :: "string option"
  di_unit :: "string option"

definition decode_rule :: "cap_rule \<Rightarrow> bytes \<Rightarrow> data_item option" where
  \<comment> \<open>\<open>None\<close>: \<open>{"value": None, "note": "offset beyond data"}\<close>\<close>
  "decode_rule rule data =
     (let offset = (case cr_offset rule of None \<Rightarrow> 0 | Some n \<Rightarrow> n)
      in if length data \<le> offset then None
         else let raw = uint (data ! offset);
                  formula = (case cr_formula rule of None \<Rightarrow> ''raw'' | Some f \<Rightarrow> f);
                  v = (if formula = ''raw * 0.5'' then PFloat (of_int raw / 2)
                       else if formula = ''bit0'' then PInt (raw AND 1)
                       else PInt raw)
              in Some \<lparr>di_raw = raw, di_value = v, di_role = cr_role rule, di_mode = cr_mode rule,
                       di_unit = cr_unit rule\<rparr>)"

definition decode_data_cap :: "capability \<Rightarrow> bytes \<Rightarrow> (string, data_item option) dict" where
  "decode_data_cap cap_def data =
     fold (\<lambda>(field_name, rule). dset field_name (decode_rule rule data)) (cap_decode cap_def) []"

subsection \<open>Frame identification\<close>

definition identify_frame :: "bytes \<Rightarrow> string res" where
  "identify_frame body =
     bind_res (py_nth body 0) (\<lambda>tag.
       if tag = 0xB5 then Inr ''rsp_0xb5''
       else if tag = 0xC0 then Inr ''rsp_0xc0''
       else if tag = 0xC1 then
         let group = (if length body > 3 then unat (body ! 3 AND 0x0F) else 0)
         in Inr (''rsp_0xc1_group'' @ dec group)
       else if tag = 0xA1 then Inr ''rsp_0xa1''
       else if tag = 0xB1 then Inr ''rsp_0xb1''
       else if tag = 0xB0 then Inr ''rsp_0xb0''
       else Inl ValueError)"

subsection \<open>Composites\<close>

definition index_of :: "char \<Rightarrow> string \<Rightarrow> nat" where  \<comment> \<open>\<open>s.index(c)\<close>, for a character of \<open>s\<close>\<close>
  "index_of c s = length (takeWhile (\<lambda>x. x \<noteq> c) s)"

definition rindex_of :: "char \<Rightarrow> string \<Rightarrow> nat" where
  "rindex_of c s = length s - 1 - index_of c (rev s)"

fun split_dots :: "string \<Rightarrow> (string \<times> string) option" where  \<comment> \<open>\<open>s.split("..", 1)\<close>\<close>
  "split_dots (a # b # s) =
     (if a = CHR ''.'' \<and> b = CHR ''.'' then Some ([], s)
      else map_option (\<lambda>(x, y). (a # x, y)) (split_dots (b # s)))"
| "split_dots _ = None"

definition decode_composite_member :: "bytes \<Rightarrow> member_wire \<Rightarrow> encodings \<Rightarrow> int res" where
  "decode_composite_member body wire_def encs =
     (let bp = mw_byte_position wire_def
      in if CHR ''['' \<notin> set bp \<or> CHR '']'' \<notin> set bp then Inl ValueError
         else
           let inside = slice (index_of (CHR ''['') bp + 1) (rindex_of (CHR '']'') bp) bp
           in case split_dots inside of
                Some (lo_str, hi_str) \<Rightarrow>
                  bind_res (int_of_str lo_str) (\<lambda>lo.
                  bind_res (int_of_str hi_str) (\<lambda>hi.
                    case mw_encoding wire_def of
                      Some (c # cs) \<Rightarrow> bind_res (apply_encoding (PInt 0) (c # cs) encs (Some body) lo) py_int
                    | _ \<Rightarrow>
                        (if hi + 1 > int (length body) then Inl IndexError
                         else Inr (be_value (py_slice lo (hi + 1) body)))))
              | None \<Rightarrow>
                  bind_res (int_of_str inside) (\<lambda>offset.
                    if offset \<ge> int (length body) then Inl IndexError
                    else bind_res (byte_at body offset) (\<lambda>raw.
                      case mw_bit_range wire_def of
                        [high, low] \<Rightarrow> extract_bits raw (high, low)
                      | _ \<Rightarrow> Inr raw)))"

definition first_wire :: "wire_spec \<Rightarrow> member_wire option" where
  "first_wire w = (case w of NoWire \<Rightarrow> None | OneWire m \<Rightarrow> Some m | WireList [] \<Rightarrow> None | WireList (m # _) \<Rightarrow> Some m)"

text \<open>\<open>Inr None\<close>: a member could not be decoded, the field is not synthesised.\<close>

fun composite_inputs ::
  "bytes \<Rightarrow> encodings \<Rightarrow> (string \<times> wire_spec) list \<Rightarrow> (string, pyval) dict \<Rightarrow> (string, pyval) dict option res" where
  "composite_inputs body encs [] inputs = Inr (Some inputs)"
| "composite_inputs body encs ((mname, w) # ms) inputs =
     (case first_wire w of
        None \<Rightarrow> Inr None
      | Some wire \<Rightarrow>
          (case decode_composite_member body wire encs of
             Inr v \<Rightarrow> composite_inputs body encs ms (dset mname (PInt v) inputs)
           | Inl e \<Rightarrow> if e = IndexError \<or> e = ValueError then Inr None else Inl e))"

definition synthesize_composite :: "field_def \<Rightarrow> bytes \<Rightarrow> encodings \<Rightarrow> pyval option res" where
  "synthesize_composite field_def body encs =
     (case fd_formula field_def of
        Some (c # cs) \<Rightarrow>
          (if fd_members field_def = [] then Inr None
           else bind_res (composite_inputs body encs (fd_members field_def) []) (\<lambda>inputs.
             case inputs of
               None \<Rightarrow> Inr None
             | Some ins \<Rightarrow>
                 (case evaluate GLOSSARY_PYTHON (c # cs) ins of
                    Inl e \<Rightarrow> if e = FormulaError then Inr None else Inl e
                  | Inr (Real_Num (PFloat q)) \<Rightarrow> Inr (Some (if q = of_int \<lfloor>q\<rfloor> then PInt \<lfloor>q\<rfloor> else PFloat q))
                  | Inr (Real_Num v) \<Rightarrow> Inr (Some v)
                  | Inr (Complex_Num _ _) \<Rightarrow> Inr None)))
      | _ \<Rightarrow> Inr None)"

text \<open>
  The result of the formulas of the glossary is never complex: none of them has a power, which
  \<open>GLOSSARY_PYTHON\<close> states of the interpreter (theory Formula).
\<close>

subsection \<open>Fields of a frame\<close>

record rejection =
  rj_field :: string
  rj_property_id :: string
  rj_status :: byte
  rj_data_len :: nat
  rj_outcome :: outcome

definition is_property_frame :: "string \<Rightarrow> bool" where
  "is_property_frame protocol_key \<longleftrightarrow> protocol_key \<in> {''rsp_0xb1'', ''rsp_0xb0'', ''cmd_0xb0''}"

definition index_records :: "prop_record list \<Rightarrow> (string, prop_record) dict" where
  "index_records records = fold (\<lambda>r. dset (lower (pr_property_id r)) r) records []"

datatype source = Skip | Rejected prop_record | Use bytes

definition source_of :: "bytes \<Rightarrow> (string, prop_record) dict option \<Rightarrow> string option \<Rightarrow> source" where
  "source_of body record_by_prop prop_id =
     (case (record_by_prop, prop_id) of
        (Some by_prop, Some (c # cs)) \<Rightarrow>
          (case dget by_prop (lower (c # cs)) of
             None \<Rightarrow> Skip
           | Some r \<Rightarrow> if pr_is_readable r then Use (pr_data r) else Rejected r)
      | _ \<Rightarrow> Use body)"

type_synonym frame_result = "(string, decoded) dict \<times> rejection list"

definition keep_result :: "decoded \<Rightarrow> bool" where
  \<comment> \<open>\<open>decoded.get("value") is not None or "suppression" in decoded\<close>\<close>
  "keep_result d = (case d of Value v \<Rightarrow> v \<noteq> PNone | Suppressed _ _ \<Rightarrow> True | _ \<Rightarrow> False)"

definition decode_entry ::
  "bytes \<Rightarrow> (string, prop_record) dict option \<Rightarrow> encodings \<Rightarrow> cap_record list option \<Rightarrow>
   field_entry \<Rightarrow> frame_result \<Rightarrow> frame_result res" where
  "decode_entry body by_prop encs cap_records fe acc =
     (case acc of (result, rejections) \<Rightarrow>
       (case source_of body by_prop (case fe_decode fe of [] \<Rightarrow> None | s # _ \<Rightarrow> ds_property_id s) of
          Skip \<Rightarrow> Inr (result, rejections)
        | Rejected r \<Rightarrow>
            Inr (result, rejections @
              [\<lparr>rj_field = fe_name fe, rj_property_id = pr_property_id r, rj_status = pr_status r,
                rj_data_len = pr_data_len r, rj_outcome = pr_outcome r\<rparr>])
        | Use effective_body \<Rightarrow>
            bind_res (decode_field (fe_decode fe) (fe_data_type fe) effective_body encs (fe_capability fe)
                        cap_records (fe_sentinel_values fe) (fe_value_range fe)) (\<lambda>d.
              Inr (if keep_result d then dset (fe_name fe) d result else result, rejections))))"

definition composite_prop_id :: "proto_loc \<Rightarrow> string option" where
  "composite_prop_id ploc =
     (case pl_property_id ploc of
        Some (c # cs) \<Rightarrow> Some (c # cs)
      | _ \<Rightarrow>
          (case find (\<lambda>s. ds_property_id s \<noteq> None \<and> ds_property_id s \<noteq> Some []) (pl_decode ploc) of
             Some s \<Rightarrow> ds_property_id s
           | None \<Rightarrow> pl_property_id ploc))"

definition synthesize_entry ::
  "bytes \<Rightarrow> (string, prop_record) dict option \<Rightarrow> encodings \<Rightarrow> string \<Rightarrow>
   string \<times> field_def \<Rightarrow> (string, decoded) dict \<Rightarrow> (string, decoded) dict res" where
  "synthesize_entry body by_prop encs protocol_key nd result =
     (case nd of (fname, fdef) \<Rightarrow>
        if has_key result fname then Inr result
        else case dget (fd_protocols fdef) protocol_key of
               None \<Rightarrow> Inr result
             | Some ploc \<Rightarrow>
                 (if \<not> (fd_has_composite fdef \<and> fd_has_derived fdef) then Inr result
                  else case source_of body by_prop (composite_prop_id ploc) of
                         Use effective_body \<Rightarrow>
                           bind_res (synthesize_composite fdef effective_body encs) (\<lambda>synth.
                             case synth of
                               None \<Rightarrow> Inr result
                             | Some v \<Rightarrow> Inr (dset fname (Value v) result))
                       | _ \<Rightarrow> Inr result))"

definition decode_frame_fields ::
  "bytes \<Rightarrow> string \<Rightarrow> glossary \<Rightarrow> cap_record list option \<Rightarrow> field_entry list option \<Rightarrow> frame_result res" where
  "decode_frame_fields body protocol_key g cap_records field_map =
     (let fmap = (case field_map of None \<Rightarrow> build_field_map g protocol_key | Some m \<Rightarrow> m)
      in bind_res (if is_property_frame protocol_key
                   then bind_res (parse_b0b1_tlv body) (\<lambda>records. Inr (Some (index_records records)))
                   else Inr None) (\<lambda>by_prop.
         bind_res (fold_res (decode_entry body by_prop (gl_encodings g) cap_records) fmap ([], [])) (\<lambda>acc.
         bind_res (fold_res (synthesize_entry body by_prop (gl_encodings g) protocol_key) (walk_fields g) (fst acc))
           (\<lambda>result. Inr (result, snd acc)))))"

subsection \<open>Lemmas\<close>

lemma index_records_member: "dget (index_records rs) k = Some r \<Longrightarrow> r \<in> set rs \<and> lower (pr_property_id r) = k"
proof -
  have "dget (fold (\<lambda>r. dset (lower (pr_property_id r)) r) rs d) k = Some r \<Longrightarrow>
      (r \<in> set rs \<and> lower (pr_property_id r) = k) \<or> dget d k = Some r" for d
    by (induction rs arbitrary: d) (fastforce split: if_splits)+
  then show "dget (index_records rs) k = Some r \<Longrightarrow> ?thesis"
    unfolding index_records_def by fastforce
qed

text \<open>Where the bytes of a decoded field come from: the body, or a readable record of it.\<close>

definition readable_source :: "bytes \<Rightarrow> bytes \<Rightarrow> bool" where
  "readable_source body eb \<longleftrightarrow>
     eb = body \<or> (\<exists>rs r. parse_b0b1_tlv body = Inr rs \<and> r \<in> set rs \<and> pr_is_readable r \<and> eb = pr_data r)"

definition indexes :: "bytes \<Rightarrow> (string, prop_record) dict option \<Rightarrow> bool" where
  "indexes body by_prop \<longleftrightarrow>
     (case by_prop of None \<Rightarrow> True
      | Some d \<Rightarrow> \<exists>rs. parse_b0b1_tlv body = Inr rs \<and> d = index_records rs)"

lemma source_of_cases:
  assumes "indexes body by_prop"
  shows "source_of body by_prop pid = Use eb \<Longrightarrow> readable_source body eb"
    and "source_of body by_prop pid = Rejected r \<Longrightarrow>
      \<exists>rs. parse_b0b1_tlv body = Inr rs \<and> r \<in> set rs \<and> \<not> pr_is_readable r"
  using assms
  by (auto simp: source_of_def indexes_def readable_source_def split: option.split_asm list.split_asm if_splits
      dest!: index_records_member)

definition decoded_from ::
  "bytes \<Rightarrow> encodings \<Rightarrow> cap_record list option \<Rightarrow> field_entry list \<Rightarrow> (string, field_def) dict \<Rightarrow> string \<Rightarrow>
   string \<Rightarrow> decoded \<Rightarrow> bool" where
  "decoded_from body encs recs fmap flds key name d \<longleftrightarrow>
     (\<exists>eb. readable_source body eb \<and>
        ((\<exists>fe \<in> set fmap. fe_name fe = name \<and> keep_result d \<and>
            decode_field (fe_decode fe) (fe_data_type fe) eb encs (fe_capability fe) recs
              (fe_sentinel_values fe) (fe_value_range fe) = Inr d) \<or>
         (\<exists>fdef v. (name, fdef) \<in> set flds \<and> fd_has_composite fdef \<and> has_key (fd_protocols fdef) key \<and>
            synthesize_composite fdef eb encs = Inr (Some v) \<and> d = Value v)))"

definition rejected_from :: "bytes \<Rightarrow> field_entry list \<Rightarrow> rejection \<Rightarrow> bool" where
  "rejected_from body fmap rj \<longleftrightarrow>
     (\<exists>rs r fe. parse_b0b1_tlv body = Inr rs \<and> r \<in> set rs \<and> \<not> pr_is_readable r \<and> fe \<in> set fmap \<and>
        rj = \<lparr>rj_field = fe_name fe, rj_property_id = pr_property_id r, rj_status = pr_status r,
               rj_data_len = pr_data_len r, rj_outcome = pr_outcome r\<rparr>)"

lemma decode_entries_sound:
  assumes "fold_res (decode_entry body by_prop encs recs) fmap ([], []) = Inr (result, rej)"
    and "indexes body by_prop"
  shows "\<forall>name d. dget result name = Some d \<longrightarrow> decoded_from body encs recs fmap flds key name d"
    and "\<forall>rj \<in> set rej. rejected_from body fmap rj"
proof -
  let ?P = "\<lambda>(result, rej). (\<forall>name d. dget result name = Some d \<longrightarrow> decoded_from body encs recs fmap flds key name d) \<and>
    (\<forall>rj \<in> set rej. rejected_from body fmap rj)"
  have "?P (result, rej)"
  proof (rule fold_res_invariant [OF assms(1), where P = ?P])
    show "?P ([], [])" by simp
    fix fe u v
    assume fe: "fe \<in> set fmap" and u: "?P u" and step: "decode_entry body by_prop encs recs fe u = Inr v"
    obtain res rj where uu: "u = (res, rj)" by (cases u)
    let ?pid = "case fe_decode fe of [] \<Rightarrow> None | s # _ \<Rightarrow> ds_property_id s"
    show "?P v"
    proof (cases "source_of body by_prop ?pid")
      case Skip
      then show ?thesis using step u by (simp add: decode_entry_def uu)
    next
      case (Rejected r)
      from source_of_cases(2) [OF assms(2) Rejected] fe have "rejected_from body fmap
          \<lparr>rj_field = fe_name fe, rj_property_id = pr_property_id r, rj_status = pr_status r,
           rj_data_len = pr_data_len r, rj_outcome = pr_outcome r\<rparr>"
        unfolding rejected_from_def by blast
      then show ?thesis
        using step u Rejected by (auto simp: decode_entry_def uu)
    next
      case (Use eb)
      then obtain d where d: "decode_field (fe_decode fe) (fe_data_type fe) eb encs (fe_capability fe) recs
            (fe_sentinel_values fe) (fe_value_range fe) = Inr d"
          and v: "v = (if keep_result d then dset (fe_name fe) d res else res, rj)"
        using step by (auto simp: decode_entry_def uu)
      have "keep_result d \<Longrightarrow> decoded_from body encs recs fmap flds key (fe_name fe) d"
        using d fe source_of_cases(1) [OF assms(2) Use] unfolding decoded_from_def by blast
      then show ?thesis using u by (auto simp: v uu)
    qed
  qed
  then show "\<forall>name d. dget result name = Some d \<longrightarrow> decoded_from body encs recs fmap flds key name d"
    and "\<forall>rj \<in> set rej. rejected_from body fmap rj"
    by simp_all
qed

lemma synthesize_entries_sound:
  assumes "fold_res (synthesize_entry body by_prop encs key) flds result = Inr result'"
    and "indexes body by_prop"
    and "\<forall>name d. dget result name = Some d \<longrightarrow> decoded_from body encs recs fmap flds key name d"
  shows "\<forall>name d. dget result' name = Some d \<longrightarrow> decoded_from body encs recs fmap flds key name d"
proof (rule fold_res_invariant [OF assms(1), where
      P = "\<lambda>res. \<forall>name d. dget res name = Some d \<longrightarrow> decoded_from body encs recs fmap flds key name d"])
  show "\<forall>name d. dget result name = Some d \<longrightarrow> decoded_from body encs recs fmap flds key name d"
    by (rule assms(3))
  fix nd u v
  assume nd: "nd \<in> set flds" and u: "\<forall>name d. dget u name = Some d \<longrightarrow> decoded_from body encs recs fmap flds key name d"
    and step: "synthesize_entry body by_prop encs key nd u = Inr v"
  obtain name fdef where p: "nd = (name, fdef)" by (cases nd)
  show "\<forall>name d. dget v name = Some d \<longrightarrow> decoded_from body encs recs fmap flds key name d"
  proof (cases "v = u")
    case True
    then show ?thesis using u by simp
  next
    case False
    then obtain ploc eb w where *: "dget (fd_protocols fdef) key = Some ploc" "fd_has_composite fdef"
        "source_of body by_prop (composite_prop_id ploc) = Use eb"
        "synthesize_composite fdef eb encs = Inr (Some w)" "v = dset name (Value w) u"
      using step by (auto simp: synthesize_entry_def p split: if_splits option.split_asm source.split_asm)
    have "decoded_from body encs recs fmap flds key name (Value w)"
      using * nd p source_of_cases(1) [OF assms(2) *(3)] unfolding decoded_from_def has_key_def by blast
    then show ?thesis using u *(5) by simp
  qed
qed

lemma decode_frame_fields_sound:
  assumes "decode_frame_fields body key g recs fm = Inr (result, rej)"
    and "fmap = (case fm of None \<Rightarrow> build_field_map g key | Some m \<Rightarrow> m)"
  shows "\<forall>name d. dget result name = Some d \<longrightarrow>
      decoded_from body (gl_encodings g) recs fmap (walk_fields g) key name d"
    and "\<forall>rj \<in> set rej. rejected_from body fmap rj"
proof -
  let ?bp = "if is_property_frame key then bind_res (parse_b0b1_tlv body) (\<lambda>records. Inr (Some (index_records records)))
             else Inr None"
  from assms(1) obtain by_prop acc where b: "?bp = Inr by_prop"
      "fold_res (decode_entry body by_prop (gl_encodings g) recs) fmap ([], []) = Inr acc"
      "fold_res (synthesize_entry body by_prop (gl_encodings g) key) (walk_fields g) (fst acc) = Inr result"
      "rej = snd acc"
    unfolding decode_frame_fields_def Let_def assms(2) by (auto simp only: bind_res_eq_Inr sum.inject prod.inject)
  have ix: "indexes body by_prop" using b(1) by (auto simp: indexes_def split: if_splits)
  have a: "fold_res (decode_entry body by_prop (gl_encodings g) recs) fmap ([], []) = Inr (fst acc, rej)"
    using b(2,4) by simp
  show "\<forall>name d. dget result name = Some d \<longrightarrow>
      decoded_from body (gl_encodings g) recs fmap (walk_fields g) key name d"
    by (rule synthesize_entries_sound [OF b(3) ix decode_entries_sound(1) [OF a ix]])
  show "\<forall>rj \<in> set rej. rejected_from body fmap rj"
    by (rule decode_entries_sound(2) [OF a ix])
qed

lemma walk_fields_visited: "(name, d) \<in> set (walk_fields g) \<Longrightarrow> (name, d) \<in> set (visited_fields g)"
  using distinct_walk_fields [of g] walk_fields_lookup [of g name] map_of_SomeD [of "rev (visited_fields g)" name d]
  by (simp add: dkeys_def)


text \<open>Nothing decodable is dropped: the entries of the field map only add names.\<close>

lemma decode_entry_keeps:
  "decode_entry body by_prop encs recs fe u = Inr v \<Longrightarrow> has_key (fst u) n \<Longrightarrow> has_key (fst v) n"
  by (cases u) (auto simp: decode_entry_def split: source.split_asm if_splits)

lemma decode_entry_adds:
  assumes "decode_entry body by_prop encs recs fe u = Inr v"
    and "source_of body by_prop (case fe_decode fe of [] \<Rightarrow> None | s # _ \<Rightarrow> ds_property_id s) = Use eb"
    and "decode_field (fe_decode fe) (fe_data_type fe) eb encs (fe_capability fe) recs
          (fe_sentinel_values fe) (fe_value_range fe) = Inr d" and "keep_result d"
  shows "has_key (fst v) (fe_name fe)"
  using assms by (cases u) (auto simp: decode_entry_def)

lemma decode_entries_complete:
  assumes "fold_res (decode_entry body by_prop encs recs) fmap u = Inr v" and "fe \<in> set fmap"
    and "source_of body by_prop (case fe_decode fe of [] \<Rightarrow> None | s # _ \<Rightarrow> ds_property_id s) = Use eb"
    and "decode_field (fe_decode fe) (fe_data_type fe) eb encs (fe_capability fe) recs
          (fe_sentinel_values fe) (fe_value_range fe) = Inr d" and "keep_result d"
  shows "has_key (fst v) (fe_name fe)"
proof -
  obtain xs ys where fm: "fmap = xs @ fe # ys" using assms(2) by (auto dest: split_list)
  obtain a b where "fold_res (decode_entry body by_prop encs recs) xs u = Inr a"
      "decode_entry body by_prop encs recs fe a = Inr b"
      "fold_res (decode_entry body by_prop encs recs) ys b = Inr v"
    using assms(1) unfolding fm fold_res_append by auto
  then show ?thesis
    using decode_entry_adds [OF _ assms(3-5)] fold_res_invariant [where P = "\<lambda>u. has_key (fst u) (fe_name fe)"]
      decode_entry_keeps by meson
qed

lemma synthesize_entries_keep:
  assumes "fold_res (synthesize_entry body by_prop encs key) flds u = Inr v" and "has_key u n"
  shows "has_key v n"
proof (rule fold_res_invariant [OF assms(1), where P = "\<lambda>u. has_key u n"])
  fix x u v assume "has_key u n" and "synthesize_entry body by_prop encs key x u = Inr v"
  then show "has_key v n"
    by (cases x) (auto simp: synthesize_entry_def split: if_splits option.split_asm source.split_asm)
qed (rule assms(2))

text \<open>The protocol keys of the frames a device sends, and the numbering of the C1 group pages.\<close>

definition FRAME_KEYS :: "string list" where
  "FRAME_KEYS = [''rsp_0xb5'', ''rsp_0xc0'', ''rsp_0xa1'', ''rsp_0xb1'', ''rsp_0xb0''] @
     map (\<lambda>group. ''rsp_0xc1_group'' @ dec group) [0..<16]"

lemma distinct_FRAME_KEYS: "distinct FRAME_KEYS"
  by code_simp

lemma page_lt: "unat (c AND 0x0F :: byte) < 16"
proof -
  have "unat (c AND 0x0F) = unat c mod 16"
    using take_bit_eq_mask [of 4 "unat c"]
    by (simp add: unsigned_and_eq take_bit_eq_mod mask_eq_exp_minus_1)
  then show ?thesis by simp
qed

lemma page_key_inj:
  assumes "m < 16" and "n < 16"
  shows "''rsp_0xc1_group'' @ dec m = ''rsp_0xc1_group'' @ dec n \<longleftrightarrow> m = n"
proof -
  have "distinct (map (\<lambda>group. ''rsp_0xc1_group'' @ dec group) [0..<16])"
    using distinct_FRAME_KEYS by (simp add: FRAME_KEYS_def del: upt_rec_numeral)
  then have "inj_on (\<lambda>group. ''rsp_0xc1_group'' @ dec group) {0..<16}"
    by (simp only: distinct_map set_upt)
  from inj_on_eq_iff [OF this, of m n] assms show ?thesis by simp
qed

subsection \<open>An example glossary\<close>

text \<open>
  Four entries in the shape of \<open>glossary.yaml\<close>, on which the properties of this and later theories
  are applied: \<open>power\<close>, \<open>target_temperature\<close>, \<open>fan_speed\<close> behind capability \<open>0x10\<close>, and a B1
  property.
\<close>

definition field_of_type :: "string \<Rightarrow> string option \<Rightarrow> (string, proto_loc) dict \<Rightarrow> field_def" where
  "field_of_type dt fa protocols =
     \<lparr>fd_data_type = Some dt, fd_feature_available = fa, fd_default_priority = None, fd_default_value = None,
      fd_sentinel_values = [], fd_range = None, fd_values = [], fd_valid_modes = [], fd_protocols = protocols,
      fd_capability = None, fd_ux = None, fd_gate = None, fd_forces = [], fd_members = [],
      fd_has_composite = False, fd_formula = None, fd_has_derived = False, fd_global_constraints = [],
      fd_excluded_reasons = [], fd_unit = None\<rparr>"

definition loc :: "string \<Rightarrow> decode_step list \<Rightarrow> proto_loc" where
  "loc direction steps = \<lparr>pl_direction = Some direction, pl_decode = steps, pl_property_id = None\<rparr>"

definition CAP_FAN :: capability where
  "CAP_FAN =
     \<lparr>cap_id = Some ''0x10'', cap_type = Some ''extended'',
      cap_values =
        [(''disabled_0'', \<lparr>cv_raw = Some 0, cv_encoding = None, cv_feature_available = Some ''excluded'',
           cv_ui_gate = None, cv_envelope = no_envelope\<lparr>ev_valid_set := Some []\<rparr>\<rparr>),
         (''stepless'', \<lparr>cv_raw = Some 1, cv_encoding = None, cv_feature_available = Some ''always'',
           cv_ui_gate = None, cv_envelope = no_envelope\<lparr>ev_valid_range := Some [PInt 1, PInt 102]\<rparr>\<rparr>)],
      cap_decode = [], cap_frames = [''rsp_0xb5_tlv''], cap_default = None\<rparr>"

definition EXAMPLE_FIELDS :: "(string \<times> node) list" where
  "EXAMPLE_FIELDS =
     [(''power'', Field (field_of_type ''bool'' (Some ''always'')
        [(''rsp_0xc0'', loc ''response'' [plain_step 1 (0, 0)]), (''cmd_0x40'', loc ''command'' [plain_step 1 (0, 0)])])),
      (''target_temperature'', Field (field_of_type ''float'' (Some ''always'')
        [(''rsp_0xc0'', loc ''response'' TARGET_TEMPERATURE_RSP),
         (''cmd_0x40'', loc ''command'' TARGET_TEMPERATURE_CMD)])),
      (''fan_speed'', Field ((field_of_type ''uint8'' (Some ''capability'')
        [(''rsp_0xc0'', loc ''response'' [plain_step 3 (6, 0)]), (''cmd_0x40'', loc ''command'' [plain_step 3 (6, 0)])])
          \<lparr>fd_capability := Some CAP_FAN\<rparr>)),
      (''humidity'', Field (field_of_type ''uint8'' (Some ''always'')
        [(''rsp_0xb1'', loc ''response'' [(plain_step 0 (7, 0))\<lparr>ds_property_id := Some ''0x15,0x00''\<rparr>])]))]"

definition EXAMPLE :: glossary where
  "EXAMPLE =
     \<lparr>gl_fields = [(''control'', Some EXAMPLE_FIELDS)], gl_encodings = [], gl_frames = [],
      gl_protocol_generations = [(''rsp_0xc0'', ''legacy''), (''rsp_0xb1'', ''new'')], gl_version = ''1''\<rparr>"

lemmas example_defs = EXAMPLE_def EXAMPLE_FIELDS_def field_of_type_def loc_def CAP_FAN_def plain_step_def
  TARGET_TEMPERATURE_CMD_def TARGET_TEMPERATURE_RSP_def setpoint_step_def

subsection \<open>Properties\<close>

text \<open>Every value \<open>decode_frame_fields\<close> reports is accounted for: the field is in the field map of the
  protocol key, or is a composite of the glossary that lists it; the value is what \<open>decode_field\<close>, or
  the composite formula, gives on bytes that are either the frame body or the data of a readable record
  of it; and each rejection names a record of the frame that is not readable.\<close>

theorem decoded_fields_sound:
  assumes "decode_frame_fields body key g recs None = Inr (result, rej)"
  shows "(\<forall>name d. dget result name = Some d \<longrightarrow>
      decoded_from body (gl_encodings g) recs (build_field_map g key) (walk_fields g) key name d) \<and>
    list_all (rejected_from body (build_field_map g key)) rej"
  using decode_frame_fields_sound [OF assms refl] by (auto simp: list_all_iff)

theorem decoded_fields_sound_witness:
  "decoded_from [0xB1, 1, 0x15, 0, 0, 1, 55] [] None (build_field_map EXAMPLE ''rsp_0xb1'') (walk_fields EXAMPLE)
     ''rsp_0xb1'' ''humidity'' (Value (PInt 55))"
proof -
  have "decode_frame_fields [0xB1, 1, 0x15, 0, 0, 1, 55] ''rsp_0xb1'' EXAMPLE None None =
      Inr ([(''humidity'', Value (PInt 55))], [])"
    by code_simp
  from decoded_fields_sound [OF this] show ?thesis by (simp add: EXAMPLE_def)
qed

text \<open>Nothing that can be decoded is dropped: each entry of the field map whose bytes are available (the
  body, or the data of a readable record) and decode to a value or a suppression has its name in the
  result, and a result is returned whenever decoding raises nothing.\<close>

theorem decoded_fields_complete:
  assumes "decode_frame_fields body key g recs None = Inr (result, rej)" and "\<not> is_property_frame key"
    and "fe \<in> set (build_field_map g key)"
    and "decode_field (fe_decode fe) (fe_data_type fe) body (gl_encodings g) (fe_capability fe) recs
          (fe_sentinel_values fe) (fe_value_range fe) = Inr d" and "keep_result d"
  shows "has_key result (fe_name fe)"
proof -
  from assms(1,2) obtain acc where "fold_res (decode_entry body None (gl_encodings g) recs) (build_field_map g key) ([], []) = Inr acc"
      "fold_res (synthesize_entry body None (gl_encodings g) key) (walk_fields g) (fst acc) = Inr result"
    unfolding decode_frame_fields_def Let_def by auto
  moreover have "source_of body None pid = Use body" for pid by (simp add: source_of_def)
  ultimately show ?thesis
    using decode_entries_complete [OF _ assms(3) _ assms(4,5)] synthesize_entries_keep by blast
qed

theorem decoded_fields_complete_witness:
  "\<exists>result rej. decode_frame_fields [0xC0, 1, 0x48, 40] ''rsp_0xc0'' EXAMPLE None None = Inr (result, rej) \<and>
     has_key result ''power''"
proof -
  obtain fe where fe: "fe \<in> set (build_field_map EXAMPLE ''rsp_0xc0'')" "fe_name fe = ''power''"
      "decode_field (fe_decode fe) (fe_data_type fe) [0xC0, 1, 0x48, 40] [] (fe_capability fe) None
          (fe_sentinel_values fe) (fe_value_range fe) = Inr (Value (PBool True))"
  proof
    let ?fe = "hd (build_field_map EXAMPLE ''rsp_0xc0'')"
    show "?fe \<in> set (build_field_map EXAMPLE ''rsp_0xc0'')" by code_simp
    show "fe_name ?fe = ''power''" by code_simp
    show "decode_field (fe_decode ?fe) (fe_data_type ?fe) [0xC0, 1, 0x48, 40] [] (fe_capability ?fe) None
          (fe_sentinel_values ?fe) (fe_value_range ?fe) = Inr (Value (PBool True))" by code_simp
  qed
  have "decode_frame_fields [0xC0, 1, 0x48, 40] ''rsp_0xc0'' EXAMPLE None None =
      Inr ([(''power'', Value (PBool True)), (''target_temperature'', Value (PInt 24)), (''fan_speed'', Value (PInt 40))], [])"
    by code_simp
  then show ?thesis
    using decoded_fields_complete [OF _ _ fe(1), of "[0xC0, 1, 0x48, 40]" None _ _ "Value (PBool True)"] fe(2,3)
    by (simp add: is_property_frame_def EXAMPLE_def keep_result_def)
qed

text \<open>\<open>identify_frame\<close> maps a body to one of 21 protocol keys or raises \<open>IndexError\<close> or \<open>ValueError\<close>;
  distinct group pages of C1 get distinct keys, and the key of the C1 sub-page response, under which
  the glossary lists fields, is never produced.\<close>

theorem identify_frame_keys:
  "identify_frame body \<in> {Inl IndexError, Inl ValueError} \<union> Inr ` set FRAME_KEYS \<and>
   length FRAME_KEYS = 21 \<and> distinct FRAME_KEYS \<and> ''rsp_0xc1_sub02'' \<notin> set FRAME_KEYS \<and>
   (identify_frame (0xC1 # a # b # c # xs) = identify_frame (0xC1 # a' # b' # c' # ys) \<longleftrightarrow>
      c AND 0x0F = c' AND 0x0F)"
proof (intro conjI)
  show "identify_frame body \<in> {Inl IndexError, Inl ValueError} \<union> Inr ` set FRAME_KEYS"
    unfolding identify_frame_def
    using page_lt by (cases body) (auto simp: FRAME_KEYS_def Let_def)
  show "length FRAME_KEYS = 21" by (simp add: FRAME_KEYS_def)
  show "distinct FRAME_KEYS" by (rule distinct_FRAME_KEYS)
  show "''rsp_0xc1_sub02'' \<notin> set FRAME_KEYS" by code_simp
  have "unat (c AND 0x0F) = unat (c' AND 0x0F) \<longleftrightarrow> c AND 0x0F = c' AND 0x0F"
    by (simp add: word_unat_eq_iff)
  then show "identify_frame (0xC1 # a # b # c # xs) = identify_frame (0xC1 # a' # b' # c' # ys) \<longleftrightarrow>
      c AND 0x0F = c' AND 0x0F"
    using page_key_inj [OF page_lt page_lt, of c c'] by (simp add: identify_frame_def Let_def)
qed

end
