(* ===== verification/Query.thy ===== *)
theory Query
  imports Status Decode
begin

section \<open>Reading and writing fields by source (\<open>blaueis/core/query.py\<close>)\<close>

text \<open>
  A field holds one slot per frame key.  \<open>read_field\<close> walks a priority list of scopes and takes, in
  the first scope with a timestamped slot, the newest one; \<open>write_field\<close> adds a synthetic slot.  The
  newest slot is the first maximum by timestamp.  Lemmas: the winner is in scope and no slot of the
  scope is newer; a read after a fresh write returns what was written; other fields are unaffected.
\<close>

subsection \<open>Scopes and the newest slot\<close>

definition slots_in_scope :: "sources \<Rightarrow> string \<Rightarrow> sources" where
  "slots_in_scope srcs scope =
     (if scope = ''protocol_all'' then srcs
      else if scope = ''protocol_new'' then filter (\<lambda>(k, s). sl_generation s = Some ''new'') srcs
      else if scope = ''protocol_legacy'' then filter (\<lambda>(k, s). sl_generation s = Some ''legacy'') srcs
      else if scope = ''protocol_unknown'' then filter (\<lambda>(k, s). sl_generation s = None) srcs
      else case dget srcs scope of Some s \<Rightarrow> [(scope, s)] | None \<Rightarrow> [])"

definition stamped :: "slot \<Rightarrow> bool" where  \<comment> \<open>\<open>if s.get("ts")\<close>\<close>
  "stamped s \<longleftrightarrow> sl_ts s \<noteq> None \<and> sl_ts s \<noteq> Some []"

abbreviation ts_of :: "slot \<Rightarrow> string" where
  "ts_of s \<equiv> the (sl_ts s)"

text \<open>\<open>max\<close> with a key keeps the first of equal maxima.\<close>

fun first_max :: "string \<times> slot \<Rightarrow> sources \<Rightarrow> string \<times> slot" where
  "first_max best [] = best"
| "first_max best (kv # kvs) = first_max (if ts_of (snd best) < ts_of (snd kv) then kv else best) kvs"

definition newest :: "sources \<Rightarrow> (string \<times> slot) option" where
  "newest slots =
     (case filter (\<lambda>(k, s). stamped s) slots of
        [] \<Rightarrow> None
      | kv # kvs \<Rightarrow> Some (first_max kv kvs))"

subsection \<open>\<open>read_field\<close>\<close>

record disagreement =
  dg_slot :: string
  dg_value :: pyval
  dg_ts :: "string option"
  dg_generation :: "string option"

definition list_disagreements :: "sources \<Rightarrow> string \<Rightarrow> pyval \<Rightarrow> disagreement list" where
  "list_disagreements srcs winner_key winner_value =
     map (\<lambda>(k, s). \<lparr>dg_slot = k, dg_value = sl_value s, dg_ts = sl_ts s, dg_generation = sl_generation s\<rparr>)
       (filter (\<lambda>(k, s). k \<noteq> winner_key \<and> sl_ts s \<noteq> None \<and> \<not> py_eq (sl_value s) winner_value) srcs)"

record read_result =
  rr_value :: pyval
  rr_ts :: string
  rr_source :: string
  rr_generation :: "string option"
  rr_scope_matched :: string
  rr_disagreements :: "disagreement list"
  rr_suppression :: "suppression_info option"

fun cascade :: "sources \<Rightarrow> string list \<Rightarrow> read_result option" where
  "cascade srcs [] = None"
| "cascade srcs (scope # priority) =
     (case newest (slots_in_scope srcs scope) of
        None \<Rightarrow> cascade srcs priority
      | Some (slot_key, s) \<Rightarrow>
          Some \<lparr>rr_value = sl_value s, rr_ts = ts_of s, rr_source = slot_key, rr_generation = sl_generation s,
                rr_scope_matched = scope, rr_disagreements = list_disagreements srcs slot_key (sl_value s),
                rr_suppression = sl_suppression s\<rparr>)"

definition effective_priority :: "status_field \<Rightarrow> string list option \<Rightarrow> string list" where
  "effective_priority sf priority =
     (case priority of
        Some p \<Rightarrow> p
      | None \<Rightarrow> (case sf_default_priority sf of Some (s # ss) \<Rightarrow> s # ss | _ \<Rightarrow> [''protocol_all'']))"

definition read_field :: "status \<Rightarrow> string \<Rightarrow> string list option \<Rightarrow> read_result option" where
  "read_field st name priority =
     (case dget (st_fields st) name of
        None \<Rightarrow> None
      | Some sf \<Rightarrow>
          (if sf_sources sf = [] then None else cascade (sf_sources sf) (effective_priority sf priority)))"

text \<open>\<open>r["value"] if r else None\<close>, the read of \<open>StatusDB\<close>.\<close>

definition read_value :: "status \<Rightarrow> string \<Rightarrow> pyval" where
  "read_value st name = (case read_field st name None of None \<Rightarrow> PNone | Some r \<Rightarrow> rr_value r)"

subsection \<open>\<open>write_field\<close>\<close>

definition written_slot :: "pyval \<Rightarrow> string \<Rightarrow> string \<Rightarrow> slot" where
  "written_slot v generation ts = empty_slot\<lparr>sl_value := v, sl_ts := Some ts, sl_generation := Some generation\<rparr>"

definition write_field :: "status \<Rightarrow> string \<Rightarrow> pyval \<Rightarrow> string \<Rightarrow> string \<Rightarrow> string \<Rightarrow> status" where
  "write_field st name v source generation ts =
     (let sf = (case dget (st_fields st) name of None \<Rightarrow> bare_field | Some sf \<Rightarrow> sf)
      in st\<lparr>st_fields := dset name
              (sf\<lparr>sf_sources := dset source (written_slot v generation ts) (sf_sources sf)\<rparr>) (st_fields st)\<rparr>)"

subsection \<open>Lemmas\<close>

lemma first_max_in: "first_max best kvs \<in> insert best (set kvs)"
  by (induction best kvs rule: first_max.induct) auto

lemma first_max_ge: "kv \<in> insert best (set kvs) \<Longrightarrow> ts_of (snd kv) \<le> ts_of (snd (first_max best kvs))"
proof (induction best kvs arbitrary: kv rule: first_max.induct)
  case (1 best)
  then show ?case by simp
next
  case (2 best x kvs)
  let ?b = "if ts_of (snd best) < ts_of (snd x) then x else best"
  have "ts_of (snd ?b) \<le> ts_of (snd (first_max ?b kvs))" by (rule 2(1)) simp
  moreover have "kv \<in> set kvs \<Longrightarrow> ts_of (snd kv) \<le> ts_of (snd (first_max ?b kvs))" by (rule 2(1)) simp
  ultimately show ?case using 2(2) by (auto split: if_splits)
qed

lemma newest_Some:
  assumes "newest slots = Some (k, s)"
  shows "(k, s) \<in> set slots" and "stamped s"
    and "(k', s') \<in> set slots \<Longrightarrow> stamped s' \<Longrightarrow> ts_of s' \<le> ts_of s"
proof -
  from assms obtain kv kvs where f: "filter (\<lambda>(k, s). stamped s) slots = kv # kvs" "first_max kv kvs = (k, s)"
    by (auto simp: newest_def split: list.split_asm)
  have set: "set (kv # kvs) = {(k, s) \<in> set slots. stamped s}" unfolding f(1) [symmetric] by auto
  have "(k, s) \<in> set (kv # kvs)" using first_max_in [of kv kvs] f(2) by simp
  then show "(k, s) \<in> set slots" and "stamped s" unfolding set by auto
  show "ts_of s' \<le> ts_of s" if "(k', s') \<in> set slots" "stamped s'"
  proof -
    have "(k', s') \<in> set (kv # kvs)" using that unfolding set by simp
    then show ?thesis using first_max_ge [of "(k', s')" kv kvs] f(2) by simp
  qed
qed

lemma newest_None: "newest slots = None \<longleftrightarrow> (\<forall>(k, s) \<in> set slots. \<not> stamped s)"
  by (cases "filter (\<lambda>(k, s). stamped s) slots")
    (auto simp: newest_def filter_empty_conv filter_eq_Cons_iff)

lemma slots_in_scope_subset: "set (slots_in_scope srcs scope) \<subseteq> set srcs"
  by (cases "dget srcs scope") (auto simp: slots_in_scope_def dest: map_of_SomeD)

lemma cascade_Some:
  assumes "cascade srcs priority = Some r"
  shows "\<exists>s pre post. priority = pre @ rr_scope_matched r # post \<and>
    (\<forall>scope \<in> set pre. newest (slots_in_scope srcs scope) = None) \<and>
    newest (slots_in_scope srcs (rr_scope_matched r)) = Some (rr_source r, s) \<and>
    rr_value r = sl_value s \<and> rr_ts r = ts_of s \<and> rr_suppression r = sl_suppression s \<and>
    rr_disagreements r = list_disagreements srcs (rr_source r) (rr_value r)"
  using assms
proof (induction priority)
  case Nil
  then show ?case by simp
next
  case (Cons scope ps)
  show ?case
  proof (cases "newest (slots_in_scope srcs scope)")
    case None
    with Cons obtain s pre post where "ps = pre @ rr_scope_matched r # post"
      "\<forall>scope \<in> set pre. newest (slots_in_scope srcs scope) = None"
      "newest (slots_in_scope srcs (rr_scope_matched r)) = Some (rr_source r, s) \<and>
       rr_value r = sl_value s \<and> rr_ts r = ts_of s \<and> rr_suppression r = sl_suppression s \<and>
       rr_disagreements r = list_disagreements srcs (rr_source r) (rr_value r)" by auto
    then show ?thesis using None by (intro exI [of _ s] exI [of _ "scope # pre"] exI [of _ post]) simp
  next
    case (Some ks)
    obtain k s where ks: "ks = (k, s)" by (cases ks)
    have "scope # ps = [] @ rr_scope_matched r # ps \<and> newest (slots_in_scope srcs (rr_scope_matched r)) = Some (rr_source r, s) \<and>
      rr_value r = sl_value s \<and> rr_ts r = ts_of s \<and> rr_suppression r = sl_suppression s \<and>
      rr_disagreements r = list_disagreements srcs (rr_source r) (rr_value r)"
      using Cons.prems Some ks by auto
    then show ?thesis by (intro exI [of _ s] exI [of _ "[]"] exI [of _ ps]) simp
  qed
qed

lemma read_field_SomeD:
  assumes "read_field st name priority = Some r"
  obtains sf where "dget (st_fields st) name = Some sf" and "cascade (sf_sources sf) (effective_priority sf priority) = Some r"
  using assms by (auto simp: read_field_def split: option.split_asm if_splits)

text \<open>A slot stamped later than every other slot of the field wins the scope of all slots.\<close>

lemma newest_dset_fresh:
  assumes "stamped s" and "\<forall>(k, s') \<in> set srcs. stamped s' \<longrightarrow> ts_of s' < ts_of s" and "distinct (dkeys srcs)"
  shows "newest (dset k s srcs) = Some (k, s)"
proof -
  note mem = in_dset [OF assms(3), of _ _ k s]
  have in_k: "(k, s) \<in> set (dset k s srcs)" by (simp add: mem)
  then obtain k' s' where n: "newest (dset k s srcs) = Some (k', s')"
    using assms(1) newest_None [of "dset k s srcs"] by (cases "newest (dset k s srcs)") auto
  have "k' = k"
  proof (rule ccontr)
    assume "k' \<noteq> k"
    then have "(k', s') \<in> set srcs" and "stamped s'" using newest_Some(1,2) [OF n] by (simp_all add: mem)
    then have "ts_of s' < ts_of s" using assms(2) by auto
    moreover have "ts_of s \<le> ts_of s'" using newest_Some(3) [OF n in_k assms(1)] .
    ultimately show False by simp
  qed
  then show ?thesis using n newest_Some(1) [OF n] by (simp add: mem)
qed


subsection \<open>The store as its clients use it\<close>

text \<open>
  What the command path relies on: a value written with a timestamp newer than everything the field
  holds is the value read next, for a field whose priority starts with a scope that contains the
  written slot; and writing one field leaves the reads of the others.
\<close>

locale value_store =
  fixes rd :: "'s \<Rightarrow> string \<Rightarrow> pyval"
    and wr :: "'s \<Rightarrow> string \<Rightarrow> pyval \<Rightarrow> 't :: linorder \<Rightarrow> 's"
    and fresh :: "'s \<Rightarrow> string \<Rightarrow> 't \<Rightarrow> bool"
  assumes read_written: "fresh st n t \<Longrightarrow> rd (wr st n v t) n = v"
    and read_other: "n \<noteq> m \<Longrightarrow> rd (wr st n v t) m = rd st m"
    and fresh_other: "fresh st m t' \<Longrightarrow> n \<noteq> m \<Longrightarrow> fresh (wr st n v t) m t'"
begin

definition write_all :: "('k \<Rightarrow> 't) \<Rightarrow> 'k list \<Rightarrow> ('k \<Rightarrow> string) \<Rightarrow> ('k \<Rightarrow> pyval) \<Rightarrow> 's \<Rightarrow> 's" where
  "write_all clock ks name val st = fold (\<lambda>k st. wr st (name k) (val k) (clock k)) ks st"

lemma write_all_other: "m \<notin> name ` set ks \<Longrightarrow> rd (write_all clock ks name val st) m = rd st m"
  by (induction ks arbitrary: st) (auto simp: write_all_def read_other)

lemma write_all_reads:
  assumes "distinct (map name ks)" and "\<forall>k \<in> set ks. fresh st (name k) (clock k)" and "k \<in> set ks"
  shows "rd (write_all clock ks name val st) (name k) = val k"
  using assms
proof (induction ks arbitrary: st)
  case Nil
  then show ?case by simp
next
  case (Cons x xs)
  let ?st = "wr st (name x) (val x) (clock x)"
  show ?case
  proof (cases "k = x")
    case True
    then show ?thesis
      using Cons.prems write_all_other [of "name x" name xs clock val ?st]
      by (auto simp: write_all_def read_written)
  next
    case False
    have "\<forall>y \<in> set xs. fresh ?st (name y) (clock y)" using Cons.prems(1,2) by (auto intro!: fresh_other)
    then show ?thesis using Cons.IH [of ?st] Cons.prems False by (simp add: write_all_def)
  qed
qed

end

text \<open>
  The store of the program: \<open>write_field\<close> into the slot \<open>optimistic\<close> of generation \<open>new\<close>.  A
  timestamp is fresh for a field whose first scope holds that slot when it is newer than every
  other timestamp in the field.
\<close>

definition takes_new :: "string \<Rightarrow> bool" where
  "takes_new scope \<longleftrightarrow> scope \<in> {''protocol_all'', ''protocol_new'', ''optimistic''}"

definition fresh_ts :: "status \<Rightarrow> string \<Rightarrow> string \<Rightarrow> bool" where
  "fresh_ts st name ts \<longleftrightarrow>
     ts \<noteq> [] \<and> distinct (dkeys (field_sources st name)) \<and>
     (\<forall>(k, s) \<in> set (field_sources st name). stamped s \<longrightarrow> ts_of s < ts) \<and>
     (case dget (st_fields st) name of None \<Rightarrow> True | Some sf \<Rightarrow> takes_new (hd (effective_priority sf None)))"

definition optimistic_write :: "status \<Rightarrow> string \<Rightarrow> pyval \<Rightarrow> string \<Rightarrow> status" where
  "optimistic_write st name v ts = write_field st name v ''optimistic'' ''new'' ts"

lemma newest_filter:
  assumes "newest slots = Some (k, s)" and "P (k, s)" and "distinct (dkeys slots)"
    and "\<forall>(k', s') \<in> set slots. k' \<noteq> k \<longrightarrow> stamped s' \<longrightarrow> ts_of s' < ts_of s"
  shows "newest (filter P slots) = Some (k, s)"
proof -
  note n = newest_Some [OF assms(1)]
  have in_f: "(k, s) \<in> set (filter P slots)" using n(1) assms(2) by simp
  then obtain k' s' where n': "newest (filter P slots) = Some (k', s')"
    using n(2) newest_None [of "filter P slots"] by (cases "newest (filter P slots)") auto
  have le: "ts_of s \<le> ts_of s'" by (rule newest_Some(3) [OF n' in_f n(2)])
  have mem: "(k', s') \<in> set slots" using newest_Some(1) [OF n'] by simp
  have "k' = k"
    using assms(4) mem newest_Some(2) [OF n'] le by (auto simp: not_less [symmetric])
  moreover have "s' = s" if "k' = k"
    using assms(3) mem n(1) that unfolding dkeys_def by (metis map_of_is_SomeI option.inject)
  ultimately show ?thesis using n' by simp
qed

lemma effective_priority_ne: "effective_priority sf None \<noteq> []"
  by (simp add: effective_priority_def split: option.split list.split)

lemma read_written_lemma:
  assumes "fresh_ts st name ts"
  shows "read_value (optimistic_write st name v ts) name = v"
proof -
  let ?sf = "case dget (st_fields st) name of None \<Rightarrow> bare_field | Some sf \<Rightarrow> sf"
  let ?s = "written_slot v ''new'' ts" and ?srcs = "dset ''optimistic'' (written_slot v ''new'' ts) (sf_sources ?sf)"
  have srcs: "field_sources st name = sf_sources ?sf"
    by (simp add: field_sources_def bare_field_def split: option.split)
  have st: "stamped ?s" "ts_of ?s = ts" "sl_generation ?s = Some ''new''" "sl_value ?s = v"
    using assms by (simp_all add: written_slot_def empty_slot_def stamped_def fresh_ts_def)
  have d: "distinct (dkeys (sf_sources ?sf))" and lt: "\<forall>(k, s) \<in> set (sf_sources ?sf). stamped s \<longrightarrow> ts_of s < ts"
    using assms by (simp_all add: fresh_ts_def srcs)
  then have all: "newest ?srcs = Some (''optimistic'', ?s)"
    using st by (intro newest_dset_fresh) auto
  have ds: "distinct (dkeys ?srcs)" using d by simp
  have lt': "\<forall>(k', s') \<in> set ?srcs. k' \<noteq> ''optimistic'' \<longrightarrow> stamped s' \<longrightarrow> ts_of s' < ts_of ?s"
    using lt st by (auto simp: in_dset [OF d])
  let ?p = "effective_priority ?sf None"
  have "takes_new (hd ?p)"
    using assms by (cases "dget (st_fields st) name")
      (simp_all add: fresh_ts_def bare_field_def effective_priority_def takes_new_def)
  then have win: "newest (slots_in_scope ?srcs (hd ?p)) = Some (''optimistic'', ?s)"
    using all newest_filter [OF all _ ds lt', of "\<lambda>(k, s). sl_generation s = Some ''new''"] st
    by (auto simp: takes_new_def slots_in_scope_def newest_def)
  obtain q qs where q: "?p = q # qs" using effective_priority_ne [of ?sf] by (cases ?p) auto
  have "cascade ?srcs ?p \<noteq> None \<and> rr_value (the (cascade ?srcs ?p)) = v"
    using win st q by simp
  moreover have "effective_priority (?sf\<lparr>sf_sources := ?srcs\<rparr>) None = ?p"
    by (simp add: effective_priority_def)
  moreover have "?srcs \<noteq> []" using all by (auto simp: newest_def)
  ultimately show ?thesis
    by (auto simp: read_value_def read_field_def optimistic_write_def write_field_def Let_def)
qed

lemma write_other [simp]:
  "n \<noteq> m \<Longrightarrow> dget (st_fields (write_field st n v src gen ts)) m = dget (st_fields st) m"
  by (simp add: write_field_def Let_def)

interpretation store: value_store read_value optimistic_write fresh_ts
proof unfold_locales
  fix st n t v assume "fresh_ts st n t"
  then show "read_value (optimistic_write st n v t) n = v" by (rule read_written_lemma)
next
  fix n m v t and st :: status assume "n \<noteq> (m :: string)"
  then show "read_value (optimistic_write st n v t) m = read_value st m"
    by (simp add: read_value_def read_field_def optimistic_write_def)
next
  fix n m v t t' and st :: status assume "fresh_ts st m t'" and "n \<noteq> m"
  then show "fresh_ts (optimistic_write st n v t) m t'"
    by (simp add: fresh_ts_def field_sources_def optimistic_write_def)
qed

subsection \<open>Properties\<close>

text \<open>\<open>read_field\<close> answers with the newest timestamped slot of the first scope of the priority list that
  has one: earlier scopes hold no timestamped slot, no slot of the matched scope is newer, and the
  disagreements are exactly the other timestamped slots of the field, of any scope, whose value differs.\<close>

theorem read_field_winner:
  assumes "read_field st name priority = Some r"
  shows "\<exists>sf pre post s. dget (st_fields st) name = Some sf \<and>
    effective_priority sf priority = pre @ rr_scope_matched r # post \<and>
    (\<forall>scope \<in> set pre. \<forall>(k, s) \<in> set (slots_in_scope (sf_sources sf) scope). \<not> stamped s) \<and>
    (rr_source r, s) \<in> set (slots_in_scope (sf_sources sf) (rr_scope_matched r)) \<and>
    (rr_source r, s) \<in> set (sf_sources sf) \<and> stamped s \<and> sl_value s = rr_value r \<and>
    (\<forall>(k', s') \<in> set (slots_in_scope (sf_sources sf) (rr_scope_matched r)). stamped s' \<longrightarrow> ts_of s' \<le> rr_ts r) \<and>
    (\<forall>dg. dg \<in> set (rr_disagreements r) \<longleftrightarrow>
       (\<exists>k s'. (k, s') \<in> set (sf_sources sf) \<and> k \<noteq> rr_source r \<and> sl_ts s' \<noteq> None \<and>
          \<not> py_eq (sl_value s') (rr_value r) \<and>
          dg = \<lparr>dg_slot = k, dg_value = sl_value s', dg_ts = sl_ts s', dg_generation = sl_generation s'\<rparr>))"
proof -
  obtain sf where sf: "dget (st_fields st) name = Some sf"
      "cascade (sf_sources sf) (effective_priority sf priority) = Some r"
    using assms by (rule read_field_SomeD)
  from cascade_Some [OF sf(2)] obtain s pre post where
    p: "effective_priority sf priority = pre @ rr_scope_matched r # post"
    and e: "\<forall>scope \<in> set pre. newest (slots_in_scope (sf_sources sf) scope) = None"
    and n: "newest (slots_in_scope (sf_sources sf) (rr_scope_matched r)) = Some (rr_source r, s)"
    and v: "rr_value r = sl_value s" "rr_ts r = ts_of s"
    and dg: "rr_disagreements r = list_disagreements (sf_sources sf) (rr_source r) (rr_value r)" by blast
  note w = newest_Some [OF n]
  have mem: "(rr_source r, s) \<in> set (sf_sources sf)" using w(1) slots_in_scope_subset by blast
  have le: "\<forall>(k', s') \<in> set (slots_in_scope (sf_sources sf) (rr_scope_matched r)). stamped s' \<longrightarrow> ts_of s' \<le> rr_ts r"
    using w(3) v(2) by auto
  have dgs: "\<forall>dg. dg \<in> set (rr_disagreements r) \<longleftrightarrow>
       (\<exists>k s'. (k, s') \<in> set (sf_sources sf) \<and> k \<noteq> rr_source r \<and> sl_ts s' \<noteq> None \<and>
          \<not> py_eq (sl_value s') (rr_value r) \<and>
          dg = \<lparr>dg_slot = k, dg_value = sl_value s', dg_ts = sl_ts s', dg_generation = sl_generation s'\<rparr>)"
    unfolding dg list_disagreements_def by force
  show ?thesis
    using sf(1) p e w(1,2) v(1) mem le dgs
    by (intro exI [of _ sf] exI [of _ pre] exI [of _ post] exI [of _ s]) (simp add: newest_None)
qed

text \<open>Read after write: with a timestamp newer than every slot of the field, an optimistic write is the
  next read, whatever slots the field holds, provided its first scope admits slots of generation
  \<open>new\<close>; every other field reads as before.\<close>

theorem optimistic_read_after_write:
  assumes "fresh_ts st name ts"
  shows "read_value (write_field st name v ''optimistic'' ''new'' ts) name = v \<and>
    (\<forall>m. m = name \<or> read_value (write_field st name v ''optimistic'' ''new'' ts) m = read_value st m)"
  using store.read_written [OF assms, of v] store.read_other [of name _ st v ts]
  unfolding optimistic_write_def by metis

definition EXAMPLE_STATUS :: status where
  "EXAMPLE_STATUS =
     write_field (write_field (build_status ''ac'' EXAMPLE)
       ''power'' (PBool False) ''rsp_0xc0'' ''legacy'' ''2026-01-01T00:00:00+00:00'')
       ''target_temperature'' (PFloat (45/2)) ''rsp_0xc0'' ''legacy'' ''2026-01-01T00:00:00+00:00''"

theorem optimistic_read_after_write_witness:
  "read_value (write_field EXAMPLE_STATUS ''power'' (PBool True) ''optimistic'' ''new'' ''2026-01-01T00:00:05+00:00'') ''power'' = PBool True \<and>
   read_value EXAMPLE_STATUS ''power'' = PBool False"
proof -
  have "fresh_ts EXAMPLE_STATUS ''power'' ''2026-01-01T00:00:05+00:00''"
    by code_simp
  moreover have "read_value EXAMPLE_STATUS ''power'' = PBool False" by code_simp
  ultimately show ?thesis using optimistic_read_after_write by blast
qed

theorem read_field_winner_witness:
  "\<exists>r sf s. read_field EXAMPLE_STATUS ''target_temperature'' None = Some r \<and>
     dget (st_fields EXAMPLE_STATUS) ''target_temperature'' = Some sf \<and> rr_source r = ''rsp_0xc0'' \<and>
     (''rsp_0xc0'', s) \<in> set (sf_sources sf) \<and> sl_value s = PFloat (45/2)"
proof -
  have v: "map_option (\<lambda>r. (rr_source r, rr_value r)) (read_field EXAMPLE_STATUS ''target_temperature'' None) =
      Some (''rsp_0xc0'', PFloat (45/2))"
    by code_simp
  then obtain r where r: "read_field EXAMPLE_STATUS ''target_temperature'' None = Some r"
      "rr_source r = ''rsp_0xc0''" "rr_value r = PFloat (45/2)" by auto
  from read_field_winner [OF r(1)] r show ?thesis by metis
qed

end
