(* ===== verification/Gating.thy ===== *)
theory Gating
  imports Query
begin

section \<open>Visibility, gates and validation (\<open>ux_gating.py\<close>, \<open>gate_eval.py\<close>, \<open>gate_anchors.py\<close>, \<open>validation.py\<close>)\<close>

text \<open>
  Whether a field is shown in a mode (\<open>is_field_visible\<close>) and what it is masked to; the evaluator
  that combines power, mode, capability modes and interlocks (\<open>evaluate_offered\<close>); the wire addresses
  that anchor the interlocks (\<open>field_addresses\<close>, \<open>verify_gate_anchors\<close>); and the validation of a
  proposed write (\<open>validate_set\<close>).  The strings naming a failed axis and the problem texts are
  values of a datatype.
\<close>

subsection \<open>Visibility\<close>

definition MODE_INT_TO_NAME :: "(int, string) dict" where
  "MODE_INT_TO_NAME = [(1, ''auto''), (2, ''cool''), (3, ''dry''), (4, ''heat''), (5, ''fan_only'')]"

fun as_int :: "pyval \<Rightarrow> int option" where  \<comment> \<open>\<open>isinstance(v, int)\<close>, a \<open>bool\<close> included\<close>
  "as_int (PInt i) = Some i"
| "as_int (PBool b) = Some (if b then 1 else 0)"
| "as_int _ = None"

definition mode_int_name :: "pyval \<Rightarrow> string option" where
  "mode_int_name mode = (case as_int mode of None \<Rightarrow> None | Some i \<Rightarrow> dget MODE_INT_TO_NAME i)"

definition in_modes :: "pyval \<Rightarrow> string list \<Rightarrow> bool" where
  \<comment> \<open>\<open>current_mode in modes or MODE_INT_TO_NAME.get(current_mode) in modes\<close>\<close>
  "in_modes mode modes \<longleftrightarrow>
     (\<exists>m \<in> set modes. mode = PStr m) \<or>
     (case mode_int_name mode of None \<Rightarrow> False | Some name \<Rightarrow> name \<in> set modes)"

definition is_field_visible :: "field_def option \<Rightarrow> pyval \<Rightarrow> (string, pyval) dict option \<Rightarrow> bool" where
  "is_field_visible field_gdef current_mode caps =
     (case field_gdef of
        None \<Rightarrow> True
      | Some gdef \<Rightarrow>
          (case fd_ux gdef of
             None \<Rightarrow> True
           | Some ux \<Rightarrow>
               (if (case ux_hardware_flag ux of
                      None \<Rightarrow> False
                    | Some flag \<Rightarrow> \<not> truthy (dget_or (case caps of None \<Rightarrow> [] | Some c \<Rightarrow> c) flag PNone))
                then False
                else case ux_visible_in_modes ux of
                       None \<Rightarrow> True
                     | Some modes \<Rightarrow> current_mode = PNone \<or> in_modes current_mode modes)))"

definition default_for_masked_field :: "field_def option \<Rightarrow> pyval" where
  "default_for_masked_field field_gdef =
     (case field_gdef of
        None \<Rightarrow> PInt 0
      | Some gdef \<Rightarrow>
          (case fd_default_value gdef of
             Some dv \<Rightarrow> if dv \<noteq> PNone then dv else if fd_data_type gdef = Some ''bool'' then PBool False else PInt 0
           | None \<Rightarrow> if fd_data_type gdef = Some ''bool'' then PBool False else PInt 0))"

subsection \<open>The gate evaluator\<close>

datatype blocker = Power_off | Mode_blocked | Cap_mode string "string list" | Interlock string

record gate_verdict =
  gv_offered :: bool
  gv_blocked_by :: "blocker list"

definition mode_name :: "pyval \<Rightarrow> string option" where
  "mode_name mode = (case mode of PStr s \<Rightarrow> Some s | _ \<Rightarrow> mode_int_name mode)"

definition is_mode_raw :: "pyval \<Rightarrow> bool" where
  "is_mode_raw x = (case x of PInt i \<Rightarrow> has_key MODE_INT_TO_NAME i | _ \<Rightarrow> False)"

definition cap_mode_set :: "gate_block option \<Rightarrow> constraints option \<Rightarrow> string list option" where
  "cap_mode_set gate active_constraints =
     (case (gate, active_constraints) of
        (Some ga, Some ac) \<Rightarrow>
          (if \<not> ga_cap_mode ga then None
           else case ev_valid_set (ac_top ac) of
                  Some (v # vs) \<Rightarrow>
                    (if list_all is_mode_raw (v # vs)
                     then Some (map (\<lambda>r. the (mode_int_name r)) (v # vs)) else None)
                | _ \<Rightarrow> None)
      | _ \<Rightarrow> None)"

fun first_fork :: "mode_fork list \<Rightarrow> (string, int) dict \<Rightarrow> string list option" where
  "first_fork [] cap_bytes = None"
| "first_fork (fork # forks) cap_bytes =
     (let cid = (case mf_cap_id fork of None \<Rightarrow> '''' | Some i \<Rightarrow> lower i)
      in if cid \<noteq> '''' \<and> dget cap_bytes cid = mf_when_raw fork then mf_modes fork
         else first_fork forks cap_bytes)"

definition mode_fork_set :: "gate_block option \<Rightarrow> (string, int) dict option \<Rightarrow> string list option" where
  "mode_fork_set gate cap_bytes =
     (case (gate, cap_bytes) of
        (Some ga, Some cv) \<Rightarrow> first_fork (ga_mode_forks ga) cv
      | _ \<Rightarrow> None)"

definition intersect_modes :: "string list option \<Rightarrow> string list option \<Rightarrow> string list option" where
  "intersect_modes cap_modes restriction =
     (case restriction of
        None \<Rightarrow> cap_modes
      | Some r \<Rightarrow> (case cap_modes of None \<Rightarrow> Some r | Some c \<Rightarrow> Some (filter (\<lambda>m. m \<in> set r) c)))"

definition interlock_blocks :: "pyval \<Rightarrow> (string, pyval) dict option \<Rightarrow> interlock \<Rightarrow> bool" where
  "interlock_blocks mode field_states il =
     (if (case il_modes il of
            None \<Rightarrow> False
          | Some ms \<Rightarrow> (case mode_name mode of None \<Rightarrow> True | Some name \<Rightarrow> name \<notin> set ms))
      then False
      else
        let state = (case il_field il of
                       Some (c # cs) \<Rightarrow> dget_or (case field_states of None \<Rightarrow> [] | Some s \<Rightarrow> s) (c # cs) PNone
                     | _ \<Rightarrow> PNone);
            blocks_when = (case il_blocks_when il of None \<Rightarrow> ''nonzero'' | Some b \<Rightarrow> b)
        in state \<noteq> PNone \<and>
           ((blocks_when = ''nonzero'' \<or> blocks_when = ''truthy'') \<and> truthy state \<or>
            (blocks_when = ''zero'' \<or> blocks_when = ''off'') \<and> \<not> truthy state))"

definition evaluate_offered ::
  "field_def option \<Rightarrow> pyval \<Rightarrow> bool \<Rightarrow> constraints option \<Rightarrow> (string, pyval) dict option \<Rightarrow>
   (string, pyval) dict option \<Rightarrow> (string, int) dict option \<Rightarrow> gate_verdict" where
  "evaluate_offered field_gdef mode power_on active_constraints field_states caps cap_bytes =
     (let gate = (case field_gdef of None \<Rightarrow> None | Some gdef \<Rightarrow> fd_gate gdef);
          requires_power = (case gate of None \<Rightarrow> True
            | Some ga \<Rightarrow> (case ga_requires_power ga of None \<Rightarrow> True | Some b \<Rightarrow> b));
          b1 = (if requires_power \<and> \<not> power_on then [Power_off] else []);
          b2 = (if \<not> is_field_visible field_gdef mode caps then [Mode_blocked] else []);
          cap_modes = intersect_modes (intersect_modes None (cap_mode_set gate active_constraints))
                        (mode_fork_set gate cap_bytes);
          b3 = (case (cap_modes, mode_name mode) of
                  (Some ms, Some name) \<Rightarrow> if name \<notin> set ms then [Cap_mode name ms] else []
                | _ \<Rightarrow> []);
          b4 = map (\<lambda>il. Interlock (the (il_field il)))
                 (filter (interlock_blocks mode field_states) (case gate of None \<Rightarrow> [] | Some ga \<Rightarrow> ga_interlocks ga));
          blocked = b1 @ b2 @ b3 @ b4
      in \<lparr>gv_offered = (blocked = []), gv_blocked_by = blocked\<rparr>)"

subsection \<open>Wire anchors\<close>

definition CODE_PROTO :: "(string, string) dict" where
  "CODE_PROTO =
     [(''C0'', ''rsp_0xc0''), (''C1'', ''rsp_0xc1''), (''B1'', ''rsp_0xb1''), (''W40'', ''cmd_0x40''),
      (''WB0'', ''cmd_0xb0'')]"

definition fmt_bits :: "nat \<times> nat \<Rightarrow> string" where
  "fmt_bits bits = dec (fst bits) @ ''..'' @ dec (snd bits)"

definition step_address :: "string \<Rightarrow> decode_step \<Rightarrow> string list" where
  "step_address proto_code s =
     (case ds_bits s of
        None \<Rightarrow> []
      | Some bits \<Rightarrow>
          (let locus = (case ds_property_id s of
                          Some pid \<Rightarrow> pid
                        | None \<Rightarrow> (case ds_offset s of Some i \<Rightarrow> dec i | None \<Rightarrow> ''None''))
           in [proto_code @ '':'' @ locus @ '':'' @ fmt_bits bits]))"

definition field_addresses :: "glossary \<Rightarrow> string \<Rightarrow> string \<Rightarrow> string list" where
  "field_addresses g field proto_code =
     (case dget CODE_PROTO proto_code of
        None \<Rightarrow> []
      | Some proto_key \<Rightarrow>
          (case dget (walk_fields g) field of
             None \<Rightarrow> []
           | Some fdef \<Rightarrow>
               (case dget (fd_protocols fdef) proto_key of
                  None \<Rightarrow> []
                | Some ploc \<Rightarrow> concat (map (step_address proto_code) (pl_decode ploc)))))"

definition GATE_ANCHORS :: "(string, string) dict" where
  "GATE_ANCHORS =
     [(''strong_wind'', ''C0:8:5..5''), (''turbo_mode'', ''C0:10:1..1''), (''eco_mode'', ''C0:9:4..4''),
      (''sleep_mode'', ''C0:10:0..0''), (''natural_wind'', ''C0:9:1..1''),
      (''jet_cool'', ''B1:0x67,0x00:0..0''), (''breeze_away'', ''B1:0x42,0x00:7..0'')]"

definition collect_glossary_gate_anchors :: "glossary \<Rightarrow> (string, string) dict" where
  "collect_glossary_gate_anchors g =
     fold (\<lambda>(_, fdef) found.
        fold (\<lambda>il found.
            case (il_field il, il_at il) of
              (Some (c # cs), Some (a # as)) \<Rightarrow> dset (c # cs) (a # as) found
            | _ \<Rightarrow> found)
          (case fd_gate fdef of None \<Rightarrow> [] | Some ga \<Rightarrow> ga_interlocks ga) found)
       (walk_fields g) []"

datatype anchor_problem = Unresolved string string | Drift string string "string list"

definition check_anchor :: "glossary \<Rightarrow> string \<times> string \<Rightarrow> anchor_problem list" where
  "check_anchor g fe =
     (case fe of (field, expected) \<Rightarrow>
       (let resolved = field_addresses g field (takeWhile (\<lambda>c. c \<noteq> CHR '':'') expected)
        in if resolved = [] then [Unresolved field expected]
           else if expected \<notin> set resolved then [Drift field expected resolved]
           else []))"

definition verify_gate_anchors :: "glossary \<Rightarrow> (string, string) dict option \<Rightarrow> anchor_problem list" where
  "verify_gate_anchors g anchors =
     concat (map (check_anchor g) (case anchors of None \<Rightarrow> GATE_ANCHORS | Some a \<Rightarrow> a))"

definition verify_all_anchors :: "glossary \<Rightarrow> anchor_problem list" where
  "verify_all_anchors g = verify_gate_anchors g (Some (dupdate GATE_ANCHORS (collect_glossary_gate_anchors g)))"

subsection \<open>Validation of a write\<close>

datatype validation_outcome =
    Ok
  | FieldUnknown string
  | OutOfRange string pyval pyval pyval
  | NotInEnum string pyval "pyval list"
  | ModeDisallowed string "string option" "string list"

definition operating_mode_token :: "status \<Rightarrow> glossary \<Rightarrow> string option" where
  "operating_mode_token st g =
     (case read_field st ''operating_mode'' None of
        None \<Rightarrow> None
      | Some current \<Rightarrow>
          (case rr_value current of
             PNone \<Rightarrow> None
           | PStr s \<Rightarrow> Some s
           | raw \<Rightarrow>
               (case dget (walk_fields g) ''operating_mode'' of
                  None \<Rightarrow> None
                | Some op \<Rightarrow>
                    map_option fst
                      (find (\<lambda>(_, r). case r of None \<Rightarrow> False | Some x \<Rightarrow> py_eq x raw) (fd_values op)))))"

definition enum_raws :: "(string, pyval option) dict \<Rightarrow> pyval list" where
  "enum_raws values_block = concat (map (\<lambda>(_, r). case r of None \<Rightarrow> [] | Some x \<Rightarrow> [x]) values_block)"

definition is_bool :: "pyval \<Rightarrow> bool" where
  "is_bool v = (case v of PBool _ \<Rightarrow> True | _ \<Rightarrow> False)"

definition mode_allowed :: "status \<Rightarrow> glossary \<Rightarrow> field_def \<Rightarrow> bool" where
  "mode_allowed st g fdef \<longleftrightarrow>
     fd_valid_modes fdef = [] \<or>
     (case operating_mode_token st g of None \<Rightarrow> True | Some current \<Rightarrow> current \<in> set (fd_valid_modes fdef))"

definition in_enum :: "pyval \<Rightarrow> field_def \<Rightarrow> bool" where
  "in_enum v fdef \<longleftrightarrow> is_bool v \<or> enum_raws (fd_values fdef) = [] \<or> list_ex (py_eq v) (enum_raws (fd_values fdef))"

definition validate_set :: "string \<Rightarrow> pyval \<Rightarrow> status \<Rightarrow> glossary \<Rightarrow> validation_outcome" where
  "validate_set field_name v st g =
     (case dget (walk_fields g) field_name of
        None \<Rightarrow> FieldUnknown field_name
      | Some fdef \<Rightarrow>
          (if out_of_range (fd_range fdef) v
           then OutOfRange field_name v ((the (fd_range fdef)) ! 0) ((the (fd_range fdef)) ! 1)
           else if \<not> in_enum v fdef then NotInEnum field_name v (enum_raws (fd_values fdef))
           else if \<not> mode_allowed st g fdef
           then ModeDisallowed field_name (operating_mode_token st g) (fd_valid_modes fdef)
           else Ok))"

subsection \<open>Lemmas\<close>

lemma mode_visible [simp]: "is_field_visible None mode caps" "fd_ux d = None \<Longrightarrow> is_field_visible (Some d) mode caps"
  by (simp_all add: is_field_visible_def)

lemma interlock_needs_state: "interlock_blocks mode None il = False"
  by (simp add: interlock_blocks_def dget_or_def Let_def split: option.split list.split)

lemma interlock_unknown:
  assumes "\<forall>f. (case field_states of None \<Rightarrow> PNone | Some s \<Rightarrow> dget_or s f PNone) = PNone"
  shows "\<not> interlock_blocks mode field_states il"
  using assms by (auto simp: interlock_blocks_def Let_def dget_or_def split: option.splits list.splits)

text \<open>The modes a field is restricted to by its capabilities: every declared restriction holds.\<close>

definition permits :: "string list option \<Rightarrow> string \<Rightarrow> bool" where
  "permits restriction name = (case restriction of None \<Rightarrow> True | Some ms \<Rightarrow> name \<in> set ms)"

lemma permits_intersect: "permits (intersect_modes a b) name \<longleftrightarrow> permits a name \<and> permits b name"
  by (cases a; cases b) (auto simp: permits_def intersect_modes_def)

lemma permits_None [simp]: "permits None name"
  by (simp add: permits_def)

text \<open>The value-domain \<open>valid_set\<close> of a switch, \<open>[False, True]\<close>, is not read as modes.\<close>

lemma value_set_is_not_modes:
  "\<lbrakk>ev_valid_set (ac_top ac) = Some vs; v \<in> set vs; is_bool v\<rbrakk> \<Longrightarrow> cap_mode_set gate (Some ac) = None"
  by (auto simp: cap_mode_set_def list_all_iff is_mode_raw_def is_bool_def split: option.split list.split pyval.split_asm)

lemma offered_iff:
  "gv_offered (evaluate_offered (Some gdef) mode power_on ac states caps cap_bytes) \<longleftrightarrow>
     (power_on \<or> (\<exists>ga. fd_gate gdef = Some ga \<and> ga_requires_power ga = Some False)) \<and>
     is_field_visible (Some gdef) mode caps \<and>
     (case mode_name mode of
        None \<Rightarrow> True
      | Some name \<Rightarrow> permits (cap_mode_set (fd_gate gdef) ac) name \<and> permits (mode_fork_set (fd_gate gdef) cap_bytes) name) \<and>
     (case fd_gate gdef of None \<Rightarrow> True | Some ga \<Rightarrow> list_all (\<lambda>il. \<not> interlock_blocks mode states il) (ga_interlocks ga))"
proof -
  let ?cm = "intersect_modes (intersect_modes None (cap_mode_set (fd_gate gdef) ac)) (mode_fork_set (fd_gate gdef) cap_bytes)"
  have cap: "(case (?cm, mode_name mode) of (Some ms, Some name) \<Rightarrow> if name \<notin> set ms then [Cap_mode name ms] else [] | _ \<Rightarrow> []) = [] \<longleftrightarrow>
     (case mode_name mode of None \<Rightarrow> True | Some name \<Rightarrow> permits ?cm name)"
    by (cases ?cm; cases "mode_name mode") (simp_all add: permits_def)
  have il: "filter (interlock_blocks mode states) ils = [] \<longleftrightarrow> list_all (\<lambda>il. \<not> interlock_blocks mode states il) ils" for ils
    by (auto simp: filter_empty_conv list_all_iff)
  show ?thesis
    unfolding evaluate_offered_def Let_def gate_verdict.simps append_is_Nil_conv option.case cap
    by (cases "fd_gate gdef")
       (auto simp: il permits_intersect split: option.splits)
qed

subsection \<open>Properties\<close>

text \<open>A field is offered exactly when every axis agrees: power is on or not required; it is visible; the
  current mode, when it is known, is in every mode set the capabilities restrict it to; and no
  interlock blocks.  The list of blockers is empty exactly then.\<close>

theorem offered_iff_all_axes:
  "gv_offered (evaluate_offered (Some gdef) mode power_on ac states caps cap_bytes) \<longleftrightarrow>
     (power_on \<or> (\<exists>ga. fd_gate gdef = Some ga \<and> ga_requires_power ga = Some False)) \<and>
     is_field_visible (Some gdef) mode caps \<and>
     (case mode_name mode of
        None \<Rightarrow> True
      | Some name \<Rightarrow> permits (cap_mode_set (fd_gate gdef) ac) name \<and> permits (mode_fork_set (fd_gate gdef) cap_bytes) name) \<and>
     (case fd_gate gdef of None \<Rightarrow> True | Some ga \<Rightarrow> list_all (\<lambda>il. \<not> interlock_blocks mode states il) (ga_interlocks ga))"
  by (rule offered_iff)

text \<open>A field without a gate block is offered exactly when power is on and it is visible; and whatever
  its gate, a powered field without a hardware flag is offered while the mode and the other fields are
  unknown: the evaluator fails open.\<close>

theorem gate_parity_and_fail_open:
  assumes "case fd_ux gdef of None \<Rightarrow> True | Some ux \<Rightarrow> ux_hardware_flag ux = None"
  shows "gv_offered (evaluate_offered (Some gdef) PNone True ac None caps cap_bytes) \<and>
    (fd_gate gdef = None \<longrightarrow>
       gv_offered (evaluate_offered (Some gdef) mode power_on ac states caps cap_bytes) =
         (power_on \<and> is_field_visible (Some gdef) mode caps))"
proof -
  have "is_field_visible (Some gdef) PNone caps"
    using assms by (auto simp: is_field_visible_def split: option.splits)
  moreover have "mode_name PNone = None" by (simp add: mode_name_def mode_int_name_def)
  ultimately show ?thesis
    unfolding offered_iff
    by (auto simp: interlock_needs_state list_all_iff permits_def cap_mode_set_def mode_fork_set_def split: option.split)
qed


theorem gate_parity_and_fail_open_witness:
  "gv_offered (evaluate_offered (Some ((field_of_type ''bool'' None [])\<lparr>fd_gate :=
       Some \<lparr>ga_requires_power = None, ga_cap_mode = True, ga_mode_forks = [],
             ga_interlocks = [\<lparr>il_field = Some ''eco_mode'', il_at = Some ''C0:9:4..4'', il_modes = None,
                               il_blocks_when = None\<rparr>]\<rparr>\<rparr>))
     PNone True (Some \<lparr>ac_by_mode = None, ac_top = no_envelope\<lparr>ev_valid_set := Some [PInt 2]\<rparr>\<rparr>) None None None)"
  by (rule conjunct1 [OF gate_parity_and_fail_open]) (simp add: field_of_type_def)

text \<open>\<open>validate_set\<close> accepts a write exactly when the field is known, a numeric value is in the declared
  range, a non-boolean value is among the declared raw values, and the current mode, if it is known, is
  among the valid modes; otherwise it reports the first gate that fails, in that order.\<close>

theorem validate_set_order:
  "case dget (walk_fields g) name of
     None \<Rightarrow> validate_set name v st g = FieldUnknown name
   | Some fdef \<Rightarrow>
       (validate_set name v st g = Ok \<longleftrightarrow>
          \<not> out_of_range (fd_range fdef) v \<and> in_enum v fdef \<and> mode_allowed st g fdef) \<and>
       ((\<exists>lo hi. validate_set name v st g = OutOfRange name v lo hi) \<longleftrightarrow> out_of_range (fd_range fdef) v) \<and>
       ((\<exists>allowed. validate_set name v st g = NotInEnum name v allowed) \<longleftrightarrow>
          \<not> out_of_range (fd_range fdef) v \<and> \<not> in_enum v fdef) \<and>
       ((\<exists>m ms. validate_set name v st g = ModeDisallowed name m ms) \<longleftrightarrow>
          \<not> out_of_range (fd_range fdef) v \<and> in_enum v fdef \<and> \<not> mode_allowed st g fdef)"
  by (cases "dget (walk_fields g) name") (simp_all add: validate_set_def)

lemma anchors_of_ok:
  "check_anchor g (field, expected) = [] \<longleftrightarrow>
     expected \<in> set (field_addresses g field (takeWhile (\<lambda>c. c \<noteq> CHR '':'') expected))"
  by (auto simp: check_anchor_def Let_def)

text \<open>The anchor check is complete: it reports no problem exactly when every anchored field resolves, in
  the protocol its anchor names, to addresses that include the anchor.\<close>

theorem anchors_verified:
  "verify_gate_anchors g (Some anchors) = [] \<longleftrightarrow>
     set anchors \<subseteq> {(field, expected).
        expected \<in> set (field_addresses g field (takeWhile (\<lambda>c. c \<noteq> CHR '':'') expected))}"
  by (auto simp: verify_gate_anchors_def anchors_of_ok subset_iff)

end
