(* ===== verification/Process.thy ===== *)
theory Process
  imports Query Decode
begin

section \<open>Frame processing (\<open>blaueis/core/process.py\<close>)\<close>

text \<open>
  \<open>process_b5\<close> merges the records of a capability page and applies them to the fields that share the
  capability; \<open>finalize_capabilities\<close> ends the boot scan; \<open>process_data_frame\<close> writes one slot per
  decoded field and the rejection metadata; \<open>process_raw_frame\<close> dispatches on the frame tag.  The
  ingress of a session is the step relation \<open>ingress\<close>, with the capabilities frozen once they are
  final, as the device routes frames.  The functions update the status in place; here they return
  it, an exception returning no status.  \<open>now\<close> is the clock's ISO string, used when a caller gives
  no timestamp.
\<close>

subsection \<open>Capabilities\<close>

definition AVAILABLE_FA :: "string option set" where
  "AVAILABLE_FA = {Some ''always'', Some ''readable'', Some ''readable-opt''}"

definition is_cap_demotion :: "string option \<Rightarrow> string option \<Rightarrow> bool" where
  "is_cap_demotion current_fa new_fa \<longleftrightarrow> current_fa \<in> AVAILABLE_FA \<and> new_fa \<notin> AVAILABLE_FA"

definition set_feature :: "string \<Rightarrow> string \<Rightarrow> status \<Rightarrow> status" where
  "set_feature name fa = map_field name (\<lambda>sf. sf\<lparr>sf_feature_available := Some fa\<rparr>)"

definition set_constraints :: "string \<Rightarrow> constraints \<Rightarrow> status \<Rightarrow> status" where
  "set_constraints name c = map_field name (\<lambda>sf. sf\<lparr>sf_active_constraints := Some c\<rparr>)"

definition apply_enum_cap :: "bool \<Rightarrow> bool \<Rightarrow> capability \<Rightarrow> bytes \<Rightarrow> string \<Rightarrow> status \<Rightarrow> status" where
  "apply_enum_cap allow_demote pinned cap_def data field_name st =
     (let raw_val = (case data of [] \<Rightarrow> None | b # _ \<Rightarrow> Some (uint b));
          decoded = decode_enum_cap cap_def raw_val;
          cap_fa = ec_feature_available decoded;
          (demotion_blocked, st1) =
            (case cap_fa of
               Some (c # cs) \<Rightarrow>
                 (if pinned then (False, st)
                  else if \<not> allow_demote \<and> is_cap_demotion (feature st field_name) cap_fa
                  then (True, bump ''cap_demotions_blocked'' 1 st)
                  else (False, set_feature field_name (c # cs) st))
             | _ \<Rightarrow> (False, st));
          ac = (ec_envelope decoded)
      in if \<not> demotion_blocked \<and> ac \<noteq> no_envelope
         then set_constraints field_name \<lparr>ac_by_mode = None, ac_top = ac\<rparr> st1
         else st1)"

definition mode_ranges :: "(string, data_item option) dict \<Rightarrow> (string option, (string, pyval) dict) dict" where
  "mode_ranges decoded =
     fold (\<lambda>(_, dv) modes.
        case dv of
          None \<Rightarrow> modes
        | Some item \<Rightarrow>
            (if di_role item = Some ''min'' \<or> di_role item = Some ''max''
             then dset (di_mode item) (dset (the (di_role item)) (di_value item) (dget_or modes (di_mode item) [])) modes
             else modes))
       decoded []"

definition half_degree_step :: "(string, data_item option) dict \<Rightarrow> pyval" where
  "half_degree_step decoded =
     fold (\<lambda>(dk, dv) step.
        case dv of
          None \<Rightarrow> step
        | Some item \<Rightarrow>
            (if di_role item = Some ''flag'' \<and> contains ''half_deg'' dk
             then (if py_eq (di_value item) (PInt 1) then PFloat (1/2) else PFloat 1)
             else step))
       decoded (PFloat 1)"

definition apply_data_cap :: "bool \<Rightarrow> capability \<Rightarrow> bytes \<Rightarrow> string \<Rightarrow> status \<Rightarrow> status" where
  "apply_data_cap pinned cap_def data field_name st =
     (let decoded = decode_data_cap cap_def data;
          modes = mode_ranges decoded;
          step = half_degree_step decoded;
          by_mode = map (\<lambda>(m, r). (m, no_envelope
             \<lparr>ev_valid_range := Some [dget_or r ''min'' PNone, dget_or r ''max'' PNone],
              ev_step := Some step, ev_correction := Some ''clamp''\<rparr>)) modes;
          st1 = (if modes \<noteq> []
                 then set_constraints field_name \<lparr>ac_by_mode = Some by_mode, ac_top = no_envelope\<rparr> st
                 else st)
      in if pinned then st1 else set_feature field_name ''always'' st1)"

definition apply_cap_to_field ::
  "bool \<Rightarrow> (string, field_def) dict \<Rightarrow> cap_record \<Rightarrow> string \<Rightarrow> status \<Rightarrow> status" where
  "apply_cap_to_field allow_demote flds rec field_name st =
     (case dget flds field_name of
        None \<Rightarrow> st
      | Some field_def \<Rightarrow>
          (if dget (st_fields st) field_name = None then st
           else
             let pinned = (fd_feature_available field_def = Some ''excluded'')
             in case fd_capability field_def of
                  None \<Rightarrow> st
                | Some cap_def \<Rightarrow>
                    (if cap_values cap_def \<noteq> []
                     then apply_enum_cap allow_demote pinned cap_def (cr_data rec) field_name st
                     else if cap_decode cap_def \<noteq> []
                     then apply_data_cap pinned cap_def (cr_data rec) field_name st
                     else st)))"

definition apply_caps_to_fields :: "bool \<Rightarrow> glossary \<Rightarrow> cap_record list \<Rightarrow> status \<Rightarrow> status" where
  "apply_caps_to_fields allow_demote g records st =
     (let flds = walk_fields g; cap_index = build_cap_index flds
      in fold (\<lambda>rec st.
           let key = (lower (cr_cap_id rec), if cr_cap_type rec = 0 then ''simple'' else ''extended'')
           in fold (apply_cap_to_field allow_demote flds rec) (dget_or cap_index key []) st) records st)"

text \<open>A record replaces the ones of its capability that were there before the page.\<close>

definition merge_records :: "cap_record list \<Rightarrow> cap_record list \<Rightarrow> cap_record list" where
  "merge_records existing records =
     (let existing_ids = map (lower \<circ> cr_cap_id) existing
      in fold (\<lambda>rec acc.
           (if lower (cr_cap_id rec) \<in> set existing_ids
            then filter (\<lambda>r. lower (cr_cap_id r) \<noteq> lower (cr_cap_id rec)) acc else acc) @ [rec])
         records existing)"

definition or_now :: "string option \<Rightarrow> string \<Rightarrow> string" where  \<comment> \<open>\<open>timestamp or now\<close>\<close>
  "or_now timestamp now = (case timestamp of Some (c # cs) \<Rightarrow> c # cs | _ \<Rightarrow> now)"

definition process_b5 ::
  "status \<Rightarrow> bytes \<Rightarrow> glossary \<Rightarrow> string option \<Rightarrow> string \<Rightarrow> bool \<Rightarrow> bool \<Rightarrow> (status \<times> bool) res" where
  "process_b5 st body g timestamp now frame_trusted allow_demote =
     (if \<not> frame_trusted then Inr (bump ''rsp_0xb5_bad'' 1 st, False)
      else bind_res (parse_b5_tlv body) (\<lambda>(records, next_frame).
        let st1 = st\<lparr>st_capabilities_raw := merge_records (st_capabilities_raw st) records\<rparr>;
            st2 = apply_caps_to_fields allow_demote g records st1;
            st3 = st2\<lparr>st_meta := (st_meta st2)\<lparr>me_b5_received := True, me_phase := Post_b5\<rparr>\<rparr>;
            st4 = bump ''rsp_0xb5'' 1 st3
        in Inr (st4\<lparr>st_meta := (st_meta st4)\<lparr>me_last_ingest_at := Some (or_now timestamp now)\<rparr>\<rparr>, next_frame)))"

definition finalize_field :: "(string, field_def) dict \<Rightarrow> string list \<Rightarrow> string \<times> status_field \<Rightarrow> (string \<times> status_field) res" where
  "finalize_field flds all_cap_ids nsf =
     (case nsf of (field_name, sf) \<Rightarrow>
       (case sf_feature_available sf of
          None \<Rightarrow> Inl KeyError
        | Some fa \<Rightarrow>
            (if fa = ''capability'' \<or> fa = ''capability-opt''
             then
               let cap = (case dget flds field_name of None \<Rightarrow> None | Some fdef \<Rightarrow> fd_capability fdef);
                   cid = (case cap of None \<Rightarrow> '''' | Some c \<Rightarrow> (case cap_id c of None \<Rightarrow> '''' | Some i \<Rightarrow> lower i))
               in Inr (field_name,
                       if cid \<noteq> '''' \<and> cid \<notin> set all_cap_ids
                       then sf\<lparr>sf_feature_available := Some ''excluded''\<rparr> else sf)
             else Inr (field_name, sf))))"

definition finalize_capabilities :: "status \<Rightarrow> glossary \<Rightarrow> status res" where
  "finalize_capabilities st g =
     bind_res (map_res (finalize_field (walk_fields g) (map (lower \<circ> cr_cap_id) (st_capabilities_raw st)))
                 (st_fields st)) (\<lambda>flds.
       Inr (st\<lparr>st_fields := flds, st_meta := (st_meta st)\<lparr>me_caps_finalized := True\<rparr>\<rparr>))"

subsection \<open>Data frames\<close>

text \<open>The slot a decoded field gets, with the suppression record of a suppressed one.\<close>

definition decoded_raw :: "decoded \<Rightarrow> pyval" where
  "decoded_raw d = (case d of Suppressed r _ \<Rightarrow> r | _ \<Rightarrow> PNone)"

definition data_slot :: "int \<Rightarrow> string \<Rightarrow> string option \<Rightarrow> decoded \<Rightarrow> slot" where
  "data_slot new_count ts generation d =
     \<lparr>sl_value = decoded_value d, sl_raw = decoded_raw d, sl_frame_no = Some new_count, sl_ts = Some ts,
      sl_generation = generation,
      sl_suppression = (case d of
          Suppressed r reason \<Rightarrow>
            Some \<lparr>su_reason = reason, su_raw = r, su_frame_no = new_count, su_ts = ts\<rparr>
        | _ \<Rightarrow> None),
      sl_rejection = None\<rparr>"

definition count_suppression :: "decoded \<Rightarrow> (string, int) dict \<Rightarrow> (string, int) dict" where
  "count_suppression d counts =
     (case d of Suppressed _ reason \<Rightarrow> dset reason (dget_or counts reason 0 + 1) counts | _ \<Rightarrow> counts)"

definition store_decoded ::
  "string \<Rightarrow> int \<Rightarrow> string \<Rightarrow> string option \<Rightarrow> string \<times> decoded \<Rightarrow> status \<times> (string, int) dict \<Rightarrow>
   (status \<times> (string, int) dict) res" where
  "store_decoded protocol_key new_count ts generation nd acc =
     (case (nd, acc) of ((field_name, d), (st, counts)) \<Rightarrow>
       (case dget (st_fields st) field_name of
          None \<Rightarrow> Inr (st, counts)
        | Some sf \<Rightarrow>
            (case sf_feature_available sf of
               None \<Rightarrow> Inl KeyError
             | Some fa \<Rightarrow>
                 (if fa = ''capability'' \<or> fa = ''capability-opt'' then Inr (st, counts)
                  else Inr (st\<lparr>st_fields := dset field_name
                               (sf\<lparr>sf_sources := dset protocol_key (data_slot new_count ts generation d) (sf_sources sf)\<rparr>)
                               (st_fields st)\<rparr>,
                            count_suppression d counts)))))"

definition store_rejection ::
  "string \<Rightarrow> int \<Rightarrow> string \<Rightarrow> rejection \<Rightarrow> status \<times> int \<Rightarrow> (status \<times> int) res" where
  "store_rejection protocol_key new_count ts rj acc =
     (case acc of (st, n) \<Rightarrow>
       (case dget (st_fields st) (rj_field rj) of
          None \<Rightarrow> Inr (st, n)
        | Some sf \<Rightarrow>
            (case sf_feature_available sf of
               None \<Rightarrow> Inl KeyError
             | Some fa \<Rightarrow>
                 (if fa \<in> {''excluded'', ''capability'', ''capability-opt''} then Inr (st, n)
                  else
                    let s = (case dget (sf_sources sf) protocol_key of None \<Rightarrow> empty_slot | Some s \<Rightarrow> s);
                        info = \<lparr>ri_outcome = rj_outcome rj, ri_status = rj_status rj, ri_data_len = rj_data_len rj,
                                ri_property_id = rj_property_id rj, ri_frame_no = new_count, ri_ts = ts\<rparr>
                    in Inr (st\<lparr>st_fields := dset (rj_field rj)
                                 (sf\<lparr>sf_sources := dset protocol_key (s\<lparr>sl_rejection := Some info\<rparr>) (sf_sources sf)\<rparr>)
                                 (st_fields st)\<rparr>, n + 1)))))"

definition process_data_frame ::
  "status \<Rightarrow> bytes \<Rightarrow> string \<Rightarrow> glossary \<Rightarrow> string option \<Rightarrow> string \<Rightarrow> field_entry list option \<Rightarrow> status res" where
  "process_data_frame st body protocol_key g timestamp now field_map =
     bind_res (decode_frame_fields body protocol_key g (Some (st_capabilities_raw st)) field_map) (\<lambda>(decoded, rejections).
       let ts = or_now timestamp now;
           generation = infer_generation protocol_key g;
           new_count = dget_or (me_frame_counts (st_meta st)) protocol_key 0 + 1;
           st0 = bump protocol_key 1 st;
           st1 = st0\<lparr>st_meta := (st_meta st0)\<lparr>me_last_ingest_at := Some ts\<rparr>\<rparr>
       in bind_res (fold_res (store_decoded protocol_key new_count ts generation) decoded (st1, [])) (\<lambda>(st2, counts).
          let st3 = fold (\<lambda>(reason, count). bump (protocol_key @ ''_'' @ reason @ ''_suppressions'') count) counts st2
          in bind_res (fold_res (store_rejection protocol_key new_count ts) rejections (st3, 0)) (\<lambda>(st4, rejection_count).
             let st5 = (if rejection_count = 0 then st4
                        else bump (protocol_key @ ''_rejections'') rejection_count st4)
             in Inr (if me_phase (st_meta st5) = Post_b5 \<and> protocol_key = ''rsp_0xc0''
                     then st5\<lparr>st_meta := (st_meta st5)\<lparr>me_phase := Steady_state\<rparr>\<rparr> else st5))))"

definition process_raw_frame :: "status \<Rightarrow> bytes \<Rightarrow> glossary \<Rightarrow> string option \<Rightarrow> string \<Rightarrow> (status \<times> string) res" where
  "process_raw_frame st body g timestamp now =
     bind_res (identify_frame body) (\<lambda>protocol_key.
       if protocol_key = ''rsp_0xb5''
       then bind_res (process_b5 st body g timestamp now True True) (\<lambda>(st', _). Inr (st', protocol_key))
       else bind_res (process_data_frame st body protocol_key g timestamp now None) (\<lambda>st'. Inr (st', protocol_key)))"

subsection \<open>Lemmas: availability\<close>

abbreviation available :: "status \<Rightarrow> string \<Rightarrow> bool" where
  "available st n \<equiv> feature st n \<in> AVAILABLE_FA"

lemma map_field_lookup:
  "dget (st_fields (map_field name f st)) n = (if n = name then map_option f (dget (st_fields st) n) else dget (st_fields st) n)"
  by (cases "dget (st_fields st) name") auto

lemma feature_bump [simp]: "feature (bump k n st) m = feature st m"
  by (simp add: feature_def)

lemma feature_set_feature [simp]:
  "feature (set_feature name fa st) n = (if n = name \<and> has_key (st_fields st) name then Some fa else feature st n)"
  unfolding feature_def set_feature_def map_field_lookup has_key_def by (cases "dget (st_fields st) n") auto

lemma feature_set_constraints [simp]: "feature (set_constraints name c st) n = feature st n"
  unfolding feature_def set_constraints_def map_field_lookup by (cases "dget (st_fields st) n") auto

lemma apply_enum_cap_keeps:
  assumes "available st n"
  shows "available (apply_enum_cap False pinned cap data field_name st) n"
  using assms
  by (auto simp: apply_enum_cap_def Let_def is_cap_demotion_def split: option.split list.split if_splits)

lemma apply_data_cap_keeps:
  "available st n \<Longrightarrow> available (apply_data_cap pinned cap data field_name st) n"
  by (auto simp: apply_data_cap_def Let_def AVAILABLE_FA_def)

lemma apply_cap_to_field_keeps:
  "available st n \<Longrightarrow> available (apply_cap_to_field False flds rec field_name st) n"
  by (auto simp: apply_cap_to_field_def Let_def apply_enum_cap_keeps apply_data_cap_keeps split: option.split)

lemma apply_caps_keeps: "available st n \<Longrightarrow> available (apply_caps_to_fields False g recs st) n"
proof -
  have inner: "available st n \<Longrightarrow> available (fold (apply_cap_to_field False flds rec) names st) n" for flds rec names st
    by (induction names arbitrary: st) (simp_all add: apply_cap_to_field_keeps)
  show "available st n \<Longrightarrow> ?thesis"
    unfolding apply_caps_to_fields_def Let_def
    by (induction recs arbitrary: st) (simp_all add: inner)
qed

text \<open>Neither the metadata nor the raw records depend on how capabilities touch the fields.\<close>

definition same_session :: "status \<Rightarrow> status \<Rightarrow> bool" where
  "same_session st st' \<longleftrightarrow>
     me_phase (st_meta st') = me_phase (st_meta st) \<and>
     me_b5_received (st_meta st') = me_b5_received (st_meta st) \<and>
     me_caps_finalized (st_meta st') = me_caps_finalized (st_meta st) \<and>
     st_capabilities_raw st' = st_capabilities_raw st \<and>
     (\<forall>n. has_key (st_fields st') n = has_key (st_fields st) n) \<and>
     (\<forall>n. field_sources st' n = field_sources st n)"

lemma same_session_refl [simp]: "same_session st st"
  by (simp add: same_session_def)

lemma same_session_trans: "same_session a b \<Longrightarrow> same_session b c \<Longrightarrow> same_session a c"
  by (simp add: same_session_def)

lemma same_session_basic [simp]:
  "same_session st (bump k i st)"
  "same_session st (set_feature name fa st)"
  "same_session st (set_constraints name c st)"
  by (auto simp: same_session_def set_feature_def set_constraints_def field_sources_def has_key_def
      split: option.split)

lemma apply_cap_same_session: "same_session st (apply_cap_to_field ad flds rec field_name st)"
proof -
  have e: "same_session st (apply_enum_cap ad pinned cap data f st)" for pinned cap data f
    by (auto simp: apply_enum_cap_def Let_def split: option.split list.split
        intro: same_session_trans [OF same_session_basic(2) same_session_basic(3)])
  have d: "same_session st (apply_data_cap pinned cap data f st)" for pinned cap data f
    by (auto simp: apply_data_cap_def Let_def intro: same_session_trans [OF same_session_basic(3) same_session_basic(2)])
  show ?thesis by (auto simp: apply_cap_to_field_def Let_def e d split: option.split)
qed

lemma apply_caps_same_session: "same_session st (apply_caps_to_fields ad g recs st)"
proof -
  have inner: "same_session st (fold (apply_cap_to_field ad flds rec) names st)" for flds rec names st
    by (induction names arbitrary: st) (auto intro: same_session_trans [OF apply_cap_same_session])
  show ?thesis
    unfolding apply_caps_to_fields_def Let_def
    by (induction recs arbitrary: st) (auto intro: same_session_trans [OF inner])
qed

lemma process_b5_InrD:
  assumes "process_b5 st body g timestamp now True ad = Inr (st', next_frame)"
  obtains records where "parse_b5_tlv body = Inr (records, next_frame)"
    and "\<And>n. feature st' n = feature (apply_caps_to_fields ad g records
          (st\<lparr>st_capabilities_raw := merge_records (st_capabilities_raw st) records\<rparr>)) n"
    and "st_capabilities_raw st' = merge_records (st_capabilities_raw st) records"
    and "me_phase (st_meta st') = Post_b5" and "me_b5_received (st_meta st')"
    and "me_caps_finalized (st_meta st') = me_caps_finalized (st_meta st)"
    and "\<And>n. has_key (st_fields st') n = has_key (st_fields st) n"
    and "\<And>n. field_sources st' n = field_sources st n"
proof -
  from assms obtain records where p: "parse_b5_tlv body = Inr (records, next_frame)"
    and st': "\<And>n. feature st' n = feature (apply_caps_to_fields ad g records
          (st\<lparr>st_capabilities_raw := merge_records (st_capabilities_raw st) records\<rparr>)) n"
       "st_capabilities_raw st' = st_capabilities_raw (apply_caps_to_fields ad g records
          (st\<lparr>st_capabilities_raw := merge_records (st_capabilities_raw st) records\<rparr>))"
       "st_fields st' = st_fields (apply_caps_to_fields ad g records
          (st\<lparr>st_capabilities_raw := merge_records (st_capabilities_raw st) records\<rparr>))"
       "me_phase (st_meta st') = Post_b5" "me_b5_received (st_meta st')"
       "me_caps_finalized (st_meta st') = me_caps_finalized (st_meta (apply_caps_to_fields ad g records
          (st\<lparr>st_capabilities_raw := merge_records (st_capabilities_raw st) records\<rparr>)))"
    by (auto simp: process_b5_def Let_def feature_def bump_def)
  show ?thesis
    using apply_caps_same_session [of "st\<lparr>st_capabilities_raw := merge_records (st_capabilities_raw st) records\<rparr>" ad g records]
    by (intro that [OF p st'(1)]) (simp_all add: st' same_session_def has_key_def field_sources_def)
qed

lemma process_b5_untrusted:
  "process_b5 st body g timestamp now False ad = Inr (bump ''rsp_0xb5_bad'' 1 st, False)"
  by (simp add: process_b5_def)


subsection \<open>Lemmas: data frames\<close>

lemma field_sources_put [simp]:
  "field_sources (st\<lparr>st_fields := dset n sf (st_fields st)\<rparr>) m = (if m = n then sf_sources sf else field_sources st m)"
  by (simp add: field_sources_def)

lemma feature_put [simp]:
  "feature (st\<lparr>st_fields := dset n sf (st_fields st)\<rparr>) m = (if m = n then sf_feature_available sf else feature st m)"
  by (simp add: feature_def)

definition pre_b5 :: "string option \<Rightarrow> bool" where
  "pre_b5 fa \<longleftrightarrow> fa \<in> {Some ''capability'', Some ''capability-opt''}"

text \<open>What storing may change: sources only.\<close>

definition same_but_sources :: "status \<Rightarrow> status \<Rightarrow> bool" where
  "same_but_sources st st' \<longleftrightarrow>
     st_meta st' = st_meta st \<and> st_capabilities_raw st' = st_capabilities_raw st \<and>
     (\<forall>n. feature st' n = feature st n \<and> has_key (st_fields st') n = has_key (st_fields st) n) \<and>
     (\<forall>n sf'. dget (st_fields st') n = Some sf' \<longrightarrow>
        (\<exists>sf. dget (st_fields st) n = Some sf \<and> sf'\<lparr>sf_sources := []\<rparr> = sf\<lparr>sf_sources := []\<rparr>))"

lemma same_but_sources_refl [simp]: "same_but_sources st st"
  by (simp add: same_but_sources_def)

lemma same_but_sources_trans: "same_but_sources a b \<Longrightarrow> same_but_sources b c \<Longrightarrow> same_but_sources a c"
  unfolding same_but_sources_def by metis

lemma same_but_sources_put:
  assumes "dget (st_fields st) n = Some sf"
  shows "same_but_sources st (st\<lparr>st_fields := dset n (sf\<lparr>sf_sources := x\<rparr>) (st_fields st)\<rparr>)"
  using assms by (auto simp: same_but_sources_def feature_def has_key_def)

lemma store_decoded_step:
  assumes "store_decoded key cnt ts gen (n, d) (st, c) = Inr (st', c')"
  shows "same_but_sources st st' \<and>
    (\<forall>m. field_sources st' m =
       (if m = n \<and> has_key (st_fields st) n \<and> \<not> pre_b5 (feature st n)
        then dset key (data_slot cnt ts gen d) (field_sources st m) else field_sources st m))"
proof (cases "dget (st_fields st) n")
  case None
  then show ?thesis using assms by (auto simp: store_decoded_def has_key_def)
next
  case (Some sf)
  then obtain fa where fa: "sf_feature_available sf = Some fa"
    using assms by (cases "sf_feature_available sf") (simp_all add: store_decoded_def)
  show ?thesis
  proof (cases "fa = ''capability'' \<or> fa = ''capability-opt''")
    case True
    then show ?thesis using assms Some fa by (auto simp: store_decoded_def pre_b5_def feature_def)
  next
    case False
    then have st': "st' = st\<lparr>st_fields := dset n
        (sf\<lparr>sf_sources := dset key (data_slot cnt ts gen d) (sf_sources sf)\<rparr>) (st_fields st)\<rparr>"
      using assms Some fa by (simp add: store_decoded_def)
    have "has_key (st_fields st) n \<and> \<not> pre_b5 (feature st n)"
      using False Some fa by (simp add: pre_b5_def feature_def has_key_def)
    then show ?thesis
      using same_but_sources_put [OF Some] Some unfolding st' by (simp add: field_sources_def)
  qed
qed

lemma store_decoded_fold:
  assumes "fold_res (store_decoded key cnt ts gen) decoded (st, c) = Inr (st', c')" and "distinct (dkeys decoded)"
  shows "same_but_sources st st' \<and>
    (\<forall>n. field_sources st' n =
       (case dget decoded n of
          None \<Rightarrow> field_sources st n
        | Some d \<Rightarrow>
            if has_key (st_fields st) n \<and> \<not> pre_b5 (feature st n)
            then dset key (data_slot cnt ts gen d) (field_sources st n) else field_sources st n))"
  using assms
proof (induction decoded arbitrary: st c)
  case Nil
  then show ?case by simp
next
  case (Cons nd decoded)
  obtain n d where nd: "nd = (n, d)" by (cases nd)
  from Cons.prems(1) obtain st1 c1 where
    1: "store_decoded key cnt ts gen (n, d) (st, c) = Inr (st1, c1)"
    and 2: "fold_res (store_decoded key cnt ts gen) decoded (st1, c1) = Inr (st', c')"
    by (auto simp: nd)
  have dist: "distinct (dkeys decoded)" and fresh: "dget decoded n = None"
    using Cons.prems(2) by (simp_all add: nd dkeys_def map_of_eq_None_iff)
  note s1 = store_decoded_step [OF 1] and s2 = Cons.IH [OF 2 dist]
  have same: "same_but_sources st st'" using s1 s2 same_but_sources_trans by blast
  have fk: "\<forall>m. feature st1 m = feature st m \<and> has_key (st_fields st1) m = has_key (st_fields st) m"
    using s1 by (simp add: same_but_sources_def)
  show ?case
  proof (intro conjI allI same)
    fix m
    show "field_sources st' m = (case dget (nd # decoded) m of None \<Rightarrow> field_sources st m
      | Some d \<Rightarrow> if has_key (st_fields st) m \<and> \<not> pre_b5 (feature st m)
          then dset key (data_slot cnt ts gen d) (field_sources st m) else field_sources st m)"
      using s1 s2 fk fresh by (cases "m = n"; cases "dget decoded m") (simp_all add: nd)
  qed
qed

text \<open>A rejection changes nothing but the rejection record of the slot of its frame.\<close>

definition rejection_only :: "string \<Rightarrow> sources \<Rightarrow> sources \<Rightarrow> bool" where
  "rejection_only key xs ys \<longleftrightarrow>
     ys = xs \<or> (\<exists>info. ys = dset key ((case dget xs key of None \<Rightarrow> empty_slot | Some s \<Rightarrow> s)\<lparr>sl_rejection := Some info\<rparr>) xs)"

lemma rejection_only_refl [simp]: "rejection_only key xs xs"
  by (simp add: rejection_only_def)

lemma rejection_only_trans: "rejection_only key xs ys \<Longrightarrow> rejection_only key ys zs \<Longrightarrow> rejection_only key xs zs"
  unfolding rejection_only_def by (elim disjE exE) (auto simp: update_conv' split: option.splits)

lemma store_rejection_fold:
  assumes "fold_res (store_rejection key cnt ts) rjs (st, i) = Inr (st', j)"
  shows "same_but_sources st st' \<and>
    (\<forall>n. rejection_only key (field_sources st n) (field_sources st' n) \<and>
       (n \<notin> rj_field ` set rjs \<longrightarrow> field_sources st' n = field_sources st n))"
  using assms
proof (induction rjs arbitrary: st i)
  case Nil
  then show ?case by simp
next
  case (Cons rj rjs)
  from Cons.prems obtain st1 i1 where
    1: "store_rejection key cnt ts rj (st, i) = Inr (st1, i1)"
    and 2: "fold_res (store_rejection key cnt ts) rjs (st1, i1) = Inr (st', j)"
    by auto
  have s1: "same_but_sources st st1 \<and> (\<forall>n. rejection_only key (field_sources st n) (field_sources st1 n) \<and>
       (n \<noteq> rj_field rj \<longrightarrow> field_sources st1 n = field_sources st n))"
  proof (cases "dget (st_fields st) (rj_field rj)")
    case None
    then show ?thesis using 1 by (simp add: store_rejection_def)
  next
    case (Some sf)
    then obtain fa where fa: "sf_feature_available sf = Some fa"
      using 1 by (cases "sf_feature_available sf") (simp_all add: store_rejection_def)
    show ?thesis
    proof (cases "fa \<in> {''excluded'', ''capability'', ''capability-opt''}")
      case True
      then show ?thesis using 1 Some fa by (auto simp: store_rejection_def)
    next
      case False
      define info where "info = \<lparr>ri_outcome = rj_outcome rj, ri_status = rj_status rj,
          ri_data_len = rj_data_len rj, ri_property_id = rj_property_id rj, ri_frame_no = cnt, ri_ts = ts\<rparr>"
      have st1: "st1 = st\<lparr>st_fields := dset (rj_field rj)
          (sf\<lparr>sf_sources := dset key ((case dget (sf_sources sf) key of None \<Rightarrow> empty_slot | Some s \<Rightarrow> s)
            \<lparr>sl_rejection := Some info\<rparr>) (sf_sources sf)\<rparr>) (st_fields st)\<rparr>"
        using 1 Some fa False by (simp add: store_rejection_def Let_def info_def)
      have src: "field_sources st (rj_field rj) = sf_sources sf" using Some by (simp add: field_sources_def)
      show ?thesis
        using same_but_sources_put [OF Some] unfolding st1 by (auto simp: src rejection_only_def)
    qed
  qed
  from Cons.IH [OF 2] s1 show ?case
    by (auto intro: same_but_sources_trans rejection_only_trans)
qed

lemma decode_frame_fields_distinct:
  assumes "decode_frame_fields body key g recs fm = Inr (result, rej)"
  shows "distinct (dkeys result)"
proof -
  have 1: "fold_res (decode_entry body bp encs recs) fmap u = Inr v \<Longrightarrow> distinct (dkeys (fst u)) \<Longrightarrow> distinct (dkeys (fst v))"
    for bp encs fmap u v
    by (erule fold_res_invariant [where P = "\<lambda>u. distinct (dkeys (fst u))"])
       (auto simp: decode_entry_def split: source.split_asm if_splits)
  have 2: "fold_res (synthesize_entry body bp encs key) fs u = Inr v \<Longrightarrow> distinct (dkeys u) \<Longrightarrow> distinct (dkeys v)"
    for bp encs fs u v
    by (erule fold_res_invariant [where P = "\<lambda>u. distinct (dkeys u)"])
       (auto simp: synthesize_entry_def split: if_splits option.split_asm source.split_asm)
  from assms obtain bp acc where
    e: "fold_res (decode_entry body bp (gl_encodings g) recs) (case fm of None \<Rightarrow> build_field_map g key | Some m \<Rightarrow> m) ([], []) = Inr acc"
    and f: "fold_res (synthesize_entry body bp (gl_encodings g) key) (walk_fields g) (fst acc) = Inr result"
    unfolding decode_frame_fields_def Let_def by (auto simp only: bind_res_eq_Inr sum.inject prod.inject)
  have "distinct (dkeys (fst acc))" by (rule 1 [OF e]) (simp add: dkeys_def)
  with f show ?thesis by (rule 2)
qed

lemma meta_update_simps [simp]:
  "field_sources (st\<lparr>st_meta := m\<rparr>) n = field_sources st n" "feature (st\<lparr>st_meta := m\<rparr>) n = feature st n"
  "field_sources (bump k i st) n = field_sources st n"
  by (simp_all add: field_sources_def feature_def)

lemma fold_bump:
  "st_fields (fold (\<lambda>(reason, count). bump (f reason) count) counts st) = st_fields st"
  "st_capabilities_raw (fold (\<lambda>(reason, count). bump (f reason) count) counts st) = st_capabilities_raw st"
  "me_phase (st_meta (fold (\<lambda>(reason, count). bump (f reason) count) counts st)) = me_phase (st_meta st)"
  "me_b5_received (st_meta (fold (\<lambda>(reason, count). bump (f reason) count) counts st)) = me_b5_received (st_meta st)"
  "me_caps_finalized (st_meta (fold (\<lambda>(reason, count). bump (f reason) count) counts st)) = me_caps_finalized (st_meta st)"
  by (induction counts arbitrary: st) auto

text \<open>The whole data-frame handler, in terms of what was decoded.\<close>

lemma process_data_frame_effect:
  assumes "process_data_frame st body key g timestamp now fm = Inr st'"
  obtains decoded rejections where
    "decode_frame_fields body key g (Some (st_capabilities_raw st)) fm = Inr (decoded, rejections)"
    and "\<And>n. feature st' n = feature st n" and "\<And>n. has_key (st_fields st') n = has_key (st_fields st) n"
    and "st_capabilities_raw st' = st_capabilities_raw st"
    and "me_b5_received (st_meta st') = me_b5_received (st_meta st)"
    and "me_caps_finalized (st_meta st') = me_caps_finalized (st_meta st)"
    and "me_phase (st_meta st') =
      (if me_phase (st_meta st) = Post_b5 \<and> key = ''rsp_0xc0'' then Steady_state else me_phase (st_meta st))"
    and "\<And>n sf'. dget (st_fields st') n = Some sf' \<Longrightarrow>
      \<exists>sf. dget (st_fields st) n = Some sf \<and> sf'\<lparr>sf_sources := []\<rparr> = sf\<lparr>sf_sources := []\<rparr>"
    and "\<And>n. \<exists>mid. rejection_only key mid (field_sources st' n) \<and>
      (n \<notin> rj_field ` set rejections \<longrightarrow> field_sources st' n = mid) \<and>
      mid = (case dget decoded n of
          None \<Rightarrow> field_sources st n
        | Some d \<Rightarrow>
            if has_key (st_fields st) n \<and> \<not> pre_b5 (feature st n)
            then dset key (data_slot (dget_or (me_frame_counts (st_meta st)) key 0 + 1) (or_now timestamp now)
                   (infer_generation key g) d) (field_sources st n)
            else field_sources st n)"
proof -
  let ?cnt = "dget_or (me_frame_counts (st_meta st)) key 0 + 1" and ?ts = "or_now timestamp now"
  let ?st0 = "bump key 1 st"
  let ?st1 = "?st0\<lparr>st_meta := (st_meta ?st0)\<lparr>me_last_ingest_at := Some ?ts\<rparr>\<rparr>"
  obtain dr where dr: "decode_frame_fields body key g (Some (st_capabilities_raw st)) fm = Inr dr"
    using assms unfolding process_data_frame_def by auto
  obtain decoded rejections where d: "dr = (decoded, rejections)" by (cases dr)
  obtain sc where sc: "fold_res (store_decoded key ?cnt ?ts (infer_generation key g)) decoded (?st1, []) = Inr sc"
    using assms unfolding process_data_frame_def dr d by (auto simp: Let_def)
  obtain st2 counts where s: "sc = (st2, counts)" by (cases sc)
  let ?st3 = "fold (\<lambda>(reason, count). bump (key @ ''_'' @ reason @ ''_suppressions'') count) counts st2"
  obtain rc where rc: "fold_res (store_rejection key ?cnt ?ts) rejections (?st3, 0) = Inr rc"
    using assms sc unfolding process_data_frame_def dr d s by (auto simp: Let_def)
  obtain st4 m where r: "rc = (st4, m)" by (cases rc)
  let ?st5 = "if m = 0 then st4 else bump (key @ ''_rejections'') m st4"
  have st': "st' = (if me_phase (st_meta ?st5) = Post_b5 \<and> key = ''rsp_0xc0''
      then ?st5\<lparr>st_meta := (st_meta ?st5)\<lparr>me_phase := Steady_state\<rparr>\<rparr> else ?st5)"
    using assms sc rc unfolding process_data_frame_def dr d s r by (simp add: Let_def)
  note dist = decode_frame_fields_distinct [OF dr [unfolded d]]
  note a = store_decoded_fold [OF sc [unfolded s] dist]
  note b = store_rejection_fold [OF rc [unfolded r]]
  have st1: "st_fields ?st1 = st_fields st" "st_capabilities_raw ?st1 = st_capabilities_raw st"
    "me_phase (st_meta ?st1) = me_phase (st_meta st)" "me_b5_received (st_meta ?st1) = me_b5_received (st_meta st)"
    "me_caps_finalized (st_meta ?st1) = me_caps_finalized (st_meta st)" by simp_all
  have flds: "st_fields st' = st_fields st4" unfolding st' by simp
  have fs: "field_sources x n = field_sources y n" "feature x n = feature y n" if "st_fields x = st_fields y" for x y n
    using that by (simp_all add: field_sources_def feature_def)
  have f3: "st_fields ?st3 = st_fields st2" by (rule fold_bump)
  have meta4: "st_meta st4 = st_meta ?st3" using b by (simp add: same_but_sources_def)
  have meta2: "st_meta st2 = st_meta ?st1" using a by (simp add: same_but_sources_def)
  show ?thesis
  proof (rule that [OF dr [unfolded d]])
    fix n
    show "feature st' n = feature st n"
      using a b fs(2) [OF flds, of n] fs(2) [OF f3, of n] fs(2) [OF st1(1), of n] by (simp add: same_but_sources_def)
    show "has_key (st_fields st') n = has_key (st_fields st) n"
      using a b f3 by (simp add: same_but_sources_def flds)
    have mid: "field_sources st2 n = (case dget decoded n of
          None \<Rightarrow> field_sources st n
        | Some d \<Rightarrow>
            if has_key (st_fields st) n \<and> \<not> pre_b5 (feature st n)
            then dset key (data_slot ?cnt ?ts (infer_generation key g) d) (field_sources st n)
            else field_sources st n)"
      using conjunct2 [OF a, rule_format, of n] by (simp only: st1(1) meta_update_simps feature_bump)
    have last: "field_sources st' n = field_sources st4 n" by (rule fs(1) [OF flds])
    have first: "field_sources ?st3 n = field_sources st2 n" by (rule fs(1) [OF f3])
    show "\<exists>mid. rejection_only key mid (field_sources st' n) \<and>
      (n \<notin> rj_field ` set rejections \<longrightarrow> field_sources st' n = mid) \<and>
      mid = (case dget decoded n of
          None \<Rightarrow> field_sources st n
        | Some d \<Rightarrow>
            if has_key (st_fields st) n \<and> \<not> pre_b5 (feature st n)
            then dset key (data_slot ?cnt ?ts (infer_generation key g) d) (field_sources st n)
            else field_sources st n)"
      using conjunct2 [OF b, rule_format, of n] mid unfolding last first by blast
  next
    show "st_capabilities_raw st' = st_capabilities_raw st"
      using a b fold_bump(2) [of "\<lambda>r. key @ ''_'' @ r @ ''_suppressions''" counts st2] unfolding st'
      by (simp add: same_but_sources_def)
    show "me_b5_received (st_meta st') = me_b5_received (st_meta st)"
      "me_caps_finalized (st_meta st') = me_caps_finalized (st_meta st)"
      "me_phase (st_meta st') =
        (if me_phase (st_meta st) = Post_b5 \<and> key = ''rsp_0xc0'' then Steady_state else me_phase (st_meta st))"
      unfolding st' by (simp_all add: meta4 meta2 fold_bump)
  next
    fix n sf' assume "dget (st_fields st') n = Some sf'"
    then obtain sf3 where "dget (st_fields st2) n = Some sf3" "sf'\<lparr>sf_sources := []\<rparr> = sf3\<lparr>sf_sources := []\<rparr>"
      using b f3 unfolding flds same_but_sources_def by metis
    then show "\<exists>sf. dget (st_fields st) n = Some sf \<and> sf'\<lparr>sf_sources := []\<rparr> = sf\<lparr>sf_sources := []\<rparr>"
      using a st1(1) unfolding same_but_sources_def by metis
  qed
qed


subsection \<open>Lemmas: finalisation and optimistic writes\<close>

lemma finalize_fields_lookup:
  assumes "map_res (finalize_field flds ids) xs = Inr ys"
  shows "case dget xs n of None \<Rightarrow> dget ys n = None
    | Some sf \<Rightarrow> \<exists>sf'. dget ys n = Some sf' \<and> finalize_field flds ids (n, sf) = Inr (n, sf')"
  using assms
proof (induction xs arbitrary: ys)
  case Nil
  then show ?case by simp
next
  case (Cons x xs)
  obtain m sf where x: "x = (m, sf)" by (cases x)
  obtain y zs where y: "finalize_field flds ids x = Inr y" "map_res (finalize_field flds ids) xs = Inr zs" "ys = y # zs"
    using Cons.prems by auto
  obtain sf' where sf': "y = (m, sf')"
    using y(1) by (auto simp: x finalize_field_def Let_def split: option.split_asm if_splits)
  show ?case using Cons.IH [OF y(2)] y x sf' by (cases "n = m"; cases "dget xs n") auto
qed

lemma finalize_InrD:
  assumes "finalize_capabilities st g = Inr st'"
  shows "case dget (st_fields st) n of None \<Rightarrow> dget (st_fields st') n = None
    | Some sf \<Rightarrow> \<exists>sf'. dget (st_fields st') n = Some sf' \<and>
        finalize_field (walk_fields g) (map (lower \<circ> cr_cap_id) (st_capabilities_raw st)) (n, sf) = Inr (n, sf')"
    and "me_phase (st_meta st') = me_phase (st_meta st)" and "me_b5_received (st_meta st') = me_b5_received (st_meta st)"
    and "me_caps_finalized (st_meta st')" and "st_capabilities_raw st' = st_capabilities_raw st"
  using assms finalize_fields_lookup [of "walk_fields g" "map (lower \<circ> cr_cap_id) (st_capabilities_raw st)" "st_fields st"]
  by (auto simp: finalize_capabilities_def)

lemma finalize_feature:
  assumes "finalize_capabilities st g = Inr st'" and "\<not> pre_b5 (feature st n)"
  shows "feature st' n = feature st n"
  using finalize_InrD(1) [OF assms(1), of n] assms(2)
  by (auto simp: feature_def finalize_field_def pre_b5_def split: option.split_asm if_splits)

lemma write_field_session:
  "st_meta (write_field st name v src gen ts) = st_meta st"
  "st_capabilities_raw (write_field st name v src gen ts) = st_capabilities_raw st"
  "feature (write_field st name v src gen ts) n = feature st n"
  by (simp_all add: write_field_def Let_def feature_def bare_field_def split: option.split)

subsection \<open>The ingress of a session\<close>

text \<open>
  The steps that change the status of a running device: a capability frame, routed with demotion
  allowed exactly until the capabilities are final; a data frame; the end of the boot scan; an
  optimistic write of a command.
\<close>

inductive ingress :: "glossary \<Rightarrow> status \<Rightarrow> status \<Rightarrow> bool" for g where
  capability_frame:
    "process_b5 st body g timestamp now trusted (\<not> me_caps_finalized (st_meta st)) = Inr (st', next_frame) \<Longrightarrow>
     ingress g st st'"
| data_frame: "process_data_frame st body key g timestamp now fm = Inr st' \<Longrightarrow> ingress g st st'"
| scan_end: "finalize_capabilities st g = Inr st' \<Longrightarrow> ingress g st st'"
| command: "ingress g st (write_field st name v src gen ts)"

lemma frozen_step:
  "me_caps_finalized (st_meta st) \<Longrightarrow> process_b5 st body g timestamp now trusted False = Inr (st', next_frame) \<Longrightarrow>
   ingress g st st'"
  using capability_frame [of st body g timestamp now trusted st' next_frame] by simp

lemma open_step:
  "\<not> me_caps_finalized (st_meta st) \<Longrightarrow> process_b5 st body g timestamp now trusted True = Inr (st', next_frame) \<Longrightarrow>
   ingress g st st'"
  using capability_frame [of st body g timestamp now trusted st' next_frame] by simp

inductive_cases ingressE: "ingress g st st'"

lemma AVAILABLE_not_pre_b5: "fa \<in> AVAILABLE_FA \<Longrightarrow> \<not> pre_b5 fa"
  by (auto simp: AVAILABLE_FA_def pre_b5_def)

lemma ingress_caps_frozen:
  assumes "ingress g st st'" and "me_caps_finalized (st_meta st)" and "available st n"
  shows "me_caps_finalized (st_meta st') \<and> available st' n"
  using assms(1)
proof (cases rule: ingress.cases)
  case (capability_frame body timestamp now trusted next_frame)
  show ?thesis
  proof (cases trusted)
    case True
    with capability_frame assms(2) have "process_b5 st body g timestamp now True False = Inr (st', next_frame)" by simp
    then show ?thesis
      using assms(2,3) apply_caps_keeps
      by (elim process_b5_InrD) (simp add: feature_def)
  next
    case False
    then show ?thesis using capability_frame assms(2,3) by (auto simp: process_b5_untrusted)
  qed
next
  case (data_frame body key timestamp now fm)
  then show ?thesis using assms(2,3) by (elim process_data_frame_effect) simp
next
  case scan_end
  then show ?thesis
    using assms(3) finalize_feature [OF scan_end AVAILABLE_not_pre_b5] finalize_InrD(4) [OF scan_end] by simp
next
  case (command name v src gen ts)
  then show ?thesis using assms(2,3) by (simp add: write_field_session)
qed

lemma ingress_phase:
  assumes "ingress g st st'" and "me_phase (st_meta st) = Boot \<longleftrightarrow> \<not> me_b5_received (st_meta st)"
  shows "me_phase (st_meta st') = Boot \<longleftrightarrow> \<not> me_b5_received (st_meta st')"
    and "me_phase (st_meta st) \<noteq> Boot \<Longrightarrow> me_phase (st_meta st') \<noteq> Boot"
proof -
  have "(me_phase (st_meta st') = Boot \<longleftrightarrow> \<not> me_b5_received (st_meta st')) \<and>
    (me_phase (st_meta st) \<noteq> Boot \<longrightarrow> me_phase (st_meta st') \<noteq> Boot)"
    using assms(1)
  proof (cases rule: ingress.cases)
    case (capability_frame body timestamp now trusted next_frame)
    then show ?thesis
      using assms(2) by (cases trusted) (auto simp: process_b5_untrusted elim!: process_b5_InrD)
  next
    case (data_frame body key timestamp now fm)
    then have "me_phase (st_meta st') = (if me_phase (st_meta st) = Post_b5 \<and> key = ''rsp_0xc0'' then Steady_state
        else me_phase (st_meta st)) \<and> me_b5_received (st_meta st') = me_b5_received (st_meta st)"
      by (elim process_data_frame_effect) simp
    then show ?thesis using assms(2) by (cases "me_phase (st_meta st)") auto
  next
    case scan_end
    then show ?thesis using assms(2) finalize_InrD(2,3) [OF scan_end] by simp
  next
    case (command name v src gen ts)
    then show ?thesis using assms(2) by (simp add: write_field_session)
  qed
  then show "me_phase (st_meta st') = Boot \<longleftrightarrow> \<not> me_b5_received (st_meta st')"
    and "me_phase (st_meta st) \<noteq> Boot \<Longrightarrow> me_phase (st_meta st') \<noteq> Boot" by auto
qed

lemma not_isl_Inr: "\<not> isl r \<Longrightarrow> (\<And>x. r = Inr x \<Longrightarrow> P) \<Longrightarrow> P"
  by (cases r) simp_all

text \<open>
  The example session: one capability page that reports capability \<open>0x10\<close> as stepless, and the end
  of the boot scan.
\<close>

definition BOOTED :: status where
  "BOOTED =
     (case process_b5 (build_status ''ac'' EXAMPLE) [0xB5, 1, 0x10, 2, 1, 1, 0, 0] EXAMPLE None
             ''2026-01-01T00:00:00+00:00'' True True of
        Inr (st, _) \<Rightarrow> (case finalize_capabilities st EXAMPLE of Inr st' \<Rightarrow> st' | Inl _ \<Rightarrow> st)
      | Inl _ \<Rightarrow> build_status ''ac'' EXAMPLE)"

lemma booted:
  "me_caps_finalized (st_meta BOOTED)" "feature BOOTED ''fan_speed'' = Some ''always''"
  "me_phase (st_meta BOOTED) = Post_b5" "feature BOOTED ''power'' = Some ''always''"
  by code_simp+

subsection \<open>Properties\<close>

text \<open>Capabilities are frozen at the end of the boot scan: from then on, no sequence of capability
  frames, data frames, further scans and writes takes an available field out of the available tiers.\<close>

theorem caps_frozen:
  assumes "(ingress g)\<^sup>*\<^sup>* st st'" and "me_caps_finalized (st_meta st)" and "feature st n \<in> AVAILABLE_FA"
  shows "feature st' n \<in> AVAILABLE_FA"
proof -
  have "me_caps_finalized (st_meta st') \<and> available st' n"
    using assms by (induction rule: rtranclp_induct) (auto dest: ingress_caps_frozen)
  then show ?thesis by simp
qed

theorem caps_frozen_witness:
  "\<exists>st' next_frame. process_b5 BOOTED [0xB5, 1, 0x10, 2, 1, 0, 0, 0] EXAMPLE None ''2026-01-02T00:00:00+00:00'' True False
       = Inr (st', next_frame) \<and> feature st' ''fan_speed'' \<in> AVAILABLE_FA"
proof -
  obtain st' next_frame where b5: "process_b5 BOOTED [0xB5, 1, 0x10, 2, 1, 0, 0, 0] EXAMPLE None ''2026-01-02T00:00:00+00:00'' True False
      = Inr (st', next_frame)"
  proof -
    have "\<not> isl (process_b5 BOOTED [0xB5, 1, 0x10, 2, 1, 0, 0, 0] EXAMPLE None ''2026-01-02T00:00:00+00:00'' True False)"
      by code_simp
    then obtain x where "process_b5 BOOTED [0xB5, 1, 0x10, 2, 1, 0, 0, 0] EXAMPLE None ''2026-01-02T00:00:00+00:00'' True False = Inr x" by (rule not_isl_Inr)
    then show ?thesis using that by (cases x) blast
  qed
  have "ingress EXAMPLE BOOTED st'" by (rule frozen_step [OF booted(1) b5])
  then have "(ingress EXAMPLE)\<^sup>*\<^sup>* BOOTED st'" by (rule r_into_rtranclp)
  from caps_frozen [OF this booted(1), of "''fan_speed''"] b5 show ?thesis
    by (auto simp: booted AVAILABLE_FA_def)
qed

text \<open>A session is in the boot phase exactly until a capability frame is applied, and it never returns
  to it: in every reachable status the phase is at least \<open>Post_b5\<close> iff capabilities were received.\<close>

theorem session_phase:
  assumes "(ingress g)\<^sup>*\<^sup>* (build_status device g) st"
  shows "Post_b5 \<le> me_phase (st_meta st) \<longleftrightarrow> me_b5_received (st_meta st)"
proof -
  have "me_phase (st_meta st) = Boot \<longleftrightarrow> \<not> me_b5_received (st_meta st)"
    using assms
  proof (induction rule: rtranclp_induct)
    case base
    then show ?case by (simp add: build_status_def)
  next
    case (step st st')
    then show ?case using ingress_phase(1) by blast
  qed
  then show ?thesis by auto
qed


theorem session_phase_witness:
  "Post_b5 \<le> me_phase (st_meta BOOTED) \<longleftrightarrow> me_b5_received (st_meta BOOTED)"
proof -
  obtain st next_frame where b5: "process_b5 (build_status ''ac'' EXAMPLE) [0xB5, 1, 0x10, 2, 1, 1, 0, 0] EXAMPLE None
      ''2026-01-01T00:00:00+00:00'' True True = Inr (st, next_frame)"
  proof -
    have "\<not> isl (process_b5 (build_status ''ac'' EXAMPLE) [0xB5, 1, 0x10, 2, 1, 1, 0, 0] EXAMPLE None
      ''2026-01-01T00:00:00+00:00'' True True)"
      by code_simp
    then obtain x where "process_b5 (build_status ''ac'' EXAMPLE) [0xB5, 1, 0x10, 2, 1, 1, 0, 0] EXAMPLE None
      ''2026-01-01T00:00:00+00:00'' True True = Inr x" by (rule not_isl_Inr)
    then show ?thesis using that by (cases x) blast
  qed
  have "\<not> me_caps_finalized (st_meta (build_status ''ac'' EXAMPLE))" by (simp add: build_status_def)
  from open_step [OF this b5] have 1: "ingress EXAMPLE (build_status ''ac'' EXAMPLE) st" .
  have 2: "BOOTED = st \<or> ingress EXAMPLE st BOOTED"
    unfolding BOOTED_def b5 by (cases "finalize_capabilities st EXAMPLE") (simp_all add: scan_end)
  have "(ingress EXAMPLE)\<^sup>*\<^sup>* (build_status ''ac'' EXAMPLE) BOOTED"
    using 1 2 by (metis r_into_rtranclp rtranclp.rtrancl_into_rtrancl)
  then show ?thesis by (rule session_phase)
qed

text \<open>A data frame writes exactly the slots of its own frame key: availability, fields and the other
  keys' slots stay; a field that was decoded and is past the capability window gets the slot of the
  decoded value, rejection record aside; a field neither decoded nor rejected keeps all its slots.\<close>

theorem data_frame_writes_own_slots:
  assumes "process_data_frame st body key g timestamp now fm = Inr st'"
  shows "\<exists>decoded rejections.
    decode_frame_fields body key g (Some (st_capabilities_raw st)) fm = Inr (decoded, rejections) \<and>
    (\<forall>n. feature st' n = feature st n \<and> has_key (st_fields st') n = has_key (st_fields st) n \<and>
       (\<forall>k. k = key \<or> dget (field_sources st' n) k = dget (field_sources st n) k) \<and>
       (case dget decoded n of
          None \<Rightarrow> n \<in> rj_field ` set rejections \<or> field_sources st' n = field_sources st n
        | Some d \<Rightarrow> \<not> has_key (st_fields st) n \<or> feature st n \<in> {Some ''capability'', Some ''capability-opt''} \<or>
            (\<exists>s. dget (field_sources st' n) key = Some s \<and>
               s\<lparr>sl_rejection := None\<rparr> = data_slot (dget_or (me_frame_counts (st_meta st)) key 0 + 1)
                 (or_now timestamp now) (infer_generation key g) d)))"
proof -
  let ?slot = "data_slot (dget_or (me_frame_counts (st_meta st)) key 0 + 1) (or_now timestamp now) (infer_generation key g)"
  obtain decoded rejections where
    d: "decode_frame_fields body key g (Some (st_capabilities_raw st)) fm = Inr (decoded, rejections)"
    and f: "\<And>n. feature st' n = feature st n" "\<And>n. has_key (st_fields st') n = has_key (st_fields st) n"
    and s: "\<And>n. \<exists>mid. rejection_only key mid (field_sources st' n) \<and>
      (n \<notin> rj_field ` set rejections \<longrightarrow> field_sources st' n = mid) \<and>
      mid = (case dget decoded n of None \<Rightarrow> field_sources st n
        | Some d \<Rightarrow> if has_key (st_fields st) n \<and> \<not> pre_b5 (feature st n)
            then dset key (?slot d) (field_sources st n) else field_sources st n)"
    using assms by (elim process_data_frame_effect) blast
  have other: "dget ys k = dget xs k" if "rejection_only key xs ys" "k \<noteq> key" for xs ys k
    using that by (auto simp: rejection_only_def)
  have own: "\<exists>s. dget ys key = Some s \<and> s\<lparr>sl_rejection := None\<rparr> = s0"
    if "rejection_only key (dset key s0 xs) ys" "sl_rejection s0 = None" for xs ys and s0 :: slot
    using that by (auto simp: rejection_only_def)
  show ?thesis
  proof (intro exI [of _ decoded] exI [of _ rejections] conjI allI d f)
    fix n k
    from s [of n] obtain mid where m: "rejection_only key mid (field_sources st' n)"
        "n \<notin> rj_field ` set rejections \<longrightarrow> field_sources st' n = mid"
        "mid = (case dget decoded n of None \<Rightarrow> field_sources st n
          | Some d \<Rightarrow> if has_key (st_fields st) n \<and> \<not> pre_b5 (feature st n)
            then dset key (?slot d) (field_sources st n) else field_sources st n)" by blast
    have "k = key \<or> dget mid k = dget (field_sources st n) k"
      unfolding m(3) by (cases "dget decoded n") auto
    then show "k = key \<or> dget (field_sources st' n) k = dget (field_sources st n) k"
      using other [OF m(1)] by metis
    show "case dget decoded n of
          None \<Rightarrow> n \<in> rj_field ` set rejections \<or> field_sources st' n = field_sources st n
        | Some d \<Rightarrow> \<not> has_key (st_fields st) n \<or> feature st n \<in> {Some ''capability'', Some ''capability-opt''} \<or>
            (\<exists>s. dget (field_sources st' n) key = Some s \<and> s\<lparr>sl_rejection := None\<rparr> = ?slot d)"
    proof (cases "dget decoded n")
      case None
      then show ?thesis using m(2,3) by auto
    next
      case (Some d)
      show ?thesis
      proof (cases "has_key (st_fields st) n \<and> \<not> pre_b5 (feature st n)")
        case True
        then have "mid = dset key (?slot d) (field_sources st n)" using m(3) Some by simp
        with m(1) show ?thesis using own Some by (simp add: data_slot_def)
      next
        case False
        then show ?thesis using Some by (auto simp: pre_b5_def)
      qed
    qed
  qed
qed


text \<open>A status response of the example device: power on, cool, 24 degrees.\<close>

abbreviation EXAMPLE_C0 :: bytes where
  "EXAMPLE_C0 \<equiv> [0xC0, 1, 0x48, 40]"

lemma example_frame:
  obtains st' where "process_data_frame EXAMPLE_STATUS EXAMPLE_C0 ''rsp_0xc0'' EXAMPLE (Some ''2026-01-03T00:00:00+00:00'') [] None = Inr st'"
proof -
  have "\<not> isl (process_data_frame EXAMPLE_STATUS EXAMPLE_C0 ''rsp_0xc0'' EXAMPLE (Some ''2026-01-03T00:00:00+00:00'') [] None)"
    by code_simp
  then show ?thesis by (rule not_isl_Inr) (rule that)
qed

lemma example_decoded:
  "decode_frame_fields EXAMPLE_C0 ''rsp_0xc0'' EXAMPLE (Some (st_capabilities_raw EXAMPLE_STATUS)) None =
     Inr ([(''power'', Value (PBool True)), (''target_temperature'', Value (PInt 24)), (''fan_speed'', Value (PInt 40))], [])"
  by code_simp

theorem data_frame_writes_own_slots_witness:
  "\<exists>st' s. process_data_frame EXAMPLE_STATUS EXAMPLE_C0 ''rsp_0xc0'' EXAMPLE (Some ''2026-01-03T00:00:00+00:00'') [] None = Inr st' \<and>
     dget (field_sources st' ''power'') ''rsp_0xc0'' = Some s \<and> sl_value s = PBool True \<and>
     field_sources st' ''humidity'' = field_sources EXAMPLE_STATUS ''humidity''"
proof -
  obtain st' where p: "process_data_frame EXAMPLE_STATUS EXAMPLE_C0 ''rsp_0xc0'' EXAMPLE (Some ''2026-01-03T00:00:00+00:00'') [] None = Inr st'"
    by (rule example_frame)
  have "has_key (st_fields EXAMPLE_STATUS) ''power''" "feature EXAMPLE_STATUS ''power'' = Some ''always''"
    by code_simp+
  note fld = this
  obtain dc rj where
    d: "decode_frame_fields EXAMPLE_C0 ''rsp_0xc0'' EXAMPLE (Some (st_capabilities_raw EXAMPLE_STATUS)) None = Inr (dc, rj)"
    and e: "\<forall>n. feature st' n = feature EXAMPLE_STATUS n \<and> has_key (st_fields st') n = has_key (st_fields EXAMPLE_STATUS) n \<and>
       (\<forall>k. k = ''rsp_0xc0'' \<or> dget (field_sources st' n) k = dget (field_sources EXAMPLE_STATUS n) k) \<and>
       (case dget dc n of
          None \<Rightarrow> n \<in> rj_field ` set rj \<or> field_sources st' n = field_sources EXAMPLE_STATUS n
        | Some d \<Rightarrow> \<not> has_key (st_fields EXAMPLE_STATUS) n \<or>
            feature EXAMPLE_STATUS n \<in> {Some ''capability'', Some ''capability-opt''} \<or>
            (\<exists>s. dget (field_sources st' n) ''rsp_0xc0'' = Some s \<and>
               s\<lparr>sl_rejection := None\<rparr> = data_slot (dget_or (me_frame_counts (st_meta EXAMPLE_STATUS)) ''rsp_0xc0'' 0 + 1)
                 (or_now (Some ''2026-01-03T00:00:00+00:00'') []) (infer_generation ''rsp_0xc0'' EXAMPLE) d))"
    using data_frame_writes_own_slots [OF p] by blast
  have dc: "dget dc ''power'' = Some (Value (PBool True))" "dget dc ''humidity'' = None" "rj = []"
    using d example_decoded by auto
  from e [rule_format, of "''power''"] dc(1) fld obtain s where
    s: "dget (field_sources st' ''power'') ''rsp_0xc0'' = Some s"
    "s\<lparr>sl_rejection := None\<rparr> = data_slot (dget_or (me_frame_counts (st_meta EXAMPLE_STATUS)) ''rsp_0xc0'' 0 + 1)
       (or_now (Some ''2026-01-03T00:00:00+00:00'') []) (infer_generation ''rsp_0xc0'' EXAMPLE) (Value (PBool True))"
    by auto
  have "sl_value s = PBool True" using arg_cong [OF s(2), of sl_value] by (simp add: data_slot_def)
  moreover have "field_sources st' ''humidity'' = field_sources EXAMPLE_STATUS ''humidity''"
    using e [rule_format, of "''humidity''"] dc(2,3) by simp
  ultimately show ?thesis using p s(1) by blast
qed

text \<open>C3: the device's answer supersedes an optimistic write: after a data frame with a timestamp that is
  newer than every stamped slot of a decoded field, the field reads as the decoded value (\<open>None\<close> for a
  suppressed one), whatever slots it held.  The field's availability is decided (not \<open>capability\<close> or
  \<open>capability-opt\<close>: such a field is skipped until its capability has arrived) and its priority list
  begins with \<open>protocol_all\<close>, as the default one does.\<close>

theorem device_answer_wins:
  assumes "process_data_frame st body key g (Some ts) now fm = Inr st'"
    and "decode_frame_fields body key g (Some (st_capabilities_raw st)) fm = Inr (decoded, rejections)"
    and "dget decoded n = Some d" and "dget (st_fields st) n = Some sf"
    and "feature st n \<notin> {Some ''capability'', Some ''capability-opt''}"
    and "hd (effective_priority sf None) = ''protocol_all''"
    and "ts \<noteq> []" and "distinct (dkeys (sf_sources sf))"
    and "\<forall>(k, s) \<in> set (sf_sources sf). stamped s \<longrightarrow> ts_of s < ts"
  shows "read_value st' n = decoded_value d"
proof -
  let ?s0 = "data_slot (dget_or (me_frame_counts (st_meta st)) key 0 + 1) (or_now (Some ts) now) (infer_generation key g) d"
  have hk: "has_key (st_fields st) n" and src: "field_sources st n = sf_sources sf"
    using assms(4) by (simp_all add: has_key_def field_sources_def)
  have ts: "or_now (Some ts) now = ts" using assms(7) by (cases ts) (simp_all add: or_now_def)
  obtain sf' where sf': "dget (st_fields st') n = Some sf'" "sf'\<lparr>sf_sources := []\<rparr> = sf\<lparr>sf_sources := []\<rparr>"
    and only: "rejection_only key (dset key ?s0 (sf_sources sf)) (sf_sources sf')"
  proof -
    obtain dc rj where d: "decode_frame_fields body key g (Some (st_capabilities_raw st)) fm = Inr (dc, rj)"
      and h: "\<And>n. has_key (st_fields st') n = has_key (st_fields st) n"
      and f: "\<And>n sf'. dget (st_fields st') n = Some sf' \<Longrightarrow>
        \<exists>sf. dget (st_fields st) n = Some sf \<and> sf'\<lparr>sf_sources := []\<rparr> = sf\<lparr>sf_sources := []\<rparr>"
      and s: "\<And>n. \<exists>mid. rejection_only key mid (field_sources st' n) \<and>
        (n \<notin> rj_field ` set rj \<longrightarrow> field_sources st' n = mid) \<and>
        mid = (case dget dc n of None \<Rightarrow> field_sources st n
          | Some d \<Rightarrow> if has_key (st_fields st) n \<and> \<not> pre_b5 (feature st n)
              then dset key (data_slot (dget_or (me_frame_counts (st_meta st)) key 0 + 1) (or_now (Some ts) now)
                     (infer_generation key g) d) (field_sources st n) else field_sources st n)"
      using assms(1) by (elim process_data_frame_effect) blast
    obtain sf' where g': "dget (st_fields st') n = Some sf'" using h [of n] hk by (auto simp: has_key_def)
    moreover have "sf'\<lparr>sf_sources := []\<rparr> = sf\<lparr>sf_sources := []\<rparr>" using f [OF g'] assms(4) by auto
    moreover have "rejection_only key (dset key ?s0 (sf_sources sf)) (sf_sources sf')"
      using s [of n] d assms(2,3,5) hk src g' by (auto simp: pre_b5_def field_sources_def)
    ultimately show ?thesis by (rule that)
  qed
  obtain s where s: "sf_sources sf' = dset key s (sf_sources sf)" "sl_ts s = Some ts" "sl_value s = decoded_value d"
    using only ts by (auto simp: rejection_only_def data_slot_def)
  have "newest (sf_sources sf') = Some (key, s)"
    unfolding s(1) using assms(7,8,9) s(2) by (intro newest_dset_fresh) (auto simp: stamped_def)
  moreover have "effective_priority sf' None = effective_priority sf None"
    using arg_cong [OF sf'(2), of sf_default_priority] by (simp add: effective_priority_def)
  moreover obtain q qs where "effective_priority sf None = q # qs"
    using effective_priority_ne [of sf] by (cases "effective_priority sf None") auto
  moreover have "sf_sources sf' \<noteq> []" using s(1) by (auto simp: newest_def dest: arg_cong [of _ _ length])
  ultimately show ?thesis
    using sf'(1) assms(6) s(3) by (simp add: read_value_def read_field_def slots_in_scope_def)
qed

theorem device_answer_wins_witness:
  "\<exists>st'. process_data_frame EXAMPLE_STATUS EXAMPLE_C0 ''rsp_0xc0'' EXAMPLE (Some ''2026-01-03T00:00:00+00:00'') [] None = Inr st' \<and>
     read_value EXAMPLE_STATUS ''power'' = PBool False \<and> read_value st' ''power'' = PBool True"
proof -
  obtain st' where p: "process_data_frame EXAMPLE_STATUS EXAMPLE_C0 ''rsp_0xc0'' EXAMPLE (Some ''2026-01-03T00:00:00+00:00'') [] None = Inr st'"
    by (rule example_frame)
  obtain sf where sf: "dget (st_fields EXAMPLE_STATUS) ''power'' = Some sf"
      "hd (effective_priority sf None) = ''protocol_all''" "distinct (dkeys (sf_sources sf))"
      "\<forall>(k, s) \<in> set (sf_sources sf). stamped s \<longrightarrow> ts_of s < ''2026-01-03T00:00:00+00:00''"
  proof -
    have "case dget (st_fields EXAMPLE_STATUS) ''power'' of None \<Rightarrow> False | Some sf \<Rightarrow>
        hd (effective_priority sf None) = ''protocol_all'' \<and> distinct (dkeys (sf_sources sf)) \<and>
        (\<forall>(k, s) \<in> set (sf_sources sf). stamped s \<longrightarrow> ts_of s < ''2026-01-03T00:00:00+00:00'')"
      by code_simp
    then show ?thesis using that by (auto split: option.split_asm)
  qed
  have "feature EXAMPLE_STATUS ''power'' = Some ''always''" "read_value EXAMPLE_STATUS ''power'' = PBool False"
    by code_simp+
  then show ?thesis
    using device_answer_wins [OF p example_decoded _ sf(1)] sf p by simp
qed


text \<open>The end of the boot scan excludes exactly the fields still waiting for a capability that no page
  reported; every other field, and everything else of the waiting ones, is left as it was.\<close>

definition unreported :: "glossary \<Rightarrow> status \<Rightarrow> string \<Rightarrow> bool" where
  "unreported g st name \<longleftrightarrow>
     (\<exists>fdef cap i. dget (walk_fields g) name = Some fdef \<and> fd_capability fdef = Some cap \<and> cap_id cap = Some i \<and>
        lower i \<noteq> [] \<and> (\<forall>r \<in> set (st_capabilities_raw st). lower (cr_cap_id r) \<noteq> lower i))"

theorem finalize_excludes_unreported:
  assumes "finalize_capabilities st g = Inr st'" and "dget (st_fields st) n = Some sf"
  shows "dget (st_fields st') n =
    Some (if sf_feature_available sf \<in> {Some ''capability'', Some ''capability-opt''} \<and> unreported g st n
          then sf\<lparr>sf_feature_available := Some ''excluded''\<rparr> else sf) \<and>
    me_caps_finalized (st_meta st')"
proof -
  let ?ids = "map (lower \<circ> cr_cap_id) (st_capabilities_raw st)"
  obtain sf' where sf': "dget (st_fields st') n = Some sf'" "finalize_field (walk_fields g) ?ids (n, sf) = Inr (n, sf')"
    using finalize_InrD(1) [OF assms(1), of n] assms(2) by auto
  let ?cap = "case dget (walk_fields g) n of None \<Rightarrow> None | Some fdef \<Rightarrow> fd_capability fdef"
  let ?cid = "case ?cap of None \<Rightarrow> [] | Some c \<Rightarrow> (case cap_id c of None \<Rightarrow> [] | Some i \<Rightarrow> lower i)"
  have unrep: "unreported g st n \<longleftrightarrow> ?cid \<noteq> [] \<and> ?cid \<notin> set ?ids"
    by (cases "dget (walk_fields g) n"; cases ?cap) (auto simp: unreported_def split: option.split, metis image_eqI)
  obtain fa where fa: "sf_feature_available sf = Some fa"
    using sf'(2) by (cases "sf_feature_available sf") (simp_all add: finalize_field_def)
  define cid where "cid = ?cid"
  have "finalize_field (walk_fields g) ?ids (n, sf) = Inr (n,
      if (fa = ''capability'' \<or> fa = ''capability-opt'') \<and> cid \<noteq> [] \<and> cid \<notin> set ?ids
      then sf\<lparr>sf_feature_available := Some ''excluded''\<rparr> else sf)"
    using fa by (simp add: finalize_field_def Let_def flip: cid_def)
  then have "sf' = (if (fa = ''capability'' \<or> fa = ''capability-opt'') \<and> cid \<noteq> [] \<and> cid \<notin> set ?ids
      then sf\<lparr>sf_feature_available := Some ''excluded''\<rparr> else sf)"
    using sf'(2) by simp
  then show ?thesis using sf'(1) fa unrep [folded cid_def] finalize_InrD(4) [OF assms(1)] by simp
qed

theorem finalize_excludes_unreported_witness:
  "\<exists>st'. finalize_capabilities (build_status ''ac'' EXAMPLE) EXAMPLE = Inr st' \<and>
     feature st' ''fan_speed'' = Some ''excluded''"
proof -
  have "\<not> isl (finalize_capabilities (build_status ''ac'' EXAMPLE) EXAMPLE)" by code_simp
  then obtain st' where st': "finalize_capabilities (build_status ''ac'' EXAMPLE) EXAMPLE = Inr st'"
    by (rule not_isl_Inr)
  obtain fdef where f: "dget (walk_fields EXAMPLE) ''fan_speed'' = Some fdef"
      "fd_capability fdef = Some CAP_FAN" "fd_feature_available fdef = Some ''capability''"
  proof -
    have "case dget (walk_fields EXAMPLE) ''fan_speed'' of None \<Rightarrow> False
      | Some fdef \<Rightarrow> fd_capability fdef = Some CAP_FAN \<and> fd_feature_available fdef = Some ''capability''"
      by (simp add: EXAMPLE_def walk_fields_def visited_fields_def category_fields_def EXAMPLE_FIELDS_def field_of_type_def)
    then show ?thesis using that by (auto split: option.split_asm)
  qed
  have u: "unreported EXAMPLE (build_status ''ac'' EXAMPLE) ''fan_speed''"
    using f by (simp add: unreported_def CAP_FAN_def build_status_def lower_def)
  have "dget (st_fields (build_status ''ac'' EXAMPLE)) ''fan_speed'' = Some (initial_field fdef)"
    by (simp add: build_status_lookup f(1))
  from finalize_excludes_unreported [OF st' this] u f(3) st' show ?thesis
    by (simp add: feature_def initial_field_def)
qed

text \<open>A blocked demotion changes nothing but its counter: after the boot scan, a capability value that
  would move an available field out of the available tiers leaves the availability and the constraint
  envelope of every field as they were.\<close>

theorem blocked_demotion_only_counts:
  assumes "feature st n \<in> AVAILABLE_FA"
    and "ec_feature_available (decode_enum_cap cap (case data of [] \<Rightarrow> None | b # _ \<Rightarrow> Some (uint b))) = Some fa"
    and "fa \<noteq> []" and "Some fa \<notin> AVAILABLE_FA"
  shows "apply_enum_cap False False cap data n st = bump ''cap_demotions_blocked'' 1 st"
  using assms by (cases fa) (simp_all add: apply_enum_cap_def is_cap_demotion_def Let_def)

theorem blocked_demotion_only_counts_witness:
  "apply_enum_cap False False CAP_FAN [0] ''fan_speed'' BOOTED = bump ''cap_demotions_blocked'' 1 BOOTED"
  by (rule blocked_demotion_only_counts [where fa = "''excluded''"])
    (simp_all add: booted AVAILABLE_FA_def CAP_FAN_def decode_enum_cap_def)

end
