(* ===== verification/Clock.thy ===== *)
theory Clock
  imports Py_Prelude "HOL-Library.List_Lexorder" "HOL-Library.Char_ord"
begin

section \<open>Timestamps (\<open>datetime.now(UTC).isoformat()\<close>, \<open>datetime.fromisoformat\<close>)\<close>

text \<open>
  The components stamp what they store with \<open>datetime.now(UTC).isoformat()\<close>, compare the strings
  lexicographically (\<open>query.py\<close>) and read them back to compute ages (\<open>command.py\<close>).  Here are the
  format, which leaves the fraction out when it is zero; the reader, for strings in that format with
  any UTC offset; and the fact the comparison of strings rests on: it is the comparison of times.
\<close>

record moment =
  mo_year :: nat
  mo_month :: nat
  mo_day :: nat
  mo_hour :: nat
  mo_minute :: nat
  mo_second :: nat
  mo_micro :: nat

definition digit :: "nat \<Rightarrow> char" where
  "digit n = char_of (48 + n mod 10)"

fun pad :: "nat \<Rightarrow> nat \<Rightarrow> string" where  \<comment> \<open>\<open>f"{n:0{w}d}"\<close>\<close>
  "pad 0 n = []"
| "pad (Suc w) n = pad w (n div 10) @ [digit n]"

definition isoformat :: "moment \<Rightarrow> string" where
  "isoformat t =
     pad 4 (mo_year t) @ ''-'' @ pad 2 (mo_month t) @ ''-'' @ pad 2 (mo_day t) @ ''T'' @
     pad 2 (mo_hour t) @ '':'' @ pad 2 (mo_minute t) @ '':'' @ pad 2 (mo_second t) @
     (if mo_micro t = 0 then [] else ''.'' @ pad 6 (mo_micro t)) @ ''+00:00''"

subsection \<open>Reading\<close>

definition digits :: "string \<Rightarrow> int option" where
  "digits s =
     (if s \<noteq> [] \<and> list_all (\<lambda>c. digit_val c \<noteq> None) s
      then Some (foldl (\<lambda>acc c. 10 * acc + int (the (digit_val c))) 0 s) else None)"

text \<open>Days since 1970-01-01 of a date of the Gregorian calendar.\<close>

definition days_from_civil :: "int \<Rightarrow> int \<Rightarrow> int \<Rightarrow> int" where
  "days_from_civil y m d =
     (let y' = (if m \<le> 2 then y - 1 else y);
          era = y' div 400;
          yoe = y' - era * 400;
          doy = (153 * (m + (if m > 2 then -3 else 9)) + 2) div 5 + d - 1;
          doe = yoe * 365 + yoe div 4 - yoe div 100 + doy
      in era * 146097 + doe - 719468)"

definition month_days :: "int \<Rightarrow> int \<Rightarrow> int" where
  "month_days y m =
     (if m = 2 then (if y mod 4 = 0 \<and> (y mod 100 \<noteq> 0 \<or> y mod 400 = 0) then 29 else 28)
      else if m \<in> {4, 6, 9, 11} then 30 else 31)"

text \<open>The UTC offset: absent (a naive time), \<open>Z\<close>, or a sign with hours and minutes.\<close>

datatype zone = Naive | Offset int

definition read_zone :: "string \<Rightarrow> zone option" where
  "read_zone s =
     (if s = [] then Some Naive
      else if s = ''Z'' then Some (Offset 0)
      else if length s = 6 \<and> (s ! 0 = CHR ''+'' \<or> s ! 0 = CHR ''-'') \<and> s ! 3 = CHR '':'' then
        (case (digits (slice 1 3 s), digits (slice 4 6 s)) of
           (Some h, Some m) \<Rightarrow>
             (if h < 24 \<and> m < 60
              then Some (Offset ((if s ! 0 = CHR ''-'' then -1 else 1) * (h * 3600 + m * 60))) else None)
         | _ \<Rightarrow> None)
      else None)"

definition read_fraction :: "string \<Rightarrow> (rat \<times> string) option" where
  \<comment> \<open>an optional \<open>.ddd\<close> or \<open>.dddddd\<close> and the rest\<close>
  "read_fraction s =
     (case s of
        c # r \<Rightarrow>
          (if c = CHR ''.'' then
             let ds = takeWhile (\<lambda>c. digit_val c \<noteq> None) r
             in if length ds = 3 \<or> length ds = 6
                then map_option (\<lambda>n. (of_int n / 10 ^ length ds, drop (length ds) r)) (digits ds)
                else None
           else Some (0, s))
      | [] \<Rightarrow> Some (0, []))"

definition read_date :: "string \<Rightarrow> int option" where
  "read_date s =
     (if length s < 10 \<or> s ! 4 \<noteq> CHR ''-'' \<or> s ! 7 \<noteq> CHR ''-'' then None
      else case (digits (slice 0 4 s), digits (slice 5 7 s), digits (slice 8 10 s)) of
             (Some y, Some m, Some d) \<Rightarrow>
               (if 1 \<le> y \<and> 1 \<le> m \<and> m \<le> 12 \<and> 1 \<le> d \<and> d \<le> month_days y m then Some (days_from_civil y m d) else None)
           | _ \<Rightarrow> None)"

definition read_time :: "string \<Rightarrow> int option" where
  "read_time s =
     (if length s < 8 \<or> s ! 2 \<noteq> CHR '':'' \<or> s ! 5 \<noteq> CHR '':'' then None
      else case (digits (slice 0 2 s), digits (slice 3 5 s), digits (slice 6 8 s)) of
             (Some h, Some m, Some sec) \<Rightarrow>
               (if h < 24 \<and> m < 60 \<and> sec < 60 then Some (h * 3600 + m * 60 + sec) else None)
           | _ \<Rightarrow> None)"

text \<open>
  \<open>fromisoformat\<close>: the seconds since the epoch, and whether the time is aware.  Strings in another
  spelling of ISO 8601 are malformed for the model; the program only reads what \<open>isoformat\<close> wrote.
\<close>

definition fromisoformat :: "string \<Rightarrow> (rat \<times> bool) option" where
  "fromisoformat s =
     (if length s < 19 then None
      else case (read_date s, read_time (drop 11 s), read_fraction (drop 19 s)) of
             (Some d, Some t, Some (fr, rest)) \<Rightarrow>
               (case read_zone rest of
                  None \<Rightarrow> None
                | Some Naive \<Rightarrow> Some (of_int (d * 86400 + t) + fr, False)
                | Some (Offset off) \<Rightarrow> Some (of_int (d * 86400 + t - off) + fr, True))
           | _ \<Rightarrow> None)"

lemma fromisoformat_examples:
  "fromisoformat ''1970-01-01T00:00:00+00:00'' = Some (0, True)"
  "fromisoformat ''2026-01-01T00:00:30.500000+00:00'' = Some (1767225630 + 1/2, True)"
  "fromisoformat ''2024-02-29T12:00:00+01:00'' = Some (1709204400, True)"
  "fromisoformat ''2023-02-29T12:00:00+00:00'' = None"
  by code_simp+

subsection \<open>The order of the strings is the order of the times\<close>

lemma less_append_same_length:
  fixes xs ys :: "'a :: linorder list"
  shows "length xs = length ys \<Longrightarrow> xs @ us < ys @ vs \<longleftrightarrow> xs < ys \<or> xs = ys \<and> us < vs"
  by (induction xs ys rule: list_induct2) auto

lemma length_pad [simp]: "length (pad w n) = w"
  by (induction w arbitrary: n) simp_all

lemma digit_less [simp]: "digit m < digit n \<longleftrightarrow> m mod 10 < n mod 10"
proof -
  have "48 + k mod 10 < 256" for k :: nat
    using mod_less_divisor [of 10 k] by linarith
  then show ?thesis by (simp add: digit_def less_char_def)
qed

lemma digit_eq [simp]: "digit m = digit n \<longleftrightarrow> m mod 10 = n mod 10"
  using digit_less [of m n] digit_less [of n m] by (metis nat_neq_iff order_less_irrefl digit_def)

lemma nat_eq_ten: "m = n \<longleftrightarrow> m div 10 = n div 10 \<and> m mod 10 = n mod (10 :: nat)"
  by (metis div_mult_mod_eq)

lemma nat_less_ten: "m < n \<longleftrightarrow> m div 10 < n div 10 \<or> m div 10 = n div 10 \<and> m mod 10 < n mod (10 :: nat)"
proof -
  have "m = m div 10 * 10 + m mod 10" "n = n div 10 * 10 + n mod 10" "m mod 10 < 10" "n mod 10 < 10"
    by simp_all
  then show ?thesis by linarith
qed

lemma pad_inj: "m < 10 ^ w \<Longrightarrow> n < 10 ^ w \<Longrightarrow> pad w m = pad w n \<longleftrightarrow> m = n"
proof (induction w arbitrary: m n)
  case 0
  then show ?case by simp
next
  case (Suc w)
  have "m div 10 < 10 ^ w" "n div 10 < 10 ^ w" using Suc.prems by (simp_all add: less_mult_imp_div_less mult.commute)
  note ih = Suc.IH [OF this]
  then show ?case using nat_eq_ten [of m n] by simp
qed

lemma pad_less: "m < 10 ^ w \<Longrightarrow> n < 10 ^ w \<Longrightarrow> pad w m < pad w n \<longleftrightarrow> m < n"
proof (induction w arbitrary: m n)
  case 0
  then show ?case by simp
next
  case (Suc w)
  have b: "m div 10 < 10 ^ w" "n div 10 < 10 ^ w" using Suc.prems by (simp_all add: less_mult_imp_div_less mult.commute)
  show ?case
    using Suc.IH [OF b] pad_inj [OF b] nat_less_ten [of m n] by (simp add: less_append_same_length)
qed

text \<open>A well-formed moment, and the chronological order.\<close>

definition wf_moment :: "moment \<Rightarrow> bool" where
  "wf_moment t \<longleftrightarrow> mo_year t < 10000 \<and> mo_month t < 100 \<and> mo_day t < 100 \<and> mo_hour t < 100 \<and>
     mo_minute t < 100 \<and> mo_second t < 100 \<and> mo_micro t < 1000000"

definition moment_parts :: "moment \<Rightarrow> nat list" where
  "moment_parts t = [mo_year t, mo_month t, mo_day t, mo_hour t, mo_minute t, mo_second t, mo_micro t]"

definition earlier :: "moment \<Rightarrow> moment \<Rightarrow> bool" where
  "earlier s t \<longleftrightarrow> moment_parts s < moment_parts t"

lemma fraction_less:
  assumes "m < 1000000" and "n < 1000000"
  shows "(if m = 0 then [] else ''.'' @ pad 6 m) @ ''+00:00'' < (if n = 0 then [] else ''.'' @ pad 6 n) @ ''+00:00'' \<longleftrightarrow> m < n"
  using assms pad_less [of m 6 n] pad_inj [of m 6 n]
  by (auto simp: less_append_same_length less_char_def)

lemma field_less:
  "m < 10 ^ w \<Longrightarrow> n < 10 ^ w \<Longrightarrow> pad w m @ c # us < pad w n @ c # vs \<longleftrightarrow> m < n \<or> m = n \<and> us < vs"
  by (simp add: less_append_same_length pad_less pad_inj)

lemma isoformat_less:
  assumes "wf_moment s" and "wf_moment t"
  shows "isoformat s < isoformat t \<longleftrightarrow> earlier s t"
  using assms
  by (simp add: isoformat_def earlier_def moment_parts_def wf_moment_def field_less
      fraction_less [of "mo_micro s" "mo_micro t"] less_append_same_length pad_less pad_inj)

end
