(* ===== verification/Hex.thy ===== *)
theory Hex
  imports Py_Prelude
begin

section \<open>Hexadecimal text\<close>

text \<open>
  The two library functions the components exchange frames with: \<open>bytes.fromhex\<close>, which allows white
  space between bytes, and \<open>hex(" ")\<close>.  What is printed reads back.
\<close>

definition hex_val :: "char \<Rightarrow> int option" where
  "hex_val c =
     (let n = (of_char (lower_char c) :: int)
      in if 48 \<le> n \<and> n \<le> 57 then Some (n - 48) else if 97 \<le> n \<and> n \<le> 102 then Some (n - 87) else None)"

fun fromhex :: "string \<Rightarrow> bytes res" where  \<comment> \<open>\<open>bytes.fromhex\<close>\<close>
  "fromhex [] = Inr []"
| "fromhex (c # s) =
     (if is_space c then fromhex s
      else case s of
             [] \<Rightarrow> Inl ValueError
           | d # s' \<Rightarrow>
               (case (hex_val c, hex_val d) of
                  (Some h, Some l) \<Rightarrow> bind_res (fromhex s') (\<lambda>bs. Inr (word_of_int (16 * h + l) # bs))
                | _ \<Rightarrow> Inl ValueError))"

definition hex_spaced :: "bytes \<Rightarrow> string" where  \<comment> \<open>\<open>frame.hex(" ")\<close>\<close>
  "hex_spaced bs = concat (map (\<lambda>(i, b). (if i = 0 then [] else '' '') @ lower (hex2 b)) (enumerate 0 bs))"

lemma hex_val_digit: "n < 16 \<Longrightarrow> hex_val (lower_char (hex_digit n)) = Some (int n)"
proof -
  assume "n < 16"
  moreover have "{..<16} = {0, 1, 2, 3, 4, 5, 6, 7, 8, 9, 10, 11, 12, 13, 14, 15 :: nat}" by code_simp
  ultimately have "n \<in> {0, 1, 2, 3, 4, 5, 6, 7, 8, 9, 10, 11, 12, 13, 14, 15}" by blast
  then show ?thesis
    by (elim insertE emptyE) (simp_all add: hex_val_def hex_digit_def lower_char_def Let_def of_nat_of_char [symmetric, where ?'a = int])
qed

lemma hex_digit_not_space: "n < 16 \<Longrightarrow> \<not> is_space (lower_char (hex_digit n)) \<and> lower_char (hex_digit n) \<noteq> CHR '' ''"
proof -
  have "list_all (\<lambda>n. \<not> is_space (lower_char (hex_digit n)) \<and> lower_char (hex_digit n) \<noteq> CHR '' '') [0..<16]" by code_simp
  then show "n < 16 \<Longrightarrow> ?thesis" by (simp add: list_all_iff)
qed

lemma fromhex_byte: "fromhex (lower (hex2 b) @ s) = bind_res (fromhex s) (\<lambda>bs. Inr (b # bs))"
proof -
  have 1: "unat b div 16 < 16" "unat b mod 16 < 16" using unat_byte_bound [of b] by (simp_all add: less_mult_imp_div_less del: unat_byte_bound)
  have "(word_of_int (16 * int (unat b div 16) + int (unat b mod 16)) :: byte) = word_of_int (int (unat b))"
    by (metis mult_div_mod_eq of_nat_add of_nat_mult of_nat_numeral)
  then show ?thesis
    using hex_val_digit [OF 1(1)] hex_val_digit [OF 1(2)] hex_digit_not_space [OF 1(1)]
    by (simp add: hex2_def lower_def)
qed

lemma filter_hex2: "filter (\<lambda>c. c \<noteq> CHR '' '') (lower (hex2 b)) = lower (hex2 b)"
proof -
  have "unat b div 16 < 16" "unat b mod 16 < 16" using unat_byte_bound [of b] by (simp_all add: less_mult_imp_div_less del: unat_byte_bound)
  then show ?thesis using hex_digit_not_space by (simp add: hex2_def lower_def)
qed

lemma filter_hex_spaced:
  "filter (\<lambda>c. c \<noteq> CHR '' '') (concat (map (\<lambda>(i, b). (if i = 0 then [] else '' '') @ lower (hex2 b)) (enumerate n bs))) =
     concat (map (\<lambda>b. lower (hex2 b)) bs)"
  by (induction bs arbitrary: n) (simp_all add: filter_hex2)

lemma fromhex_hex: "fromhex (filter (\<lambda>c. c \<noteq> CHR '' '') (hex_spaced bs)) = Inr bs"
proof -
  have "fromhex (concat (map (\<lambda>b. lower (hex2 b)) bs)) = Inr bs" by (induction bs) (simp_all add: fromhex_byte)
  then show ?thesis by (simp add: hex_spaced_def filter_hex_spaced)
qed

end
