(* ===== verification/Command.thy ===== *)
theory Command
  imports Query Gating Clock Hex
begin

section \<open>Building set commands (\<open>blaueis/core/command.py\<close>)\<close>

text \<open>
  A \<open>0x40\<close> set frame packs many fields into shared bytes, and a \<open>0xB0\<close> property record may hold
  several fields, so a command rewrites the siblings of what it changes.  \<open>set_command_preflight\<close>
  demands a recent observation of every sibling; \<open>build_command_body\<close> and
  \<open>build_b0_command_body\<close> then encode every field of the map: the change, the glossary default, the
  current value, or the zero of the type, with fields hidden in the effective mode forced to a safe
  value.  The glossary is an argument; times are seconds since the epoch.

  Lemmas: the preflight is empty exactly when every sibling that counts was read within the
  threshold; the body carries the value chosen for each field; a property command is the list of
  its records, one per property with a change.
\<close>

subsection \<open>Where a field lives\<close>

definition effective_operating_mode :: "status \<Rightarrow> (string, pyval) dict \<Rightarrow> pyval" where
  "effective_operating_mode st changes =
     (case dget changes ''operating_mode'' of
        Some v \<Rightarrow> v
      | None \<Rightarrow> read_value st ''operating_mode'')"

text \<open>The key of a sibling group: a byte of the body, or a property.\<close>

datatype place = Body nat | Prop string

type_synonym groups = "(place, string list) dict"

definition group_by :: "(decode_step \<Rightarrow> place option) \<Rightarrow> field_entry list \<Rightarrow> groups" where
  "group_by key fm =
     fold (\<lambda>fe groups.
        case fe_decode fe of
          [] \<Rightarrow> groups
        | s # _ \<Rightarrow>
            (case key s of
               None \<Rightarrow> groups
             | Some p \<Rightarrow> dset p (dget_or groups p [] @ [fe_name fe]) groups)) fm []"

definition body_place :: "decode_step \<Rightarrow> place option" where
  "body_place s = map_option Body (ds_offset s)"

definition prop_place :: "decode_step \<Rightarrow> place option" where
  "prop_place s = (case ds_property_id s of Some (c # cs) \<Rightarrow> Some (Prop (c # cs)) | _ \<Rightarrow> None)"

definition group_cmd_fields_by_byte :: "field_entry list \<Rightarrow> groups" where
  "group_cmd_fields_by_byte fm = group_by body_place fm"

definition group_cmd_fields_by_property :: "field_entry list \<Rightarrow> groups" where
  "group_cmd_fields_by_property fm = group_by prop_place fm"

subsection \<open>The preflight check\<close>

definition by_name :: "field_entry list \<Rightarrow> string \<Rightarrow> field_entry option" where
  \<comment> \<open>\<open>{f["name"]: f for f in field_map}\<close>, the last entry of a name winning\<close>
  "by_name fm = map_of (rev (map (\<lambda>fe. (fe_name fe, fe)) fm))"

definition given :: "pyval option \<Rightarrow> pyval option" where  \<comment> \<open>\<open>is not None\<close> of an optional key\<close>
  "given v = (case v of Some PNone \<Rightarrow> None | _ \<Rightarrow> v)"

definition has_read_path :: "glossary \<Rightarrow> string \<Rightarrow> bool" where
  "has_read_path g name =
     (case dget (walk_fields g) name of
        None \<Rightarrow> False
      | Some d \<Rightarrow> list_ex (\<lambda>(key, _). starts_with ''rsp_'' key) (fd_protocols d))"

definition field_is_exempt :: "string \<Rightarrow> field_entry option \<Rightarrow> status \<Rightarrow> glossary option \<Rightarrow> bool" where
  "field_is_exempt name sibling_def st g_opt =
     ((case sibling_def of None \<Rightarrow> False | Some fe \<Rightarrow> given (fe_default_value fe) \<noteq> None) \<or>
      (case dget (st_fields st) name of
         None \<Rightarrow> True
       | Some sf \<Rightarrow>
           sf_feature_available sf \<in> {Some ''excluded'', Some ''capability'', Some ''capability-opt''} \<or>
           (case g_opt of None \<Rightarrow> False | Some g \<Rightarrow> \<not> has_read_path g name)))"

datatype preflight_reason = Never_read | Stale rat  \<comment> \<open>with \<open>age_seconds\<close>\<close>

record preflight_error =
  pe_field :: string
  pe_reason :: preflight_reason
  pe_shared_with :: string
  pe_position :: string

definition position_label :: "place \<Rightarrow> string" where
  "position_label p = (case p of Body n \<Rightarrow> ''body['' @ dec n @ '']'' | Prop i \<Rightarrow> i)"

text \<open>The outcome for one sibling; subtracting a naive time from an aware one raises \<open>TypeError\<close>.\<close>

definition staleness :: "status \<Rightarrow> string \<Rightarrow> rat \<Rightarrow> rat \<Rightarrow> preflight_reason option res" where
  "staleness st sibling threshold now =
     (case read_field st sibling (Some [''protocol_all'']) of
        None \<Rightarrow> Inr (Some Never_read)
      | Some r \<Rightarrow>
          (case fromisoformat (rr_ts r) of
             None \<Rightarrow> Inr (Some Never_read)
           | Some (t, aware) \<Rightarrow>
               (if \<not> aware then Inl TypeError
                else if now - t > threshold then Inr (Some (Stale (now - t))) else Inr None)))"

type_synonym preflight_state = "preflight_error list \<times> (string \<times> place) list"

definition check_sibling ::
  "field_entry list \<Rightarrow> (string, pyval) dict \<Rightarrow> status \<Rightarrow> rat \<Rightarrow> rat \<Rightarrow> glossary option \<Rightarrow>
   string \<Rightarrow> place \<Rightarrow> string \<Rightarrow> preflight_state \<Rightarrow> preflight_state res" where
  "check_sibling fm changes st threshold now g_opt changed p sibling acc =
     (case acc of (errors, seen) \<Rightarrow>
        if sibling = changed \<or> has_key changes sibling \<or> (sibling, p) \<in> set seen then Inr (errors, seen)
        else if field_is_exempt sibling (by_name fm sibling) st g_opt then Inr (errors, (sibling, p) # seen)
        else bind_res (staleness st sibling threshold now) (\<lambda>verdict.
          Inr (case verdict of
                 None \<Rightarrow> (errors, (sibling, p) # seen)
               | Some reason \<Rightarrow>
                   (errors @ [\<lparr>pe_field = sibling, pe_reason = reason, pe_shared_with = changed,
                               pe_position = position_label p\<rparr>],
                    (sibling, p) # seen))))"

definition changed_place :: "field_entry list \<Rightarrow> groups \<Rightarrow> string \<Rightarrow> place option" where
  "changed_place fm siblings changed =
     (case by_name fm changed of
        None \<Rightarrow> None
      | Some fe \<Rightarrow>
          (case fe_decode fe of
             [] \<Rightarrow> None
           | s # _ \<Rightarrow>
               (case siblings of  \<comment> \<open>the type of the first key\<close>
                  (Prop _, _) # _ \<Rightarrow> map_option Prop (ds_property_id s)
                | _ \<Rightarrow> map_option Body (ds_offset s))))"

definition set_command_preflight ::
  "field_entry list \<Rightarrow> (string, pyval) dict \<Rightarrow> status \<Rightarrow> groups \<Rightarrow> rat \<Rightarrow> rat \<Rightarrow> glossary option \<Rightarrow>
   preflight_error list res" where
  "set_command_preflight fm changes st siblings threshold now g_opt =
     bind_res
       (fold_res (\<lambda>(changed, _) acc.
          case changed_place fm siblings changed of
            None \<Rightarrow> Inr acc
          | Some p \<Rightarrow>
              fold_res (check_sibling fm changes st threshold now g_opt changed p)
                (dget_or siblings p []) acc) changes ([], []))
       (\<lambda>(errors, seen). Inr errors)"

subsection \<open>The \<open>0x40\<close> body\<close>

definition DEFAULT_PREFLIGHT_THRESHOLD_SECONDS :: rat where
  "DEFAULT_PREFLIGHT_THRESHOLD_SECONDS = 30"

record command_result =
  co_body :: "bytes option"
  co_preflight :: "preflight_error list"
  co_fields_encoded :: nat

definition type_zero :: "string option \<Rightarrow> pyval" where
  "type_zero dt = (if dt = Some ''bool'' then PBool False else PInt 0)"

definition or_zero :: "string option \<Rightarrow> pyval \<Rightarrow> pyval" where
  "or_zero dt v = (if v = PNone then type_zero dt else v)"

definition command_value :: "status \<Rightarrow> (string, pyval) dict \<Rightarrow> glossary \<Rightarrow> field_entry \<Rightarrow> pyval" where
  "command_value st changes g fe =
     (case dget changes (fe_name fe) of
        Some v \<Rightarrow> or_zero (fe_data_type fe) v
      | None \<Rightarrow>
          (let gdef = dget (walk_fields g) (fe_name fe)
           in if \<not> is_field_visible gdef (effective_operating_mode st changes) None
              then default_for_masked_field gdef
              else or_zero (fe_data_type fe)
                     (case given (fe_default_value fe) of
                        Some d \<Rightarrow> d
                      | None \<Rightarrow> read_value st (fe_name fe))))"

definition build_command_body ::
  "status \<Rightarrow> (string, pyval) dict \<Rightarrow> glossary \<Rightarrow> rat \<Rightarrow> bool \<Rightarrow> rat \<Rightarrow> command_result res" where
  "build_command_body st changes g threshold skip_preflight now =
     (let fm = build_field_map g ''cmd_0x40''
      in bind_res (set_command_preflight fm changes st (group_cmd_fields_by_byte fm) threshold now (Some g))
           (\<lambda>preflight.
             if preflight \<noteq> [] \<and> \<not> skip_preflight
             then Inr \<lparr>co_body = None, co_preflight = preflight, co_fields_encoded = 0\<rparr>
             else bind_res
                    (fold_res (\<lambda>fe body. encode_field body (fe_decode fe) (fe_data_type fe)
                                 (command_value st changes g fe) (gl_encodings g))
                       fm ((replicate 26 0)[0 := 0x40]))
                    (\<lambda>body. Inr \<lparr>co_body = Some body, co_preflight = preflight,
                                 co_fields_encoded = length fm\<rparr>)))"

subsection \<open>The \<open>0xB0\<close> body\<close>

text \<open>\<open>s.split(c)\<close> and \<open>int(s, 16)\<close>.\<close>

fun split_on :: "char \<Rightarrow> string \<Rightarrow> string list" where
  "split_on c [] = [[]]"
| "split_on c (x # xs) =
     (if x = c then [] # split_on c xs
      else case split_on c xs of [] \<Rightarrow> [[x]] | part # parts \<Rightarrow> (x # part) # parts)"

fun hex_digits :: "int \<Rightarrow> bool \<Rightarrow> string \<Rightarrow> int res" where
  \<comment> \<open>the flag: an underscore may stand here\<close>
  "hex_digits acc sep [] = (if sep then Inr acc else Inl ValueError)"
| "hex_digits acc sep (c # s) =
     (case hex_val c of
        Some d \<Rightarrow> hex_digits (16 * acc + d) True s
      | None \<Rightarrow> if c = CHR ''_'' \<and> sep then hex_digits acc False s else Inl ValueError)"

definition int_of_hex :: "string \<Rightarrow> int res" where
  "int_of_hex s =
     (let t = strip s;
          neg = (t \<noteq> [] \<and> hd t = CHR ''-'');
          u = (if t \<noteq> [] \<and> (hd t = CHR ''-'' \<or> hd t = CHR ''+'') then tl t else t);
          n = (if lower (take 2 u) = ''0x'' then
                 (case drop 2 u of
                    c # r \<Rightarrow> if c = CHR ''_'' then hex_digits 0 False r else hex_digits 0 False (c # r)
                  | [] \<Rightarrow> Inl ValueError)
               else hex_digits 0 False u)
      in bind_res n (\<lambda>k. Inr (if neg then - k else k)))"

text \<open>What is written at one offset of a property's buffer.\<close>

record sub_field =
  sb_step :: decode_step
  sb_value :: pyval
  sb_data_type :: "string option"

type_synonym prop_table = "(string, (nat, sub_field) dict) dict"

definition changed_props :: "field_entry list \<Rightarrow> (string, pyval) dict \<Rightarrow> string list" where
  "changed_props fm changes =
     concat (map (\<lambda>fe.
        if \<not> has_key changes (fe_name fe) then []
        else case fe_decode fe of
               [] \<Rightarrow> []
             | s # _ \<Rightarrow> (case prop_place s of Some (Prop i) \<Rightarrow> [i] | _ \<Rightarrow> [])) fm)"

definition property_value :: "status \<Rightarrow> (string, pyval) dict \<Rightarrow> field_entry \<Rightarrow> pyval" where
  "property_value st changes fe =
     or_zero (fe_data_type fe)
       (case dget changes (fe_name fe) of Some v \<Rightarrow> v | None \<Rightarrow> read_value st (fe_name fe))"

definition collect_field ::
  "status \<Rightarrow> (string, pyval) dict \<Rightarrow> string list \<Rightarrow> field_entry \<Rightarrow> prop_table \<Rightarrow> prop_table" where
  "collect_field st changes props fe table =
     (case fe_decode fe of
        [] \<Rightarrow> table
      | s # _ \<Rightarrow>
          (case prop_place s of
             Some (Prop i) \<Rightarrow>
               (if i \<notin> set props then table
                else let offset = (case ds_offset s of None \<Rightarrow> 0 | Some n \<Rightarrow> n)
                     in dset i (dset offset
                            \<lparr>sb_step = s, sb_value = property_value st changes fe, sb_data_type = fe_data_type fe\<rparr>
                            (dget_or table i [])) table)
           | _ \<Rightarrow> table))"

definition buffer_length :: "encodings \<Rightarrow> (nat, sub_field) dict \<Rightarrow> nat" where
  "buffer_length encs offsets =
     fold (\<lambda>(offset, sb) n.
        case ds_encoding (sb_step sb) of
          Some (c # cs) \<Rightarrow>
            max n (offset + (case en_byte_count (lookup_encoding encs (c # cs)) of None \<Rightarrow> 1 | Some k \<Rightarrow> k))
        | _ \<Rightarrow> n) offsets (Max (set (dkeys offsets)) + 1)"

definition property_data :: "encodings \<Rightarrow> (nat, sub_field) dict \<Rightarrow> bytes res" where
  "property_data encs offsets =
     fold_res (\<lambda>(_, sb) data. encode_field data [sb_step sb] (sb_data_type sb) (sb_value sb) encs)
       offsets (replicate (buffer_length encs offsets) 0)"

definition property_id_bytes :: "string \<Rightarrow> (int \<times> int) res" where
  "property_id_bytes i =
     (case split_on (CHR '','') i of
        lo # hi # _ \<Rightarrow> bind_res (int_of_hex lo) (\<lambda>l. bind_res (int_of_hex hi) (\<lambda>h. Inr (l, h)))
      | lo # [] \<Rightarrow> bind_res (int_of_hex lo) (\<lambda>_. Inl IndexError)
      | [] \<Rightarrow> Inl IndexError)"

definition property_record :: "encodings \<Rightarrow> string \<times> (nat, sub_field) dict \<Rightarrow> bytes \<Rightarrow> bytes res" where
  "property_record encs entry body =
     (case entry of (i, offsets) \<Rightarrow>
        bind_res (property_id_bytes i) (\<lambda>(lo, hi).
        bind_res (property_data encs offsets) (\<lambda>data.
        bind_res (map_res to_byte [lo, hi, int (length data)]) (\<lambda>header.
          Inr (body @ header @ data)))))"

definition property_table :: "status \<Rightarrow> (string, pyval) dict \<Rightarrow> glossary \<Rightarrow> prop_table" where
  "property_table st changes g =
     (let fm = build_field_map g ''cmd_0xb0''
      in sort_key fst (fold (collect_field st changes (changed_props fm changes)) fm []))"

definition build_b0_command_body ::
  "status \<Rightarrow> (string, pyval) dict \<Rightarrow> glossary \<Rightarrow> rat \<Rightarrow> bool \<Rightarrow> rat \<Rightarrow> command_result res" where
  "build_b0_command_body st changes g threshold skip_preflight now =
     (let fm = build_field_map g ''cmd_0xb0''
      in bind_res (set_command_preflight fm changes st (group_cmd_fields_by_property fm) threshold now (Some g))
           (\<lambda>preflight.
             if preflight \<noteq> [] \<and> \<not> skip_preflight
             then Inr \<lparr>co_body = None, co_preflight = preflight, co_fields_encoded = 0\<rparr>
             else let table = property_table st changes g
                  in bind_res (fold_res (property_record (gl_encodings g)) table [0xB0, 0x00]) (\<lambda>body.
                     bind_res (to_byte (int (length table))) (\<lambda>count.
                       Inr \<lparr>co_body = Some (body[1 := count]), co_preflight = preflight,
                            co_fields_encoded = sum_list (map (length \<circ> snd) table)\<rparr>))))"

subsection \<open>Lemmas on the preflight\<close>

text \<open>A sibling is safe when it was read within the threshold, by an aware timestamp.\<close>

definition recently_read :: "status \<Rightarrow> string \<Rightarrow> rat \<Rightarrow> rat \<Rightarrow> bool" where
  "recently_read st sibling threshold now \<longleftrightarrow> staleness st sibling threshold now = Inr None"

lemma recently_read_iff:
  "recently_read st sibling threshold now \<longleftrightarrow>
     (\<exists>r t. read_field st sibling (Some [''protocol_all'']) = Some r \<and> fromisoformat (rr_ts r) = Some (t, True) \<and>
        now - t \<le> threshold)"
  by (auto simp: recently_read_def staleness_def not_less split: option.splits)

text \<open>The siblings a change is responsible for.\<close>

definition at_risk ::
  "field_entry list \<Rightarrow> (string, pyval) dict \<Rightarrow> status \<Rightarrow> groups \<Rightarrow> glossary option \<Rightarrow> string \<Rightarrow> place \<Rightarrow> string \<Rightarrow> bool" where
  "at_risk fm changes st siblings g_opt changed p sibling \<longleftrightarrow>
     changed_place fm siblings changed = Some p \<and> sibling \<in> set (dget_or siblings p []) \<and>
     sibling \<noteq> changed \<and> \<not> has_key changes sibling \<and> \<not> field_is_exempt sibling (by_name fm sibling) st g_opt"

text \<open>The loop: no error so far exactly when all counted siblings seen so far are safe.\<close>

definition loop_inv :: "field_entry list \<Rightarrow> status \<Rightarrow> rat \<Rightarrow> rat \<Rightarrow> glossary option \<Rightarrow> preflight_state \<Rightarrow> bool" where
  "loop_inv fm st threshold now g_opt acc \<longleftrightarrow>
     (fst acc = [] \<longleftrightarrow> (\<forall>(s, p) \<in> set (snd acc). field_is_exempt s (by_name fm s) st g_opt \<or> recently_read st s threshold now))"

text \<open>The nested loops as one loop over the pairs they visit.\<close>

definition visits :: "field_entry list \<Rightarrow> groups \<Rightarrow> (string, pyval) dict \<Rightarrow> (string \<times> place \<times> string) list" where
  "visits fm siblings cs =
     concat (map (\<lambda>(changed, _).
        case changed_place fm siblings changed of
          None \<Rightarrow> []
        | Some p \<Rightarrow> map (\<lambda>s. (changed, p, s)) (dget_or siblings p [])) cs)"

definition counted :: "(string, pyval) dict \<Rightarrow> (string \<times> place \<times> string) list \<Rightarrow> (string \<times> place) set" where
  "counted changes vs = {(s, p). \<exists>c. (c, p, s) \<in> set vs \<and> s \<noteq> c \<and> \<not> has_key changes s}"

lemma counted_simps [simp]:
  "counted changes [] = {}"
  "counted changes ((c, p, s) # vs) =
     (if s \<noteq> c \<and> \<not> has_key changes s then insert (s, p) (counted changes vs) else counted changes vs)"
  by (auto simp: counted_def)

lemma check_siblings_map:
  "fold_res (check_sibling fm changes st thr now g_opt c p) ss acc =
     fold_res (\<lambda>(c, p, s). check_sibling fm changes st thr now g_opt c p s) (map (\<lambda>s. (c, p, s)) ss) acc"
  by (induction ss arbitrary: acc) (auto intro!: bind_res_cong)

lemma preflight_visits:
  "fold_res (\<lambda>(changed, _) acc.
      case changed_place fm siblings changed of None \<Rightarrow> Inr acc
      | Some p \<Rightarrow> fold_res (check_sibling fm changes st thr now g_opt changed p) (dget_or siblings p []) acc) cs acc =
   fold_res (\<lambda>(c, p, s). check_sibling fm changes st thr now g_opt c p s) (visits fm siblings cs) acc"
proof (induction cs arbitrary: acc)
  case Nil
  then show ?case by (simp add: visits_def)
next
  case (Cons ch cs)
  then show ?case
    by (cases ch; cases "changed_place fm siblings (fst ch)")
      (simp_all add: visits_def fold_res_append check_siblings_map bind_res_def split: sum.split)
qed

lemma check_sibling_step:
  assumes "check_sibling fm changes st threshold now g_opt c p s acc = Inr acc'"
    and "loop_inv fm st threshold now g_opt acc"
  shows "loop_inv fm st threshold now g_opt acc' \<and>
    set (snd acc') = set (snd acc) \<union> counted changes [(c, p, s)]"
proof -
  obtain errors seen where acc: "acc = (errors, seen)" by (cases acc)
  show ?thesis
    using assms
    by (cases "staleness st s threshold now")
      (auto simp: check_sibling_def acc loop_inv_def recently_read_def split: if_splits option.splits)
qed

lemma check_visits:
  assumes "fold_res (\<lambda>(c, p, s). check_sibling fm changes st threshold now g_opt c p s) vs acc = Inr acc'"
    and "loop_inv fm st threshold now g_opt acc"
  shows "loop_inv fm st threshold now g_opt acc' \<and> set (snd acc') = set (snd acc) \<union> counted changes vs"
  using assms
proof (induction vs arbitrary: acc)
  case Nil
  then show ?case by simp
next
  case (Cons v vs)
  obtain c p s where v: "v = (c, p, s)" by (cases v)
  from Cons.prems(1) obtain mid where m: "check_sibling fm changes st threshold now g_opt c p s acc = Inr mid"
      "fold_res (\<lambda>(c, p, s). check_sibling fm changes st threshold now g_opt c p s) vs mid = Inr acc'"
    by (auto simp: v)
  note a = check_sibling_step [OF m(1) Cons.prems(2)]
  show ?case using Cons.IH [OF m(2)] a v by auto
qed

lemma in_counted_visits:
  "(s, p) \<in> counted changes (visits fm siblings changes) \<longleftrightarrow>
     (\<exists>c. has_key changes c \<and> changed_place fm siblings c = Some p \<and> s \<in> set (dget_or siblings p []) \<and>
        s \<noteq> c \<and> \<not> has_key changes s)"
  by (force simp: counted_def visits_def has_key_set dkeys_def split: option.splits)

lemma preflight_empty_iff:
  assumes "set_command_preflight fm changes st siblings threshold now g_opt = Inr errors"
  shows "errors = [] \<longleftrightarrow>
    (\<forall>c p s. has_key changes c \<longrightarrow> at_risk fm changes st siblings g_opt c p s \<longrightarrow> recently_read st s threshold now)"
proof -
  let ?V = "visits fm siblings changes"
  from assms obtain seen where
    f: "fold_res (\<lambda>(c, p, s). check_sibling fm changes st threshold now g_opt c p s) ?V ([], []) = Inr (errors, seen)"
    by (auto simp: set_command_preflight_def preflight_visits)
  have "loop_inv fm st threshold now g_opt ([], [])" by (simp add: loop_inv_def)
  from check_visits [OF f this]
  have "errors = [] \<longleftrightarrow>
      (\<forall>s p. (s, p) \<in> counted changes ?V \<longrightarrow> field_is_exempt s (by_name fm s) st g_opt \<or> recently_read st s threshold now)"
    by (auto simp: loop_inv_def)
  then show ?thesis unfolding at_risk_def in_counted_visits by blast
qed

subsection \<open>Lemmas on the bodies\<close>

lemma encode_fields_frame:
  assumes "fold_res (\<lambda>x body. encode_field body (steps x) (dt x) (v x) encs) xs body = Inr body'"
    and "\<forall>x \<in> set xs. \<forall>p \<in> set (written (steps x)). apart p q"
  shows "length body' = length body \<and> field_at body' q = field_at body q"
  using assms
proof (induction xs arbitrary: body)
  case Nil
  then show ?case by simp
next
  case (Cons x xs)
  from Cons.prems(1) obtain b where b: "encode_field body (steps x) (dt x) (v x) encs = Inr b"
    "fold_res (\<lambda>x body. encode_field body (steps x) (dt x) (v x) encs) xs b = Inr body'" by auto
  have "length b = length body \<and> field_at b q = field_at body q"
    using Cons.prems(2) by (intro encode_field_frame_lemma [OF b(1)]) simp
  then show ?case using Cons.IH [OF b(2)] Cons.prems(2) by simp
qed

lemma encode_field_length: "encode_field body steps dt v encs = Inr body' \<Longrightarrow> length body' = length body"
proof -
  assume enc: "encode_field body steps dt v encs = Inr body'"
  obtain n where "n \<notin> fst ` set (written steps)" by (meson ex_new_if_finite finite_imageI finite_set infinite_UNIV_nat)
  then have "\<forall>p \<in> set (written steps). apart p (n, 0, 0)" by (force simp: apart_def)
  from encode_field_frame_lemma [OF enc this] show ?thesis by simp
qed

lemma encode_fields_length:
  assumes "fold_res (\<lambda>x body. encode_field body (steps x) (dt x) (v x) encs) xs body = Inr body'"
  shows "length body' = length body"
  using assms
proof (induction xs arbitrary: body)
  case Nil
  then show ?case by simp
next
  case (Cons x xs)
  from Cons.prems obtain b where b: "encode_field body (steps x) (dt x) (v x) encs = Inr b"
    "fold_res (\<lambda>x body. encode_field body (steps x) (dt x) (v x) encs) xs b = Inr body'" by auto
  have "length b = length body" by (rule encode_field_length [OF b(1)])
  then show ?case using Cons.IH [OF b(2)] by simp
qed

text \<open>What one encoding leaves in its own bits, when its half-degree flag lies elsewhere.\<close>

lemma encode_field_own:
  assumes "encode_field body (s # ss) dt v encs = Inr body'" and "v \<noteq> PNone" and "ds_logic s = None"
    and "ds_offset s = Some i" and "ds_bits s = Some bits" and "i < length body" and "snd bits \<le> fst bits"
    and "\<forall>hb. ds_half_bit s = Some hb \<longrightarrow> apart (hb_offset hb, hb_bit hb, hb_bit hb) (i, bits)"
  shows "\<exists>raw. raw_of_value s dt v encs = Inr raw \<and> field_at body' (i, bits) = Inr (raw mod 2 ^ width bits)"
proof -
  from assms obtain raw where raw: "raw_of_value s dt v encs = Inr raw"
    by (cases "raw_of_value s dt v encs") (simp_all add: encode_field_def not_le)
  from assms raw obtain b where b: "store_bits body i bits raw = Inr b"
    by (cases "store_bits body i bits raw") (simp_all add: encode_field_def not_le)
  have own: "field_at b (i, bits) = Inr (raw mod 2 ^ width bits)" by (rule store_bits_same [OF b assms(6,7)])
  have "field_at body' (i, bits) = field_at b (i, bits)"
  proof (cases "ds_half_bit s")
    case None
    then show ?thesis using assms raw b by (simp add: encode_field_def not_le)
  next
    case (Some hb)
    then show ?thesis
      using assms raw b store_bits_frame [of b "hb_offset hb" "(hb_bit hb, hb_bit hb)" "if is_half v then 1 else 0" body' "(i, bits)"]
      by (auto simp: encode_field_def not_le split: if_splits)
  qed
  with own raw show ?thesis by simp
qed

lemma or_zero_not_None [simp]: "or_zero dt v \<noteq> PNone"
  by (simp add: or_zero_def type_zero_def)

lemma default_not_None: "default_for_masked_field gdef \<noteq> PNone"
  by (auto simp: default_for_masked_field_def split: option.split)

lemma command_value_not_None [simp]: "command_value st changes g fe \<noteq> PNone"
  by (simp add: command_value_def Let_def default_not_None split: option.split)

text \<open>A field placed alone: one bit range that no other entry of the map writes.\<close>

definition placed :: "field_entry list \<Rightarrow> field_entry \<Rightarrow> decode_step \<Rightarrow> nat \<Rightarrow> nat \<times> nat \<Rightarrow> bool" where
  "placed fm fe s i bits \<longleftrightarrow>
     fe \<in> set fm \<and> (\<exists>ss. fe_decode fe = s # ss) \<and> ds_logic s = None \<and> ds_offset s = Some i \<and>
     ds_bits s = Some bits \<and> snd bits \<le> fst bits \<and>
     (\<forall>hb. ds_half_bit s = Some hb \<longrightarrow> apart (hb_offset hb, hb_bit hb, hb_bit hb) (i, bits)) \<and>
     (\<forall>fe' \<in> set fm. fe' \<noteq> fe \<longrightarrow> (\<forall>p \<in> set (written (fe_decode fe')). apart p (i, bits)))"

lemma encode_all_placed:
  assumes f: "fold_res (\<lambda>fe body. encode_field body (fe_decode fe) (fe_data_type fe) (val fe) encs) fm body0 = Inr body"
    and p: "placed fm fe s i bits" and "val fe \<noteq> PNone" and "i < length body0"
  shows "\<exists>raw. raw_of_value s (fe_data_type fe) (val fe) encs = Inr raw \<and>
    field_at body (i, bits) = Inr (raw mod 2 ^ width bits)"
proof -
  let ?enc = "\<lambda>fe body. encode_field body (fe_decode fe) (fe_data_type fe) (val fe) encs"
  from p obtain ss where s: "fe_decode fe = s # ss" by (auto simp: placed_def)
  from p have "fe \<in> set fm" by (simp add: placed_def)
  then obtain xs ys where fm: "fm = xs @ fe # ys" and "fe \<notin> set ys" by (metis split_list_last)
  from f obtain b1 b2 where b: "fold_res ?enc xs body0 = Inr b1" "?enc fe b1 = Inr b2" "fold_res ?enc ys b2 = Inr body"
    by (auto simp: fm fold_res_append)
  have "i < length b1" using encode_fields_length [OF b(1)] assms(4) by simp
  moreover have "encode_field b1 (s # ss) (fe_data_type fe) (val fe) encs = Inr b2" using b(2) s by simp
  ultimately obtain raw where r: "raw_of_value s (fe_data_type fe) (val fe) encs = Inr raw"
      "field_at b2 (i, bits) = Inr (raw mod 2 ^ width bits)"
    using encode_field_own [of b1 s ss "fe_data_type fe" "val fe" encs b2 i bits] p assms(3)
    by (auto simp: placed_def)
  have "\<forall>x \<in> set ys. \<forall>p \<in> set (written (fe_decode x)). apart p (i, bits)"
    using p \<open>fe \<notin> set ys\<close> unfolding placed_def fm by auto
  from encode_fields_frame [OF b(3) this] r show ?thesis by auto
qed

lemma build_command_InrD:
  assumes "build_command_body st changes g threshold skip now = Inr r"
  shows "set_command_preflight (build_field_map g ''cmd_0x40'') changes st
      (group_cmd_fields_by_byte (build_field_map g ''cmd_0x40'')) threshold now (Some g) = Inr (co_preflight r)"
    and "co_body r = None \<longleftrightarrow> co_preflight r \<noteq> [] \<and> \<not> skip"
    and "co_body r = Some body \<Longrightarrow>
      fold_res (\<lambda>fe body. encode_field body (fe_decode fe) (fe_data_type fe) (command_value st changes g fe) (gl_encodings g))
        (build_field_map g ''cmd_0x40'') ((replicate 26 0)[0 := 0x40]) = Inr body"
  using assms by (auto simp: build_command_body_def Let_def split: if_splits)

text \<open>
  The receiving side of a property command: records of a three-byte header (identifier low and high
  byte, length) and data, read by the cursor of the TLV interface.
\<close>

fun set_loop :: "nat \<Rightarrow> bytes \<Rightarrow> nat \<Rightarrow> (byte \<times> byte \<times> bytes) list \<Rightarrow> (byte \<times> byte \<times> bytes) list \<times> nat" where
  "set_loop 0 body pos records = (records, pos)"
| "set_loop (Suc n) body pos records =
     (if pos + 3 \<le> length body \<and> pos + 3 + unat (body ! (pos + 2)) \<le> length body
      then set_loop n body (pos + 3 + unat (body ! (pos + 2)))
             (records @ [(body ! pos, body ! (pos + 1), slice (pos + 3) (pos + 3 + unat (body ! (pos + 2))) body)])
      else (records, pos))"

interpretation set_tlv: tlv_cursor 3 "\<lambda>h d. (h ! 0, h ! 1, d)" set_loop
  by unfold_locales (auto simp: slice_def nth_append add.commute)

lemma map_res_to_byte3: "map_res to_byte [a, b, c] = Inr h \<longleftrightarrow>
    (\<exists>x y z. h = [x, y, z] \<and> uint x = a \<and> uint y = b \<and> uint z = c)"
  by (auto simp: to_byte_Inr)

definition record_of :: "encodings \<Rightarrow> string \<times> (nat, sub_field) dict \<Rightarrow> byte \<times> byte \<times> bytes \<Rightarrow> bool" where
  "record_of encs entry rec \<longleftrightarrow>
     (case (entry, rec) of ((i, offsets), (lo, hi, data)) \<Rightarrow>
        property_id_bytes i = Inr (uint lo, uint hi) \<and> property_data encs offsets = Inr data \<and> length data < 256)"

definition set_record :: "byte \<times> byte \<times> bytes \<Rightarrow> bytes \<times> bytes" where
  "set_record rec = (case rec of (lo, hi, data) \<Rightarrow> ([lo, hi, word_of_nat (length data)], data))"

lemma property_record_InrD:
  assumes "property_record encs entry body = Inr body'"
  shows "\<exists>rec. record_of encs entry rec \<and> body' = body @ fst (set_record rec) @ snd (set_record rec)"
proof -
  obtain i offsets where e: "entry = (i, offsets)" by (cases entry)
  from assms obtain lo hi data h where p: "property_id_bytes i = Inr (lo, hi)" "property_data encs offsets = Inr data"
      "map_res to_byte [lo, hi, int (length data)] = Inr h" "body' = body @ h @ data"
    by (auto simp: property_record_def e simp del: map_res.simps)
  from p(3) obtain x y z where h: "h = [x, y, z]" "uint x = lo" "uint y = hi" "uint z = int (length data)"
    unfolding map_res_to_byte3 by blast
  have "length data < 256" using h(4) uint_byte_bounds(2) [of z] by linarith
  moreover have "z = word_of_nat (length data)"
    using h(4) by (metis of_int_of_nat_eq word_of_int_uint)
  ultimately show ?thesis
    using p h by (intro exI [of _ "(x, y, data)"]) (simp add: record_of_def set_record_def e)
qed

lemma property_records_fold:
  assumes "fold_res (property_record encs) table pre = Inr body"
  shows "\<exists>recs. list_all2 (record_of encs) table recs \<and>
    body = pre @ concat (map (\<lambda>(h, d). h @ d) (map set_record recs))"
  using assms
proof (induction table arbitrary: pre)
  case Nil
  then show ?case by auto
next
  case (Cons e table)
  from Cons.prems obtain mid where m: "property_record encs e pre = Inr mid" "fold_res (property_record encs) table mid = Inr body"
    by auto
  from property_record_InrD [OF m(1)] obtain rec where
    rec: "record_of encs e rec" "mid = pre @ fst (set_record rec) @ snd (set_record rec)" by blast
  from Cons.IH [OF m(2)] obtain recs where
    recs: "list_all2 (record_of encs) table recs" "body = mid @ concat (map (\<lambda>(h, d). h @ d) (map set_record recs))" by blast
  show ?case using rec recs by (intro exI [of _ "rec # recs"]) (simp add: case_prod_unfold)
qed

lemma set_record_entry: "record_of encs entry rec \<Longrightarrow> set_tlv.entry (set_record rec)"
  by (auto simp: record_of_def set_record_def set_tlv.entry_def unat_of_nat split: prod.splits)

lemma read_set_records:
  assumes "list_all2 (record_of encs) table recs"
  shows "set_loop (length recs) (pre @ concat (map (\<lambda>(h, d). h @ d) (map set_record recs))) (length pre) [] =
    (recs, length pre + length (concat (map (\<lambda>(h, d). h @ d) (map set_record recs))))"
proof -
  have "\<exists>e. record_of encs e rec" if "rec \<in> set recs" for rec
    using assms that by (metis in_set_conv_nth list_all2_conv_all_nth)
  then have "\<forall>e \<in> set (map set_record recs). set_tlv.entry e" using set_record_entry by fastforce
  from set_tlv.loop_entries [OF this, of pre "[]" "[]"] show ?thesis
    by (simp add: comp_def case_prod_unfold set_record_def)
qed

text \<open>The table of a command: one entry per property with a change, in the order of the identifiers.\<close>

lemma collect_keys:
  "i \<in> set (dkeys (fold (collect_field st changes props) fm table)) \<longleftrightarrow>
     i \<in> set (dkeys table) \<or>
     i \<in> set props \<and> (\<exists>fe s ss. fe \<in> set fm \<and> fe_decode fe = s # ss \<and> prop_place s = Some (Prop i))"
proof (induction fm arbitrary: table)
  case Nil
  then show ?case by simp
next
  case (Cons fe fm)
  have step: "i \<in> set (dkeys (collect_field st changes props fe table)) \<longleftrightarrow> i \<in> set (dkeys table) \<or>
      i \<in> set props \<and> (\<exists>s ss. fe_decode fe = s # ss \<and> prop_place s = Some (Prop i))"
    by (auto simp: collect_field_def Let_def dkeys_dset has_key_set split: list.split option.split place.split)
  show ?case using Cons.IH [of "collect_field st changes props fe table"] unfolding step by auto
qed

lemma distinct_collect: "distinct (dkeys table) \<Longrightarrow> distinct (dkeys (fold (collect_field st changes props) fm table))"
proof (induction fm arbitrary: table)
  case Nil
  then show ?case by simp
next
  case (Cons fe fm)
  have "distinct (dkeys (collect_field st changes props fe table))"
    using Cons.prems by (auto simp: collect_field_def Let_def split: list.split option.split place.split)
  then show ?case using Cons.IH by simp
qed

lemma changed_props_iff:
  "i \<in> set (changed_props fm changes) \<longleftrightarrow>
     (\<exists>fe s ss. fe \<in> set fm \<and> has_key changes (fe_name fe) \<and> fe_decode fe = s # ss \<and> prop_place s = Some (Prop i))"
proof -
  have "i \<in> set (if \<not> has_key changes (fe_name fe) then []
      else case fe_decode fe of [] \<Rightarrow> []
        | s # _ \<Rightarrow> (case prop_place s of Some (Prop i) \<Rightarrow> [i] | _ \<Rightarrow> [])) \<longleftrightarrow>
      has_key changes (fe_name fe) \<and> (\<exists>s ss. fe_decode fe = s # ss \<and> prop_place s = Some (Prop i))" for fe
    by (cases "fe_decode fe"; cases "prop_place (hd (fe_decode fe))") (auto split: place.splits)
  then show ?thesis unfolding changed_props_def set_concat set_map by blast
qed

lemma property_table_keys:
  "set (dkeys (property_table st changes g)) = set (changed_props (build_field_map g ''cmd_0xb0'') changes)"
  "distinct (dkeys (property_table st changes g))"
  "sorted (dkeys (property_table st changes g))"
proof -
  let ?fm = "build_field_map g ''cmd_0xb0''"
  let ?t = "fold (collect_field st changes (changed_props ?fm changes)) ?fm []"
  have d: "dkeys (property_table st changes g) = map fst (sort_key fst ?t)"
    by (simp add: property_table_def Let_def dkeys_def)
  show "sorted (dkeys (property_table st changes g))" unfolding d by simp
  have "distinct (dkeys ?t)" by (rule distinct_collect) (simp add: dkeys_def)
  then show "distinct (dkeys (property_table st changes g))" unfolding d by (simp add: dkeys_def distinct_map)
  have "set (dkeys (property_table st changes g)) = set (dkeys ?t)" unfolding d by (simp add: dkeys_def)
  then show "set (dkeys (property_table st changes g)) = set (changed_props ?fm changes)"
    unfolding set_eq_iff collect_keys changed_props_iff by (simp add: dkeys_def) blast
qed

lemma b0_command_InrD:
  assumes "build_b0_command_body st changes g threshold skip now = Inr r" and "co_body r = Some body"
  shows "\<exists>body' count. fold_res (property_record (gl_encodings g)) (property_table st changes g) [0xB0, 0x00] = Inr body' \<and>
    to_byte (int (length (property_table st changes g))) = Inr count \<and> body = body'[1 := count] \<and>
    (skip \<or> co_preflight r = [])"
  using assms by (auto simp: build_b0_command_body_def Let_def split: if_splits)

subsection \<open>Properties\<close>

lemma by_name_SomeD: "by_name fm name = Some fe \<Longrightarrow> fe \<in> set fm \<and> fe_name fe = name"
  by (auto simp: by_name_def dest!: map_of_SomeD)

text \<open>C24: a command is refused exactly when it would overwrite what is not known: unless the check is
  skipped, no body is built if and only if some sibling of a changed field, in the same byte, not
  changed itself and not exempt, has not been read within the threshold.\<close>

theorem command_blocked_iff:
  assumes "build_command_body st changes g threshold skip now = Inr r"
  shows "co_body r = None \<longleftrightarrow> \<not> skip \<and>
    (\<exists>changed p sibling. has_key changes changed \<and>
       at_risk (build_field_map g ''cmd_0x40'') changes st (group_cmd_fields_by_byte (build_field_map g ''cmd_0x40''))
         (Some g) changed p sibling \<and>
       \<not> recently_read st sibling threshold now)"
  using preflight_empty_iff [OF build_command_InrD(1) [OF assms]] build_command_InrD(2) [OF assms] by blast

text \<open>C25: a body that passed the check never clobbers a sibling.  When the check was not skipped, then for
  every sibling that shares the byte of a changed field, is not exempt and not changed itself, is
  visible in the mode sent (a hidden one is sent as its default) and has its bits written by no other
  field: some reading of the sibling, in any scope, is within the threshold, and its bits in the body are
  the encoding of its current value, the reading by its default priority.\<close>

theorem command_never_clobbers:
  assumes "build_command_body st changes g threshold False now = Inr r" and "co_body r = Some body"
    and "has_key changes changed"
    and "at_risk (build_field_map g ''cmd_0x40'') changes st (group_cmd_fields_by_byte (build_field_map g ''cmd_0x40''))
           (Some g) changed p sibling"
    and "by_name (build_field_map g ''cmd_0x40'') sibling = Some fe"
    and "placed (build_field_map g ''cmd_0x40'') fe s i bits" and "i < 26"
    and "is_field_visible (dget (walk_fields g) sibling) (effective_operating_mode st changes) None"
  shows "recently_read st sibling threshold now \<and> length body = 26 \<and>
    (\<exists>raw. raw_of_value s (fe_data_type fe) (or_zero (fe_data_type fe) (read_value st sibling)) (gl_encodings g) = Inr raw \<and>
       field_at body (i, bits) = Inr (raw mod 2 ^ width bits))"
proof -
  note d = build_command_InrD [OF assms(1)]
  have "co_preflight r = []" using d(2) assms(2) by simp
  with preflight_empty_iff [OF d(1)] assms(3,4) have fresh: "recently_read st sibling threshold now" by blast
  note enc = d(3) [OF assms(2)]
  have fe: "fe_name fe = sibling" using by_name_SomeD [OF assms(5)] by simp
  have "\<not> has_key changes sibling" and "given (fe_default_value fe) = None"
    using assms(4,5) by (auto simp: at_risk_def field_is_exempt_def)
  then have v: "command_value st changes g fe = or_zero (fe_data_type fe) (read_value st sibling)"
    using assms(8) fe by (simp add: command_value_def has_key_def)
  have "length body = 26" using encode_fields_length [OF enc] by simp
  moreover have "\<exists>raw. raw_of_value s (fe_data_type fe) (command_value st changes g fe) (gl_encodings g) = Inr raw \<and>
      field_at body (i, bits) = Inr (raw mod 2 ^ width bits)"
    by (rule encode_all_placed [OF enc assms(6)]) (simp_all add: assms(7))
  ultimately show ?thesis using fresh v by simp
qed

text \<open>A body carries every change: the bits of a changed field are the encoding of the requested
  value (the zero of the type for \<open>None\<close>), in every mode and with the check skipped or not.\<close>

theorem command_carries_changes:
  assumes "build_command_body st changes g threshold skip now = Inr r" and "co_body r = Some body"
    and "dget changes (fe_name fe) = Some v"
    and "placed (build_field_map g ''cmd_0x40'') fe s i bits" and "i < 26"
  shows "\<exists>raw. raw_of_value s (fe_data_type fe) (or_zero (fe_data_type fe) v) (gl_encodings g) = Inr raw \<and>
    field_at body (i, bits) = Inr (raw mod 2 ^ width bits)"
proof -
  have "command_value st changes g fe = or_zero (fe_data_type fe) v"
    using assms(3) by (simp add: command_value_def)
  then show ?thesis
    using encode_all_placed [OF build_command_InrD(3) [OF assms(1,2)] assms(4)] assms(5) by simp
qed

text \<open>A property command is well formed: read back record by record, it holds exactly one record per
  property with a changed field, in the order of the identifiers, each with the identifier bytes and the
  encoded data of its property, and the count byte is the number of records.\<close>

theorem b0_command_records:
  assumes "build_b0_command_body st changes g threshold skip now = Inr r" and "co_body r = Some body"
  shows "\<exists>recs. set_loop (unat (body ! 1)) body 2 [] = (recs, length body) \<and> unat (body ! 1) = length recs \<and>
    body ! 0 = 0xB0 \<and> list_all2 (record_of (gl_encodings g)) (property_table st changes g) recs \<and>
    set (dkeys (property_table st changes g)) = set (changed_props (build_field_map g ''cmd_0xb0'') changes) \<and>
    sorted (dkeys (property_table st changes g)) \<and> distinct (dkeys (property_table st changes g))"
proof -
  from b0_command_InrD [OF assms] obtain body' count where
    f: "fold_res (property_record (gl_encodings g)) (property_table st changes g) [0xB0, 0x00] = Inr body'"
    and c: "to_byte (int (length (property_table st changes g))) = Inr count" and b: "body = body'[1 := count]" by blast
  from property_records_fold [OF f] obtain recs where
    recs: "list_all2 (record_of (gl_encodings g)) (property_table st changes g) recs"
    and body': "body' = [0xB0, 0x00] @ concat (map (\<lambda>(h, d). h @ d) (map set_record recs))" by blast
  have body: "body = [0xB0, count] @ concat (map (\<lambda>(h, d). h @ d) (map set_record recs))"
    unfolding b body' by simp
  have "unat count = length recs"
    using c recs by (simp add: to_byte_Inr list_all2_lengthD unat_eq_nat_uint)
  then have n: "unat (body ! 1) = length recs" by (simp add: body)
  show ?thesis
    using read_set_records [OF recs, of "[0xB0, count]"] property_table_keys [of st changes g] recs n
    by (intro exI [of _ recs]) (simp add: body numeral_2_eq_2)
qed

text \<open>An example: two switches and a counter in byte 1, and a property that holds two fields.\<close>

definition COMMANDS :: glossary where
  "COMMANDS =
     \<lparr>gl_fields = [(''control'', Some
        [(''power'', Field (field_of_type ''bool'' (Some ''always'')
            [(''rsp_0xc0'', loc ''response'' [plain_step 1 (0, 0)]), (''cmd_0x40'', loc ''command'' [plain_step 1 (0, 0)])])),
         (''timer'', Field (field_of_type ''uint8'' (Some ''always'')
            [(''rsp_0xc0'', loc ''response'' [plain_step 1 (5, 3)]), (''cmd_0x40'', loc ''command'' [plain_step 1 (5, 3)])])),
         (''fresh_air_switch'', Field (field_of_type ''bool'' (Some ''always'')
            [(''cmd_0xb0'', loc ''command'' [(plain_step 0 (0, 0))\<lparr>ds_property_id := Some ''0x4B,0x00''\<rparr>])])),
         (''fresh_air_fan_speed'', Field (field_of_type ''uint8'' (Some ''always'')
            [(''cmd_0xb0'', loc ''command'' [(plain_step 1 (7, 0))\<lparr>ds_property_id := Some ''0x4B,0x00''\<rparr>])]))])],
      gl_encodings = [], gl_frames = [], gl_protocol_generations = [(''rsp_0xc0'', ''legacy'')], gl_version = ''1''\<rparr>"

definition OBSERVED :: status where
  "OBSERVED =
     write_field (write_field (build_status ''ac'' COMMANDS)
       ''power'' (PBool False) ''rsp_0xc0'' ''legacy'' ''2026-01-01T00:00:00+00:00'')
       ''timer'' (PInt 5) ''rsp_0xc0'' ''legacy'' ''2026-01-01T00:00:00+00:00''"

definition NOW :: rat where  \<comment> \<open>10 seconds later\<close>
  "NOW = 1767225610"

definition entry_of :: "string \<Rightarrow> string \<Rightarrow> nat \<times> nat \<Rightarrow> field_entry" where
  "entry_of name dt bits =
     \<lparr>fe_name = name, fe_decode = [plain_step 1 bits], fe_data_type = Some dt, fe_capability = None,
      fe_default_value = None, fe_sentinel_values = [], fe_value_range = None\<rparr>"

lemma commands_map:
  "build_field_map COMMANDS ''cmd_0x40'' = [entry_of ''power'' ''bool'' (0, 0), entry_of ''timer'' ''uint8'' (5, 3)]"
  by code_simp

lemma commands_placed: "placed (build_field_map COMMANDS ''cmd_0x40'') (entry_of ''timer'' ''uint8'' (5, 3)) (plain_step 1 (5, 3)) 1 (5, 3)"
  "placed (build_field_map COMMANDS ''cmd_0x40'') (entry_of ''power'' ''bool'' (0, 0)) (plain_step 1 (0, 0)) 1 (0, 0)"
  unfolding commands_map
  by (auto simp: placed_def entry_of_def plain_step_def written_def apart_def disjoint_bits_def)

lemma power_on_command:
  "build_command_body OBSERVED [(''power'', PBool True)] COMMANDS 30 False NOW =
     Inr \<lparr>co_body = Some ([0x40, 0x29] @ replicate 24 0), co_preflight = [], co_fields_encoded = 2\<rparr>"
  by code_simp

theorem command_blocked_iff_witness:
  "build_command_body (build_status ''ac'' COMMANDS) [(''power'', PBool True)] COMMANDS 30 False NOW =
     Inr \<lparr>co_body = None, co_preflight = [\<lparr>pe_field = ''timer'', pe_reason = Never_read, pe_shared_with = ''power'',
       pe_position = ''body[1]''\<rparr>], co_fields_encoded = 0\<rparr> \<and>
   (\<exists>changed p sibling. \<not> recently_read (build_status ''ac'' COMMANDS) sibling 30 NOW \<and>
      at_risk (build_field_map COMMANDS ''cmd_0x40'') [(''power'', PBool True)] (build_status ''ac'' COMMANDS)
        (group_cmd_fields_by_byte (build_field_map COMMANDS ''cmd_0x40'')) (Some COMMANDS) changed p sibling)"
proof -
  have b: "build_command_body (build_status ''ac'' COMMANDS) [(''power'', PBool True)] COMMANDS 30 False NOW =
     Inr \<lparr>co_body = None, co_preflight = [\<lparr>pe_field = ''timer'', pe_reason = Never_read, pe_shared_with = ''power'',
       pe_position = ''body[1]''\<rparr>], co_fields_encoded = 0\<rparr>"
    by code_simp
  from command_blocked_iff [OF b] have "\<exists>changed p sibling. \<not> recently_read (build_status ''ac'' COMMANDS) sibling 30 NOW \<and>
      at_risk (build_field_map COMMANDS ''cmd_0x40'') [(''power'', PBool True)] (build_status ''ac'' COMMANDS)
        (group_cmd_fields_by_byte (build_field_map COMMANDS ''cmd_0x40'')) (Some COMMANDS) changed p sibling"
    by (simp only: command_result.simps simp_thms) blast
  with b show ?thesis by blast
qed

theorem command_never_clobbers_witness:
  "recently_read OBSERVED ''timer'' 30 NOW \<and> field_at ([0x40, 0x29] @ replicate 24 0) (1, 5, 3) = Inr 5"
proof -
  have r: "at_risk (build_field_map COMMANDS ''cmd_0x40'') [(''power'', PBool True)] OBSERVED
      (group_cmd_fields_by_byte (build_field_map COMMANDS ''cmd_0x40'')) (Some COMMANDS) ''power'' (Body 1) ''timer''"
    by code_simp
  have n: "by_name (build_field_map COMMANDS ''cmd_0x40'') ''timer'' = Some (entry_of ''timer'' ''uint8'' (5, 3))"
    by code_simp
  have v: "is_field_visible (dget (walk_fields COMMANDS) ''timer'') (effective_operating_mode OBSERVED [(''power'', PBool True)]) None"
    by code_simp
  have k: "has_key [(''power'', PBool True)] ''power''" by code_simp
  have w: "raw_of_value (plain_step 1 (5, 3)) (Some ''uint8'') (or_zero (Some ''uint8'') (read_value OBSERVED ''timer'')) (gl_encodings COMMANDS) = Inr 5"
    by code_simp
  have dt: "fe_data_type (entry_of ''timer'' ''uint8'' (5, 3)) = Some ''uint8''" by (simp add: entry_of_def)
  from command_never_clobbers [OF power_on_command _ k r n commands_placed(1) _ v, unfolded dt w] show ?thesis
    by simp
qed

theorem command_carries_changes_witness:
  "field_at ([0x40, 0x29] @ replicate 24 0) (1, 0, 0) = Inr 1"
proof -
  have g: "dget [(''power'', PBool True)] (fe_name (entry_of ''power'' ''bool'' (0, 0))) = Some (PBool True)" by code_simp
  have w: "raw_of_value (plain_step 1 (0, 0)) (fe_data_type (entry_of ''power'' ''bool'' (0, 0)))
      (or_zero (fe_data_type (entry_of ''power'' ''bool'' (0, 0))) (PBool True)) (gl_encodings COMMANDS) = Inr 1"
    by code_simp
  from command_carries_changes [OF power_on_command _ g commands_placed(2), unfolded w] show ?thesis by simp
qed

theorem b0_command_records_witness:
  "build_b0_command_body OBSERVED [(''fresh_air_fan_speed'', PInt 60)] COMMANDS 30 True NOW =
     Inr \<lparr>co_body = Some [0xB0, 1, 0x4B, 0, 2, 0, 60], co_preflight = [], co_fields_encoded = 2\<rparr> \<and>
   (\<exists>recs. set_loop 1 [0xB0, 1, 0x4B, 0, 2, 0, 60] 2 [] = (recs, 7) \<and> length recs = 1)"
proof -
  have b: "build_b0_command_body OBSERVED [(''fresh_air_fan_speed'', PInt 60)] COMMANDS 30 True NOW =
     Inr \<lparr>co_body = Some [0xB0, 1, 0x4B, 0, 2, 0, 60], co_preflight = [], co_fields_encoded = 2\<rparr>"
    by code_simp
  from b0_command_records [OF b, of "[0xB0, 1, 0x4B, 0, 2, 0, 60]"]
  obtain recs where "set_loop 1 [0xB0, 1, 0x4B, 0, 2, 0, 60] 2 [] = (recs, 7)" "length recs = 1"
    by (auto simp del: set_loop.simps)
  with b show ?thesis by blast
qed

end
