(* ===== verification/Status_DB.thy ===== *)
theory Status_DB
  imports Command Process Frame
begin

section \<open>The state layer of the client (\<open>blaueis/client/status_db.py\<close>)\<close>

text \<open>
  \<open>StatusDB\<close> serialises two operations over the status.  \<open>command\<close> takes a batch of changes
  through the feature, power and mode gates, expands what the changes force, masks and clamps the
  result, builds and sends the frames, and writes the values optimistically.  \<open>ingest\<close> applies a
  data frame, with the field maps cached per protocol, and records which of the watched fields changed.
  Both flush the recorded events afterwards.  The lock makes each operation one step of the model;
  what the transport does with a frame is an argument.

  The interface \<open>partition_gate\<close> states what a gate is: it splits the batch by a predicate and gives a
  reason for each rejected entry.  The three gates are instances, and so is their composition.
\<close>

subsection \<open>State\<close>

type_synonym changes = "(string, pyval) dict"

record status_db =
  db_glossary :: glossary
  db_status :: status
  db_pending :: "(string \<times> pyval \<times> pyval) list"  \<comment> \<open>field, new value, old value\<close>
  db_field_flat :: "(string, field_def) dict"
  db_field_map_cache :: "(string, field_entry list) dict"

definition new_db :: "glossary \<Rightarrow> status \<Rightarrow> status_db" where
  "new_db g st =
     \<lparr>db_glossary = g, db_status = st, db_pending = [], db_field_flat = walk_fields g, db_field_map_cache = []\<rparr>"

definition visible_modes :: "field_def option \<Rightarrow> string list option" where
  "visible_modes gdef =
     (case gdef of
        None \<Rightarrow> None
      | Some d \<Rightarrow> (case fd_ux d of None \<Rightarrow> None | Some ux \<Rightarrow> ux_visible_in_modes ux))"

definition is_active_value :: "field_def option \<Rightarrow> pyval \<Rightarrow> bool" where
  "is_active_value gdef v =
     (if (case gdef of None \<Rightarrow> False | Some d \<Rightarrow> fd_data_type d = Some ''bool'') then truthy v
      else v \<noteq> PNone \<and> \<not> py_eq v (PInt 0))"

subsection \<open>The gates\<close>

datatype reject_reason = Not_supported | Device_off | Requires_mode "string list" pyval

type_synonym rejections = "(string, reject_reason) dict"

definition filter_gate :: "changes \<Rightarrow> (string \<Rightarrow> pyval \<Rightarrow> reject_reason option) \<Rightarrow> changes \<times> rejections" where
  "filter_gate cs rejects =
     fold (\<lambda>(fname, v) (accepted, rejected).
        case rejects fname v of
          None \<Rightarrow> (dset fname v accepted, rejected)
        | Some reason \<Rightarrow> (accepted, dset fname reason rejected)) cs ([], [])"

definition apply_feature_gate :: "status \<Rightarrow> changes \<Rightarrow> changes \<times> rejections" where
  "apply_feature_gate st cs =
     filter_gate cs (\<lambda>fname _. if feature st fname = Some ''excluded'' then Some Not_supported else None)"

definition apply_power_gate :: "status \<Rightarrow> changes \<Rightarrow> changes \<times> rejections" where
  "apply_power_gate st cs =
     (if read_value st ''power'' \<noteq> PBool False then (cs, [])
      else if dget cs ''power'' = Some (PBool True) then (cs, [])
      else filter_gate cs (\<lambda>fname _. if fname = ''power'' then None else Some Device_off))"

definition gate_mode :: "status \<Rightarrow> changes \<Rightarrow> pyval" where
  "gate_mode st cs = dget_or cs ''operating_mode'' (read_value st ''operating_mode'')"

definition mode_rejects :: "(string, field_def) dict \<Rightarrow> pyval \<Rightarrow> string \<Rightarrow> pyval \<Rightarrow> reject_reason option" where
  "mode_rejects all_fields mode fname v =
     (case visible_modes (dget all_fields fname) of
        None \<Rightarrow> None
      | Some modes \<Rightarrow> if is_field_visible (dget all_fields fname) mode None then None else Some (Requires_mode modes mode))"

definition apply_mode_gate :: "status \<Rightarrow> (string, field_def) dict \<Rightarrow> changes \<Rightarrow> changes \<times> rejections" where
  "apply_mode_gate st all_fields cs = filter_gate cs (mode_rejects all_fields (gate_mode st cs))"

definition run_gates :: "status \<Rightarrow> (string, field_def) dict \<Rightarrow> changes \<Rightarrow> changes \<times> rejections" where
  "run_gates st all_fields cs =
     fold (\<lambda>gate (gated, rejected). case gate gated of (g', r) \<Rightarrow> (g', dupdate rejected r))
       [apply_feature_gate st, apply_power_gate st, apply_mode_gate st all_fields] (cs, [])"

subsection \<open>Mutual exclusion\<close>

definition forces_of :: "(string, field_def) dict \<Rightarrow> string \<Rightarrow> changes" where
  "forces_of all_fields fname = (case dget all_fields fname of None \<Rightarrow> [] | Some d \<Rightarrow> fd_forces d)"

text \<open>One target of one active field; the state is the expanded batch, the next queue and the fields seen.\<close>

definition force_target ::
  "(string, field_def) dict \<Rightarrow> string \<times> pyval \<Rightarrow> changes \<times> string list \<times> string list \<Rightarrow> changes \<times> string list \<times> string list" where
  "force_target all_fields tv acc =
     (case (tv, acc) of ((target, v), (expanded, next_queue, seen)) \<Rightarrow>
        if has_key expanded target then acc
        else if target \<notin> set seen \<and> is_active_value (dget all_fields target) v
        then (dset target v expanded, next_queue @ [target], target # seen)
        else (dset target v expanded, next_queue, seen))"

definition expand_round ::
  "(string, field_def) dict \<Rightarrow> string list \<Rightarrow> changes \<times> string list \<Rightarrow> changes \<times> string list \<times> string list" where
  "expand_round all_fields queue es =
     fold (\<lambda>fname acc. fold (force_target all_fields) (forces_of all_fields fname) acc) queue (fst es, [], snd es)"

definition MAX_DEPTH :: nat where
  "MAX_DEPTH = 10"

fun expand_rounds :: "(string, field_def) dict \<Rightarrow> nat \<Rightarrow> string list \<Rightarrow> changes \<times> string list \<Rightarrow> changes \<times> string list" where
  \<comment> \<open>the batch and the queue left over; the first argument counts down from \<open>max_depth\<close>\<close>
  "expand_rounds all_fields 0 queue es = (fst es, queue)"
| "expand_rounds all_fields (Suc d) queue es =
     (if queue = [] then (fst es, [])
      else case expand_round all_fields queue es of
             (expanded, next_queue, seen) \<Rightarrow> expand_rounds all_fields d next_queue (expanded, seen))"

definition active_fields :: "(string, field_def) dict \<Rightarrow> changes \<Rightarrow> string list" where
  "active_fields all_fields cs = map fst (filter (\<lambda>(f, v). is_active_value (dget all_fields f) v) cs)"

definition forward_pass :: "(string, field_def) dict \<Rightarrow> changes \<Rightarrow> changes \<times> string list" where
  "forward_pass all_fields cs =
     expand_rounds all_fields MAX_DEPTH (active_fields all_fields cs) (cs, active_fields all_fields cs)"

definition reverse_pass :: "status \<Rightarrow> (string, field_def) dict \<Rightarrow> changes \<Rightarrow> changes" where
  "reverse_pass st all_fields expanded =
     (case dget expanded ''operating_mode'' of
        None \<Rightarrow> expanded
      | Some new_mode \<Rightarrow>
          fold (\<lambda>(fname, gdef) out.
             if has_key out fname \<or> visible_modes (Some gdef) = None \<or> is_field_visible (Some gdef) new_mode None then out
             else let current = read_value st fname
                  in if truthy current \<and> \<not> py_eq current (PInt 0)
                     then dset fname (default_for_masked_field (Some gdef)) out else out) all_fields expanded)"

definition expand_mutex_forces :: "status \<Rightarrow> (string, field_def) dict \<Rightarrow> changes \<Rightarrow> changes" where
  "expand_mutex_forces st all_fields cs = reverse_pass st all_fields (fst (forward_pass all_fields cs))"

definition mask_value :: "(string, field_def) dict \<Rightarrow> pyval \<Rightarrow> string \<Rightarrow> pyval \<Rightarrow> pyval" where
  "mask_value all_fields mode fname v =
     (let gdef = dget all_fields fname
      in if \<not> is_active_value gdef v \<or> visible_modes gdef = None \<or> is_field_visible gdef mode None then v
         else default_for_masked_field gdef)"

definition mask_mode_invalid_forces :: "changes \<Rightarrow> (string, field_def) dict \<Rightarrow> pyval \<Rightarrow> changes" where
  "mask_mode_invalid_forces expanded all_fields mode =
     map (\<lambda>(fname, v). (fname, mask_value all_fields mode fname v)) expanded"

subsection \<open>The constraint gate\<close>

datatype clamped = Drop | Keep pyval

text \<open>\<open>min(valid_set, key=lambda x: abs(x - value))\<close>: the first nearest member, all being numbers.\<close>

fun nearest :: "rat \<Rightarrow> pyval \<times> rat \<Rightarrow> (pyval \<times> rat) list \<Rightarrow> pyval" where
  "nearest x (v, q) [] = v"
| "nearest x (v, q) ((w, r) # ws) = nearest x (if \<bar>r - x\<bar> < \<bar>q - x\<bar> then (w, r) else (v, q)) ws"

text \<open>\<open>max(lo, min(hi, value))\<close>: the first argument wins a tie.\<close>

definition py_min :: "pyval \<Rightarrow> pyval \<Rightarrow> pyval option" where
  "py_min a b = (case (num_of a, num_of b) of (Some x, Some y) \<Rightarrow> Some (if y < x then b else a) | _ \<Rightarrow> None)"

definition py_max :: "pyval \<Rightarrow> pyval \<Rightarrow> pyval option" where
  "py_max a b = (case (num_of a, num_of b) of (Some x, Some y) \<Rightarrow> Some (if x < y then b else a) | _ \<Rightarrow> None)"

definition snap_to :: "pyval list \<Rightarrow> pyval \<Rightarrow> pyval" where
  "snap_to members v =
     (case (num_of v, members) of
        (Some x, m # ms) \<Rightarrow>
          (if list_all (\<lambda>w. num_of w \<noteq> None) (m # ms)
           then nearest x (m, the (num_of m)) (map (\<lambda>w. (w, the (num_of w))) ms) else v)
      | _ \<Rightarrow> v)"

definition clamp_to_envelope :: "pyval \<Rightarrow> envelope \<Rightarrow> clamped" where
  "clamp_to_envelope v env =
     (case ev_valid_set env of
        Some [] \<Rightarrow> Drop
      | Some (m # ms) \<Rightarrow> Keep (snap_to (m # ms) v)
      | None \<Rightarrow>
          (case ev_valid_range env of
             Some [lo, hi] \<Rightarrow>
               (case py_min hi v of
                  None \<Rightarrow> Keep v
                | Some w \<Rightarrow> (case py_max lo w of None \<Rightarrow> Keep v | Some u \<Rightarrow> Keep u))
           | _ \<Rightarrow> Keep v))"

definition mode_label :: "glossary \<Rightarrow> pyval \<Rightarrow> string option" where
  "mode_label g raw_mode =
     (case dget (gl_fields g) ''control'' of
        Some (Some nodes) \<Rightarrow>
          (case dget nodes ''operating_mode'' of
             Some (Field d) \<Rightarrow>
               map_option fst (find (\<lambda>(label, r). case r of None \<Rightarrow> False | Some x \<Rightarrow> py_eq x raw_mode) (fd_values d))
           | _ \<Rightarrow> None)
      | _ \<Rightarrow> None)"

definition active_envelope :: "glossary \<Rightarrow> constraints \<Rightarrow> pyval \<Rightarrow> envelope" where
  "active_envelope g ac mode =
     (case (ac_by_mode ac, mode_label g mode) of
        (Some by_mode, Some (c # cs)) \<Rightarrow>
          (if mode = PNone then ac_top ac else dget_or by_mode (Some (c # cs)) (ac_top ac))
      | _ \<Rightarrow> ac_top ac)"

text \<open>What happens to one entry: it is skipped, dropped or replaced.\<close>

definition constrain :: "glossary \<Rightarrow> status \<Rightarrow> (string, field_def) dict \<Rightarrow> pyval \<Rightarrow> string \<Rightarrow> pyval \<Rightarrow> clamped" where
  "constrain g st all_fields mode fname v =
     (if (case dget all_fields fname of None \<Rightarrow> False | Some d \<Rightarrow> fd_data_type d = Some ''bool'') then Keep v
      else case dget (st_fields st) fname of
             None \<Rightarrow> Keep v
           | Some sf \<Rightarrow>
               (case sf_active_constraints sf of
                  None \<Rightarrow> Keep v
                | Some ac \<Rightarrow>
                    (case clamp_to_envelope v (active_envelope g ac mode) of
                       Drop \<Rightarrow> Drop
                     | Keep w \<Rightarrow> Keep (if py_eq w v then v else w))))"

definition apply_constraint_gate :: "glossary \<Rightarrow> status \<Rightarrow> changes \<Rightarrow> (string, field_def) dict \<Rightarrow> pyval \<Rightarrow> changes" where
  "apply_constraint_gate g st cs all_fields mode =
     concat (map (\<lambda>(fname, v). case constrain g st all_fields mode fname v of Drop \<Rightarrow> [] | Keep w \<Rightarrow> [(fname, w)]) cs)"

subsection \<open>Sending\<close>

definition split_by_protocol :: "changes \<Rightarrow> (string, field_def) dict \<Rightarrow> changes \<times> changes" where
  "split_by_protocol cs all_fields =
     (let b0 = (\<lambda>(fname, _). case dget all_fields fname of None \<Rightarrow> False | Some d \<Rightarrow> has_key (fd_protocols d) ''cmd_0xb0'')
      in (filter (\<lambda>e. \<not> b0 e) cs, filter b0 cs))"

text \<open>Optimistic writes; \<open>clock\<close> gives the timestamp each write takes.\<close>

definition apply_optimistic :: "(string \<Rightarrow> string) \<Rightarrow> changes \<Rightarrow> status_db \<Rightarrow> status_db" where
  "apply_optimistic clock cs db =
     fold (\<lambda>(fname, v) db.
        let old = read_value (db_status db) fname
        in if py_eq old v then db
           else db\<lparr>db_status := optimistic_write (db_status db) fname v (clock fname),
                   db_pending := db_pending db @ [(fname, v, old)]\<rparr>) cs db"

definition flush_events :: "bool \<Rightarrow> status_db \<Rightarrow> (string \<times> pyval \<times> pyval) list \<times> status_db" where
  \<comment> \<open>the callbacks fired; the flag: a callback is registered\<close>
  "flush_events registered db =
     (let merged = fold (\<lambda>(fname, new, old) m.
            case dget m fname of
              Some (_, first_old) \<Rightarrow> dset fname (new, first_old) m
            | None \<Rightarrow> dset fname (new, old) m) (db_pending db) []
      in (if registered then filter (\<lambda>(_, new, old). \<not> py_eq new old) merged else [], db\<lparr>db_pending := []\<rparr>))"

text \<open>The outside of a command: the clocks, the transport (an exception or success), the callback.\<close>

record command_env =
  ce_now_x40 :: rat
  ce_now_b0 :: rat
  ce_clock :: "string \<Rightarrow> string"
  ce_send :: "bytes \<Rightarrow> py_error option"
  ce_callback :: bool

record command_outcome =
  oc_expanded :: changes
  oc_rejected :: rejections
  oc_results :: "(string, command_result) dict"
  oc_events :: "(string \<times> pyval \<times> pyval) list"

text \<open>The frames sent so far survive an exception; the status does not change before the last step.\<close>

definition send_body :: "command_env \<Rightarrow> bytes \<Rightarrow> bytes list \<Rightarrow> bytes list \<times> unit res" where
  "send_body env body sent =
     (case build_frame body 0x02 0xAC 0 0 0 of
        Inl e \<Rightarrow> (sent, Inl e)
      | Inr frame \<Rightarrow> (case ce_send env frame of Some e \<Rightarrow> (sent, Inl e) | None \<Rightarrow> (sent @ [frame], Inr ())))"

definition send_x40 :: "status_db \<Rightarrow> command_env \<Rightarrow> changes \<Rightarrow> bytes list \<times> (string, command_result) dict res" where
  "send_x40 db env x40 =
     (if x40 = [] then ([], Inr [])
      else case build_command_body (db_status db) x40 (db_glossary db) DEFAULT_PREFLIGHT_THRESHOLD_SECONDS False (ce_now_x40 env) of
             Inl e \<Rightarrow> ([], Inl e)
           | Inr r \<Rightarrow>
               (case co_body r of
                  Some body \<Rightarrow> (case send_body env body [] of (sent, s) \<Rightarrow> (sent, bind_res s (\<lambda>_. Inr [(''cmd_0x40'', r)])))
                | None \<Rightarrow> ([], Inr (if co_preflight r \<noteq> [] then [(''cmd_0x40'', r)] else []))))"

definition send_b0 :: "status_db \<Rightarrow> command_env \<Rightarrow> changes \<Rightarrow> bytes list \<Rightarrow> (string, command_result) dict \<Rightarrow>
    bytes list \<times> (string, command_result) dict res" where
  "send_b0 db env b0 sent results =
     (if b0 = [] then (sent, Inr results)
      else case build_b0_command_body (db_status db) b0 (db_glossary db) DEFAULT_PREFLIGHT_THRESHOLD_SECONDS False (ce_now_b0 env) of
             Inl e \<Rightarrow> (sent, Inl e)
           | Inr r \<Rightarrow>
               (case co_body r of
                  Some body \<Rightarrow>
                    (case send_body env body sent of (sent', s) \<Rightarrow> (sent', bind_res s (\<lambda>_. Inr (dset ''cmd_0xb0'' r results))))
                | None \<Rightarrow> (sent, Inr results)))"

definition prepare :: "status_db \<Rightarrow> changes \<Rightarrow> changes \<times> rejections" where
  "prepare db cs =
     (let all_fields = walk_fields (db_glossary db);
          st = db_status db;
          (gated, rejected) = run_gates st all_fields cs;
          expanded = expand_mutex_forces st all_fields gated;
          mode = dget_or expanded ''operating_mode'' (read_value st ''operating_mode'');
          masked = mask_mode_invalid_forces expanded all_fields mode
      in (apply_constraint_gate (db_glossary db) st masked all_fields mode, rejected))"

definition db_command :: "status_db \<Rightarrow> changes \<Rightarrow> command_env \<Rightarrow> status_db \<times> bytes list \<times> command_outcome res" where
  "db_command db cs env =
     (let (expanded, rejected) = prepare db cs;
          (x40, b0) = split_by_protocol expanded (walk_fields (db_glossary db))
      in case send_x40 db env x40 of
           (sent, Inl e) \<Rightarrow> (db, sent, Inl e)
         | (sent, Inr results) \<Rightarrow>
             (case send_b0 db env b0 sent results of
                (sent', Inl e) \<Rightarrow> (db, sent', Inl e)
              | (sent', Inr results') \<Rightarrow>
                  (case flush_events (ce_callback env) (apply_optimistic (ce_clock env) expanded db) of
                     (events, db') \<Rightarrow>
                       (db', sent', Inr \<lparr>oc_expanded = expanded, oc_rejected = rejected, oc_results = results',
                                          oc_events = events\<rparr>))))"

subsection \<open>Ingest\<close>

definition cached_map :: "status_db \<Rightarrow> string \<Rightarrow> field_entry list \<times> status_db" where
  "cached_map db key =
     (case dget (db_field_map_cache db) key of
        Some fm \<Rightarrow> (fm, db)
      | None \<Rightarrow>
          (let fm = build_field_map (db_glossary db) key
           in (fm, db\<lparr>db_field_map_cache := dset key fm (db_field_map_cache db)\<rparr>)))"

definition snapshot :: "status \<Rightarrow> string list option \<Rightarrow> (string, pyval) dict" where
  "snapshot st watched =
     (case watched of None \<Rightarrow> [] | Some watch \<Rightarrow> fold (\<lambda>n. dset n (read_value st n)) watch [])"

definition detect_changes :: "(string, pyval) dict \<Rightarrow> string list option \<Rightarrow> status_db \<Rightarrow> status_db" where
  "detect_changes snap watched db =
     (case watched of
        None \<Rightarrow> db
      | Some watch \<Rightarrow>
          db\<lparr>db_pending := db_pending db @
               concat (map (\<lambda>n. let new = read_value (db_status db) n; old = dget_or snap n PNone
                                 in if py_eq new old then [] else [(n, new, old)]) watch)\<rparr>)"

definition db_ingest ::
  "status_db \<Rightarrow> bytes \<Rightarrow> string \<Rightarrow> string option \<Rightarrow> string \<Rightarrow> string list option \<Rightarrow> bool \<Rightarrow>
   (status_db \<times> (string \<times> pyval \<times> pyval) list) res" where
  "db_ingest db body key timestamp now watched registered =
     (let snap = snapshot (db_status db) watched;
          (fm, db1) = cached_map db key
      in bind_res (process_data_frame (db_status db1) body key (db_glossary db1) (Some (or_now timestamp now)) now (Some fm))
           (\<lambda>st'. case flush_events registered (detect_changes snap watched (db1\<lparr>db_status := st'\<rparr>)) of
                     (events, db') \<Rightarrow> Inr (db', events)))"

subsection \<open>What a gate promises\<close>

lemma dkeys_simps [simp]: "dkeys [] = []" "dkeys ((k, v) # d) = k # dkeys d" "dkeys (d @ e) = dkeys d @ dkeys e"
  by (simp_all add: dkeys_def)

lemma set_dkeys_dset [simp]: "set (dkeys (dset k v d)) = insert k (set (dkeys d))"
  by (auto simp: dkeys_dset has_key_set)

lemma dset_new: "k \<notin> set (dkeys d) \<Longrightarrow> dset k v d = d @ [(k, v)]"
  by (induction d) (auto simp: dkeys_def)

lemma set_dkeys_dupdate: "set (dkeys (dupdate d e)) = set (dkeys d) \<union> set (dkeys e)"
proof -
  have "set (dkeys (fold (\<lambda>(k, v). dset k v) e d)) = set (dkeys d) \<union> set (dkeys e)"
    by (induction e arbitrary: d) auto
  then show ?thesis by (simp add: dupdate_def)
qed

lemma same_key: "distinct (dkeys d) \<Longrightarrow> (k, v) \<in> set d \<Longrightarrow> (k, w) \<in> set d \<Longrightarrow> v = w"
  unfolding dkeys_def by (rule eq_key_imp_eq_value)

locale partition_gate =
  fixes gate :: "('k \<times> 'v) list \<Rightarrow> ('k \<times> 'v) list \<times> ('k \<times> 'r) list"
    and keep :: "('k \<times> 'v) list \<Rightarrow> 'k \<Rightarrow> 'v \<Rightarrow> bool"
  assumes accepted: "distinct (dkeys cs) \<Longrightarrow> fst (gate cs) = filter (\<lambda>(k, v). keep cs k v) cs"
    and rejected: "distinct (dkeys cs) \<Longrightarrow> set (dkeys (snd (gate cs))) = {k. \<exists>v. (k, v) \<in> set cs \<and> \<not> keep cs k v}"
begin

lemma distinct_accepted: "distinct (dkeys cs) \<Longrightarrow> distinct (dkeys (fst (gate cs)))"
  by (simp add: accepted dkeys_def distinct_map_filter)

lemma accepted_subset: "distinct (dkeys cs) \<Longrightarrow> set (fst (gate cs)) \<subseteq> set cs"
  by (auto simp: accepted)

lemma in_accepted: "distinct (dkeys cs) \<Longrightarrow> (k, v) \<in> set (fst (gate cs)) \<longleftrightarrow> (k, v) \<in> set cs \<and> keep cs k v"
  by (auto simp: accepted)

text \<open>Every entry is accepted with its value or rejected, never both.\<close>

lemma partition:
  assumes "distinct (dkeys cs)" and "(k, v) \<in> set cs"
  shows "(k, v) \<in> set (fst (gate cs)) \<longleftrightarrow> k \<notin> set (dkeys (snd (gate cs)))"
proof -
  have "(k, w) \<in> set cs \<Longrightarrow> w = v" for w
    using same_key [OF assms] by blast
  then have "k \<in> set (dkeys (snd (gate cs))) \<longleftrightarrow> \<not> keep cs k v"
    unfolding rejected [OF assms(1)] using assms(2) by blast
  then show ?thesis using assms(2) in_accepted [OF assms(1)] by simp
qed

end

text \<open>Two gates in a row are a gate.\<close>

locale gate_pair = g1: partition_gate gate1 keep1 + g2: partition_gate gate2 keep2
  for gate1 :: "('k \<times> 'v) list \<Rightarrow> ('k \<times> 'v) list \<times> ('k \<times> 'r) list" and keep1
    and gate2 :: "('k \<times> 'v) list \<Rightarrow> ('k \<times> 'v) list \<times> ('k \<times> 'r) list" and keep2
begin

definition both :: "('k \<times> 'v) list \<Rightarrow> ('k \<times> 'v) list \<times> ('k \<times> 'r) list" where
  "both cs = (case gate1 cs of (a, r) \<Rightarrow> (case gate2 a of (b, r') \<Rightarrow> (b, dupdate r r')))"

definition keep_both :: "('k \<times> 'v) list \<Rightarrow> 'k \<Rightarrow> 'v \<Rightarrow> bool" where
  "keep_both cs k v \<longleftrightarrow> keep1 cs k v \<and> keep2 (fst (gate1 cs)) k v"

end

sublocale gate_pair < both: partition_gate both keep_both
proof
  fix cs :: "('k \<times> 'v) list"
  assume d: "distinct (dkeys cs)"
  obtain a r where a: "gate1 cs = (a, r)" by (cases "gate1 cs")
  obtain b r' where b: "gate2 a = (b, r')" by (cases "gate2 a")
  have da: "distinct (dkeys a)" using g1.distinct_accepted [OF d] a by simp
  have A: "a = filter (\<lambda>(k, v). keep1 cs k v) cs" using g1.accepted [OF d] a by simp
  have B: "b = filter (\<lambda>(k, v). keep2 a k v) a" using g2.accepted [OF da] b by simp
  have R: "set (dkeys r) = {k. \<exists>v. (k, v) \<in> set cs \<and> \<not> keep1 cs k v}"
    and R': "set (dkeys r') = {k. \<exists>v. (k, v) \<in> set a \<and> \<not> keep2 a k v}"
    using g1.rejected [OF d] g2.rejected [OF da] a b by simp_all
  have mem: "(k, v) \<in> set a \<longleftrightarrow> (k, v) \<in> set cs \<and> keep1 cs k v" for k v by (auto simp: A)
  have both: "both cs = (b, dupdate r r')" by (simp add: both_def a b)
  have "b = filter (\<lambda>(k, v). keep1 cs k v \<and> keep2 a k v) cs"
    unfolding B by (subst A) (simp add: filter_filter case_prod_unfold conj_commute)
  then show "fst (both cs) = filter (\<lambda>(k, v). keep_both cs k v) cs"
    by (simp add: both keep_both_def a)
  show "set (dkeys (snd (both cs))) = {k. \<exists>v. (k, v) \<in> set cs \<and> \<not> keep_both cs k v}"
    unfolding both snd_conv set_dkeys_dupdate R R' mem keep_both_def a fst_conv by blast
qed

lemma filter_gate_eq:
  assumes "distinct (dkeys cs)"
  shows "fst (filter_gate cs rejects) = filter (\<lambda>(k, v). rejects k v = None) cs"
    and "set (dkeys (snd (filter_gate cs rejects))) = {k. \<exists>v. (k, v) \<in> set cs \<and> rejects k v \<noteq> None}"
proof -
  let ?step = "\<lambda>(fname, v) (accepted, rejected). case rejects fname v of
      None \<Rightarrow> (dset fname v accepted, rejected) | Some reason \<Rightarrow> (accepted, dset fname reason rejected)"
  have "distinct (dkeys xs) \<Longrightarrow> set (dkeys xs) \<inter> set (dkeys a) = {} \<Longrightarrow>
      fst (fold ?step xs (a, r)) = a @ filter (\<lambda>(k, v). rejects k v = None) xs \<and>
      set (dkeys (snd (fold ?step xs (a, r)))) = set (dkeys r) \<union> {k. \<exists>v. (k, v) \<in> set xs \<and> rejects k v \<noteq> None}" for xs a r
  proof (induction xs arbitrary: a r)
    case Nil
    then show ?case by simp
  next
    case (Cons x xs)
    obtain k v where x: "x = (k, v)" by (cases x)
    have app: "dset k v a = a @ [(k, v)]" using Cons.prems x by (intro dset_new) simp
    show ?case
    proof (cases "rejects k v")
      case None
      have "set (dkeys xs) \<inter> set (dkeys (a @ [(k, v)])) = {}" using Cons.prems x by auto
      then show ?thesis using Cons.IH [of "a @ [(k, v)]" r] Cons.prems(1) None x app by auto
    next
      case (Some e)
      have "set (dkeys xs) \<inter> set (dkeys a) = {}" using Cons.prems x by auto
      then show ?thesis using Cons.IH [of a "dset k e r"] Cons.prems(1) Some x by auto
    qed
  qed
  from this [of cs "[]" "[]"] assms
  show "fst (filter_gate cs rejects) = filter (\<lambda>(k, v). rejects k v = None) cs"
    and "set (dkeys (snd (filter_gate cs rejects))) = {k. \<exists>v. (k, v) \<in> set cs \<and> rejects k v \<noteq> None}"
    by (simp_all add: filter_gate_def)
qed

definition power_allows :: "status \<Rightarrow> changes \<Rightarrow> string \<Rightarrow> bool" where
  "power_allows st cs fname \<longleftrightarrow>
     read_value st ''power'' \<noteq> PBool False \<or> dget cs ''power'' = Some (PBool True) \<or> fname = ''power''"

interpretation feature_gate: partition_gate "apply_feature_gate st" "\<lambda>_ fname _. feature st fname \<noteq> Some ''excluded''" for st
  by unfold_locales (auto simp: apply_feature_gate_def filter_gate_eq intro!: filter_cong split: if_splits)

interpretation power_gate: partition_gate "apply_power_gate st" "\<lambda>cs fname _. power_allows st cs fname" for st
  by unfold_locales (auto simp: apply_power_gate_def filter_gate_eq power_allows_def intro!: filter_cong split: if_splits)

interpretation mode_gate: partition_gate "apply_mode_gate st all_fields"
    "\<lambda>cs fname v. mode_rejects all_fields (gate_mode st cs) fname v = None" for st all_fields
  by unfold_locales (auto simp: apply_mode_gate_def filter_gate_eq)

interpretation feature_power: gate_pair "apply_feature_gate st" "\<lambda>_ fname _. feature st fname \<noteq> Some ''excluded''"
    "apply_power_gate st" "\<lambda>cs fname _. power_allows st cs fname" for st
  by unfold_locales

interpretation all_gates: gate_pair
    "gate_pair.both (apply_feature_gate st) (apply_power_gate st)"
    "gate_pair.keep_both (apply_feature_gate st) (\<lambda>_ fname _. feature st fname \<noteq> Some ''excluded'') (\<lambda>cs fname _. power_allows st cs fname)"
    "apply_mode_gate st all_fields" "\<lambda>cs fname v. mode_rejects all_fields (gate_mode st cs) fname v = None" for st all_fields
  by unfold_locales

definition passes_gates :: "status \<Rightarrow> (string, field_def) dict \<Rightarrow> changes \<Rightarrow> string \<Rightarrow> pyval \<Rightarrow> bool" where
  "passes_gates st all_fields cs fname v \<longleftrightarrow>
     (let supported = filter (\<lambda>(f, _). feature st f \<noteq> Some ''excluded'') cs;
          powered = filter (\<lambda>(f, _). power_allows st supported f) supported
      in feature st fname \<noteq> Some ''excluded'' \<and> power_allows st supported fname \<and>
         mode_rejects all_fields (gate_mode st powered) fname v = None)"

lemma run_gates_both:
  "fst (run_gates st all_fields cs) =
     fst (gate_pair.both (gate_pair.both (apply_feature_gate st) (apply_power_gate st)) (apply_mode_gate st all_fields) cs)"
  "set (dkeys (snd (run_gates st all_fields cs))) =
     set (dkeys (snd (gate_pair.both (gate_pair.both (apply_feature_gate st) (apply_power_gate st)) (apply_mode_gate st all_fields) cs)))"
  by (auto simp: run_gates_def all_gates.both_def feature_power.both_def set_dkeys_dupdate split: prod.splits)

lemma keep_all:
  assumes "distinct (dkeys cs)"
  shows "gate_pair.keep_both (gate_pair.both (apply_feature_gate st) (apply_power_gate st))
      (gate_pair.keep_both (apply_feature_gate st) (\<lambda>_ fname _. feature st fname \<noteq> Some ''excluded'') (\<lambda>cs fname _. power_allows st cs fname))
      (\<lambda>cs fname v. mode_rejects all_fields (gate_mode st cs) fname v = None) cs f v \<longleftrightarrow> passes_gates st all_fields cs f v"
proof -
  have F: "fst (apply_feature_gate st cs) = filter (\<lambda>(f, _). feature st f \<noteq> Some ''excluded'') cs"
    by (rule feature_gate.accepted [OF assms])
  have FP: "fst (gate_pair.both (apply_feature_gate st) (apply_power_gate st) cs) =
      filter (\<lambda>(f, _). power_allows st (fst (apply_feature_gate st cs)) f) (fst (apply_feature_gate st cs))"
    using power_gate.accepted [OF feature_gate.distinct_accepted [OF assms], of st st]
    by (simp add: feature_power.both_def case_prod_unfold)
  show ?thesis
    unfolding all_gates.keep_both_def feature_power.keep_both_def FP F passes_gates_def Let_def by simp
qed

lemma run_gates_exact:
  assumes "distinct (dkeys cs)" and "(f, v) \<in> set cs"
  shows "(f, v) \<in> set (fst (run_gates st all_fields cs)) \<longleftrightarrow> passes_gates st all_fields cs f v"
    and "f \<in> set (dkeys (snd (run_gates st all_fields cs))) \<longleftrightarrow> \<not> passes_gates st all_fields cs f v"
    and "set (fst (run_gates st all_fields cs)) \<subseteq> set cs"
  using all_gates.both.in_accepted [OF assms(1), of f v st all_fields] all_gates.both.partition [OF assms, of st all_fields]
    all_gates.both.accepted_subset [OF assms(1), of st all_fields] assms(2)
  unfolding run_gates_both keep_all [OF assms(1)] by blast+

lemma run_gates_distinct: "distinct (dkeys cs) \<Longrightarrow> distinct (dkeys (fst (run_gates st all_fields cs)))"
  unfolding run_gates_both by (rule all_gates.both.distinct_accepted)

subsection \<open>Lemmas on mutual exclusion\<close>

text \<open>The forward pass never overwrites an entry, and adds only what an active field forces.\<close>

definition keeps_entries :: "changes \<Rightarrow> changes \<Rightarrow> bool" where
  "keeps_entries cs cs' \<longleftrightarrow> (\<forall>f. has_key cs f \<longrightarrow> dget cs' f = dget cs f)"

lemma keeps_entries_refl [simp]: "keeps_entries cs cs"
  by (simp add: keeps_entries_def)

lemma keeps_entries_trans: "keeps_entries a b \<Longrightarrow> keeps_entries b c \<Longrightarrow> keeps_entries a c"
  by (auto simp: keeps_entries_def has_key_def)

lemma keeps_entries_dset: "\<not> has_key cs f \<Longrightarrow> keeps_entries cs (dset f v cs)"
  by (auto simp: keeps_entries_def)

lemma keeps_has_key: "keeps_entries cs cs' \<Longrightarrow> has_key cs f \<Longrightarrow> has_key cs' f"
  by (auto simp: keeps_entries_def has_key_def)

abbreviation active_in :: "(string, field_def) dict \<Rightarrow> changes \<Rightarrow> string \<Rightarrow> bool" where
  "active_in all_fields cs f \<equiv> (\<exists>v. dget cs f = Some v \<and> is_active_value (dget all_fields f) v)"

definition forces_closed :: "(string, field_def) dict \<Rightarrow> changes \<Rightarrow> string \<Rightarrow> bool" where
  "forces_closed all_fields cs f \<longleftrightarrow> (\<forall>t \<in> set (dkeys (forces_of all_fields f)). has_key cs t)"

text \<open>The invariant of the queue: what is active and not queued is closed; what was seen is in the batch.\<close>

definition queue_inv :: "(string, field_def) dict \<Rightarrow> string set \<Rightarrow> changes \<times> string list \<times> string list \<Rightarrow> bool" where
  "queue_inv all_fields todo s \<longleftrightarrow>
     (case s of (expanded, next_queue, seen) \<Rightarrow>
        (\<forall>f. active_in all_fields expanded f \<longrightarrow> f \<in> todo \<or> f \<in> set next_queue \<or> forces_closed all_fields expanded f) \<and>
        (\<forall>f \<in> set seen. has_key expanded f))"

lemma forces_closed_mono: "forces_closed all_fields cs f \<Longrightarrow> keeps_entries cs cs' \<Longrightarrow> forces_closed all_fields cs' f"
  using keeps_has_key by (auto simp: forces_closed_def)

lemma force_target_step:
  assumes "queue_inv all_fields todo (expanded, nq, seen)" and "force_target all_fields (t, v) (expanded, nq, seen) = (e', nq', s')"
  shows "queue_inv all_fields todo (e', nq', s') \<and> keeps_entries expanded e' \<and> has_key e' t \<and>
    (\<forall>f w. dget e' f = Some w \<longrightarrow> dget expanded f = Some w \<or> f = t \<and> w = v)"
proof (cases "has_key expanded t")
  case True
  then show ?thesis using assms by (auto simp: force_target_def)
next
  case False
  then have new: "e' = dset t v expanded" "t \<notin> set seen" using assms by (auto simp: force_target_def queue_inv_def split: if_splits)
  then have k: "keeps_entries expanded e'" using keeps_entries_dset [OF False] by simp
  have q: "set nq \<subseteq> set nq' \<and> (is_active_value (dget all_fields t) v \<longrightarrow> t \<in> set nq') \<and> (\<forall>f \<in> set s'. f \<in> set seen \<or> f = t)"
    using False new(2) assms(2) by (auto simp: force_target_def split: if_splits)
  have "f \<in> todo \<or> f \<in> set nq' \<or> forces_closed all_fields e' f" if "active_in all_fields e' f" for f
  proof (cases "f = t")
    case True
    then show ?thesis using that q new(1) by auto
  next
    case False
    then have "active_in all_fields expanded f" using that new(1) by simp
    then show ?thesis using assms(1) q forces_closed_mono [OF _ k] by (auto simp: queue_inv_def)
  qed
  moreover have "\<forall>f \<in> set s'. has_key e' f" using assms(1) q new(1) by (auto simp: queue_inv_def)
  ultimately show ?thesis using k new(1) by (auto simp: queue_inv_def)
qed

lemma force_targets_fold:
  assumes "queue_inv all_fields todo (expanded, nq, seen)"
    and "fold (force_target all_fields) ts (expanded, nq, seen) = (e', nq', s')"
  shows "queue_inv all_fields todo (e', nq', s') \<and> keeps_entries expanded e' \<and> (\<forall>t \<in> set (dkeys ts). has_key e' t) \<and>
    (\<forall>f w. dget e' f = Some w \<longrightarrow> dget expanded f = Some w \<or> (f, w) \<in> set ts)"
  using assms
proof (induction ts arbitrary: expanded nq seen)
  case Nil
  then show ?case by simp
next
  case (Cons tv ts)
  obtain t v where tv: "tv = (t, v)" by (cases tv)
  obtain e1 n1 s1 where 1: "force_target all_fields (t, v) (expanded, nq, seen) = (e1, n1, s1)"
    by (metis prod_cases3)
  have 2: "fold (force_target all_fields) ts (e1, n1, s1) = (e', nq', s')" using Cons.prems(2) tv 1 by simp
  note a = force_target_step [OF Cons.prems(1) 1]
  then have "queue_inv all_fields todo (e1, n1, s1)" by blast
  note b = Cons.IH [OF this 2]
  have "has_key e' t" using a b keeps_has_key by blast
  moreover have "keeps_entries expanded e'" using a b keeps_entries_trans by blast
  moreover have "dget expanded f = Some w \<or> (f, w) \<in> set (tv # ts)" if "dget e' f = Some w" for f w
  proof -
    have "dget e1 f = Some w \<or> (f, w) \<in> set ts" using b that by blast
    then show ?thesis using a tv by (metis list.set_intros)
  qed
  ultimately show ?case using b tv by auto
qed

text \<open>One round closes the fields it takes from the queue.\<close>

lemma expand_fields_fold:
  assumes "queue_inv all_fields (insert_all \<union> set queue) (expanded, nq, seen)"
    and "fold (\<lambda>fname acc. fold (force_target all_fields) (forces_of all_fields fname) acc) queue (expanded, nq, seen) = (e', nq', s')"
  shows "queue_inv all_fields insert_all (e', nq', s') \<and> keeps_entries expanded e' \<and>
    (\<forall>f w. dget e' f = Some w \<longrightarrow> dget expanded f = Some w \<or> (\<exists>g \<in> set queue. (f, w) \<in> set (forces_of all_fields g)))"
  using assms
proof (induction queue arbitrary: expanded nq seen)
  case Nil
  then show ?case by simp
next
  case (Cons g queue)
  obtain e1 n1 s1 where 1: "fold (force_target all_fields) (forces_of all_fields g) (expanded, nq, seen) = (e1, n1, s1)"
    by (metis prod_cases3)
  have 2: "fold (\<lambda>fname acc. fold (force_target all_fields) (forces_of all_fields fname) acc) queue (e1, n1, s1) = (e', nq', s')"
    using Cons.prems(2) 1 by simp
  note a = force_targets_fold [OF Cons.prems(1) 1]
  have "forces_closed all_fields e1 g" using a by (simp add: forces_closed_def)
  with a have "queue_inv all_fields (insert_all \<union> set queue) (e1, n1, s1)"
    by (auto simp: queue_inv_def)
  note b = Cons.IH [OF this 2]
  have k: "keeps_entries expanded e'" using a b keeps_entries_trans by blast
  have "dget expanded f = Some w \<or> (\<exists>h \<in> set (g # queue). (f, w) \<in> set (forces_of all_fields h))"
    if "dget e' f = Some w" for f w
  proof -
    have "dget e1 f = Some w \<or> (\<exists>h \<in> set queue. (f, w) \<in> set (forces_of all_fields h))" using b that by blast
    then show ?thesis using a by auto
  qed
  then show ?case using b k by blast
qed

lemma expand_rounds_inv:
  assumes "queue_inv all_fields (set queue) (cs, [], seen)" and "expand_rounds all_fields d queue (cs, seen) = (out, left)"
  shows "keeps_entries cs out \<and> (\<forall>f. active_in all_fields out f \<longrightarrow> f \<in> set left \<or> forces_closed all_fields out f) \<and>
    (\<forall>f w. dget out f = Some w \<longrightarrow> dget cs f = Some w \<or> (\<exists>g. (f, w) \<in> set (forces_of all_fields g)))"
  using assms
proof (induction d arbitrary: queue cs seen)
  case 0
  then show ?case by (auto simp: queue_inv_def)
next
  case (Suc d)
  show ?case
  proof (cases "queue = []")
    case True
    then show ?thesis using Suc.prems by (auto simp: queue_inv_def)
  next
    case False
    obtain e1 n1 s1 where 1: "expand_round all_fields queue (cs, seen) = (e1, n1, s1)" by (metis prod_cases3)
    have "queue_inv all_fields ({} \<union> set queue) (cs, [], seen)" using Suc.prems(1) by simp
    note a = expand_fields_fold [OF this] 1 [unfolded expand_round_def fst_conv snd_conv]
    note a' = a(1) [OF a(2)]
    have "queue_inv all_fields (set n1) (e1, [], s1)" using a' by (simp add: queue_inv_def)
    from Suc.IH [OF this] have b: "keeps_entries e1 out \<and>
        (\<forall>f. active_in all_fields out f \<longrightarrow> f \<in> set left \<or> forces_closed all_fields out f) \<and>
        (\<forall>f w. dget out f = Some w \<longrightarrow> dget e1 f = Some w \<or> (\<exists>g. (f, w) \<in> set (forces_of all_fields g)))"
      using Suc.prems(2) False 1 by simp
    have k: "keeps_entries cs out" using a' b keeps_entries_trans by blast
    have p: "dget cs f = Some w \<or> (\<exists>g. (f, w) \<in> set (forces_of all_fields g))" if "dget out f = Some w" for f w
      using a' b that by blast
    show ?thesis using k p b by blast
  qed
qed

lemma active_fields_member: "f \<in> set (active_fields all_fields cs) \<longleftrightarrow> (\<exists>v. (f, v) \<in> set cs \<and> is_active_value (dget all_fields f) v)"
  by (force simp: active_fields_def)

lemma forward_pass_inv:
  assumes "forward_pass all_fields cs = (out, left)"
  shows "keeps_entries cs out \<and> (\<forall>f. active_in all_fields out f \<longrightarrow> f \<in> set left \<or> forces_closed all_fields out f) \<and>
    (\<forall>f w. dget out f = Some w \<longrightarrow> dget cs f = Some w \<or> (\<exists>g. (f, w) \<in> set (forces_of all_fields g)))"
proof (rule expand_rounds_inv)
  show "queue_inv all_fields (set (active_fields all_fields cs)) (cs, [], active_fields all_fields cs)"
    by (auto simp: queue_inv_def active_fields_member has_key_set dkeys_def dest: map_of_SomeD) force
  show "expand_rounds all_fields MAX_DEPTH (active_fields all_fields cs) (cs, active_fields all_fields cs) = (out, left)"
    using assms by (simp add: forward_pass_def)
qed

text \<open>The reverse pass adds safe values of fields hidden in the new mode.\<close>

lemma reverse_pass_inv:
  "keeps_entries cs (reverse_pass st all_fields cs) \<and>
   (\<forall>f w. dget (reverse_pass st all_fields cs) f = Some w \<longrightarrow> dget cs f = Some w \<or>
      (\<exists>d mode. (f, d) \<in> set all_fields \<and> dget cs ''operating_mode'' = Some mode \<and>
         \<not> is_field_visible (Some d) mode None \<and> w = default_for_masked_field (Some d)))"
proof (cases "dget cs ''operating_mode''")
  case None
  then show ?thesis by (simp add: reverse_pass_def)
next
  case (Some mode)
  let ?step = "\<lambda>(fname, gdef) out.
      if has_key out fname \<or> visible_modes (Some gdef) = None \<or> is_field_visible (Some gdef) mode None then out
      else let current = read_value st fname in if truthy current \<and> \<not> py_eq current (PInt 0)
        then dset fname (default_for_masked_field (Some gdef)) out else out"
  have "keeps_entries out (fold ?step fs out) \<and>
      (\<forall>f w. dget (fold ?step fs out) f = Some w \<longrightarrow> dget out f = Some w \<or>
         (\<exists>d. (f, d) \<in> set fs \<and> \<not> is_field_visible (Some d) mode None \<and> w = default_for_masked_field (Some d)))" for fs out
  proof (induction fs arbitrary: out)
    case Nil
    then show ?case by simp
  next
    case (Cons fd fs)
    obtain f d where fd: "fd = (f, d)" by (cases fd)
    define out1 where "out1 = ?step fd out"
    have 1: "keeps_entries out out1" and 2: "dget out1 g = Some w \<Longrightarrow> dget out g = Some w \<or>
        g = f \<and> \<not> is_field_visible (Some d) mode None \<and> w = default_for_masked_field (Some d)" for g w
      by (auto simp: out1_def fd Let_def keeps_entries_dset split: if_splits)
    have eq: "fold ?step (fd # fs) out = fold ?step fs out1" by (simp add: out1_def)
    note ih = Cons.IH [of out1]
    have "keeps_entries out (fold ?step fs out1)" using 1 ih keeps_entries_trans by blast
    moreover have "dget out g = Some w \<or>
        (\<exists>d'. (g, d') \<in> set (fd # fs) \<and> \<not> is_field_visible (Some d') mode None \<and> w = default_for_masked_field (Some d'))"
      if "dget (fold ?step fs out1) g = Some w" for g w
    proof -
      from ih that have "dget out1 g = Some w \<or>
        (\<exists>d'. (g, d') \<in> set fs \<and> \<not> is_field_visible (Some d') mode None \<and> w = default_for_masked_field (Some d'))" by blast
      then show ?thesis using 2 [of g w] unfolding fd by auto
    qed
    ultimately show ?case unfolding eq by blast
  qed
  from this [of cs all_fields] show ?thesis using Some by (auto simp: reverse_pass_def)
qed

subsection \<open>Lemmas on the constraint gate\<close>

lemma nearest_in: "nearest x (v, q) ws \<in> insert v (fst ` set ws)"
  by (induction x "(v, q)" ws arbitrary: v q rule: nearest.induct) (auto split: if_splits)

lemma snap_member:
  assumes "num_of v \<noteq> None" and "members \<noteq> []" and "list_all (\<lambda>w. num_of w \<noteq> None) members"
  shows "snap_to members v \<in> set members"
proof -
  obtain x m ms where "num_of v = Some x" "members = m # ms" using assms(1,2) by (cases members) auto
  then show ?thesis using assms(3) nearest_in [of x m "the (num_of m)" "map (\<lambda>w. (w, the (num_of w))) ms"]
    by (auto simp: snap_to_def image_image)
qed

lemma clamp_range:
  assumes "ev_valid_set env = None" and "ev_valid_range env = Some [lo, hi]"
    and "num_of lo = Some l" and "num_of hi = Some h" and "num_of v = Some x"
  shows "\<exists>w. clamp_to_envelope v env = Keep w \<and> num_of w = Some (max l (min h x))"
  using assms by (auto simp: clamp_to_envelope_def py_min_def py_max_def)

lemma py_eq_num: "py_eq v w \<Longrightarrow> num_of v = num_of w"
  by (auto simp: py_eq_def split: option.splits)

lemma in_constraint_gate:
  "(f, w) \<in> set (apply_constraint_gate g st cs all_fields mode) \<longleftrightarrow>
     (\<exists>v. (f, v) \<in> set cs \<and> constrain g st all_fields mode f v = Keep w)"
  by (force simp: apply_constraint_gate_def split: clamped.splits)

lemma distinct_constraint_gate:
  "distinct (dkeys cs) \<Longrightarrow> distinct (dkeys (apply_constraint_gate g st cs all_fields mode))"
proof (induction cs)
  case Nil
  then show ?case by (simp add: apply_constraint_gate_def)
next
  case (Cons fv cs)
  obtain f v where fv: "fv = (f, v)" by (cases fv)
  have "set (dkeys (apply_constraint_gate g st cs all_fields mode)) \<subseteq> set (dkeys cs)"
    by (force simp: dkeys_def in_constraint_gate)
  moreover have "apply_constraint_gate g st (fv # cs) all_fields mode =
      (case constrain g st all_fields mode f v of Drop \<Rightarrow> [] | Keep w \<Rightarrow> [(f, w)]) @ apply_constraint_gate g st cs all_fields mode"
    by (simp add: apply_constraint_gate_def fv)
  ultimately show ?case using Cons fv by (auto split: clamped.split)
qed

lemma distinct_force_targets: "distinct (dkeys (fst acc)) \<Longrightarrow> distinct (dkeys (fst (fold (force_target all_fields) ts acc)))"
proof (induction ts arbitrary: acc)
  case Nil
  then show ?case by simp
next
  case (Cons t ts)
  have "distinct (dkeys (fst (force_target all_fields t acc)))"
    using Cons.prems by (auto simp: force_target_def split: prod.split)
  then show ?case using Cons.IH by simp
qed

lemma distinct_expand_round: "distinct (dkeys (fst es)) \<Longrightarrow> distinct (dkeys (fst (expand_round all_fields queue es)))"
proof -
  have "distinct (dkeys (fst acc)) \<Longrightarrow>
      distinct (dkeys (fst (fold (\<lambda>fname acc. fold (force_target all_fields) (forces_of all_fields fname) acc) queue acc)))" for acc
  proof (induction queue arbitrary: acc)
    case Nil
    then show ?case by simp
  next
    case (Cons g queue)
    show ?case using Cons.IH [OF distinct_force_targets [OF Cons.prems]] by simp
  qed
  then show "distinct (dkeys (fst es)) \<Longrightarrow> ?thesis" by (simp add: expand_round_def)
qed

lemma distinct_expand_rounds: "distinct (dkeys (fst es)) \<Longrightarrow> distinct (dkeys (fst (expand_rounds all_fields d queue es)))"
proof (induction d arbitrary: queue es)
  case 0
  then show ?case by simp
next
  case (Suc d)
  have "distinct (dkeys (fst (expand_round all_fields queue es)))" by (rule distinct_expand_round [OF Suc.prems])
  then show ?case using Suc by (auto split: prod.split)
qed

lemma distinct_reverse_pass: "distinct (dkeys cs) \<Longrightarrow> distinct (dkeys (reverse_pass st all_fields cs))"
proof (cases "dget cs ''operating_mode''")
  case (Some mode)
  assume d: "distinct (dkeys cs)"
  have "distinct (dkeys out) \<Longrightarrow> distinct (dkeys (fold (\<lambda>(fname, gdef) out.
      if has_key out fname \<or> visible_modes (Some gdef) = None \<or> is_field_visible (Some gdef) mode None then out
      else let current = read_value st fname in if truthy current \<and> \<not> py_eq current (PInt 0)
        then dset fname (default_for_masked_field (Some gdef)) out else out) fs out))" for fs out
  proof (induction fs arbitrary: out)
    case Nil
    then show ?case by simp
  next
    case (Cons x fs)
    then show ?case by (auto simp: Let_def split: prod.split if_splits)
  qed
  from this [OF d] show ?thesis by (simp add: reverse_pass_def Some)
qed (simp add: reverse_pass_def)

lemma dkeys_mask: "dkeys (mask_mode_invalid_forces cs all_fields mode) = dkeys cs"
  by (simp add: mask_mode_invalid_forces_def dkeys_def comp_def case_prod_unfold)

lemma prepare_distinct: "distinct (dkeys cs) \<Longrightarrow> distinct (dkeys (fst (prepare db cs)))"
  by (auto simp: prepare_def Let_def expand_mutex_forces_def forward_pass_def case_prod_unfold
      intro!: distinct_constraint_gate distinct_reverse_pass distinct_expand_rounds run_gates_distinct
      simp: dkeys_mask)

subsection \<open>Lemmas on optimistic writes\<close>

lemma apply_optimistic_reads:
  assumes "distinct (dkeys cs)" and "\<forall>f \<in> set (dkeys cs). fresh_ts (db_status db) f (clock f)"
  shows "((f, v) \<in> set cs \<longrightarrow> py_eq (read_value (db_status (apply_optimistic clock cs db)) f) v) \<and>
    (f \<notin> set (dkeys cs) \<longrightarrow> read_value (db_status (apply_optimistic clock cs db)) f = read_value (db_status db) f)"
  using assms
proof (induction cs arbitrary: db)
  case Nil
  then show ?case by (simp add: apply_optimistic_def)
next
  case (Cons gw cs)
  obtain g w where gw: "gw = (g, w)" by (cases gw)
  define db1 where "db1 = (let old = read_value (db_status db) g
    in if py_eq old w then db
       else db\<lparr>db_status := optimistic_write (db_status db) g w (clock g), db_pending := db_pending db @ [(g, w, old)]\<rparr>)"
  have step: "apply_optimistic clock (gw # cs) db = apply_optimistic clock cs db1"
    by (simp add: apply_optimistic_def gw db1_def)
  have g: "g \<notin> set (dkeys cs)" and d: "distinct (dkeys cs)" using Cons.prems(1) gw by auto
  have "fresh_ts (db_status db1) h (clock h)" if "h \<in> set (dkeys cs)" for h
    using that g Cons.prems(2) gw store.fresh_other [of "db_status db" h "clock h" g w "clock g"]
    by (auto simp: db1_def Let_def)
  note ih = Cons.IH [OF d, of db1]
  have own: "py_eq (read_value (db_status db1) g) w"
    using Cons.prems(2) gw store.read_written [of "db_status db" g "clock g" w] by (auto simp: db1_def Let_def)
  have other: "h \<noteq> g \<Longrightarrow> read_value (db_status db1) h = read_value (db_status db) h" for h
    using store.read_other [of g h "db_status db" w "clock g"] by (auto simp: db1_def Let_def)
  have ih': "((f, v) \<in> set cs \<longrightarrow> py_eq (read_value (db_status (apply_optimistic clock cs db1)) f) v) \<and>
      (f \<notin> set (dkeys cs) \<longrightarrow> read_value (db_status (apply_optimistic clock cs db1)) f = read_value (db_status db1) f)"
    using ih \<open>\<And>h. h \<in> set (dkeys cs) \<Longrightarrow> fresh_ts (db_status db1) h (clock h)\<close> by blast
  show ?case unfolding step using ih' own other g gw by auto
qed

lemma db_command_InrD:
  assumes "db_command db cs env = (db', sent, Inr oc)"
  shows "oc_expanded oc = fst (prepare db cs) \<and> oc_rejected oc = snd (prepare db cs) \<and>
    db' = (apply_optimistic (ce_clock env) (fst (prepare db cs)) db)\<lparr>db_pending := []\<rparr>"
  using assms
  by (auto simp: db_command_def Let_def flush_events_def split: prod.splits sum.splits)

lemma db_command_InlD: "db_command db cs env = (db', sent, Inl e) \<Longrightarrow> db' = db"
  by (auto simp: db_command_def Let_def split: prod.splits sum.splits)

subsection \<open>Lemmas on ingest\<close>

text \<open>The cache holds the map it stands for.\<close>

definition cache_ok :: "status_db \<Rightarrow> bool" where
  "cache_ok db \<longleftrightarrow> (\<forall>key fm. dget (db_field_map_cache db) key = Some fm \<longrightarrow> fm = build_field_map (db_glossary db) key)"

lemma cached_map_ok:
  assumes "cache_ok db" and "cached_map db key = (fm, db1)"
  shows "fm = build_field_map (db_glossary db) key \<and> cache_ok db1 \<and> db_status db1 = db_status db \<and>
    db_glossary db1 = db_glossary db \<and> db_pending db1 = db_pending db"
  using assms by (cases "dget (db_field_map_cache db) key") (auto simp: cached_map_def cache_ok_def Let_def split: if_splits)

lemma process_with_map:
  "process_data_frame st body key g timestamp now (Some (build_field_map g key)) = process_data_frame st body key g timestamp now None"
  by (simp add: process_data_frame_def decode_frame_fields_def)

lemma process_stamp:
  "process_data_frame st body key g (Some (or_now timestamp now)) now fm = process_data_frame st body key g timestamp now fm"
proof -
  have "or_now (Some (or_now timestamp now)) now = or_now timestamp now"
    by (auto simp: or_now_def split: option.splits list.splits)
  then show ?thesis by (simp add: process_data_frame_def)
qed

lemma snapshot_lookup: "dget_or (snapshot st (Some watch)) n PNone = (if n \<in> set watch then read_value st n else PNone)"
proof -
  have "dget (fold (\<lambda>n. dset n (read_value st n)) ws d) n = (if n \<in> set ws then Some (read_value st n) else dget d n)" for ws d
    by (induction ws arbitrary: d) auto
  then show ?thesis by (simp add: snapshot_def dget_or_def)
qed

text \<open>Flushing events whose fields are all different fires each of them that is a change.\<close>

lemma flush_distinct:
  assumes "distinct (map fst evs)" and "\<forall>f \<in> set (map fst evs). f \<notin> set (dkeys m0)"
  shows "fold (\<lambda>(fname, new, old) m. case dget m fname of
      Some (_, first_old) \<Rightarrow> dset fname (new, first_old) m | None \<Rightarrow> dset fname (new, old) m) evs m0 = m0 @ evs"
  using assms
proof (induction evs arbitrary: m0)
  case Nil
  then show ?case by simp
next
  case (Cons e evs)
  obtain f n old where e: "e = (f, n, old)" by (metis prod_cases3)
  have "dget m0 f = None" using Cons.prems(2) e by (auto simp: dkeys_def map_of_eq_None_iff)
  moreover have "dset f (n, old) m0 = m0 @ [(f, n, old)]" using Cons.prems(2) e by (intro dset_new) simp
  ultimately show ?case using Cons.IH [of "m0 @ [e]"] Cons.prems e by auto
qed

lemma db_ingest_unfold:
  assumes "cached_map db key = (fm, db1)" and "db_ingest db body key timestamp now watch registered = Inr (db', events)"
  shows "\<exists>st'. process_data_frame (db_status db1) body key (db_glossary db1) (Some (or_now timestamp now)) now (Some fm) = Inr st' \<and>
    flush_events registered (detect_changes (snapshot (db_status db) watch) watch (db1\<lparr>db_status := st'\<rparr>)) = (events, db')"
  using assms
  by (cases "process_data_frame (db_status db1) body key (db_glossary db1) (Some (or_now timestamp now)) now (Some fm)")
    (auto simp: db_ingest_def Let_def case_prod_unfold prod_eq_iff)

lemma ingest_InrD:
  assumes "cache_ok db" and "db_ingest db body key timestamp now watch registered = Inr (db', events)"
  shows "process_data_frame (db_status db) body key (db_glossary db) timestamp now None = Inr (db_status db')"
    and "cache_ok db'" and "db_glossary db' = db_glossary db" and "db_pending db' = []"
proof -
  obtain fm db1 where c: "cached_map db key = (fm, db1)" by (cases "cached_map db key")
  note ok = cached_map_ok [OF assms(1) c]
  from db_ingest_unfold [OF c assms(2)] ok obtain st' where
    st': "process_data_frame (db_status db) body key (db_glossary db) (Some (or_now timestamp now)) now (Some fm) = Inr st'"
    and db': "flush_events registered (detect_changes (snapshot (db_status db) watch) watch (db1\<lparr>db_status := st'\<rparr>)) = (events, db')"
    by auto
  have eqs: "db_status db' = st'" "db_field_map_cache db' = db_field_map_cache db1" "db_glossary db' = db_glossary db1" "db_pending db' = []"
    using db' by (auto simp: flush_events_def Let_def detect_changes_def split: option.splits)
  show "process_data_frame (db_status db) body key (db_glossary db) timestamp now None = Inr (db_status db')"
    using st' ok eqs(1) by (simp add: process_with_map process_stamp)
  from ok have "cache_ok db1" by blast
  then show "cache_ok db'" using ok eqs by (auto simp: cache_ok_def)
  show "db_glossary db' = db_glossary db" "db_pending db' = []" using eqs ok by simp_all
qed

lemma ingest_events:
  assumes "cache_ok db" and "db_pending db = []" and "distinct watch"
    and "db_ingest db body key timestamp now (Some watch) True = Inr (db', events)"
  shows "events = filter (\<lambda>(_, new, old). \<not> py_eq new old)
    (map (\<lambda>n. (n, read_value (db_status db') n, read_value (db_status db) n)) watch)"
proof -
  obtain fm db1 where c: "cached_map db key = (fm, db1)" by (cases "cached_map db key")
  note ok = cached_map_ok [OF assms(1) c]
  from db_ingest_unfold [OF c assms(4)] obtain st' where
    db': "flush_events True (detect_changes (snapshot (db_status db) (Some watch)) (Some watch) (db1\<lparr>db_status := st'\<rparr>)) = (events, db')"
    by auto
  let ?new = "read_value st'" and ?old = "read_value (db_status db)"
  let ?evs = "filter (\<lambda>(_, new, old). \<not> py_eq new old) (map (\<lambda>n. (n, ?new n, ?old n)) watch)"
  have st: "db_status db' = st'" using db' by (auto simp: flush_events_def Let_def detect_changes_def)
  have conc: "concat (map (\<lambda>n. let new = ?new n; old = dget_or (snapshot (db_status db) (Some watch)) n PNone
      in if py_eq new old then [] else [(n, new, old)]) ws) =
      filter (\<lambda>(_, new, old). \<not> py_eq new old) (map (\<lambda>n. (n, ?new n, ?old n)) ws)" if "set ws \<subseteq> set watch" for ws
    using that by (induction ws) (auto simp: snapshot_lookup Let_def)
  have pend: "db_pending (detect_changes (snapshot (db_status db) (Some watch)) (Some watch) (db1\<lparr>db_status := st'\<rparr>)) = ?evs"
    using ok assms(2) conc [of watch] by (simp add: detect_changes_def)
  have "distinct (map fst ?evs)" using assms(3) by (induction watch) (auto)
  then show ?thesis
    using db' pend flush_distinct [of ?evs "[]"] st by (auto simp: flush_events_def Let_def)
qed

subsection \<open>The client as a step relation\<close>

text \<open>Every operation of the client on the status, whatever its arguments and its outcome.\<close>

inductive db_step :: "status_db \<Rightarrow> status_db \<Rightarrow> bool" where
  commanded: "db_command db cs env = (db', sent, outcome) \<Longrightarrow> db_step db db'"
| ingested: "db_ingest db body key timestamp now watch registered = Inr (db', events) \<Longrightarrow> db_step db db'"

inductive_cases db_stepE: "db_step db db'"

lemma optimistic_ingress:
  "(ingress g)\<^sup>*\<^sup>* (db_status db) (db_status (apply_optimistic clock cs db)) \<and>
   db_glossary (apply_optimistic clock cs db) = db_glossary db \<and>
   db_field_map_cache (apply_optimistic clock cs db) = db_field_map_cache db"
proof (induction cs arbitrary: db)
  case Nil
  then show ?case by (simp add: apply_optimistic_def)
next
  case (Cons fv cs)
  obtain f v where fv: "fv = (f, v)" by (cases fv)
  let ?db = "if py_eq (read_value (db_status db) f) v then db
    else db\<lparr>db_status := optimistic_write (db_status db) f v (clock f),
            db_pending := db_pending db @ [(f, v, read_value (db_status db) f)]\<rparr>"
  have "apply_optimistic clock (fv # cs) db = apply_optimistic clock cs ?db" by (simp add: apply_optimistic_def fv Let_def)
  moreover have "(ingress g)\<^sup>*\<^sup>* (db_status db) (db_status ?db)"
    by (auto simp: optimistic_write_def intro: ingress.command)
  ultimately show ?case using Cons.IH [of ?db] by (auto intro: rtranclp_trans split: if_splits)
qed

text \<open>The abstract state behind the client: the core status, in a database that is clean between steps.\<close>

definition represents :: "glossary \<Rightarrow> status_db \<Rightarrow> status \<Rightarrow> bool" where
  "represents g db st \<longleftrightarrow> db_status db = st \<and> db_glossary db = g \<and> cache_ok db \<and> db_pending db = []"

lemma db_step_simulates:
  assumes "db_step db db'" and "represents g db st"
  shows "\<exists>st'. (ingress g)\<^sup>*\<^sup>* st st' \<and> represents g db' st'"
  using assms(1)
proof (cases rule: db_step.cases)
  case (commanded cs env sent outcome)
  show ?thesis
  proof (cases outcome)
    case (Inl e)
    then show ?thesis using commanded assms(2) db_command_InlD by (metis rtranclp.rtrancl_refl)
  next
    case (Inr oc)
    then have db': "db' = (apply_optimistic (ce_clock env) (fst (prepare db cs)) db)\<lparr>db_pending := []\<rparr>"
      using commanded db_command_InrD by blast
    show ?thesis
      using optimistic_ingress [of g db "ce_clock env" "fst (prepare db cs)"] assms(2)
      by (auto simp: db' represents_def cache_ok_def)
  qed
next
  case (ingested body key timestamp now watch registered events)
  have "cache_ok db" using assms(2) by (simp add: represents_def)
  note r = ingest_InrD [OF this ingested]
  have "ingress g st (db_status db')" using r(1) assms(2) by (auto simp: represents_def intro: ingress.data_frame)
  then show ?thesis using r assms(2) by (auto simp: represents_def)
qed

lemma db_steps_simulate:
  assumes "db_step\<^sup>*\<^sup>* db db'" and "represents g db st"
  shows "\<exists>st'. (ingress g)\<^sup>*\<^sup>* st st' \<and> represents g db' st'"
  using assms(1)
proof (induction rule: rtranclp_induct)
  case base
  then show ?case using assms(2) by blast
next
  case (step db1 db2)
  then obtain st1 where "(ingress g)\<^sup>*\<^sup>* st st1" "represents g db1 st1" by blast
  moreover obtain st2 where "(ingress g)\<^sup>*\<^sup>* st1 st2" "represents g db2 st2"
    using db_step_simulates [OF step.hyps(2) \<open>represents g db1 st1\<close>] by blast
  ultimately show ?case by (meson rtranclp_trans)
qed

lemma represents_new: "represents g (new_db g st) st"
  by (simp add: represents_def new_db_def cache_ok_def)

subsection \<open>Properties\<close>

text \<open>The client refines the core: whatever sequence of commands and frames it runs, succeeding or
  failing, its status goes through steps of the core's ingress relation, its cached field maps are the
  maps of the glossary, and no event is left pending between two operations.\<close>

theorem client_refines_core:
  assumes "db_step\<^sup>*\<^sup>* (new_db g st) db"
  shows "(ingress g)\<^sup>*\<^sup>* st (db_status db) \<and> db_pending db = [] \<and> db_glossary db = g \<and>
    (\<forall>key fm. dget (db_field_map_cache db) key = Some fm \<longrightarrow> fm = build_field_map g key)"
  using db_steps_simulate [OF assms represents_new] by (auto simp: represents_def cache_ok_def)


text \<open>C27: mutual exclusion: the expansion never overwrites what was asked for or already forced; every entry
  it adds is a value some field forces, or the safe value of a field hidden in the new mode; and, unless
  the depth cap was hit, every field that ends up active has all its forced fields in the batch.\<close>

theorem mutex_expansion:
  assumes "forward_pass all_fields cs = (forced, left)"
  shows "(\<forall>f v. dget cs f = Some v \<longrightarrow> dget (expand_mutex_forces st all_fields cs) f = Some v) \<and>
    (\<forall>f v. dget (expand_mutex_forces st all_fields cs) f = Some v \<longrightarrow>
       dget cs f = Some v \<or> (\<exists>g. (f, v) \<in> set (forces_of all_fields g)) \<or>
       (\<exists>d mode. (f, d) \<in> set all_fields \<and> dget forced ''operating_mode'' = Some mode \<and>
          \<not> is_field_visible (Some d) mode None \<and> v = default_for_masked_field (Some d))) \<and>
    (left = [] \<longrightarrow> (\<forall>f. active_in all_fields forced f \<longrightarrow> forces_closed all_fields forced f))"
proof -
  note fwd = forward_pass_inv [OF assms]
  note rev = reverse_pass_inv [of forced st all_fields]
  have e: "expand_mutex_forces st all_fields cs = reverse_pass st all_fields forced"
    by (simp add: expand_mutex_forces_def assms)
  have "keeps_entries cs (reverse_pass st all_fields forced)" using fwd rev keeps_entries_trans by blast
  then have "\<forall>f v. dget cs f = Some v \<longrightarrow> dget (reverse_pass st all_fields forced) f = Some v"
    by (auto simp: keeps_entries_def has_key_def)
  moreover have "\<forall>f v. dget (reverse_pass st all_fields forced) f = Some v \<longrightarrow>
       dget cs f = Some v \<or> (\<exists>g. (f, v) \<in> set (forces_of all_fields g)) \<or>
       (\<exists>d mode. (f, d) \<in> set all_fields \<and> dget forced ''operating_mode'' = Some mode \<and>
          \<not> is_field_visible (Some d) mode None \<and> v = default_for_masked_field (Some d))"
    using fwd rev by meson
  moreover have "left = [] \<longrightarrow> (\<forall>f. active_in all_fields forced f \<longrightarrow> forces_closed all_fields forced f)"
    using fwd by (metis empty_iff list.set(1))
  ultimately show ?thesis unfolding e by blast
qed

text \<open>C28: a number that leaves the constraint gate is inside the capability envelope of the effective mode.  For a
  field that is not boolean and has active constraints, an entry with a numeric value is only left when the
  envelope's set of values is not empty; it is a member of the set when that holds numbers, and within the
  range otherwise.  (Entries of boolean fields and values that are no numbers pass the gate as they are.)\<close>

theorem constraint_gate_enforced:
  assumes "(f, w) \<in> set (apply_constraint_gate g st cs all_fields mode)"
    and "case dget all_fields f of None \<Rightarrow> True | Some d \<Rightarrow> fd_data_type d \<noteq> Some ''bool''"
    and "dget (st_fields st) f = Some sf" and "sf_active_constraints sf = Some ac"
    and "num_of w = Some y"
  shows "ev_valid_set (active_envelope g ac mode) \<noteq> Some [] \<and>
    (\<forall>members. ev_valid_set (active_envelope g ac mode) = Some members \<longrightarrow>
       list_all (\<lambda>m. num_of m \<noteq> None) members \<longrightarrow> (\<exists>m \<in> set members. num_of m = Some y)) \<and>
    (\<forall>lo hi l h. ev_valid_set (active_envelope g ac mode) = None \<longrightarrow>
       ev_valid_range (active_envelope g ac mode) = Some [lo, hi] \<longrightarrow> num_of lo = Some l \<longrightarrow> num_of hi = Some h \<longrightarrow>
       l \<le> h \<longrightarrow> l \<le> y \<and> y \<le> h)"
proof -
  let ?env = "active_envelope g ac mode"
  from assms(1) obtain v where "constrain g st all_fields mode f v = Keep w" by (auto simp: in_constraint_gate)
  moreover have "\<not> (case dget all_fields f of None \<Rightarrow> False | Some d \<Rightarrow> fd_data_type d = Some ''bool'')"
    using assms(2) by (cases "dget all_fields f") auto
  ultimately have "(case clamp_to_envelope v ?env of Drop \<Rightarrow> Drop | Keep u \<Rightarrow> Keep (if py_eq u v then v else u)) = Keep w"
    using assms(3,4) by (simp add: constrain_def)
  then obtain u where u: "clamp_to_envelope v ?env = Keep u" and w: "w = (if py_eq u v then v else u)"
    by (cases "clamp_to_envelope v ?env") auto
  have nw: "num_of u = Some y" and nv: "num_of v \<noteq> None \<or> u = w"
    using w assms(5) py_eq_num [of u v] by (auto split: if_splits)
  have ne: "ev_valid_set ?env \<noteq> Some []" using u by (auto simp: clamp_to_envelope_def)
  have keep: "num_of v = None \<Longrightarrow> u = v" using u
    by (auto simp: clamp_to_envelope_def snap_to_def py_min_def split: option.splits list.splits)
  have v: "num_of v \<noteq> None" using keep nw by auto
  then obtain x where x: "num_of v = Some x" by blast
  have "\<exists>m \<in> set members. num_of m = Some y"
    if "ev_valid_set ?env = Some members" "list_all (\<lambda>m. num_of m \<noteq> None) members" for members
  proof -
    have "u = snap_to members v" "members \<noteq> []" using that(1) u ne by (auto simp: clamp_to_envelope_def split: list.splits)
    then show ?thesis using snap_member [OF v _ that(2)] nw by auto
  qed
  moreover have "l \<le> y \<and> y \<le> h"
    if "ev_valid_set ?env = None" "ev_valid_range ?env = Some [lo, hi]" "num_of lo = Some l" "num_of hi = Some h" "l \<le> h" for lo hi l h
    using clamp_range [OF that(1-4) x] u nw that(5) by auto
  ultimately show ?thesis using ne by blast
qed

text \<open>After a command, every entry of the expanded batch reads back as its value, sent or not, and every
  other field as before (each write taking a timestamp newer than what its field holds).\<close>

theorem command_reads_back:
  assumes "db_command db cs env = (db', sent, Inr oc)" and "distinct (dkeys cs)"
    and "\<forall>f \<in> set (dkeys (oc_expanded oc)). fresh_ts (db_status db) f (ce_clock env f)"
  shows "(\<forall>(f, v) \<in> set (oc_expanded oc). py_eq (read_value (db_status db') f) v) \<and>
    (\<forall>f. f \<in> set (dkeys (oc_expanded oc)) \<or> read_value (db_status db') f = read_value (db_status db) f)"
proof -
  note r = db_command_InrD [OF assms(1)]
  have d: "distinct (dkeys (oc_expanded oc))" using prepare_distinct [OF assms(2), of db] r by simp
  have st: "db_status db' = db_status (apply_optimistic (ce_clock env) (oc_expanded oc) db)" using r by simp
  show ?thesis unfolding st using apply_optimistic_reads [OF d assms(3)] by auto
qed

text \<open>Ingest reports exactly the changes: with no event pending, the callbacks fired are, in the order of
  the watched fields, those whose value read after the frame differs from the value read before it.\<close>

theorem ingest_reports_changes:
  assumes "db_step\<^sup>*\<^sup>* (new_db g st) db" and "distinct watch"
    and "db_ingest db body key timestamp now (Some watch) True = Inr (db', events)"
  shows "events = filter (\<lambda>(_, new, old). \<not> py_eq new old)
      (map (\<lambda>n. (n, read_value (db_status db') n, read_value (db_status db) n)) watch) \<and>
    process_data_frame (db_status db) body key g timestamp now None = Inr (db_status db')"
proof -
  obtain st' where "represents g db st'" using db_steps_simulate [OF assms(1) represents_new] by blast
  then have r: "cache_ok db" "db_pending db = []" "db_glossary db = g" by (simp_all add: represents_def)
  show ?thesis using ingest_events [OF r(1,2) assms(2,3)] ingest_InrD(1) [OF r(1) assms(3)] r(3) by simp
qed

text \<open>A command that was blocked is not sent, but its values are written all the same; the optimistic
  value then counts as a recent observation of the field, so the next change of a sibling is not blocked
  and transmits it.\<close>

definition ENV :: "rat \<Rightarrow> string \<Rightarrow> command_env" where
  "ENV now ts = \<lparr>ce_now_x40 = now, ce_now_b0 = now, ce_clock = (\<lambda>_. ts), ce_send = (\<lambda>_. None), ce_callback = True\<rparr>"

definition UNREAD :: status_db where
  "UNREAD = new_db COMMANDS (build_status ''ac'' COMMANDS)"

theorem blocked_command_still_written:
  "\<exists>db1 oc1 db2 oc2 frame.
     db_command UNREAD [(''power'', PBool True)] (ENV NOW ''2026-01-01T00:00:10+00:00'') = (db1, [], Inr oc1) \<and>
     map (co_body \<circ> snd) (oc_results oc1) = [None] \<and> read_value (db_status db1) ''power'' = PBool True \<and>
     db_command db1 [(''timer'', PInt 5)] (ENV NOW ''2026-01-01T00:00:10+00:00'') = (db2, [frame], Inr oc2) \<and>
     frame ! 11 = 0x29"
proof -
  let ?c1 = "db_command UNREAD [(''power'', PBool True)] (ENV NOW ''2026-01-01T00:00:10+00:00'')"
  let ?c2 = "db_command (fst ?c1) [(''timer'', PInt 5)] (ENV NOW ''2026-01-01T00:00:10+00:00'')"
  have 1: "fst (snd ?c1) = [] \<and> \<not> isl (snd (snd ?c1)) \<and>
      map (co_body \<circ> snd) (oc_results (projr (snd (snd ?c1)))) = [None] \<and>
      read_value (db_status (fst ?c1)) ''power'' = PBool True"
    by code_simp
  have 2: "length (fst (snd ?c2)) = 1 \<and> \<not> isl (snd (snd ?c2)) \<and> hd (fst (snd ?c2)) ! 11 = 0x29"
    by code_simp
  obtain db1 sent1 r1 where c1: "?c1 = (db1, sent1, r1)" by (metis prod_cases3)
  obtain db2 sent2 r2 where c2: "db_command db1 [(''timer'', PInt 5)] (ENV NOW ''2026-01-01T00:00:10+00:00'') = (db2, sent2, r2)"
    by (metis prod_cases3)
  have "sent1 = []" "\<not> isl r1" "map (co_body \<circ> snd) (oc_results (projr r1)) = [None]" "read_value (db_status db1) ''power'' = PBool True"
    using 1 unfolding c1 by simp_all
  moreover have "length sent2 = 1" "\<not> isl r2" "hd sent2 ! 11 = 0x29" using 2 unfolding c1 fst_conv c2 by simp_all
  moreover obtain frame where "sent2 = [frame]" using \<open>length sent2 = 1\<close> by (cases sent2) auto
  ultimately show ?thesis using c1 c2 by (cases r1; cases r2) auto
qed

text \<open>Concrete runs: a client that has just started, and one whose device is off.\<close>

definition POWER_ON :: "status_db \<times> bytes list \<times> command_outcome res" where
  "POWER_ON = db_command UNREAD [(''power'', PBool True)] (ENV NOW ''2026-01-01T00:00:10+00:00'')"

lemma power_on_run:
  "db_command UNREAD [(''power'', PBool True)] (ENV NOW ''2026-01-01T00:00:10+00:00'') =
     (fst POWER_ON, [], Inr (projr (snd (snd POWER_ON))))"
  and power_on_expanded: "oc_expanded (projr (snd (snd POWER_ON))) = [(''power'', PBool True)]"
proof -
  have "fst (snd POWER_ON) = [] \<and> \<not> isl (snd (snd POWER_ON))" by code_simp
  then have "POWER_ON = (fst POWER_ON, [], Inr (projr (snd (snd POWER_ON))))"
    by (metis prod.collapse sum.collapse(2))
  then show "db_command UNREAD [(''power'', PBool True)] (ENV NOW ''2026-01-01T00:00:10+00:00'') =
     (fst POWER_ON, [], Inr (projr (snd (snd POWER_ON))))"
    by (simp only: POWER_ON_def)
  show "oc_expanded (projr (snd (snd POWER_ON))) = [(''power'', PBool True)]" by code_simp
qed

theorem client_refines_core_witness:
  "(ingress COMMANDS)\<^sup>*\<^sup>* (build_status ''ac'' COMMANDS) (db_status (fst POWER_ON)) \<and>
   read_value (db_status (fst POWER_ON)) ''power'' = PBool True"
proof -
  have "db_step\<^sup>*\<^sup>* (new_db COMMANDS (build_status ''ac'' COMMANDS)) (fst POWER_ON)"
    using db_step.commanded [OF power_on_run] by (simp add: UNREAD_def r_into_rtranclp)
  from client_refines_core [OF this] have "(ingress COMMANDS)\<^sup>*\<^sup>* (build_status ''ac'' COMMANDS) (db_status (fst POWER_ON))" by blast
  moreover have "read_value (db_status (fst POWER_ON)) ''power'' = PBool True" by code_simp
  ultimately show ?thesis by blast
qed


text \<open>The mode gate does not look at the value: switching a hidden field off is rejected like switching it on.\<close>

definition FROST :: "(string, field_def) dict" where
  "FROST =
     [(''frost_protection'', (field_of_type ''bool'' None [])\<lparr>fd_ux := Some \<lparr>ux_hardware_flag = None, ux_visible_in_modes = Some [''heat'']\<rparr>\<rparr>)]"

lemma off_write_rejected:
  "run_gates (build_status ''ac'' COMMANDS) FROST [(''operating_mode'', PInt 2), (''frost_protection'', PBool False)] =
     ([(''operating_mode'', PInt 2)], [(''frost_protection'', Requires_mode [''heat''] (PInt 2))])"
  by code_simp

definition MUTEX :: "(string, field_def) dict" where
  "MUTEX =
     [(''eco'', (field_of_type ''bool'' None [])\<lparr>fd_forces := [(''turbo'', PBool False), (''sleep'', PBool True)]\<rparr>),
      (''sleep'', (field_of_type ''bool'' None [])\<lparr>fd_forces := [(''purify'', PBool False), (''eco'', PBool False)]\<rparr>)]"

theorem mutex_expansion_witness:
  "expand_mutex_forces OBSERVED MUTEX [(''eco'', PBool True)] =
     [(''eco'', PBool True), (''turbo'', PBool False), (''sleep'', PBool True), (''purify'', PBool False)] \<and>
   forces_closed MUTEX [(''eco'', PBool True), (''turbo'', PBool False), (''sleep'', PBool True), (''purify'', PBool False)] ''sleep''"
proof -
  have e: "forward_pass MUTEX [(''eco'', PBool True)] =
      ([(''eco'', PBool True), (''turbo'', PBool False), (''sleep'', PBool True), (''purify'', PBool False)], [])"
    by code_simp
  have a: "is_active_value (dget MUTEX ''sleep'') (PBool True)" by code_simp
  have "expand_mutex_forces OBSERVED MUTEX [(''eco'', PBool True)] =
     [(''eco'', PBool True), (''turbo'', PBool False), (''sleep'', PBool True), (''purify'', PBool False)]"
    by code_simp
  with mutex_expansion [OF e] a show ?thesis by simp
qed

definition LIMITED :: status where  \<comment> \<open>the timer limited to 1..10 by a capability\<close>
  "LIMITED = map_field ''timer''
     (sf_active_constraints_update (\<lambda>_. Some \<lparr>ac_by_mode = None, ac_top = no_envelope\<lparr>ev_valid_range := Some [PInt 1, PInt 10]\<rparr>\<rparr>)) OBSERVED"

theorem constraint_gate_enforced_witness:
  "apply_constraint_gate COMMANDS LIMITED [(''timer'', PInt 40)] [] PNone = [(''timer'', PInt 10)] \<and> 1 \<le> (10 :: rat) \<and> (10 :: rat) \<le> 10"
proof -
  let ?ac = "\<lparr>ac_by_mode = None, ac_top = no_envelope\<lparr>ev_valid_range := Some [PInt 1, PInt 10]\<rparr>\<rparr>"
  have g: "apply_constraint_gate COMMANDS LIMITED [(''timer'', PInt 40)] [] PNone = [(''timer'', PInt 10)]" by code_simp
  have "map_option sf_active_constraints (dget (st_fields LIMITED) ''timer'') = Some (Some ?ac)" by code_simp
  then obtain sf where sf: "dget (st_fields LIMITED) ''timer'' = Some sf" "sf_active_constraints sf = Some ?ac" by auto
  have env: "active_envelope COMMANDS ?ac PNone = no_envelope\<lparr>ev_valid_range := Some [PInt 1, PInt 10]\<rparr>"
    by (simp add: active_envelope_def split: option.splits list.splits)
  have in_out: "(''timer'', PInt 10) \<in> set (apply_constraint_gate COMMANDS LIMITED [(''timer'', PInt 40)] [] PNone)" by (simp add: g)
  from constraint_gate_enforced [OF in_out _ sf, of 10]
  have "1 \<le> (10 :: rat) \<and> (10 :: rat) \<le> 10" unfolding env by (simp add: no_envelope_def)
  with g show ?thesis by blast
qed

theorem command_reads_back_witness:
  "py_eq (read_value (db_status (fst POWER_ON)) ''power'') (PBool True) \<and>
   read_value (db_status (fst POWER_ON)) ''timer'' = read_value (db_status UNREAD) ''timer''"
proof -
  have f: "fresh_ts (db_status UNREAD) ''power'' ''2026-01-01T00:00:10+00:00''" by code_simp
  have c: "ce_clock (ENV NOW ''2026-01-01T00:00:10+00:00'') ''power'' = ''2026-01-01T00:00:10+00:00''" by (simp add: ENV_def)
  have fresh: "\<forall>f \<in> set (dkeys (oc_expanded (projr (snd (snd POWER_ON))))).
      fresh_ts (db_status UNREAD) f (ce_clock (ENV NOW ''2026-01-01T00:00:10+00:00'') f)"
    using f c by (simp add: power_on_expanded)
  note r = command_reads_back [OF power_on_run _ fresh, unfolded power_on_expanded]
  have "\<forall>f. f = ''power'' \<or> read_value (db_status (fst POWER_ON)) f = read_value (db_status UNREAD) f"
    using r by simp
  from spec [OF this, of "''timer''"] r show ?thesis by simp
qed

definition FIRST_FRAME :: bytes where
  "FIRST_FRAME = [0xC0, 0x29] @ replicate 22 0"

theorem ingest_reports_changes_witness:
  "\<exists>db'. db_ingest UNREAD FIRST_FRAME ''rsp_0xc0'' (Some ''2026-01-01T00:00:20+00:00'') [] (Some [''power'', ''timer'']) True =
     Inr (db', [(''power'', PBool True, PNone), (''timer'', PInt 5, PNone)]) \<and>
   process_data_frame (build_status ''ac'' COMMANDS) FIRST_FRAME ''rsp_0xc0'' COMMANDS
     (Some ''2026-01-01T00:00:20+00:00'') [] None = Inr (db_status db')"
proof -
  let ?r = "db_ingest UNREAD FIRST_FRAME ''rsp_0xc0'' (Some ''2026-01-01T00:00:20+00:00'') [] (Some [''power'', ''timer'']) True"
  have "\<not> isl ?r \<and> snd (projr ?r) = [(''power'', PBool True, PNone), (''timer'', PInt 5, PNone)]" by code_simp
  then obtain db' where r: "?r = Inr (db', [(''power'', PBool True, PNone), (''timer'', PInt 5, PNone)])"
    by (metis prod.collapse sum.collapse(2))
  have u: "db_status UNREAD = build_status ''ac'' COMMANDS" by (simp add: UNREAD_def new_db_def)
  have "db_step\<^sup>*\<^sup>* (new_db COMMANDS (build_status ''ac'' COMMANDS)) UNREAD" by (simp add: UNREAD_def)
  from ingest_reports_changes [OF this _ r] r show ?thesis unfolding u by auto
qed

end
