(* ===== verification/Planner.thy ===== *)
theory Planner
  imports Command Frame "HOL-Library.Product_Lexorder"
begin

section \<open>Frames from the glossary and the query planner (\<open>codec.py\<close>, \<open>frame.py\<close>)\<close>

text \<open>
  The query frames are data: \<open>glossary["frames"]\<close> holds for each frame its body, its message type, the
  responses it triggers and the buses it works on.  \<open>build_frame_from_spec\<close> materialises one;
  \<open>plan_query_cycle\<close> picks the frames that together refresh a set of fields; \<open>build_scan_queue\<close> is
  what the monitor sends in one cycle, and \<open>detect_dead_frames\<close> the group queries nobody answered.

  Lemmas: the plan covers every field some frame of the bus can refresh and holds no frame that no
  field needs, in the order of priorities; the scan queue sends no frame twice and no dead frame.
\<close>

subsection \<open>Building a frame\<close>

definition place_bytes :: "nat \<Rightarrow> (int \<times> int) list \<Rightarrow> bytes res" where
  "place_bytes len items =
     fold_res (\<lambda>(idx, v) body.
        if idx < 0 \<or> idx \<ge> int len then Inl ValueError else Inr (body[nat idx := low_byte v]))
       items (replicate len 0)"

definition build_frame_body_from_spec ::
  "frame_spec \<Rightarrow> glossary \<Rightarrow> status option \<Rightarrow> (string, pyval) dict \<Rightarrow> rat \<Rightarrow> bytes res" where
  "build_frame_body_from_spec spec g st_opt changes now =
     (case fs_body spec of
        BodyBytes len bs \<Rightarrow>
          (if length bs > len then Inl ValueError else Inr (map low_byte bs @ replicate (len - length bs) 0))
      | BodyBytesAt len items \<Rightarrow> place_bytes len items
      | BodyAssembled declared _ \<Rightarrow>
          (case st_opt of
             None \<Rightarrow> Inl ValueError
           | Some st \<Rightarrow>
               bind_res (build_command_body st changes g DEFAULT_PREFLIGHT_THRESHOLD_SECONDS False now) (\<lambda>r.
                 case co_body r of
                   None \<Rightarrow> Inl TypeError  \<comment> \<open>\<open>len(None)\<close>, \<open>bytes(None)\<close>\<close>
                 | Some body \<Rightarrow>
                     (case declared of
                        Some n \<Rightarrow> if length body \<noteq> n then Inl ValueError else Inr body
                      | None \<Rightarrow> Inr body)))
      | BodyUnknown \<Rightarrow> Inl ValueError)"

definition build_frame_from_spec ::
  "string \<Rightarrow> glossary \<Rightarrow> int \<Rightarrow> int \<Rightarrow> int \<Rightarrow> int \<Rightarrow> status option \<Rightarrow> (string, pyval) dict \<Rightarrow> rat \<Rightarrow> bytes res" where
  "build_frame_from_spec frame_id g appliance proto sub seq st_opt changes now =
     (case dget (gl_frames g) frame_id of
        None \<Rightarrow> Inl KeyError
      | Some spec \<Rightarrow>
          bind_res (build_frame_body_from_spec spec g st_opt changes now) (\<lambda>body.
            build_frame body (case fs_msg_type spec of None \<Rightarrow> 0x03 | Some m \<Rightarrow> m) appliance proto sub seq))"

text \<open>A query frame does not depend on the state of the device.\<close>

definition query_frame :: "string \<Rightarrow> glossary \<Rightarrow> int \<Rightarrow> int \<Rightarrow> int \<Rightarrow> bytes res" where
  "query_frame frame_id g appliance proto sub = build_frame_from_spec frame_id g appliance proto sub 0 None [] 0"

definition build_status_query :: "glossary \<Rightarrow> int \<Rightarrow> int \<Rightarrow> int \<Rightarrow> bytes res" where
  "build_status_query g appliance proto sub = query_frame ''cmd_0x41'' g appliance proto sub"

definition GROUP_PAGE_TO_FRAME_ID :: "(int, string) dict" where
  "GROUP_PAGE_TO_FRAME_ID =
     [(0x40, ''cmd_0x41_group0''), (0x41, ''cmd_0x41_group1''), (0x42, ''cmd_0x41_group2''),
      (0x43, ''cmd_0x41_group3''), (0x44, ''cmd_0x41_group4_power''), (0x45, ''cmd_0x41_group5''),
      (0x46, ''cmd_0x41_group6''), (0x47, ''cmd_0x41_group7''), (0x4B, ''cmd_0x41_group11''),
      (0x4C, ''cmd_0x41_group12'')]"

definition build_group_query :: "glossary \<Rightarrow> int \<Rightarrow> int \<Rightarrow> int \<Rightarrow> int \<Rightarrow> bytes res" where
  "build_group_query g appliance page proto sub =
     (case dget GROUP_PAGE_TO_FRAME_ID page of
        None \<Rightarrow> Inl ValueError
      | Some frame_id \<Rightarrow> query_frame frame_id g appliance proto sub)"

definition build_cap_query_extended :: "glossary \<Rightarrow> int \<Rightarrow> int \<Rightarrow> int \<Rightarrow> bytes res" where
  "build_cap_query_extended g appliance proto sub = query_frame ''cmd_0xb5_extended'' g appliance proto sub"

definition build_cap_query_simple :: "glossary \<Rightarrow> int \<Rightarrow> int \<Rightarrow> int \<Rightarrow> bytes res" where
  "build_cap_query_simple g appliance proto sub = query_frame ''cmd_0xb5_simple'' g appliance proto sub"

subsection \<open>Planning\<close>

definition field_response_keys :: "glossary \<Rightarrow> string \<Rightarrow> string list" where
  "field_response_keys g name =
     (case dget (walk_fields g) name of
        None \<Rightarrow> []
      | Some d \<Rightarrow>
          map fst (filter (\<lambda>(key, loc). starts_with ''rsp_'' key \<and> pl_decode loc \<noteq> []) (fd_protocols d)) @
          (case fd_capability d of None \<Rightarrow> [] | Some cap \<Rightarrow> filter (starts_with ''rsp_'') (cap_frames cap)))"

text \<open>The longest matching prefix decides.\<close>

definition frame_priority :: "string \<Rightarrow> nat" where
  "frame_priority fid =
     (if starts_with ''cmd_0x41_g'' fid then 2
      else if starts_with ''cmd_0xb5'' fid then 0
      else if starts_with ''cmd_0x41'' fid then 1
      else 10)"

definition refreshes :: "string option \<Rightarrow> string list \<Rightarrow> string \<times> frame_spec \<Rightarrow> bool" where
  "refreshes bus keys entry \<longleftrightarrow>
     (case entry of (fid, spec) \<Rightarrow>
        (case bus of None \<Rightarrow> True | Some b \<Rightarrow> fs_bus spec = [] \<or> b \<in> set (fs_bus spec)) \<and>
        list_ex (\<lambda>k. k \<in> set (fs_triggers spec)) keys)"

definition first_frame :: "glossary \<Rightarrow> string option \<Rightarrow> string \<Rightarrow> string option" where
  "first_frame g bus name =
     (let keys = field_response_keys g name
      in if keys = [] then None else map_option fst (find (refreshes bus keys) (gl_frames g)))"

definition plan_query_cycle :: "string list \<Rightarrow> glossary \<Rightarrow> string option \<Rightarrow> string list" where
  "plan_query_cycle fields_to_poll g bus =
     (let needed = concat (map (\<lambda>name. case first_frame g bus name of None \<Rightarrow> [] | Some fid \<Rightarrow> [fid]) fields_to_poll)
      in sort_key (\<lambda>fid. (frame_priority fid, fid)) (remdups needed))"

subsection \<open>The scan queue\<close>

definition ALWAYS_QUEUE_FRAMES :: "string list" where
  "ALWAYS_QUEUE_FRAMES = [''cmd_0x41'']"

definition CAP_QUERY_FRAMES :: "string list" where
  "CAP_QUERY_FRAMES = [''cmd_0xb5_extended'', ''cmd_0xb5_simple'']"

definition target_field_names :: "status \<Rightarrow> string list" where
  "target_field_names st =
     map fst (filter (\<lambda>(_, sf). sf_feature_available sf \<noteq> Some ''excluded'') (st_fields st))"

record frame_args =
  fa_appliance :: int
  fa_proto :: int
  fa_sub :: int
  fa_seq :: int

type_synonym scan_state = "(string \<times> bytes) list \<times> string list"

definition append_frame :: "glossary \<Rightarrow> frame_args \<Rightarrow> string list \<Rightarrow> string \<times> string \<Rightarrow> scan_state \<Rightarrow> scan_state" where
  "append_frame g fa dead lf acc =
     (case (lf, acc) of ((label, fid), (queue, seen)) \<Rightarrow>
        if fid \<in> set dead \<or> fid \<in> set seen then (queue, seen)
        else case build_frame_from_spec fid g (fa_appliance fa) (fa_proto fa) (fa_sub fa) (fa_seq fa) None [] 0 of
               Inl _ \<Rightarrow> (queue, seen)
             | Inr frame \<Rightarrow> (queue @ [(label, frame)], fid # seen))"

definition triggers_of :: "glossary \<Rightarrow> string \<Rightarrow> string list" where
  "triggers_of g fid = (case dget (gl_frames g) fid of None \<Rightarrow> [] | Some spec \<Rightarrow> fs_triggers spec)"

definition covered_count :: "glossary \<Rightarrow> status \<Rightarrow> string \<Rightarrow> nat" where
  "covered_count g st fid =
     length (filter (\<lambda>(fname, d).
        feature st fname \<noteq> Some ''excluded'' \<and>
        list_ex (\<lambda>k. k \<in> set (triggers_of g fid))
          (map fst (fd_protocols d) @ (case fd_capability d of None \<Rightarrow> [] | Some cap \<Rightarrow> cap_frames cap)))
       (walk_fields g))"

definition scan_plan :: "status \<Rightarrow> glossary \<Rightarrow> string \<Rightarrow> bool \<Rightarrow> string list" where
  "scan_plan st g bus need_caps =
     (let plan = plan_query_cycle (target_field_names st) g (Some bus)
      in if need_caps then plan else filter (\<lambda>fid. fid \<notin> set CAP_QUERY_FRAMES) plan)"

definition scan_requests :: "status \<Rightarrow> glossary \<Rightarrow> string \<Rightarrow> bool \<Rightarrow> bool \<Rightarrow> (string \<times> string) list" where
  \<comment> \<open>the (label, frame identifier) pairs in the order they are appended\<close>
  "scan_requests st g bus caps_finalized need_caps =
     (if need_caps
      then [(''B5 extended (0x00)'', ''cmd_0xb5_extended''), (''B5 simple (0x01)'', ''cmd_0xb5_simple'')] else []) @
     map (\<lambda>fid. (''C0 status'', fid)) ALWAYS_QUEUE_FRAMES @
     (if caps_finalized
      then map (\<lambda>fid. (fid @ '' ('' @ dec (covered_count g st fid) @ ''f)'', fid)) (scan_plan st g bus need_caps) else [])"

definition build_scan_queue ::
  "status \<Rightarrow> glossary \<Rightarrow> string \<Rightarrow> bool \<Rightarrow> bool \<Rightarrow> string list \<Rightarrow> frame_args \<Rightarrow> (string \<times> bytes) list" where
  "build_scan_queue st g bus caps_finalized need_caps dead fa =
     fst (fold (append_frame g fa dead) (scan_requests st g bus caps_finalized need_caps) ([], []))"

definition detect_dead_frames :: "glossary \<Rightarrow> (string, int) dict \<Rightarrow> string \<Rightarrow> string list" where
  "detect_dead_frames g frame_counts bus =
     map fst (filter (\<lambda>(fid, spec).
        starts_with ''cmd_0x41_group'' fid \<and>
        bus \<in> set (if fs_bus spec = [] then [''uart'', ''rt''] else fs_bus spec) \<and>
        fs_triggers spec \<noteq> [] \<and> \<not> list_ex (has_key frame_counts) (fs_triggers spec)) (gl_frames g))"

subsection \<open>Lemmas\<close>

lemma refreshes_iff:
  "refreshes bus keys (fid, spec) \<longleftrightarrow>
     (\<forall>b. bus = Some b \<longrightarrow> fs_bus spec = [] \<or> b \<in> set (fs_bus spec)) \<and> (\<exists>k \<in> set keys. k \<in> set (fs_triggers spec))"
  by (auto simp: refreshes_def list_ex_iff split: option.split)

lemma first_frame_Some:
  assumes "first_frame g bus name = Some fid"
  shows "\<exists>spec. (fid, spec) \<in> set (gl_frames g) \<and> refreshes bus (field_response_keys g name) (fid, spec)"
proof -
  obtain entry where e: "find (refreshes bus (field_response_keys g name)) (gl_frames g) = Some entry" "fid = fst entry"
    using assms by (auto simp: first_frame_def Let_def split: if_splits)
  then have "entry \<in> set (gl_frames g)" "refreshes bus (field_response_keys g name) entry"
    by (auto simp: find_Some_iff)
  then show ?thesis using e(2) by (metis prod.collapse)
qed

lemma first_frame_None:
  assumes "first_frame g bus name = None" and "(fid, spec) \<in> set (gl_frames g)"
  shows "\<not> refreshes bus (field_response_keys g name) (fid, spec)"
proof (cases "field_response_keys g name = []")
  case True
  then show ?thesis by (simp add: refreshes_iff)
next
  case False
  then show ?thesis using assms by (auto simp: first_frame_def Let_def find_None_iff)
qed

lemma set_plan: "set (plan_query_cycle targets g bus) = {fid. \<exists>name \<in> set targets. first_frame g bus name = Some fid}"
  by (auto simp: plan_query_cycle_def Let_def split: option.splits)

lemma sorted_plan:
  "sorted (map (\<lambda>fid. (frame_priority fid, fid)) (plan_query_cycle targets g bus))" "distinct (plan_query_cycle targets g bus)"
  by (simp_all add: plan_query_cycle_def Let_def)

text \<open>The queue: what was built for the frame identifiers seen, each of them once.\<close>

definition queue_ok :: "glossary \<Rightarrow> frame_args \<Rightarrow> string list \<Rightarrow> scan_state \<Rightarrow> bool" where
  "queue_ok g fa dead acc \<longleftrightarrow>
     (case acc of (queue, seen) \<Rightarrow>
        distinct seen \<and> set seen \<inter> set dead = {} \<and>
        list_all2 (\<lambda>(_, frame) fid. build_frame_from_spec fid g (fa_appliance fa) (fa_proto fa) (fa_sub fa) (fa_seq fa) None [] 0 = Inr frame)
          queue (rev seen))"

lemma append_frame_ok: "queue_ok g fa dead acc \<Longrightarrow> queue_ok g fa dead (append_frame g fa dead lf acc)"
  by (cases lf; cases acc)
    (auto simp: append_frame_def queue_ok_def list_all2_appendI split: sum.split)

lemma append_frames_ok: "queue_ok g fa dead acc \<Longrightarrow> queue_ok g fa dead (fold (append_frame g fa dead) lfs acc)"
  by (induction lfs arbitrary: acc) (simp_all only: fold_simps append_frame_ok o_apply id_apply)

lemma append_frame_seen:
  "set (snd (append_frame g fa dead (label, fid) acc)) =
     (if fid \<notin> set dead \<and> \<not> isl (build_frame_from_spec fid g (fa_appliance fa) (fa_proto fa) (fa_sub fa) (fa_seq fa) None [] 0)
      then insert fid (set (snd acc)) else set (snd acc))"
  by (cases acc) (auto simp: append_frame_def split: sum.split)

lemma append_frames_seen:
  "set (snd (fold (append_frame g fa dead) lfs acc)) = set (snd acc) \<union>
     {fid \<in> snd ` set lfs. fid \<notin> set dead \<and>
        \<not> isl (build_frame_from_spec fid g (fa_appliance fa) (fa_proto fa) (fa_sub fa) (fa_seq fa) None [] 0)}"
proof (induction lfs arbitrary: acc)
  case Nil
  then show ?case by simp
next
  case (Cons lf lfs)
  obtain label fid where "lf = (label, fid)" by (cases lf)
  then show ?case using Cons.IH [of "append_frame g fa dead lf acc"] append_frame_seen [of g fa dead label fid acc]
    by (auto split: if_splits)
qed

subsection \<open>Properties\<close>

text \<open>The plan of a query cycle refreshes what it can and nothing else: every field to poll that some
  frame of the bus can refresh has a frame of its own in the plan, every planned frame refreshes one
  of the fields, no frame is planned twice, and the frames stand in the order of their priority.\<close>

theorem plan_query_cycle_covers:
  assumes "name \<in> set targets" and "entry \<in> set (gl_frames g)" and "refreshes bus (field_response_keys g name) entry"
  shows "(\<exists>fid spec. fid \<in> set (plan_query_cycle targets g bus) \<and> (fid, spec) \<in> set (gl_frames g) \<and>
            refreshes bus (field_response_keys g name) (fid, spec)) \<and>
         set (plan_query_cycle targets g bus) \<subseteq>
           {fid. \<exists>other spec. other \<in> set targets \<and> (fid, spec) \<in> set (gl_frames g) \<and>
              refreshes bus (field_response_keys g other) (fid, spec)} \<and>
         distinct (plan_query_cycle targets g bus) \<and>
         sorted (map (\<lambda>fid. (frame_priority fid, fid)) (plan_query_cycle targets g bus))"
proof -
  obtain fid0 spec0 where "entry = (fid0, spec0)" by (cases entry)
  then obtain fid where "first_frame g bus name = Some fid"
    using first_frame_None [of g bus name fid0 spec0] assms(2,3) by (cases "first_frame g bus name") auto
  moreover from first_frame_Some [OF this] obtain spec where
    "(fid, spec) \<in> set (gl_frames g)" "refreshes bus (field_response_keys g name) (fid, spec)" by blast
  moreover have "set (plan_query_cycle targets g bus) \<subseteq>
           {fid. \<exists>other spec. other \<in> set targets \<and> (fid, spec) \<in> set (gl_frames g) \<and>
              refreshes bus (field_response_keys g other) (fid, spec)}"
    using first_frame_Some by (fastforce simp: set_plan)
  ultimately show ?thesis using assms(1) sorted_plan by (fastforce simp: set_plan)
qed

text \<open>The scan queue sends exactly the frames requested for this cycle that are not dead and can be
  built, each of them once, and what it sends for one is what \<open>build_frame_from_spec\<close> makes of it.\<close>

theorem scan_queue_exact:
  "\<exists>fids. distinct fids \<and>
     set fids = {fid \<in> snd ` set (scan_requests st g bus caps_finalized need_caps). fid \<notin> set dead \<and>
        \<not> isl (build_frame_from_spec fid g (fa_appliance fa) (fa_proto fa) (fa_sub fa) (fa_seq fa) None [] 0)} \<and>
     list_all2 (\<lambda>(_, frame) fid. build_frame_from_spec fid g (fa_appliance fa) (fa_proto fa) (fa_sub fa) (fa_seq fa) None [] 0 = Inr frame)
       (build_scan_queue st g bus caps_finalized need_caps dead fa) fids"
proof -
  let ?r = "scan_requests st g bus caps_finalized need_caps"
  let ?acc = "fold (append_frame g fa dead) ?r ([], [])"
  have ok: "queue_ok g fa dead ?acc" by (rule append_frames_ok) (simp add: queue_ok_def)
  have "distinct (rev (snd ?acc))"
    "list_all2 (\<lambda>(_, frame) fid. build_frame_from_spec fid g (fa_appliance fa) (fa_proto fa) (fa_sub fa) (fa_seq fa) None [] 0 = Inr frame)
       (build_scan_queue st g bus caps_finalized need_caps dead fa) (rev (snd ?acc))"
    using ok by (cases ?acc; simp add: queue_ok_def build_scan_queue_def)+
  then show ?thesis using append_frames_seen [of g fa dead ?r "([], [])"]
    by (intro exI [of _ "rev (snd ?acc)"]) simp
qed

subsection \<open>Example\<close>

definition query_spec :: "nat \<Rightarrow> int list \<Rightarrow> string list \<Rightarrow> frame_spec" where
  "query_spec len bs triggers = \<lparr>fs_body = BodyBytes len bs, fs_msg_type = Some 3, fs_triggers = triggers, fs_bus = []\<rparr>"

definition POLLED :: glossary where
  "POLLED = COMMANDS\<lparr>gl_frames :=
     [(''cmd_0x41_group4_power'', query_spec 3 [0x41, 0x21, 0x44] [''rsp_0xc1_group4'']),
      (''cmd_0x41'', query_spec 24 [0x41, 0x81, 0, 0xFF, 3, 0xFF, 0, 2] [''rsp_0xc0'']),
      (''cmd_0xb5_extended'', query_spec 3 [0xB5, 0x01] [''rsp_0xb5_tlv''])]\<rparr>"

theorem plan_query_cycle_covers_witness:
  "plan_query_cycle [''power'', ''timer'', ''unknown''] POLLED (Some ''uart'') = [''cmd_0x41''] \<and>
   map fst (build_scan_queue OBSERVED POLLED ''uart'' True True []
     \<lparr>fa_appliance = 0xAC, fa_proto = 2, fa_sub = 0, fa_seq = 0\<rparr>) = [''B5 extended (0x00)'', ''C0 status''] \<and>
   (\<exists>fid spec. fid \<in> set (plan_query_cycle [''power'', ''timer'', ''unknown''] POLLED (Some ''uart'')) \<and>
      (fid, spec) \<in> set (gl_frames POLLED) \<and>
      refreshes (Some ''uart'') (field_response_keys POLLED ''power'') (fid, spec))"
proof -
  have "(''cmd_0x41'', query_spec 24 [0x41, 0x81, 0, 0xFF, 3, 0xFF, 0, 2] [''rsp_0xc0'']) \<in> set (gl_frames POLLED)"
    by (simp add: POLLED_def)
  moreover have "refreshes (Some ''uart'') (field_response_keys POLLED ''power'') (''cmd_0x41'', query_spec 24 [0x41, 0x81, 0, 0xFF, 3, 0xFF, 0, 2] [''rsp_0xc0''])"
    by code_simp
  moreover have "plan_query_cycle [''power'', ''timer'', ''unknown''] POLLED (Some ''uart'') = [''cmd_0x41'']" by code_simp
  moreover have "map fst (build_scan_queue OBSERVED POLLED ''uart'' True True []
     \<lparr>fa_appliance = 0xAC, fa_proto = 2, fa_sub = 0, fa_seq = 0\<rparr>) = [''B5 extended (0x00)'', ''C0 status'']" by code_simp
  ultimately show ?thesis
    using plan_query_cycle_covers [of "''power''" "[''power'', ''timer'', ''unknown'']" _ POLLED "Some ''uart''"] by simp
qed

end
