(* ===== verification/Typing.thy ===== *)
theory Typing
  imports Process
begin

section \<open>Well-typed statuses\<close>

text \<open>
  Every field that \<open>build_status\<close> makes carries its availability, and the handlers of frames subscript
  it (\<open>field["feature_available"]\<close>): on a field without one they raise \<open>KeyError\<close>.  Only an optimistic
  write to a name the status does not know creates such a field.  Here: the handlers preserve the
  typing, and what is typed never makes them raise that error.
\<close>

definition typed :: "status \<Rightarrow> bool" where
  "typed st \<longleftrightarrow> list_all (\<lambda>(_, sf). sf_feature_available sf \<noteq> None) (st_fields st)"

named_theorems typing

lemma in_dset_subset: "set (dset k v d) \<subseteq> insert (k, v) (set d)"
  by (induction d) auto

lemma typed_fields: "st_fields st = st_fields st' \<Longrightarrow> typed st = typed st'"
  by (simp add: typed_def)

lemma typed_update [typing]: "typed (st\<lparr>st_meta := m\<rparr>) = typed st" "typed (st\<lparr>st_capabilities_raw := c\<rparr>) = typed st"
  "typed (bump k n st) = typed st"
  by (simp_all add: typed_def)

lemma typed_lookup: "typed st \<Longrightarrow> dget (st_fields st) n = Some sf \<Longrightarrow> \<exists>fa. sf_feature_available sf = Some fa"
  by (auto simp: typed_def list_all_iff dest!: map_of_SomeD)

lemma typed_put:
  assumes "typed st" and "sf_feature_available sf \<noteq> None"
  shows "typed (st\<lparr>st_fields := dset n sf (st_fields st)\<rparr>)"
  using assms in_dset_subset [of n sf "st_fields st"] by (auto simp: typed_def list_all_iff)

lemma typed_map_field:
  assumes "typed st" and "\<And>sf. sf_feature_available sf \<noteq> None \<Longrightarrow> sf_feature_available (f sf) \<noteq> None"
  shows "typed (map_field n f st)"
  using assms typed_lookup [OF assms(1), of n] by (cases "dget (st_fields st) n") (auto intro!: typed_put)

lemma typed_set_feature [typing]: "typed st \<Longrightarrow> typed (set_feature n fa st)"
  unfolding set_feature_def by (rule typed_map_field) simp_all

lemma typed_set_constraints [typing]: "typed st \<Longrightarrow> typed (set_constraints n c st)"
  unfolding set_constraints_def by (rule typed_map_field) simp_all

lemma typed_apply_cap [typing]: "typed st \<Longrightarrow> typed (apply_cap_to_field ad flds rec n st)"
  by (auto simp: apply_cap_to_field_def apply_enum_cap_def apply_data_cap_def Let_def typing
      split: option.split list.split prod.split)

lemma typed_fold: "(\<And>x st. typed st \<Longrightarrow> typed (f x st)) \<Longrightarrow> typed st \<Longrightarrow> typed (fold f xs st)"
  by (induction xs arbitrary: st) auto

lemma typed_apply_caps [typing]: "typed st \<Longrightarrow> typed (apply_caps_to_fields ad g records st)"
  unfolding apply_caps_to_fields_def Let_def by (intro typed_fold typing)

lemma typed_process_b5 [typing]:
  "typed st \<Longrightarrow> process_b5 st body g timestamp now trusted ad = Inr (st', next_frame) \<Longrightarrow> typed st'"
  by (auto simp: process_b5_def Let_def typing split: if_splits)

lemma typed_store_decoded:
  assumes "typed st"
  shows "\<exists>st' counts'. store_decoded key cnt ts gen nd (st, counts) = Inr (st', counts') \<and> typed st'"
proof (cases nd)
  case (Pair n d)
  show ?thesis
  proof (cases "dget (st_fields st) n")
    case None
    then show ?thesis using assms Pair by (simp add: store_decoded_def)
  next
    case (Some sf)
    then show ?thesis using typed_lookup [OF assms Some] assms Pair by (auto simp: store_decoded_def intro!: typed_put)
  qed
qed

lemma typed_store_rejection:
  assumes "typed st"
  shows "\<exists>st' n'. store_rejection key cnt ts rj (st, n) = Inr (st', n') \<and> typed st'"
proof (cases "dget (st_fields st) (rj_field rj)")
  case None
  then show ?thesis using assms by (simp add: store_rejection_def)
next
  case (Some sf)
  then show ?thesis using typed_lookup [OF assms Some] assms by (auto simp: store_rejection_def Let_def intro!: typed_put)
qed

lemma fold_res_total:
  assumes step: "\<And>x s c. P s \<Longrightarrow> \<exists>s' c'. f x (s, c) = Inr (s', c') \<and> P s'" and start: "P s"
  shows "\<exists>s' c'. fold_res f xs (s, c) = Inr (s', c') \<and> P s'"
  using start
proof (induction xs arbitrary: s c)
  case Nil
  then show ?case by simp
next
  case (Cons x xs)
  from step [OF Cons.prems, of x c] obtain s1 c1 where 1: "f x (s, c) = Inr (s1, c1)" "P s1" by blast
  from Cons.IH [OF 1(2), of c1] 1(1) show ?case by simp
qed

text \<open>The only exceptions of a data frame are those of its decoding.\<close>

lemma typed_data_frame:
  assumes "typed st" and "decode_frame_fields body key g (Some (st_capabilities_raw st)) fm = Inr (decoded, rejections)"
  shows "\<exists>st'. process_data_frame st body key g timestamp now fm = Inr st' \<and> typed st'"
proof -
  let ?cnt = "dget_or (me_frame_counts (st_meta st)) key 0 + 1" and ?ts = "or_now timestamp now"
  let ?st0 = "bump key 1 st"
  let ?st1 = "?st0\<lparr>st_meta := (st_meta ?st0)\<lparr>me_last_ingest_at := Some ?ts\<rparr>\<rparr>"
  have "typed ?st1" using assms(1) by (simp add: typing)
  then obtain st2 counts where
    2: "fold_res (store_decoded key ?cnt ?ts (infer_generation key g)) decoded (?st1, []) = Inr (st2, counts)" "typed st2"
    using fold_res_total [of typed "store_decoded key ?cnt ?ts (infer_generation key g)", OF typed_store_decoded] by blast
  let ?st3 = "fold (\<lambda>(reason, count). bump (key @ ''_'' @ reason @ ''_suppressions'') count) counts st2"
  have "st_fields ?st3 = st_fields st2" by (rule fold_bump)
  then have "typed ?st3" using 2(2) typed_fields by blast
  then obtain st4 m where
    4: "fold_res (store_rejection key ?cnt ?ts) rejections (?st3, 0) = Inr (st4, m)" "typed st4"
    using fold_res_total [of typed "store_rejection key ?cnt ?ts", OF typed_store_rejection] by blast
  then show ?thesis unfolding process_data_frame_def assms(2) by (simp add: Let_def 2(1) 4(1) typing)
qed

lemma typed_data_frame_result [typing]:
  assumes "process_data_frame st body key g timestamp now fm = Inr st'" and "typed st"
  shows "typed st'"
proof -
  obtain decoded rejections where "decode_frame_fields body key g (Some (st_capabilities_raw st)) fm = Inr (decoded, rejections)"
    using assms(1) by (elim process_data_frame_effect)
  from typed_data_frame [OF assms(2) this, of timestamp now] assms(1) show ?thesis by auto
qed

text \<open>Finalising raises on an untyped status and only there.\<close>

lemma finalize_field_total:
  "sf_feature_available sf \<noteq> None \<longleftrightarrow> (\<exists>y. finalize_field flds ids (n, sf) = Inr y)"
  by (auto simp: finalize_field_def Let_def split: option.split)

lemma finalize_field_typed: "finalize_field flds ids x = Inr (n, sf) \<Longrightarrow> sf_feature_available sf \<noteq> None"
  by (auto simp: finalize_field_def Let_def split: prod.splits option.splits if_splits)

lemma map_res_total: "(\<exists>ys. map_res f xs = Inr ys) \<longleftrightarrow> (\<forall>x \<in> set xs. \<exists>y. f x = Inr y)"
  by (induction xs) auto

lemma map_res_in: "map_res f xs = Inr ys \<Longrightarrow> y \<in> set ys \<Longrightarrow> \<exists>x \<in> set xs. f x = Inr y"
  by (induction xs arbitrary: ys) auto

lemma finalize_total: "typed st \<longleftrightarrow> (\<exists>st'. finalize_capabilities st g = Inr st')"
proof -
  let ?f = "finalize_field (walk_fields g) (map (lower \<circ> cr_cap_id) (st_capabilities_raw st))"
  have "typed st \<longleftrightarrow> (\<forall>x \<in> set (st_fields st). \<exists>y. ?f x = Inr y)"
    unfolding typed_def list_all_iff
  proof (rule ball_cong [OF refl])
    fix x
    show "(case x of (_, sf) \<Rightarrow> sf_feature_available sf \<noteq> None) \<longleftrightarrow> (\<exists>y. ?f x = Inr y)"
      by (cases x) (simp only: prod.case finalize_field_total [of _ "walk_fields g" "map (lower \<circ> cr_cap_id) (st_capabilities_raw st)"])
  qed
  also have "\<dots> \<longleftrightarrow> (\<exists>flds. map_res ?f (st_fields st) = Inr flds)" by (rule map_res_total [symmetric])
  also have "\<dots> \<longleftrightarrow> (\<exists>st'. finalize_capabilities st g = Inr st')" by (auto simp: finalize_capabilities_def)
  finally show ?thesis .
qed

lemma typed_finalize [typing]: "finalize_capabilities st g = Inr st' \<Longrightarrow> typed st'"
  by (auto simp: finalize_capabilities_def typed_def list_all_iff dest!: map_res_in finalize_field_typed)

lemma typed_write [typing]: "typed st \<Longrightarrow> has_key (st_fields st) n \<Longrightarrow> typed (write_field st n v src gen ts)"
  using typed_lookup [of st n] by (auto simp: write_field_def has_key_def split: option.split intro!: typed_put)

lemma typed_build_status [typing]: "typed (build_status device g)"
proof -
  have "list_all (\<lambda>(_, sf). sf_feature_available sf \<noteq> None) d \<Longrightarrow>
      list_all (\<lambda>(_, sf). sf_feature_available sf \<noteq> None) (fold (\<lambda>(name, fdef). dset name (initial_field fdef)) xs d)" for xs d
  proof (induction xs arbitrary: d)
    case Nil
    then show ?case by simp
  next
    case (Cons x xs)
    obtain n fdef where x: "x = (n, fdef)" by (cases x)
    have "list_all (\<lambda>(_, sf). sf_feature_available sf \<noteq> None) (dset n (initial_field fdef) d)"
      using Cons.prems in_dset_subset [of n "initial_field fdef" d] by (auto simp: list_all_iff initial_field_def)
    from Cons.IH [OF this] show ?case by (simp add: x)
  qed
  from this [of "[]"] show ?thesis by (simp add: typed_def build_status_def)
qed

subsection \<open>Properties\<close>

lemma has_key_write [simp]: "has_key (st_fields (write_field st n v src gen ts)) m \<longleftrightarrow> m = n \<or> has_key (st_fields st) m"
  by (simp add: write_field_def Let_def)

lemma ingress_keeps_fields:
  assumes "ingress g st st'" and "has_key (st_fields st) n"
  shows "has_key (st_fields st') n"
  using assms(1)
proof (cases rule: ingress.cases)
  case (capability_frame body timestamp now trusted next_frame)
  then show ?thesis using assms(2) by (cases trusted) (auto simp: process_b5_untrusted elim!: process_b5_InrD)
next
  case (data_frame body key timestamp now fm)
  then show ?thesis using assms(2) by (elim process_data_frame_effect) simp
next
  case scan_end
  then show ?thesis using assms(2) finalize_InrD(1) [OF scan_end, of n] by (auto simp: has_key_def split: option.splits)
qed (use assms(2) in simp)

lemma ingress_typed:
  assumes "ingress g st st'" and "typed st"
  shows "typed st' \<or> (\<exists>n. has_key (st_fields st') n \<and> \<not> has_key (st_fields st) n)"
  using assms(1)
proof (cases rule: ingress.cases)
  case (command name v src gen ts)
  then show ?thesis using assms(2) typed_write [of st name v src gen ts] by (metis has_key_write)
next
  case (capability_frame body timestamp now trusted next_frame)
  then show ?thesis using typed_process_b5 [OF assms(2)] by blast
next
  case (data_frame body key timestamp now fm)
  then show ?thesis using typed_data_frame_result assms(2) by blast
next
  case scan_end
  then show ?thesis using typed_finalize by blast
qed

text \<open>C32: the types of a session: in every status reached from \<open>build_status\<close> in which no field was
  created by a write to an unknown name, every field has its availability; there the end of the boot
  scan cannot raise, and a data frame raises only what its decoding raises.\<close>

theorem reachable_typed:
  assumes "(ingress g)\<^sup>*\<^sup>* (build_status device g) st"
    and "\<And>n. has_key (st_fields st) n \<Longrightarrow> has_key (st_fields (build_status device g)) n"
  shows "typed st \<and> (\<exists>st'. finalize_capabilities st g = Inr st') \<and>
    (process_data_frame st body key g timestamp now fm = Inl e \<longrightarrow>
       decode_frame_fields body key g (Some (st_capabilities_raw st)) fm = Inl e)"
proof -
  have "typed st \<or> (\<exists>n. has_key (st_fields st) n \<and> \<not> has_key (st_fields (build_status device g)) n)"
    using assms(1)
  proof (induction rule: rtranclp_induct)
    case base
    then show ?case by (simp add: typing)
  next
    case (step st1 st2)
    have "has_key (st_fields st1) n" if "has_key (st_fields (build_status device g)) n" for n
      using step(1) that by (induction rule: rtranclp_induct) (auto dest: ingress_keeps_fields)
    then show ?case using step ingress_typed ingress_keeps_fields by blast
  qed
  then have t: "typed st" using assms(2) by blast
  have "decode_frame_fields body key g (Some (st_capabilities_raw st)) fm = Inl e"
    if r: "process_data_frame st body key g timestamp now fm = Inl e"
  proof (cases "decode_frame_fields body key g (Some (st_capabilities_raw st)) fm")
    case (Inl e')
    then show ?thesis using r by (simp add: process_data_frame_def)
  next
    case (Inr x)
    obtain decoded rejections where "x = (decoded, rejections)" by (cases x)
    with Inr have "decode_frame_fields body key g (Some (st_capabilities_raw st)) fm = Inr (decoded, rejections)" by simp
    from typed_data_frame [OF t this, of timestamp now] r show ?thesis by auto
  qed
  with t finalize_total show ?thesis by blast
qed

theorem reachable_typed_witness:
  "typed BOOTED \<and> (\<exists>st'. finalize_capabilities BOOTED EXAMPLE = Inr st')"
proof -
  let ?b5 = "process_b5 (build_status ''ac'' EXAMPLE) [0xB5, 1, 0x10, 2, 1, 1, 0, 0] EXAMPLE None ''2026-01-01T00:00:00+00:00'' True True"
  have "\<not> isl ?b5" by code_simp
  then obtain st next_frame where b5: "?b5 = Inr (st, next_frame)" by (metis not_isl_Inr prod.collapse)
  then have 1: "ingress EXAMPLE (build_status ''ac'' EXAMPLE) st"
    using open_step by (simp add: build_status_def)
  have "\<not> isl (finalize_capabilities (fst (projr ?b5)) EXAMPLE)" by code_simp
  then obtain st' where f: "finalize_capabilities st EXAMPLE = Inr st'" using b5 by (cases "finalize_capabilities st EXAMPLE") auto
  have b: "BOOTED = st'" by (simp add: BOOTED_def b5 f)
  have r: "(ingress EXAMPLE)\<^sup>*\<^sup>* (build_status ''ac'' EXAMPLE) BOOTED"
    using 1 ingress.scan_end [OF f] b by (metis r_into_rtranclp rtranclp.rtrancl_into_rtrancl)
  have "list_all (has_key (st_fields (build_status ''ac'' EXAMPLE))) (map fst (st_fields BOOTED))" by code_simp
  then have "has_key (st_fields (build_status ''ac'' EXAMPLE)) n" if "has_key (st_fields BOOTED) n" for n
    using that unfolding list_all_iff by (force simp: has_key_def [of "st_fields BOOTED"] dest!: map_of_SomeD)
  from reachable_typed [OF r this] show ?thesis by blast
qed

end
