(* ===== verification/Device.thy ===== *)
theory Device
  imports Status_DB Planner Clock
begin

section \<open>The device (\<open>client/device.py\<close>)\<close>

text \<open>
  A \<open>Device\<close> owns the status database of one appliance and the connection to its gateway.  Here is
  what it does with the frames it receives (rejections, observers, capability frames processed at
  once, data frames handed to tasks), how it scans the capabilities at boot, what it polls, and the
  frames it polls with.  The life cycle of the link is in the theory \<open>Link\<close>.

  The asyncio tasks created for data frames form a queue: the lock of the database serves them in the
  order of their creation.  The clocks are arguments: \<open>ts\<close> is the wall clock's timestamp and \<open>tick\<close> the
  monotonic time of a reception.  Observers only see what they are called with: the calls are output.

  The lemmas are in \<open>Device_Steps\<close> (what a device does to its status, the end of the scan) and
  \<open>Polling\<close> (what the polls cover, the follow-me query); here is only that the text a frame is sent as
  reads back as the frame.
\<close>

subsection \<open>State\<close>

datatype b5_state = Idle | Waiting | Done

record nak =
  nk_msg_type :: int
  nk_body :: bytes
  nk_ts :: string

type_synonym ingest_task = "bytes \<times> string \<times> string"

record device =
  dv_db :: status_db
  dv_client :: "bool option"  \<comment> \<open>\<open>_client\<close>, with \<open>_client._ws\<close>\<close>
  dv_b5_state :: b5_state
  dv_b5_next_frame :: bool
  dv_b5_event :: "bool option"  \<comment> \<open>\<open>_b5_response_event\<close> and whether it is set\<close>
  dv_initial_event :: "bool option"
  dv_follow_me :: "rat option"
  dv_suppressed_until :: "rat option"
  dv_last_nak :: "nak option"  \<comment> \<open>\<open>meta["last_nak"]\<close>\<close>
  dv_b1_prop_ids :: "(int \<times> int) list"
  dv_tasks :: "ingest_task list"

definition new_device :: "glossary \<Rightarrow> device" where
  "new_device g =
     \<lparr>dv_db = new_db g (build_status ''ac'' g), dv_client = None, dv_b5_state = Idle, dv_b5_next_frame = False,
      dv_b5_event = None, dv_initial_event = None, dv_follow_me = None, dv_suppressed_until = None,
      dv_last_nak = None, dv_b1_prop_ids = [], dv_tasks = []\<rparr>"

abbreviation dv_status :: "device \<Rightarrow> status" where
  "dv_status dev \<equiv> db_status (dv_db dev)"

abbreviation dv_glossary :: "device \<Rightarrow> glossary" where
  "dv_glossary dev \<equiv> db_glossary (dv_db dev)"

definition set_status :: "status \<Rightarrow> device \<Rightarrow> device" where
  "set_status st dev = dev\<lparr>dv_db := (dv_db dev)\<lparr>db_status := st\<rparr>\<rparr>"

definition link_alive :: "device \<Rightarrow> bool" where  \<comment> \<open>\<open>self._client and self._client._ws\<close>\<close>
  "link_alive dev \<longleftrightarrow> dv_client dev = Some True"

subsection \<open>Suppression, shadow, freshness\<close>

definition MAX_TEST_SUPPRESSION_S :: rat where
  "MAX_TEST_SUPPRESSION_S = 600"

definition set_test_suppression :: "rat \<Rightarrow> rat \<Rightarrow> device \<Rightarrow> device \<times> rat" where
  "set_test_suppression tick duration dev =
     (if duration \<le> 0 then (dev\<lparr>dv_suppressed_until := None\<rparr>, 0)
      else let capped = min duration MAX_TEST_SUPPRESSION_S
           in (dev\<lparr>dv_suppressed_until := Some (tick + capped)\<rparr>, capped))"

definition is_test_suppressed :: "rat \<Rightarrow> device \<Rightarrow> device \<times> bool" where
  "is_test_suppressed tick dev =
     (case dv_suppressed_until dev of
        None \<Rightarrow> (dev, False)
      | Some until \<Rightarrow> (if tick \<ge> until then (dev\<lparr>dv_suppressed_until := None\<rparr>, False) else (dev, True)))"

definition clamp_celsius :: "rat \<Rightarrow> rat" where
  "clamp_celsius c = max 0 (min 50 c)"

definition set_follow_me_shadow :: "rat \<Rightarrow> device \<Rightarrow> device" where
  "set_follow_me_shadow celsius dev = dev\<lparr>dv_follow_me := Some (clamp_celsius celsius)\<rparr>"

definition clear_follow_me_shadow :: "device \<Rightarrow> device" where
  "clear_follow_me_shadow dev = dev\<lparr>dv_follow_me := None\<rparr>"

definition is_fresh :: "rat \<Rightarrow> rat \<Rightarrow> rat \<Rightarrow> device \<Rightarrow> bool" where
  "is_fresh now poll_interval staleness_factor dev \<longleftrightarrow>
     (case me_last_ingest_at (st_meta (dv_status dev)) of
        None \<Rightarrow> False
      | Some ts \<Rightarrow>
          (case fromisoformat ts of
             None \<Rightarrow> False
           | Some (t, _) \<Rightarrow> now - t < poll_interval * staleness_factor))"

subsection \<open>Fields\<close>

record field_view =
  fv_data_type :: string
  fv_writable :: bool
  fv_feature_available :: string
  fv_active_constraints :: "constraints option"

definition confirmed :: "string option \<Rightarrow> string option" where
  \<comment> \<open>the availability, unless it is missing, excluded or still waiting for the capabilities\<close>
  "confirmed fa = (case fa of None \<Rightarrow> None | Some a \<Rightarrow> if a \<in> {''excluded'', ''capability'', ''capability-opt''} then None else Some a)"

definition available_fields :: "device \<Rightarrow> (string, field_view) dict" where
  "available_fields dev =
     concat (map (\<lambda>(name, sf).
        case confirmed (sf_feature_available sf) of
          None \<Rightarrow> []
        | Some fa \<Rightarrow>
            [(name, \<lparr>fv_data_type = (case sf_data_type sf of None \<Rightarrow> ''unknown'' | Some t \<Rightarrow> t),
                     fv_writable = sf_writable sf, fv_feature_available = fa,
                     fv_active_constraints = sf_active_constraints sf\<rparr>)]) (st_fields (dv_status dev)))"

definition device_read :: "device \<Rightarrow> string \<Rightarrow> pyval" where
  "device_read dev name = read_value (dv_status dev) name"

definition read_all_available :: "device \<Rightarrow> (string, pyval) dict" where
  "read_all_available dev = map (\<lambda>name. (name, device_read dev name)) (dkeys (available_fields dev))"

definition device_constraints :: "device \<Rightarrow> string \<Rightarrow> constraints option" where
  "device_constraints dev name =
     (case dget (st_fields (dv_status dev)) name of None \<Rightarrow> None | Some sf \<Rightarrow> sf_active_constraints sf)"

definition device_cap_values :: "device \<Rightarrow> (string, int) dict" where
  "device_cap_values dev =
     fold (\<lambda>rec out.
        case cr_data rec of
          [] \<Rightarrow> out
        | b # _ \<Rightarrow> if lower (cr_cap_id rec) = [] then out else dset (lower (cr_cap_id rec)) (uint b) out)
       (st_capabilities_raw (dv_status dev)) []"

subsection \<open>Reception\<close>

definition NAK_MSG_TYPES :: "int list" where
  "NAK_MSG_TYPES = [0x06, 0x0A]"

definition nak_key :: "int \<Rightarrow> string" where  \<comment> \<open>\<open>f"nak_0x{msg_type:02X}"\<close>\<close>
  "nak_key msg_type = ''nak_'' @ hex_id (word_of_int msg_type)"

definition handle_nak_frame :: "int \<Rightarrow> bytes \<Rightarrow> string \<Rightarrow> device \<Rightarrow> device" where
  "handle_nak_frame msg_type body ts dev =
     (set_status (bump (nak_key msg_type) 1 (dv_status dev)) dev)
       \<lparr>dv_last_nak := Some \<lparr>nk_msg_type = msg_type, nk_body = body, nk_ts = ts\<rparr>\<rparr>"

definition receive_b5 :: "parsed_frame \<Rightarrow> string \<Rightarrow> device \<Rightarrow> device" where
  "receive_b5 p ts dev =
     (let caps_frozen = me_caps_finalized (st_meta (dv_status dev));
          st = (if caps_frozen then bump ''rsp_0xb5_post_boot'' 1 (dv_status dev) else dv_status dev)
      in case process_b5 st (pf_body p) (dv_glossary dev) (Some ts) ts (pf_crc_ok p \<and> pf_checksum_ok p) (\<not> caps_frozen) of
           Inl _ \<Rightarrow> set_status st dev  \<comment> \<open>the exception is swallowed, the count stays\<close>
         | Inr (st', next_frame) \<Rightarrow>
             (let dev' = set_status st' dev
              in if dv_b5_state dev = Waiting
                 then dev'\<lparr>dv_b5_next_frame := next_frame, dv_b5_event := map_option (\<lambda>_. True) (dv_b5_event dev)\<rparr>
                 else dev'))"

text \<open>The new state, and what every frame observer is called with.\<close>

definition process_frame :: "device \<Rightarrow> string \<Rightarrow> string \<Rightarrow> rat \<Rightarrow> device \<times> (string \<times> bytes) list" where
  "process_frame dev hex ts tick =
     (case is_test_suppressed tick dev of
        (dev, True) \<Rightarrow> (dev, [])
      | (dev, False) \<Rightarrow>
          (case bind_res (fromhex (filter (\<lambda>c. c \<noteq> CHR '' '') hex)) parse_frame of
             Inl _ \<Rightarrow> (dev, [])
           | Inr p \<Rightarrow>
               (let body = pf_body p
                in if pf_msg_type p \<in> set NAK_MSG_TYPES
                   then (handle_nak_frame (pf_msg_type p) body ts dev, [(nak_key (pf_msg_type p), body)])
                   else case identify_frame body of
                          Inl _ \<Rightarrow> (dev, [])
                        | Inr key \<Rightarrow>
                            ((if key = ''rsp_0xb5'' then receive_b5 p ts dev
                              else dev\<lparr>dv_tasks := dv_tasks dev @ [(body, key, ts)]\<rparr>), [(key, body)]))))"

text \<open>The next ingest task, with the callbacks it fires; a task whose ingest raises ends there.\<close>

definition run_task :: "device \<Rightarrow> bool \<Rightarrow> device \<times> (string \<times> pyval \<times> pyval) list" where
  "run_task dev registered =
     (case dv_tasks dev of
        [] \<Rightarrow> (dev, [])
      | (body, key, ts) # rest \<Rightarrow>
          (let dev = dev\<lparr>dv_tasks := rest\<rparr>
           in case db_ingest (dv_db dev) body key (Some ts) ts (Some (dkeys (available_fields dev))) registered of
                Inl _ \<Rightarrow> (dev, [])
              | Inr (db', events) \<Rightarrow>
                  (dev\<lparr>dv_db := db',
                       dv_initial_event := (if key = ''rsp_0xc0'' then map_option (\<lambda>_. True) (dv_initial_event dev)
                                            else dv_initial_event dev)\<rparr>, events)))"

subsection \<open>The capability scan\<close>

text \<open>
  What happens to one page: the query cannot be sent, or these frames arrive before the scan
  resumes; when none of them set the event, the wait has timed out.
\<close>

datatype page_script = Send_fails | Receives "(string \<times> string \<times> rat) list"

definition b5_queries :: "glossary \<Rightarrow> bytes res list" where
  "b5_queries g = [build_cap_query_extended g 0xAC 0 0, build_cap_query_simple g 0xAC 0 0]"

definition open_page :: "device \<Rightarrow> device" where
  "open_page dev = dev\<lparr>dv_b5_state := Waiting, dv_b5_next_frame := False, dv_b5_event := Some False\<rparr>"

definition receive_all :: "(string \<times> string \<times> rat) list \<Rightarrow> device \<Rightarrow> device" where
  "receive_all msgs dev = fold (\<lambda>(hex, ts, tick) dev. fst (process_frame dev hex ts tick)) msgs dev"

fun scan_pages :: "bytes res list \<Rightarrow> page_script list \<Rightarrow> device \<Rightarrow> bytes list \<Rightarrow> device \<times> bytes list" where
  "scan_pages [] scripts dev sent = (dev, sent)"
| "scan_pages (q # qs) scripts dev sent =
     (let dev = open_page dev;
          script = (case scripts of [] \<Rightarrow> Receives [] | s # _ \<Rightarrow> s)
      in case (q, script) of
           (Inr frame, Receives msgs) \<Rightarrow>
             (let dev = receive_all msgs dev
              in if dv_b5_event dev \<noteq> Some True then (dev, sent @ [frame])  \<comment> \<open>timeout\<close>
                 else if \<not> dv_b5_next_frame dev then (dev, sent @ [frame])
                 else scan_pages qs (tl scripts) dev (sent @ [frame]))
         | _ \<Rightarrow> (dev, sent))"

definition finish_scan :: "glossary \<Rightarrow> device \<Rightarrow> device \<times> unit res" where
  "finish_scan g dev =
     (let dev = dev\<lparr>dv_b5_state := Done, dv_b5_event := None\<rparr>
      in case finalize_capabilities (dv_status dev) g of
           Inl e \<Rightarrow> (dev, Inl e)
         | Inr st \<Rightarrow> (set_status st dev, Inr ()))"

text \<open>The queries are built from the glossary of the package (\<open>base\<close>), not from a patched one.\<close>

definition query_capabilities :: "glossary \<Rightarrow> page_script list \<Rightarrow> device \<Rightarrow> (device \<times> bytes list) \<times> unit res" where
  "query_capabilities base scripts dev =
     (if dv_client dev = None \<or> me_b5_received (st_meta (dv_status dev)) then ((dev, []), Inr ())
      else case scan_pages (b5_queries base) scripts dev [] of
             (dev, sent) \<Rightarrow>
               (case finish_scan (dv_glossary dev) dev of (dev, r) \<Rightarrow> ((dev, sent), r)))"

subsection \<open>What is polled\<close>

text \<open>\<open>int(s, 0)\<close>: a prefix decides the base; a decimal number has no leading zero.\<close>

fun based_digits :: "int \<Rightarrow> int \<Rightarrow> bool \<Rightarrow> string \<Rightarrow> int res" where
  \<comment> \<open>the flag: an underscore may stand here\<close>
  "based_digits base acc sep [] = (if sep then Inr acc else Inl ValueError)"
| "based_digits base acc sep (c # s) =
     (case hex_val c of
        Some d \<Rightarrow> if d < base then based_digits base (base * acc + d) True s else Inl ValueError
      | None \<Rightarrow> if c = CHR ''_'' \<and> sep then based_digits base acc False s else Inl ValueError)"

definition prefixed_digits :: "int \<Rightarrow> string \<Rightarrow> int res" where
  "prefixed_digits base s =
     (case s of
        [] \<Rightarrow> Inl ValueError
      | c # r \<Rightarrow> if c = CHR ''_'' then based_digits base 0 False r else based_digits base 0 False (c # r))"

definition int_base0 :: "string \<Rightarrow> int res" where
  "int_base0 s =
     (let t = strip s;
          neg = (t \<noteq> [] \<and> hd t = CHR ''-'');
          u = (if t \<noteq> [] \<and> (hd t = CHR ''-'' \<or> hd t = CHR ''+'') then tl t else t);
          p = lower (take 2 u);
          n = (if p = ''0x'' then prefixed_digits 16 (drop 2 u)
               else if p = ''0o'' then prefixed_digits 8 (drop 2 u)
               else if p = ''0b'' then prefixed_digits 2 (drop 2 u)
               else bind_res (based_digits 10 0 False u) (\<lambda>k.
                 if k \<noteq> 0 \<and> take 1 u = ''0'' then Inl ValueError else Inr k))
      in bind_res n (\<lambda>k. Inr (if neg then - k else k)))"

text \<open>The glossary writes a property identifier as a string.\<close>

definition parse_b1_property_id :: "string option \<Rightarrow> (int \<times> int) option" where
  "parse_b1_property_id raw =
     (case raw of
        None \<Rightarrow> None
      | Some s \<Rightarrow>
          (case map strip (split_on (CHR '','') s) of
             [lo, hi] \<Rightarrow>
               (case (int_base0 lo, int_base0 hi) of
                  (Inr l, Inr h) \<Rightarrow> Some (l AND 0xFF, h AND 0xFF)
                | _ \<Rightarrow> None)
           | _ \<Rightarrow> None))"

function replace_all :: "string \<Rightarrow> string \<Rightarrow> string \<Rightarrow> string" where  \<comment> \<open>\<open>s.replace(p, q)\<close>, \<open>p\<close> not empty\<close>
  "replace_all p q [] = []"
| "replace_all p q (c # s) =
     (if starts_with p (c # s) then q @ replace_all p q (drop (length p - 1) s) else c # replace_all p q s)"
  by pat_completeness auto
termination by (relation "measure (\<lambda>(p, q, s). length s)") auto

definition response_to_query :: "string \<Rightarrow> string option" where
  "response_to_query key =
     (if key = ''rsp_0xc0'' then Some ''cmd_0x41''
      else if starts_with ''rsp_0xc1_group'' key then Some (replace_all ''rsp_'' ''cmd_'' key)
      else if key \<in> {''rsp_0xb5'', ''rsp_0xb5_tlv''} then Some ''cmd_0xb5''
      else if key = ''rsp_0xa1'' then Some ''cmd_0x41''
      else None)"

definition B1_BATCH_SIZE :: nat where
  "B1_BATCH_SIZE = 8"

definition response_blocks :: "device \<Rightarrow> (string \<times> proto_loc) list" where
  \<comment> \<open>the response blocks of the available fields, in the order the loops visit them\<close>
  "response_blocks dev =
     concat (map (\<lambda>name.
        case dget (walk_fields (dv_glossary dev)) name of
          None \<Rightarrow> []
        | Some d \<Rightarrow> filter (\<lambda>(_, loc). pl_direction loc = Some ''response'') (fd_protocols d))
       (dkeys (available_fields dev)))"

definition property_pairs :: "device \<Rightarrow> (int \<times> int) list" where
  "property_pairs dev =
     remdups (concat (map (\<lambda>(key, loc).
        if key = ''rsp_0xb1''
        then concat (map (\<lambda>step. case parse_b1_property_id (ds_property_id step) of None \<Rightarrow> [] | Some pair \<Rightarrow> [pair]) (pl_decode loc))
        else []) (response_blocks dev)))"

definition batch_key :: "nat \<Rightarrow> string" where
  "batch_key i = ''cmd_0xb1_batch_'' @ dec i"

definition batch_count :: "(int \<times> int) list \<Rightarrow> nat" where
  "batch_count pairs = (length pairs + B1_BATCH_SIZE - 1) div B1_BATCH_SIZE"

definition compute_required_queries :: "device \<Rightarrow> device \<times> string list" where
  "compute_required_queries dev =
     (let static = concat (map (\<lambda>(key, _).
            if key = ''rsp_0xb1'' then [] else case response_to_query key of None \<Rightarrow> [] | Some q \<Rightarrow> [q]) (response_blocks dev));
          pairs = sort (property_pairs dev)
      in (dev\<lparr>dv_b1_prop_ids := pairs\<rparr>, remdups (static @ map batch_key [0..<batch_count pairs])))"

subsection \<open>Query frames\<close>

text \<open>The follow-me query is the status query with two bytes patched and both checks taken again.\<close>

definition build_follow_me_query :: "glossary \<Rightarrow> rat \<Rightarrow> bytes res" where
  "build_follow_me_query base celsius =
     bind_res (build_status_query base 0xAC 0 0) (\<lambda>frame.
     bind_res (to_byte (py_round (clamp_celsius celsius * 2 + 50))) (\<lambda>raw.
       if length frame \<le> 15 then Inl IndexError
       else let frame = frame[14 := 0x01, 15 := raw];
                body_end = length frame - 2;
                frame = frame[length frame - 2 := crc8 (slice 10 body_end frame)]
            in Inr (frame[length frame - 1 := word_of_int (frame_checksum frame)])))"

fun before :: "string \<Rightarrow> string \<Rightarrow> string" where  \<comment> \<open>up to the first occurrence\<close>
  "before p [] = []"
| "before p (c # s) = (if starts_with p (c # s) then [] else c # before p s)"

definition last_part :: "char \<Rightarrow> string \<Rightarrow> string" where  \<comment> \<open>\<open>s.rsplit(c, 1)[1]\<close>, \<open>c\<close> in \<open>s\<close>\<close>
  "last_part c s = rev (takeWhile (\<lambda>x. x \<noteq> c) (rev s))"

definition group_query_frame :: "glossary \<Rightarrow> string \<Rightarrow> bytes option res" where
  "group_query_frame base key =
     (case bind_res (int_of_str (before ''group'' (drop 14 key))) (\<lambda>n. build_group_query base 0xAC (0x40 + n) 0 0) of
        Inr frame \<Rightarrow> Inr (Some frame)
      | Inl ValueError \<Rightarrow> Inr None
      | Inl e \<Rightarrow> Inl e)"

definition batch_pairs :: "device \<Rightarrow> int \<Rightarrow> (int \<times> int) list" where
  "batch_pairs dev batch = py_slice (batch * int B1_BATCH_SIZE) (batch * int B1_BATCH_SIZE + int B1_BATCH_SIZE) (dv_b1_prop_ids dev)"

definition batch_query_frame :: "device \<Rightarrow> string \<Rightarrow> bytes option res" where
  "batch_query_frame dev key =
     (case bind_res (int_of_str (last_part (CHR ''_'') key)) (\<lambda>n.
             if batch_pairs dev n = [] then Inr None
             else bind_res (build_b1_property_query (batch_pairs dev n) 0xAC 0 0) (Inr \<circ> Some)) of
        Inr r \<Rightarrow> Inr r
      | Inl ValueError \<Rightarrow> Inr None
      | Inl e \<Rightarrow> Inl e)"

definition build_query_frame :: "glossary \<Rightarrow> device \<Rightarrow> string \<Rightarrow> bytes option res" where
  "build_query_frame base dev key =
     (if key = ''cmd_0x41'' then
        bind_res (case dv_follow_me dev of
                    Some celsius \<Rightarrow> build_follow_me_query base celsius
                  | None \<Rightarrow> build_status_query base 0xAC 0 0) (Inr \<circ> Some)
      else if key = ''cmd_0xb5'' then bind_res (build_cap_query_extended base 0xAC 0 0) (Inr \<circ> Some)
      else if starts_with ''cmd_0xc1_group'' key then group_query_frame base key
      else if starts_with ''cmd_0xb1_batch_'' key then batch_query_frame dev key
      else Inr None)"

text \<open>
  One poll cycle.  \<open>alive i\<close>: the device runs and the link is there before the \<open>i\<close>-th key;
  \<open>accepted i\<close>: the link takes the frame of the \<open>i\<close>-th key.  The frames sent, and the exception that
  ended the cycle.
\<close>

fun poll_keys :: "glossary \<Rightarrow> device \<Rightarrow> (nat \<Rightarrow> bool) \<Rightarrow> (nat \<Rightarrow> bool) \<Rightarrow> nat \<Rightarrow> string list \<Rightarrow> bytes list \<times> unit res" where
  "poll_keys base dev alive accepted i [] = ([], Inr ())"
| "poll_keys base dev alive accepted i (key # keys) =
     (if \<not> alive i then ([], Inr ())
      else case build_query_frame base dev key of
             Inl e \<Rightarrow> ([], Inl e)
           | Inr None \<Rightarrow> poll_keys base dev alive accepted (Suc i) keys
           | Inr (Some frame) \<Rightarrow>
               (if \<not> accepted i then ([], Inr ())
                else case poll_keys base dev alive accepted (Suc i) keys of (sent, r) \<Rightarrow> (frame # sent, r)))"

definition send_poll_queries ::
  "glossary \<Rightarrow> device \<Rightarrow> (nat \<Rightarrow> bool) \<Rightarrow> (nat \<Rightarrow> bool) \<Rightarrow> device \<times> bytes list \<times> unit res" where
  "send_poll_queries base dev alive accepted =
     (if \<not> link_alive dev then (dev, [], Inr ())
      else case compute_required_queries dev of
             (dev', queries) \<Rightarrow>
               (dev', poll_keys base dev' alive accepted 0 (sort (if queries = [] then [''cmd_0x41''] else queries))))"

subsection \<open>Commands\<close>

definition device_set :: "device \<Rightarrow> changes \<Rightarrow> command_env \<Rightarrow> (device \<times> bytes list \<times> command_outcome res) option" where
  \<comment> \<open>\<open>None\<close>: \<open>RuntimeError\<close>, the device is not connected\<close>
  "device_set dev cs env =
     (if \<not> link_alive dev then None
      else case db_command (dv_db dev) cs env of (db', sent, outcome) \<Rightarrow> Some (dev\<lparr>dv_db := db'\<rparr>, sent, outcome))"

definition toggle_display :: "device \<Rightarrow> bytes res option" where
  "toggle_display dev = (if \<not> link_alive dev then None else Some (build_display_toggle_frame 0xAC 0 0))"

definition send_silent_poll :: "glossary \<Rightarrow> device \<Rightarrow> bytes res option" where
  "send_silent_poll base dev = (if \<not> link_alive dev then None else Some (build_status_query base 0xAC 0 0))"

end
