(* ===== verification/Device_Steps.thy ===== *)
theory Device_Steps
  imports Device Typing
begin

section \<open>What a device does to its status\<close>

text \<open>
  The operations of a device as steps.  Lemmas: every step moves the status by steps of the core and
  by its frame counters, and leaves the database clean; a scan is a path of steps, and it always ends.
\<close>

subsection \<open>The steps of a device\<close>

text \<open>A page of the scan is opened and the scan is finished in steps of their own: frames, tasks, polls and
  commands run between them.\<close>

inductive device_step :: "device \<Rightarrow> device \<Rightarrow> bool" where
  received: "process_frame dev hex ts tick = (dev', calls) \<Longrightarrow> device_step dev dev'"
| task_ran: "run_task dev registered = (dev', events) \<Longrightarrow> device_step dev dev'"
| page_opened: "device_step dev (open_page dev)"
| scan_finished: "finish_scan (dv_glossary dev) dev = (dev', r) \<Longrightarrow> device_step dev dev'"
| polled: "send_poll_queries base dev alive accepted = (dev', sent, r) \<Longrightarrow> device_step dev dev'"
| commanded: "device_set dev cs env = Some (dev', sent, outcome) \<Longrightarrow> device_step dev dev'"
| suppressed: "set_test_suppression tick duration dev = (dev', d) \<Longrightarrow> device_step dev dev'"
| follow_me_set: "device_step dev (set_follow_me_shadow celsius dev)"
| follow_me_cleared: "device_step dev (clear_follow_me_shadow dev)"
| link_changed: "device_step dev (dev\<lparr>dv_client := c\<rparr>)"
| status_awaited: "device_step dev (dev\<lparr>dv_initial_event := e\<rparr>)"

inductive_cases device_stepE: "device_step dev dev'"

text \<open>What they do to the status: steps of the core, and the counters of rejections and late capability frames.\<close>

inductive core_step :: "glossary \<Rightarrow> status \<Rightarrow> status \<Rightarrow> bool" for g where
  ingressed: "ingress g st st' \<Longrightarrow> core_step g st st'"
| counted: "core_step g st (bump key 1 st)"

inductive_cases core_stepE: "core_step g st st'"

abbreviation core_steps :: "glossary \<Rightarrow> status \<Rightarrow> status \<Rightarrow> bool" where
  "core_steps g \<equiv> (core_step g)\<^sup>*\<^sup>*"

text \<open>A database whose cache and queue are clean, for this glossary.\<close>

definition clean :: "glossary \<Rightarrow> device \<Rightarrow> bool" where
  "clean g dev \<longleftrightarrow> represents g (dv_db dev) (dv_status dev)"

definition evolves :: "glossary \<Rightarrow> device \<Rightarrow> device \<Rightarrow> bool" where
  "evolves g dev dev' \<longleftrightarrow> core_steps g (dv_status dev) (dv_status dev') \<and> (clean g dev \<longrightarrow> clean g dev')"

lemma set_status_simps [simp]:
  "dv_status (set_status st dev) = st" "dv_glossary (set_status st dev) = dv_glossary dev"
  "dv_client (set_status st dev) = dv_client dev" "dv_b5_state (set_status st dev) = dv_b5_state dev"
  "dv_b5_event (set_status st dev) = dv_b5_event dev" "dv_tasks (set_status st dev) = dv_tasks dev"
  "clean g (set_status st dev) = clean g dev"
  by (simp_all add: set_status_def clean_def represents_def cache_ok_def)

lemma evolves_same_db [intro]: "dv_db dev' = dv_db dev \<Longrightarrow> evolves g dev dev'"
  by (simp add: evolves_def clean_def)

lemma evolves_trans [trans]: "evolves g a b \<Longrightarrow> evolves g b c \<Longrightarrow> evolves g a c"
  using rtranclp_trans [of "core_step g" "dv_status a" "dv_status b" "dv_status c"] by (simp add: evolves_def)

lemma core_step_evolves: "core_steps g (dv_status dev) st \<Longrightarrow> evolves g dev (set_status st dev)"
  by (simp add: evolves_def)

lemma evolves_update:
  "evolves g dev (dev'\<lparr>dv_b5_next_frame := n, dv_b5_event := e\<rparr>) = evolves g dev dev'"
  "evolves g dev (dev'\<lparr>dv_last_nak := k\<rparr>) = evolves g dev dev'"
  by (simp_all add: evolves_def clean_def)

lemma receive_b5_evolves:
  assumes "dv_glossary dev = g"
  shows "evolves g dev (receive_b5 p ts dev)"
proof -
  let ?frozen = "me_caps_finalized (st_meta (dv_status dev))"
  let ?st = "if ?frozen then bump ''rsp_0xb5_post_boot'' 1 (dv_status dev) else dv_status dev"
  have b: "core_steps g (dv_status dev) ?st" using core_step.counted by auto
  show ?thesis
  proof (cases "process_b5 ?st (pf_body p) g (Some ts) ts (pf_crc_ok p \<and> pf_checksum_ok p) (\<not> ?frozen)")
    case (Inl e)
    then show ?thesis using b assms by (simp add: receive_b5_def Let_def core_step_evolves)
  next
    case (Inr r)
    obtain st' n where r: "r = (st', n)" by (cases r)
    have "(\<not> me_caps_finalized (st_meta ?st)) = (\<not> ?frozen)" by simp
    from Inr [unfolded r, folded this] have "ingress g ?st st'" by (rule ingress.capability_frame)
    then have "core_step g ?st st'" by (rule core_step.ingressed)
    with b have "core_steps g (dv_status dev) st'" by (rule rtranclp.rtrancl_into_rtrancl)
    then show ?thesis using Inr r assms by (simp add: receive_b5_def Let_def core_step_evolves evolves_update)
  qed
qed

lemma is_test_suppressed_db: "is_test_suppressed tick dev = (dev', b) \<Longrightarrow> dv_db dev' = dv_db dev \<and> dv_b5_event dev' = dv_b5_event dev \<and>
    dv_b5_state dev' = dv_b5_state dev \<and> dv_client dev' = dv_client dev"
  by (auto simp: is_test_suppressed_def split: option.splits if_splits)

text \<open>What a reception amounts to.\<close>

datatype reception =
    Dropped
  | Rejected parsed_frame
  | Capability parsed_frame
  | Data bytes string

definition classify_reception :: "string \<Rightarrow> reception" where
  "classify_reception hex =
     (case bind_res (fromhex (filter (\<lambda>c. c \<noteq> CHR '' '') hex)) parse_frame of
        Inl _ \<Rightarrow> Dropped
      | Inr p \<Rightarrow>
          (if pf_msg_type p \<in> set NAK_MSG_TYPES then Rejected p
           else case identify_frame (pf_body p) of
                  Inl _ \<Rightarrow> Dropped
                | Inr key \<Rightarrow> if key = ''rsp_0xb5'' then Capability p else Data (pf_body p) key))"

lemma process_frame_classified:
  "process_frame dev hex ts tick =
     (case is_test_suppressed tick dev of
        (dev, True) \<Rightarrow> (dev, [])
      | (dev, False) \<Rightarrow>
          (case classify_reception hex of
             Dropped \<Rightarrow> (dev, [])
           | Rejected p \<Rightarrow> (handle_nak_frame (pf_msg_type p) (pf_body p) ts dev, [(nak_key (pf_msg_type p), pf_body p)])
           | Capability p \<Rightarrow> (receive_b5 p ts dev, [(''rsp_0xb5'', pf_body p)])
           | Data body key \<Rightarrow> (dev\<lparr>dv_tasks := dv_tasks dev @ [(body, key, ts)]\<rparr>, [(key, body)])))"
  by (auto simp: process_frame_def classify_reception_def Let_def split: prod.split bool.split sum.split)

lemma process_frame_evolves:
  assumes "process_frame dev hex ts tick = (dev', calls)" and "dv_glossary dev = g"
  shows "evolves g dev dev'"
proof -
  obtain dev1 b where s: "is_test_suppressed tick dev = (dev1, b)" by (cases "is_test_suppressed tick dev")
  note d = is_test_suppressed_db [OF s]
  have 1: "evolves g dev dev1" using d by blast
  have g1: "dv_glossary dev1 = g" using d assms(2) by simp
  have "evolves g dev1 dev'"
    using assms(1) s g1
    by (cases b; cases "classify_reception hex")
      (auto simp: process_frame_classified receive_b5_evolves handle_nak_frame_def evolves_update
        intro!: core_step_evolves r_into_rtranclp core_step.counted)
  with 1 show ?thesis by (rule evolves_trans)
qed

lemma run_task_evolves:
  assumes "run_task dev registered = (dev', events)" and "clean g dev"
  shows "evolves g dev dev'"
proof (cases "dv_tasks dev")
  case Nil
  then show ?thesis using assms(1) by (auto simp: run_task_def)
next
  case (Cons t rest)
  obtain body key ts where t: "t = (body, key, ts)" by (cases t)
  let ?dev = "dev\<lparr>dv_tasks := rest\<rparr>"
  let ?r = "db_ingest (dv_db ?dev) body key (Some ts) ts (Some (dkeys (available_fields ?dev))) registered"
  show ?thesis
  proof (cases ?r)
    case (Inl e)
    then show ?thesis using assms(1) Cons t by (auto simp: run_task_def Let_def)
  next
    case (Inr x)
    obtain db' ev where x: "x = (db', ev)" by (cases x)
    have c: "cache_ok (dv_db dev)" using assms(2) by (simp add: clean_def represents_def)
    note r = ingest_InrD [OF c, of body key "Some ts" ts "Some (dkeys (available_fields ?dev))" registered db' ev]
    have "ingress g (dv_status dev) (db_status db')"
      using r(1) Inr x assms(2) by (auto simp: clean_def represents_def intro: ingress.data_frame)
    moreover have "represents g db' (db_status db')"
      using r Inr x assms(2) by (auto simp: clean_def represents_def)
    moreover have "dv_db dev' = db'" using assms(1) Cons t Inr x by (auto simp: run_task_def Let_def)
    ultimately show ?thesis using core_step.ingressed by (auto simp: evolves_def clean_def)
  qed
qed

lemma finish_scan_evolves:
  assumes "finish_scan g dev = (dev', r)" and "dv_glossary dev = g"
  shows "evolves g dev dev'"
proof -
  let ?dev = "dev\<lparr>dv_b5_state := Done, dv_b5_event := None\<rparr>"
  have "evolves g dev ?dev" by (rule evolves_same_db) simp
  moreover have "evolves g ?dev dev'"
    using assms
    by (cases "finalize_capabilities (dv_status dev) g")
      (auto simp: finish_scan_def intro!: core_step_evolves r_into_rtranclp core_step.ingressed ingress.scan_end)
  ultimately show ?thesis by (rule evolves_trans)
qed

lemma device_set_evolves:
  assumes "device_set dev cs env = Some (dev', sent, outcome)" and "clean g dev"
  shows "evolves g dev dev'"
proof -
  obtain db' where d: "db_command (dv_db dev) cs env = (db', sent, outcome)" "dev' = dev\<lparr>dv_db := db'\<rparr>"
    using assms(1) by (auto simp: device_set_def split: if_splits prod.splits)
  have "(ingress g)\<^sup>*\<^sup>* (dv_status dev) (db_status db') \<and> represents g db' (db_status db')"
    using db_step_simulates [OF db_step.commanded [OF d(1)], of g "dv_status dev"] assms(2)
    by (auto simp: clean_def represents_def)
  moreover have "core_steps g (dv_status dev) (db_status db')" if "(ingress g)\<^sup>*\<^sup>* (dv_status dev) (db_status db')"
    using that by (rule mono_rtranclp [rule_format, rotated]) (rule core_step.ingressed)
  ultimately show ?thesis using d(2) by (simp add: evolves_def clean_def)
qed

lemma send_poll_queries_db: "send_poll_queries base dev alive accepted = (dev', sent, r) \<Longrightarrow> dv_db dev' = dv_db dev"
  by (auto simp: send_poll_queries_def compute_required_queries_def Let_def split: if_splits)

lemma device_step_evolves:
  assumes "device_step dev dev'" and "clean g dev"
  shows "evolves g dev dev'"
proof -
  have g: "dv_glossary dev = g" using assms(2) by (simp add: clean_def represents_def)
  from assms(1) show ?thesis
  proof (cases rule: device_step.cases)
    case (received hex ts tick calls)
    then show ?thesis using g by (rule process_frame_evolves)
  next
    case (task_ran registered events)
    then show ?thesis using assms(2) by (rule run_task_evolves)
  next
    case (scan_finished r)
    then show ?thesis using finish_scan_evolves g by simp
  next
    case (commanded cs env sent outcome)
    then show ?thesis using assms(2) by (rule device_set_evolves)
  next
    case (polled base alive accepted sent r)
    then show ?thesis using send_poll_queries_db by blast
  qed (auto simp: open_page_def set_follow_me_shadow_def clear_follow_me_shadow_def set_test_suppression_def Let_def
      split: if_splits)
qed

lemma device_steps_evolve:
  assumes "device_step\<^sup>*\<^sup>* dev dev'" and "clean g dev"
  shows "evolves g dev dev'"
  using assms(1)
proof (induction rule: rtranclp_induct)
  case base
  then show ?case by blast
next
  case (step dev1 dev2)
  then have "clean g dev1" using assms(2) by (simp add: evolves_def)
  with step show ?case using device_step_evolves by (blast intro: evolves_trans)
qed

lemma clean_new: "clean g (new_device g)"
  by (simp add: clean_def new_device_def represents_new new_db_def) (simp add: represents_new [unfolded new_db_def])

lemma core_steps_frozen:
  assumes "core_steps g st st'" and "me_caps_finalized (st_meta st)" and "feature st n \<in> AVAILABLE_FA"
  shows "me_caps_finalized (st_meta st') \<and> feature st' n \<in> AVAILABLE_FA"
  using assms
proof (induction rule: rtranclp_induct)
  case base
  then show ?case by simp
next
  case (step st1 st2)
  then show ?case by (auto elim!: core_stepE dest: ingress_caps_frozen)
qed

lemma core_steps_phase:
  assumes "core_steps g st st'" and "me_phase (st_meta st) = Boot \<longleftrightarrow> \<not> me_b5_received (st_meta st)"
  shows "me_phase (st_meta st') = Boot \<longleftrightarrow> \<not> me_b5_received (st_meta st')"
  using assms
proof (induction rule: rtranclp_induct)
  case base
  then show ?case by simp
next
  case (step st1 st2)
  from step(2) show ?case
  proof (cases rule: core_step.cases)
    case ingressed
    then show ?thesis using ingress_phase(1) step by blast
  next
    case (counted key)
    then show ?thesis using step by simp
  qed
qed

subsection \<open>A scan is a path of steps\<close>

lemma receive_all_steps: "device_step\<^sup>*\<^sup>* dev (receive_all msgs dev)"
proof (induction msgs arbitrary: dev)
  case Nil
  then show ?case by (simp add: receive_all_def)
next
  case (Cons m msgs)
  obtain hex ts tick where m: "m = (hex, ts, tick)" by (cases m)
  have "device_step dev (fst (process_frame dev hex ts tick))"
    by (rule device_step.received [of _ _ _ _ _ "snd (process_frame dev hex ts tick)"]) simp
  then show ?case using Cons [of "fst (process_frame dev hex ts tick)"] by (simp add: receive_all_def m)
qed

text \<open>A page: not sent, not answered or the last one, or answered with another page to come.\<close>

lemma scan_pages_cases:
  assumes "scan_pages (q # qs) scripts dev sent = (dev', sent')"
  obtains (unsent) "dev' = open_page dev" "sent' = sent"
    | (last) frame msgs where "q = Inr frame" "dev' = receive_all msgs (open_page dev)" "sent' = sent @ [frame]"
    | (next_page) frame msgs where "q = Inr frame"
        "dv_b5_event (receive_all msgs (open_page dev)) = Some True" "dv_b5_next_frame (receive_all msgs (open_page dev))"
        "scan_pages qs (tl scripts) (receive_all msgs (open_page dev)) (sent @ [frame]) = (dev', sent')"
        "(case scripts of [] \<Rightarrow> Receives [] | s # _ \<Rightarrow> s) = Receives msgs"
  using assms by (auto simp: Let_def split: sum.splits page_script.splits if_splits)

lemma scan_pages_steps:
  "scan_pages qs scripts dev sent = (dev', sent') \<Longrightarrow> device_step\<^sup>*\<^sup>* dev dev'"
proof (induction qs arbitrary: scripts dev sent)
  case Nil
  then show ?case by simp
next
  case (Cons q qs)
  have o: "device_step\<^sup>*\<^sup>* dev (open_page dev)" by (rule r_into_rtranclp) (rule device_step.page_opened)
  have r: "device_step\<^sup>*\<^sup>* dev (receive_all msgs (open_page dev))" for msgs
    using o receive_all_steps by (rule rtranclp_trans)
  from Cons.prems show ?case
  proof (cases rule: scan_pages_cases)
    case unsent
    then show ?thesis using o by simp
  next
    case last
    then show ?thesis using r by simp
  next
    case (next_page frame msgs)
    from r Cons.IH [OF next_page(4)] show ?thesis by (rule rtranclp_trans)
  qed
qed

lemma scan_pages_sent:
  "scan_pages qs scripts dev sent = (dev', sent') \<Longrightarrow> \<exists>new. sent' = sent @ new \<and> map Inr new = take (length new) qs"
proof (induction qs arbitrary: scripts dev sent)
  case Nil
  then show ?case by simp
next
  case (Cons q qs)
  from Cons.prems show ?case
  proof (cases rule: scan_pages_cases)
    case (next_page frame msgs)
    from Cons.IH [OF next_page(4)] obtain new where "sent' = (sent @ [frame]) @ new" "map Inr new = take (length new) qs" by blast
    then show ?thesis using next_page(1) by (intro exI [of _ "frame # new"]) simp
  qed simp_all
qed

subsection \<open>Typing and the end of a scan\<close>

lemma receive_b5_typed: "typed (dv_status dev) \<Longrightarrow> typed (dv_status (receive_b5 p ts dev))"
  by (auto simp: receive_b5_def Let_def typing split: sum.split dest!: typed_process_b5 [rotated])

lemma process_frame_typed: "typed (dv_status dev) \<Longrightarrow> typed (dv_status (fst (process_frame dev hex ts tick)))"
proof -
  assume t: "typed (dv_status dev)"
  obtain dev1 b where s: "is_test_suppressed tick dev = (dev1, b)" by (cases "is_test_suppressed tick dev")
  then have "typed (dv_status dev1)" using t is_test_suppressed_db by metis
  then show ?thesis
    by (cases b; cases "classify_reception hex")
      (simp_all add: s process_frame_classified receive_b5_typed handle_nak_frame_def typing)
qed

lemma corrupted_b5_fields:
  "\<not> (pf_crc_ok p \<and> pf_checksum_ok p) \<Longrightarrow> st_fields (dv_status (receive_b5 p ts dev)) = st_fields (dv_status dev)"
  by (auto simp: receive_b5_def Let_def process_b5_untrusted set_status_def)

lemma receive_all_typed: "typed (dv_status dev) \<Longrightarrow> typed (dv_status (receive_all msgs dev))"
proof (induction msgs arbitrary: dev)
  case Nil
  then show ?case by (simp add: receive_all_def)
next
  case (Cons m msgs)
  obtain hex ts tick where "m = (hex, ts, tick)" by (cases m)
  then show ?case using Cons.IH [OF process_frame_typed [OF Cons.prems]] by (simp add: receive_all_def)
qed

lemma open_page_simps [simp]: "dv_db (open_page dev) = dv_db dev"
  by (simp add: open_page_def)

lemma scan_pages_typed:
  "scan_pages qs scripts dev sent = (dev', sent') \<Longrightarrow> typed (dv_status dev) \<Longrightarrow> typed (dv_status dev')"
proof (induction qs arbitrary: scripts dev sent)
  case Nil
  then show ?case by simp
next
  case (Cons q qs)
  have t: "typed (dv_status (receive_all msgs (open_page dev)))" for msgs
    using receive_all_typed Cons.prems(2) by simp
  from Cons.prems(1) show ?case
  proof (cases rule: scan_pages_cases)
    case (next_page frame msgs)
    from Cons.IH [OF this(4) t] show ?thesis .
  qed (use t Cons.prems(2) in simp_all)
qed

lemma finish_scan_done:
  assumes "typed (dv_status dev)"
  shows "\<exists>dev'. finish_scan g dev = (dev', Inr ()) \<and> dv_b5_state dev' = Done \<and> dv_b5_event dev' = None \<and>
    me_caps_finalized (st_meta (dv_status dev')) \<and> finalize_capabilities (dv_status dev) g = Inr (dv_status dev')"
proof -
  obtain st where "finalize_capabilities (dv_status dev) g = Inr st" using finalize_total assms by blast
  then show ?thesis using finalize_InrD(4) by (auto simp: finish_scan_def)
qed

lemma second_page:
  assumes "scan_pages [q1, q2] scripts dev [] = (dev', sent)" and "length sent = 2"
  shows "\<exists>msgs rest. scripts = Receives msgs # rest \<and> dv_b5_event (receive_all msgs (open_page dev)) = Some True \<and>
    dv_b5_next_frame (receive_all msgs (open_page dev))"
  using assms(1)
proof (cases rule: scan_pages_cases)
  case (next_page frame msgs)
  then show ?thesis by (cases scripts) (auto simp: receive_all_def open_page_def)
qed (use assms(2) in simp_all)

text \<open>C20: a capability scan always ends.  When it starts with a client, on a well-typed status that has seen
  no capability frame, then whatever frames arrive during the scan, answer or fail to, it sends at most two
  queries, the second only when the frames received for the first answered it and announced another
  page, and it leaves the scan done, the event gone and the capabilities final.  The whole scan is a
  path of device steps.  (With a capability frame already seen nothing is queried or made final: see
  \<open>early_frame_skips_scan\<close>.)\<close>

theorem scan_ends:
  assumes "typed (dv_status dev)" and "dv_client dev \<noteq> None" and "\<not> me_b5_received (st_meta (dv_status dev))"
  shows "\<exists>dev' sent. query_capabilities base scripts dev = ((dev', sent), Inr ()) \<and>
    map Inr sent = take (length sent) (b5_queries base) \<and>
    (length sent = 2 \<longrightarrow> (\<exists>msgs rest. scripts = Receives msgs # rest \<and>
       dv_b5_event (receive_all msgs (open_page dev)) = Some True \<and> dv_b5_next_frame (receive_all msgs (open_page dev)))) \<and>
    device_step\<^sup>*\<^sup>* dev dev' \<and> dv_b5_state dev' = Done \<and> dv_b5_event dev' = None \<and>
    me_caps_finalized (st_meta (dv_status dev'))"
proof -
  obtain dev1 sent where 1: "scan_pages (b5_queries base) scripts dev [] = (dev1, sent)"
    by (cases "scan_pages (b5_queries base) scripts dev []")
  have "typed (dv_status dev1)" using scan_pages_typed [OF 1 assms(1)] .
  then obtain dev' where 2: "finish_scan (dv_glossary dev1) dev1 = (dev', Inr ())" "dv_b5_state dev' = Done" "dv_b5_event dev' = None"
      "me_caps_finalized (st_meta (dv_status dev'))"
    using finish_scan_done by blast
  have "device_step\<^sup>*\<^sup>* dev dev'"
    using scan_pages_steps [OF 1] device_step.scan_finished [OF 2(1)] by (rule rtranclp.rtrancl_into_rtrancl)
  moreover have "map Inr sent = take (length sent) (b5_queries base)" using scan_pages_sent [OF 1] by auto
  moreover have "query_capabilities base scripts dev = ((dev', sent), Inr ())"
    using assms(2,3) 1 2(1) by (auto simp: query_capabilities_def)
  ultimately show ?thesis using 2 second_page [OF 1 [unfolded b5_queries_def]] by blast
qed

subsection \<open>A capability frame before the scan\<close>

text \<open>
  A capability frame that arrives before the scan (the session waits up to two seconds for the
  gateway's version first) makes the scan believe it is done: nothing is queried, and the
  capabilities are never made final.
\<close>

lemma early_frame_skips_scan:
  assumes "me_b5_received (st_meta (dv_status dev))"
  shows "query_capabilities base scripts dev = ((dev, []), Inr ())"
  using assms by (simp add: query_capabilities_def)

subsection \<open>Properties\<close>

text \<open>C19: the status of a device moves only by steps of the core and by its frame counters, whatever it
  receives, scans, polls, is commanded or configured to do; between the steps its database is clean; and
  what was available once the capabilities were final stays available.\<close>

theorem device_refines_core:
  assumes "device_step\<^sup>*\<^sup>* (new_device g) dev" and "device_step\<^sup>*\<^sup>* dev dev'"
  shows "core_steps g (build_status ''ac'' g) (dv_status dev) \<and> db_pending (dv_db dev) = [] \<and> dv_glossary dev = g \<and>
    (Post_b5 \<le> me_phase (st_meta (dv_status dev)) \<longleftrightarrow> me_b5_received (st_meta (dv_status dev))) \<and>
    (me_caps_finalized (st_meta (dv_status dev)) \<longrightarrow>
       {n. feature (dv_status dev) n \<in> AVAILABLE_FA} \<subseteq> {n. feature (dv_status dev') n \<in> AVAILABLE_FA})"
proof -
  have new: "dv_status (new_device g) = build_status ''ac'' g" by (simp add: new_device_def new_db_def)
  have 1: "core_steps g (build_status ''ac'' g) (dv_status dev)" "clean g dev"
    using device_steps_evolve [OF assms(1) clean_new] clean_new [of g] new by (simp_all add: evolves_def)
  have 2: "core_steps g (dv_status dev) (dv_status dev')"
    using device_steps_evolve [OF assms(2) 1(2)] by (simp add: evolves_def)
  have "me_phase (st_meta (dv_status dev)) = Boot \<longleftrightarrow> \<not> me_b5_received (st_meta (dv_status dev))"
    using 1(1) by (rule core_steps_phase) (simp add: build_status_def)
  then show ?thesis
    using 1 core_steps_frozen [OF 2] by (auto simp: clean_def represents_def)
qed

text \<open>C22: a reception touches fields only when it is a capability frame that is neither suppressed nor a
  rejection and whose two checks both hold.  Rejections, corrupted capability frames, malformed text and
  data frames, whatever their bodies look like, leave every field as it was.\<close>

theorem reception_safety:
  assumes "process_frame dev hex ts tick = (dev', calls)" and "st_fields (dv_status dev') \<noteq> st_fields (dv_status dev)"
  shows "\<exists>p. bind_res (fromhex (filter (\<lambda>c. c \<noteq> CHR '' '') hex)) parse_frame = Inr p \<and>
    identify_frame (pf_body p) = Inr ''rsp_0xb5'' \<and> pf_crc_ok p \<and> pf_checksum_ok p \<and>
    pf_msg_type p \<notin> {0x06, 0x0A} \<and> calls = [(''rsp_0xb5'', pf_body p)] \<and>
    (\<forall>until. dv_suppressed_until dev = Some until \<longrightarrow> until \<le> tick)"
proof -
  obtain dev1 b where s: "is_test_suppressed tick dev = (dev1, b)" by (cases "is_test_suppressed tick dev")
  note d = is_test_suppressed_db [OF s]
  have nb: "\<not> b" using assms s d by (auto simp: process_frame_classified)
  then have until: "\<forall>until. dv_suppressed_until dev = Some until \<longrightarrow> until \<le> tick"
    using s by (auto simp: is_test_suppressed_def split: if_splits)
  obtain p where p: "classify_reception hex = Capability p" "dev' = receive_b5 p ts dev1" "calls = [(''rsp_0xb5'', pf_body p)]"
    using assms s nb d by (cases "classify_reception hex") (auto simp: process_frame_classified handle_nak_frame_def)
  have "pf_crc_ok p \<and> pf_checksum_ok p"
    using assms(2) p(2) d corrupted_b5_fields [of p ts dev1] by auto
  moreover have "bind_res (fromhex (filter (\<lambda>c. c \<noteq> CHR '' '') hex)) parse_frame = Inr p \<and>
      identify_frame (pf_body p) = Inr ''rsp_0xb5'' \<and> pf_msg_type p \<notin> {0x06, 0x0A}"
    using p(1) by (auto simp: classify_reception_def NAK_MSG_TYPES_def Let_def split: sum.splits if_splits)
  ultimately show ?thesis using p(3) until by blast
qed

text \<open>A frame sent as text arrives as it was built: the hexadecimal text of a built frame, received by a
  device that is not suppressed, is classified by the body the frame was built from.\<close>

theorem text_link:
  assumes "build_frame body mt app proto sub seq = Inr frame" and "body \<noteq> []" and "mt \<notin> {0x06, 0x0A}"
    and "identify_frame body = Inr key" and "key \<noteq> ''rsp_0xb5''" and "dv_suppressed_until dev = None"
  shows "process_frame dev (hex_spaced frame) ts tick = (dev\<lparr>dv_tasks := dv_tasks dev @ [(body, key, ts)]\<rparr>, [(key, body)])"
proof -
  obtain p where p: "parse_frame frame = Inr p" "pf_body p = body" "pf_msg_type p = mt"
    using link.deliver [OF assms(1,2)] unfolding validate_frame_def by (auto split: if_splits)
  then have "classify_reception (hex_spaced frame) = Data body key"
    using assms(3-5) by (simp add: classify_reception_def fromhex_hex NAK_MSG_TYPES_def)
  then show ?thesis using assms(6) by (simp add: process_frame_classified is_test_suppressed_def)
qed

subsection \<open>Examples\<close>

text \<open>A device of the example appliance that is connected, and the capability page it receives.\<close>

definition SCANNING :: device where
  "SCANNING = (new_device (EXAMPLE\<lparr>gl_frames := gl_frames POLLED\<rparr>))\<lparr>dv_client := Some True\<rparr>"

definition B5_BODY :: bytes where
  "B5_BODY = [0xB5, 1, 0x10, 2, 1, 1, 0, 0]"

definition text_of :: "bytes \<Rightarrow> string" where
  "text_of body = (case build_frame body 3 0xAC 0 0 0 of Inl _ \<Rightarrow> [] | Inr frame \<Rightarrow> hex_spaced frame)"

definition STAMP :: string where
  "STAMP = ''2026-01-01T00:00:00+00:00''"

text \<open>The text of a built capability frame is received as a capability frame with both checks good.\<close>

lemma page_received:
  obtains p where "pf_body p = B5_BODY" and "pf_crc_ok p" and "pf_checksum_ok p"
    and "classify_reception (text_of B5_BODY) = Capability p"
proof -
  obtain frame where f: "build_frame B5_BODY 3 0xAC 0 0 0 = Inr frame"
    using build_frame_layout [of B5_BODY 3 "0xAC" 0 0 0] by (simp add: B5_BODY_def)
  obtain p where p: "parse_frame frame = Inr p" "pf_body p = B5_BODY" "pf_msg_type p = 3" "pf_crc_ok p" "pf_checksum_ok p"
    using link.deliver [OF f] unfolding validate_frame_def by (auto simp: B5_BODY_def split: if_splits)
  have "identify_frame B5_BODY = Inr ''rsp_0xb5''" by code_simp
  then have "classify_reception (text_of B5_BODY) = Capability p"
    using p by (simp add: classify_reception_def text_of_def f fromhex_hex NAK_MSG_TYPES_def)
  with p show ?thesis by (intro that)
qed

text \<open>What it does to a device that has just been made.\<close>

lemma first_page:
  obtains st' and p :: parsed_frame where "process_frame (new_device EXAMPLE) (text_of B5_BODY) STAMP 0 = (set_status st' (new_device EXAMPLE), [(''rsp_0xb5'', pf_body p)])"
    and "me_b5_received (st_meta st')" and "feature st' ''fan_speed'' = Some ''always''"
proof -
  let ?b5 = "process_b5 (build_status ''ac'' EXAMPLE) B5_BODY EXAMPLE (Some STAMP) STAMP True True"
  have "\<not> isl ?b5 \<and> feature (fst (projr ?b5)) ''fan_speed'' = Some ''always''" by code_simp
  then obtain st' n where b5: "?b5 = Inr (st', n)" "feature st' ''fan_speed'' = Some ''always''"
    by (cases ?b5) (auto simp: prod_eq_iff)
  have r: "me_b5_received (st_meta st')" by (rule process_b5_InrD [OF b5(1)])
  obtain p where p: "pf_body p = B5_BODY" "pf_crc_ok p" "pf_checksum_ok p" "classify_reception (text_of B5_BODY) = Capability p"
    by (rule page_received)
  have "receive_b5 p STAMP (new_device EXAMPLE) = set_status st' (new_device EXAMPLE)"
    using p(1-3) b5(1) by (simp add: receive_b5_def new_device_def new_db_def build_status_def)
  then have "process_frame (new_device EXAMPLE) (text_of B5_BODY) STAMP 0 = (set_status st' (new_device EXAMPLE), [(''rsp_0xb5'', pf_body p)])"
    using p(4) by (simp add: process_frame_classified is_test_suppressed_def new_device_def)
  from this r b5(2) show ?thesis by (rule that)
qed

definition SCAN :: "page_script list" where
  "SCAN = [Receives [(text_of B5_BODY, STAMP, 0)]]"

theorem scan_ends_witness:
  "\<exists>dev' sent. query_capabilities POLLED SCAN SCANNING = ((dev', sent), Inr ()) \<and>
     dv_b5_state dev' = Done \<and> me_caps_finalized (st_meta (dv_status dev'))"
proof -
  have "typed (dv_status SCANNING)"
    by (simp add: SCANNING_def new_device_def new_db_def typing)
  moreover have "dv_client SCANNING \<noteq> None" "\<not> me_b5_received (st_meta (dv_status SCANNING))"
    by (simp_all add: SCANNING_def new_device_def new_db_def build_status_def)
  ultimately show ?thesis using scan_ends [of SCANNING POLLED SCAN] by blast
qed

theorem device_refines_core_witness:
  "\<exists>dev. core_steps EXAMPLE (build_status ''ac'' EXAMPLE) (dv_status dev) \<and> me_b5_received (st_meta (dv_status dev)) \<and>
     Post_b5 \<le> me_phase (st_meta (dv_status dev))"
proof -
  obtain st' and p :: parsed_frame where f: "process_frame (new_device EXAMPLE) (text_of B5_BODY) STAMP 0 = (set_status st' (new_device EXAMPLE), [(''rsp_0xb5'', pf_body p)])"
      "me_b5_received (st_meta st')"
    by (rule first_page)
  have "device_step\<^sup>*\<^sup>* (new_device EXAMPLE) (set_status st' (new_device EXAMPLE))"
    using device_step.received [OF f(1)] by (rule r_into_rtranclp)
  from device_refines_core [OF this rtranclp.rtrancl_refl] f(2) show ?thesis
    by (intro exI [of _ "set_status st' (new_device EXAMPLE)"]) simp
qed

theorem reception_safety_witness:
  "\<exists>p :: parsed_frame. identify_frame (pf_body p) = Inr ''rsp_0xb5'' \<and> pf_crc_ok p \<and> pf_checksum_ok p \<and>
     snd (process_frame (new_device EXAMPLE) (text_of B5_BODY) STAMP 0) = [(''rsp_0xb5'', pf_body p)]"
proof -
  obtain st' and p :: parsed_frame where f: "process_frame (new_device EXAMPLE) (text_of B5_BODY) STAMP 0 = (set_status st' (new_device EXAMPLE), [(''rsp_0xb5'', pf_body p)])"
      "feature st' ''fan_speed'' = Some ''always''"
    by (rule first_page)
  have "feature (dv_status (new_device EXAMPLE)) ''fan_speed'' = Some ''capability''" by code_simp
  with f(2) have "st_fields (dv_status (set_status st' (new_device EXAMPLE))) \<noteq> st_fields (dv_status (new_device EXAMPLE))"
    by (auto simp: feature_def)
  from reception_safety [OF f(1) this] obtain q :: parsed_frame where
    "identify_frame (pf_body q) = Inr ''rsp_0xb5'' \<and> pf_crc_ok q \<and> pf_checksum_ok q" "pf_body p = pf_body q" by auto
  with f(1) show ?thesis by (intro exI [of _ q]) simp
qed

theorem text_link_witness:
  "\<exists>frame. build_frame EXAMPLE_C0 3 0xAC 0 0 0 = Inr frame \<and>
     dv_tasks (fst (process_frame (new_device EXAMPLE) (hex_spaced frame) STAMP 0)) = [(EXAMPLE_C0, ''rsp_0xc0'', STAMP)]"
proof -
  obtain frame where f: "build_frame EXAMPLE_C0 3 0xAC 0 0 0 = Inr frame"
    using build_frame_layout [of EXAMPLE_C0 3 "0xAC" 0 0 0] by simp
  have "identify_frame EXAMPLE_C0 = Inr ''rsp_0xc0''" by code_simp
  from text_link [OF f _ _ this, of "new_device EXAMPLE" STAMP 0] f show ?thesis
    by (simp add: new_device_def)
qed

end
