(* ===== verification/Polling.thy ===== *)
theory Polling
  imports Device
begin

section \<open>What the polls cover\<close>

text \<open>
  The properties of the available fields are queried in batches of eight; each is in exactly one
  batch, and the key of a batch leads back to it.  The follow-me query is a frame as \<open>build_frame\<close> makes it.
\<close>

subsection \<open>Batches\<close>

lemma last_part_batch_key: "last_part (CHR ''_'') (batch_key i) = dec i"
proof -
  have "takeWhile (\<lambda>x. x \<noteq> CHR ''_'') (rev (dec i) @ CHR ''_'' # rs) = rev (dec i)" for rs
    using dec_digits [of i] digit_not_special by (subst takeWhile_append2) (auto simp: list_all_iff)
  from this [of "rev ''cmd_0xb1_batch''"] show ?thesis by (simp add: last_part_def batch_key_def)
qed

lemma batch_pairs_slice: "batch_pairs dev (int i) = take 8 (drop (8 * i) (dv_b1_prop_ids dev))"
proof -
  have "nat (int i * 8) = 8 * i" "nat (int i * 8 + 8) - 8 * i = 8" by simp_all
  then show ?thesis by (simp add: batch_pairs_def py_slice_def B1_BATCH_SIZE_def slice_def)
qed

lemma concat_batches: "concat (map (\<lambda>i. take 8 (drop (8 * i) xs)) [0..<n]) = take (8 * n) xs"
proof (induction n)
  case 0
  then show ?case by simp
next
  case (Suc n)
  have "take (8 * Suc n) xs = take (8 * n) xs @ take 8 (drop (8 * n) xs)"
    by (metis add.commute mult_Suc_right take_add)
  then show ?case using Suc by simp
qed

lemma batch_position:
  assumes "distinct xs" and "k < length xs"
  shows "xs ! k \<in> set (take 8 (drop (8 * j) xs)) \<longleftrightarrow> j = k div 8"
proof
  assume "xs ! k \<in> set (take 8 (drop (8 * j) xs))"
  then obtain m where "m < 8" "8 * j + m < length xs" "xs ! (8 * j + m) = xs ! k"
    by (auto simp: in_set_conv_nth)
  with assms have "k = 8 * j + m" by (simp add: nth_eq_iff_index_eq)
  with \<open>m < 8\<close> show "j = k div 8" by simp
next
  assume j: "j = k div 8"
  have "k = 8 * j + k mod 8" "k mod 8 < 8" using j by simp_all
  with assms(2) have "take 8 (drop (8 * j) xs) ! (k mod 8) = xs ! k" "k mod 8 < length (take 8 (drop (8 * j) xs))"
    by simp_all
  then show "xs ! k \<in> set (take 8 (drop (8 * j) xs))" by (metis nth_mem)
qed

lemma batch_count_bound: "k < length pairs \<Longrightarrow> k div 8 < batch_count pairs"
  unfolding batch_count_def B1_BATCH_SIZE_def by linarith

lemma batch_frame:
  assumes "batch_pairs dev (int i) \<noteq> []"
  shows "\<exists>f p. build_query_frame base dev (batch_key i) = Inr (Some f) \<and> validate_frame f = Inr p \<and>
    query_pairs (drop 2 (pf_body p)) = map (\<lambda>(lo, hi). (lo mod 256, hi mod 256)) (batch_pairs dev (int i))"
proof -
  have len: "length (batch_pairs dev (int i)) \<le> 121" by (simp add: batch_pairs_slice)
  then obtain f where f: "build_b1_property_query (batch_pairs dev (int i)) 0xAC 0 0 = Inr f"
    using b1_query_bound [of "0xAC" "batch_pairs dev (int i)" 0 0] assms by auto
  have "int_of_str (last_part (CHR ''_'') (batch_key i)) = Inr (int i)"
    by (simp only: last_part_batch_key int_of_str_dec)
  then have "batch_query_frame dev (batch_key i) = Inr (Some f)"
    using assms f by (simp add: batch_query_frame_def)
  moreover have "build_query_frame base dev (batch_key i) = batch_query_frame dev (batch_key i)"
    by (simp add: build_query_frame_def batch_key_def starts_with_def)
  moreover obtain p where "validate_frame f = Inr p"
      "query_pairs (drop 2 (pf_body p)) = map (\<lambda>(lo, hi). (lo mod 256, hi mod 256)) (batch_pairs dev (int i))"
    using b1_query_roundtrip [OF _ _ f] by auto
  ultimately show ?thesis by simp
qed

lemma required_InD:
  assumes "compute_required_queries dev = (dev', queries)"
  shows "dv_b1_prop_ids dev' = sort (property_pairs dev)"
    and "i < batch_count (sort (property_pairs dev)) \<Longrightarrow> batch_key i \<in> set queries"
    and "(key, pl) \<in> set (response_blocks dev) \<Longrightarrow> key \<noteq> ''rsp_0xb1'' \<Longrightarrow> response_to_query key = Some q \<Longrightarrow> q \<in> set queries"
  using assms by (auto simp: compute_required_queries_def Let_def) (force split: option.splits)

lemma parse_b1_bytes: "parse_b1_property_id raw = Some pair \<Longrightarrow> \<exists>l h. pair = (l mod 256, h mod 256)"
  by (auto simp: parse_b1_property_id_def and_FF_eq_mod split: option.split_asm list.split_asm sum.split_asm)

lemma property_pairsI:
  assumes "(''rsp_0xb1'', pl) \<in> set (response_blocks dev)" and "step \<in> set (pl_decode pl)"
    and "parse_b1_property_id (ds_property_id step) = Some pair"
  shows "pair \<in> set (property_pairs dev)"
  unfolding property_pairs_def set_remdups set_concat set_map
proof (intro UN_I [OF imageI, OF assms(1)])
  show "pair \<in> set (case (''rsp_0xb1'', pl) of (key, pl) \<Rightarrow>
      if key = ''rsp_0xb1''
      then concat (map (\<lambda>step. case parse_b1_property_id (ds_property_id step) of None \<Rightarrow> [] | Some pair \<Rightarrow> [pair]) (pl_decode pl))
      else [])"
    using assms(2,3) by (cases pair) (auto intro!: bexI [of _ step])
qed

lemma property_pairs_bytes:
  assumes "pair \<in> set (property_pairs dev)"
  shows "(\<lambda>(lo, hi). (lo mod 256, hi mod 256)) pair = pair"
proof -
  obtain raw where "parse_b1_property_id raw = Some pair"
    using assms by (force simp: property_pairs_def split: if_split_asm option.split_asm)
  from parse_b1_bytes [OF this] show ?thesis by auto
qed

text \<open>C23: the poll covers what is available: for every response block of an available field, the query that
  its key maps to is polled; and every property the block names is queried in exactly one batch, whose
  frame is built, valid, and carries the property's two identifier bytes.\<close>

theorem poll_covers_available:
  assumes "compute_required_queries dev = (dev', queries)" and "name \<in> set (dkeys (available_fields dev))"
    and "dget (walk_fields (dv_glossary dev)) name = Some d" and "(key, pl) \<in> set (fd_protocols d)"
    and "pl_direction pl = Some ''response''"
  shows "(\<forall>q. key \<noteq> ''rsp_0xb1'' \<and> response_to_query key = Some q \<longrightarrow> q \<in> set queries) \<and>
    (\<forall>step pair. key = ''rsp_0xb1'' \<and> step \<in> set (pl_decode pl) \<and> parse_b1_property_id (ds_property_id step) = Some pair \<longrightarrow>
       (\<exists>i f p. {j. pair \<in> set (batch_pairs dev' (int j))} = {i} \<and> batch_key i \<in> set queries \<and>
          build_query_frame base dev' (batch_key i) = Inr (Some f) \<and> validate_frame f = Inr p \<and>
          pair \<in> set (query_pairs (drop 2 (pf_body p)))))"
proof -
  note r = required_InD [OF assms(1)]
  have block: "(key, pl) \<in> set (response_blocks dev)"
    using assms(2-5) by (force simp: response_blocks_def)
  have "\<exists>i f p. {j. pair \<in> set (batch_pairs dev' (int j))} = {i} \<and> batch_key i \<in> set queries \<and>
          build_query_frame base dev' (batch_key i) = Inr (Some f) \<and> validate_frame f = Inr p \<and>
          pair \<in> set (query_pairs (drop 2 (pf_body p)))"
    if b1: "key = ''rsp_0xb1''" "step \<in> set (pl_decode pl)" "parse_b1_property_id (ds_property_id step) = Some pair" for step pair
  proof -
    have pair: "pair \<in> set (property_pairs dev)"
      using property_pairsI block b1 by blast
    let ?xs = "sort (property_pairs dev)"
    have dist: "distinct ?xs" by (simp add: property_pairs_def)
    have "pair \<in> set ?xs" using pair by simp
    then obtain k where k: "k < length ?xs" "?xs ! k = pair" unfolding in_set_conv_nth by blast
    have pos: "pair \<in> set (batch_pairs dev' (int j)) \<longleftrightarrow> j = k div 8" for j
      using batch_position [OF dist k(1)] k(2) by (simp add: batch_pairs_slice r(1))
    then have "batch_pairs dev' (int (k div 8)) \<noteq> []" by (metis empty_iff empty_set)
    from batch_frame [OF this, of base] obtain f p where
      f: "build_query_frame base dev' (batch_key (k div 8)) = Inr (Some f)" "validate_frame f = Inr p"
         "query_pairs (drop 2 (pf_body p)) = map (\<lambda>(lo, hi). (lo mod 256, hi mod 256)) (batch_pairs dev' (int (k div 8)))" by blast
    have "pair \<in> set (query_pairs (drop 2 (pf_body p)))"
    proof -
      have "pair \<in> set (batch_pairs dev' (int (k div 8)))" using pos by simp
      then have "(\<lambda>(lo, hi). (lo mod 256, hi mod 256)) pair \<in> set (query_pairs (drop 2 (pf_body p)))"
        unfolding f(3) by simp
      then show ?thesis by (simp only: property_pairs_bytes [OF pair])
    qed
    moreover have "batch_key (k div 8) \<in> set queries" using r(2) batch_count_bound [OF k(1)] by simp
    moreover have "{j. pair \<in> set (batch_pairs dev' (int j))} = {k div 8}" using pos by auto
    ultimately show ?thesis using f(1,2) by blast
  qed
  then show ?thesis using r(3) [OF block] by blast
qed

subsection \<open>The follow-me query\<close>

lemma follow_me_raw:
  fixes celsius :: rat
  shows "\<exists>b. to_byte (py_round (clamp_celsius celsius * 2 + 50)) = Inr b \<and> 50 \<le> uint b \<and> uint b \<le> 150 \<and>
    \<bar>(of_int (uint b) - 50) / 2 - clamp_celsius celsius\<bar> \<le> 1/4"
proof -
  define c where "c = clamp_celsius celsius"
  define r where "r = py_round (c * 2 + 50)"
  have c: "0 \<le> c" "c \<le> 50" by (simp_all add: c_def clamp_celsius_def)
  have near: "\<bar>of_int r - (c * 2 + 50)\<bar> \<le> 1/2" unfolding r_def by (rule py_round_near)
  then have "of_int r < (151 :: rat)" "(49 :: rat) < of_int r" using c by linarith+
  then have r: "50 \<le> r" "r \<le> 150" by linarith+
  then obtain b where "to_byte r = Inr b" "uint b = r" by (simp add: to_byte_def uint_word_of_int)
  moreover have "\<bar>(of_int r - 50) / 2 - c\<bar> \<le> 1/4" using near by (simp add: abs_le_iff field_simps)
  ultimately have "\<exists>b. to_byte r = Inr b \<and> 50 \<le> uint b \<and> uint b \<le> 150 \<and> \<bar>(of_int (uint b) - 50) / 2 - c\<bar> \<le> 1/4"
    using r by (intro exI [of _ b]) simp
  then show ?thesis by (simp only: r_def c_def)
qed

text \<open>Patching two body bytes and taking both checks again is building the patched body.\<close>

lemma patch_built:
  assumes "build_frame body mt app proto sub seq = Inr frame" and "5 < length body"
  shows "(let frame = frame[14 := 0x01, 15 := raw];
              frame = frame[length frame - 2 := crc8 (slice 10 (length frame - 2) frame)]
          in Inr (frame[length frame - 1 := word_of_int (frame_checksum frame)])) =
         build_frame (body[4 := 0x01, 5 := raw]) mt app proto sub seq"
proof -
  have ok: "envelope_ok body mt app" using assms(1) by (rule build_frame_InrD)
  let ?h = "header body mt app proto sub seq" and ?b = "body[4 := 0x01, 5 := raw]"
  have h: "length ?h = 10" "header ?b mt app proto sub seq = ?h" by (simp_all add: header_def)
  have frame: "frame = ?h @ body @ [crc8 body, - sum_list (tl ?h @ body @ [crc8 body])]"
    using assms(1) build_frame_layout [OF ok, of proto sub seq] by simp
  define s where "s = - sum_list (tl ?h @ body @ [crc8 body])"
  have 1: "frame[14 := 0x01, 15 := raw] = ?h @ ?b @ [crc8 body, s]"
    using assms(2) h(1) by (simp add: frame s_def list_update_append)
  have len: "length (?h @ ?b @ [crc8 body, s]) = 12 + length body" using h(1) by simp
  have 2: "(?h @ ?b @ [crc8 body, s])[10 + length body := crc8 ?b] = ?h @ ?b @ [crc8 ?b, s]"
    using h(1) by (simp add: list_update_append)
  have 3: "slice 10 (10 + length body) (?h @ ?b @ [crc8 body, s]) = ?b"
    using h(1) by (simp add: slice_def)
  have 4: "(?h @ ?b @ [crc8 ?b, s])[11 + length body := v] = ?h @ ?b @ [crc8 ?b, v]" for v
    using h(1) by (simp add: list_update_append)
  have 5: "word_of_int (frame_checksum (?h @ ?b @ [crc8 ?b, s])) = - sum_list (tl ?h @ ?b @ [crc8 ?b])"
    using h(1) by (cases ?h) (simp_all add: frame_checksum_eq butlast_append)
  have "build_frame ?b mt app proto sub seq = Inr (?h @ ?b @ [crc8 ?b, - sum_list (tl ?h @ ?b @ [crc8 ?b])])"
    using build_frame_layout [of ?b mt app proto sub seq] ok by (simp add: h(2))
  then show ?thesis unfolding Let_def 1 len by (simp add: 2 3 4 5 h(1))
qed

text \<open>The follow-me poll is the status query with two bytes patched in place: it is byte for byte the frame
  \<open>build_frame\<close> makes of the patched body, and its temperature byte lies in 50..150 and decodes to within
  a quarter of a degree of the clamped temperature.\<close>

theorem follow_me_query_exact:
  assumes "build_status_query base 0xAC 0 0 = Inr frame" and "build_frame body mt 0xAC 0 0 0 = Inr frame"
    and "5 < length body"
  shows "\<exists>raw. build_follow_me_query base celsius = build_frame (body[4 := 0x01, 5 := raw]) mt 0xAC 0 0 0 \<and>
    50 \<le> uint raw \<and> uint raw \<le> 150 \<and> \<bar>(of_int (uint raw) - 50) / 2 - max 0 (min 50 celsius)\<bar> \<le> 1/4"
proof -
  obtain raw where raw: "to_byte (py_round (clamp_celsius celsius * 2 + 50)) = Inr raw" "50 \<le> uint raw" "uint raw \<le> 150"
      "\<bar>(of_int (uint raw) - 50) / 2 - clamp_celsius celsius\<bar> \<le> 1/4"
    using follow_me_raw by blast
  have "length frame = length body + 12" using assms(2) by (rule build_frame_length)
  then have "build_follow_me_query base celsius = build_frame (body[4 := 0x01, 5 := raw]) mt 0xAC 0 0 0"
    using assms(3) patch_built [OF assms(2,3), of raw] by (simp add: build_follow_me_query_def assms(1) raw(1) Let_def)
  then show ?thesis using raw(2-4) by (auto simp: clamp_celsius_def)
qed

subsection \<open>Examples\<close>

text \<open>A field read by two properties.\<close>

definition PROPERTIES :: glossary where
  "PROPERTIES = COMMANDS\<lparr>gl_fields :=
     [(''control'', Some
        [(''wind'', Field (field_of_type ''uint8'' (Some ''always'')
            [(''rsp_0xb1'', loc ''response'' [(plain_step 0 (7, 0))\<lparr>ds_property_id := Some ''0x42, 0x00''\<rparr>])])),
         (''power'', Field (field_of_type ''bool'' (Some ''always'')
            [(''rsp_0xc0'', loc ''response'' [plain_step 1 (0, 0)]), (''rsp_0xc1_group4'', loc ''response'' [plain_step 4 (0, 0)])]))])]\<rparr>"

theorem poll_covers_available_witness:
  "snd (compute_required_queries (new_device PROPERTIES)) = [''cmd_0x41'', ''cmd_0xc1_group4'', ''cmd_0xb1_batch_0''] \<and>
   (\<exists>f p. build_query_frame POLLED (fst (compute_required_queries (new_device PROPERTIES))) ''cmd_0xb1_batch_0'' = Inr (Some f) \<and>
      validate_frame f = Inr p \<and> (0x42, 0) \<in> set (query_pairs (drop 2 (pf_body p))))"
proof -
  let ?dev = "new_device PROPERTIES"
  let ?c = "compute_required_queries ?dev"
  have q: "snd ?c = [''cmd_0x41'', ''cmd_0xc1_group4'', ''cmd_0xb1_batch_0'']" by code_simp
  have n: "''wind'' \<in> set (dkeys (available_fields ?dev))" by code_simp
  let ?step = "(plain_step 0 (7, 0))\<lparr>ds_property_id := Some ''0x42, 0x00''\<rparr>"
  let ?wind = "field_of_type ''uint8'' (Some ''always'') [(''rsp_0xb1'', loc ''response'' [?step])]"
  have w: "dget (walk_fields (dv_glossary ?dev)) ''wind'' = Some ?wind"
    by (simp add: new_device_def new_db_def PROPERTIES_def walk_fields_def visited_fields_def category_fields_def)
  have p: "(''rsp_0xb1'', loc ''response'' [?step]) \<in> set (fd_protocols ?wind)"
    "pl_direction (loc ''response'' [?step]) = Some ''response''" "?step \<in> set (pl_decode (loc ''response'' [?step]))"
    by (simp_all add: field_of_type_def loc_def)
  have b: "parse_b1_property_id (ds_property_id ?step) = Some (0x42, 0)" by code_simp
  from poll_covers_available [OF prod.collapse [symmetric] n w p(1,2), of POLLED] p(3) b
  obtain i f pf where i: "{j. (0x42, 0) \<in> set (batch_pairs (fst ?c) (int j))} = {i}"
     "build_query_frame POLLED (fst ?c) (batch_key i) = Inr (Some f)" "validate_frame f = Inr pf"
     "(0x42, 0) \<in> set (query_pairs (drop 2 (pf_body pf)))"
    by blast
  have "(0x42, 0) \<in> set (batch_pairs (fst ?c) (int 0))" by code_simp
  then have "0 \<in> {j. (0x42, 0) \<in> set (batch_pairs (fst ?c) (int j))}" by simp
  then have "i = 0" unfolding i(1) by simp
  moreover have "batch_key 0 = ''cmd_0xb1_batch_0''" by code_simp
  ultimately show ?thesis using i q by auto
qed

theorem follow_me_query_exact_witness:
  "\<exists>raw. build_follow_me_query POLLED (43/2) = build_frame ([0x41, 0x81, 0, 0xFF, 0x01, raw, 0, 2] @ replicate 16 0) 3 0xAC 0 0 0 \<and>
     50 \<le> uint raw \<and> uint raw \<le> 150"
proof -
  let ?body = "[0x41, 0x81, 0, 0xFF, 3, 0xFF, 0, 2] @ replicate 16 0 :: bytes"
  have "build_status_query POLLED 0xAC 0 0 = build_frame ?body 3 0xAC 0 0 0"
    by (simp add: build_status_query_def query_frame_def build_frame_from_spec_def build_frame_body_from_spec_def
        POLLED_def query_spec_def low_byte_def)
  moreover obtain frame where "build_frame ?body 3 0xAC 0 0 0 = Inr frame"
    using build_frame_layout [of ?body 3 "0xAC" 0 0 0] by simp
  ultimately show ?thesis using follow_me_query_exact [of POLLED frame ?body 3 "43/2"] by auto
qed

end
