(* ===== verification/Link.thy ===== *)
theory Link
  imports Device
begin

section \<open>The life cycle of the link (\<open>client/device.py\<close>)\<close>

text \<open>
  A device connects, runs a handshake on the new link (one status query, then \<open>on_connected\<close>), and when
  the link is lost reconnects with a growing delay until it succeeds, is stopped, or is refused its
  key.  Handshakes run as tasks and may outlive their link; the generation of the link keeps them from
  reporting it.  Cancelling a task only asks it to stop, so the model lets every handshake run on.

  Lemmas: the invariant that ties the generation to the state of the link; the delays of the
  reconnection.  Properties: \<open>on_connected\<close> is only fired while the link it belongs to is up, at most
  once per link, and never between a loss and the next link; the reconnection waits 5, 10, 30 and then
  60 seconds and ends with the first attempt that is decisive.
\<close>

subsection \<open>State\<close>

datatype link_event = Reported_connected | Reported_disconnected | Reported_auth_failure

datatype task_state = Absent | Alive | Finished

record link =
  lk_gen :: nat  \<comment> \<open>\<open>_link_gen\<close>\<close>
  lk_running :: bool
  lk_listen :: task_state
  lk_poll :: task_state
  lk_handshakes :: "nat list"  \<comment> \<open>the generations \<open>_post_connect_init\<close> runs with\<close>
  lk_up :: bool  \<comment> \<open>no variable of the code: a link was established and not lost since\<close>
  lk_events :: "link_event list"  \<comment> \<open>the callbacks fired\<close>
  lk_links :: nat  \<comment> \<open>no variable of the code: how many links were established\<close>

definition new_link :: link where
  "new_link = \<lparr>lk_gen = 0, lk_running = False, lk_listen = Absent, lk_poll = Absent, lk_handshakes = [],
               lk_up = False, lk_events = [], lk_links = 0\<rparr>"

definition report :: "link_event \<Rightarrow> link \<Rightarrow> link" where
  "report e lk = lk\<lparr>lk_events := lk_events lk @ [e]\<rparr>"

subsection \<open>Operations\<close>

definition connect :: "link \<Rightarrow> link \<times> nat" where  \<comment> \<open>\<open>_connect\<close>, when it succeeds\<close>
  "connect lk = (lk\<lparr>lk_gen := lk_gen lk + 1, lk_up := True, lk_links := lk_links lk + 1\<rparr>, lk_gen lk + 1)"

definition start_link :: "link \<Rightarrow> link" where  \<comment> \<open>\<open>start\<close>, up to its handshake; \<open>_connect\<close> may raise instead\<close>
  "start_link lk =
     (if lk_running lk then lk
      else case connect lk of
             (lk, gen) \<Rightarrow> lk\<lparr>lk_running := True, lk_listen := Alive, lk_handshakes := lk_handshakes lk @ [gen]\<rparr>)"

definition finish_start :: "link \<Rightarrow> link" where
  "finish_start lk = lk\<lparr>lk_poll := Alive\<rparr>"

definition stop_link :: "link \<Rightarrow> link" where
  "stop_link lk =
     report Reported_disconnected
       (lk\<lparr>lk_running := False, lk_gen := lk_gen lk + 1, lk_listen := Absent, lk_poll := Absent, lk_up := False\<rparr>)"

definition lose_link :: "link \<Rightarrow> link" where  \<comment> \<open>the beginning of \<open>_reconnect\<close>\<close>
  "lose_link lk = report Reported_disconnected (lk\<lparr>lk_gen := lk_gen lk + 1, lk_up := False\<rparr>)"

definition relink :: "link \<Rightarrow> link" where  \<comment> \<open>an attempt of \<open>_reconnect\<close> that succeeds\<close>
  "relink lk = (case connect lk of (lk, gen) \<Rightarrow> lk\<lparr>lk_handshakes := lk_handshakes lk @ [gen]\<rparr>)"

definition refuse :: "link \<Rightarrow> link" where  \<comment> \<open>an attempt that fails with \<open>AuthenticationError\<close>\<close>
  "refuse lk = report Reported_auth_failure (lk\<lparr>lk_running := False\<rparr>)"

text \<open>The end of \<open>_post_connect_init\<close> for one generation.\<close>

definition finish_handshake :: "nat \<Rightarrow> link \<Rightarrow> link" where
  "finish_handshake gen lk =
     (let lk = lk\<lparr>lk_handshakes := remove1 gen (lk_handshakes lk)\<rparr>
      in if gen \<noteq> lk_gen lk then lk else report Reported_connected lk)"

definition restart_task :: "task_state \<Rightarrow> task_state" where
  "restart_task t = (case t of Alive \<Rightarrow> Alive | _ \<Rightarrow> Alive)"

definition supervise :: "link \<Rightarrow> link" where  \<comment> \<open>one round of \<open>_supervisor\<close>\<close>
  "supervise lk =
     (if lk_running lk then lk\<lparr>lk_listen := restart_task (lk_listen lk), lk_poll := restart_task (lk_poll lk)\<rparr> else lk)"

definition link_connected :: "device \<Rightarrow> link \<Rightarrow> bool" where  \<comment> \<open>the property \<open>connected\<close>\<close>
  "link_connected dev lk \<longleftrightarrow> link_alive dev \<and> lk_listen lk = Alive"

inductive link_step :: "link \<Rightarrow> link \<Rightarrow> bool" where
  started: "link_step lk (start_link lk)"
| start_finished: "link_step lk (finish_start lk)"
| stopped: "link_step lk (stop_link lk)"
| lost: "lk_running lk \<Longrightarrow> link_step lk (lose_link lk)"
| relinked: "lk_running lk \<Longrightarrow> \<not> lk_up lk \<Longrightarrow> link_step lk (relink lk)"
| refused: "lk_running lk \<Longrightarrow> \<not> lk_up lk \<Longrightarrow> link_step lk (refuse lk)"
| handshaken: "gen \<in> set (lk_handshakes lk) \<Longrightarrow> link_step lk (finish_handshake gen lk)"
| handshake_cancelled: "link_step lk (lk\<lparr>lk_handshakes := remove1 gen (lk_handshakes lk)\<rparr>)"
| loop_died: "link_step lk (lk\<lparr>lk_listen := Finished\<rparr>)"
| poll_died: "link_step lk (lk\<lparr>lk_poll := Finished\<rparr>)"
| supervised: "link_step lk (supervise lk)"

inductive_cases link_stepE: "link_step lk lk'"

subsection \<open>Reconnecting\<close>

definition RECONNECT_DELAYS :: "nat list" where
  "RECONNECT_DELAYS = [5, 10, 30, 60]"

definition RECONNECT_FOREVER_INTERVAL :: nat where
  "RECONNECT_FOREVER_INTERVAL = 60"

text \<open>What an attempt meets: the device was stopped before it or while it waited; its outcome.\<close>

datatype attempt = Stopped_before | Stopped_waiting | Attempt_connects | Attempt_refused | Attempt_fails

datatype reconnect_end = Still_trying | Gave_up_stopped | Gave_up_refused | Relinked

fun reconnect_loop :: "nat list \<Rightarrow> attempt list \<Rightarrow> nat list \<times> reconnect_end" where
  \<comment> \<open>the delays slept, and how the loop ended in the attempts seen so far\<close>
  "reconnect_loop delays [] = ([], Still_trying)"
| "reconnect_loop delays (a # as) =
     (if a = Stopped_before then ([], Gave_up_stopped)
      else let delay = (case delays of [] \<Rightarrow> RECONNECT_FOREVER_INTERVAL | d # _ \<Rightarrow> d)
           in case a of
                Attempt_fails \<Rightarrow> (case reconnect_loop (tl delays) as of (slept, r) \<Rightarrow> (delay # slept, r))
              | Attempt_connects \<Rightarrow> ([delay], Relinked)
              | Attempt_refused \<Rightarrow> ([delay], Gave_up_refused)
              | _ \<Rightarrow> ([delay], Gave_up_stopped))"

subsection \<open>Messages of the gateway\<close>

record gateway_info =
  gi_version :: string
  gi_device_name :: string
  gi_instance :: string

definition initial_gateway_info :: gateway_info where
  "initial_gateway_info = \<lparr>gi_version = ''unknown'', gi_device_name = ''Midea AC'', gi_instance = []\<rparr>"

datatype gateway_message =
    Frame_message (gm_hex: "string option") (gm_dir: "string option")
  | Version_message "string option" "string option" "string option"
  | Status_message "string option" "string option"
  | Other_message  \<comment> \<open>\<open>ack\<close>, \<open>error\<close> (logged) and unknown types (ignored)\<close>

definition update_info :: "string option \<Rightarrow> string option \<Rightarrow> gateway_info \<Rightarrow> gateway_info" where
  "update_info device_name inst gi =
     gi\<lparr>gi_device_name := (case device_name of None \<Rightarrow> gi_device_name gi | Some n \<Rightarrow> n),
        gi_instance := (case inst of None \<Rightarrow> gi_instance gi | Some n \<Rightarrow> n)\<rparr>"

definition on_gateway_message ::
  "gateway_message \<Rightarrow> string \<Rightarrow> rat \<Rightarrow> device \<times> gateway_info \<Rightarrow> (device \<times> gateway_info) \<times> (string \<times> bytes) list" where
  "on_gateway_message msg ts tick s =
     (case s of (dev, gi) \<Rightarrow>
        (case msg of
           Frame_message hex dir \<Rightarrow>
             (if dir \<noteq> None \<and> dir \<noteq> Some ''rx'' then (s, [])
              else case process_frame dev (case hex of None \<Rightarrow> [] | Some h \<Rightarrow> h) ts tick of (dev, calls) \<Rightarrow> ((dev, gi), calls))
         | Version_message version device_name inst \<Rightarrow>
             ((dev, update_info device_name inst (gi\<lparr>gi_version := (case version of None \<Rightarrow> ''unknown'' | Some v \<Rightarrow> v)\<rparr>)), [])
         | Status_message device_name inst \<Rightarrow> ((dev, update_info device_name inst gi), [])
         | Other_message \<Rightarrow> (s, [])))"

subsection \<open>The first status\<close>

datatype activity = Rx string string rat | Run bool

definition run_activity :: "activity \<Rightarrow> device \<Rightarrow> device" where
  "run_activity a dev = (case a of Rx hex ts tick \<Rightarrow> fst (process_frame dev hex ts tick) | Run registered \<Rightarrow> fst (run_task dev registered))"

text \<open>\<open>activities\<close>: what runs while the query waits; \<open>sends\<close>: the link takes the query.  True: the event was
  set before the timeout.\<close>

definition query_initial_status :: "glossary \<Rightarrow> bool \<Rightarrow> activity list \<Rightarrow> device \<Rightarrow> device \<times> bool" where
  "query_initial_status base sends activities dev =
     (if \<not> link_alive dev then (dev, False)
      else let dev1 = dev\<lparr>dv_initial_event := Some False\<rparr>
           in if isl (build_status_query base 0xAC 0 0) \<or> \<not> sends then (dev1\<lparr>dv_initial_event := None\<rparr>, False)
              else let dev2 = fold run_activity activities dev1
                   in (dev2\<lparr>dv_initial_event := None\<rparr>, dv_initial_event dev2 = Some True))"

subsection \<open>The invariant\<close>

definition count_reports :: "link \<Rightarrow> nat" where
  "count_reports lk = length (filter (\<lambda>e. e = Reported_connected) (lk_events lk))"

text \<open>Handshakes belong to different links, none of them to a later one than the current; the one of the
  current generation runs only while the link is up; a link has reported or still runs its handshake.\<close>

definition link_inv :: "link \<Rightarrow> bool" where
  "link_inv lk \<longleftrightarrow>
     distinct (lk_handshakes lk) \<and> (\<forall>gen \<in> set (lk_handshakes lk). gen \<le> lk_gen lk) \<and>
     (lk_gen lk \<in> set (lk_handshakes lk) \<longrightarrow> lk_up lk) \<and>
     count_reports lk + (if lk_gen lk \<in> set (lk_handshakes lk) then 1 else 0) \<le> lk_links lk"

lemma report_simps [simp]:
  "lk_gen (report e lk) = lk_gen lk" "lk_handshakes (report e lk) = lk_handshakes lk" "lk_up (report e lk) = lk_up lk"
  "lk_running (report e lk) = lk_running lk" "lk_links (report e lk) = lk_links lk"
  "lk_events (report e lk) = lk_events lk @ [e]"
  "count_reports (report e lk) = count_reports lk + (if e = Reported_connected then 1 else 0)"
  by (simp_all add: report_def count_reports_def)

lemma count_reports_update [simp]:
  "count_reports (lk\<lparr>lk_gen := g\<rparr>) = count_reports lk" "count_reports (lk\<lparr>lk_handshakes := h\<rparr>) = count_reports lk"
  "count_reports (lk\<lparr>lk_up := u\<rparr>) = count_reports lk" "count_reports (lk\<lparr>lk_links := n\<rparr>) = count_reports lk"
  "count_reports (lk\<lparr>lk_running := b\<rparr>) = count_reports lk" "count_reports (lk\<lparr>lk_listen := t\<rparr>) = count_reports lk"
  "count_reports (lk\<lparr>lk_poll := t\<rparr>) = count_reports lk"
  by (simp_all add: count_reports_def)

lemmas link_ops = connect_def start_link_def finish_start_def stop_link_def lose_link_def relink_def refuse_def
  finish_handshake_def supervise_def

lemma fresh_generation: "link_inv lk \<Longrightarrow> Suc (lk_gen lk) \<notin> set (lk_handshakes lk)"
  by (auto simp: link_inv_def)

lemma link_inv_step:
  assumes "link_step lk lk'" and "link_inv lk"
  shows "link_inv lk'"
  using assms(1)
proof (cases rule: link_step.cases)
  case (handshaken gen)
  then show ?thesis
    using assms(2) by (auto simp: link_inv_def finish_handshake_def Let_def set_remove1_eq)
next
  case (handshake_cancelled gen)
  then show ?thesis using assms(2) by (auto simp: link_inv_def set_remove1_eq split: if_splits)
qed (use assms(2) fresh_generation [OF assms(2)] in
      \<open>auto simp: link_inv_def link_ops Let_def le_SucI split: if_splits\<close>)

lemma link_inv_reachable: "link_step\<^sup>*\<^sup>* new_link lk \<Longrightarrow> link_inv lk"
  by (induction rule: rtranclp_induct) (auto intro: link_inv_step, simp add: link_inv_def new_link_def count_reports_def)

subsection \<open>The delays\<close>

definition retry_delay :: "nat \<Rightarrow> nat" where
  "retry_delay i = (if i < 4 then RECONNECT_DELAYS ! i else 60)"

lemma next_delay:
  "(case drop i RECONNECT_DELAYS of [] \<Rightarrow> RECONNECT_FOREVER_INTERVAL | d # _ \<Rightarrow> d) = retry_delay i"
proof (cases "i < 4")
  case True
  then have "drop i RECONNECT_DELAYS = RECONNECT_DELAYS ! i # drop (Suc i) RECONNECT_DELAYS"
    by (intro Cons_nth_drop_Suc [symmetric]) (simp add: RECONNECT_DELAYS_def)
  then show ?thesis using True by (simp add: retry_delay_def)
next
  case False
  then show ?thesis by (simp add: retry_delay_def RECONNECT_DELAYS_def RECONNECT_FOREVER_INTERVAL_def)
qed

lemma retry_delay_bounds: "5 \<le> retry_delay i \<and> retry_delay i \<le> 60"
proof -
  have "i < 4 \<Longrightarrow> i = 0 \<or> i = 1 \<or> i = 2 \<or> i = 3" by linarith
  then show ?thesis by (auto simp: retry_delay_def RECONNECT_DELAYS_def)
qed

text \<open>What a sequence of attempts leads to, starting with the \<open>i\<close>-th delay.\<close>

definition outcome_of :: "attempt list \<Rightarrow> reconnect_end" where
  "outcome_of rest =
     (case rest of
        [] \<Rightarrow> Still_trying
      | Attempt_connects # _ \<Rightarrow> Relinked
      | Attempt_refused # _ \<Rightarrow> Gave_up_refused
      | _ # _ \<Rightarrow> Gave_up_stopped)"

definition waits_of :: "attempt list \<Rightarrow> nat" where
  "waits_of rest = (if rest = [] \<or> hd rest = Stopped_before then 0 else 1)"

abbreviation failures :: "attempt list \<Rightarrow> nat" where
  "failures as \<equiv> length (takeWhile (\<lambda>a. a = Attempt_fails) as)"

lemma reconnect_from:
  "reconnect_loop (drop i RECONNECT_DELAYS) as =
     (map retry_delay [i ..< i + failures as + waits_of (drop (failures as) as)], outcome_of (drop (failures as) as))"
proof (induction as arbitrary: i)
  case Nil
  then show ?case by (simp add: outcome_of_def waits_of_def)
next
  case (Cons a as)
  note d = next_delay [of i]
  show ?case
  proof (cases a)
    case Attempt_fails
    have "[i ..< i + Suc (failures as) + k] = i # [Suc i ..< Suc i + failures as + k]" for k
      using upt_conv_Cons [of i "i + Suc (failures as) + k"] by simp
    then show ?thesis using Cons.IH [of "Suc i"] d Attempt_fails by (simp add: Let_def tl_drop drop_Suc)
  qed (use d in \<open>simp_all add: Let_def outcome_of_def waits_of_def\<close>)
qed

subsection \<open>Properties\<close>

text \<open>C21: \<open>on_connected\<close> is honest: whatever order starts, stops, losses, reconnections, refusals and
  handshakes run in, late and cancelled ones included, it is only fired while the link that the
  handshake belongs to is up, and at most once for each link established.\<close>

theorem connected_is_honest:
  assumes "link_step\<^sup>*\<^sup>* new_link lk" and "link_step lk lk'" and "lk_events lk' = lk_events lk @ [Reported_connected]"
  shows "lk_up lk \<and> lk_up lk' \<and> lk_gen lk' = lk_gen lk \<and> count_reports lk' \<le> lk_links lk'"
proof -
  have i: "link_inv lk" using assms(1) by (rule link_inv_reachable)
  then have "count_reports lk' \<le> lk_links lk'" using link_inv_step [OF assms(2)] by (auto simp: link_inv_def)
  moreover have "lk_up lk \<and> lk_up lk' \<and> lk_gen lk' = lk_gen lk"
    using assms(2)
  proof (cases rule: link_step.cases)
    case (handshaken gen)
    then show ?thesis using assms(3) i by (auto simp: finish_handshake_def link_inv_def Let_def split: if_splits)
  qed (use assms(3) in \<open>auto simp: link_ops Let_def split: if_splits\<close>)
  ultimately show ?thesis by blast
qed

text \<open>C36: a reconnection waits 5, 10, 30 and 60 seconds before its first four attempts and 60 before every
  later one; it ends with the first attempt that does not just fail, and if that one connects the device
  is linked again, however many attempts failed before.\<close>

theorem reconnect_exact:
  "reconnect_loop RECONNECT_DELAYS as =
     (map retry_delay [0 ..< failures as + waits_of (drop (failures as) as)], outcome_of (drop (failures as) as)) \<and>
   reconnect_loop RECONNECT_DELAYS (replicate n Attempt_fails @ Attempt_connects # rest) = (map retry_delay [0 ..< Suc n], Relinked) \<and>
   map retry_delay [0 ..< 6] = [5, 10, 30, 60, 60, 60] \<and> retry_delay k \<le> 60"
proof -
  have 1: "reconnect_loop RECONNECT_DELAYS bs =
      (map retry_delay [0 ..< failures bs + waits_of (drop (failures bs) bs)], outcome_of (drop (failures bs) bs))" for bs
    using reconnect_from [of 0 bs] by simp
  let ?bs = "replicate n Attempt_fails @ Attempt_connects # rest"
  have "takeWhile (\<lambda>a. a = Attempt_fails) ?bs = replicate n Attempt_fails" by (induction n) simp_all
  then have "failures ?bs = n" "drop n ?bs = Attempt_connects # rest" by simp_all
  then have "reconnect_loop RECONNECT_DELAYS ?bs = (map retry_delay [0 ..< Suc n], Relinked)"
    using 1 [of ?bs] by (simp only: waits_of_def outcome_of_def) simp
  moreover have "map retry_delay [0 ..< 6] = [5, 10, 30, 60, 60, 60]" by code_simp
  ultimately show ?thesis using 1 retry_delay_bounds by blast
qed

theorem connected_is_honest_witness:
  "lk_events (finish_handshake 1 (start_link new_link)) = [Reported_connected] \<and> lk_up (start_link new_link) \<and>
   lk_events (finish_handshake 1 (relink (lose_link (start_link new_link)))) = [Reported_disconnected]"
proof -
  have s: "link_step\<^sup>*\<^sup>* new_link (start_link new_link)" by (rule r_into_rtranclp) (rule link_step.started)
  have h: "1 \<in> set (lk_handshakes (start_link new_link))" by code_simp
  have e: "lk_events (finish_handshake 1 (start_link new_link)) = lk_events (start_link new_link) @ [Reported_connected]"
    "lk_events (start_link new_link) = []" by code_simp+
  have "lk_up (start_link new_link)"
    using connected_is_honest [OF s link_step.handshaken [OF h] e(1)] by blast
  moreover have "lk_events (finish_handshake 1 (relink (lose_link (start_link new_link)))) = [Reported_disconnected]" by code_simp
  ultimately show ?thesis using e by simp
qed

end
