(* ===== verification/Json.thy ===== *)
theory Json
  imports Py_Prelude
begin

section \<open>JSON texts (\<open>json.dumps\<close> and \<open>json.loads\<close> of the standard library)\<close>

text \<open>
  The messages between clients and the gateway are JSON texts.  This theory models the two library
  functions as the code calls them: \<open>dumps\<close> with its defaults (all output is ASCII, separators with a
  space), \<open>loads\<close> with the scanner's behaviour on white space, escapes, numbers, duplicate keys and
  the constants \<open>NaN\<close> and \<open>Infinity\<close>.  A float is kept as the literal that was written or read;
  \<open>float_value\<close> is its number.  A \<open>dict\<close> is an association list in insertion order.

  Characters are those up to U+00FF, the range of the type \<^typ>\<open>char\<close>; an escape beyond it is outside of the
  model (and refused).  The limit of the interpreter on nesting is not modelled.

  Lemmas: every value that \<open>dumps\<close> prints reads back as itself.
\<close>

subsection \<open>Values\<close>

datatype json =
    JNull
  | JBool bool
  | JInt int
  | JFloat string
  | JStr string
  | JList "json list"
  | JObj "(string \<times> json) list"

definition jget :: "json \<Rightarrow> string \<Rightarrow> json option" where  \<comment> \<open>\<open>d.get(k)\<close>, on objects\<close>
  "jget j k = (case j of JObj d \<Rightarrow> dget d k | _ \<Rightarrow> None)"

definition jget_or :: "json \<Rightarrow> string \<Rightarrow> json \<Rightarrow> json" where
  "jget_or j k v = (case jget j k of None \<Rightarrow> v | Some x \<Rightarrow> x)"

definition jitem :: "json \<Rightarrow> string \<Rightarrow> json res" where  \<comment> \<open>\<open>d[k]\<close>\<close>
  "jitem j k = (case j of JObj d \<Rightarrow> (case dget d k of None \<Rightarrow> Inl KeyError | Some x \<Rightarrow> Inr x) | _ \<Rightarrow> Inl TypeError)"

subsection \<open>Printing\<close>

definition hex4 :: "nat \<Rightarrow> string" where
  "hex4 n = [CHR ''0'', CHR ''0'', lower_char (hex_digit (n div 16)), lower_char (hex_digit (n mod 16))]"

definition escape_char :: "char \<Rightarrow> string" where
  "escape_char c =
     (if c = CHR 0x22 then [CHR 0x5C, CHR 0x22]
      else if c = CHR 0x5C then [CHR 0x5C, CHR 0x5C]
      else if c = CHR 0x0A then [CHR 0x5C, CHR ''n'']
      else if c = CHR 0x0D then [CHR 0x5C, CHR ''r'']
      else if c = CHR 0x09 then [CHR 0x5C, CHR ''t'']
      else if c = CHR 0x0C then [CHR 0x5C, CHR ''f'']
      else if c = CHR 0x08 then [CHR 0x5C, CHR ''b'']
      else if 32 \<le> (of_char c :: nat) \<and> (of_char c :: nat) < 127 then [c]
      else [CHR 0x5C, CHR ''u''] @ hex4 (of_char c))"

text \<open>With \<open>ensure_ascii=False\<close> only what JSON requires is escaped.\<close>

definition escape_min :: "char \<Rightarrow> string" where
  "escape_min c = (if 127 \<le> (of_char c :: nat) then [c] else escape_char c)"

record json_style =
  js_item :: string  \<comment> \<open>the separators\<close>
  js_key :: string
  js_escape :: "char \<Rightarrow> string"

definition default_style :: json_style where
  "default_style = \<lparr>js_item = '', '', js_key = '': '', js_escape = escape_char\<rparr>"

definition compact_style :: json_style where
  "compact_style = \<lparr>js_item = '','', js_key = '':'', js_escape = escape_min\<rparr>"

definition print_string :: "json_style \<Rightarrow> string \<Rightarrow> string" where
  "print_string st s = CHR 0x22 # concat (map (js_escape st) s) @ [CHR 0x22]"

definition dec_int :: "int \<Rightarrow> string" where
  "dec_int i = (if i < 0 then CHR ''-'' # dec (nat (- i)) else dec (nat i))"

fun print_json :: "json_style \<Rightarrow> json \<Rightarrow> string" and print_items :: "json_style \<Rightarrow> json list \<Rightarrow> string"
  and print_pairs :: "json_style \<Rightarrow> (string \<times> json) list \<Rightarrow> string" where
  "print_json st JNull = ''null''"
| "print_json st (JBool b) = (if b then ''true'' else ''false'')"
| "print_json st (JInt i) = dec_int i"
| "print_json st (JFloat l) = l"
| "print_json st (JStr s) = print_string st s"
| "print_json st (JList xs) = ''['' @ print_items st xs @ '']''"
| "print_json st (JObj d) = ''{'' @ print_pairs st d @ ''}''"
| "print_items st [] = []"
| "print_items st [x] = print_json st x"
| "print_items st (x # y # xs) = print_json st x @ js_item st @ print_items st (y # xs)"
| "print_pairs st [] = []"
| "print_pairs st [(k, x)] = print_string st k @ js_key st @ print_json st x"
| "print_pairs st ((k, x) # y # d) = print_string st k @ js_key st @ print_json st x @ js_item st @ print_pairs st (y # d)"

definition dumps :: "json \<Rightarrow> string" where
  "dumps = print_json default_style"

subsection \<open>Scanning\<close>

definition is_ws :: "char \<Rightarrow> bool" where
  "is_ws c \<longleftrightarrow> c \<in> {CHR '' '', CHR 0x09, CHR 0x0A, CHR 0x0D}"

definition skip :: "string \<Rightarrow> string" where
  "skip s = dropWhile is_ws s"

definition nibble_val :: "char \<Rightarrow> nat option" where
  "nibble_val c =
     (let n = (of_char c :: nat)
      in if 48 \<le> n \<and> n \<le> 57 then Some (n - 48)
         else if 97 \<le> n \<and> n \<le> 102 then Some (n - 87)
         else if 65 \<le> n \<and> n \<le> 70 then Some (n - 55) else None)"

definition simple_escape :: "char \<Rightarrow> char option" where
  "simple_escape c =
     (if c = CHR 0x22 \<or> c = CHR 0x5C \<or> c = CHR ''/'' then Some c
      else if c = CHR ''n'' then Some CHR 0x0A
      else if c = CHR ''r'' then Some CHR 0x0D
      else if c = CHR ''t'' then Some CHR 0x09
      else if c = CHR ''f'' then Some CHR 0x0C
      else if c = CHR ''b'' then Some CHR 0x08
      else None)"

text \<open>The text after the opening quote: the string and what follows the closing quote.\<close>

fun scan_string :: "string \<Rightarrow> (string \<times> string) option" where
  "scan_string [] = None"
| "scan_string (c # s) =
     (if c = CHR 0x22 then Some ([], s)
      else if c \<noteq> CHR 0x5C then
        (if (of_char c :: nat) < 32 then None
         else map_option (\<lambda>(t, r). (c # t, r)) (scan_string s))
      else case s of
             e # a # b # x # y # r \<Rightarrow>
               (if e = CHR ''u'' then
                  (case (nibble_val a, nibble_val b, nibble_val x, nibble_val y) of
                     (Some 0, Some 0, Some h, Some l) \<Rightarrow>
                       map_option (\<lambda>(t, r). (char_of (16 * h + l) # t, r)) (scan_string r)
                   | _ \<Rightarrow> None)
                else (case simple_escape e of
                        Some c' \<Rightarrow> map_option (\<lambda>(t, r). (c' # t, r)) (scan_string (a # b # x # y # r))
                      | None \<Rightarrow> None))
           | e # r \<Rightarrow>
               (case simple_escape e of
                  Some c' \<Rightarrow> map_option (\<lambda>(t, r). (c' # t, r)) (scan_string r)
                | None \<Rightarrow> None)
           | [] \<Rightarrow> None)"

definition is_dig :: "char \<Rightarrow> bool" where
  "is_dig c \<longleftrightarrow> digit_val c \<noteq> None"

definition int_part :: "string \<Rightarrow> (string \<times> string) option" where
  "int_part s =
     (case s of
        [] \<Rightarrow> None
      | c # r \<Rightarrow>
          (if c = CHR ''0'' then Some (''0'', r)
           else if is_dig c then Some (takeWhile is_dig s, dropWhile is_dig s) else None))"

definition frac_part :: "string \<Rightarrow> string \<times> string" where
  "frac_part s =
     (case s of
        c # d # r \<Rightarrow>
          (if c = CHR ''.'' \<and> is_dig d then (c # takeWhile is_dig (d # r), dropWhile is_dig (d # r)) else ([], s))
      | _ \<Rightarrow> ([], s))"

definition exp_part :: "string \<Rightarrow> string \<times> string" where
  "exp_part s =
     (case s of
        c # r \<Rightarrow>
          (if c = CHR ''e'' \<or> c = CHR ''E'' then
             (let sgn = (case r of x # _ \<Rightarrow> (if x = CHR ''+'' \<or> x = CHR ''-'' then [x] else []) | [] \<Rightarrow> []);
                  ds = takeWhile is_dig (drop (length sgn) r)
              in if ds = [] then ([], s) else (c # sgn @ ds, dropWhile is_dig (drop (length sgn) r)))
           else ([], s))
      | [] \<Rightarrow> ([], s))"

definition digits_int :: "string \<Rightarrow> int" where
  "digits_int s = (case digits_val 0 s of Inr i \<Rightarrow> i | Inl _ \<Rightarrow> 0)"

definition scan_number :: "string \<Rightarrow> (json \<times> string) option" where
  "scan_number s =
     (let neg = (case s of c # _ \<Rightarrow> c = CHR ''-'' | [] \<Rightarrow> False);
          sgn = (if neg then ''-'' else [])
      in case int_part (drop (length sgn) s) of
           None \<Rightarrow> None
         | Some (whole, r) \<Rightarrow>
             (case frac_part r of
                (fr, r1) \<Rightarrow>
                  (case exp_part r1 of
                     (ex, r2) \<Rightarrow>
                       (if fr = [] \<and> ex = [] then Some (JInt (if neg then - digits_int whole else digits_int whole), r2)
                        else Some (JFloat (sgn @ whole @ fr @ ex), r2)))))"

definition scan_literal :: "string \<Rightarrow> (json \<times> string) option" where
  "scan_literal s =
     (if starts_with ''null'' s then Some (JNull, drop 4 s)
      else if starts_with ''true'' s then Some (JBool True, drop 4 s)
      else if starts_with ''false'' s then Some (JBool False, drop 5 s)
      else if starts_with ''NaN'' s then Some (JFloat ''NaN'', drop 3 s)
      else if starts_with ''Infinity'' s then Some (JFloat ''Infinity'', drop 8 s)
      else if starts_with ''-Infinity'' s then Some (JFloat ''-Infinity'', drop 9 s)
      else scan_number s)"

text \<open>The fuel bounds the nesting and the number of members; the length of the text is enough.\<close>

fun scan_value :: "nat \<Rightarrow> string \<Rightarrow> (json \<times> string) option"
  and scan_items :: "nat \<Rightarrow> string \<Rightarrow> (json list \<times> string) option"
  and scan_pairs :: "nat \<Rightarrow> string \<Rightarrow> ((string \<times> json) list \<times> string) option" where
  "scan_value 0 s = None"
| "scan_value (Suc n) s =
     (case s of
        [] \<Rightarrow> None
      | c # r \<Rightarrow>
          (if c = CHR 0x22 then map_option (\<lambda>(t, r). (JStr t, r)) (scan_string r)
           else if c = CHR ''['' then
             (case skip r of
                [] \<Rightarrow> None
              | x # r' \<Rightarrow>
                  (if x = CHR '']'' then Some (JList [], r')
                   else map_option (\<lambda>(xs, r). (JList xs, r)) (scan_items n (x # r'))))
           else if c = CHR ''{'' then
             (case skip r of
                [] \<Rightarrow> None
              | x # r' \<Rightarrow>
                  (if x = CHR ''}'' then Some (JObj [], r')
                   else map_option (\<lambda>(d, r). (JObj (fold (\<lambda>(k, v). dset k v) d []), r)) (scan_pairs n (x # r'))))
           else scan_literal s))"
| "scan_items 0 s = None"
| "scan_items (Suc n) s =
     (case scan_value n s of
        None \<Rightarrow> None
      | Some (j, r) \<Rightarrow>
          (case skip r of
             [] \<Rightarrow> None
           | x # r' \<Rightarrow>
               (if x = CHR '']'' then Some ([j], r')
                else if x = CHR '','' then map_option (\<lambda>(xs, r). (j # xs, r)) (scan_items n (skip r'))
                else None)))"
| "scan_pairs 0 s = None"
| "scan_pairs (Suc n) s =
     (case s of
        [] \<Rightarrow> None
      | q # t \<Rightarrow>
          (if q \<noteq> CHR 0x22 then None
           else case scan_string t of
                  None \<Rightarrow> None
                | Some (k, r) \<Rightarrow>
                    (case skip r of
                       [] \<Rightarrow> None
                     | x # r' \<Rightarrow>
                         (if x \<noteq> CHR '':'' then None
                          else case scan_value n (skip r') of
                                 None \<Rightarrow> None
                               | Some (j, r) \<Rightarrow>
                                   (case skip r of
                                      [] \<Rightarrow> None
                                    | y # r' \<Rightarrow>
                                        (if y = CHR ''}'' then Some ([(k, j)], r')
                                         else if y = CHR '','' then map_option (\<lambda>(d, r). ((k, j) # d, r)) (scan_pairs n (skip r'))
                                         else None))))))"

definition loads :: "string \<Rightarrow> json res" where
  "loads s =
     (case scan_value (Suc (length s)) (skip s) of
        None \<Rightarrow> Inl ValueError
      | Some (j, r) \<Rightarrow> (if skip r = [] then Inr j else Inl ValueError))"

subsection \<open>Numbers\<close>

datatype pynum = Fin rat | Nan | Pos_inf | Neg_inf

definition float_value :: "string \<Rightarrow> pynum" where
  "float_value l =
     (if l = ''NaN'' then Nan
      else if l = ''Infinity'' then Pos_inf
      else if l = ''-Infinity'' then Neg_inf
      else
        let neg = starts_with ''-'' l;
            body = (if neg then drop 1 l else l);
            whole = takeWhile is_dig body;
            (fr, r) = frac_part (dropWhile is_dig body);
            (ex, _) = exp_part r;
            e = (if ex = [] then 0 else case int_of_str (drop 1 ex) of Inr i \<Rightarrow> i | Inl _ \<Rightarrow> 0);
            m = (of_int (digits_int (whole @ drop 1 fr)) :: rat) / 10 ^ (length (drop 1 fr));
            v = (if e < 0 then m / 10 ^ nat (- e) else m * 10 ^ nat e)
        in Fin (if neg then - v else v))"

text \<open>\<open>a <= b\<close> of numbers.\<close>

fun num_le :: "pynum \<Rightarrow> pynum \<Rightarrow> bool" where
  "num_le Nan _ \<longleftrightarrow> False"
| "num_le _ Nan \<longleftrightarrow> False"
| "num_le Neg_inf _ \<longleftrightarrow> True"
| "num_le _ Pos_inf \<longleftrightarrow> True"
| "num_le Pos_inf _ \<longleftrightarrow> False"
| "num_le _ Neg_inf \<longleftrightarrow> False"
| "num_le (Fin a) (Fin b) \<longleftrightarrow> a \<le> b"

subsection \<open>What is printed reads back\<close>

lemma lower_hex_digits: "map (\<lambda>i. lower_char (hex_digit i)) [0..<16] = ''0123456789abcdef''"
  by code_simp

lemma nibble_val_digit: "i < 16 \<Longrightarrow> nibble_val (lower_char (hex_digit i)) = Some i"
proof -
  have "map nibble_val ''0123456789abcdef'' = map Some [0..<16]" by (simp add: nibble_val_def upt_rec)
  then have "map (\<lambda>i. nibble_val (lower_char (hex_digit i))) [0..<16] = map Some [0..<16]"
    by (simp only: lower_hex_digits [symmetric] list.map_comp comp_def)
  then show "i < 16 \<Longrightarrow> ?thesis" by (simp del: upt_rec_numeral)
qed

text \<open>One escaped character scans as that character.\<close>

definition escapes :: "char \<Rightarrow> bool" where
  "escapes c \<longleftrightarrow>
     (case escape_char c of
        [x] \<Rightarrow> x = c \<and> x \<noteq> CHR 0x22 \<and> x \<noteq> CHR 0x5C \<and> 32 \<le> (of_char x :: nat)
      | [b, e] \<Rightarrow> b = CHR 0x5C \<and> e \<noteq> CHR ''u'' \<and> simple_escape e = Some c
      | [b, u, p, q, h, l] \<Rightarrow>
          b = CHR 0x5C \<and> u = CHR ''u'' \<and> nibble_val p = Some 0 \<and> nibble_val q = Some 0 \<and>
          (case (nibble_val h, nibble_val l) of (Some x, Some y) \<Rightarrow> char_of (16 * x + y) = c | _ \<Rightarrow> False)
      | _ \<Rightarrow> False)"

lemma escapes_all: "escapes c"
proof (cases "escape_char c = [CHR 0x5C, CHR ''u''] @ hex4 (of_char c)")
  case True
  have "(of_char c :: nat) < 256" by simp
  then have d: "(of_char c :: nat) div 16 < 16" "(of_char c :: nat) mod 16 < 16" by (simp_all add: div_less_iff_less_mult)
  have z: "nibble_val (CHR ''0'') = Some 0" by (simp add: nibble_val_def)
  have "char_of (16 * ((of_char c :: nat) div 16) + of_char c mod 16) = c" by (simp only: mult_div_mod_eq char_of_char)
  then show ?thesis using True by (simp add: escapes_def hex4_def z nibble_val_digit [OF d(1)] nibble_val_digit [OF d(2)])
next
  case False
  then show ?thesis by (simp add: escapes_def escape_char_def simple_escape_def split: if_splits)
qed

lemma scan_escaped:
  "scan_string (escape_char c @ s) = map_option (\<lambda>(t, r). (c # t, r)) (scan_string s)"
proof -
  have e: "escapes c" by (rule escapes_all)
  consider (plain) "escape_char c = [c]" "c \<noteq> CHR 0x22" "c \<noteq> CHR 0x5C" "32 \<le> (of_char c :: nat)"
    | (short) x where "escape_char c = [CHR 0x5C, x]" "x \<noteq> CHR ''u''" "simple_escape x = Some c"
    | (long) p q h l m n where "escape_char c = [CHR 0x5C, CHR ''u'', p, q, h, l]" "nibble_val p = Some 0" "nibble_val q = Some 0"
        "nibble_val h = Some m" "nibble_val l = Some n" "char_of (16 * m + n) = c"
    using e by (auto simp: escapes_def split: list.splits option.splits)
  then show ?thesis
  proof cases
    case plain
    then show ?thesis by simp
  next
    case short
    then show ?thesis by (cases s rule: scan_string.cases) (auto split: list.split)
  next
    case long
    then show ?thesis by simp
  qed
qed

text \<open>A style whose escapes and separators the scanner takes back.\<close>

definition style_ok :: "json_style \<Rightarrow> bool" where
  "style_ok st \<longleftrightarrow> js_item st \<in> {'', '', '',''} \<and> js_key st \<in> {'': '', '':''} \<and>
     (\<forall>c s. scan_string (js_escape st c @ s) = map_option (\<lambda>(t, r). (c # t, r)) (scan_string s))"

lemma default_style_ok: "style_ok default_style"
  by (simp add: style_ok_def default_style_def scan_escaped del: scan_string.simps)

lemma compact_style_ok: "style_ok compact_style"
proof -
  have "scan_string (escape_min c @ s) = map_option (\<lambda>(t, r). (c # t, r)) (scan_string s)" for c s
  proof (cases "127 \<le> (of_char c :: nat)")
    case True
    then have "c \<noteq> CHR 0x22" "c \<noteq> CHR 0x5C" by auto
    then show ?thesis using True by (simp add: escape_min_def)
  next
    case False
    then show ?thesis by (simp add: escape_min_def scan_escaped del: scan_string.simps)
  qed
  then show ?thesis by (simp add: style_ok_def compact_style_def del: scan_string.simps)
qed

lemma scan_printed: "style_ok st \<Longrightarrow> scan_string (concat (map (js_escape st) t) @ CHR 0x22 # r) = Some (t, r)"
proof (induction t)
  case Nil
  then show ?case by simp
next
  case (Cons c t)
  then show ?case by (simp add: style_ok_def del: scan_string.simps)
qed

text \<open>What may follow a number.\<close>

definition stops :: "string \<Rightarrow> bool" where
  "stops s \<longleftrightarrow> (case s of [] \<Rightarrow> True | c # _ \<Rightarrow> c \<in> {CHR '','', CHR '']'', CHR ''}''})"

lemma stops_simps [simp]: "stops []" "stops (CHR '','' # s)" "stops (CHR '']'' # s)" "stops (CHR ''}'' # s)"
  by (simp_all add: stops_def)

lemma stops_hd: "stops (c # s) \<Longrightarrow> \<not> is_dig c \<and> c \<noteq> CHR ''.'' \<and> c \<noteq> CHR ''e'' \<and> c \<noteq> CHR ''E'' \<and> c \<noteq> CHR ''+'' \<and> c \<noteq> CHR ''-''"
  by (auto simp: stops_def is_dig_def digit_val_def)

lemma dig_while_stop:
  assumes "stops rest"
  shows "takeWhile is_dig (s @ rest) = takeWhile is_dig s" and "dropWhile is_dig (s @ rest) = dropWhile is_dig s @ rest"
  using assms stops_hd by (induction s) (cases rest; auto)+

lemma int_part_stop: "stops rest \<Longrightarrow> int_part s = Some (w, r) \<Longrightarrow> int_part (s @ rest) = Some (w, r @ rest)"
  by (cases s) (auto simp: int_part_def dig_while_stop split: if_splits)

lemma frac_part_stop:
  assumes "stops rest"
  shows "frac_part (s @ rest) = (case frac_part s of (f, r) \<Rightarrow> (f, r @ rest))"
proof (cases s rule: scan_string.cases)
  case 1
  then show ?thesis using assms stops_hd by (cases rest) (auto simp: frac_part_def split: list.split)
next
  case (2 c t)
  show ?thesis
  proof (cases t)
    case Nil
    then show ?thesis using 2 assms stops_hd by (cases rest) (auto simp: frac_part_def split: list.split)
  next
    case (Cons d u)
    then show ?thesis using 2 dig_while_stop [OF assms, of "d # u"] by (auto simp: frac_part_def)
  qed
qed

lemma exp_part_stop:
  assumes "stops rest"
  shows "exp_part (s @ rest) = (case exp_part s of (f, r) \<Rightarrow> (f, r @ rest))"
proof (cases s)
  case Nil
  then show ?thesis using assms stops_hd by (cases rest) (auto simp: exp_part_def)
next
  case (Cons c t)
  have dr: "takeWhile is_dig rest = []" "dropWhile is_dig rest = rest" using dig_while_stop [OF assms, of "[]"] by simp_all
  show ?thesis
  proof (cases t)
    case Nil
    then show ?thesis using Cons assms stops_hd dr by (cases rest) (auto simp: exp_part_def Let_def)
  next
    case (Cons x u)
    then show ?thesis using \<open>s = c # t\<close> dig_while_stop [OF assms, of u] dig_while_stop [OF assms, of "x # u"]
      by (auto simp: exp_part_def Let_def)
  qed
qed

lemma starts_with_iff: "starts_with p s \<longleftrightarrow> (\<exists>u. s = p @ u)"
  unfolding starts_with_def by (metis append_eq_conv_conj append_take_drop_id)

lemma scan_number_head:
  assumes "scan_number s = Some x"
  shows "(\<exists>c t. s = c # t \<and> is_dig c) \<or> (\<exists>c t. s = CHR ''-'' # c # t \<and> is_dig c)"
proof -
  have i: "int_part t = Some y \<Longrightarrow> \<exists>c u. t = c # u \<and> is_dig c" for t y
    by (auto simp: int_part_def is_dig_def digit_val_def split: list.splits if_splits)
  show ?thesis
  proof (cases s)
    case Nil
    then show ?thesis using assms by (simp add: scan_number_def int_part_def)
  next
    case (Cons c t)
    then show ?thesis using assms i [of t] i [of "c # t"] by (fastforce simp: scan_number_def Let_def split: option.splits if_splits)
  qed
qed

lemma scan_number_stop:
  assumes "stops rest" and "scan_number s = Some (j, r)"
  shows "scan_number (s @ rest) = Some (j, r @ rest)"
proof -
  let ?neg = "case s of c # _ \<Rightarrow> c = CHR ''-'' | [] \<Rightarrow> False"
  let ?sgn = "if ?neg then ''-'' else []"
  from scan_number_head [OF assms(2)] have ne: "s \<noteq> []" "length ?sgn \<le> length s" by auto
  have neg: "(case s @ rest of c # _ \<Rightarrow> c = CHR ''-'' | [] \<Rightarrow> False) = ?neg" using ne(1) by (cases s) simp_all
  from assms(2) obtain w r0 where w: "int_part (drop (length ?sgn) s) = Some (w, r0)"
    by (auto simp: scan_number_def Let_def split: option.splits)
  obtain f r1 where f: "frac_part r0 = (f, r1)" by (cases "frac_part r0")
  obtain e r2 where e: "exp_part r1 = (e, r2)" by (cases "exp_part r1")
  have "int_part (drop (length ?sgn) (s @ rest)) = Some (w, r0 @ rest)" using int_part_stop [OF assms(1) w] ne(2) by simp
  moreover have "frac_part (r0 @ rest) = (f, r1 @ rest)" using frac_part_stop [OF assms(1), of r0] f by simp
  moreover have "exp_part (r1 @ rest) = (e, r2 @ rest)" using exp_part_stop [OF assms(1), of r1] e by simp
  ultimately show ?thesis using assms(2) w f e unfolding scan_number_def neg Let_def by (auto split: if_splits)
qed

lemma scan_words:
  "scan_literal (''null'' @ u) = Some (JNull, u)" "scan_literal (''true'' @ u) = Some (JBool True, u)"
  "scan_literal (''false'' @ u) = Some (JBool False, u)" "scan_literal (''NaN'' @ u) = Some (JFloat ''NaN'', u)"
  "scan_literal (''Infinity'' @ u) = Some (JFloat ''Infinity'', u)" "scan_literal (''-Infinity'' @ u) = Some (JFloat ''-Infinity'', u)"
  by (simp_all add: scan_literal_def starts_with_def)

lemma no_words:
  assumes "scan_number s = Some x"
  shows "scan_literal s = Some x" and "scan_literal (s @ rest) = scan_number (s @ rest)"
proof -
  have "\<not> starts_with p (s @ t)" if "p \<in> {''null'', ''true'', ''false'', ''NaN'', ''Infinity'', ''-Infinity''}" for p t
  proof -
    consider c u where "s = c # u" "is_dig c" | c u where "s = CHR ''-'' # c # u" "is_dig c" using scan_number_head [OF assms] by blast
    then show ?thesis using that by cases (auto simp: starts_with_def is_dig_def digit_val_def)
  qed
  note no = this [of _ "[]", simplified append_Nil2] this [of _ rest]
  show "scan_literal s = Some x" "scan_literal (s @ rest) = scan_number (s @ rest)" using no assms by (simp_all add: scan_literal_def)
qed

lemma scan_literal_cases:
  assumes "scan_literal s = Some x"
  obtains (word) p where "p \<in> {''null'', ''true'', ''false'', ''NaN'', ''Infinity'', ''-Infinity''}" "starts_with p s"
  | (number) "scan_number s = Some x"
  using assms unfolding scan_literal_def by (metis insertCI)

lemma scan_literal_stop:
  assumes "stops rest" and "scan_literal s = Some (j, r)"
  shows "scan_literal (s @ rest) = Some (j, r @ rest)"
  using assms(2)
proof (cases rule: scan_literal_cases)
  case (word p)
  then obtain u where u: "s = p @ u" by (auto simp: starts_with_iff)
  have "scan_literal (p @ u @ rest) = map_option (\<lambda>(j, r). (j, r @ rest)) (scan_literal (p @ u))"
    using word(1) by (elim insertE emptyE) (simp_all only: scan_words, simp_all)
  then show ?thesis using u assms(2) by simp
next
  case number
  then show ?thesis using no_words [OF number] scan_number_stop [OF assms(1) number] by simp
qed

lemma scan_literal_head:
  assumes "scan_literal s = Some x"
  shows "\<exists>c t. s = c # t \<and> c \<noteq> CHR 0x22 \<and> c \<noteq> CHR ''['' \<and> c \<noteq> CHR ''{'' \<and> c \<noteq> CHR '']'' \<and> \<not> is_ws c"
  using assms
proof (cases rule: scan_literal_cases)
  case (word p)
  then show ?thesis by (auto simp: starts_with_iff is_ws_def)
next
  case number
  have "is_dig c \<Longrightarrow> c \<noteq> CHR 0x22 \<and> c \<noteq> CHR ''['' \<and> c \<noteq> CHR ''{'' \<and> c \<noteq> CHR '']'' \<and> \<not> is_ws c" for c
    by (auto simp: is_dig_def digit_val_def is_ws_def)
  then show ?thesis using scan_number_head [OF number] by (auto simp: is_ws_def)
qed

lemma dec_int_scans: "scan_literal (dec_int i) = Some (JInt i, [])"
proof -
  have d: "takeWhile is_dig (dec n) = dec n" "dropWhile is_dig (dec n) = []" for n
    using dec_digits [of n] by (auto simp: takeWhile_eq_all_conv dropWhile_eq_Nil_conv list_all_iff is_dig_def)
  have i: "int_part (dec n) = Some (dec n, [])" for n
  proof (cases "n = 0")
    case True
    then show ?thesis by (simp add: int_part_def dec.simps is_dig_def digit_val_def)
  next
    case False
    obtain c t where c: "dec n = c # t" using dec_not_Nil [of n] by (cases "dec n") auto
    have "is_dig c" using dec_digits [of n] c by (simp add: is_dig_def)
    moreover have "c \<noteq> CHR ''0''" using dec_no_leading_zero [of n] False c by simp
    ultimately show ?thesis using c d [of n] by (simp add: int_part_def)
  qed
  have v: "digits_int (dec n) = int n" for n by (simp add: digits_int_def digits_val_dec)
  have h: "(case dec n of c # _ \<Rightarrow> c = CHR ''-'' | [] \<Rightarrow> False) = False" for n
    using dec_digits [of n] by (cases "dec n") (auto simp: digit_val_def)
  have "scan_number (dec_int i) = Some (JInt i, [])"
    by (simp add: scan_number_def dec_int_def Let_def h i v frac_part_def exp_part_def)
  then show ?thesis by (rule no_words)
qed

definition is_ascii :: "string \<Rightarrow> bool" where
  "is_ascii s \<longleftrightarrow> list_all (\<lambda>c. (of_char c :: nat) < 128) s"

lemma is_ascii_simps [simp]: "is_ascii []" "is_ascii (c # s) \<longleftrightarrow> (of_char c :: nat) < 128 \<and> is_ascii s"
  "is_ascii (s @ t) \<longleftrightarrow> is_ascii s \<and> is_ascii t"
  by (simp_all add: is_ascii_def)

fun wf_json :: "json \<Rightarrow> bool" and wf_items :: "json list \<Rightarrow> bool" and wf_pairs :: "(string \<times> json) list \<Rightarrow> bool" where
  "wf_json (JFloat l) \<longleftrightarrow> scan_literal l = Some (JFloat l, []) \<and> is_ascii l"
| "wf_json (JList xs) \<longleftrightarrow> wf_items xs"
| "wf_json (JObj d) \<longleftrightarrow> distinct (dkeys d) \<and> wf_pairs d"
| "wf_json _ \<longleftrightarrow> True"
| "wf_items [] \<longleftrightarrow> True"
| "wf_items (x # xs) \<longleftrightarrow> wf_json x \<and> wf_items xs"
| "wf_pairs [] \<longleftrightarrow> True"
| "wf_pairs ((k, x) # d) \<longleftrightarrow> wf_json x \<and> wf_pairs d"

fun is_scalar :: "json \<Rightarrow> bool" where
  "is_scalar JNull \<longleftrightarrow> True"
| "is_scalar (JBool b) \<longleftrightarrow> True"
| "is_scalar (JInt i) \<longleftrightarrow> True"
| "is_scalar (JFloat l) \<longleftrightarrow> True"
| "is_scalar _ \<longleftrightarrow> False"

lemma scalar_scans: "is_scalar j \<Longrightarrow> wf_json j \<Longrightarrow> scan_literal (print_json st j) = Some (j, [])"
  using scan_words [of "[]"] by (cases j) (auto simp: dec_int_scans)

lemma printed_head: "wf_json j \<Longrightarrow> \<exists>c t. print_json st j = c # t \<and> c \<noteq> CHR '']'' \<and> \<not> is_ws c"
proof (cases "is_scalar j")
  case True
  then show "wf_json j \<Longrightarrow> ?thesis" using scalar_scans [OF True] scan_literal_head by blast
next
  case False
  then show ?thesis by (cases j) (auto simp: print_string_def is_ws_def)
qed

lemma skip_printed: "wf_json j \<Longrightarrow> skip (print_json st j @ s) = print_json st j @ s"
  using printed_head [of j st] by (auto simp: skip_def)

lemma skip_simps [simp]:
  "skip (CHR '' '' # s) = skip s" "skip (CHR '','' # s) = CHR '','' # s" "skip (CHR '']'' # s) = CHR '']'' # s"
  "skip (CHR ''}'' # s) = CHR ''}'' # s" "skip (CHR '':'' # s) = CHR '':'' # s" "skip (CHR 0x22 # s) = CHR 0x22 # s" "skip [] = []"
  by (simp_all add: skip_def is_ws_def)

lemma scalar_value:
  assumes "is_scalar j" and "wf_json j" and "stops rest" and "length (print_json st j) < n"
  shows "scan_value n (print_json st j @ rest) = Some (j, rest)"
proof -
  have "scan_literal (print_json st j @ rest) = Some (j, rest)" using scan_literal_stop [OF assms(3) scalar_scans [OF assms(1,2)]] by simp
  moreover obtain c t where "print_json st j @ rest = c # t" "c \<noteq> CHR 0x22" "c \<noteq> CHR ''[''" "c \<noteq> CHR ''{''"
    using scan_literal_head [OF calculation] by blast
  ultimately show ?thesis using assms(4) by (cases n) simp_all
qed

lemma fold_dset_self: "distinct (dkeys d) \<Longrightarrow> fold (\<lambda>(k, v). dset k v) d [] = d"
proof -
  have n: "k \<notin> set (dkeys e) \<Longrightarrow> dset k v e = e @ [(k, v)]" for k v and e :: "('a, 'b) dict"
    by (induction e) (auto simp: dkeys_def)
  have "distinct (dkeys (e @ d)) \<Longrightarrow> fold (\<lambda>(k, v). dset k v) d e = e @ d" for e
    by (induction d arbitrary: e) (auto simp: dkeys_def n)
  from this [of "[]"] show "distinct (dkeys d) \<Longrightarrow> ?thesis" by simp
qed

lemma list_opens: "wf_items (x # xs) \<Longrightarrow> \<exists>c t. print_items st (x # xs) @ s = c # t \<and> c \<noteq> CHR '']'' \<and> skip (c # t) = c # t"
proof -
  assume "wf_items (x # xs)"
  then obtain c t where "print_json st x = c # t" "c \<noteq> CHR '']''" "\<not> is_ws c" using printed_head [of x st] by auto
  then show ?thesis by (cases xs) (simp_all add: skip_def)
qed

lemma pairs_open: "\<exists>t. print_pairs st ((k, x) # d) @ s = CHR 0x22 # t"
  by (cases d) (auto simp: print_string_def)

lemma style_separators:
  assumes "style_ok st"
  shows "\<exists>w. js_item st = CHR '','' # w \<and> (\<forall>s. skip (w @ s) = skip s)" and "\<exists>w. js_key st = CHR '':'' # w \<and> (\<forall>s. skip (w @ s) = skip s)"
  using assms by (auto simp: style_ok_def)

lemma printed_scan:
  shows "style_ok st \<Longrightarrow> wf_json j \<Longrightarrow> stops rest \<Longrightarrow> length (print_json st j) < n \<Longrightarrow>
      scan_value n (print_json st j @ rest) = Some (j, rest)"
    and "style_ok st \<Longrightarrow> xs \<noteq> [] \<Longrightarrow> wf_items xs \<Longrightarrow> length (print_items st xs) + 1 < n \<Longrightarrow>
      scan_items n (print_items st xs @ CHR '']'' # rest) = Some (xs, rest)"
    and "style_ok st \<Longrightarrow> d \<noteq> [] \<Longrightarrow> wf_pairs d \<Longrightarrow> length (print_pairs st d) + 1 < n \<Longrightarrow>
      scan_pairs n (print_pairs st d @ CHR ''}'' # rest) = Some (d, rest)"
proof (induction st j and st xs and st d arbitrary: n rest and n rest and n rest rule: print_json_print_items_print_pairs.induct)
  case (5 st s)
  then show ?case by (cases n) (auto simp: print_string_def scan_printed)
next
  case (6 st xs)
  then obtain m where n: "n = Suc m" by (cases n) auto
  show ?case
  proof (cases xs)
    case Nil
    then show ?thesis by (simp add: n)
  next
    case (Cons x ys)
    obtain c t where c: "print_items st xs @ CHR '']'' # rest = c # t" "c \<noteq> CHR '']''" "skip (c # t) = c # t"
      using list_opens 6 Cons by (metis wf_json.simps(2))
    have "scan_items m (print_items st xs @ CHR '']'' # rest) = Some (xs, rest)" using 6 Cons by (intro 6(1)) (simp_all add: n)
    then have "scan_items m (c # t) = Some (xs, rest)" by (simp only: c(1))
    then show ?thesis using c by (simp add: n)
  qed
next
  case (7 st d)
  then obtain m where n: "n = Suc m" by (cases n) auto
  show ?case
  proof (cases d)
    case Nil
    then show ?thesis by (simp add: n)
  next
    case (Cons p e)
    obtain t where t: "print_pairs st d @ CHR ''}'' # rest = CHR 0x22 # t" using pairs_open Cons by (metis prod.exhaust)
    have "scan_pairs m (print_pairs st d @ CHR ''}'' # rest) = Some (d, rest)" using 7 Cons by (intro 7(1)) (simp_all add: n)
    then have "scan_pairs m (CHR 0x22 # t) = Some (d, rest)" by (simp only: t)
    then show ?thesis using t 7(3) fold_dset_self [of d] by (simp add: n)
  qed
next
  case (9 st x)
  then obtain m where n: "n = Suc m" by (cases n) auto
  have "scan_value m (print_json st x @ CHR '']'' # rest) = Some (x, CHR '']'' # rest)" using 9 n by simp
  then show ?case by (simp add: n)
next
  case (10 st x y xs)
  then obtain m where n: "n = Suc m" by (cases n) auto
  obtain w where w: "js_item st = CHR '','' # w" "\<And>s. skip (w @ s) = skip s" using style_separators 10(3) by blast
  have "scan_value m (print_json st x @ CHR '','' # w @ print_items st (y # xs) @ CHR '']'' # rest) =
      Some (x, CHR '','' # w @ print_items st (y # xs) @ CHR '']'' # rest)"
    using 10 n by simp
  moreover have "scan_items m (print_items st (y # xs) @ CHR '']'' # rest) = Some (y # xs, rest)" using 10 n w(1) by simp
  moreover have "skip (print_items st (y # xs) @ CHR '']'' # rest) = print_items st (y # xs) @ CHR '']'' # rest"
    using list_opens [of y xs st "CHR '']'' # rest"] 10(5) by auto
  ultimately show ?case using w by (simp add: n)
next
  case (12 st k x)
  then obtain m where n: "n = Suc m" by (cases n) auto
  obtain w where w: "js_key st = CHR '':'' # w" "\<And>s. skip (w @ s) = skip s" using style_separators 12(2) by blast
  have "scan_value m (print_json st x @ CHR ''}'' # rest) = Some (x, CHR ''}'' # rest)" using 12 n by (simp add: print_string_def)
  then show ?case using 12 skip_printed w scan_printed [OF 12(2)] by (simp add: n print_string_def)
next
  case (13 st k x y d)
  then obtain m where n: "n = Suc m" by (cases n) auto
  obtain v where v: "js_key st = CHR '':'' # v" "\<And>s. skip (v @ s) = skip s" using style_separators 13(3) by blast
  obtain w where w: "js_item st = CHR '','' # w" "\<And>s. skip (w @ s) = skip s" using style_separators 13(3) by blast
  have "scan_value m (print_json st x @ CHR '','' # w @ print_pairs st (y # d) @ CHR ''}'' # rest) =
      Some (x, CHR '','' # w @ print_pairs st (y # d) @ CHR ''}'' # rest)"
    using 13 n by (simp add: print_string_def)
  moreover have "scan_pairs m (print_pairs st (y # d) @ CHR ''}'' # rest) = Some (y # d, rest)" using 13 n w(1) by (simp add: print_string_def)
  moreover obtain t where "print_pairs st (y # d) @ CHR ''}'' # rest = CHR 0x22 # t" using pairs_open by (metis prod.exhaust)
  ultimately show ?case using 13(4,5) skip_printed v w scan_printed [OF 13(3)] by (simp add: n print_string_def)
qed ((rule scalar_value; simp)+, simp_all)

text \<open>What is printed reads back: \<open>loads(dumps(x)) == x\<close> for every value whose floats are literals and
  whose dictionaries have distinct keys.\<close>

lemma print_loads:
  assumes "style_ok st" and "wf_json j"
  shows "loads (print_json st j) = Inr j"
proof -
  have "scan_value (Suc (length (print_json st j))) (print_json st j) = Some (j, [])"
    using printed_scan(1) [OF assms, of "[]" "Suc (length (print_json st j))"] by (simp del: scan_value.simps)
  then show ?thesis using skip_printed [OF assms(2), of st "[]"] by (simp add: loads_def del: scan_value.simps)
qed

lemma json_roundtrip: "wf_json j \<Longrightarrow> loads (dumps j) = Inr j"
  by (simp add: dumps_def print_loads default_style_ok)

text \<open>Everything printed is ASCII.\<close>

lemma lower_hex_digit: "i < 16 \<Longrightarrow> (of_char (lower_char (hex_digit i)) :: nat) < 128"
proof -
  assume "i < 16"
  then have "lower_char (hex_digit i) \<in> set (map (\<lambda>i. lower_char (hex_digit i)) [0..<16])" by (simp del: upt_rec_numeral)
  then have "lower_char (hex_digit i) \<in> set ''0123456789abcdef''" by (simp only: lower_hex_digits)
  moreover have "list_all (\<lambda>c. (of_char c :: nat) < 128) ''0123456789abcdef''" by simp
  ultimately show ?thesis by (simp only: list_all_iff)
qed

lemma dec_ascii: "is_ascii (dec n)"
proof -
  have "digit_val c \<noteq> None \<Longrightarrow> (of_char c :: nat) < 128" for c by (auto simp: digit_val_def Let_def split: if_splits)
  then show ?thesis using dec_digits [of n] by (auto simp: is_ascii_def list_all_iff)
qed

lemma escape_ascii: "is_ascii (escape_char c)"
proof -
  have "(of_char c :: nat) < 256" by simp
  then have "(of_char c :: nat) div 16 < 16" "(of_char c :: nat) mod 16 < 16" by (simp_all add: div_less_iff_less_mult)
  then show ?thesis by (auto simp: escape_char_def hex4_def lower_hex_digit)
qed

lemma print_string_ascii: "is_ascii (print_string default_style s)"
  by (induction s) (auto simp: print_string_def default_style_def escape_ascii)

lemma print_ascii:
  shows "st = default_style \<Longrightarrow> wf_json j \<Longrightarrow> is_ascii (print_json st j)"
    and "st = default_style \<Longrightarrow> wf_items xs \<Longrightarrow> is_ascii (print_items st xs)"
    and "st = default_style \<Longrightarrow> wf_pairs d \<Longrightarrow> is_ascii (print_pairs st d)"
proof (induction st j and st xs and st d rule: print_json_print_items_print_pairs.induct)
qed (simp_all add: print_string_ascii dec_int_def dec_ascii, simp_all add: default_style_def)

lemma dumps_ascii: "wf_json j \<Longrightarrow> is_ascii (dumps j)"
  by (simp add: dumps_def print_ascii(1) [OF refl])

subsection \<open>Bytes of a text\<close>

definition utf8 :: "char \<Rightarrow> bytes" where  \<comment> \<open>of a character up to U+00FF\<close>
  "utf8 c = (let n = (of_char c :: nat) in if n < 128 then [word_of_nat n] else [word_of_nat (192 + n div 64), word_of_nat (128 + n mod 64)])"

definition bytes_of_text :: "string \<Rightarrow> bytes" where
  "bytes_of_text s = concat (map utf8 s)"

text \<open>Decoding; what is not the encoding of characters up to U+00FF is refused.\<close>

fun utf8_decode :: "bytes \<Rightarrow> string res" where
  "utf8_decode [] = Inr []"
| "utf8_decode (b # bs) =
     (if unat b < 128 then bind_res (utf8_decode bs) (\<lambda>s. Inr (char_of (unat b) # s))
      else case bs of
             [] \<Rightarrow> Inl ValueError
           | c # bs' \<Rightarrow>
               (if (unat b = 194 \<or> unat b = 195) \<and> 128 \<le> unat c \<and> unat c < 192
                then bind_res (utf8_decode bs') (\<lambda>s. Inr (char_of ((unat b - 192) * 64 + (unat c - 128)) # s))
                else Inl ValueError))"

definition text_of_bytes :: "bytes \<Rightarrow> string res" where
  "text_of_bytes = utf8_decode"

lemma utf8_decode_char: "utf8_decode (utf8 c @ bs) = bind_res (utf8_decode bs) (\<lambda>s. Inr (c # s))"
proof (cases "(of_char c :: nat) < 128")
  case True
  then have "unat (word_of_nat (of_char c) :: byte) = of_char c" by (simp add: unat_of_nat)
  then show ?thesis using True by (simp add: utf8_def)
next
  case False
  let ?n = "of_char c :: nat"
  have n: "?n < 256" by simp
  then have q: "?n div 64 = 2 \<or> ?n div 64 = 3" using False by linarith
  have u: "unat (word_of_nat (192 + ?n div 64) :: byte) = 192 + ?n div 64" "unat (word_of_nat (128 + ?n mod 64) :: byte) = 128 + ?n mod 64"

  proof -
    have w: "k < 256 \<Longrightarrow> unat (word_of_nat k :: byte) = k" for k by (simp add: unat_of_nat)
    show "unat (word_of_nat (192 + ?n div 64) :: byte) = 192 + ?n div 64" using q by (intro w) auto
    show "unat (word_of_nat (128 + ?n mod 64) :: byte) = 128 + ?n mod 64" by (rule w) (use mod_less_divisor [of 64 ?n] in linarith)
  qed
  have "char_of (?n div 64 * 64 + ?n mod 64) = c" by (simp only: div_mult_mod_eq char_of_char)
  then show ?thesis using False q u by (auto simp: utf8_def Let_def simp del: of_nat_add)
qed

lemma text_roundtrip: "text_of_bytes (bytes_of_text s) = Inr s"
  by (induction s) (simp_all add: text_of_bytes_def bytes_of_text_def utf8_decode_char del: utf8_decode.simps, simp)

subsection \<open>One line\<close>

text \<open>Nothing printed contains a line break.\<close>

definition one_line :: "string \<Rightarrow> bool" where
  "one_line s \<longleftrightarrow> CHR 0x0A \<notin> set s"

lemma one_line_simps [simp]: "one_line []" "one_line (c # s) \<longleftrightarrow> c \<noteq> CHR 0x0A \<and> one_line s" "one_line (s @ t) \<longleftrightarrow> one_line s \<and> one_line t"
  by (auto simp: one_line_def)

lemma newline_not_dig [simp]: "\<not> is_dig (CHR 0x0A)"
  by (simp add: is_dig_def digit_val_def)

lemma digits_one_line [simp]: "one_line (takeWhile is_dig s)"
  by (auto simp: one_line_def is_dig_def digit_val_def dest!: set_takeWhileD)

lemma literal_one_line:
  assumes "scan_literal s = Some (JFloat l, r)"
  shows "one_line l"
  using assms
proof (cases rule: scan_literal_cases)
  case (word p)
  then obtain u where "s = p @ u" by (auto simp: starts_with_iff)
  then show ?thesis using word(1) assms by (elim insertE emptyE) (simp_all only: scan_words option.inject prod.inject json.inject json.distinct, auto)
next
  case number
  have i: "int_part t = Some (w, q) \<Longrightarrow> one_line w" for t w q
    by (auto simp: int_part_def is_dig_def digit_val_def split: list.splits if_splits)
  have f: "frac_part t = (w, q) \<Longrightarrow> one_line w" for t w q
    by (auto simp: frac_part_def split: list.splits if_splits)
  have e: "exp_part t = (w, q) \<Longrightarrow> one_line w" for t w q
    by (auto simp: exp_part_def Let_def split: list.splits if_splits)
  from number show ?thesis
    by (auto simp: scan_number_def Let_def split: option.splits prod.splits if_splits dest: i f e)
qed

lemma dec_one_line: "one_line (dec n)"
  using dec_digits [of n] by (auto simp: one_line_def list_all_iff digit_val_def)

lemma escape_one_line: "one_line (escape_char c)"
proof -
  have h: "lower_char (hex_digit i) \<noteq> CHR 0x0A" if "i < 16" for i
    using nibble_val_digit [OF that] by (auto simp: nibble_val_def)
  have "(of_char c :: nat) < 256" by simp
  then have "(of_char c :: nat) div 16 < 16" "(of_char c :: nat) mod 16 < 16" by (simp_all add: div_less_iff_less_mult)
  then show ?thesis using h by (auto simp: escape_char_def hex4_def)
qed

lemma print_string_one_line: "one_line (print_string compact_style s)"
proof -
  have "one_line (escape_min c)" for c using escape_one_line [of c] by (auto simp: escape_min_def)
  then show ?thesis by (induction s) (auto simp: print_string_def compact_style_def)
qed

lemma print_one_line:
  shows "st = compact_style \<Longrightarrow> wf_json j \<Longrightarrow> one_line (print_json st j)"
    and "st = compact_style \<Longrightarrow> wf_items xs \<Longrightarrow> one_line (print_items st xs)"
    and "st = compact_style \<Longrightarrow> wf_pairs d \<Longrightarrow> one_line (print_pairs st d)"
proof (induction st j and st xs and st d rule: print_json_print_items_print_pairs.induct)
  case (4 st l)
  then show ?case using literal_one_line by auto
qed (simp_all add: print_string_one_line dec_int_def dec_one_line, simp_all add: compact_style_def)

end
