(* ===== verification/Uart.thy ===== *)
theory Uart
  imports Frame Hex Json
begin

section \<open>The dongle protocol of the gateway (\<open>gateway/uart_protocol.py\<close>)\<close>

text \<open>
  The gateway plays the dongle on the appliance's serial bus: it discovers the appliance, asks for its
  model, announces the network and then runs, forwarding every frame to the clients, answering the
  appliance's own queries, sending what clients queue, and starting over when the appliance asks for
  it or falls silent.  What is sent is recorded so that a received frame can be annotated with the
  transmission it probably answers.

  The serial line is an argument: the bytes or frames that arrive, with the monotonic time at which
  the code reads the clock.  What is written to the line and what is forwarded are logs in the state.
  An operation that raises (out of \<open>run\<close>) is \<open>Inl\<close>.

  Lemmas: framing after noise, the protocol's invariant, which includes that no operation raises on a
  valid configuration, the queue, the map of outstanding transmissions.
\<close>

subsection \<open>State\<close>

datatype protocol_state = Discover | Model | Announce | Running

record uart_config =
  uc_fake_ip :: ip
  uc_signal_level :: int
  uc_mirror_gateway :: bool
  uc_mirror_all :: bool
  uc_max_queue :: int

record transmission =
  tr_origin :: "string option"
  tr_req_id :: "json option"
  tr_ts :: rat
  tr_seq :: int

datatype confidence = Confirmed | Heuristic

record reply =
  rp_req_id :: "json option"
  rp_origin :: "string option"
  rp_confidence :: confidence

datatype direction = Rx_frame | Tx_frame

record frame_meta =
  fm_msg_id :: "int option"
  fm_tx_seq :: "int option"
  fm_origin :: "string option"
  fm_req_id :: "json option"
  fm_reply_to :: "reply option"

record uart =
  ua_config :: uart_config
  ua_state :: protocol_state
  ua_appliance :: int
  ua_proto :: int
  ua_sub :: int
  ua_model :: int
  ua_serial_number :: string
  ua_silence_timer :: rat
  ua_msg_counter :: int
  ua_queue :: "(bytes \<times> string \<times> json option) list"
  ua_outstanding :: "(int, transmission) dict"
  ua_tx_seq :: int
  ua_has_client :: bool  \<comment> \<open>\<open>_on_frame\<close> is set\<close>
  ua_written :: "bytes list"
  ua_forwarded :: "(bytes \<times> direction \<times> frame_meta) list"

definition new_uart :: "uart_config \<Rightarrow> bool \<Rightarrow> uart" where
  "new_uart config has_client =
     \<lparr>ua_config = config, ua_state = Discover, ua_appliance = 0xFF, ua_proto = 0, ua_sub = 0, ua_model = 0,
      ua_serial_number = [], ua_silence_timer = 0, ua_msg_counter = 0, ua_queue = [], ua_outstanding = [],
      ua_tx_seq = 0, ua_has_client = has_client, ua_written = [], ua_forwarded = []\<rparr>"

definition SILENCE_TIMEOUT :: rat where "SILENCE_TIMEOUT = 120"
definition CORRELATION_TTL :: rat where "CORRELATION_TTL = 2"
definition HEURISTIC_WINDOW :: rat where "HEURISTIC_WINDOW = 1/2"

definition VERSION_INFO_MSGS :: "int list" where "VERSION_INFO_MSGS = [0x13, 0x87]"
definition AC_QUERY_RESPOND :: "int list" where "AC_QUERY_RESPOND = [0x13, 0x63, 0x87]"
definition REHANDSHAKE_MSGS :: "int list" where "REHANDSHAKE_MSGS = [0x82, 0x83]"
definition IGNORE_MSGS :: "int list" where "IGNORE_MSGS = [0x61]"

subsection \<open>Correlation\<close>

definition next_seq :: "uart \<Rightarrow> int \<times> uart" where
  "next_seq u = (let n = (ua_msg_counter u + 1) AND 0xFF in (n, u\<lparr>ua_msg_counter := n\<rparr>))"

definition record_outstanding_tx :: "rat \<Rightarrow> int \<Rightarrow> string option \<Rightarrow> json option \<Rightarrow> int \<Rightarrow> uart \<Rightarrow> uart" where
  "record_outstanding_tx now msg_id origin req_id tx_seq u =
     (let live = dropWhile (\<lambda>(_, tr). now - tr_ts tr > CORRELATION_TTL) (ua_outstanding u)
      in u\<lparr>ua_outstanding := dset msg_id \<lparr>tr_origin = origin, tr_req_id = req_id, tr_ts = now, tr_seq = tx_seq\<rparr> live\<rparr>)"

definition reply_of :: "confidence \<Rightarrow> transmission \<Rightarrow> reply" where
  "reply_of c tr = \<lparr>rp_req_id = tr_req_id tr, rp_origin = tr_origin tr, rp_confidence = c\<rparr>"

definition correlate_rx :: "rat \<Rightarrow> int \<Rightarrow> uart \<Rightarrow> reply option \<times> uart" where
  "correlate_rx now msg_id u =
     (let out = ua_outstanding u
      in case dget out msg_id of
           Some tr \<Rightarrow> (Some (reply_of Confirmed tr), u\<lparr>ua_outstanding := filter (\<lambda>(k, _). k \<noteq> msg_id) out\<rparr>)
         | None \<Rightarrow>
             (if out \<noteq> [] \<and> now - tr_ts (snd (last out)) \<le> HEURISTIC_WINDOW
              then (Some (reply_of Heuristic (snd (last out))), u\<lparr>ua_outstanding := butlast out\<rparr>)
              else (None, u)))"

definition record_tx_for_correlation :: "rat \<Rightarrow> bytes \<Rightarrow> string option \<Rightarrow> json option \<Rightarrow> uart \<Rightarrow> uart" where
  "record_tx_for_correlation now frame origin req_id u =
     (case extract_msg_id frame of
        None \<Rightarrow> u
      | Some msg_id \<Rightarrow>
          record_outstanding_tx now msg_id origin req_id (ua_tx_seq u + 1) (u\<lparr>ua_tx_seq := ua_tx_seq u + 1\<rparr>))"

definition forward_to_client :: "rat \<Rightarrow> bytes \<Rightarrow> direction \<Rightarrow> string option \<Rightarrow> json option \<Rightarrow> uart \<Rightarrow> uart" where
  "forward_to_client now raw direction origin req_id u =
     (if \<not> ua_has_client u then u
      else let msg_id = extract_msg_id raw
           in case direction of
                Tx_frame \<Rightarrow>
                  (let seq = ua_tx_seq u + 1;
                       u = u\<lparr>ua_tx_seq := seq\<rparr>;
                       u = (case msg_id of None \<Rightarrow> u | Some i \<Rightarrow> record_outstanding_tx now i origin req_id seq u);
                       meta = \<lparr>fm_msg_id = msg_id, fm_tx_seq = Some seq, fm_origin = origin, fm_req_id = req_id, fm_reply_to = None\<rparr>
                   in u\<lparr>ua_forwarded := ua_forwarded u @ [(raw, Tx_frame, meta)]\<rparr>)
              | Rx_frame \<Rightarrow>
                  (case (case msg_id of None \<Rightarrow> (None, u) | Some i \<Rightarrow> correlate_rx now i u) of
                     (reply_to, u) \<Rightarrow>
                       (let meta = \<lparr>fm_msg_id = msg_id, fm_tx_seq = None, fm_origin = None, fm_req_id = None, fm_reply_to = reply_to\<rparr>
                        in u\<lparr>ua_forwarded := ua_forwarded u @ [(raw, Rx_frame, meta)]\<rparr>)))"

definition send_frame :: "rat \<Rightarrow> bytes \<Rightarrow> string \<Rightarrow> uart \<Rightarrow> uart" where  \<comment> \<open>\<open>_send\<close> with \<open>mirror=True\<close>\<close>
  "send_frame now frame origin u =
     (let u = u\<lparr>ua_written := ua_written u @ [frame]\<rparr>
      in if uc_mirror_gateway (ua_config u) then forward_to_client now frame Tx_frame (Some origin) None u
         else record_tx_for_correlation now frame (Some origin) None u)"

subsection \<open>Reading the line\<close>

text \<open>The bytes on the line until it is closed or the read times out; the frame and what is left.\<close>

fun read_one_frame :: "bytes \<Rightarrow> bytes option \<times> bytes" where
  "read_one_frame [] = (None, [])"
| "read_one_frame [b] = (None, [])"
| "read_one_frame (b # len # rest) =
     (if b \<noteq> 0xAA then read_one_frame (len # rest)
      else let remaining = int (unat len) - 1
           in if remaining < 0 \<or> remaining > 250 then read_one_frame rest
              else if length rest < nat remaining then (None, rest)
              else (Some ([0xAA, len] @ take (nat remaining) rest), drop (nat remaining) rest))"

subsection \<open>Answering the appliance\<close>

definition handle_ac_query :: "rat \<Rightarrow> parsed_frame \<Rightarrow> uart \<Rightarrow> uart res" where
  "handle_ac_query now p u =
     (let msg = pf_msg_type p; origin = ''gw:query_reply''
      in if msg = 0x63 then
           bind_res (build_network_status_response (uc_fake_ip (ua_config u)) (uc_signal_level (ua_config u)) True) (\<lambda>body.
             case next_seq u of
               (seq, u) \<Rightarrow>
                 bind_res (build_frame body 0x63 (ua_appliance u) (ua_proto u) (ua_sub u) seq) (\<lambda>frame.
                   Inr (send_frame now frame origin u)))
         else if msg \<in> set VERSION_INFO_MSGS then
           bind_res (build_version_response (ua_appliance u) (ua_proto u) (ua_sub u)) (\<lambda>frame.
             Inr (send_frame now frame origin u))
         else if msg = 0x68 then
           bind_res (build_frame (replicate 20 0) 0x68 (ua_appliance u) (ua_proto u) (ua_sub u) 0) (\<lambda>frame.
             Inr (send_frame now frame origin u))
         else Inr u)"

text \<open>The frames that arrive while \<open>_send_and_wait\<close> waits; the list ends with the timeout.\<close>

fun wait_response :: "int \<Rightarrow> (bytes \<times> rat) list \<Rightarrow> uart \<Rightarrow> (uart \<times> parsed_frame option) res" where
  "wait_response sent_type [] u = Inr (u, None)"
| "wait_response sent_type ((raw, now) # arrivals) u =
     (case parse_frame raw of
        Inl _ \<Rightarrow> wait_response sent_type arrivals u
      | Inr p \<Rightarrow>
          (let u = forward_to_client now raw Rx_frame None None u
           in if pf_msg_type p = sent_type then Inr (u, Some p)
              else bind_res (handle_ac_query now p u) (wait_response sent_type arrivals)))"

definition send_and_wait :: "rat \<Rightarrow> bytes \<Rightarrow> (bytes \<times> rat) list \<Rightarrow> uart \<Rightarrow> (uart \<times> parsed_frame option) res" where
  "send_and_wait now frame arrivals u =
     bind_res (parse_frame frame) (\<lambda>sent.
       wait_response (pf_msg_type sent) arrivals (send_frame now frame ''gw:handshake'' u))"

subsection \<open>The state machine\<close>

text \<open>The serial number: text without trailing zeros when at least half of it prints, hexadecimal otherwise.\<close>

definition rstrip_zeros :: "bytes \<Rightarrow> bytes" where
  "rstrip_zeros bs = rev (dropWhile (\<lambda>b. b = 0) (rev bs))"

definition ascii_text :: "bytes \<Rightarrow> string" where  \<comment> \<open>\<open>decode("ascii", errors="ignore")\<close>\<close>
  "ascii_text bs = map (\<lambda>b. char_of (unat b)) (filter (\<lambda>b. unat b < 128) bs)"

definition printable :: "char \<Rightarrow> bool" where
  "printable c = (32 \<le> (of_char c :: nat) \<and> (of_char c :: nat) < 127)"

definition serial_of :: "bytes \<Rightarrow> string" where
  "serial_of body =
     (if body = [] then []
      else let text = ascii_text (rstrip_zeros body);
               n = length (filter printable text)
           in if 2 * n \<ge> length text \<and> n > 0 then text else hex_spaced (rstrip_zeros body))"

definition learn :: "parsed_frame \<Rightarrow> uart \<Rightarrow> uart" where
  "learn p u =
     u\<lparr>ua_appliance := pf_appliance p, ua_proto := pf_proto p, ua_sub := pf_sub p,
       ua_serial_number := serial_of (pf_body p), ua_state := Model\<rparr>"

text \<open>\<open>first\<close> and \<open>second\<close>: what arrives after each of the two queries, sent at \<open>t1\<close> and \<open>t2\<close>.\<close>

definition do_discover :: "rat \<Rightarrow> (bytes \<times> rat) list \<Rightarrow> rat \<Rightarrow> (bytes \<times> rat) list \<Rightarrow> uart \<Rightarrow> uart res" where
  "do_discover t1 first t2 second u =
     bind_res (build_sn_query 0xFF 0 0) (\<lambda>sn_frame.
     bind_res (send_and_wait t1 sn_frame first u) (\<lambda>(u, resp).
       case resp of
         Some p \<Rightarrow> Inr (learn p u)
       | None \<Rightarrow>
           bind_res (build_frame (replicate 20 0) 0x65 0xFF 0 0 0) (\<lambda>rac_frame.
           bind_res (send_and_wait t2 rac_frame second u) (\<lambda>(u, resp).
             case resp of
               Some p \<Rightarrow> Inr (learn p u)
             | None \<Rightarrow> Inr u))))"

definition do_model :: "rat \<Rightarrow> (bytes \<times> rat) list \<Rightarrow> uart \<Rightarrow> uart res" where
  "do_model t arrivals u =
     bind_res (build_model_query (ua_appliance u) (ua_proto u) (ua_sub u)) (\<lambda>frame.
     bind_res (send_and_wait t frame arrivals u) (\<lambda>(u, resp).
       Inr ((case resp of
               None \<Rightarrow> u
             | Some p \<Rightarrow>
                 (if length (pf_body p) < 4 then u
                  else u\<lparr>ua_model := uint (pf_body p ! 2) OR push_bit 8 (uint (pf_body p ! 3))\<rparr>))
            \<lparr>ua_state := Announce\<rparr>)))"

definition do_announce :: "rat \<Rightarrow> uart \<Rightarrow> uart res" where
  "do_announce t u =
     bind_res (build_network_init (ua_appliance u) (uc_fake_ip (ua_config u)) (ua_proto u) (ua_sub u)) (\<lambda>frame.
       Inr ((send_frame t frame ''gw:handshake'' u)\<lparr>ua_silence_timer := t, ua_state := Running\<rparr>))"

definition rediscover :: "uart \<Rightarrow> uart" where
  "rediscover u = u\<lparr>ua_state := Discover, ua_appliance := 0xFF\<rparr>"

definition transmit_queued :: "rat \<Rightarrow> uart \<Rightarrow> uart" where
  "transmit_queued now u =
     (case ua_queue u of
        [] \<Rightarrow> u
      | (frame, origin, req_id) # rest \<Rightarrow>
          (let u = u\<lparr>ua_queue := rest, ua_written := ua_written u @ [frame]\<rparr>
           in if uc_mirror_all (ua_config u) then forward_to_client now frame Tx_frame (Some origin) req_id u
              else record_tx_for_correlation now frame (Some origin) req_id u))"

datatype line_event = Line_silent | Line_closed | Line_frame bytes

definition restart_trigger :: "parsed_frame \<Rightarrow> bool" where
  "restart_trigger p \<longleftrightarrow>
     pf_msg_type p \<in> {0x0F, 0x11} \<and> 2 \<le> length (pf_body p) \<and> pf_body p ! 0 = 0x80 \<and> pf_body p ! 1 = 0x40"

definition handle_running_frame :: "rat \<Rightarrow> bytes \<Rightarrow> uart \<Rightarrow> uart res" where
  "handle_running_frame now raw u =
     (case parse_frame raw of
        Inl _ \<Rightarrow> Inr u
      | Inr p \<Rightarrow>
          (let msg = pf_msg_type p;
               u = (if msg \<in> set IGNORE_MSGS then u else forward_to_client now raw Rx_frame None None u)
           in if msg \<in> set REHANDSHAKE_MSGS then
                bind_res (build_frame [0] msg (ua_appliance u) 0 0 0) (\<lambda>ack.
                  Inr (rediscover (send_frame now ack ''gw:handshake'' u)))
              else if msg \<in> set AC_QUERY_RESPOND \<or> msg = 0x68 then handle_ac_query now p u
              else if restart_trigger p then Inr (rediscover u)
              else Inr u))"

definition do_running :: "rat \<Rightarrow> line_event \<Rightarrow> rat \<Rightarrow> uart \<Rightarrow> uart res" where
  "do_running t_tx event now u =
     (let u = transmit_queued t_tx u
      in case event of
           Line_silent \<Rightarrow> Inr (if now - ua_silence_timer u > SILENCE_TIMEOUT then rediscover u else u)
         | Line_closed \<Rightarrow> Inr u
         | Line_frame raw \<Rightarrow> handle_running_frame now raw (u\<lparr>ua_silence_timer := now\<rparr>))"

definition queue_frame :: "bytes \<Rightarrow> string \<Rightarrow> json option \<Rightarrow> uart \<Rightarrow> uart \<times> bool" where
  "queue_frame frame origin req_id u =
     (if 0 < uc_max_queue (ua_config u) \<and> uc_max_queue (ua_config u) \<le> int (length (ua_queue u)) then (u, False)
      else (u\<lparr>ua_queue := ua_queue u @ [(frame, origin, req_id)]\<rparr>, True))"

text \<open>One iteration of \<open>run\<close>, or a client's request between two of its awaits.\<close>

inductive uart_step :: "uart \<Rightarrow> uart res \<Rightarrow> bool" where
  discovering: "ua_state u = Discover \<Longrightarrow> uart_step u (do_discover t1 first t2 second u)"
| modelling: "ua_state u = Model \<Longrightarrow> uart_step u (do_model t arrivals u)"
| announcing: "ua_state u = Announce \<Longrightarrow> uart_step u (do_announce t u)"
| running: "ua_state u = Running \<Longrightarrow> uart_step u (do_running t_tx event now u)"
| queueing: "queue_frame frame origin req_id u = (u', accepted) \<Longrightarrow> uart_step u (Inr u')"

inductive_cases uart_stepE: "uart_step u r"

inductive uart_reachable :: "uart_config \<Rightarrow> bool \<Rightarrow> uart \<Rightarrow> bool" for config has_client where
  fresh: "uart_reachable config has_client (new_uart config has_client)"
| step: "uart_reachable config has_client u \<Longrightarrow> uart_step u (Inr u') \<Longrightarrow> uart_reachable config has_client u'"

subsection \<open>The outstanding transmissions\<close>

definition correlation_ok :: "uart \<Rightarrow> bool" where
  "correlation_ok u \<longleftrightarrow> distinct (dkeys (ua_outstanding u)) \<and> set (dkeys (ua_outstanding u)) \<subseteq> {0..<256}"

lemma dkeys_dropWhile: "\<exists>k. dkeys (dropWhile P d) = drop k (dkeys d)"
  by (metis dkeys_def drop_map dropWhile_eq_drop)

lemma record_correlation_ok:
  assumes "correlation_ok u" and "0 \<le> i" and "i < 256"
  shows "correlation_ok (record_outstanding_tx now i origin req seq (u\<lparr>ua_tx_seq := n\<rparr>))"
proof -
  let ?live = "dropWhile (\<lambda>(_, tr). now - tr_ts tr > CORRELATION_TTL) (ua_outstanding u)"
  obtain k where "dkeys ?live = drop k (dkeys (ua_outstanding u))" using dkeys_dropWhile by blast
  then have "distinct (dkeys ?live)" "set (dkeys ?live) \<subseteq> {0..<256}"
    using assms(1) set_drop_subset [of k "dkeys (ua_outstanding u)"] by (auto simp: correlation_ok_def)
  then show ?thesis using assms(2,3)
    by (auto simp: correlation_ok_def record_outstanding_tx_def Let_def dkeys_dset has_key_set)
qed

lemma correlation_subset:
  assumes "correlation_ok u" and "set out \<subseteq> set (ua_outstanding u)" and "distinct (dkeys out)"
  shows "correlation_ok (u\<lparr>ua_outstanding := out\<rparr>)"
proof -
  have "set (dkeys out) \<subseteq> set (dkeys (ua_outstanding u))" using assms(2) by (auto simp: dkeys_def)
  then show ?thesis using assms(1,3) by (auto simp: correlation_ok_def)
qed

lemma msg_id_byte: "extract_msg_id f = Some i \<Longrightarrow> 0 \<le> i \<and> i < 256"
  by (auto simp: extract_msg_id_def split: if_splits)

lemma correlation_bounded: "correlation_ok u \<Longrightarrow> length (ua_outstanding u) \<le> 256"
proof -
  assume c: "correlation_ok u"
  have "length (dkeys (ua_outstanding u)) = card (set (dkeys (ua_outstanding u)))"
    using c by (simp add: correlation_ok_def distinct_card)
  also have "\<dots> \<le> card {0..<256 :: int}" using c by (intro card_mono) (auto simp: correlation_ok_def)
  finally show ?thesis by (simp add: dkeys_def)
qed

subsection \<open>What an operation leaves alone\<close>

text \<open>\<open>keeps ws u u'\<close>: nothing but the correlation, the logs, the counters and the clock changed, and the
  frames \<open>ws\<close>, all of them valid, were written.\<close>

definition valid_frame :: "bytes \<Rightarrow> bool" where
  "valid_frame f \<longleftrightarrow> (case validate_frame f of Inr _ \<Rightarrow> True | Inl _ \<Rightarrow> False)"

lemma valid_frameI [intro]: "validate_frame f = Inr p \<Longrightarrow> valid_frame f"
  by (simp add: valid_frame_def)

definition keeps :: "bytes list \<Rightarrow> uart \<Rightarrow> uart \<Rightarrow> bool" where
  "keeps ws u u' \<longleftrightarrow>
     ua_config u' = ua_config u \<and> ua_state u' = ua_state u \<and> ua_appliance u' = ua_appliance u \<and> ua_proto u' = ua_proto u \<and>
     ua_sub u' = ua_sub u \<and> ua_queue u' = ua_queue u \<and> ua_has_client u' = ua_has_client u \<and>
     ua_written u' = ua_written u @ ws \<and> list_all valid_frame ws \<and> (correlation_ok u \<longrightarrow> correlation_ok u')"

named_theorems keeping

lemma keeps_refl [keeping]: "keeps [] u u"
  by (simp add: keeps_def)

lemma keeps_trans: "keeps ws u v \<Longrightarrow> keeps vs v w \<Longrightarrow> keeps (ws @ vs) u w"
  by (simp add: keeps_def)

lemma keeps_record:
  "extract_msg_id f = Some i \<Longrightarrow> keeps [] u (record_outstanding_tx now i origin req seq (u\<lparr>ua_tx_seq := n\<rparr>))"
  using record_correlation_ok msg_id_byte by (simp add: keeps_def record_outstanding_tx_def Let_def)

lemma keeps_correlate: "correlate_rx now i u = (r, u') \<Longrightarrow> keeps [] u u'"
proof -
  assume "correlate_rx now i u = (r, u')"
  then obtain out where u': "u' = u\<lparr>ua_outstanding := out\<rparr>" and
    out: "out \<in> {ua_outstanding u, butlast (ua_outstanding u), filter (\<lambda>(k, _). k \<noteq> i) (ua_outstanding u)}"
    by (cases u) (auto simp: correlate_rx_def Let_def split: option.splits if_splits)
  have "correlation_ok u'" if "correlation_ok u"
    unfolding u' using that
  proof (rule correlation_subset)
    show "set out \<subseteq> set (ua_outstanding u)" using out by (auto dest: in_set_butlastD)
    show "distinct (dkeys out)"
      using out that by (auto simp: correlation_ok_def dkeys_def distinct_map_filter map_butlast distinct_butlast)
  qed
  then show ?thesis by (simp add: keeps_def u')
qed

lemma keeps_record_tx [keeping]: "keeps [] u (record_tx_for_correlation now frame origin req u)"
  by (cases "extract_msg_id frame") (auto simp: record_tx_for_correlation_def intro: keeping keeps_record)

lemma keeps_forward [keeping]: "keeps [] u (forward_to_client now raw d origin req u)"
proof (cases "ua_has_client u")
  case False
  then show ?thesis by (simp add: forward_to_client_def keeping)
next
  case True
  show ?thesis
  proof (cases d)
    case Rx_frame
    obtain r v where v: "(case extract_msg_id raw of None \<Rightarrow> (None, u) | Some i \<Rightarrow> correlate_rx now i u) = (r, v)"
      by (metis prod.exhaust)
    then have "keeps [] u v" by (cases "extract_msg_id raw") (auto intro: keeping keeps_correlate)
    then show ?thesis using v True Rx_frame by (simp add: forward_to_client_def Let_def keeps_def correlation_ok_def)
  next
    case Tx_frame
    have seq: "keeps [] u (u\<lparr>ua_tx_seq := n\<rparr>)" for n by (simp add: keeps_def correlation_ok_def)
    have log: "keeps [] u w \<Longrightarrow> keeps [] u (w\<lparr>ua_forwarded := fs\<rparr>)" for w fs by (simp add: keeps_def correlation_ok_def)
    show ?thesis
      using True Tx_frame
      by (cases "extract_msg_id raw") (auto simp: forward_to_client_def Let_def intro!: log seq keeps_record)
  qed
qed

lemma keeps_send: "valid_frame frame \<Longrightarrow> keeps [frame] u (send_frame now frame origin u)"
proof -
  assume "valid_frame frame"
  let ?u = "u\<lparr>ua_written := ua_written u @ [frame]\<rparr>"
  have "keeps [frame] u ?u" using \<open>valid_frame frame\<close> by (simp add: keeps_def correlation_ok_def)
  moreover have "keeps [] ?u (send_frame now frame origin u)"
    by (simp add: send_frame_def Let_def keeping)
  ultimately show ?thesis using keeps_trans by fastforce
qed

subsection \<open>The invariant\<close>

definition config_ok :: "uart_config \<Rightarrow> bool" where
  "config_ok c \<longleftrightarrow> (case uc_fake_ip c of (a, b, d, e) \<Rightarrow> list_all (\<lambda>x. 0 \<le> x \<and> x < 256) [a, b, d, e])"

definition addressed :: "uart \<Rightarrow> bool" where
  "addressed u \<longleftrightarrow> config_ok (ua_config u) \<and> 0 \<le> ua_appliance u \<and> ua_appliance u < 256 \<and> correlation_ok u"

definition announced :: "uart \<Rightarrow> bool" where
  "announced u \<longleftrightarrow>
     (ua_state u = Running \<longrightarrow>
        (\<exists>f \<in> set (ua_written u). build_network_init (ua_appliance u) (uc_fake_ip (ua_config u)) (ua_proto u) (ua_sub u) = Inr f))"

lemma keeps_addressed: "keeps ws u u' \<Longrightarrow> addressed u \<Longrightarrow> addressed u'"
  by (simp add: keeps_def addressed_def)

lemma keeps_announced: "keeps ws u u' \<Longrightarrow> announced u \<Longrightarrow> announced u'"
  by (auto simp: keeps_def announced_def)

lemma reversed_ip_ok: "config_ok c \<Longrightarrow> \<exists>os. reversed_ip (uc_fake_ip c) = Inr os \<and> length os = 4"
  by (auto simp: config_ok_def reversed_ip_def to_byte_def split: prod.splits)

lemma small_frame_builds:
  assumes "length body \<le> 244" and "0 \<le> msg" and "msg < 256" and "0 \<le> app" and "app < 256" and "body \<noteq> []"
  shows "\<exists>f p. build_frame body msg app proto sub seq = Inr f \<and> validate_frame f = Inr p \<and> pf_body p = body \<and> pf_msg_type p = msg"
  using link.sent_is_received [of body msg app proto sub seq] assms by simp

text \<open>The answers to the appliance's queries.\<close>

definition answers :: "int \<Rightarrow> int \<Rightarrow> bytes \<Rightarrow> bool" where
  "answers app msg f \<longleftrightarrow>
     (\<exists>p. validate_frame f = Inr p \<and> pf_msg_type p = (if msg \<in> {0x13, 0x87} then 0x13 else msg) \<and> pf_appliance p = app)"

lemma built_answers:
  assumes "build_frame body (if msg \<in> {0x13, 0x87} then 0x13 else msg) app proto sub seq = Inr f" and "body \<noteq> []"
  shows "answers app msg f"
  using link.deliver [OF assms] by (auto simp: answers_def)

lemma answers_valid: "answers app msg f \<Longrightarrow> valid_frame f"
  by (auto simp: answers_def)

lemma handle_ac_query_ok:
  assumes "addressed u"
  shows "\<exists>u' ws. handle_ac_query now p u = Inr u' \<and> keeps ws u u' \<and>
    (if pf_msg_type p \<in> {0x13, 0x63, 0x87, 0x68} then \<exists>f. ws = [f] \<and> answers (ua_appliance u) (pf_msg_type p) f else ws = [])"
proof -
  have app: "0 \<le> ua_appliance u" "ua_appliance u < 256" and c: "config_ok (ua_config u)" using assms by (simp_all add: addressed_def)
  consider (status) "pf_msg_type p = 0x63" | (version) "pf_msg_type p \<in> {0x13, 0x87}" | (wifi) "pf_msg_type p = 0x68"
    | (other) "pf_msg_type p \<notin> {0x13, 0x63, 0x87, 0x68}" by blast
  then show ?thesis
  proof cases
    case status
    obtain os where os: "reversed_ip (uc_fake_ip (ua_config u)) = Inr os" "length os = 4" using reversed_ip_ok [OF c] by blast
    obtain body where body: "build_network_status_response (uc_fake_ip (ua_config u)) (uc_signal_level (ua_config u)) True = Inr body"
        "length body = 20"
      using os by (simp add: build_network_status_response_def)
    obtain seq v where s: "next_seq u = (seq, v)" "v = u\<lparr>ua_msg_counter := seq\<rparr>" by (simp add: next_seq_def Let_def)
    obtain f where f: "build_frame body 0x63 (ua_appliance u) (ua_proto u) (ua_sub u) seq = Inr f"
      using small_frame_builds [of body "0x63" "ua_appliance u"] body(2) app by fastforce
    have k: "keeps [] u v" by (simp add: s(2) keeps_def correlation_ok_def)
    have a: "answers (ua_appliance u) (pf_msg_type p) f"
      using built_answers [of body "0x63"] f body(2) status by fastforce
    have "keeps [f] u (send_frame now f ''gw:query_reply'' v)"
      using keeps_trans [OF k keeps_send [OF answers_valid [OF a]]] by simp
    with a show ?thesis using status body(1) s f by (auto simp: handle_ac_query_def Let_def)
  next
    case version
    obtain f where f: "build_version_response (ua_appliance u) (ua_proto u) (ua_sub u) = Inr f"
      using small_frame_builds [of "map of_char ''V1.0.0'' @ replicate 14 0" "0x13" "ua_appliance u"] app
      by (fastforce simp: build_version_response_def)
    have a: "answers (ua_appliance u) (pf_msg_type p) f"
      using built_answers [of "map of_char ''V1.0.0'' @ replicate 14 0" "pf_msg_type p"] f version
      by (auto simp: build_version_response_def)
    then show ?thesis
      using version f a keeps_send [OF answers_valid [OF a], of u now "''gw:query_reply''"] by (auto simp: handle_ac_query_def Let_def VERSION_INFO_MSGS_def)
  next
    case wifi
    obtain f where f: "build_frame (replicate 20 0) 0x68 (ua_appliance u) (ua_proto u) (ua_sub u) 0 = Inr f"
      using small_frame_builds [of "replicate 20 0" "0x68" "ua_appliance u"] app by fastforce
    have a: "answers (ua_appliance u) (pf_msg_type p) f" using built_answers [of "replicate 20 0" "0x68"] f wifi by fastforce
    then show ?thesis
      using wifi f a keeps_send [OF answers_valid [OF a], of u now "''gw:query_reply''"] by (auto simp: handle_ac_query_def Let_def VERSION_INFO_MSGS_def)
  next
    case other
    then show ?thesis by (auto simp: handle_ac_query_def VERSION_INFO_MSGS_def intro!: keeping exI [of _ "[]"])
  qed
qed

lemma parse_frame_addr: "parse_frame raw = Inr p \<Longrightarrow> 0 \<le> pf_appliance p \<and> pf_appliance p < 256"
  by (auto simp: parse_frame_def Let_def split: if_splits)

lemma wait_response_ok:
  assumes "addressed u"
  shows "\<exists>u' ws r. wait_response sent_type arrivals u = Inr (u', r) \<and> keeps ws u u' \<and>
    (\<forall>p. r = Some p \<longrightarrow> pf_msg_type p = sent_type \<and> 0 \<le> pf_appliance p \<and> pf_appliance p < 256)"
  using assms
proof (induction sent_type arrivals u rule: wait_response.induct)
  case (1 sent_type u)
  then show ?case by (auto intro: keeping)
next
  case (2 sent_type raw now arrivals u)
  show ?case
  proof (cases "parse_frame raw")
    case (Inl e)
    then show ?thesis using 2 by simp
  next
    case (Inr p)
    let ?v = "forward_to_client now raw Rx_frame None None u"
    have k: "keeps [] u ?v" by (rule keeping)
    show ?thesis
    proof (cases "pf_msg_type p = sent_type")
      case True
      then show ?thesis using Inr k parse_frame_addr [OF Inr] by (auto simp: Let_def)
    next
      case False
      have v: "addressed ?v" using 2 k keeps_addressed by blast
      obtain w ws where w: "handle_ac_query now p ?v = Inr w" "keeps ws ?v w" using handle_ac_query_ok [OF v] by blast
      have "addressed w" using v w(2) keeps_addressed by blast
      from 2(2) [OF Inr refl False w(1) this] obtain u' vs r where
        r: "wait_response sent_type arrivals w = Inr (u', r)" "keeps vs w u'"
           "\<forall>p. r = Some p \<longrightarrow> pf_msg_type p = sent_type \<and> 0 \<le> pf_appliance p \<and> pf_appliance p < 256" by blast
      have "keeps (ws @ vs) u u'" using keeps_trans [OF k keeps_trans [OF w(2) r(2)]] by simp
      then show ?thesis using Inr False w(1) r by (auto simp: Let_def)
    qed
  qed
qed

lemma send_and_wait_ok:
  assumes "addressed u" and "validate_frame frame = Inr sent"
  shows "\<exists>u' ws r. send_and_wait now frame arrivals u = Inr (u', r) \<and> keeps ws u u' \<and>
    (\<forall>p. r = Some p \<longrightarrow> 0 \<le> pf_appliance p \<and> pf_appliance p < 256)"
proof -
  let ?v = "send_frame now frame ''gw:handshake'' u"
  have k: "keeps [frame] u ?v" using assms(2) by (intro keeps_send valid_frameI)
  have "addressed ?v" using assms(1) k keeps_addressed by blast
  from wait_response_ok [OF this, of "pf_msg_type sent" arrivals] obtain u' ws r where
    r: "wait_response (pf_msg_type sent) arrivals ?v = Inr (u', r)" "keeps ws ?v u'"
       "\<forall>p. r = Some p \<longrightarrow> 0 \<le> pf_appliance p \<and> pf_appliance p < 256" by blast
  have "parse_frame frame = Inr sent" using assms(2) by (auto simp: validate_frame_def split: if_splits)
  then show ?thesis using r keeps_trans [OF k r(2)] by (auto simp: send_and_wait_def)
qed

lemma correlation_ok_cong [simp]:
  "correlation_ok (u\<lparr>ua_state := st\<rparr>) = correlation_ok u" "correlation_ok (u\<lparr>ua_appliance := a\<rparr>) = correlation_ok u"
  "correlation_ok (u\<lparr>ua_proto := n\<rparr>) = correlation_ok u" "correlation_ok (u\<lparr>ua_sub := n\<rparr>) = correlation_ok u"
  "correlation_ok (u\<lparr>ua_serial_number := t\<rparr>) = correlation_ok u" "correlation_ok (u\<lparr>ua_model := n\<rparr>) = correlation_ok u"
  "correlation_ok (u\<lparr>ua_silence_timer := r\<rparr>) = correlation_ok u" "correlation_ok (u\<lparr>ua_queue := qs\<rparr>) = correlation_ok u"
  "correlation_ok (u\<lparr>ua_written := ws\<rparr>) = correlation_ok u"
  by (simp_all add: correlation_ok_def)

text \<open>The frames written by an operation that leaves the queue alone are valid.\<close>

definition grows :: "uart \<Rightarrow> uart \<Rightarrow> bool" where
  "grows u u' \<longleftrightarrow> ua_queue u' = ua_queue u \<and> (\<exists>ws. list_all valid_frame ws \<and> ua_written u' = ua_written u @ ws)"

lemma keeps_grows: "keeps ws u u' \<Longrightarrow> grows u u'"
  by (auto simp: keeps_def grows_def)

lemma grows_refl [simp]: "grows u u"
  by (simp add: grows_def)

lemma grows_trans: "grows u v \<Longrightarrow> grows v w \<Longrightarrow> grows u w"
  by (auto simp: grows_def)

lemma grows_cong [simp]:
  "grows u (v\<lparr>ua_state := st\<rparr>) = grows u v" "grows u (v\<lparr>ua_appliance := a\<rparr>) = grows u v" "grows u (v\<lparr>ua_proto := n\<rparr>) = grows u v"
  "grows u (v\<lparr>ua_sub := n\<rparr>) = grows u v" "grows u (v\<lparr>ua_serial_number := t\<rparr>) = grows u v" "grows u (v\<lparr>ua_model := n\<rparr>) = grows u v"
  "grows u (v\<lparr>ua_silence_timer := r\<rparr>) = grows u v" "grows (u\<lparr>ua_silence_timer := r\<rparr>) v = grows u v"
  by (simp_all add: grows_def)

lemma learn_ok: "addressed u \<Longrightarrow> 0 \<le> pf_appliance p \<Longrightarrow> pf_appliance p < 256 \<Longrightarrow> addressed (learn p u) \<and> announced (learn p u)"
  by (simp add: learn_def addressed_def announced_def)

lemma do_discover_ok:
  assumes "addressed u" and "ua_state u = Discover"
  shows "\<exists>u'. do_discover t1 first t2 second u = Inr u' \<and> addressed u' \<and> announced u' \<and> ua_state u' \<in> {Discover, Model} \<and> grows u u'"
proof -
  obtain sn p1 where sn: "build_sn_query 0xFF 0 0 = Inr sn" "validate_frame sn = Inr p1"
    using small_frame_builds [of "replicate 20 0" 7 "0xFF"] by (fastforce simp: build_sn_query_def)
  obtain rac p2 where rac: "build_frame (replicate 20 0) 0x65 0xFF 0 0 0 = Inr rac" "validate_frame rac = Inr p2"
    using small_frame_builds [of "replicate 20 0" "0x65" "0xFF"] by fastforce
  obtain v ws r where v: "send_and_wait t1 sn first u = Inr (v, r)" "keeps ws u v"
      "\<forall>p. r = Some p \<longrightarrow> 0 \<le> pf_appliance p \<and> pf_appliance p < 256"
    using send_and_wait_ok [OF assms(1) sn(2)] by blast
  have av: "addressed v" using v(2) assms(1) keeps_addressed by blast
  show ?thesis
  proof (cases r)
    case (Some p)
    then show ?thesis using sn(1) v learn_ok [OF av] keeps_grows [OF v(2)] by (simp add: do_discover_def) (simp add: learn_def)
  next
    case None
    obtain w vs s where w: "send_and_wait t2 rac second v = Inr (w, s)" "keeps vs v w"
        "\<forall>p. s = Some p \<longrightarrow> 0 \<le> pf_appliance p \<and> pf_appliance p < 256"
      using send_and_wait_ok [OF av rac(2)] by blast
    have aw: "addressed w" using w(2) av keeps_addressed by blast
    have g: "grows u w" using keeps_grows [OF v(2)] keeps_grows [OF w(2)] by (rule grows_trans)
    have sw: "ua_state w = Discover" using w(2) v(2) assms(2) by (simp add: keeps_def)
    show ?thesis
    proof (cases s)
      case (Some p)
      then show ?thesis using sn(1) v(1) None rac(1) w learn_ok [OF aw] g by (simp add: do_discover_def) (simp add: learn_def)
    next
      case s: None
      have "announced w" using sw by (simp add: announced_def)
      then show ?thesis using sn(1) v(1) None rac(1) w(1) s aw sw g by (simp add: do_discover_def)
    qed
  qed
qed

lemma do_model_ok:
  assumes "addressed u"
  shows "\<exists>u'. do_model t arrivals u = Inr u' \<and> addressed u' \<and> announced u' \<and> ua_state u' = Announce \<and> grows u u' \<and>
    ua_appliance u' = ua_appliance u \<and> ua_queue u' = ua_queue u"
proof -
  obtain f p where f: "build_model_query (ua_appliance u) (ua_proto u) (ua_sub u) = Inr f" "validate_frame f = Inr p"
    using small_frame_builds [of "replicate 20 0" "0xA0" "ua_appliance u"] assms by (fastforce simp: build_model_query_def addressed_def)
  obtain v ws r where v: "send_and_wait t f arrivals u = Inr (v, r)" "keeps ws u v"
    using send_and_wait_ok [OF assms f(2)] by blast
  have "addressed v" using v(2) assms keeps_addressed by blast
  moreover have "ua_appliance v = ua_appliance u" "ua_queue v = ua_queue u" using v(2) by (simp_all add: keeps_def)
  ultimately show ?thesis using f(1) v(1) keeps_grows [OF v(2)] by (auto simp: do_model_def addressed_def announced_def split: option.split)
qed

lemma network_init_builds:
  assumes "addressed u"
  shows "\<exists>f. build_network_init (ua_appliance u) (uc_fake_ip (ua_config u)) (ua_proto u) (ua_sub u) = Inr f \<and> valid_frame f"
proof -
  obtain os where os: "reversed_ip (uc_fake_ip (ua_config u)) = Inr os" "length os = 4"
    using assms reversed_ip_ok by (auto simp: addressed_def)
  then show ?thesis
    using small_frame_builds [of "[0x01, 0x01, 0x04] @ os @ [0xFF] @ replicate 12 0" "0x0D" "ua_appliance u"] assms
    by (fastforce simp: build_network_init_def addressed_def)
qed

lemma do_announce_ok:
  assumes "addressed u"
  shows "\<exists>u'. do_announce t u = Inr u' \<and> addressed u' \<and> announced u' \<and> ua_state u' = Running \<and> grows u u' \<and>
    ua_appliance u' = ua_appliance u \<and> ua_queue u' = ua_queue u"
proof -
  obtain f where f: "build_network_init (ua_appliance u) (uc_fake_ip (ua_config u)) (ua_proto u) (ua_sub u) = Inr f" "valid_frame f"
    using network_init_builds [OF assms] by blast
  have k: "keeps [f] u (send_frame t f ''gw:handshake'' u)" by (rule keeps_send [OF f(2)])
  then have "addressed (send_frame t f ''gw:handshake'' u)" using assms keeps_addressed by blast
  then show ?thesis using f k keeps_grows [OF k] by (auto simp: do_announce_def addressed_def announced_def keeps_def)
qed

lemma transmit_queued_effect:
  "\<exists>ws. ua_config (transmit_queued now u) = ua_config u \<and> ua_state (transmit_queued now u) = ua_state u \<and>
     ua_appliance (transmit_queued now u) = ua_appliance u \<and> ua_proto (transmit_queued now u) = ua_proto u \<and>
     ua_sub (transmit_queued now u) = ua_sub u \<and>
     ua_written (transmit_queued now u) = ua_written u @ ws \<and> ws = map fst (take 1 (ua_queue u)) \<and>
     ua_queue (transmit_queued now u) = drop 1 (ua_queue u) \<and> (correlation_ok u \<longrightarrow> correlation_ok (transmit_queued now u))"
proof (cases "ua_queue u")
  case Nil
  then show ?thesis by (simp add: transmit_queued_def)
next
  case (Cons q rest)
  obtain frame origin req where q: "q = (frame, origin, req)" by (cases q)
  let ?u = "u\<lparr>ua_queue := rest, ua_written := ua_written u @ [frame]\<rparr>"
  have "keeps [] ?u (transmit_queued now u)" using Cons q by (simp add: transmit_queued_def Let_def keeping)
  then show ?thesis using Cons q by (simp add: keeps_def)
qed

lemma rediscover_ok: "addressed u \<Longrightarrow> addressed (rediscover u) \<and> announced (rediscover u)"
  by (simp add: rediscover_def addressed_def announced_def)

lemma handle_running_frame_ok:
  assumes "addressed u" and "announced u"
  shows "\<exists>u'. handle_running_frame now raw u = Inr u' \<and> addressed u' \<and> announced u' \<and> grows u u'"
proof (cases "parse_frame raw")
  case (Inl e)
  then show ?thesis using assms by (simp add: handle_running_frame_def)
next
  case (Inr p)
  let ?v = "if pf_msg_type p \<in> set IGNORE_MSGS then u else forward_to_client now raw Rx_frame None None u"
  have k: "keeps [] u ?v" by (simp add: keeping)
  have v: "addressed ?v" "announced ?v" using k assms keeps_addressed keeps_announced by blast+
  consider (again) "pf_msg_type p \<in> set REHANDSHAKE_MSGS" | (query) "pf_msg_type p \<notin> set REHANDSHAKE_MSGS"
      "pf_msg_type p \<in> set AC_QUERY_RESPOND \<or> pf_msg_type p = 0x68"
    | (other) "pf_msg_type p \<notin> set REHANDSHAKE_MSGS" "\<not> (pf_msg_type p \<in> set AC_QUERY_RESPOND \<or> pf_msg_type p = 0x68)" by blast
  then show ?thesis
  proof cases
    case again
    then obtain f where f: "build_frame [0] (pf_msg_type p) (ua_appliance ?v) 0 0 0 = Inr f" "valid_frame f"
      using small_frame_builds [of "[0]" "pf_msg_type p" "ua_appliance ?v" 0 0 0] v(1)
      by (auto simp: REHANDSHAKE_MSGS_def addressed_def valid_frame_def)
    have "addressed (send_frame now f ''gw:handshake'' ?v)" using v(1) keeps_send [OF f(2)] keeps_addressed by metis
    moreover have "grows u (rediscover (send_frame now f ''gw:handshake'' ?v))"
      using grows_trans [OF keeps_grows [OF k] keeps_grows [OF keeps_send [OF f(2)]]] by (simp add: rediscover_def)
    ultimately show ?thesis using again Inr f rediscover_ok by (simp add: handle_running_frame_def Let_def)
  next
    case query
    obtain w ws where w: "handle_ac_query now p ?v = Inr w" "keeps ws ?v w" using handle_ac_query_ok [OF v(1)] by blast
    have "grows u w" using grows_trans [OF keeps_grows [OF k] keeps_grows [OF w(2)]] .
    moreover have "addressed w" "announced w" using keeps_addressed [OF w(2) v(1)] keeps_announced [OF w(2) v(2)] .
    moreover have "handle_running_frame now raw u = Inr w" using query Inr w(1) by (simp add: handle_running_frame_def Let_def)
    ultimately show ?thesis by blast
  next
    case other
    have "grows u ?v" "grows u (rediscover ?v)" using keeps_grows [OF k] by (simp_all add: rediscover_def)
    then show ?thesis using other Inr v rediscover_ok by (auto simp: handle_running_frame_def Let_def)
  qed
qed

lemma do_running_ok:
  assumes "addressed u" and "announced u"
  shows "\<exists>u'. do_running t_tx event now u = Inr u' \<and> addressed u' \<and> announced u' \<and> grows (transmit_queued t_tx u) u'"
proof -
  let ?v = "transmit_queued t_tx u"
  have v: "addressed ?v" "announced ?v"
    using transmit_queued_effect [of t_tx u] assms by (auto simp: addressed_def announced_def)
  have w: "addressed (?v\<lparr>ua_silence_timer := now\<rparr>)" "announced (?v\<lparr>ua_silence_timer := now\<rparr>)"
    using v by (simp_all add: addressed_def announced_def)
  show ?thesis
  proof (cases event)
    case Line_silent
    then show ?thesis using v rediscover_ok [OF v(1)] by (simp add: do_running_def Let_def) (simp add: rediscover_def)
  next
    case Line_closed
    then show ?thesis using v by (simp add: do_running_def)
  next
    case (Line_frame raw)
    then show ?thesis using handle_running_frame_ok [OF w, of now raw] by (auto simp: do_running_def Let_def)
  qed
qed

lemma uart_step_ok:
  assumes "uart_step u r" and "addressed u" and "announced u"
  shows "\<exists>u'. r = Inr u' \<and> addressed u' \<and> announced u'"
  using assms(1)
proof (cases rule: uart_step.cases)
  case (discovering t1 first t2 second)
  then show ?thesis using do_discover_ok [OF assms(2)] by blast
next
  case (modelling t arrivals)
  then show ?thesis using do_model_ok [OF assms(2)] by blast
next
  case (announcing t)
  then show ?thesis using do_announce_ok [OF assms(2)] by blast
next
  case (running t_tx event now)
  then show ?thesis using do_running_ok [OF assms(2,3)] by blast
next
  case (queueing frame origin req_id u' accepted)
  then show ?thesis using assms(2,3) by (auto simp: queue_frame_def addressed_def announced_def split: if_splits)
qed

text \<open>What one step writes is valid or was at the head of the queue.\<close>

lemma uart_step_writes:
  assumes "uart_step u (Inr u')" and "addressed u" and "announced u"
  shows "\<exists>n ws. ua_written u' = ua_written u @ map fst (take n (ua_queue u)) @ ws \<and> list_all valid_frame ws \<and>
    (ua_queue u' = drop n (ua_queue u) \<or> (\<exists>q. n = 0 \<and> ua_queue u' = ua_queue u @ [q]))"
proof -
  have g: "\<exists>n ws. ua_written u' = ua_written u @ map fst (take n (ua_queue u)) @ ws \<and> list_all valid_frame ws \<and>
      (ua_queue u' = drop n (ua_queue u) \<or> (\<exists>q. n = 0 \<and> ua_queue u' = ua_queue u @ [q]))" if "grows u u'"
    using that by (auto simp: grows_def intro!: exI [of _ 0])
  show ?thesis
    using assms(1)
  proof (cases rule: uart_step.cases)
    case (discovering t1 first t2 second)
    then show ?thesis using do_discover_ok [OF assms(2), of t1 first t2 second] g by auto
  next
    case (modelling t arrivals)
    then show ?thesis using do_model_ok [OF assms(2), of t arrivals] g by auto
  next
    case (announcing t)
    then show ?thesis using do_announce_ok [OF assms(2), of t] g by auto
  next
    case (running t_tx event now)
    then have "grows (transmit_queued t_tx u) u'" using do_running_ok [OF assms(2,3), of t_tx event now] by auto
    then show ?thesis using transmit_queued_effect [of t_tx u] by (auto simp: grows_def intro!: exI [of _ 1])
  next
    case (queueing frame origin req_id accepted)
    then show ?thesis by (auto simp: queue_frame_def split: if_splits intro!: exI [of _ 0])
  qed
qed

lemma uart_reachable_ok:
  assumes "uart_reachable config has_client u" and "config_ok config"
  shows "addressed u \<and> announced u"
  using assms(1)
proof (induction rule: uart_reachable.induct)
  case fresh
  then show ?case using assms(2) by (simp add: new_uart_def addressed_def announced_def correlation_ok_def dkeys_def)
next
  case (step u u')
  then show ?case using uart_step_ok [OF step.hyps(2)] by auto
qed

subsection \<open>Framing\<close>

lemma read_skips: "0xAA \<notin> set noise \<Longrightarrow> xs \<noteq> [] \<Longrightarrow> read_one_frame (noise @ xs) = read_one_frame xs"
proof (induction noise)
  case Nil
  then show ?case by simp
next
  case (Cons b noise)
  obtain c ys where c: "noise @ xs = c # ys" using Cons.prems(2) by (cases "noise @ xs") auto
  have "read_one_frame (b # c # ys) = read_one_frame (c # ys)" using Cons.prems(1) by simp
  then show ?case using Cons c by simp
qed

lemma read_no_start: "0xAA \<notin> set xs \<Longrightarrow> read_one_frame xs = (None, [])"
  by (induction xs rule: read_one_frame.induct) auto

lemma read_header:
  assumes "unat len = length r + 1" and "length r \<le> 250"
  shows "read_one_frame (0xAA # len # r @ rest) = (Some ([0xAA, len] @ r), rest)"
  using assms by simp

lemma built_shape:
  assumes "build_frame body mt app proto sub seq = Inr frame"
  shows "\<exists>len r. frame = 0xAA # len # r \<and> unat len = length r + 1 \<and> length r = length body + 10"
proof -
  have f: "length frame = length body + 12" using assms by (rule build_frame_length)
  then obtain a len r where s: "frame = a # len # r" by (cases frame; cases "tl frame") auto
  have "a = 0xAA" "uint len = 11 + int (length body)" using built_frame_fields(1,2) [OF assms] s by simp_all
  moreover from this(2) have "unat len = 11 + length body" by (metis nat_int of_nat_add of_nat_numeral unat_eq_nat_uint)
  ultimately show ?thesis using f s by auto
qed

text \<open>The reader takes the largest frames apart: bodies of 241 to 244 bytes can be built but not read.\<close>

lemma read_too_long: "251 < unat len \<Longrightarrow> read_one_frame (0xAA # len # rest) = read_one_frame rest"
proof -
  assume "251 < unat len"
  then have "251 < int (unat len)" by linarith
  then show ?thesis by (simp add: Let_def)
qed

subsection \<open>The queue\<close>

text \<open>What a bounded queue promises, and what follows for its users.\<close>

locale bounded_fifo =
  fixes put :: "'a \<Rightarrow> 's \<Rightarrow> 's \<times> bool"
    and take_one :: "'s \<Rightarrow> 's"
    and items :: "'s \<Rightarrow> 'a list"
    and capacity :: "'s \<Rightarrow> nat option"
  assumes accepted: "put x s = (s', True) \<Longrightarrow> items s' = items s @ [x] \<and> (\<forall>n. capacity s = Some n \<longrightarrow> length (items s) < n)"
    and refused: "put x s = (s', False) \<Longrightarrow> s' = s \<and> (\<exists>n. capacity s = Some n \<and> n \<le> length (items s))"
    and put_capacity: "put x s = (s', b) \<Longrightarrow> capacity s' = capacity s"
    and taken: "items (take_one s) = drop 1 (items s)"
    and take_capacity: "capacity (take_one s) = capacity s"
begin

lemma put_bounded:
  assumes "put x s = (s', b)" and "\<forall>n. capacity s = Some n \<longrightarrow> length (items s) \<le> n"
  shows "\<forall>n. capacity s' = Some n \<longrightarrow> length (items s') \<le> n"
  using assms accepted [of x s s'] refused [of x s s'] put_capacity [OF assms(1)] by (cases b) auto

lemma take_bounded:
  "(\<forall>n. capacity s = Some n \<longrightarrow> length (items s) \<le> n) \<Longrightarrow> \<forall>n. capacity (take_one s) = Some n \<longrightarrow> length (items (take_one s)) \<le> n"
  by (auto simp: taken take_capacity)

text \<open>What is put in comes out after what was there, whatever is put in later.\<close>

lemma fifo:
  assumes "put x s = (s', True)" and "put y s' = (s'', b)"
  shows "items s'' ! length (items s) = x"
  using accepted [OF assms(1)] accepted [of y s' s''] refused [of y s' s''] assms(2) by (cases b) (auto simp: nth_append)

end

definition queue_capacity :: "uart \<Rightarrow> nat option" where
  "queue_capacity u = (if 0 < uc_max_queue (ua_config u) then Some (nat (uc_max_queue (ua_config u))) else None)"

interpretation txq: bounded_fifo "\<lambda>(frame, origin, req_id). queue_frame frame origin req_id" "transmit_queued now" ua_queue queue_capacity
proof unfold_locales
  fix x :: "bytes \<times> string \<times> json option" and s s' :: uart
  assume "(case x of (frame, origin, req_id) \<Rightarrow> queue_frame frame origin req_id) s = (s', True)"
  then show "ua_queue s' = ua_queue s @ [x] \<and> (\<forall>n. queue_capacity s = Some n \<longrightarrow> length (ua_queue s) < n)"
    by (auto simp: queue_frame_def queue_capacity_def split: prod.splits if_splits)
next
  fix x :: "bytes \<times> string \<times> json option" and s s' :: uart
  assume "(case x of (frame, origin, req_id) \<Rightarrow> queue_frame frame origin req_id) s = (s', False)"
  then show "s' = s \<and> (\<exists>n. queue_capacity s = Some n \<and> n \<le> length (ua_queue s))"
    by (auto simp: queue_frame_def queue_capacity_def split: prod.splits if_splits)
next
  fix x :: "bytes \<times> string \<times> json option" and s s' :: uart and b
  assume "(case x of (frame, origin, req_id) \<Rightarrow> queue_frame frame origin req_id) s = (s', b)"
  then show "queue_capacity s' = queue_capacity s"
    by (auto simp: queue_frame_def queue_capacity_def split: prod.splits if_splits)
next
  fix s :: uart
  show "ua_queue (transmit_queued now s) = drop 1 (ua_queue s)" "queue_capacity (transmit_queued now s) = queue_capacity s"
    using transmit_queued_effect [of now s] by (auto simp: queue_capacity_def)
qed

subsection \<open>Properties\<close>

text \<open>C34: with a valid configuration the protocol never fails and keeps its promises: whatever arrives on the
  line and whatever clients queue, no operation raises, the gateway only runs after it announced the
  network to the appliance it discovered, and the map of outstanding transmissions stays within 256
  entries.\<close>

theorem uart_protocol_safe:
  assumes "uart_reachable config has_client u" and "config_ok config"
  shows "(\<forall>r. uart_step u r \<longrightarrow> (\<exists>u'. r = Inr u')) \<and>
    (ua_state u = Running \<longrightarrow>
       (\<exists>f \<in> set (ua_written u). build_network_init (ua_appliance u) (uc_fake_ip (ua_config u)) (ua_proto u) (ua_sub u) = Inr f)) \<and>
    0 \<le> ua_appliance u \<and> ua_appliance u < 256 \<and> length (ua_outstanding u) \<le> 256"
proof -
  have r: "addressed u" "announced u" using uart_reachable_ok [OF assms] by blast+
  then have "length (ua_outstanding u) \<le> 256" using correlation_bounded by (simp add: addressed_def)
  with r uart_step_ok show ?thesis by (auto simp: addressed_def announced_def)
qed

text \<open>C35: framing survives noise: after any bytes without a start byte the reader returns exactly the next
  built frame, of a body of up to 240 bytes, and leaves what follows it on the line.\<close>

theorem read_frame_resync:
  assumes "build_frame body mt app proto sub seq = Inr frame" and "length body \<le> 240" and "0xAA \<notin> set noise"
  shows "read_one_frame (noise @ frame @ rest) = (Some frame, rest)"
proof -
  obtain len r where f: "frame = 0xAA # len # r" "unat len = length r + 1" "length r = length body + 10"
    using built_shape [OF assms(1)] by blast
  have "read_one_frame (0xAA # len # r @ rest) = (Some ([0xAA, len] @ r), rest)"
    using read_header [of len r rest] f assms(2) by simp
  then show ?thesis using read_skips [OF assms(3), of "frame @ rest"] f(1) by simp
qed

text \<open>Frames of bodies between 241 and 244 bytes can be built and are valid, but the reader of the same
  program throws their header away and scans on.\<close>

theorem longest_frames_unreadable:
  assumes "build_frame body mt app proto sub seq = Inr frame" and "240 < length body"
  shows "\<exists>p. validate_frame frame = Inr p \<and> pf_body p = body \<and> read_one_frame (frame @ rest) = read_one_frame (drop 2 frame @ rest)"
proof -
  obtain len r where f: "frame = 0xAA # len # r" "unat len = length r + 1" "length r = length body + 10"
    using built_shape [OF assms(1)] by blast
  moreover have "read_one_frame (0xAA # len # (r @ rest)) = read_one_frame (r @ rest)"
    using f assms(2) by (intro read_too_long) simp
  moreover have "body \<noteq> []" using assms(2) by auto
  ultimately show ?thesis using link.deliver [OF assms(1)] by fastforce
qed

text \<open>A read that times out in the middle of a frame loses the frame: its header is consumed, and the bytes
  that follow are scanned for another start byte.\<close>

theorem cut_frame_is_lost:
  assumes "build_frame body mt app proto sub seq = Inr frame" and "length body \<le> 240"
    and "2 \<le> n" and "n < length frame" and "0xAA \<notin> set (drop 2 frame)"
  shows "read_one_frame (take n frame) = (None, drop 2 (take n frame)) \<and>
    read_one_frame (drop 2 (take n frame) @ drop n frame) = (None, [])"
proof -
  obtain len r where f: "frame = 0xAA # len # r" "unat len = length r + 1" "length r = length body + 10"
    using built_shape [OF assms(1)] by blast
  have t: "take n frame = 0xAA # len # take (n - 2) r" using assms(3) f(1) by (simp add: take_Cons' numeral_2_eq_2)
  have i: "uint len = int (length r) + 1" using f(2) by (metis of_nat_1 of_nat_add uint_nat)
  have "length (take (n - 2) r) < length r" using assms(3,4) f(1) by simp
  then have "read_one_frame (0xAA # len # take (n - 2) r) = (None, take (n - 2) r)"
    using i f(3) assms(2) by (simp add: Let_def)
  moreover have "drop 2 (take n frame) @ drop n frame = drop 2 frame"
    by (metis append_take_drop_id assms(3) drop_append drop_take drop_drop le_add_diff_inverse2)
  ultimately show ?thesis using t read_no_start [OF assms(5)] by simp
qed

text \<open>In the running state the gateway answers the appliance's own queries: after the frame a client had
  queued, exactly one valid frame is written, of the type the query calls for and with the discovered
  appliance type; the state does not change.\<close>

theorem queries_answered:
  assumes "uart_reachable config has_client u" and "config_ok config" and "ua_state u = Running"
    and "parse_frame raw = Inr p" and "pf_msg_type p \<in> {0x13, 0x63, 0x87, 0x68}"
  shows "\<exists>u' f q. do_running t_tx (Line_frame raw) now u = Inr u' \<and>
    ua_written u' = ua_written u @ map fst (take 1 (ua_queue u)) @ [f] \<and> validate_frame f = Inr q \<and>
    pf_msg_type q = (if pf_msg_type p \<in> {0x13, 0x87} then 0x13 else pf_msg_type p) \<and>
    pf_appliance q = ua_appliance u \<and> ua_state u' = Running \<and> ua_queue u' = drop 1 (ua_queue u)"
proof -
  let ?v = "(transmit_queued t_tx u)\<lparr>ua_silence_timer := now\<rparr>"
  let ?w = "forward_to_client now raw Rx_frame None None ?v"
  have v: "addressed ?v" "ua_written ?v = ua_written u @ map fst (take 1 (ua_queue u))" "ua_queue ?v = drop 1 (ua_queue u)"
      "ua_state ?v = Running" "ua_appliance ?v = ua_appliance u"
    using transmit_queued_effect [of t_tx u] uart_reachable_ok [OF assms(1,2)] assms(3) by (auto simp: addressed_def)
  have k: "keeps [] ?v ?w" by (rule keeping)
  have "addressed ?w" using v(1) k keeps_addressed by blast
  then obtain u' ws where u': "handle_ac_query now p ?w = Inr u'" "keeps ws ?w u'"
      "\<exists>f. ws = [f] \<and> answers (ua_appliance ?w) (pf_msg_type p) f"
    using handle_ac_query_ok [of ?w now p] assms(5) by auto
  have "keeps ws ?v u'" using keeps_trans [OF k u'(2)] by simp
  moreover have "do_running t_tx (Line_frame raw) now u = Inr u'"
    using assms(4,5) u'(1)
    by (auto simp: do_running_def handle_running_frame_def Let_def IGNORE_MSGS_def REHANDSHAKE_MSGS_def AC_QUERY_RESPOND_def)
  moreover have "ua_appliance ?w = ua_appliance u" using k v(5) by (simp add: keeps_def)
  ultimately show ?thesis using u'(3) v by (auto simp: keeps_def answers_def)
qed

text \<open>The transmission queue is a bounded queue: what is accepted is transmitted after what was queued
  before, a frame is refused exactly when the queue is full, and it never grows beyond its bound.\<close>

theorem transmission_queue:
  assumes "length (ua_queue u) \<le> nat (uc_max_queue (ua_config u))" and "0 < uc_max_queue (ua_config u)"
    and "queue_frame frame origin req_id u = (u', accepted)"
  shows "(accepted \<longleftrightarrow> length (ua_queue u) < nat (uc_max_queue (ua_config u))) \<and>
    ua_queue u' = (if accepted then ua_queue u @ [(frame, origin, req_id)] else ua_queue u) \<and>
    length (ua_queue u') \<le> nat (uc_max_queue (ua_config u')) \<and>
    ua_queue (transmit_queued now u') = drop 1 (ua_queue u') \<and>
    ua_written (transmit_queued now u') = ua_written u' @ map fst (take 1 (ua_queue u'))"
proof -
  have put: "(case (frame, origin, req_id) of (frame, origin, req_id) \<Rightarrow> queue_frame frame origin req_id) u = (u', accepted)"
    using assms(3) by simp
  have "\<forall>n. queue_capacity u' = Some n \<longrightarrow> length (ua_queue u') \<le> n"
    by (rule txq.put_bounded [OF put]) (use assms(1,2) in \<open>simp add: queue_capacity_def\<close>)
  moreover have "queue_capacity u' = queue_capacity u" by (rule txq.put_capacity [OF put])
  moreover have "(accepted \<longleftrightarrow> length (ua_queue u) < nat (uc_max_queue (ua_config u))) \<and>
      ua_queue u' = (if accepted then ua_queue u @ [(frame, origin, req_id)] else ua_queue u) \<and> ua_config u' = ua_config u"
    using assms(2,3) by (auto simp: queue_frame_def zless_nat_eq_int_zless split: if_splits)
  ultimately show ?thesis using transmit_queued_effect [of now u'] assms(2) by (auto simp: queue_capacity_def)
qed

definition resent :: uart where
  "resent =
     (let rec = (\<lambda>now i seq. record_outstanding_tx now i (Some ''ws:1'') None seq)
      in rec (2/10) 0x41 3 (rec (1/10) 0xB1 2 (rec 0 0x41 1 (new_uart
           \<lparr>uc_fake_ip = (192, 168, 1, 100), uc_signal_level = 4, uc_mirror_gateway = False, uc_mirror_all = False, uc_max_queue = 16\<rparr> True))))"

text \<open>The annotation of replies does not follow its comment: when a message identifier is sent again its
  entry keeps its old place, so the heuristic picks a transmission that is not the newest one.\<close>

theorem heuristic_not_newest:
  "\<exists>u'. correlate_rx (3/10) 0xC0 resent = (Some \<lparr>rp_req_id = None, rp_origin = Some ''ws:1'', rp_confidence = Heuristic\<rparr>, u') \<and>
     map (\<lambda>(k, tr). (k, tr_seq tr)) (ua_outstanding resent) = [(0x41, 3), (0xB1, 2)] \<and>
     map (\<lambda>(k, tr). (k, tr_seq tr)) (ua_outstanding u') = [(0x41, 3)]"
proof -
  have "map (\<lambda>(k, tr). (k, tr_seq tr)) (ua_outstanding resent) = [(0x41, 3), (0xB1, 2)]" by code_simp
  moreover have "fst (correlate_rx (3/10) 0xC0 resent) = Some \<lparr>rp_req_id = None, rp_origin = Some ''ws:1'', rp_confidence = Heuristic\<rparr>" by code_simp
  moreover have "map (\<lambda>(k, tr). (k, tr_seq tr)) (ua_outstanding (snd (correlate_rx (3/10) 0xC0 resent))) = [(0x41, 3)]" by code_simp
  ultimately show ?thesis by (metis prod.collapse)
qed

lemma handshake_steps:
  assumes "uart_reachable config has_client u" and "config_ok config" and "ua_state u = Discover"
    and "parse_frame raw = Inr p" and "pf_msg_type p = 0x07"
  shows "\<exists>u1 u2 u3. do_discover t1 ((raw, now) # first) t2 second u = Inr u1 \<and> do_model t arrivals u1 = Inr u2 \<and>
    do_announce t3 u2 = Inr u3 \<and> uart_reachable config has_client u3 \<and> ua_state u3 = Running \<and>
    ua_appliance u3 = pf_appliance p \<and> ua_queue u3 = ua_queue u"
proof -
  obtain sn q where sn: "build_sn_query 0xFF 0 0 = Inr sn" "validate_frame sn = Inr q" "pf_msg_type q = 7"
    using small_frame_builds [of "replicate 20 0" 7 "0xFF"] by (fastforce simp: build_sn_query_def)
  have "parse_frame sn = Inr q" using sn(2) by (auto simp: validate_frame_def split: if_splits)
  then have d: "do_discover t1 ((raw, now) # first) t2 second u =
      Inr (learn p (forward_to_client now raw Rx_frame None None (send_frame t1 sn ''gw:handshake'' u)))"
    (is "_ = Inr ?u1") using sn(1,3) assms(4,5) by (simp add: do_discover_def send_and_wait_def Let_def)
  have "keeps [sn] u (forward_to_client now raw Rx_frame None None (send_frame t1 sn ''gw:handshake'' u))"
    using keeps_trans [OF keeps_send [OF valid_frameI [OF sn(2)]] keeps_forward] by simp
  then have l: "ua_state ?u1 = Model" "ua_appliance ?u1 = pf_appliance p" "ua_queue ?u1 = ua_queue u"
    by (simp_all add: learn_def keeps_def)
  have "uart_step u (Inr ?u1)" using uart_step.discovering [OF assms(3), of t1 "(raw, now) # first" t2 second] d by simp
  with assms(1) have r1: "uart_reachable config has_client ?u1" by (rule uart_reachable.step)
  then have "addressed ?u1" using uart_reachable_ok assms(2) by blast
  then obtain u2 where u2: "do_model t arrivals ?u1 = Inr u2" "addressed u2" "ua_state u2 = Announce"
      "ua_appliance u2 = pf_appliance p" "ua_queue u2 = ua_queue u"
    using do_model_ok [of ?u1 t arrivals] l by auto
  obtain u3 where u3: "do_announce t3 u2 = Inr u3" "ua_state u3 = Running" "ua_appliance u3 = pf_appliance p" "ua_queue u3 = ua_queue u"
    using do_announce_ok [OF u2(2), of t3] u2(4,5) by auto
  have "uart_reachable config has_client u2"
    using uart_reachable.step [OF r1] uart_step.modelling [OF l(1), of t arrivals] u2(1) by simp
  then have "uart_reachable config has_client u3"
    using uart_reachable.step uart_step.announcing [OF u2(3), of t3] u3(1) by metis
  then show ?thesis using d u2(1) u3 by blast
qed

text \<open>The handshake completes: from the discovery state, when the appliance answers the serial-number query,
  the three steps lead to the running state with the appliance type of the answer, whatever arrives
  while the model is asked for, and the queued frames stay queued.\<close>

theorem handshake_completes:
  assumes "uart_reachable config has_client u" and "config_ok config" and "ua_state u = Discover"
    and "parse_frame raw = Inr p" and "pf_msg_type p = 0x07"
  shows "\<exists>u1 u2 u3. do_discover t1 ((raw, now) # first) t2 second u = Inr u1 \<and> do_model t arrivals u1 = Inr u2 \<and>
    do_announce t3 u2 = Inr u3 \<and> uart_reachable config has_client u3 \<and> ua_state u3 = Running \<and>
    ua_appliance u3 = pf_appliance p \<and> ua_queue u3 = ua_queue u"
  by (rule handshake_steps [OF assms])

text \<open>An example: the default configuration, and an appliance of type 0xAC that answers with its serial number.\<close>

definition dongle :: uart_config where
  "dongle = \<lparr>uc_fake_ip = (192, 168, 1, 100), uc_signal_level = 4, uc_mirror_gateway = False, uc_mirror_all = False, uc_max_queue = 16\<rparr>"

lemma dongle_ok: "config_ok dongle"
  by (simp add: dongle_def config_ok_def)

lemma sent_parses:
  assumes "body \<noteq> []" and "length body \<le> 244" and "0 \<le> msg" and "msg < 256"
  shows "\<exists>raw p. build_frame body msg 0xAC 0 0 0 = Inr raw \<and> parse_frame raw = Inr p \<and> pf_msg_type p = msg \<and> pf_appliance p = 0xAC"
  using link.small_builds [of body msg "0xAC" 0 0 0] validate_built [of body msg "0xAC" 0 0 0] assms
  by (fastforce simp: validate_frame_def split: if_splits)

theorem handshake_completes_witness:
  "\<exists>raw u1 u2 u3. do_discover 0 [(raw, 1)] 0 [] (new_uart dongle True) = Inr u1 \<and> do_model 2 [] u1 = Inr u2 \<and>
    do_announce 3 u2 = Inr u3 \<and> uart_reachable dongle True u3 \<and> ua_state u3 = Running \<and> ua_appliance u3 = 0xAC \<and>
    ua_queue u3 = ua_queue (new_uart dongle True)"
proof -
  obtain raw p where r: "parse_frame raw = Inr p" "pf_msg_type p = 7" "pf_appliance p = 0xAC"
    using sent_parses [of "[0x31]" 7] by auto
  have d: "ua_state (new_uart dongle True) = Discover" by (simp add: new_uart_def)
  from handshake_completes [OF uart_reachable.fresh dongle_ok d r(1,2), where ?t1.0 = 0 and now = 1 and first = "[]" and ?t2.0 = 0
      and second = "[]" and t = 2 and arrivals = "[]" and ?t3.0 = 3] show ?thesis
    using r(3) by auto
qed

lemma dongle_runs: "\<exists>u. uart_reachable dongle True u \<and> ua_state u = Running \<and> ua_appliance u = 0xAC \<and> ua_queue u = []"
proof -
  obtain raw p where r: "parse_frame raw = Inr p" "pf_msg_type p = 7" "pf_appliance p = 0xAC"
    using sent_parses [of "[0x31]" 7] by auto
  have d: "ua_state (new_uart dongle True) = Discover" "ua_queue (new_uart dongle True) = []" by (simp_all add: new_uart_def)
  from handshake_steps [OF uart_reachable.fresh dongle_ok d(1) r(1,2)] show ?thesis using r(3) d(2) by metis
qed

theorem uart_protocol_safe_witness:
  "\<exists>u :: uart. ua_state u = Running \<and> length (ua_outstanding u) \<le> 256 \<and>
    (\<exists>f \<in> set (ua_written u). build_network_init 0xAC (uc_fake_ip (ua_config u)) (ua_proto u) (ua_sub u) = Inr f)"
proof -
  obtain u where u: "uart_reachable dongle True u" "ua_state u = Running" "ua_appliance u = 0xAC" using dongle_runs by blast
  from uart_protocol_safe [OF u(1) dongle_ok] u(2,3) have "length (ua_outstanding u) \<le> 256 \<and>
    (\<exists>f \<in> set (ua_written u). build_network_init 0xAC (uc_fake_ip (ua_config u)) (ua_proto u) (ua_sub u) = Inr f)" by simp
  with u(2) show ?thesis by blast
qed

theorem read_frame_resync_witness:
  "\<exists>f. build_frame [0x41, 0x81] 3 0xAC 0 0 7 = Inr f \<and> read_one_frame ([0, 0x55] @ f @ [0xAA]) = (Some f, [0xAA])"
proof -
  obtain f where f: "build_frame [0x41, 0x81] 3 0xAC 0 0 7 = Inr f" using link.small_builds [of "[0x41, 0x81]" 3 "0xAC" 0 0 7] by auto
  from read_frame_resync [OF f, of "[0, 0x55]" "[0xAA]"] f show ?thesis by simp
qed

theorem queries_answered_witness:
  "\<exists>u raw u' f q. do_running 5 (Line_frame raw) 6 u = Inr u' \<and> ua_written u' = ua_written u @ map fst (take 1 (ua_queue u)) @ [f] \<and>
    validate_frame f = Inr q \<and> pf_msg_type q = 0x63 \<and> pf_appliance q = 0xAC"
proof -
  obtain u where u: "uart_reachable dongle True u" "ua_state u = Running" "ua_appliance u = 0xAC" using dongle_runs by blast
  obtain raw p where r: "parse_frame raw = Inr p" "pf_msg_type p = 0x63"
    using sent_parses [of "[0]" "0x63"] by auto
  from queries_answered [OF u(1) dongle_ok u(2) r(1), where ?t_tx = 5 and now = 6] r(2) u(3) show ?thesis by simp blast
qed

theorem transmission_queue_witness:
  "\<exists>u' accepted. queue_frame [0xAA] ''ws:1'' None (new_uart dongle True) = (u', accepted) \<and> accepted \<and>
    ua_queue u' = [([0xAA], ''ws:1'', None)] \<and> ua_queue (transmit_queued 1 u') = []"
proof -
  obtain u' accepted where q: "queue_frame [0xAA] ''ws:1'' None (new_uart dongle True) = (u', accepted)"
    by (cases "queue_frame [0xAA] ''ws:1'' None (new_uart dongle True)")
  from transmission_queue [OF _ _ q, where now = 1] q show ?thesis by (auto simp: new_uart_def dongle_def)
qed

end
