(* ===== verification/Crypto.thy ===== *)
theory Crypto
  imports Json "HOL-Library.Sublist"
begin

section \<open>The encrypted channel (\<open>core/crypto.py\<close>)\<close>

text \<open>
  A session between a client and the gateway: the handshake derives one key and one nonce prefix for
  each direction from the pre-shared key and two random strings; every message is sealed with AES-GCM
  under a nonce made of the prefix and a counter; a receiver only accepts counters above the last one.

  The cryptographic library is an argument: \<open>hkdf secret salt info length\<close>, \<open>scrypt passphrase\<close>, \<open>seal key
  nonce plaintext\<close> (ciphertext and tag) and \<open>unseal key nonce data\<close> (which raises \<open>InvalidTag\<close>).  What
  the properties need of it is a named hypothesis: \<open>unseal\<close> undoes \<open>seal\<close>, and a tag has 16 bytes.
  Random strings are arguments.  Base64 is the standard library's, decoded leniently as there.

  Lemmas: base64 round trip, delivery of what was sealed, replay protection, freshness of nonces,
  agreement of the two ends.
\<close>

subsection \<open>Base64\<close>

definition b64_char :: "nat \<Rightarrow> char" where
  "b64_char n =
     (if n < 26 then char_of (65 + n)
      else if n < 52 then char_of (71 + n)
      else if n < 62 then char_of (n - 4)
      else if n = 62 then CHR ''+'' else CHR ''/'')"

definition b64_value :: "char \<Rightarrow> nat option" where
  "b64_value c =
     (let n = (of_char c :: nat)
      in if 65 \<le> n \<and> n \<le> 90 then Some (n - 65)
         else if 97 \<le> n \<and> n \<le> 122 then Some (n - 71)
         else if 48 \<le> n \<and> n \<le> 57 then Some (n + 4)
         else if c = CHR ''+'' then Some 62
         else if c = CHR ''/'' then Some 63 else None)"

fun b64encode :: "bytes \<Rightarrow> string" where
  "b64encode [] = []"
| "b64encode [a] = [b64_char (unat a div 4), b64_char (unat a mod 4 * 16), CHR ''='', CHR ''='']"
| "b64encode [a, b] =
     [b64_char (unat a div 4), b64_char (unat a mod 4 * 16 + unat b div 16), b64_char (unat b mod 16 * 4), CHR ''='']"
| "b64encode (a # b # c # bs) =
     b64_char (unat a div 4) # b64_char (unat a mod 4 * 16 + unat b div 16) #
     b64_char (unat b mod 16 * 4 + unat c div 64) # b64_char (unat c mod 64) # b64encode bs"

text \<open>The decoder: characters outside of the alphabet are skipped, padding ends the text when it completes a
  group of four; \<open>quad\<close> is the position in the group, \<open>left\<close> the bits carried over.\<close>

fun b64_loop :: "nat \<Rightarrow> nat \<Rightarrow> nat \<Rightarrow> string \<Rightarrow> bytes res" where
  "b64_loop quad left pads [] = (if quad \<noteq> 0 then Inl ValueError else Inr [])"
| "b64_loop quad left pads (c # cs) =
     (if c = CHR ''='' then
        (if quad \<ge> 2 \<and> quad + pads + 1 \<ge> 4 then Inr []
         else b64_loop quad left (if quad \<ge> 2 then pads + 1 else pads) cs)
      else case b64_value c of
             None \<Rightarrow> b64_loop quad left pads cs
           | Some v \<Rightarrow>
               (if quad = 0 then b64_loop 1 v 0 cs
                else if quad = 1 then bind_res (b64_loop 2 (v mod 16) 0 cs) (\<lambda>bs. Inr (word_of_nat (left * 4 + v div 16) # bs))
                else if quad = 2 then bind_res (b64_loop 3 (v mod 4) 0 cs) (\<lambda>bs. Inr (word_of_nat (left * 16 + v div 4) # bs))
                else bind_res (b64_loop 0 0 0 cs) (\<lambda>bs. Inr (word_of_nat (left * 64 + v) # bs))))"

definition b64decode :: "json \<Rightarrow> bytes res" where
  "b64decode j =
     (case j of
        JStr s \<Rightarrow> (if is_ascii s then b64_loop 0 0 0 s else Inl ValueError)
      | _ \<Rightarrow> Inl TypeError)"

subsection \<open>Sessions\<close>

definition PROTOCOL_VERSION :: int where "PROTOCOL_VERSION = 2"
definition RAND_SIZE :: nat where "RAND_SIZE = 512"
definition SESSION_INFO_C2S :: bytes where "SESSION_INFO_C2S = bytes_of_text ''blaueis-session-c2s-v2''"
definition SESSION_INFO_S2C :: bytes where "SESSION_INFO_S2C = bytes_of_text ''blaueis-session-s2c-v2''"
definition NONCE_INFO :: bytes where "NONCE_INFO = bytes_of_text ''blaueis-nonce-v2''"
definition PSK_SCRYPT_SALT :: bytes where "PSK_SCRYPT_SALT = bytes_of_text ''blaueis-gateway-psk-v2''"

record session =
  ss_tx_key :: bytes
  ss_tx_nonce_prefix :: bytes
  ss_rx_key :: bytes
  ss_rx_nonce_prefix :: bytes
  ss_tx_counter :: int
  ss_rx_counter :: pynum

definition new_session :: "bytes \<Rightarrow> bytes \<Rightarrow> bytes \<Rightarrow> bytes \<Rightarrow> session" where
  "new_session tx_key tx_prefix rx_key rx_prefix =
     \<lparr>ss_tx_key = tx_key, ss_tx_nonce_prefix = tx_prefix, ss_rx_key = rx_key, ss_rx_nonce_prefix = rx_prefix,
      ss_tx_counter = 0, ss_rx_counter = Fin (-1)\<rparr>"

text \<open>\<open>struct.pack(">Q", n)\<close>\<close>

definition pack_q :: "int \<Rightarrow> bytes res" where
  "pack_q n = (if 0 \<le> n \<and> n < 2 ^ 64 then Inr (map (\<lambda>i. word_of_int (n div 256 ^ (7 - i))) [0..<8]) else Inl StructError)"

type_synonym seal = "bytes \<Rightarrow> bytes \<Rightarrow> bytes \<Rightarrow> bytes"
type_synonym unseal = "bytes \<Rightarrow> bytes \<Rightarrow> bytes \<Rightarrow> bytes res"

definition encrypt :: "seal \<Rightarrow> bytes \<Rightarrow> session \<Rightarrow> session \<times> json res" where
  "encrypt seal plaintext s =
     (let counter = ss_tx_counter s
      in (s\<lparr>ss_tx_counter := counter + 1\<rparr>,
          bind_res (pack_q counter) (\<lambda>packed.
            let ct = seal (ss_tx_key s) (ss_tx_nonce_prefix s @ packed) plaintext
            in Inr (JObj [(''c'', JInt counter),
                          (''ct'', JStr (b64encode (take (length ct - 16) ct))),
                          (''tag'', JStr (b64encode (drop (length ct - 16) ct)))]))))"

text \<open>The counter of an envelope: its number, and its eight bytes.\<close>

definition number_of_json :: "json \<Rightarrow> pynum res" where
  "number_of_json c =
     (case c of
        JInt i \<Rightarrow> Inr (Fin (of_int i))
      | JBool b \<Rightarrow> Inr (Fin (if b then 1 else 0))
      | JFloat l \<Rightarrow> Inr (float_value l)
      | _ \<Rightarrow> Inl TypeError)"

definition pack_counter :: "json \<Rightarrow> bytes res" where
  "pack_counter c =
     (case c of
        JInt i \<Rightarrow> pack_q i
      | JBool b \<Rightarrow> pack_q (if b then 1 else 0)
      | _ \<Rightarrow> Inl StructError)"

definition decrypt :: "unseal \<Rightarrow> json \<Rightarrow> session \<Rightarrow> session \<times> bytes res" where
  "decrypt unseal envelope s =
     (case bind_res (jitem envelope ''c'') (\<lambda>c. bind_res (number_of_json c) (\<lambda>n. Inr (c, n))) of
        Inl e \<Rightarrow> (s, Inl e)
      | Inr (c, n) \<Rightarrow>
          (if num_le n (ss_rx_counter s) then (s, Inl ReplayError)
           else (s\<lparr>ss_rx_counter := n\<rparr>,
                 bind_res (pack_counter c) (\<lambda>packed.
                 bind_res (bind_res (jitem envelope ''ct'') b64decode) (\<lambda>ct.
                 bind_res (bind_res (jitem envelope ''tag'') b64decode) (\<lambda>tag.
                   unseal (ss_rx_key s) (ss_rx_nonce_prefix s @ packed) (ct @ tag)))))))"

definition encrypt_json :: "seal \<Rightarrow> json \<Rightarrow> session \<Rightarrow> session \<times> string res" where
  "encrypt_json seal obj s =
     (case encrypt seal (bytes_of_text (dumps obj)) s of (s', r) \<Rightarrow> (s', bind_res r (\<lambda>env. Inr (dumps env))))"

definition decrypt_json :: "unseal \<Rightarrow> string \<Rightarrow> session \<Rightarrow> session \<times> json res" where
  "decrypt_json unseal text s =
     (case loads text of
        Inl e \<Rightarrow> (s, Inl e)
      | Inr env \<Rightarrow>
          (case decrypt unseal env s of
             (s', r) \<Rightarrow> (s', bind_res r (\<lambda>p. bind_res (text_of_bytes p) loads))))"

subsection \<open>Derivation and handshake\<close>

type_synonym hkdf = "bytes \<Rightarrow> bytes option \<Rightarrow> bytes \<Rightarrow> nat \<Rightarrow> bytes"

definition derive_direction :: "hkdf \<Rightarrow> bytes \<Rightarrow> bytes \<Rightarrow> bytes \<Rightarrow> bytes \<times> bytes" where
  "derive_direction hkdf psk salt info =
     (let key = hkdf psk (Some salt) info 32 in (key, hkdf key None NONCE_INFO 4))"

definition derive_session :: "hkdf \<Rightarrow> bytes \<Rightarrow> bytes \<Rightarrow> bytes \<Rightarrow> string \<Rightarrow> session res" where
  "derive_session hkdf psk client_rand server_rand role =
     (let salt = client_rand @ server_rand;
          c2s = derive_direction hkdf psk salt SESSION_INFO_C2S;
          s2c = derive_direction hkdf psk salt SESSION_INFO_S2C
      in if role = ''client'' then Inr (new_session (fst c2s) (snd c2s) (fst s2c) (snd s2c))
         else if role = ''server'' then Inr (new_session (fst s2c) (snd s2c) (fst c2s) (snd c2s))
         else Inl ValueError)"

definition create_hello :: "bytes \<Rightarrow> json" where
  "create_hello client_rand =
     JObj [(''type'', JStr ''hello''), (''version'', JInt PROTOCOL_VERSION), (''client_rand'', JStr (b64encode client_rand))]"

definition create_hello_ok :: "bytes \<Rightarrow> json" where
  "create_hello_ok server_rand = JObj [(''type'', JStr ''hello_ok''), (''server_rand'', JStr (b64encode server_rand))]"

definition is_object :: "json \<Rightarrow> bool" where
  "is_object j = (case j of JObj _ \<Rightarrow> True | _ \<Rightarrow> False)"

definition has_type :: "string \<Rightarrow> json \<Rightarrow> bool" where
  "has_type t j \<longleftrightarrow> jget j ''type'' = Some (JStr t)"

text \<open>\<open>d.get("version") == 2\<close>: a JSON number equal to it.\<close>

definition equals_int :: "json option \<Rightarrow> int \<Rightarrow> bool" where
  "equals_int j n = (case j of None \<Rightarrow> False | Some x \<Rightarrow> number_of_json x = Inr (Fin (of_int n)))"

definition complete_handshake_client :: "hkdf \<Rightarrow> bytes \<Rightarrow> bytes \<Rightarrow> json \<Rightarrow> session res" where
  "complete_handshake_client hkdf psk client_rand hello_ok =
     (if \<not> is_object hello_ok then Inl AttributeError
      else if \<not> has_type ''hello_ok'' hello_ok then Inl HandshakeError
      else bind_res (bind_res (jitem hello_ok ''server_rand'') b64decode) (\<lambda>server_rand.
        if length server_rand \<noteq> RAND_SIZE then Inl HandshakeError
        else derive_session hkdf psk client_rand server_rand ''client''))"

definition complete_handshake_server :: "hkdf \<Rightarrow> bytes \<Rightarrow> json \<Rightarrow> bytes \<Rightarrow> session res" where
  "complete_handshake_server hkdf psk hello server_rand =
     (if \<not> is_object hello then Inl AttributeError
      else if \<not> has_type ''hello'' hello then Inl HandshakeError
      else if \<not> equals_int (jget hello ''version'') PROTOCOL_VERSION then Inl HandshakeError
      else bind_res (bind_res (jitem hello ''client_rand'') b64decode) (\<lambda>client_rand.
        if length client_rand \<noteq> RAND_SIZE then Inl HandshakeError
        else derive_session hkdf psk client_rand server_rand ''server''))"

definition psk_to_bytes :: "(bytes \<Rightarrow> bytes \<Rightarrow> bytes) \<Rightarrow> string \<Rightarrow> bytes res" where
  "psk_to_bytes scrypt psk =
     (let psk = strip psk in if psk = [] then Inl ValueError else Inr (scrypt PSK_SCRYPT_SALT (bytes_of_text psk)))"

subsection \<open>Base64 round trip\<close>

lemma b64_value_char: "n < 64 \<Longrightarrow> b64_value (b64_char n) = Some n \<and> b64_char n \<noteq> CHR ''=''"
proof -
  assume "n < 64"
  then consider "n < 26" | "26 \<le> n" "n < 52" | "52 \<le> n" "n < 62" | "n = 62" | "n = 63" by linarith
  then show ?thesis
  proof cases
    case 1
    then have "(of_char (b64_char n) :: nat) = 65 + n" by (simp add: b64_char_def)
    then show ?thesis using 1 by (auto simp: b64_value_def)
  next
    case 2
    then have "(of_char (b64_char n) :: nat) = 71 + n" by (simp add: b64_char_def)
    then show ?thesis using 2 by (auto simp: b64_value_def)
  next
    case 3
    then have "(of_char (b64_char n) :: nat) = n - 4" by (simp add: b64_char_def)
    then show ?thesis using 3 by (auto simp: b64_value_def Let_def)
  qed (simp_all add: b64_char_def b64_value_def)
qed

lemma b64_loop_char:
  assumes "n < 64"
  shows "b64_loop 0 left pads (b64_char n # cs) = b64_loop 1 n 0 cs"
    and "b64_loop 1 left pads (b64_char n # cs) = bind_res (b64_loop 2 (n mod 16) 0 cs) (\<lambda>bs. Inr (word_of_nat (left * 4 + n div 16) # bs))"
    and "b64_loop 2 left pads (b64_char n # cs) = bind_res (b64_loop 3 (n mod 4) 0 cs) (\<lambda>bs. Inr (word_of_nat (left * 16 + n div 4) # bs))"
    and "b64_loop 3 left pads (b64_char n # cs) = bind_res (b64_loop 0 0 0 cs) (\<lambda>bs. Inr (word_of_nat (left * 64 + n) # bs))"
  using b64_value_char [OF assms] by simp_all

lemma byte_splits:
  fixes a b c :: byte
  shows "unat a div 4 < 64" "unat a mod 4 * 16 + unat b div 16 < 64" "unat b mod 16 * 4 + unat c div 64 < 64" "unat c mod 64 < 64"
    "unat a mod 4 * 16 < 64" "unat b mod 16 * 4 < 64"
  using unat_byte_bound [of a] unat_byte_bound [of b] unat_byte_bound [of c] by linarith+

lemma byte_joins:
  fixes a b c :: byte
  shows "word_of_nat (unat a div 4 * 4 + (unat a mod 4 * 16 + unat b div 16) div 16) = a"
    and "word_of_nat (unat a div 4 * 4 + unat a mod 4 * 16 div 16) = a"
    and "(unat a mod 4 * 16 + unat b div 16) mod 16 = unat b div 16"
    and "word_of_nat (unat b div 16 * 16 + (unat b mod 16 * 4 + unat c div 64) div 4) = b"
    and "word_of_nat (unat b div 16 * 16 + unat b mod 16 * 4 div 4) = b"
    and "(unat b mod 16 * 4 + unat c div 64) mod 4 = unat c div 64"
    and "word_of_nat (unat c div 64 * 64 + unat c mod 64) = c"
proof -
  have j: "k < 16 \<Longrightarrow> x div 4 * 4 + (x mod 4 * 16 + k) div 16 = x" "k < 4 \<Longrightarrow> x div 16 * 16 + (x mod 16 * 4 + k) div 4 = x"
    "x div 64 * 64 + x mod 64 = x" for x k :: nat
    by simp_all
  have b: "unat b div 16 < 16" "unat c div 64 < 4" using unat_byte_bound [of b] unat_byte_bound [of c] by linarith+
  note e = j(1) [OF b(1), of "unat a"] j(1) [of 0, simplified add_0_right] j(2) [OF b(2), of "unat b"]
    j(2) [of 0, simplified add_0_right] j(3)
  show "word_of_nat (unat a div 4 * 4 + (unat a mod 4 * 16 + unat b div 16) div 16) = a"
    "word_of_nat (unat a div 4 * 4 + unat a mod 4 * 16 div 16) = a"
    "word_of_nat (unat b div 16 * 16 + (unat b mod 16 * 4 + unat c div 64) div 4) = b"
    "word_of_nat (unat b div 16 * 16 + unat b mod 16 * 4 div 4) = b"
    "word_of_nat (unat c div 64 * 64 + unat c mod 64) = c"
    by (simp_all only: e zero_less_numeral of_nat_unat ucast_id)
  show "(unat a mod 4 * 16 + unat b div 16) mod 16 = unat b div 16" "(unat b mod 16 * 4 + unat c div 64) mod 4 = unat c div 64"
    using b by simp_all
qed

lemmas b64_step = b64_loop_char [OF byte_splits(1)] b64_loop_char [OF byte_splits(2)] b64_loop_char [OF byte_splits(3)]
  b64_loop_char [OF byte_splits(4)] b64_loop_char [OF byte_splits(5)] b64_loop_char [OF byte_splits(6)]

lemma b64_loop_pad:
  "b64_loop 2 left 0 ''=='' = Inr []" "b64_loop 3 left 0 ''='' = Inr []" "b64_loop 0 0 0 [] = Inr []"
  by simp_all

lemma b64_loop_encode: "b64_loop 0 0 0 (b64encode bs) = Inr bs"
  by (induction bs rule: b64encode.induct)
     (simp_all only: b64encode.simps b64_step b64_loop_pad byte_joins bind_res_simps)

lemma b64encode_ascii: "is_ascii (b64encode bs)"
proof -
  have "(of_char (b64_char n) :: nat) < 128" if "n < 64" for n
    using that by (auto simp: b64_char_def)
  then show ?thesis using byte_splits by (induction bs rule: b64encode.induct) simp_all
qed

lemma b64_roundtrip [simp]: "b64decode (JStr (b64encode bs)) = Inr bs"
  by (simp add: b64decode_def b64encode_ascii b64_loop_encode)

subsection \<open>Text\<close>

lemma message_roundtrip: "wf_json j \<Longrightarrow> bind_res (text_of_bytes (bytes_of_text (dumps j))) loads = Inr j"
  by (simp add: text_roundtrip json_roundtrip)

subsection \<open>Counters\<close>

lemma pack_q_ok: "0 \<le> n \<Longrightarrow> n < 2 ^ 64 \<Longrightarrow> \<exists>bs. pack_q n = Inr bs \<and> length bs = 8"
  by (simp add: pack_q_def)

text \<open>The number eight bytes stand for.\<close>

definition unpack_q :: "bytes \<Rightarrow> int" where
  "unpack_q bs = foldl (\<lambda>acc b. 256 * acc + uint b) 0 bs"

lemma unpack_pack: "pack_q n = Inr bs \<Longrightarrow> unpack_q bs = n"
proof -
  assume p: "pack_q n = Inr bs"
  then have n: "0 \<le> n" "n < 2 ^ 64" and bs: "bs = map (\<lambda>i. word_of_int (n div 256 ^ (7 - i))) [0..<8]"
    by (simp_all add: pack_q_def split: if_splits)
  have u: "uint (word_of_int i :: byte) = i mod 256" for i :: int by (simp add: uint_word_of_int)
  have "m \<le> 8 \<Longrightarrow> unpack_q (map (\<lambda>i. word_of_int (n div 256 ^ (7 - i))) [0..<m]) = n div 256 ^ (8 - m)" for m
  proof (induction m)
    case 0
    then show ?case using n by (simp add: unpack_q_def)
  next
    case (Suc m)
    have "n div 256 ^ (8 - m) = (n div 256 ^ (7 - m)) div 256"
      using Suc.prems by (simp add: zdiv_zmult2_eq [symmetric] power_Suc2 [symmetric] Suc_diff_le [symmetric])
    then show ?case using Suc by (simp add: unpack_q_def u)
  qed
  from this [of 8] show ?thesis using bs by simp
qed

lemma pack_q_inj: "pack_q m = Inr bs \<Longrightarrow> pack_q n = Inr bs \<Longrightarrow> m = n"
  using unpack_pack by blast

subsection \<open>What is sealed is delivered\<close>

text \<open>A stateful operation on a list of arguments, one after the other.\<close>

fun thread :: "('a \<Rightarrow> 's \<Rightarrow> 's \<times> 'b) \<Rightarrow> 'a list \<Rightarrow> 's \<Rightarrow> 's \<times> 'b list" where
  "thread f [] s = (s, [])"
| "thread f (x # xs) s = (case f x s of (s', y) \<Rightarrow> case thread f xs s' of (s'', ys) \<Rightarrow> (s'', y # ys))"

lemma thread_length: "length (snd (thread f xs s)) = length xs"
  by (induction xs arbitrary: s) (simp_all add: case_prod_beta)

text \<open>The hypothesis on the cipher.\<close>

definition aead_ok :: "seal \<Rightarrow> unseal \<Rightarrow> bool" where
  "aead_ok seal unseal \<longleftrightarrow> (\<forall>k n p. unseal k n (seal k n p) = Inr p \<and> 16 \<le> length (seal k n p))"

text \<open>The two ends of one direction, with no message of the sender beyond the receiver's counter.\<close>

definition paired :: "session \<Rightarrow> session \<Rightarrow> bool" where
  "paired s r \<longleftrightarrow>
     ss_rx_key r = ss_tx_key s \<and> ss_rx_nonce_prefix r = ss_tx_nonce_prefix s \<and> 0 \<le> ss_tx_counter s \<and>
     (\<exists>q. ss_rx_counter r = Fin (of_int q) \<and> q < ss_tx_counter s)"

lemma encrypt_shape:
  assumes "0 \<le> ss_tx_counter s" and "ss_tx_counter s < 2 ^ 64"
  shows "\<exists>packed ct. pack_q (ss_tx_counter s) = Inr packed \<and>
    ct = seal (ss_tx_key s) (ss_tx_nonce_prefix s @ packed) p \<and>
    encrypt seal p s = (s\<lparr>ss_tx_counter := ss_tx_counter s + 1\<rparr>,
      Inr (JObj [(''c'', JInt (ss_tx_counter s)), (''ct'', JStr (b64encode (take (length ct - 16) ct))),
        (''tag'', JStr (b64encode (drop (length ct - 16) ct)))]))"
  using pack_q_ok [OF assms] by (auto simp: encrypt_def Let_def)

lemma decrypt_encrypted:
  assumes "aead_ok seal unseal" and "paired s r" and "ss_tx_counter s < 2 ^ 64"
  shows "\<exists>env. encrypt seal p s = (s\<lparr>ss_tx_counter := ss_tx_counter s + 1\<rparr>, Inr env) \<and> wf_json env \<and>
    (\<forall>u. ss_rx_key u = ss_rx_key r \<longrightarrow> ss_rx_nonce_prefix u = ss_rx_nonce_prefix r \<longrightarrow>
       (\<exists>q. ss_rx_counter u = Fin (of_int q) \<and> q < ss_tx_counter s) \<longrightarrow>
       decrypt unseal env u = (u\<lparr>ss_rx_counter := Fin (of_int (ss_tx_counter s))\<rparr>, Inr p))"
proof -
  have s: "0 \<le> ss_tx_counter s" "ss_rx_key r = ss_tx_key s" "ss_rx_nonce_prefix r = ss_tx_nonce_prefix s"
    using assms(2) by (simp_all add: paired_def)
  from encrypt_shape [OF s(1) assms(3), of seal p] obtain packed ct where
    e: "pack_q (ss_tx_counter s) = Inr packed" "ct = seal (ss_tx_key s) (ss_tx_nonce_prefix s @ packed) p"
      "encrypt seal p s = (s\<lparr>ss_tx_counter := ss_tx_counter s + 1\<rparr>,
         Inr (JObj [(''c'', JInt (ss_tx_counter s)), (''ct'', JStr (b64encode (take (length ct - 16) ct))),
           (''tag'', JStr (b64encode (drop (length ct - 16) ct)))]))" (is "_ = (_, Inr ?env)") by blast
  have "decrypt unseal ?env u = (u\<lparr>ss_rx_counter := Fin (of_int (ss_tx_counter s))\<rparr>, Inr p)"
    if "ss_rx_key u = ss_rx_key r" "ss_rx_nonce_prefix u = ss_rx_nonce_prefix r"
      "ss_rx_counter u = Fin (of_int q)" "q < ss_tx_counter s" for u q
    using that s(2,3) e(1,2) assms(1)
    by (simp add: decrypt_def jitem_def number_of_json_def pack_counter_def aead_ok_def)
  then show ?thesis using e(3) by (auto simp: dkeys_def)
qed

text \<open>The same for the texts of messages.\<close>

lemma json_encrypted:
  assumes "aead_ok seal unseal" and "paired s r" and "ss_tx_counter s < 2 ^ 64" and "wf_json j"
  shows "\<exists>sealed. encrypt_json seal j s = (s\<lparr>ss_tx_counter := ss_tx_counter s + 1\<rparr>, Inr sealed) \<and>
    (\<forall>u. ss_rx_key u = ss_rx_key r \<longrightarrow> ss_rx_nonce_prefix u = ss_rx_nonce_prefix r \<longrightarrow>
       (\<exists>q. ss_rx_counter u = Fin (of_int q) \<and> q < ss_tx_counter s) \<longrightarrow>
       decrypt_json unseal sealed u = (u\<lparr>ss_rx_counter := Fin (of_int (ss_tx_counter s))\<rparr>, Inr j))"
proof -
  from decrypt_encrypted [OF assms(1-3), of "bytes_of_text (dumps j)"] obtain env where
    e: "encrypt seal (bytes_of_text (dumps j)) s = (s\<lparr>ss_tx_counter := ss_tx_counter s + 1\<rparr>, Inr env)" "wf_json env" and
    d: "\<And>u. ss_rx_key u = ss_rx_key r \<Longrightarrow> ss_rx_nonce_prefix u = ss_rx_nonce_prefix r \<Longrightarrow>
       (\<exists>q. ss_rx_counter u = Fin (of_int q) \<and> q < ss_tx_counter s) \<Longrightarrow>
       decrypt unseal env u = (u\<lparr>ss_rx_counter := Fin (of_int (ss_tx_counter s))\<rparr>, Inr (bytes_of_text (dumps j)))" by blast
  show ?thesis
    using e d message_roundtrip [OF assms(4)]
    by (intro exI [of _ "dumps env"]) (auto simp: encrypt_json_def decrypt_json_def json_roundtrip)
qed

text \<open>Whatever is lost on the way, what arrives is what was sent, in order.\<close>

lemma channel_delivers:
  assumes "aead_ok seal unseal" and "paired s r" and "ss_tx_counter s + int (length js) \<le> 2 ^ 64" and "list_all wf_json js"
  shows "\<exists>s' texts. thread (encrypt_json seal) js s = (s', map Inr texts) \<and> length texts = length js \<and>
    (\<forall>sel. subseq sel (zip js texts) \<longrightarrow>
       snd (thread (decrypt_json unseal) (map snd sel) r) = map (\<lambda>(j, _). Inr j) sel)"
  using assms(2-4)
proof (induction js arbitrary: s r)
  case Nil
  then show ?case by (auto dest: list_emb_Nil2)
next
  case (Cons j js)
  have lt: "ss_tx_counter s < 2 ^ 64" using Cons.prems(2) by simp
  let ?s = "s\<lparr>ss_tx_counter := ss_tx_counter s + 1\<rparr>"
  obtain sealed where t: "encrypt_json seal j s = (?s, Inr sealed)" and
    d: "\<And>u. ss_rx_key u = ss_rx_key r \<Longrightarrow> ss_rx_nonce_prefix u = ss_rx_nonce_prefix r \<Longrightarrow>
       (\<exists>q. ss_rx_counter u = Fin (of_int q) \<and> q < ss_tx_counter s) \<Longrightarrow>
       decrypt_json unseal sealed u = (u\<lparr>ss_rx_counter := Fin (of_int (ss_tx_counter s))\<rparr>, Inr j)"
    using json_encrypted [OF assms(1) Cons.prems(1) lt, of j] Cons.prems(3) by auto
  let ?r = "r\<lparr>ss_rx_counter := Fin (of_int (ss_tx_counter s))\<rparr>"
  have p: "paired ?s r" "paired ?s ?r" using Cons.prems(1) by (fastforce simp: paired_def)+
  have rest: "\<exists>s' texts. thread (encrypt_json seal) js ?s = (s', map Inr texts) \<and> length texts = length js \<and>
      (\<forall>sel. subseq sel (zip js texts) \<longrightarrow> snd (thread (decrypt_json unseal) (map snd sel) u) = map (\<lambda>(j, _). Inr j) sel)"
    if "paired ?s u" for u
    using Cons.IH [OF that] Cons.prems(2,3) by simp
  from rest [OF p(1)] obtain s' texts where
    e: "thread (encrypt_json seal) js ?s = (s', map Inr texts)" "length texts = length js" and
    skipped: "\<And>sel. subseq sel (zip js texts) \<Longrightarrow> snd (thread (decrypt_json unseal) (map snd sel) r) = map (\<lambda>(j, _). Inr j) sel"
    by blast
  from rest [OF p(2)] e(1) have
    kept: "\<And>sel. subseq sel (zip js texts) \<Longrightarrow> snd (thread (decrypt_json unseal) (map snd sel) ?r) = map (\<lambda>(j, _). Inr j) sel"
    by (auto dest!: map_injective [OF _ inj_Inr] simp: inj_on_def)
  have now: "decrypt_json unseal sealed r = (?r, Inr j)" using Cons.prems(1) by (intro d) (auto simp: paired_def)
  have "snd (thread (decrypt_json unseal) (map snd sel) r) = map (\<lambda>(j, _). Inr j) sel"
    if "subseq sel (zip (j # js) (sealed # texts))" for sel
  proof (cases sel)
    case Nil
    then show ?thesis by simp
  next
    case (Cons x xs)
    show ?thesis
    proof (cases "x = (j, sealed)")
      case True
      then have "subseq xs (zip js texts)" using that Cons by (metis subseq_Cons2_iff zip_Cons_Cons)
      then show ?thesis using Cons True now kept by (auto split: prod.split simp: prod_eq_iff)
    next
      case False
      then have "subseq sel (zip js texts)" using that Cons by (metis subseq_Cons2_neq zip_Cons_Cons)
      then show ?thesis by (rule skipped)
    qed
  qed
  then show ?case using t e by (auto intro!: exI [of _ "sealed # texts"])
qed

subsection \<open>Agreement of the two ends\<close>

lemma hello_ok: "wf_json (create_hello r)" "wf_json (create_hello_ok r)"
  by (simp_all add: create_hello_def create_hello_ok_def dkeys_def)

lemma handshake_pairs:
  assumes "length client_rand = RAND_SIZE" and "length server_rand = RAND_SIZE"
  shows "\<exists>cs ss. complete_handshake_server hkdf psk (create_hello client_rand) server_rand = Inr ss \<and>
    complete_handshake_client hkdf psk client_rand (create_hello_ok server_rand) = Inr cs \<and>
    paired cs ss \<and> paired ss cs \<and> ss_tx_counter cs = 0 \<and> ss_tx_counter ss = 0"
  using assms
  by (simp add: complete_handshake_server_def complete_handshake_client_def create_hello_def create_hello_ok_def
      is_object_def has_type_def jget_def jitem_def equals_int_def number_of_json_def PROTOCOL_VERSION_def
      derive_session_def derive_direction_def new_session_def paired_def Let_def)
    (rule exI [of _ "-1"], simp)+

text \<open>C15: The channel delivers: when both ends use the same key, the two handshake texts lead to two sessions of
  which each decrypts what the other encrypts: however many messages are lost, those that arrive in
  order are exactly the messages that were sent, up to the last of the 2^64 counters.\<close>

theorem channel_agrees:
  assumes "aead_ok seal unseal" and "length client_rand = RAND_SIZE" and "length server_rand = RAND_SIZE"
    and "list_all wf_json msgs" and "int (length msgs) \<le> 2 ^ 64"
  shows "\<exists>hello hello_ok cs ss. loads (dumps (create_hello client_rand)) = Inr hello \<and>
    complete_handshake_server hkdf psk hello server_rand = Inr ss \<and>
    loads (dumps (create_hello_ok server_rand)) = Inr hello_ok \<and>
    complete_handshake_client hkdf psk client_rand hello_ok = Inr cs \<and>
    (\<forall>(a, b) \<in> {(cs, ss), (ss, cs)}.
       \<exists>a' texts. thread (encrypt_json seal) msgs a = (a', map Inr texts) \<and> length texts = length msgs \<and>
         (\<forall>sel. subseq sel (zip msgs texts) \<longrightarrow>
            snd (thread (decrypt_json unseal) (map snd sel) b) = map (\<lambda>(j, _). Inr j) sel))"
proof -
  obtain cs ss where h: "complete_handshake_server hkdf psk (create_hello client_rand) server_rand = Inr ss"
      "complete_handshake_client hkdf psk client_rand (create_hello_ok server_rand) = Inr cs" and
    p: "paired cs ss" "paired ss cs" "ss_tx_counter cs = 0" "ss_tx_counter ss = 0"
    using handshake_pairs [OF assms(2,3)] by blast
  note d = channel_delivers [OF assms(1) _ _ assms(4)]
  from d [OF p(1)] d [OF p(2)] show ?thesis using h hello_ok json_roundtrip p(3,4) assms(5) by fastforce
qed

subsection \<open>Replays and nonces\<close>

definition envelope_counter :: "json \<Rightarrow> int" where
  "envelope_counter env = (case jget env ''c'' of Some (JInt i) \<Rightarrow> i | Some (JBool b) \<Rightarrow> (if b then 1 else 0) | _ \<Rightarrow> 0)"

definition counts_nan :: "json \<Rightarrow> bool" where
  "counts_nan env \<longleftrightarrow> (case jget env ''c'' of Some c \<Rightarrow> number_of_json c = Inr Nan | None \<Rightarrow> False)"

lemma jitem_cases: "jitem j k = (case jget j k of Some x \<Rightarrow> Inr x | None \<Rightarrow> Inl (if is_object j then KeyError else TypeError))"
  by (auto simp: jitem_def jget_def is_object_def split: json.split option.split)

lemma pack_counter_Inr:
  assumes "pack_counter c = Inr bs" and "number_of_json c = Inr n"
  shows "\<exists>i. n = Fin (of_int i) \<and> pack_q i = Inr bs \<and> (c = JInt i \<or> (\<exists>b. c = JBool b \<and> i = (if b then 1 else 0)))"
  using assms by (cases c) (auto simp: pack_counter_def number_of_json_def)

lemma decrypt_fresh:
  assumes "jget env ''c'' = Some c" and "number_of_json c = Inr n" and "\<not> num_le n (ss_rx_counter s)"
  shows "decrypt unseal env s = (s\<lparr>ss_rx_counter := n\<rparr>,
    bind_res (pack_counter c) (\<lambda>packed.
    bind_res (bind_res (jitem env ''ct'') b64decode) (\<lambda>ct.
    bind_res (bind_res (jitem env ''tag'') b64decode) (\<lambda>tag.
      unseal (ss_rx_key s) (ss_rx_nonce_prefix s @ packed) (ct @ tag)))))"
  using assms by (simp add: decrypt_def jitem_cases [of env "''c''"])

lemma bind3_Inr:
  "bind_res a (\<lambda>x. bind_res b (\<lambda>y. bind_res c (\<lambda>z. u x y z))) = Inr p \<Longrightarrow> \<exists>x y z. a = Inr x \<and> u x y z = Inr p"
  by (cases a; cases b; cases c) auto

text \<open>What a call of \<open>decrypt\<close> does to the counter.\<close>

lemma decrypt_effect:
  assumes "decrypt unseal env s = (s', r)"
  shows "(s' = s \<and> r \<in> {Inl KeyError, Inl TypeError, Inl ReplayError}) \<or>
    (\<exists>n. \<not> num_le n (ss_rx_counter s) \<and> s' = s\<lparr>ss_rx_counter := n\<rparr> \<and> (counts_nan env \<longleftrightarrow> n = Nan) \<and>
       (\<forall>p. r = Inr p \<longrightarrow> n = Fin (of_int (envelope_counter env)) \<and>
          (\<exists>packed data. pack_q (envelope_counter env) = Inr packed \<and>
             unseal (ss_rx_key s) (ss_rx_nonce_prefix s @ packed) data = Inr p)))"
proof (cases "bind_res (jitem env ''c'') (\<lambda>c. bind_res (number_of_json c) (\<lambda>n. Inr (c, n)))")
  case (Inl e)
  then have "e \<in> {KeyError, TypeError}"
    by (auto simp: jitem_cases number_of_json_def bind_res_def split: option.splits json.splits sum.splits if_splits)
  then show ?thesis using assms Inl by (auto simp: decrypt_def)
next
  case (Inr cn)
  then obtain c n where c: "cn = (c, n)" "jget env ''c'' = Some c" "number_of_json c = Inr n"
    by (auto simp: jitem_cases split: option.splits)
  show ?thesis
  proof (cases "num_le n (ss_rx_counter s)")
    case True
    then show ?thesis using assms Inr c(1) by (simp add: decrypt_def)
  next
    case False
    have ec: "envelope_counter env = i" if "c = JInt i \<or> (\<exists>b. c = JBool b \<and> i = (if b then 1 else 0))" for i
      using c(2) that by (auto simp: envelope_counter_def)
    have a: "s' = s\<lparr>ss_rx_counter := n\<rparr>" using assms decrypt_fresh [OF c(2,3) False] by simp
    have b: "counts_nan env \<longleftrightarrow> n = Nan" using c(2,3) by (simp add: counts_nan_def)
    have p: "n = Fin (of_int (envelope_counter env)) \<and> (\<exists>packed data. pack_q (envelope_counter env) = Inr packed \<and>
        unseal (ss_rx_key s) (ss_rx_nonce_prefix s @ packed) data = Inr p)" if "r = Inr p" for p
    proof -
      note d = decrypt_fresh [OF c(2,3) False, of unseal, unfolded assms prod.inject, THEN conjunct2, symmetric]
      from bind3_Inr [OF d [unfolded that]] obtain packed data where
        k: "pack_counter c = Inr packed" "unseal (ss_rx_key s) (ss_rx_nonce_prefix s @ packed) data = Inr p" by blast
      from pack_counter_Inr [OF k(1) c(3)] obtain i where
        i: "n = Fin (of_int i)" "pack_q i = Inr packed" "c = JInt i \<or> (\<exists>b. c = JBool b \<and> i = (if b then 1 else 0))" by blast
      show ?thesis using i(1,2) k(2) ec [OF i(3)] by auto
    qed
    then show ?thesis using False a b by (intro disjI2 exI [of _ n]) simp
  qed
qed

text \<open>The counters and plaintexts a receiver accepts from a list of envelopes.\<close>

fun accepted :: "unseal \<Rightarrow> json list \<Rightarrow> session \<Rightarrow> (int \<times> bytes) list" where
  "accepted unseal [] s = []"
| "accepted unseal (env # envs) s =
     (case decrypt unseal env s of
        (s', Inl _) \<Rightarrow> accepted unseal envs s'
      | (s', Inr p) \<Rightarrow> (envelope_counter env, p) # accepted unseal envs s')"

lemma num_le_trans: "\<not> num_le n m \<Longrightarrow> n \<noteq> Nan \<Longrightarrow> m \<noteq> Nan \<Longrightarrow> \<not> num_le (Fin c) n \<Longrightarrow> \<not> num_le (Fin c) m"
  by (cases n; cases m) auto

lemma accepted_increase:
  assumes "ss_rx_counter s \<noteq> Nan" and "list_all (\<lambda>env. \<not> counts_nan env) envs"
  shows "sorted_wrt (<) (map fst (accepted unseal envs s)) \<and>
    (\<forall>c \<in> fst ` set (accepted unseal envs s). \<not> num_le (Fin (of_int c)) (ss_rx_counter s))"
  using assms
proof (induction envs arbitrary: s)
  case Nil
  then show ?case by simp
next
  case (Cons env envs)
  obtain s' r where d: "decrypt unseal env s = (s', r)" by (cases "decrypt unseal env s")
  from decrypt_effect [OF d] consider (same) "s' = s" "\<exists>e. r = Inl e"
    | (moved) n where "\<not> num_le n (ss_rx_counter s)" "s' = s\<lparr>ss_rx_counter := n\<rparr>" "n \<noteq> Nan"
        "\<forall>p. r = Inr p \<longrightarrow> n = Fin (of_int (envelope_counter env))"
    using Cons.prems(2) by auto
  then show ?case
  proof cases
    case same
    then show ?thesis using Cons.IH [of s] Cons.prems d by auto
  next
    case moved
    from Cons.IH [of s'] moved(2,3) Cons.prems(2) have
      ih: "sorted_wrt (<) (map fst (accepted unseal envs s'))"
        "\<forall>c \<in> fst ` set (accepted unseal envs s'). \<not> num_le (Fin (of_int c)) n" by simp_all
    then have up: "\<forall>c \<in> fst ` set (accepted unseal envs s'). \<not> num_le (Fin (of_int c)) (ss_rx_counter s)"
      using num_le_trans [OF moved(1,3) Cons.prems(1)] by blast
    show ?thesis
    proof (cases r)
      case (Inl e)
      then show ?thesis using d ih(1) up by simp
    next
      case (Inr p)
      then have "n = Fin (of_int (envelope_counter env))" using moved(4) by blast
      then show ?thesis using d Inr ih up moved(1) by (auto simp: not_le)
    qed
  qed
qed

text \<open>C16: No message is accepted twice: whatever envelopes arrive at a receiver, replayed, reordered or forged,
  the counters of those it accepts strictly increase (unless a forged counter is the constant \<open>NaN\<close>).\<close>

theorem no_replay:
  assumes "ss_rx_counter s \<noteq> Nan" and "list_all (\<lambda>env. \<not> counts_nan env) envs"
  shows "sorted_wrt (<) (map fst (accepted unseal envs s))"
  using accepted_increase [OF assms] by blast

text \<open>The constant \<open>NaN\<close>, which the library's parser accepts as a number, is not refused as a replay and is
  stored before the counter is packed: the receiver forgets what it has seen.\<close>

lemma nan_forgets:
  assumes "decrypt unseal env s = (s1, Inr p)"
  shows "\<exists>s2. decrypt unseal (JObj [(''c'', JFloat ''NaN'')]) s1 = (s2, Inl StructError) \<and>
    decrypt unseal env s2 = (s1, Inr p)"
proof -
  have nan: "float_value ''NaN'' = Nan" by (simp add: float_value_def)
  have "decrypt unseal (JObj [(''c'', JFloat ''NaN'')]) s1 = (s1\<lparr>ss_rx_counter := Nan\<rparr>, Inl StructError)"
    using decrypt_fresh [of "JObj [(''c'', JFloat ''NaN'')]" "JFloat ''NaN''" Nan s1 unseal] nan
    by (simp add: jget_def number_of_json_def pack_counter_def)
  moreover have "decrypt unseal env (s1\<lparr>ss_rx_counter := Nan\<rparr>) = (s1, Inr p)"
  proof (cases "bind_res (jitem env ''c'') (\<lambda>c. bind_res (number_of_json c) (\<lambda>n. Inr (c, n)))")
    case (Inl e)
    then show ?thesis using assms by (simp add: decrypt_def)
  next
    case (Inr cn)
    then obtain c n where c: "cn = (c, n)" "jget env ''c'' = Some c" "number_of_json c = Inr n"
      by (auto simp: jitem_cases split: option.splits)
    have fresh: "\<not> num_le n (ss_rx_counter s)" using assms Inr c(1) by (auto simp: decrypt_def split: if_splits)
    have "\<not> num_le n Nan" by (cases n) simp_all
    then show ?thesis using assms decrypt_fresh [OF c(2,3) fresh, of unseal] decrypt_fresh [OF c(2,3), of "s1\<lparr>ss_rx_counter := Nan\<rparr>" unseal] by auto
  qed
  ultimately show ?thesis by blast
qed

text \<open>The counter is stored before the tag is checked: a forged envelope with the last counter, whatever its
  tag, makes the receiver refuse every genuine message.\<close>

lemma forged_counter_blocks:
  assumes "paired s r" and "ss_tx_counter s < 2 ^ 64 - 1" and "\<And>k n. unseal k n [] = Inl InvalidTag"
  shows "\<exists>r' s' env. decrypt unseal (JObj [(''c'', JInt (2 ^ 64 - 1)), (''ct'', JStr []), (''tag'', JStr [])]) r = (r', Inl InvalidTag) \<and>
    encrypt seal p s = (s', Inr env) \<and> decrypt unseal env r' = (r', Inl ReplayError)"
proof -
  let ?c = "JInt (2 ^ 64 - 1)"
  let ?forged = "JObj [(''c'', ?c), (''ct'', JStr []), (''tag'', JStr [])]"
  let ?r = "r\<lparr>ss_rx_counter := Fin (of_int (2 ^ 64 - 1))\<rparr>"
  obtain q where q: "ss_rx_counter r = Fin (of_int q)" "q < ss_tx_counter s" "0 \<le> ss_tx_counter s" using assms(1) by (auto simp: paired_def)
  have n: "number_of_json ?c = Inr (Fin (of_int (2 ^ 64 - 1)))" by (simp add: number_of_json_def)
  have "\<not> num_le (Fin (of_int (2 ^ 64 - 1))) (ss_rx_counter r)"
    unfolding q(1) num_le.simps of_int_le_iff using q(2) assms(2) by linarith
  from decrypt_fresh [OF _ n this, of ?forged unseal] have
    d: "decrypt unseal ?forged r = (?r, Inl InvalidTag)"
    by (simp add: jget_def jitem_def pack_counter_def pack_q_def b64decode_def assms(3))
  obtain s' env where e: "encrypt seal p s = (s', Inr env)" "jget env ''c'' = Some (JInt (ss_tx_counter s))"
    using encrypt_shape [OF q(3), of seal p] assms(2) by (auto simp: jget_def)
  have "num_le (Fin (of_int (ss_tx_counter s))) (Fin (of_int (2 ^ 64 - 1)))"
    unfolding num_le.simps of_int_le_iff using assms(2) by linarith
  then have "decrypt unseal env ?r = (?r, Inl ReplayError)"
    using e(2) by (simp add: decrypt_def jitem_cases number_of_json_def)
  then show ?thesis using d e(1) by blast
qed

lemma encrypt_counter: "encrypt seal p s = (s', r) \<Longrightarrow> ss_tx_counter s' = ss_tx_counter s + 1 \<and>
    (\<forall>env. r = Inr env \<longrightarrow> jget env ''c'' = Some (JInt (ss_tx_counter s)) \<and> 0 \<le> ss_tx_counter s \<and> ss_tx_counter s < 2 ^ 64)"
  by (auto simp: encrypt_def Let_def jget_def pack_q_def split: if_splits)

lemma thread_encrypt_counter:
  assumes "thread (encrypt seal) ps s = (s', rs)" and "i < length rs" and "rs ! i = Inr env"
  shows "jget env ''c'' = Some (JInt (ss_tx_counter s + int i)) \<and> 0 \<le> ss_tx_counter s + int i \<and> ss_tx_counter s + int i < 2 ^ 64"
  using assms
proof (induction ps arbitrary: s rs i)
  case Nil
  then show ?case by simp
next
  case (Cons p ps)
  obtain s1 r1 where e: "encrypt seal p s = (s1, r1)" by (cases "encrypt seal p s")
  obtain s2 rs2 where t: "thread (encrypt seal) ps s1 = (s2, rs2)" by (cases "thread (encrypt seal) ps s1")
  have rs: "rs = r1 # rs2" "s' = s2" using Cons.prems(1) e t by simp_all
  show ?case
  proof (cases i)
    case 0
    then show ?thesis using encrypt_counter [OF e] Cons.prems(3) rs by simp
  next
    case (Suc j)
    then show ?thesis using Cons.IH [of s1 rs2 j] t Cons.prems rs encrypt_counter [OF e] by simp
  qed
qed

text \<open>Nonces never repeat: two messages a session ever encrypts, whatever the plaintexts and however many,
  have different nonces under its key; when the counter is exhausted encryption fails instead.\<close>

theorem nonces_never_repeat:
  assumes "thread (encrypt seal) ps s = (s', rs)" and "i < j" and "j < length rs"
    and "rs ! i = Inr e" and "rs ! j = Inr f"
  shows "\<exists>m n bs cs. jget e ''c'' = Some m \<and> jget f ''c'' = Some n \<and> pack_counter m = Inr bs \<and> pack_counter n = Inr cs \<and>
    ss_tx_nonce_prefix s @ bs \<noteq> ss_tx_nonce_prefix s @ cs"
proof -
  let ?m = "ss_tx_counter s + int i" and ?n = "ss_tx_counter s + int j"
  have e: "jget e ''c'' = Some (JInt ?m)" "0 \<le> ?m" "?m < 2 ^ 64"
    using thread_encrypt_counter [OF assms(1) _ assms(4)] assms(2,3) by simp_all
  have f: "jget f ''c'' = Some (JInt ?n)" "0 \<le> ?n" "?n < 2 ^ 64"
    using thread_encrypt_counter [OF assms(1,3,5)] by simp_all
  obtain bs cs where p: "pack_q ?m = Inr bs" "pack_q ?n = Inr cs" using pack_q_ok e(2,3) f(2,3) by meson
  have "bs \<noteq> cs" using pack_q_inj [of ?m bs ?n] p assms(2) by auto
  then show ?thesis using e(1) f(1) p by (simp add: pack_counter_def)
qed

subsection \<open>Examples\<close>

text \<open>A cipher that satisfies the hypothesis: the tag names key and nonce.\<close>

definition demo_tag :: "bytes \<Rightarrow> bytes \<Rightarrow> bytes" where
  "demo_tag k n = take 16 (n @ k @ replicate 16 0)"

definition demo_seal :: seal where
  "demo_seal k n p = p @ demo_tag k n"

definition demo_unseal :: unseal where
  "demo_unseal k n d = (if drop (length d - 16) d = demo_tag k n then Inr (take (length d - 16) d) else Inl InvalidTag)"

definition demo_hkdf :: hkdf where
  "demo_hkdf secret salt info n = replicate n (word_of_nat (length info))"

lemma demo_tag_length: "length (demo_tag k n) = 16"
  by (simp add: demo_tag_def)

lemma demo_aead: "aead_ok demo_seal demo_unseal"
  by (simp add: aead_ok_def demo_seal_def demo_unseal_def demo_tag_length)

definition ping :: json where
  "ping = JObj [(''type'', JStr ''ping'')]"

theorem channel_agrees_witness:
  "\<exists>hello hello_ok cs ss. loads (dumps (create_hello (replicate 512 7))) = Inr hello \<and>
    complete_handshake_server demo_hkdf [] hello (replicate 512 9) = Inr ss \<and>
    loads (dumps (create_hello_ok (replicate 512 9))) = Inr hello_ok \<and>
    complete_handshake_client demo_hkdf [] (replicate 512 7) hello_ok = Inr cs \<and>
    (\<exists>a' texts. thread (encrypt_json demo_seal) [ping, ping] cs = (a', map Inr texts) \<and>
       snd (thread (decrypt_json demo_unseal) texts ss) = [Inr ping, Inr ping])"
proof -
  have "list_all wf_json [ping, ping]" by (simp add: ping_def dkeys_def)
  from channel_agrees [OF demo_aead _ _ this, of "replicate 512 7" "replicate 512 9" demo_hkdf "[]"]
  obtain hello hello_ok cs ss where
    h: "loads (dumps (create_hello (replicate 512 7))) = Inr hello" "complete_handshake_server demo_hkdf [] hello (replicate 512 9) = Inr ss"
      "loads (dumps (create_hello_ok (replicate 512 9))) = Inr hello_ok" "complete_handshake_client demo_hkdf [] (replicate 512 7) hello_ok = Inr cs" and
    d: "\<exists>a' texts. thread (encrypt_json demo_seal) [ping, ping] cs = (a', map Inr texts) \<and> length texts = length [ping, ping] \<and>
         (\<forall>sel. subseq sel (zip [ping, ping] texts) \<longrightarrow>
            snd (thread (decrypt_json demo_unseal) (map snd sel) ss) = map (\<lambda>(j, _). Inr j) sel)"
    by (auto simp: RAND_SIZE_def)
  then obtain a' texts where t: "thread (encrypt_json demo_seal) [ping, ping] cs = (a', map Inr texts)" "length texts = 2"
      "snd (thread (decrypt_json demo_unseal) (map snd (zip [ping, ping] texts)) ss) = map (\<lambda>(j, _). Inr j) (zip [ping, ping] texts)"
    by auto
  then obtain x y where "texts = [x, y]" by (auto simp: length_Suc_conv numeral_2_eq_2)
  with t(3) have "snd (thread (decrypt_json demo_unseal) texts ss) = [Inr ping, Inr ping]" by (simp del: thread.simps)
  with t(1) h show ?thesis by blast
qed

theorem no_replay_witness:
  "sorted_wrt (<) (map fst (accepted demo_unseal
     [JObj [(''c'', JInt 5), (''ct'', JStr []), (''tag'', JStr [])], JObj [(''c'', JInt 5), (''ct'', JStr []), (''tag'', JStr [])]]
     (new_session [1] [2] [3] [4])))"
  by (rule no_replay) (simp_all add: new_session_def counts_nan_def jget_def number_of_json_def)

theorem nonces_never_repeat_witness:
  "\<exists>e f s' m n bs cs. thread (encrypt demo_seal) [[], []] (new_session [1] [2] [3] [4]) = (s', [Inr e, Inr f]) \<and>
    jget e ''c'' = Some m \<and> jget f ''c'' = Some n \<and> pack_counter m = Inr bs \<and> pack_counter n = Inr cs \<and>
    ss_tx_nonce_prefix (new_session [1] [2] [3] [4]) @ bs \<noteq> ss_tx_nonce_prefix (new_session [1] [2] [3] [4]) @ cs"
proof -
  let ?s = "new_session [1] [2] [3] [4]"
  obtain s1 e where e: "encrypt demo_seal [] ?s = (s1, Inr e)" "s1 = ?s\<lparr>ss_tx_counter := 1\<rparr>"
    using encrypt_shape [of ?s demo_seal "[]"] by (auto simp: new_session_def)
  obtain s2 f where f: "encrypt demo_seal [] s1 = (s2, Inr f)"
    using encrypt_shape [of s1 demo_seal "[]"] e(2) by auto
  have t: "thread (encrypt demo_seal) [[], []] ?s = (s2, [Inr e, Inr f])" using e(1) f by simp
  from nonces_never_repeat [OF t, of 0 1 e f] t show ?thesis by auto
qed

end
