(* ===== verification/Pools.thy ===== *)
theory Pools
  imports Json "HOL-Library.Sublist"
begin

section \<open>Slots and the flight recorder (\<open>gateway/slot_pool.py\<close>, \<open>core/debug_ring.py\<close>)\<close>

text \<open>
  The bounded resources of the gateway: the pool of client slots, which hands out the lowest free one,
  and the ring of log records, bounded in bytes.  Both are guarded by locks, so each operation is one
  step.

  A log record carries the standard attributes the ring reads and the \<open>extra\<close> fields of the call, with
  the texts already formatted; a record whose message or value cannot be serialised is \<open>None\<close> (the
  handler drops it).

  Lemmas: what a pool of numbered slots promises, as a locale; the ring is a suffix of what was
  recorded, the longest that fits.
\<close>

subsection \<open>Slot pool\<close>

record slot_pool =
  sp_size :: nat
  sp_in_use :: "nat list"  \<comment> \<open>a set; in the order of acquisition\<close>

definition new_slot_pool :: "int \<Rightarrow> slot_pool res" where
  "new_slot_pool n = (if n \<le> 0 then Inl ValueError else Inr \<lparr>sp_size = nat n, sp_in_use = []\<rparr>)"

definition in_use_count :: "slot_pool \<Rightarrow> nat" where
  "in_use_count p = length (sp_in_use p)"

definition acquire :: "slot_pool \<Rightarrow> slot_pool \<times> nat res" where
  "acquire p =
     (case filter (\<lambda>slot. slot \<notin> set (sp_in_use p)) [0..<sp_size p] of
        [] \<Rightarrow> (p, Inl SlotPoolExhausted)
      | slot # _ \<Rightarrow> (p\<lparr>sp_in_use := sp_in_use p @ [slot]\<rparr>, Inr slot))"

definition release :: "int \<Rightarrow> slot_pool \<Rightarrow> slot_pool" where
  "release slot p = p\<lparr>sp_in_use := filter (\<lambda>s. int s \<noteq> slot) (sp_in_use p)\<rparr>"

definition pool_snapshot :: "slot_pool \<Rightarrow> nat list" where
  "pool_snapshot p = sort (sp_in_use p)"

definition pool_ok :: "slot_pool \<Rightarrow> bool" where
  "pool_ok p \<longleftrightarrow> distinct (sp_in_use p) \<and> set (sp_in_use p) \<subseteq> {..<sp_size p}"

subsection \<open>What a pool promises\<close>

locale numbered_pool =
  fixes take_slot :: "'p \<Rightarrow> 'p \<times> nat res"
    and give_back :: "nat \<Rightarrow> 'p \<Rightarrow> 'p"
    and held :: "'p \<Rightarrow> nat set"
    and capacity :: "'p \<Rightarrow> nat"
    and sane :: "'p \<Rightarrow> bool"
  assumes taken: "sane p \<Longrightarrow> take_slot p = (p', Inr n) \<Longrightarrow>
      sane p' \<and> n \<notin> held p \<and> held p' = insert n (held p) \<and> capacity p' = capacity p \<and>
      n < capacity p \<and> (\<forall>m < n. m \<in> held p)"
    and exhausted: "sane p \<Longrightarrow> take_slot p = (p', Inl e) \<Longrightarrow> p' = p \<and> held p = {..<capacity p}"
    and given: "sane p \<Longrightarrow> sane (give_back n p) \<and> held (give_back n p) = held p - {n} \<and> capacity (give_back n p) = capacity p"
    and bounded: "sane p \<Longrightarrow> held p \<subseteq> {..<capacity p}"
begin

text \<open>No two holders share a slot, and there are never more of them than slots.\<close>

lemma no_sharing:
  assumes "sane p" and "take_slot p = (p1, Inr m)" and "take_slot p1 = (p2, Inr n)"
  shows "m \<noteq> n"
  using taken [OF assms(1,2)] taken [OF _ assms(3)] by auto

lemma never_more: "sane p \<Longrightarrow> card (held p) \<le> capacity p"
  using card_mono [OF finite_lessThan bounded] by fastforce

text \<open>A full pool has room again as soon as one slot is given back, and hands out that slot.\<close>

lemma given_back_is_free:
  assumes "sane p" and "held p = {..<capacity p}" and "n < capacity p" and "take_slot (give_back n p) = (p', r)"
  shows "r = Inr n"
proof -
  have g: "sane (give_back n p)" "held (give_back n p) = {..<capacity p} - {n}" "capacity (give_back n p) = capacity p"
    using given [OF assms(1)] assms(2) by simp_all
  show ?thesis
  proof (cases r)
    case (Inl e)
    then have "held (give_back n p) = {..<capacity p}" using exhausted [OF g(1)] assms(4) g(3) by simp
    then show ?thesis using g(2) assms(3) by blast
  next
    case (Inr m)
    then have "m < capacity p" "m \<notin> {..<capacity p} - {n}" using taken [OF g(1)] assms(4) g(2,3) by auto
    then show ?thesis using Inr by simp
  qed
qed

end

lemma filter_Cons_upt:
  "filter P [0..<n] = m # xs \<Longrightarrow> m < n \<and> P m \<and> (\<forall>k < m. \<not> P k)"
proof (induction n arbitrary: xs)
  case 0
  then show ?case by simp
next
  case (Suc n)
  show ?case
  proof (cases "filter P [0..<n]")
    case Nil
    then have "P n" "m = n" using Suc.prems by (auto split: if_splits)
    moreover have "\<forall>k < n. \<not> P k" using Nil by (auto simp: filter_empty_conv)
    ultimately show ?thesis by simp
  next
    case (Cons a as)
    then have "m = a" using Suc.prems by simp
    then show ?thesis using Suc.IH Cons by force
  qed
qed

interpretation slots: numbered_pool acquire "\<lambda>n. release (int n)" "\<lambda>p. set (sp_in_use p)" sp_size pool_ok
proof unfold_locales
  fix p p' :: slot_pool and n
  assume "pool_ok p" and a: "acquire p = (p', Inr n)"
  then obtain xs where "filter (\<lambda>slot. slot \<notin> set (sp_in_use p)) [0..<sp_size p] = n # xs"
      "p' = p\<lparr>sp_in_use := sp_in_use p @ [n]\<rparr>"
    by (auto simp: acquire_def split: list.splits)
  with filter_Cons_upt [OF this(1)] \<open>pool_ok p\<close> show "pool_ok p' \<and> n \<notin> set (sp_in_use p) \<and> set (sp_in_use p') = insert n (set (sp_in_use p)) \<and>
      sp_size p' = sp_size p \<and> n < sp_size p \<and> (\<forall>m < n. m \<in> set (sp_in_use p))"
    by (auto simp: pool_ok_def)
next
  fix p p' :: slot_pool and e
  assume "pool_ok p" and "acquire p = (p', Inl e)"
  then show "p' = p \<and> set (sp_in_use p) = {..<sp_size p}"
    by (auto simp: acquire_def pool_ok_def filter_empty_conv split: list.splits)
next
  fix p :: slot_pool and n
  assume "pool_ok p"
  then show "pool_ok (release (int n) p) \<and> set (sp_in_use (release (int n) p)) = set (sp_in_use p) - {n} \<and>
      sp_size (release (int n) p) = sp_size p"
    by (auto simp: release_def pool_ok_def)
next
  fix p :: slot_pool
  assume "pool_ok p"
  then show "set (sp_in_use p) \<subseteq> {..<sp_size p}" by (simp add: pool_ok_def)
qed

text \<open>The pool hands out the lowest slot nobody holds, refuses exactly when all are held, and a slot that was
  given back is handed out again.\<close>

theorem slot_pool_exact:
  assumes "pool_ok p"
  shows "case acquire p of
      (p', Inr n) \<Rightarrow> pool_ok p' \<and> set (sp_in_use p') = insert n (set (sp_in_use p)) \<and> (\<forall>m. m < n \<longrightarrow> m \<in> set (sp_in_use p)) \<and>
        n \<notin> set (sp_in_use p) \<and> n < sp_size p
    | (p', Inl e) \<Rightarrow> p' = p \<and> e = SlotPoolExhausted \<and> set (sp_in_use p) = {..<sp_size p} \<and>
        (\<forall>n. n < sp_size p \<longrightarrow> snd (acquire (release (int n) p)) = Inr n)"
proof (cases "acquire p")
  case (Pair p' r)
  show ?thesis
  proof (cases r)
    case (Inl e)
    then have "e = SlotPoolExhausted" using Pair by (auto simp: acquire_def split: list.splits)
    moreover have x: "p' = p" "set (sp_in_use p) = {..<sp_size p}" using slots.exhausted [OF assms] Pair Inl by simp_all
    moreover have "snd (acquire (release (int n) p)) = Inr n" if "n < sp_size p" for n
      using slots.given_back_is_free [OF assms x(2) that] by (cases "acquire (release (int n) p)") simp
    ultimately show ?thesis using Pair Inl by simp
  next
    case (Inr n)
    then have t: "pool_ok p'" "n \<notin> set (sp_in_use p)" "set (sp_in_use p') = insert n (set (sp_in_use p))" "n < sp_size p"
        "\<forall>m < n. m \<in> set (sp_in_use p)"
      using slots.taken [OF assms] Pair by simp_all
    then show ?thesis using t Pair Inr by simp
  qed
qed

subsection \<open>Flight recorder\<close>

record log_record =
  lr_created :: string  \<comment> \<open>the two times, rounded, as literals\<close>
  lr_mono :: string
  lr_level :: string
  lr_logger :: string
  lr_extra :: "(string, json) dict"  \<comment> \<open>the \<open>extra\<close> fields among the record's attributes\<close>
  lr_msg :: string
  lr_exc :: "string option"

definition KNOWN_FIELDS :: "string list" where
  "KNOWN_FIELDS =
     [''event'', ''port'', ''peer'', ''origin'', ''sid'', ''req_id'', ''msg_id'', ''tx_seq'', ''hex'', ''len'', ''reply_to'', ''ctx'']"

definition RESERVED_LOGRECORD_ATTRS :: "string list" where
  "RESERVED_LOGRECORD_ATTRS =
     [''args'', ''asctime'', ''created'', ''exc_info'', ''exc_text'', ''filename'', ''funcName'', ''levelname'', ''levelno'',
      ''lineno'', ''message'', ''module'', ''msecs'', ''msg'', ''name'', ''pathname'', ''process'', ''processName'',
      ''relativeCreated'', ''stack_info'', ''thread'', ''threadName'', ''taskName'']"

text \<open>\<open>log_event\<close>: the \<open>extra\<close> dictionary of the call.\<close>

definition log_event_extra :: "string \<Rightarrow> (string \<times> json) list \<Rightarrow> (string, json) dict res" where
  "log_event_extra event given =
     fold_res (\<lambda>(k, v) extra. if k \<in> set RESERVED_LOGRECORD_ATTRS then Inl ValueError else Inr (dset k v extra))
       given [(''event'', JStr event)]"

definition payload :: "log_record \<Rightarrow> (string, json) dict" where
  "payload r =
     (let base = [(''ts'', JFloat (lr_created r)), (''mono'', JFloat (lr_mono r)), (''lvl'', JStr (lr_level r)), (''logger'', JStr (lr_logger r))];
          known = fold (\<lambda>f d. case dget (lr_extra r) f of None \<Rightarrow> d | Some v \<Rightarrow> dset f v d) KNOWN_FIELDS base;
          named = (if lr_msg r = [] then known else dset ''msg'' (JStr (lr_msg r)) known)
      in case lr_exc r of None \<Rightarrow> named | Some t \<Rightarrow> dset ''exc'' (JStr t) named)"

definition serialise :: "log_record \<Rightarrow> bytes" where
  "serialise r = bytes_of_text (print_json compact_style (JObj (payload r)) @ [CHR 0x0A])"

record debug_ring =
  dr_size :: int
  dr_buf :: "bytes list"
  dr_bytes :: int

definition new_debug_ring :: "int \<Rightarrow> debug_ring res" where
  "new_debug_ring n = (if n \<le> 0 then Inl ValueError else Inr \<lparr>dr_size = n, dr_buf = [], dr_bytes = 0\<rparr>)"

fun evict :: "int \<Rightarrow> bytes list \<Rightarrow> int \<Rightarrow> bytes list \<times> int" where
  "evict size_bytes (old # b # buf) n =
     (if n > size_bytes then evict size_bytes (b # buf) (n - int (length old)) else (old # b # buf, n))"
| "evict size_bytes buf n = (buf, n)"

definition emit :: "log_record option \<Rightarrow> debug_ring \<Rightarrow> debug_ring" where
  "emit rec ring =
     (case rec of
        None \<Rightarrow> ring
      | Some r \<Rightarrow>
          (let s = serialise r
           in case evict (dr_size ring) (dr_buf ring @ [s]) (dr_bytes ring + int (length s)) of
                (buf, n) \<Rightarrow> ring\<lparr>dr_buf := buf, dr_bytes := n\<rparr>))"

definition ring_snapshot :: "debug_ring \<Rightarrow> bytes list" where
  "ring_snapshot ring = dr_buf ring"

definition dump_jsonl :: "debug_ring \<Rightarrow> bytes" where
  "dump_jsonl ring = concat (ring_snapshot ring)"

definition ring_clear :: "debug_ring \<Rightarrow> debug_ring" where
  "ring_clear ring = ring\<lparr>dr_buf := [], dr_bytes := 0\<rparr>"

subsection \<open>What the ring holds\<close>

definition total :: "bytes list \<Rightarrow> int" where
  "total bss = sum_list (map (int \<circ> length) bss)"

lemma total_simps [simp]: "total [] = 0" "total (b # bs) = int (length b) + total bs" "total (xs @ ys) = total xs + total ys"
  by (simp_all add: total_def)

lemma total_nonneg: "0 \<le> total bs"
  by (induction bs) auto

lemma evict_result:
  assumes "evict n buf m = (buf', m')" and "m = total buf" and "buf \<noteq> []"
  shows "suffix buf' buf \<and> buf' \<noteq> [] \<and> m' = total buf' \<and> (m' \<le> n \<or> length buf' = 1) \<and>
    (\<forall>ys. suffix ys buf \<longrightarrow> ys \<noteq> [] \<longrightarrow> total ys \<le> n \<longrightarrow> suffix ys buf')"
  using assms
proof (induction n buf m rule: evict.induct)
  case (1 n old b buf m)
  show ?case
  proof (cases "n < m")
    case True
    then have e: "evict n (b # buf) (m - int (length old)) = (buf', m')" using 1(2) by simp
    have "m - int (length old) = total (b # buf)" using 1(3) by simp
    from 1(1) [OF True e this] have
      ih: "suffix buf' (b # buf)" "buf' \<noteq> []" "m' = total buf'" "m' \<le> n \<or> length buf' = 1"
        "\<forall>ys. suffix ys (b # buf) \<longrightarrow> ys \<noteq> [] \<longrightarrow> total ys \<le> n \<longrightarrow> suffix ys buf'" by blast+
    have "suffix ys buf'" if "suffix ys (old # b # buf)" "ys \<noteq> []" "total ys \<le> n" for ys
    proof -
      have "ys \<noteq> old # b # buf" using that(3) True 1(3) by auto
      then have "suffix ys (b # buf)" using that(1) by (simp add: suffix_Cons)
      then show ?thesis using ih(5) that(2,3) by blast
    qed
    then show ?thesis using ih(2-4) suffix_ConsI [OF ih(1)] by simp
  next
    case False
    then show ?thesis using 1 by auto
  qed
qed auto

text \<open>What the handler has been given, and the ring after it.\<close>

definition recorded :: "log_record option list \<Rightarrow> bytes list" where
  "recorded rs = concat (map (\<lambda>r. case r of None \<Rightarrow> [] | Some x \<Rightarrow> [serialise x]) rs)"

lemma recorded_simps: "recorded [] = []" "recorded (rs @ [None]) = recorded rs" "recorded (rs @ [Some r]) = recorded rs @ [serialise r]"
  by (simp_all add: recorded_def)

definition ring_ok :: "int \<Rightarrow> bytes list \<Rightarrow> debug_ring \<Rightarrow> bool" where
  "ring_ok n recs ring \<longleftrightarrow>
     dr_size ring = n \<and> suffix (dr_buf ring) recs \<and> dr_bytes ring = total (dr_buf ring) \<and>
     (dr_bytes ring \<le> n \<or> length (dr_buf ring) = 1) \<and> (recs \<noteq> [] \<longrightarrow> dr_buf ring \<noteq> []) \<and>
     (\<forall>ys. suffix ys recs \<longrightarrow> total ys \<le> n \<longrightarrow> suffix ys (dr_buf ring))"

lemma ring_ok_emit:
  assumes "ring_ok n (recorded rs) ring"
  shows "ring_ok n (recorded (rs @ [r])) (emit r ring)"
proof (cases r)
  case None
  then show ?thesis using assms by (simp add: emit_def recorded_simps)
next
  case (Some x)
  let ?s = "serialise x"
  note old = assms [unfolded ring_ok_def]
  obtain buf m where e: "evict n (dr_buf ring @ [?s]) (total (dr_buf ring @ [?s])) = (buf, m)" by fastforce
  have k: "suffix buf (dr_buf ring @ [?s])" "buf \<noteq> []" "m = total buf" "m \<le> n \<or> length buf = 1"
      "\<forall>ys. suffix ys (dr_buf ring @ [?s]) \<longrightarrow> ys \<noteq> [] \<longrightarrow> total ys \<le> n \<longrightarrow> suffix ys buf"
    using evict_result [OF e refl] by blast+
  have v: "emit r ring = ring\<lparr>dr_buf := buf, dr_bytes := m\<rparr>" using Some e old by (simp add: emit_def Let_def)
  have "suffix ys buf" if y: "suffix ys (recorded rs @ [?s])" "total ys \<le> n" for ys
  proof (cases "ys = []")
    case False
    then obtain zs where z: "ys = zs @ [?s]" "suffix zs (recorded rs)" using y(1) by (auto simp: suffix_snoc)
    then have "total zs \<le> n" using y(2) by simp
    then have "suffix zs (dr_buf ring)" using old z(2) by blast
    then have "suffix ys (dr_buf ring @ [?s])" using z(1) by simp
    then show ?thesis using k(5) y(2) False by blast
  qed simp
  moreover have "suffix buf (recorded rs @ [?s])"
  proof -
    have "suffix (dr_buf ring @ [?s]) (recorded rs @ [?s])" using old by simp
    then show ?thesis using k(1) suffix_order.trans by blast
  qed
  ultimately show ?thesis using k(2-4) v old Some by (simp add: recorded_simps ring_ok_def)
qed

text \<open>After any records the ring holds the longest run of the most recent ones that fits into its bytes, or the
  last record alone when that is larger; its byte count is their total size.\<close>

theorem ring_holds_latest:
  assumes "new_debug_ring n = Inr ring" and "ring' = fold emit rs ring"
  shows "suffix (dr_buf ring') (recorded rs) \<and> dr_bytes ring' = total (dr_buf ring') \<and>
    (dr_bytes ring' \<le> n \<or> length (dr_buf ring') = 1) \<and> (recorded rs \<noteq> [] \<longrightarrow> dr_buf ring' \<noteq> []) \<and>
    (\<forall>ys. suffix ys (recorded rs) \<longrightarrow> total ys \<le> n \<longrightarrow> suffix ys (dr_buf ring'))"
proof -
  have "ring_ok n (recorded []) ring" using assms(1) by (auto simp: new_debug_ring_def ring_ok_def recorded_simps split: if_splits)
  then have "ring_ok n (recorded rs) (fold emit rs ring)"
    by (induction rs rule: rev_induct) (simp_all add: ring_ok_emit)
  then show ?thesis unfolding assms(2) ring_ok_def by blast
qed

subsection \<open>Lines\<close>

text \<open>The lines of a text, each without its line break.\<close>

fun jsonl_lines :: "bytes \<Rightarrow> bytes list" where
  "jsonl_lines [] = []"
| "jsonl_lines (b # bs) =
     (if b = 0x0A then [] # jsonl_lines bs
      else case jsonl_lines bs of [] \<Rightarrow> [[b]] | l # ls \<Rightarrow> (b # l) # ls)"

lemma jsonl_line: "0x0A \<notin> set l \<Longrightarrow> jsonl_lines (l @ 0x0A # bs) = l # jsonl_lines bs"
  by (induction l) auto

definition payload_ok :: "log_record \<Rightarrow> bool" where
  "payload_ok r \<longleftrightarrow> wf_json (JObj (payload r))"

lemma utf8_newline: "0x0A \<in> set (utf8 c) \<longleftrightarrow> c = CHR 0x0A"
proof -
  have c: "(of_char c :: nat) < 256" by simp
  then have d: "(of_char c :: nat) div 64 < 4" by (simp add: div_less_iff_less_mult)
  have w: "(word_of_nat k = (0x0A :: byte)) \<longleftrightarrow> k = 10" if "k < 256" for k
    using that by (simp add: word_unat_eq_iff unat_of_nat)
  have "(of_char c :: nat) = 10 \<longleftrightarrow> c = CHR 0x0A" 
  proof -
    have "(of_char c :: nat) = of_char CHR 0x0A \<longleftrightarrow> c = CHR 0x0A" by (simp only: of_char_eq_iff)
    then show ?thesis by simp
  qed
  moreover have "word_of_nat (192 + (of_char c :: nat) div 64) \<noteq> (0x0A :: byte)" "word_of_nat (128 + (of_char c :: nat) mod 64) \<noteq> (0x0A :: byte)"
    by (subst w; use d in simp)+
  ultimately show ?thesis using c w [of "of_char c"] by (auto simp: utf8_def Let_def simp del: of_nat_add)
qed

lemma utf8_line: "one_line s \<Longrightarrow> 0x0A \<notin> set (bytes_of_text s)"
  using utf8_newline by (auto simp: bytes_of_text_def one_line_def)

lemma recorded_Some: "recorded (map Some rs) = map serialise rs"
  by (induction rs) (simp_all add: recorded_def)

lemma lines_of_payloads:
  assumes "list_all payload_ok rs"
  shows "jsonl_lines (concat (map serialise rs)) = map (\<lambda>r. bytes_of_text (print_json compact_style (JObj (payload r)))) rs"
  using assms
proof (induction rs)
  case Nil
  then show ?case by simp
next
  case (Cons r rs)
  let ?l = "bytes_of_text (print_json compact_style (JObj (payload r)))"
  have "0x0A \<notin> set ?l" using Cons.prems by (intro utf8_line print_one_line(1) [OF refl]) (simp add: payload_ok_def)
  moreover have "serialise r = ?l @ [0x0A]" by (simp add: serialise_def bytes_of_text_def utf8_def)
  ultimately show ?case using Cons jsonl_line [of ?l "concat (map serialise rs)"] by simp
qed

text \<open>The dump has one line for each record of the ring, oldest first, and each line parses back to the fields
  of its record.\<close>

theorem dump_lines:
  assumes "new_debug_ring n = Inr ring" and "list_all payload_ok rs" and "ring' = fold emit (map Some rs) ring"
  shows "\<exists>kept. suffix kept rs \<and> length (dr_buf ring') = length kept \<and>
    jsonl_lines (dump_jsonl ring') = map (\<lambda>r. bytes_of_text (print_json compact_style (JObj (payload r)))) kept \<and>
    map (\<lambda>r. loads (print_json compact_style (JObj (payload r)))) kept = map (\<lambda>r. Inr (JObj (payload r))) kept"
proof -
  have "ring_ok n (recorded (map Some rs)) ring'"
  proof -
    have "ring_ok n (recorded []) ring" using assms(1) by (auto simp: new_debug_ring_def ring_ok_def recorded_simps split: if_splits)
    then have "ring_ok n (recorded us) (fold emit us ring)" for us
      by (induction us rule: rev_induct) (simp_all add: ring_ok_emit)
    then show ?thesis using assms(3) by blast
  qed
  then have "suffix (dr_buf ring') (map serialise rs)" by (simp add: ring_ok_def recorded_Some)
  then obtain k where k: "dr_buf ring' = map serialise (drop k rs)"
    unfolding suffix_def by (metis append_eq_conv_conj drop_map)
  have w: "list_all payload_ok (drop k rs)" using assms(2) by (auto simp: list_all_iff dest: in_set_dropD)
  have "loads (print_json compact_style (JObj (payload r))) = Inr (JObj (payload r))" if "r \<in> set (drop k rs)" for r
    using w that by (intro print_loads compact_style_ok) (auto simp: list_all_iff payload_ok_def)
  then show ?thesis using k lines_of_payloads [OF w] suffix_drop
    by (intro exI [of _ "drop k rs"]) (auto simp: dump_jsonl_def ring_snapshot_def)
qed

definition boot_record :: log_record where
  "boot_record = \<lparr>lr_created = ''1.5'', lr_mono = ''0.25'', lr_level = ''DEBUG'', lr_logger = ''hvac_gateway'',
     lr_extra = [(''event'', JStr ''uart_rx''), (''len'', JInt 32)], lr_msg = [], lr_exc = None\<rparr>"

lemma boot_record_ok: "payload_ok boot_record"
proof -
  have "payload boot_record = [(''ts'', JFloat ''1.5''), (''mono'', JFloat ''0.25''), (''lvl'', JStr ''DEBUG''), (''logger'', JStr ''hvac_gateway''),
      (''event'', JStr ''uart_rx''), (''len'', JInt 32)]" by code_simp
  moreover have "scan_literal ''1.5'' = Some (JFloat ''1.5'', [])" "scan_literal ''0.25'' = Some (JFloat ''0.25'', [])" by code_simp+
  ultimately show ?thesis by (simp add: payload_ok_def dkeys_def)
qed

theorem slot_pool_exact_witness:
  "\<exists>p'. acquire \<lparr>sp_size = 2, sp_in_use = [0]\<rparr> = (p', Inr 1) \<and> pool_ok p' \<and> set (sp_in_use p') = {0, 1}"
proof -
  let ?p = "\<lparr>sp_size = 2, sp_in_use = [0]\<rparr>"
  have a: "acquire ?p = (\<lparr>sp_size = 2, sp_in_use = [0, 1]\<rparr>, Inr 1)" by (simp add: acquire_def upt_rec)
  have "pool_ok ?p" by (simp add: pool_ok_def)
  from slot_pool_exact [OF this] a show ?thesis by auto
qed

theorem ring_holds_latest_witness:
  "dr_bytes (fold emit [Some boot_record, None] \<lparr>dr_size = 5, dr_buf = [], dr_bytes = 0\<rparr>) =
     total (dr_buf (fold emit [Some boot_record, None] \<lparr>dr_size = 5, dr_buf = [], dr_bytes = 0\<rparr>))"
  using ring_holds_latest [of 5 "\<lparr>dr_size = 5, dr_buf = [], dr_bytes = 0\<rparr>" _ "[Some boot_record, None]", OF _ refl]
  by (simp add: new_debug_ring_def)

theorem dump_lines_witness:
  "\<exists>kept. suffix kept [boot_record, boot_record] \<and>
    jsonl_lines (dump_jsonl (fold emit (map Some [boot_record, boot_record]) \<lparr>dr_size = 500, dr_buf = [], dr_bytes = 0\<rparr>)) =
      map (\<lambda>r. bytes_of_text (print_json compact_style (JObj (payload r)))) kept"
  using dump_lines [of 500 "\<lparr>dr_size = 500, dr_buf = [], dr_bytes = 0\<rparr>" "[boot_record, boot_record]", OF _ _ refl] boot_record_ok
  by (auto simp: new_debug_ring_def)

end
