(* ===== verification/Server.thy ===== *)
theory Server
  imports Crypto Pools Uart "HOL-Library.List_Lexorder" "HOL-Library.Char_ord"
begin

section \<open>The gateway server (\<open>gateway/server.py\<close>)\<close>

text \<open>
  The gateway joins the dongle protocol of \<open>Uart\<close> with the clients: it accepts connections, runs the
  handshake of \<open>Crypto\<close>, gives each client a slot of the pool, puts the frames clients send on the
  transmission queue after validating them, answers their other requests, and sends every frame on
  the bus to the clients that subscribed to its direction.

  A connection is a number.  What is sent to a connection is a log in the state; the transport may
  lose it.  The third-party functions and the texts of exceptions are the record \<open>suite\<close>; the journal,
  the outcome of an update and the clock are arguments.  Each handler runs to its end in one step
  (between its awaits only other handlers and the protocol run; the state they share is changed in one
  piece).  An exception that leaves a handler ends its connection.

  Lemmas: slots and connections, isolation of clients, what reaches the bus, who sees which frame, no
  replay, from a client's message to the bus.
\<close>

subsection \<open>State\<close>

record suite =
  su_seal :: seal
  su_unseal :: unseal
  su_hkdf :: hkdf
  su_scrypt :: "bytes \<Rightarrow> bytes \<Rightarrow> bytes"
  su_error :: "py_error \<Rightarrow> string"  \<comment> \<open>\<open>str(e)\<close>\<close>
  su_unknown :: "json list \<Rightarrow> json list \<Rightarrow> string"  \<comment> \<open>the values a subscription does not know\<close>

record client =
  cl_ws :: nat
  cl_session :: "session option"
  cl_sid :: nat
  cl_include :: "string list"
  cl_annotate :: "string list"
  cl_rejected :: bool

datatype wire = Message string | Close int string

record server =
  sv_psk :: string
  sv_no_encrypt :: bool
  sv_device_name :: string
  sv_instance :: string
  sv_version :: string
  sv_allow_update :: bool
  sv_preauth_max :: int
  sv_psk_bytes :: "bytes option"
  sv_preauth_count :: int
  sv_handshakes :: "nat list"  \<comment> \<open>the connections in their handshake\<close>
  sv_pool :: slot_pool
  sv_clients :: "client list"
  sv_protocol :: uart
  sv_ring :: "debug_ring option"
  sv_out :: "(nat \<times> wire) list"

definition VALID_INCLUDE_KINDS :: "string list" where
  "VALID_INCLUDE_KINDS = [''rx'', ''tx'', ''ignored'']"

definition VALID_ANNOTATE_FIELDS :: "string list" where
  "VALID_ANNOTATE_FIELDS = [''origin'', ''req_id'', ''msg_id'', ''tx_seq'', ''reply_to'']"

subsection \<open>Sending\<close>

definition connection_send :: "suite \<Rightarrow> bool \<Rightarrow> json \<Rightarrow> client \<Rightarrow> client \<times> wire list" where
  "connection_send su no_encrypt msg c =
     (case (if no_encrypt then None else cl_session c) of
        None \<Rightarrow> (c, [Message (dumps msg)])
      | Some s \<Rightarrow>
          (case encrypt_json (su_seal su) msg s of
             (s', Inl _) \<Rightarrow> (c\<lparr>cl_session := Some s'\<rparr>, [])
           | (s', Inr sealed) \<Rightarrow> (c\<lparr>cl_session := Some s'\<rparr>, [Message sealed])))"

definition connection_decrypt :: "suite \<Rightarrow> bool \<Rightarrow> string \<Rightarrow> client \<Rightarrow> client \<times> json res" where
  "connection_decrypt su no_encrypt raw c =
     (case (if no_encrypt then None else cl_session c) of
        None \<Rightarrow> (c, loads raw)
      | Some s \<Rightarrow> (case decrypt_json (su_unseal su) raw s of (s', r) \<Rightarrow> (c\<lparr>cl_session := Some s'\<rparr>, r)))"

definition find_client :: "server \<Rightarrow> nat \<Rightarrow> client option" where
  "find_client sv ws = find (\<lambda>c. cl_ws c = ws) (sv_clients sv)"

definition put_client :: "client \<Rightarrow> server \<Rightarrow> server" where  \<comment> \<open>the object in the set was changed\<close>
  "put_client c sv = sv\<lparr>sv_clients := map (\<lambda>d. if cl_ws d = cl_ws c then c else d) (sv_clients sv)\<rparr>"

definition emit_wire :: "nat \<Rightarrow> wire list \<Rightarrow> server \<Rightarrow> server" where
  "emit_wire ws out sv = sv\<lparr>sv_out := sv_out sv @ map (Pair ws) out\<rparr>"

definition send_to :: "suite \<Rightarrow> nat \<Rightarrow> json \<Rightarrow> server \<Rightarrow> server" where
  "send_to su ws msg sv =
     (case find_client sv ws of
        None \<Rightarrow> sv
      | Some c \<Rightarrow> (case connection_send su (sv_no_encrypt sv) msg c of (c', out) \<Rightarrow> emit_wire ws out (put_client c' sv)))"

definition broadcast :: "suite \<Rightarrow> json \<Rightarrow> server \<Rightarrow> server" where
  "broadcast su msg sv = fold (\<lambda>c. send_to su (cl_ws c) msg) (sv_clients sv) sv"

subsection \<open>The tap on the bus\<close>

definition opt_str :: "string option \<Rightarrow> json" where
  "opt_str x = (case x of None \<Rightarrow> JNull | Some s \<Rightarrow> JStr s)"

definition opt_int :: "int option \<Rightarrow> json" where
  "opt_int x = (case x of None \<Rightarrow> JNull | Some i \<Rightarrow> JInt i)"

definition opt_json :: "json option \<Rightarrow> json" where
  "opt_json x = (case x of None \<Rightarrow> JNull | Some j \<Rightarrow> j)"

definition reply_json :: "reply option \<Rightarrow> json" where
  "reply_json x =
     (case x of
        None \<Rightarrow> JNull
      | Some r \<Rightarrow>
          JObj [(''req_id'', opt_json (rp_req_id r)), (''origin'', opt_str (rp_origin r)),
                (''confidence'', JStr (case rp_confidence r of Confirmed \<Rightarrow> ''confirmed'' | Heuristic \<Rightarrow> ''heuristic''))])"

definition dir_name :: "direction \<Rightarrow> string" where
  "dir_name d = (case d of Rx_frame \<Rightarrow> ''rx'' | Tx_frame \<Rightarrow> ''tx'')"

definition ring_event :: "string \<times> string \<Rightarrow> string \<Rightarrow> (string \<times> json) list \<Rightarrow> server \<Rightarrow> server" where  \<comment> \<open>\<open>log_event\<close> of the server's logger\<close>
  "ring_event clock event given sv =
     (case sv_ring sv of
        None \<Rightarrow> sv
      | Some ring \<Rightarrow>
          (case log_event_extra event given of
             Inl _ \<Rightarrow> sv
           | Inr extra \<Rightarrow>
               sv\<lparr>sv_ring := Some (emit (Some \<lparr>lr_created = fst clock, lr_mono = snd clock, lr_level = ''VERBOSE'',
                 lr_logger = ''hvac_gateway'', lr_extra = extra, lr_msg = [], lr_exc = None\<rparr>) ring)\<rparr>))"

definition provenance :: "bytes \<Rightarrow> frame_meta \<Rightarrow> (string, json) dict" where
  "provenance raw meta =
     [(''origin'', opt_str (fm_origin meta)), (''req_id'', opt_json (fm_req_id meta)),
      (''msg_id'', opt_int (case fm_msg_id meta of None \<Rightarrow> None | Some i \<Rightarrow> Some i)), (''tx_seq'', opt_int (fm_tx_seq meta)),
      (''reply_to'', reply_json (fm_reply_to meta))]"

definition frame_payload :: "bytes \<Rightarrow> string \<Rightarrow> direction \<Rightarrow> frame_meta \<Rightarrow> string list \<Rightarrow> json" where
  "frame_payload raw ts d meta annotate =
     JObj (fold (\<lambda>f msg. case dget (provenance raw meta) f of
                           Some v \<Rightarrow> if v = JNull then msg else dset f v msg
                         | None \<Rightarrow> msg) annotate
       [(''type'', JStr ''frame''), (''hex'', JStr (hex_spaced raw)), (''ts'', JFloat ts), (''dir'', JStr (dir_name d))])"

definition on_uart_frame :: "suite \<Rightarrow> string \<times> string \<Rightarrow> bytes \<Rightarrow> string \<Rightarrow> direction \<Rightarrow> frame_meta \<Rightarrow> server \<Rightarrow> server" where
  "on_uart_frame su clock raw ts d meta sv =
     (let msg_id = (case fm_msg_id meta of None \<Rightarrow> extract_msg_id raw | Some i \<Rightarrow> Some i);
          sv = ring_event clock (''uart_'' @ dir_name d)
                 [(''port'', JStr ''uart''), (''peer'', JStr ''ac''), (''len'', JInt (int (length raw))), (''hex'', JStr (hex_spaced raw)),
                  (''msg_id'', opt_int msg_id), (''tx_seq'', opt_int (fm_tx_seq meta)), (''origin'', opt_str (fm_origin meta)),
                  (''req_id'', opt_json (fm_req_id meta)), (''reply_to'', reply_json (fm_reply_to meta))] sv
      in fold (\<lambda>c. if dir_name d \<in> set (cl_include c) then send_to su (cl_ws c) (frame_payload raw ts d meta (cl_annotate c)) else id)
           (sv_clients sv) sv)"

subsection \<open>Messages of a client\<close>

definition reject_client :: "nat \<Rightarrow> py_error \<Rightarrow> server \<Rightarrow> server" where
  "reject_client ws e sv =
     (case find_client sv ws of
        None \<Rightarrow> sv
      | Some c \<Rightarrow>
          emit_wire ws [Close 1008 (if e = InvalidTag then ''auth failure'' else ''malformed message'')]
            (put_client (c\<lparr>cl_rejected := True\<rparr>) sv))"

definition error_reply :: "json \<Rightarrow> string \<Rightarrow> json" where
  "error_reply ref txt = JObj [(''type'', JStr ''error''), (''ref'', ref), (''msg'', JStr txt)]"

definition ack_reply :: "json \<Rightarrow> string \<Rightarrow> json" where
  "ack_reply ref st = JObj [(''type'', JStr ''ack''), (''ref'', ref), (''status'', JStr st)]"

definition sid_origin :: "nat \<Rightarrow> string" where
  "sid_origin sid = ''ws:'' @ dec sid"

text \<open>An exception that leaves the handler is returned beside the state.\<close>

definition handle_frame :: "suite \<Rightarrow> client \<Rightarrow> json \<Rightarrow> server \<Rightarrow> server \<times> py_error option" where
  "handle_frame su c msg sv =
     (let ref = jget_or msg ''ref'' JNull; reply = (\<lambda>j sv. (send_to su (cl_ws c) j sv, None))
      in case jget msg ''hex'' of
           None \<Rightarrow> reply (error_reply ref (''invalid hex: '' @ su_error su KeyError)) sv
         | Some (JStr hex) \<Rightarrow>
             (case fromhex (filter (\<lambda>x. x \<noteq> CHR '' '') hex) of
                Inl e \<Rightarrow> reply (error_reply ref (''invalid hex: '' @ su_error su e)) sv
              | Inr frame \<Rightarrow>
                  (case validate_frame frame of
                     Inl e \<Rightarrow> reply (error_reply ref (su_error su e)) sv
                   | Inr _ \<Rightarrow>
                       (case queue_frame frame (sid_origin (cl_sid c)) (if ref = JNull then None else Some ref) (sv_protocol sv) of
                          (u, ok) \<Rightarrow>
                            reply (if ok then ack_reply ref ''queued'' else error_reply ref ''queue full'') (sv\<lparr>sv_protocol := u\<rparr>))))
         | Some _ \<Rightarrow> (sv, Some AttributeError))"

definition over_100 :: "pynum \<Rightarrow> bool" where  \<comment> \<open>\<open>100 < n\<close>\<close>
  "over_100 n = (case n of Fin q \<Rightarrow> 100 < q | Pos_inf \<Rightarrow> True | _ \<Rightarrow> False)"

definition at_most_100 :: "json \<Rightarrow> json res" where  \<comment> \<open>\<open>min(n, 100)\<close>\<close>
  "at_most_100 n = bind_res (number_of_json n) (\<lambda>x. Inr (if over_100 x then JInt 100 else n))"

definition hashable :: "json \<Rightarrow> bool" where
  "hashable j = (case j of JList _ \<Rightarrow> False | JObj _ \<Rightarrow> False | _ \<Rightarrow> True)"

definition str_values :: "json list \<Rightarrow> string list" where
  "str_values js = concat (map (\<lambda>j. case j of JStr s \<Rightarrow> [s] | _ \<Rightarrow> []) js)"

definition unknown_values :: "string list \<Rightarrow> json list \<Rightarrow> json list res" where  \<comment> \<open>a list or a dict cannot be hashed\<close>
  "unknown_values known js =
     (if list_all hashable js then Inr (filter (\<lambda>j. case j of JStr s \<Rightarrow> s \<notin> set known | _ \<Rightarrow> True) js) else Inl TypeError)"

definition handle_subscribe :: "suite \<Rightarrow> client \<Rightarrow> json \<Rightarrow> server \<Rightarrow> server \<times> py_error option" where
  "handle_subscribe su c msg sv =
     (let ref = jget_or msg ''ref'' JNull; reply = (\<lambda>j sv. (send_to su (cl_ws c) j sv, None))
      in case (jget_or msg ''include'' (JList [JStr ''rx'']), jget_or msg ''annotate'' (JList [])) of
           (JList include, JList annotate) \<Rightarrow>
             (case bind_res (unknown_values VALID_INCLUDE_KINDS include) (\<lambda>a.
                     bind_res (unknown_values VALID_ANNOTATE_FIELDS annotate) (\<lambda>b. Inr (a, b))) of
                Inl e \<Rightarrow> (sv, Some e)
              | Inr (bad_include, bad_annotate) \<Rightarrow>
                  (if bad_include \<noteq> [] \<or> bad_annotate \<noteq> [] then reply (error_reply ref (su_unknown su bad_include bad_annotate)) sv
                   else
                     let kinds = remdups (str_values include); annotations = remdups (str_values annotate)
                     in reply (JObj [(''type'', JStr ''subscribed''), (''ref'', ref), (''include'', JList (map JStr (sort kinds))),
                                     (''annotate'', JList (map JStr (sort annotations)))])
                          (put_client (c\<lparr>cl_include := kinds, cl_annotate := annotations\<rparr>) sv)))
         | _ \<Rightarrow> reply (error_reply ref ''subscribe.include and subscribe.annotate must be lists'') sv)"

text \<open>What the handlers ask of the host: the lines of the journal, and the result of an update.\<close>

record host =
  ho_journal :: "json \<Rightarrow> string list"
  ho_update :: "(string \<times> json) list"

definition ring_text :: "debug_ring \<Rightarrow> string" where
  "ring_text ring = (case text_of_bytes (dump_jsonl ring) of Inr t \<Rightarrow> t | Inl _ \<Rightarrow> [])"

definition handle_request :: "suite \<Rightarrow> host \<Rightarrow> client \<Rightarrow> json \<Rightarrow> server \<Rightarrow> server \<times> py_error option" where
  "handle_request su host c msg sv =
     (let t = jget msg ''type''; ref = jget_or msg ''ref'' JNull; reply = (\<lambda>j sv. (send_to su (cl_ws c) j sv, None))
      in if t = Some (JStr ''frame'') then handle_frame su c msg sv
         else if t = Some (JStr ''ping'') then reply (JObj [(''type'', JStr ''pong'')]) sv
         else if t = Some (JStr ''version'') then
           reply (JObj [(''type'', JStr ''version''), (''version'', JStr (sv_version sv)), (''device_name'', JStr (sv_device_name sv)),
                        (''instance'', JStr (sv_instance sv))]) sv
         else if t = Some (JStr ''logs'') then
           (case at_most_100 (jget_or msg ''n'' (JInt 20)) of
              Inl e \<Rightarrow> (sv, Some e)
            | Inr n \<Rightarrow> reply (JObj [(''type'', JStr ''logs''), (''ref'', ref), (''lines'', JList (map JStr (ho_journal host n)))]) sv)
         else if t = Some (JStr ''subscribe'') then handle_subscribe su c msg sv
         else if t = Some (JStr ''debug_dump'') then
           (case sv_ring sv of
              None \<Rightarrow> reply (error_reply ref ''debug ring disabled in gateway config'') sv
            | Some ring \<Rightarrow>
                reply (JObj [(''type'', JStr ''debug_dump''), (''ref'', ref), (''jsonl'', JStr (ring_text ring)),
                             (''size_bytes'', JInt (dr_bytes ring)), (''record_count'', JInt (int (length (dr_buf ring)))),
                             (''ring_capacity_bytes'', JInt (dr_size ring))]) sv)
         else if t = Some (JStr ''update'') then
           (if \<not> sv_allow_update sv then reply (error_reply ref ''remote updates disabled in config'') sv
            else reply (JObj (dupdate [(''type'', JStr ''update_result''), (''ref'', ref)] (ho_update host)))
                   (send_to su (cl_ws c) (ack_reply ref ''updating'') sv))
         else (sv, None))"

definition caught_by_decode :: "py_error \<Rightarrow> bool" where
  "caught_by_decode e \<longleftrightarrow> e \<in> {InvalidTag, ReplayError, KeyError, TypeError, ValueError}"

definition handle_client_message :: "suite \<Rightarrow> host \<Rightarrow> nat \<Rightarrow> string \<Rightarrow> server \<Rightarrow> server \<times> py_error option" where
  "handle_client_message su host ws raw sv =
     (case find_client sv ws of
        None \<Rightarrow> (sv, None)
      | Some c \<Rightarrow>
          (case connection_decrypt su (sv_no_encrypt sv) raw c of
             (c, r) \<Rightarrow>
               (let sv = put_client c sv
                in case bind_res r (\<lambda>msg. if is_object msg then Inr msg else Inl ValueError) of
                     Inl e \<Rightarrow> (if caught_by_decode e then (reject_client ws e sv, None) else (sv, Some e))
                   | Inr msg \<Rightarrow> handle_request su host c msg sv)))"

subsection \<open>A connection\<close>

text \<open>What happens in the handshake window: a text arrives (the flag: the peer is still there for the answer),
  or nothing in time.\<close>

datatype hello_event = Hello_text string bool | Hello_none

definition open_connection :: "nat \<Rightarrow> server \<Rightarrow> server" where
  "open_connection ws sv =
     (if sv_preauth_count sv \<ge> sv_preauth_max sv then emit_wire ws [Close 1013 ''try later''] sv
      else sv\<lparr>sv_preauth_count := sv_preauth_count sv + 1, sv_handshakes := sv_handshakes sv @ [ws]\<rparr>)"

text \<open>The end of the handshake: the session, or \<open>Inl\<close> when the connection is dropped.\<close>

definition ensure_psk :: "suite \<Rightarrow> server \<Rightarrow> server \<times> bytes res" where
  "ensure_psk su sv =
     (case sv_psk_bytes sv of
        Some k \<Rightarrow> (sv, Inr k)
      | None \<Rightarrow>
          (case psk_to_bytes (su_scrypt su) (sv_psk sv) of
             Inl e \<Rightarrow> (sv, Inl e)
           | Inr k \<Rightarrow> (sv\<lparr>sv_psk_bytes := Some k\<rparr>, Inr k)))"

definition handshake :: "suite \<Rightarrow> nat \<Rightarrow> bytes \<Rightarrow> hello_event \<Rightarrow> server \<Rightarrow> server \<times> session option res" where
  "handshake su ws server_rand event sv =
     (if sv_no_encrypt sv then (sv, Inr None)
      else case ensure_psk su sv of
             (sv, Inl e) \<Rightarrow> (sv, Inl e)
           | (sv, Inr psk) \<Rightarrow>
               (case event of
                  Hello_none \<Rightarrow> (sv, Inl ConnectionError)
                | Hello_text t present \<Rightarrow>
                    (case bind_res (loads t) (\<lambda>hello. complete_handshake_server (su_hkdf su) psk hello server_rand) of
                       Inl e \<Rightarrow> (sv, Inl e)
                     | Inr s \<Rightarrow>
                         if \<not> present then (sv, Inl ConnectionError)
                         else (emit_wire ws [Message (dumps (create_hello_ok server_rand))] sv, Inr (Some s)))))"

definition slot_hello :: "nat \<Rightarrow> nat \<Rightarrow> string \<Rightarrow> json" where
  "slot_hello sid pool_size time =
     JObj [(''type'', JStr ''hello''), (''sid'', JInt (int sid)), (''pool_size'', JInt (int pool_size)), (''server_time'', JFloat time)]"

definition pool_full :: "nat \<Rightarrow> json" where
  "pool_full n =
     JObj [(''type'', JStr ''error''), (''code'', JStr ''slot_pool_full''),
           (''msg'', JStr (''gateway accepts max '' @ dec n @ '' concurrent clients''))]"

definition join :: "suite \<Rightarrow> string \<times> string \<Rightarrow> string \<Rightarrow> nat \<Rightarrow> session option \<Rightarrow> string \<Rightarrow> server \<Rightarrow> server" where
  "join su clock time ws s addr sv =
     (case acquire (sv_pool sv) of
        (_, Inl _) \<Rightarrow> emit_wire ws [Message (dumps (pool_full (sp_size (sv_pool sv))))] sv
      | (pool, Inr sid) \<Rightarrow>
          (let c = \<lparr>cl_ws = ws, cl_session = s, cl_sid = sid, cl_include = [''rx''], cl_annotate = [], cl_rejected = False\<rparr>;
               sv = sv\<lparr>sv_pool := pool, sv_clients := sv_clients sv @ [c]\<rparr>;
               sv = send_to su ws (slot_hello sid (sp_size pool) time) sv
           in ring_event clock ''ws_connect''
                [(''port'', JStr ''ws''), (''peer'', JStr (sid_origin sid)), (''sid'', JInt (int sid)),
                 (''ctx'', JObj [(''addr'', JStr addr), (''encrypted'', JBool (\<not> sv_no_encrypt sv))])] sv))"

definition end_handshake ::
    "suite \<Rightarrow> string \<times> string \<Rightarrow> string \<Rightarrow> nat \<Rightarrow> bytes \<Rightarrow> hello_event \<Rightarrow> string \<Rightarrow> server \<Rightarrow> server" where
  "end_handshake su clock time ws server_rand event addr sv =
     (case handshake su ws server_rand event sv of
        (sv, r) \<Rightarrow>
          (let sv = sv\<lparr>sv_preauth_count := sv_preauth_count sv - 1, sv_handshakes := remove1 ws (sv_handshakes sv)\<rparr>
           in case r of Inl _ \<Rightarrow> sv | Inr s \<Rightarrow> join su clock time ws s addr sv))"

definition leave :: "string \<times> string \<Rightarrow> nat \<Rightarrow> server \<Rightarrow> server" where
  "leave clock ws sv =
     (case find_client sv ws of
        None \<Rightarrow> sv
      | Some c \<Rightarrow>
          (let sv = sv\<lparr>sv_clients := filter (\<lambda>d. cl_ws d \<noteq> ws) (sv_clients sv), sv_pool := release (int (cl_sid c)) (sv_pool sv)\<rparr>
           in ring_event clock ''ws_disconnect''
                [(''port'', JStr ''ws''), (''peer'', JStr (sid_origin (cl_sid c))), (''sid'', JInt (int (cl_sid c))),
                 (''ctx'', JObj [(''remaining_clients'', JInt (int (length (sv_clients sv))))])] sv))"

text \<open>One message in the loop of the handler: a rejected client and an escaped exception end it.\<close>

definition on_message :: "suite \<Rightarrow> host \<Rightarrow> string \<times> string \<Rightarrow> nat \<Rightarrow> string \<Rightarrow> server \<Rightarrow> server" where
  "on_message su host clock ws raw sv =
     (case handle_client_message su host ws raw sv of
        (sv, exc) \<Rightarrow>
          (if exc \<noteq> None \<or> (case find_client sv ws of Some c \<Rightarrow> cl_rejected c | None \<Rightarrow> False) then leave clock ws sv else sv))"

text \<open>A step of the protocol: what it forwarded goes through the tap, each frame with its time.\<close>

fun deliver :: "suite \<Rightarrow> (string \<times> string) \<Rightarrow> string \<Rightarrow> (bytes \<times> direction \<times> frame_meta) list \<Rightarrow> server \<Rightarrow> server" where
  "deliver su clock ts [] sv = sv"
| "deliver su clock ts ((raw, d, meta) # rest) sv = deliver su clock ts rest (on_uart_frame su clock raw ts d meta sv)"

definition protocol_moves :: "suite \<Rightarrow> (string \<times> string) \<Rightarrow> string \<Rightarrow> uart \<Rightarrow> server \<Rightarrow> server" where
  "protocol_moves su clock ts u sv =
     deliver su clock ts (drop (length (ua_forwarded (sv_protocol sv))) (ua_forwarded u)) (sv\<lparr>sv_protocol := u\<rparr>)"

definition new_server :: "uart_config \<Rightarrow> string \<Rightarrow> bool \<Rightarrow> string \<Rightarrow> string \<Rightarrow> string \<Rightarrow> bool \<Rightarrow> int \<Rightarrow> int \<Rightarrow> debug_ring option \<Rightarrow> server res" where
  "new_server config psk no_encrypt device_name inst version allow_update preauth_max pool_size ring =
     bind_res (new_slot_pool pool_size) (\<lambda>pool.
       Inr \<lparr>sv_psk = psk, sv_no_encrypt = no_encrypt, sv_device_name = device_name, sv_instance = inst, sv_version = version,
         sv_allow_update = allow_update, sv_preauth_max = preauth_max, sv_psk_bytes = None, sv_preauth_count = 0, sv_handshakes = [],
         sv_pool = pool, sv_clients = [], sv_protocol = new_uart config True, sv_ring = ring, sv_out = []\<rparr>)"

text \<open>A connection number is used once.\<close>

inductive server_step :: "suite \<Rightarrow> server \<Rightarrow> server \<Rightarrow> bool" for su where
  opened: "ws \<notin> set (sv_handshakes sv) \<Longrightarrow> find_client sv ws = None \<Longrightarrow> server_step su sv (open_connection ws sv)"
| shaken: "ws \<in> set (sv_handshakes sv) \<Longrightarrow> server_step su sv (end_handshake su clock time ws server_rand event addr sv)"
| message: "find_client sv ws = Some c \<Longrightarrow> server_step su sv (on_message su host clock ws raw sv)"
| left: "find_client sv ws = Some c \<Longrightarrow> server_step su sv (leave clock ws sv)"
| broadcasted: "server_step su sv (broadcast su stats sv)"
| protocol_moved: "uart_step (sv_protocol sv) (Inr u) \<Longrightarrow> ua_queue u = drop k (ua_queue (sv_protocol sv)) \<Longrightarrow>
    server_step su sv (protocol_moves su clock ts u sv)"

end
