(* ===== verification/Server_Steps.thy ===== *)
theory Server_Steps
  imports Server
begin

section \<open>The steps of the gateway\<close>

text \<open>
  Lemmas over the steps of the gateway: sending changes nothing but transmit counters; a message of one
  client touches only that client, the transmission queue and what is sent to it; in every reachable
  state the slots and the connections agree and only valid frames wait or have reached the bus.
\<close>

subsection \<open>Sending changes sessions only\<close>

text \<open>Everything but the transmit counters of the sessions, the log of sent messages and the ring.\<close>

definition untx :: "client \<Rightarrow> client" where
  "untx c = c\<lparr>cl_session := map_option (\<lambda>s. s\<lparr>ss_tx_counter := 0\<rparr>) (cl_session c)\<rparr>"

lemma untx_simps [simp]:
  "cl_ws (untx c) = cl_ws c" "cl_sid (untx c) = cl_sid c" "cl_include (untx c) = cl_include c"
  "map_option ss_rx_counter (cl_session (untx c)) = map_option ss_rx_counter (cl_session c)"
  by (simp_all add: untx_def option.map_comp comp_def)

definition core :: "server \<Rightarrow> server" where
  "core sv = sv\<lparr>sv_clients := map untx (sv_clients sv), sv_out := [], sv_ring := None\<rparr>"

definition distinct_clients :: "server \<Rightarrow> bool" where
  "distinct_clients sv \<longleftrightarrow> distinct (map cl_ws (sv_clients sv))"

lemma core_simps [simp]:
  "sv_handshakes (core sv) = sv_handshakes sv" "sv_preauth_count (core sv) = sv_preauth_count sv" "sv_preauth_max (core sv) = sv_preauth_max sv"
  "sv_pool (core sv) = sv_pool sv" "sv_protocol (core sv) = sv_protocol sv" "sv_no_encrypt (core sv) = sv_no_encrypt sv"
  "map cl_ws (sv_clients (core sv)) = map cl_ws (sv_clients sv)" "map cl_sid (sv_clients (core sv)) = map cl_sid (sv_clients sv)"
  "map cl_include (sv_clients (core sv)) = map cl_include (sv_clients sv)"
  by (simp_all add: core_def comp_def)

lemma distinct_core: "distinct_clients (core sv) = distinct_clients sv"
  by (simp add: distinct_clients_def)

lemma core_eqD:
  assumes "core sv' = core sv"
  shows "sv_handshakes sv' = sv_handshakes sv" "sv_preauth_count sv' = sv_preauth_count sv" "sv_preauth_max sv' = sv_preauth_max sv"
    "sv_pool sv' = sv_pool sv" "sv_protocol sv' = sv_protocol sv" "sv_no_encrypt sv' = sv_no_encrypt sv"
    "map cl_ws (sv_clients sv') = map cl_ws (sv_clients sv)" "map cl_sid (sv_clients sv') = map cl_sid (sv_clients sv)"
    "distinct_clients sv' = distinct_clients sv"
  using assms core_simps distinct_core by metis+

lemma find_client_Some: "find_client sv ws = Some c \<Longrightarrow> c \<in> set (sv_clients sv) \<and> cl_ws c = ws"
  by (auto simp: find_client_def find_Some_iff)

lemma find_client_None: "find_client sv ws = None \<longleftrightarrow> ws \<notin> set (map cl_ws (sv_clients sv))"
  by (auto simp: find_client_def find_None_iff)

lemma find_client_unique: "distinct_clients sv \<Longrightarrow> c \<in> set (sv_clients sv) \<Longrightarrow> find_client sv (cl_ws c) = Some c"
proof -
  assume d: "distinct_clients sv" and c: "c \<in> set (sv_clients sv)"
  obtain e where e: "find_client sv (cl_ws c) = Some e" using c by (cases "find_client sv (cl_ws c)") (auto simp: find_client_None)
  then have "e \<in> set (sv_clients sv)" "cl_ws e = cl_ws c" using find_client_Some by blast+
  then have "e = c" using d c by (auto simp: distinct_clients_def distinct_map dest: inj_onD)
  then show ?thesis using e by simp
qed

lemma core_put:
  assumes "distinct_clients sv" and "find_client sv ws = Some c" and "untx c' = untx c"
  shows "core (put_client c' sv) = core sv"
proof -
  have w: "cl_ws c' = ws" "cl_ws c = ws" using assms(3) find_client_Some [OF assms(2)] untx_simps(1) by metis+
  have "d = c" if "d \<in> set (sv_clients sv)" "cl_ws d = ws" for d
    using find_client_unique [OF assms(1) that(1)] that(2) assms(2) by simp
  then have "map (\<lambda>d. untx (if cl_ws d = cl_ws c' then c' else d)) (sv_clients sv) = map untx (sv_clients sv)"
    using w assms(3) by auto
  then show ?thesis by (simp add: core_def put_client_def comp_def)
qed

lemma connection_send_session: "connection_send su ne msg c = (c', out) \<Longrightarrow> untx c' = untx c \<and> length out \<le> 1"
  by (auto simp: connection_send_def encrypt_json_def encrypt_def Let_def untx_def split: option.splits prod.splits sum.splits if_splits)

lemma core_emit_wire [simp]: "core (emit_wire ws out sv) = core sv"
  by (simp add: core_def emit_wire_def)

lemma core_ring_event [simp]: "core (ring_event clock event given sv) = core sv"
  by (auto simp: core_def ring_event_def split: option.splits sum.splits)

lemma core_send_to [simp]: "distinct_clients sv \<Longrightarrow> core (send_to su ws msg sv) = core sv"
proof (cases "find_client sv ws")
  case None
  then show ?thesis by (simp add: send_to_def)
next
  case (Some c)
  assume d: "distinct_clients sv"
  obtain c' out where s: "connection_send su (sv_no_encrypt sv) msg c = (c', out)" by fastforce
  show ?thesis using Some s core_put [OF d Some] connection_send_session [OF s] by (simp add: send_to_def)
qed

lemma core_fold_send:
  "distinct_clients sv \<Longrightarrow> core (fold (\<lambda>c. if P c then send_to su (cl_ws c) (msg c) else id) cs sv) = core sv"
proof (induction cs arbitrary: sv)
  case Nil
  then show ?case by simp
next
  case (Cons c cs)
  let ?v = "(if P c then send_to su (cl_ws c) (msg c) else id) sv"
  have v: "core ?v = core sv" using Cons.prems by simp
  then have "distinct_clients ?v" using Cons.prems core_eqD(9) by blast
  then show ?case using Cons.IH v by simp
qed

lemma core_broadcast: "distinct_clients sv \<Longrightarrow> core (broadcast su msg sv) = core sv"
  using core_fold_send [of sv "\<lambda>_. True" su "\<lambda>_. msg"] by (simp add: broadcast_def)

lemma core_on_uart_frame: "distinct_clients sv \<Longrightarrow> core (on_uart_frame su clock raw ts d meta sv) = core sv"
proof -
  assume d: "distinct_clients sv"
  let ?v = "\<lambda>ev. ring_event clock (''uart_'' @ dir_name d) ev sv"
  have "distinct_clients (?v ev)" for ev using d core_eqD(9) [OF core_ring_event] by blast
  from core_fold_send [OF this] show ?thesis by (simp add: on_uart_frame_def Let_def)
qed

lemma core_deliver: "distinct_clients sv \<Longrightarrow> core (deliver su clock ts fs sv) = core sv"
proof (induction fs arbitrary: sv)
  case Nil
  then show ?case by simp
next
  case (Cons f fs)
  obtain raw d meta where f: "f = (raw, d, meta)" by (cases f)
  note c = core_on_uart_frame [OF Cons.prems, of su clock raw ts d meta]
  then have "distinct_clients (on_uart_frame su clock raw ts d meta sv)" using Cons.prems core_eqD(9) by blast
  then show ?case using Cons.IH c f by simp
qed

subsection \<open>The effect of a message\<close>

text \<open>\<open>touches ws q sv sv'\<close>: only the record of the client \<open>ws\<close> changed, not its slot; something was sent to it,
  and \<open>q\<close> was put on the transmission queue.\<close>

definition touches :: "nat \<Rightarrow> (bytes \<times> string \<times> json option) list \<Rightarrow> server \<Rightarrow> server \<Rightarrow> bool" where
  "touches ws q sv sv' \<longleftrightarrow>
     (\<exists>c c' out. find_client sv ws = Some c \<and> cl_ws c' = ws \<and> cl_sid c' = cl_sid c \<and>
        sv' = sv\<lparr>sv_clients := map (\<lambda>d. if cl_ws d = ws then c' else d) (sv_clients sv), sv_out := sv_out sv @ map (Pair ws) out,
          sv_protocol := (sv_protocol sv)\<lparr>ua_queue := ua_queue (sv_protocol sv) @ q\<rparr>\<rparr>)"

named_theorems touching

lemma touchesI:
  "find_client sv ws = Some c \<Longrightarrow> cl_ws c' = ws \<Longrightarrow> cl_sid c' = cl_sid c \<Longrightarrow>
    sv' = sv\<lparr>sv_clients := map (\<lambda>d. if cl_ws d = ws then c' else d) (sv_clients sv), sv_out := sv_out sv @ map (Pair ws) out,
      sv_protocol := (sv_protocol sv)\<lparr>ua_queue := ua_queue (sv_protocol sv) @ q\<rparr>\<rparr> \<Longrightarrow> touches ws q sv sv'"
  unfolding touches_def by blast

lemma map_self:
  assumes "distinct_clients sv" and "find_client sv ws = Some c"
  shows "map (\<lambda>d. if cl_ws d = ws then c else d) (sv_clients sv) = sv_clients sv"
proof -
  have "e = c" if "e \<in> set (sv_clients sv)" "cl_ws e = ws" for e using find_client_unique [OF assms(1) that(1)] that(2) assms(2) by simp
  then show ?thesis by (auto intro: map_idI)
qed

lemma touches_refl: "distinct_clients sv \<Longrightarrow> find_client sv ws = Some c \<Longrightarrow> touches ws [] sv sv"
  by (rule touchesI [where out = "[]" and c' = c]) (simp_all add: map_self find_client_Some)

lemma find_mapped:
  "find (\<lambda>d. cl_ws d = ws) ds = Some c \<Longrightarrow> cl_ws c' = ws \<Longrightarrow> find (\<lambda>d. cl_ws d = ws) (map (\<lambda>d. if cl_ws d = ws then c' else d) ds) = Some c'"
  by (induction ds) (auto split: if_splits)

lemma touches_find:
  assumes "touches ws q sv sv'"
  shows "\<exists>c c'. find_client sv ws = Some c \<and> find_client sv' ws = Some c' \<and> cl_sid c' = cl_sid c"
  using assms find_mapped by (fastforce simp: touches_def find_client_def)

lemma touches_trans:
  assumes "touches ws p sv sv'" and "touches ws q sv' sv''"
  shows "touches ws (p @ q) sv sv''"
proof -
  from assms(1) obtain c c' out where 1: "find_client sv ws = Some c" "cl_ws c' = ws" "cl_sid c' = cl_sid c"
      "sv' = sv\<lparr>sv_clients := map (\<lambda>d. if cl_ws d = ws then c' else d) (sv_clients sv), sv_out := sv_out sv @ map (Pair ws) out,
        sv_protocol := (sv_protocol sv)\<lparr>ua_queue := ua_queue (sv_protocol sv) @ p\<rparr>\<rparr>" by (auto simp: touches_def)
  from assms(2) obtain d d' out' where 2: "find_client sv' ws = Some d" "cl_ws d' = ws" "cl_sid d' = cl_sid d"
      "sv'' = sv'\<lparr>sv_clients := map (\<lambda>d. if cl_ws d = ws then d' else d) (sv_clients sv'), sv_out := sv_out sv' @ map (Pair ws) out',
        sv_protocol := (sv_protocol sv')\<lparr>ua_queue := ua_queue (sv_protocol sv') @ q\<rparr>\<rparr>" by (auto simp: touches_def)
  have "d = c'" using 1 2(1) find_mapped [of ws "sv_clients sv" c c'] by (simp add: find_client_def)
  moreover have "map (\<lambda>d. if cl_ws d = ws then d' else d) (map (\<lambda>d. if cl_ws d = ws then c' else d) (sv_clients sv)) =
      map (\<lambda>d. if cl_ws d = ws then d' else d) (sv_clients sv)" using 1(2) by auto
  ultimately show ?thesis
    by (intro touchesI [OF 1(1) 2(2), where out = "out @ out'"]) (simp_all add: 1(3,4) 2(3,4))
qed

lemma touches_put_emit:
  "find_client sv ws = Some c \<Longrightarrow> cl_ws c' = ws \<Longrightarrow> cl_sid c' = cl_sid c \<Longrightarrow> touches ws [] sv (emit_wire ws out (put_client c' sv))"
  by (rule touchesI [where out = out]) (simp_all add: put_client_def emit_wire_def)

lemma touches_put: "find_client sv ws = Some c \<Longrightarrow> cl_ws c' = ws \<Longrightarrow> cl_sid c' = cl_sid c \<Longrightarrow> touches ws [] sv (put_client c' sv)"
  using touches_put_emit [of sv ws c c' "[]"] by (simp add: emit_wire_def)

lemma touches_send: "find_client sv ws = Some c \<Longrightarrow> touches ws [] sv (send_to su ws msg sv)"
proof -
  assume f: "find_client sv ws = Some c"
  obtain c' out where s: "connection_send su (sv_no_encrypt sv) msg c = (c', out)" by fastforce
  then have "cl_ws c' = ws" "cl_sid c' = cl_sid c"
    using find_client_Some [OF f] by (auto simp: connection_send_def split: option.splits prod.splits sum.splits)
  then show ?thesis using f s touches_put_emit [OF f] by (simp add: send_to_def)
qed

lemma touches_queue:
  assumes "distinct_clients sv" and "find_client sv ws = Some c" and "queue_frame f o1 r (sv_protocol sv) = (u, ok)"
  shows "touches ws (if ok then [(f, o1, r)] else []) sv (sv\<lparr>sv_protocol := u\<rparr>)"
  using assms(3) find_client_Some [OF assms(2)]
  by (intro touchesI [OF assms(2), where out = "[]" and c' = c])
    (auto simp: map_self [OF assms(1,2)] queue_frame_def split: if_splits)

lemma touches_good: "touches ws q sv sv' \<Longrightarrow> distinct_clients sv \<Longrightarrow> distinct_clients sv'"
proof -
  assume t: "touches ws q sv sv'" and d: "distinct_clients sv"
  from t obtain c' where c': "cl_ws c' = ws" "sv_clients sv' = map (\<lambda>d. if cl_ws d = ws then c' else d) (sv_clients sv)"
    by (auto simp: touches_def)
  have "map cl_ws (sv_clients sv') = map cl_ws (sv_clients sv)" using c' by auto
  then show ?thesis using d by (simp add: distinct_clients_def)
qed

text \<open>What a message may put on the queue: one valid frame, under the sender's own name.\<close>

definition own_frame :: "client \<Rightarrow> (bytes \<times> string \<times> json option) list \<Rightarrow> bool" where
  "own_frame c q \<longleftrightarrow> q = [] \<or> (\<exists>f r. q = [(f, sid_origin (cl_sid c), r)] \<and> valid_frame f)"

lemma handle_frame_touches:
  assumes "distinct_clients sv" and "find_client sv (cl_ws c) = Some c"
  shows "\<exists>q. touches (cl_ws c) q sv (fst (handle_frame su c msg sv)) \<and> own_frame c q"
proof -
  have send: "\<exists>q. touches (cl_ws c) q sv (send_to su (cl_ws c) j sv) \<and> own_frame c q" for j
    using touches_send [OF assms(2)] by (auto simp: own_frame_def)
  have crash: "\<exists>q. touches (cl_ws c) q sv sv \<and> own_frame c q" using touches_refl [OF assms] by (auto simp: own_frame_def)
  show ?thesis
  proof (cases "\<exists>hex frame p. jget msg ''hex'' = Some (JStr hex) \<and> fromhex (filter (\<lambda>x. x \<noteq> CHR '' '') hex) = Inr frame \<and> validate_frame frame = Inr p")
    case True
    then obtain hex frame p where h: "jget msg ''hex'' = Some (JStr hex)" "fromhex (filter (\<lambda>x. x \<noteq> CHR '' '') hex) = Inr frame"
        "validate_frame frame = Inr p" by blast
    let ?r = "if jget_or msg ''ref'' JNull = JNull then None else Some (jget_or msg ''ref'' JNull)"
    obtain u ok where u: "queue_frame frame (sid_origin (cl_sid c)) ?r (sv_protocol sv) = (u, ok)" by fastforce
    note t = touches_queue [OF assms u]
    obtain c' where c': "find_client (sv\<lparr>sv_protocol := u\<rparr>) (cl_ws c) = Some c'" using touches_find [OF t] by blast
    have "own_frame c (if ok then [(frame, sid_origin (cl_sid c), ?r)] else [])" using h(3) by (auto simp: own_frame_def)
    then show ?thesis using h u touches_trans [OF t touches_send [OF c']] by (auto simp: handle_frame_def Let_def)
  next
    case False
    then show ?thesis using send crash
      by (cases "jget msg ''hex''") (auto simp: handle_frame_def Let_def split: json.splits sum.splits)
  qed
qed

lemma handle_subscribe_touches:
  assumes "distinct_clients sv" and "find_client sv (cl_ws c) = Some c"
  shows "touches (cl_ws c) [] sv (fst (handle_subscribe su c msg sv))"
proof -
  have send: "touches (cl_ws c) [] sv (send_to su (cl_ws c) j sv)" for j by (rule touches_send [OF assms(2)])
  have crash: "touches (cl_ws c) [] sv sv" by (rule touches_refl [OF assms])
  have put: "touches (cl_ws c) [] sv (send_to su (cl_ws c) j (put_client (c\<lparr>cl_include := k, cl_annotate := a\<rparr>) sv))" for j k a
  proof -
    have t: "touches (cl_ws c) [] sv (put_client (c\<lparr>cl_include := k, cl_annotate := a\<rparr>) sv)" by (rule touches_put [OF assms(2)]) simp_all
    then obtain c' where "find_client (put_client (c\<lparr>cl_include := k, cl_annotate := a\<rparr>) sv) (cl_ws c) = Some c'" using touches_find by blast
    from touches_trans [OF t touches_send [OF this]] show ?thesis by simp
  qed
  show ?thesis
    unfolding handle_subscribe_def Let_def
    by (cases "jget_or msg ''include'' (JList [JStr ''rx''])"; cases "jget_or msg ''annotate'' (JList [])")
       (simp_all add: send crash put split: sum.split prod.split)
qed

lemma handle_request_touches:
  assumes "distinct_clients sv" and "find_client sv (cl_ws c) = Some c"
  shows "\<exists>q. touches (cl_ws c) q sv (fst (handle_request su host c msg sv)) \<and> own_frame c q"
proof -
  have send: "touches (cl_ws c) [] sv (send_to su (cl_ws c) j sv)" for j by (rule touches_send [OF assms(2)])
  have crash: "touches (cl_ws c) [] sv sv" by (rule touches_refl [OF assms])
  have twice: "touches (cl_ws c) [] sv (send_to su (cl_ws c) k (send_to su (cl_ws c) j sv))" for j k
  proof -
    obtain c' where "find_client (send_to su (cl_ws c) j sv) (cl_ws c) = Some c'" using touches_find [OF send] by blast
    from touches_trans [OF send touches_send [OF this]] show ?thesis by simp
  qed
  show ?thesis
  proof (cases "jget msg ''type'' = Some (JStr ''frame'')")
    case True
    then show ?thesis using handle_frame_touches [OF assms] by (simp add: handle_request_def)
  next
    case False
    then have "touches (cl_ws c) [] sv (fst (handle_request su host c msg sv))"
      using handle_subscribe_touches [OF assms]
      by (simp add: handle_request_def Let_def send crash twice split: sum.split option.split)
    then show ?thesis by (auto simp: own_frame_def)
  qed
qed

lemma handle_client_message_touches:
  assumes "distinct_clients sv" and "find_client sv ws = Some c"
  shows "\<exists>q. touches ws q sv (fst (handle_client_message su host ws raw sv)) \<and> own_frame c q"
proof -
  obtain d r where d: "connection_decrypt su (sv_no_encrypt sv) raw c = (d, r)" by fastforce
  then have w: "cl_ws d = ws" "cl_sid d = cl_sid c"
    using find_client_Some [OF assms(2)] by (auto simp: connection_decrypt_def split: option.splits prod.splits)
  let ?v = "put_client d sv"
  have t: "touches ws [] sv ?v" by (rule touches_put [OF assms(2) w])
  have v: "distinct_clients ?v" using touches_good [OF t assms(1)] .
  have f: "find_client ?v (cl_ws d) = Some d"
    using find_mapped [of ws "sv_clients sv" c d] assms(2) w(1) by (simp add: find_client_def put_client_def)
  show ?thesis
  proof (cases "bind_res r (\<lambda>msg. if is_object msg then Inr msg else Inl ValueError)")
    case (Inl e)
    have "touches ws [] ?v (reject_client ws e ?v)"
      using f w(1) touches_put_emit [of ?v ws d "d\<lparr>cl_rejected := True\<rparr>"] by (simp add: reject_client_def)
    then have "touches ws [] sv (reject_client ws e ?v)" using touches_trans [OF t] by fastforce
    then show ?thesis using assms(2) d Inl t by (auto simp: handle_client_message_def Let_def own_frame_def)
  next
    case (Inr msg)
    obtain q where q: "touches ws q ?v (fst (handle_request su host d msg ?v))" "own_frame d q"
      using handle_request_touches [OF v f] w(1) by blast
    have "touches ws q sv (fst (handle_request su host d msg ?v))" using touches_trans [OF t q(1)] by simp
    moreover have "own_frame c q" using q(2) w(2) by (simp add: own_frame_def)
    ultimately show ?thesis using assms(2) d Inr by (auto simp: handle_client_message_def Let_def)
  qed
qed

subsection \<open>Receive counters\<close>

definition rx_of :: "server \<Rightarrow> nat \<Rightarrow> pynum option" where
  "rx_of sv ws = (case find_client sv ws of None \<Rightarrow> None | Some c \<Rightarrow> map_option ss_rx_counter (cl_session c))"

lemma find_untx: "find_client (core sv) ws = map_option untx (find_client sv ws)"
proof -
  have "find (\<lambda>c. cl_ws c = ws) (map untx ds) = map_option untx (find (\<lambda>c. cl_ws c = ws) ds)" for ds by (induction ds) simp_all
  then show ?thesis by (simp add: find_client_def core_def)
qed

lemma rx_core: "rx_of (core sv) ws = rx_of sv ws"
  by (cases "find_client sv ws") (simp_all add: rx_of_def find_untx)

lemma rx_of_core_eq: "core sv' = core sv \<Longrightarrow> rx_of sv' ws = rx_of sv ws"
  using rx_core by metis

lemma find_core_eq: "core sv' = core sv \<Longrightarrow> find_client sv' ws = None \<longleftrightarrow> find_client sv ws = None"
  using find_untx [of sv' ws] find_untx [of sv ws] by (cases "find_client sv ws"; cases "find_client sv' ws") auto

lemma rx_send: "distinct_clients sv \<Longrightarrow> rx_of (send_to su w j sv) ws = rx_of sv ws"
  by (rule rx_of_core_eq) simp

lemma rx_protocol [simp]: "rx_of (sv\<lparr>sv_protocol := u\<rparr>) ws = rx_of sv ws" "distinct_clients (sv\<lparr>sv_protocol := u\<rparr>) = distinct_clients sv"
  by (simp_all add: rx_of_def find_client_def distinct_clients_def)

lemma find_put: "find_client sv (cl_ws c') = Some c \<Longrightarrow> find_client (put_client c' sv) (cl_ws c') = Some c'"
  using find_mapped [of "cl_ws c'" "sv_clients sv" c c'] by (simp add: find_client_def put_client_def)

lemma distinct_put [simp]: "distinct_clients (put_client c sv) = distinct_clients sv"
proof -
  have "map cl_ws (map (\<lambda>d. if cl_ws d = cl_ws c then c else d) ds) = map cl_ws ds" for ds by auto
  then show ?thesis unfolding distinct_clients_def put_client_def by (simp del: map_map)
qed

lemma rx_request:
  assumes "distinct_clients sv" and "find_client sv (cl_ws c) = Some c"
  shows "rx_of (fst (handle_request su host c msg sv)) (cl_ws c) = rx_of sv (cl_ws c)"
proof -
  note [simp] = rx_send [OF assms(1)]
  have twice: "rx_of (send_to su (cl_ws c) k (send_to su (cl_ws c) j sv)) (cl_ws c) = rx_of sv (cl_ws c)" for j k
    using assms(1) core_eqD(9) [OF core_send_to [OF assms(1)]] by (subst rx_send) simp_all
  have sub: "rx_of (send_to su (cl_ws c) j (put_client (c\<lparr>cl_include := k, cl_annotate := a\<rparr>) sv)) (cl_ws c) = rx_of sv (cl_ws c)" for j k a
    using assms find_put [of sv "c\<lparr>cl_include := k, cl_annotate := a\<rparr>" c] by (subst rx_send) (simp_all add: rx_of_def)
  have frame: "rx_of (fst (handle_frame su c msg sv)) (cl_ws c) = rx_of sv (cl_ws c)"
    using assms(1)
    by (cases "jget msg ''hex''")
       (simp_all add: handle_frame_def Let_def rx_send split: json.split sum.split prod.split if_split)
  have subscribe: "rx_of (fst (handle_subscribe su c msg sv)) (cl_ws c) = rx_of sv (cl_ws c)"
    unfolding handle_subscribe_def Let_def
    by (cases "jget_or msg ''include'' (JList [JStr ''rx''])"; cases "jget_or msg ''annotate'' (JList [])")
       (simp_all add: sub split: sum.split prod.split)
  show ?thesis
  proof (cases "jget msg ''type'' = Some (JStr ''frame'') \<or> jget msg ''type'' = Some (JStr ''subscribe'')")
    case True
    then show ?thesis using frame subscribe by (auto simp: handle_request_def Let_def)
  next
    case False
    then show ?thesis by (auto simp: handle_request_def Let_def twice split: sum.split option.split)
  qed
qed

subsection \<open>Invariants\<close>

definition slots_ok :: "server \<Rightarrow> bool" where
  "slots_ok sv \<longleftrightarrow>
     pool_ok (sv_pool sv) \<and> distinct_clients sv \<and> distinct (map cl_sid (sv_clients sv)) \<and>
     set (map cl_sid (sv_clients sv)) = set (sp_in_use (sv_pool sv)) \<and>
     sv_preauth_count sv = int (length (sv_handshakes sv)) \<and> distinct (sv_handshakes sv) \<and>
     set (sv_handshakes sv) \<inter> set (map cl_ws (sv_clients sv)) = {} \<and> sv_preauth_count sv \<le> max 0 (sv_preauth_max sv)"

definition bus_ok :: "server \<Rightarrow> bool" where
  "bus_ok sv \<longleftrightarrow>
     addressed (sv_protocol sv) \<and> announced (sv_protocol sv) \<and> list_all valid_frame (ua_written (sv_protocol sv)) \<and>
     list_all (\<lambda>(f, o1, _). valid_frame f \<and> (\<exists>sid. o1 = sid_origin sid)) (ua_queue (sv_protocol sv))"

definition counters_ok :: "server \<Rightarrow> bool" where
  "counters_ok sv \<longleftrightarrow> (\<forall>ws n. rx_of sv ws = Some n \<longrightarrow> (\<exists>i. n = Fin (of_int i)))"

lemma slots_cong:
  assumes "map cl_sid (sv_clients sv') = map cl_sid (sv_clients sv)" and "map cl_ws (sv_clients sv') = map cl_ws (sv_clients sv)"
    and "sv_pool sv' = sv_pool sv" and "sv_preauth_count sv' = sv_preauth_count sv" and "sv_preauth_max sv' = sv_preauth_max sv"
    and "sv_handshakes sv' = sv_handshakes sv"
  shows "slots_ok sv' = slots_ok sv"
  by (simp only: slots_ok_def distinct_clients_def assms)

lemma slots_core:
  assumes "core sv' = core sv"
  shows "slots_ok sv' = slots_ok sv"
  by (rule slots_cong) (simp_all only: core_eqD [OF assms])

lemma slots_touch: "touches ws q sv sv' \<Longrightarrow> slots_ok sv \<Longrightarrow> slots_ok sv'"
proof -
  assume t: "touches ws q sv sv'" and s: "slots_ok sv"
  from t obtain c c' out where c: "find_client sv ws = Some c" "cl_ws c' = ws" "cl_sid c' = cl_sid c"
      "sv' = sv\<lparr>sv_clients := map (\<lambda>d. if cl_ws d = ws then c' else d) (sv_clients sv), sv_out := sv_out sv @ map (Pair ws) out,
        sv_protocol := (sv_protocol sv)\<lparr>ua_queue := ua_queue (sv_protocol sv) @ q\<rparr>\<rparr>" by (auto simp: touches_def)
  have u: "d = c" if "d \<in> set (sv_clients sv)" "cl_ws d = ws" for d
    using find_client_unique [of sv d] s that c(1) by (simp add: slots_ok_def)
  have "map cl_sid (map (\<lambda>d. if cl_ws d = ws then c' else d) (sv_clients sv)) = map cl_sid (sv_clients sv)"
    using u c(3) by auto
  moreover have "map cl_ws (map (\<lambda>d. if cl_ws d = ws then c' else d) (sv_clients sv)) = map cl_ws (sv_clients sv)"
    using c(2) by auto
  ultimately have "map cl_sid (sv_clients sv') = map cl_sid (sv_clients sv)" "map cl_ws (sv_clients sv') = map cl_ws (sv_clients sv)"
    unfolding c(4) by simp_all
  moreover have "sv_pool sv' = sv_pool sv" "sv_preauth_count sv' = sv_preauth_count sv" "sv_preauth_max sv' = sv_preauth_max sv"
      "sv_handshakes sv' = sv_handshakes sv" unfolding c(4) by simp_all
  ultimately show ?thesis using s slots_cong [of sv' sv] by blast
qed

lemma addressed_queue [simp]: "addressed (u\<lparr>ua_queue := q\<rparr>) = addressed u" "announced (u\<lparr>ua_queue := q\<rparr>) = announced u"
  by (simp_all add: addressed_def announced_def)

lemma bus_touch: "touches ws q sv sv' \<Longrightarrow> own_frame c q \<Longrightarrow> bus_ok sv \<Longrightarrow> bus_ok sv'"
  by (auto simp: touches_def bus_ok_def own_frame_def)

lemma bus_core:
  assumes "core sv' = core sv"
  shows "bus_ok sv' = bus_ok sv"
  by (simp only: bus_ok_def core_eqD [OF assms])

lemma slots_leave: "slots_ok sv \<Longrightarrow> slots_ok (leave clock ws sv)"
proof -
  assume s: "slots_ok sv"
  show ?thesis
  proof (cases "find_client sv ws")
    case None
    then show ?thesis using s by (simp add: leave_def)
  next
    case (Some c)
    let ?v = "sv\<lparr>sv_clients := filter (\<lambda>d. cl_ws d \<noteq> ws) (sv_clients sv), sv_pool := release (int (cl_sid c)) (sv_pool sv)\<rparr>"
    have c: "c \<in> set (sv_clients sv)" "cl_ws c = ws" using find_client_Some [OF Some] by auto
    have g: "pool_ok (sv_pool ?v)" "set (sp_in_use (sv_pool ?v)) = set (sp_in_use (sv_pool sv)) - {cl_sid c}"
      using slots.given [of "sv_pool sv" "cl_sid c"] s by (simp_all add: slots_ok_def)
    have u: "d = c" if "d \<in> set (sv_clients sv)" "cl_ws d = ws" for d
      using find_client_unique [of sv d] s that Some by (simp add: slots_ok_def)
    have "filter (\<lambda>d. cl_ws d \<noteq> ws) (sv_clients sv) = filter (\<lambda>d. d \<noteq> c) (sv_clients sv)"
      by (rule filter_cong [OF refl]) (use u c(2) in blast)
    then have "set (sv_clients ?v) = set (sv_clients sv) - {c}" by (simp add: set_diff_eq)
    moreover have "inj_on cl_sid (set (sv_clients sv))" using s by (simp add: slots_ok_def distinct_map)
    ultimately have "set (map cl_sid (sv_clients ?v)) = set (map cl_sid (sv_clients sv)) - {cl_sid c}"
      using c(1) inj_on_image_set_diff [of cl_sid "set (sv_clients sv)" "set (sv_clients sv)" "{c}"] by simp
    then have "slots_ok ?v" using s g by (auto simp: slots_ok_def distinct_clients_def distinct_map_filter)
    then show ?thesis using Some slots_core [OF core_ring_event] by (simp add: leave_def Let_def)
  qed
qed

lemma slots_join:
  assumes "slots_ok sv" and "ws \<notin> set (sv_handshakes sv)" and "find_client sv ws = None"
  shows "slots_ok (join su clock time ws s addr sv)"
proof (cases "acquire (sv_pool sv)")
  case (Pair pool r)
  show ?thesis
  proof (cases r)
    case (Inl e)
    then show ?thesis using Pair assms(1) slots_core [OF core_emit_wire] by (simp add: join_def)
  next
    case (Inr sid)
    have p: "pool_ok pool" "sid \<notin> set (sp_in_use (sv_pool sv))" "set (sp_in_use pool) = insert sid (set (sp_in_use (sv_pool sv)))"
      using slots.taken [of "sv_pool sv" pool sid] Pair Inr assms(1) by (simp_all add: slots_ok_def)
    let ?c = "\<lparr>cl_ws = ws, cl_session = s, cl_sid = sid, cl_include = [''rx''], cl_annotate = [], cl_rejected = False\<rparr>"
    let ?v = "sv\<lparr>sv_pool := pool, sv_clients := sv_clients sv @ [?c]\<rparr>"
    have v: "slots_ok ?v" using assms p by (auto simp: slots_ok_def distinct_clients_def find_client_None)
    then have d: "distinct_clients ?v" by (simp add: slots_ok_def)
    show ?thesis
      using Pair Inr slots_core [OF core_ring_event] slots_core [OF core_send_to [OF d]] v by (simp add: join_def Let_def)
  qed
qed

subsection \<open>Reachable states\<close>

inductive server_reachable :: "suite \<Rightarrow> server \<Rightarrow> server \<Rightarrow> bool" for su start where
  started: "server_reachable su start start"
| moved: "server_reachable su start sv \<Longrightarrow> server_step su sv sv' \<Longrightarrow> server_reachable su start sv'"

definition sizes :: "server \<Rightarrow> nat \<times> int \<times> bool" where
  "sizes sv = (sp_size (sv_pool sv), sv_preauth_max sv, sv_no_encrypt sv)"

definition gateway_ok :: "server \<Rightarrow> bool" where
  "gateway_ok sv \<longleftrightarrow> slots_ok sv \<and> bus_ok sv"

lemma gateway_core:
  assumes "core sv' = core sv"
  shows "gateway_ok sv' = gateway_ok sv" "sizes sv' = sizes sv"
  using slots_core [OF assms] bus_core [OF assms] core_eqD [OF assms] by (simp_all add: gateway_ok_def sizes_def)

lemma slots_distinct: "gateway_ok sv \<Longrightarrow> distinct_clients sv"
  by (simp add: gateway_ok_def slots_ok_def)

lemma core_protocol: "core sv' = core sv \<Longrightarrow> sv_protocol sv' = sv_protocol sv"
  by (rule core_eqD(5))

lemma leave_protocol: "sv_protocol (leave clock ws sv) = sv_protocol sv"
  by (simp add: leave_def Let_def core_protocol [OF core_ring_event] split: option.split)

lemma leave_sizes: "slots_ok sv \<Longrightarrow> sizes (leave clock ws sv) = sizes sv"
proof -
  assume "slots_ok sv"
  then have "sp_size (release (int n) (sv_pool sv)) = sp_size (sv_pool sv)" for n
    using slots.given [of "sv_pool sv" n] by (simp add: slots_ok_def)
  then show ?thesis
    by (simp add: leave_def Let_def gateway_core(2) [OF core_ring_event] split: option.split) (simp add: sizes_def)
qed

lemma bus_cong: "sv_protocol sv' = sv_protocol sv \<Longrightarrow> bus_ok sv' = bus_ok sv"
  by (simp only: bus_ok_def)

lemma gateway_leave: "gateway_ok sv \<Longrightarrow> gateway_ok (leave clock ws sv) \<and> sizes (leave clock ws sv) = sizes sv"
  using slots_leave [of sv clock ws] bus_cong [OF leave_protocol, of clock ws sv] leave_sizes [of sv clock ws] by (simp add: gateway_ok_def)

lemma gateway_touch:
  assumes "touches ws q sv sv'" and "own_frame c q" and "gateway_ok sv"
  shows "gateway_ok sv' \<and> sizes sv' = sizes sv"
proof -
  have "sizes sv' = sizes sv" using assms(1) by (auto simp: touches_def sizes_def)
  then show ?thesis using slots_touch [OF assms(1)] bus_touch [OF assms(1,2)] assms(3) by (simp add: gateway_ok_def)
qed

lemma gateway_message:
  assumes "gateway_ok sv" and "find_client sv ws = Some c"
  shows "gateway_ok (on_message su host clock ws raw sv) \<and> sizes (on_message su host clock ws raw sv) = sizes sv"
proof -
  obtain sv' exc where h: "handle_client_message su host ws raw sv = (sv', exc)" by fastforce
  obtain q where "touches ws q sv sv'" "own_frame c q"
    using handle_client_message_touches [OF slots_distinct [OF assms(1)] assms(2), of su host raw] h by auto
  then have g: "gateway_ok sv' \<and> sizes sv' = sizes sv" using gateway_touch assms(1) by blast
  then have "gateway_ok (leave clock ws sv') \<and> sizes (leave clock ws sv') = sizes sv" using gateway_leave [of sv' clock ws] by simp
  with g h show ?thesis by (simp add: on_message_def)
qed

lemma handshake_frame:
  "handshake su ws r event sv = (sv', res) \<Longrightarrow> \<exists>k out. sv' = sv\<lparr>sv_psk_bytes := k, sv_out := sv_out sv @ out\<rparr>"
proof -
  assume h: "handshake su ws r event sv = (sv', res)"
  have key: "sv\<lparr>sv_psk_bytes := k\<rparr> = sv\<lparr>sv_psk_bytes := k, sv_out := sv_out sv @ []\<rparr>" for k by simp
  have id: "\<exists>k. sv = sv\<lparr>sv_psk_bytes := k\<rparr>" by (rule exI [of _ "sv_psk_bytes sv"]) simp
  have "\<exists>k. fst (ensure_psk su sv) = sv\<lparr>sv_psk_bytes := k\<rparr>"
    using id by (auto simp: ensure_psk_def split: option.split sum.split)
  then obtain k where k: "fst (ensure_psk su sv) = sv\<lparr>sv_psk_bytes := k\<rparr>" by blast
  consider (same) "sv' = sv" | (psk) "sv' = sv\<lparr>sv_psk_bytes := k\<rparr>" | (sent) out where "sv' = emit_wire ws out (sv\<lparr>sv_psk_bytes := k\<rparr>)"
    using h k by (auto simp: handshake_def split: if_splits prod.splits sum.splits hello_event.splits)
  then show ?thesis
  proof cases
    case same
    show ?thesis by (rule exI [of _ "sv_psk_bytes sv"], rule exI [of _ "[]"]) (simp add: same)
  next
    case psk
    then show ?thesis using key by blast
  next
    case sent
    then show ?thesis by (simp add: emit_wire_def) blast
  qed
qed

lemma join_protocol: "slots_ok sv \<Longrightarrow> sv_protocol (join su clock time ws s addr sv) = sv_protocol sv"
  by (auto simp: join_def Let_def emit_wire_def send_to_def put_client_def core_protocol [OF core_ring_event] split: prod.split sum.split option.split)

lemma send_sizes: "sizes (send_to su ws j sv) = sizes sv"
  by (auto simp: sizes_def send_to_def emit_wire_def put_client_def split: option.split prod.split)

lemma join_sizes: "slots_ok sv \<Longrightarrow> sizes (join su clock time ws s addr sv) = sizes sv"
proof (cases "acquire (sv_pool sv)")
  case (Pair pool r)
  assume "slots_ok sv"
  then have "r = Inr sid \<Longrightarrow> sp_size pool = sp_size (sv_pool sv)" for sid
    using slots.taken [of "sv_pool sv" pool sid] Pair by (simp add: slots_ok_def)
  then show ?thesis using Pair
    by (auto simp: join_def Let_def gateway_core(2) [OF core_ring_event] gateway_core(2) [OF core_emit_wire] send_sizes split: sum.split)
      (simp add: sizes_def)
qed

lemma gateway_shaken:
  assumes "gateway_ok sv" and "ws \<in> set (sv_handshakes sv)"
  shows "gateway_ok (end_handshake su clock time ws r event addr sv) \<and> sizes (end_handshake su clock time ws r event addr sv) = sizes sv"
proof -
  obtain sv1 res where h: "handshake su ws r event sv = (sv1, res)" by fastforce
  obtain k out where v: "sv1 = sv\<lparr>sv_psk_bytes := k, sv_out := sv_out sv @ out\<rparr>" using handshake_frame [OF h] by blast
  let ?v = "sv1\<lparr>sv_preauth_count := sv_preauth_count sv1 - 1, sv_handshakes := remove1 ws (sv_handshakes sv1)\<rparr>"
  have s: "slots_ok sv" using assms(1) by (simp add: gateway_ok_def)
  have len: "int (length (remove1 ws (sv_handshakes sv))) = int (length (sv_handshakes sv)) - 1"
    using assms(2) length_pos_if_in_set [OF assms(2)] by (simp add: length_remove1 of_nat_diff Suc_leI)
  have sv: "slots_ok ?v" using s len by (auto simp: slots_ok_def v distinct_clients_def)
  have b: "bus_ok ?v" "sizes ?v = sizes sv" using assms(1) by (simp_all add: v gateway_ok_def bus_ok_def sizes_def)
  have out: "ws \<notin> set (sv_handshakes ?v)" "find_client ?v ws = None"
    using s assms(2) by (auto simp: v slots_ok_def find_client_None)
  show ?thesis
  proof (cases res)
    case (Inl e)
    then show ?thesis using h sv b by (simp add: end_handshake_def Let_def gateway_ok_def)
  next
    case (Inr t)
    then show ?thesis using h slots_join [OF sv out] bus_cong [OF join_protocol [OF sv]] join_sizes [OF sv] b
      by (simp add: end_handshake_def Let_def gateway_ok_def)
  qed
qed

lemma gateway_opened:
  assumes "gateway_ok sv" and "ws \<notin> set (sv_handshakes sv)" and "find_client sv ws = None"
  shows "gateway_ok (open_connection ws sv) \<and> sizes (open_connection ws sv) = sizes sv"
proof (cases "sv_preauth_count sv \<ge> sv_preauth_max sv")
  case True
  then show ?thesis using assms(1) by (simp add: open_connection_def gateway_core [OF core_emit_wire])
next
  case False
  then show ?thesis using assms
    by (auto simp: open_connection_def gateway_ok_def slots_ok_def bus_ok_def sizes_def distinct_clients_def find_client_None)
qed

lemma gateway_protocol:
  assumes "gateway_ok sv" and "uart_step (sv_protocol sv) (Inr u)" and "ua_queue u = drop k (ua_queue (sv_protocol sv))"
  shows "gateway_ok (protocol_moves su clock ts u sv) \<and> sizes (protocol_moves su clock ts u sv) = sizes sv"
proof -
  let ?p = "sv_protocol sv" and ?v = "sv\<lparr>sv_protocol := u\<rparr>"
  have p: "addressed ?p" "announced ?p" using assms(1) by (simp_all add: gateway_ok_def bus_ok_def)
  obtain n ws where w: "ua_written u = ua_written ?p @ map fst (take n (ua_queue ?p)) @ ws" "list_all valid_frame ws"
    using uart_step_writes [OF assms(2) p] by blast
  have q: "\<forall>x \<in> set (ua_queue ?p). case x of (f, o1, _) \<Rightarrow> valid_frame f \<and> (\<exists>sid. o1 = sid_origin sid)"
    using assms(1) by (simp add: gateway_ok_def bus_ok_def list_all_iff)
  have "\<forall>x \<in> set (take n (ua_queue ?p)). valid_frame (fst x)" using q in_set_takeD [of _ n "ua_queue ?p"] by fastforce
  then have "list_all valid_frame (ua_written u)" using assms(1) w by (auto simp: gateway_ok_def bus_ok_def list_all_iff)
  moreover have "list_all (\<lambda>(f, o1, _). valid_frame f \<and> (\<exists>sid. o1 = sid_origin sid)) (ua_queue u)"
    using q in_set_dropD [of _ k "ua_queue ?p"] assms(3) by (simp add: list_all_iff)
  moreover have "addressed u" "announced u" using uart_step_ok [OF assms(2) p] by simp_all
  ultimately have "bus_ok ?v" by (simp add: bus_ok_def)
  moreover have "slots_ok ?v = slots_ok sv" by (rule slots_cong) simp_all
  ultimately have g: "gateway_ok ?v" using assms(1) by (simp add: gateway_ok_def)
  have "sizes ?v = sizes sv" by (simp add: sizes_def)
  then show ?thesis using g gateway_core [OF core_deliver [OF slots_distinct [OF g]]] by (simp add: protocol_moves_def)
qed

lemma gateway_step:
  assumes "server_step su sv sv'" and "gateway_ok sv"
  shows "gateway_ok sv' \<and> sizes sv' = sizes sv"
  using assms(1)
proof (cases rule: server_step.cases)
  case (broadcasted stats)
  then show ?thesis using gateway_core [OF core_broadcast [OF slots_distinct [OF assms(2)]]] assms(2) by simp
next
  case (opened ws)
  then show ?thesis using gateway_opened [OF assms(2)] by simp
next
  case (shaken ws clock time server_rand event addr)
  then show ?thesis using gateway_shaken [OF assms(2)] by simp
next
  case (message ws c host clock raw)
  then show ?thesis using gateway_message [OF assms(2)] by simp
next
  case (left ws c clock)
  then show ?thesis using gateway_leave [OF assms(2)] by simp
next
  case (protocol_moved u k clock ts)
  then show ?thesis using gateway_protocol [OF assms(2)] by simp
qed

lemma gateway_fresh:
  assumes "new_server config psk ne dn inst v au cap n ring = Inr sv" and "config_ok config"
  shows "gateway_ok sv" "sizes sv = (nat n, cap, ne)" "0 < n"
  using assms
  by (auto simp: new_server_def new_slot_pool_def gateway_ok_def slots_ok_def bus_ok_def sizes_def distinct_clients_def pool_ok_def
      new_uart_def addressed_def announced_def correlation_ok_def dkeys_def split: if_splits)

lemma gateway_reachable:
  assumes "server_reachable su start sv" and "gateway_ok start"
  shows "gateway_ok sv \<and> sizes sv = sizes start"
  using assms(1)
proof (induction rule: server_reachable.induct)
  case started
  then show ?case using assms(2) by simp
next
  case (moved sv sv')
  then show ?case using gateway_step by simp
qed

end
