(* ===== verification/Gateway.thy ===== *)
theory Gateway
  imports Server_Steps
begin

section \<open>What the gateway promises\<close>

text \<open>
  Receive counters only grow while a connection lasts, so a message is handled once.  Then the properties
  of the gateway as a whole: slots, isolation of clients, what reaches the bus, who sees which frame, and
  the way of a frame from a client's sealed request to the bus and of the answer back.
\<close>

subsection \<open>Receive counters only grow\<close>

text \<open>A text that was decrypted is a replay for every later counter.\<close>

lemma decrypted_once:
  assumes "decrypt_json unseal raw s = (s', Inr msg)"
  shows "\<exists>i. ss_rx_counter s' = Fin (of_int i) \<and> \<not> num_le (Fin (of_int i)) (ss_rx_counter s) \<and>
    (\<forall>u. num_le (Fin (of_int i)) (ss_rx_counter u) \<longrightarrow> decrypt_json unseal raw u = (u, Inl ReplayError))"
proof -
  obtain env where env: "loads raw = Inr env" using assms by (auto simp: decrypt_json_def split: sum.splits)
  obtain r where r: "decrypt unseal env s = (s', r)" "bind_res r (\<lambda>p. bind_res (text_of_bytes p) loads) = Inr msg"
    using assms env by (auto simp: decrypt_json_def split: prod.splits)
  then obtain p where p: "r = Inr p" by (cases r) auto
  obtain n where n: "\<not> num_le n (ss_rx_counter s)" "s' = s\<lparr>ss_rx_counter := n\<rparr>" "n = Fin (of_int (envelope_counter env))"
    using decrypt_effect [OF r(1)] p by auto
  obtain c where c: "bind_res (jitem env ''c'') (\<lambda>c. bind_res (number_of_json c) (\<lambda>n. Inr (c, n))) = Inr (c, n)"
    using r(1) p n(1,2) by (auto simp: decrypt_def dest!: arg_cong [of _ _ ss_rx_counter] split: sum.splits if_splits prod.splits)
  have "decrypt_json unseal raw u = (u, Inl ReplayError)" if "num_le n (ss_rx_counter u)" for u
    using that env c by (simp add: decrypt_json_def decrypt_def)
  then show ?thesis using n by auto
qed

lemma rx_cong: "sv_clients sv' = sv_clients sv \<Longrightarrow> rx_of sv' ws = rx_of sv ws"
  by (simp add: rx_of_def find_client_def)

lemma find_other:
  "ws' \<noteq> ws \<Longrightarrow> cl_ws c' = ws \<Longrightarrow> find (\<lambda>d. cl_ws d = ws') (map (\<lambda>d. if cl_ws d = ws then c' else d) ds) = find (\<lambda>d. cl_ws d = ws') ds"
  by (induction ds) auto

lemma touches_other: "touches ws q sv sv' \<Longrightarrow> ws' \<noteq> ws \<Longrightarrow> find_client sv' ws' = find_client sv ws'"
  by (auto simp: touches_def find_client_def find_other)

lemma find_filter: "ws' \<noteq> ws \<Longrightarrow> find (\<lambda>d. cl_ws d = ws') (filter (\<lambda>d. cl_ws d \<noteq> ws) ds) = find (\<lambda>d. cl_ws d = ws') ds"
  by (induction ds) auto

lemma ring_clients [simp]: "sv_clients (ring_event clock event given sv) = sv_clients sv" "sv_out (ring_event clock event given sv) = sv_out sv"
  by (auto simp: ring_event_def split: option.splits sum.splits)

lemma leave_clients: "sv_clients (leave clock ws sv) = filter (\<lambda>d. cl_ws d \<noteq> ws) (sv_clients sv)"
proof (cases "find_client sv ws")
  case None
  then have "\<forall>d \<in> set (sv_clients sv). cl_ws d \<noteq> ws" by (auto simp: find_client_None)
  then show ?thesis using None by (simp add: leave_def)
next
  case (Some c)
  then show ?thesis by (simp add: leave_def Let_def)
qed

lemma find_appended: "find P (xs @ ys) = (case find P xs of Some x \<Rightarrow> Some x | None \<Rightarrow> find P ys)"
  by (induction xs) simp_all

lemma find_leave_gone: "find_client (leave clock ws sv) ws = None"
  by (auto simp: find_client_None leave_clients)

lemma find_leave_other: "ws' \<noteq> ws \<Longrightarrow> find_client (leave clock ws sv) ws' = find_client sv ws'"
  by (simp add: find_client_def leave_clients find_filter)

text \<open>The effect of one message on the counter of its sender, who is still there.\<close>

lemma message_rx:
  assumes "gateway_ok sv" and "find_client sv ws = Some c" and "find_client (on_message su host clock ws raw sv) ws \<noteq> None"
  shows "if sv_no_encrypt sv \<or> cl_session c = None then rx_of (on_message su host clock ws raw sv) ws = rx_of sv ws
    else \<exists>s s' msg. cl_session c = Some s \<and> decrypt_json (su_unseal su) raw s = (s', Inr msg) \<and>
      rx_of (on_message su host clock ws raw sv) ws = Some (ss_rx_counter s')"
proof -
  obtain d r where d: "connection_decrypt su (sv_no_encrypt sv) raw c = (d, r)" by fastforce
  have w: "cl_ws c = ws" using find_client_Some [OF assms(2)] by simp
  then have dw: "cl_ws d = ws" using d by (auto simp: connection_decrypt_def split: option.splits prod.splits)
  let ?v = "put_client d sv"
  have f: "find_client ?v ws = Some d" using find_put [of sv d c] assms(2) dw by simp
  have dc: "distinct_clients ?v" using slots_distinct [OF assms(1)] by simp
  show ?thesis
  proof (cases "bind_res r (\<lambda>msg. if is_object msg then Inr msg else Inl ValueError)")
    case (Inl e)
    have "find_client (reject_client ws e ?v) ws = Some (d\<lparr>cl_rejected := True\<rparr>)"
      using f find_put [of ?v "d\<lparr>cl_rejected := True\<rparr>" d] dw by (simp add: reject_client_def emit_wire_def find_client_def)
    then have "on_message su host clock ws raw sv = leave clock ws (if caught_by_decode e then reject_client ws e ?v else ?v)"
      using assms(2) d Inl by (simp add: on_message_def handle_client_message_def Let_def)
    then show ?thesis using assms(3) find_leave_gone by simp
  next
    case (Inr msg)
    obtain sv' exc where h: "handle_request su host d msg ?v = (sv', exc)" by fastforce
    have m: "handle_client_message su host ws raw sv = (sv', exc)"
      by (simp only: handle_client_message_def assms(2) d Inr h Let_def option.case prod.case sum.case)
    have stay: "on_message su host clock ws raw sv = sv'" using assms(3) m find_leave_gone by (auto simp: on_message_def split: if_splits)
    have "rx_of sv' ws = rx_of ?v ws" using rx_request [OF dc, of d su host msg] f dw h by simp
    then have rx: "rx_of (on_message su host clock ws raw sv) ws = map_option ss_rx_counter (cl_session d)"
      using stay f by (simp add: rx_of_def)
    obtain j where r: "r = Inr j" using Inr by (cases r) auto
    show ?thesis
    proof (cases "sv_no_encrypt sv \<or> cl_session c = None")
      case True
      then have "d = c" using d by (auto simp: connection_decrypt_def split: if_splits)
      then show ?thesis using True rx assms(2) by (simp add: rx_of_def)
    next
      case False
      then obtain s s' where "cl_session c = Some s" "decrypt_json (su_unseal su) raw s = (s', r)" "d = c\<lparr>cl_session := Some s'\<rparr>"
        using d by (auto simp: connection_decrypt_def split: prod.splits)
      then show ?thesis using False rx r by simp
    qed
  qed
qed

text \<open>\<open>advances sv sv' ws\<close>: the counter of a connection that stays is kept or grows; a new one starts at -1.\<close>

definition advances :: "server \<Rightarrow> server \<Rightarrow> nat \<Rightarrow> bool" where
  "advances sv sv' ws \<longleftrightarrow>
     (if find_client sv' ws = None then True
      else if find_client sv ws = None then rx_of sv' ws \<in> {None, Some (Fin (-1))}
      else rx_of sv' ws = rx_of sv ws \<or>
        (\<exists>m i. rx_of sv ws = Some m \<and> rx_of sv' ws = Some (Fin (of_int i)) \<and> \<not> num_le (Fin (of_int i)) m))"

lemma advances_same: "find_client sv' ws = find_client sv ws \<Longrightarrow> advances sv sv' ws"
  by (simp add: advances_def rx_of_def)

lemma advances_core: "core sv' = core sv \<Longrightarrow> advances sv sv' ws"
  using find_core_eq [of sv' sv ws] rx_of_core_eq [of sv' sv ws] by (simp add: advances_def)

lemma advances_core_after:
  assumes "advances sv sv1 ws" and "core sv2 = core sv1"
  shows "advances sv sv2 ws"
  using assms(1) by (simp only: advances_def find_core_eq [OF assms(2)] rx_of_core_eq [OF assms(2)])

lemma advances_message:
  assumes "gateway_ok sv" and "find_client sv ws = Some c"
  shows "advances sv (on_message su host clock ws raw sv) ws'"
proof (cases "ws' = ws")
  case True
  show ?thesis
  proof (cases "find_client (on_message su host clock ws raw sv) ws = None")
    case True
    then show ?thesis using \<open>ws' = ws\<close> by (simp add: advances_def)
  next
    case False
    note m = message_rx [OF assms False]
    show ?thesis
    proof (cases "sv_no_encrypt sv \<or> cl_session c = None")
      case True
      then show ?thesis using m \<open>ws' = ws\<close> assms(2) by (simp add: advances_def)
    next
      case f: False
      then obtain s s' msg where s: "cl_session c = Some s" "decrypt_json (su_unseal su) raw s = (s', Inr msg)"
          "rx_of (on_message su host clock ws raw sv) ws = Some (ss_rx_counter s')" using m by auto
      from decrypted_once [OF s(2)] obtain i where "ss_rx_counter s' = Fin (of_int i)" "\<not> num_le (Fin (of_int i)) (ss_rx_counter s)" by blast
      then show ?thesis using s False \<open>ws' = ws\<close> assms(2) by (simp add: advances_def) (simp add: rx_of_def)
    qed
  qed
next
  case False
  obtain sv' exc where h: "handle_client_message su host ws raw sv = (sv', exc)" by fastforce
  obtain q where "touches ws q sv sv'"
    using handle_client_message_touches [OF slots_distinct [OF assms(1)] assms(2), of su host raw] h by auto
  from touches_other [OF this False] show ?thesis
    using h find_leave_other [OF False] by (intro advances_same) (simp add: on_message_def)
qed

lemma handshake_session: "handshake su ws r event sv = (sv', Inr (Some s)) \<Longrightarrow> ss_rx_counter s = Fin (-1)"
  by (auto simp: handshake_def complete_handshake_server_def derive_session_def new_session_def Let_def
      split: if_splits prod.splits sum.splits hello_event.splits)

lemma advances_shaken:
  assumes "gateway_ok sv" and "ws \<in> set (sv_handshakes sv)"
  shows "advances sv (end_handshake su clock time ws r event addr sv) ws'"
proof -
  obtain sv1 res where h: "handshake su ws r event sv = (sv1, res)" by fastforce
  obtain k out where v: "sv1 = sv\<lparr>sv_psk_bytes := k, sv_out := sv_out sv @ out\<rparr>" using handshake_frame [OF h] by blast
  let ?v = "sv1\<lparr>sv_preauth_count := sv_preauth_count sv1 - 1, sv_handshakes := remove1 ws (sv_handshakes sv1)\<rparr>"
  have base: "advances sv ?v ws'" by (rule advances_same) (simp add: v find_client_def)
  have new: "find_client sv ws = None" and d: "distinct_clients ?v"
    using assms by (auto simp: gateway_ok_def slots_ok_def find_client_None v distinct_clients_def)
  show ?thesis
  proof (cases res)
    case (Inl e)
    then show ?thesis using h base by (simp add: end_handshake_def Let_def)
  next
    case (Inr t)
    obtain pool a where a: "acquire (sv_pool ?v) = (pool, a)" by fastforce
    show ?thesis
    proof (cases a)
      case (Inl e)
      then show ?thesis using h Inr a base by (simp add: end_handshake_def Let_def join_def advances_core_after [OF base core_emit_wire])
    next
      case sid: (Inr sid)
      let ?c = "\<lparr>cl_ws = ws, cl_session = t, cl_sid = sid, cl_include = [''rx''], cl_annotate = [], cl_rejected = False\<rparr>"
      let ?w = "?v\<lparr>sv_pool := pool, sv_clients := sv_clients ?v @ [?c]\<rparr>"
      have f: "find_client ?w x = (if x = ws then Some ?c else find_client sv x)" for x
        using new [unfolded find_client_def]
        by (cases "x = ws"; cases "find (\<lambda>c. cl_ws c = x) (sv_clients sv)") (auto simp: find_client_def v find_appended)
      have "rx_of ?w ws = map_option ss_rx_counter t" unfolding rx_of_def f by simp
      then have "rx_of ?w ws \<in> {None, Some (Fin (-1))}"
        using h Inr handshake_session [of su ws r event sv sv1] by (cases t) simp_all
      then have w: "advances sv ?w ws'" using new advances_same [of ?w ws' sv] unfolding advances_def f by (cases "ws' = ws") simp_all
      have "distinct_clients ?w" using d new by (auto simp: distinct_clients_def v find_client_None)
      then have "core (end_handshake su clock time ws r event addr sv) = core ?w"
        using h Inr a sid by (simp add: end_handshake_def Let_def join_def)
      from advances_core_after [OF w this] show ?thesis .
    qed
  qed
qed

lemma advances_step:
  assumes "server_step su sv sv'" and "gateway_ok sv"
  shows "advances sv sv' ws'"
  using assms(1)
proof (cases rule: server_step.cases)
  case (opened ws)
  then show ?thesis by (intro advances_same) (simp add: open_connection_def emit_wire_def find_client_def)
next
  case (shaken ws clock time server_rand event addr)
  then show ?thesis using advances_shaken [OF assms(2)] by simp
next
  case (message ws c host clock raw)
  then show ?thesis using advances_message [OF assms(2)] by simp
next
  case (left ws c clock)
  then show ?thesis
    using find_leave_gone [of clock ws sv] advances_same [OF find_leave_other [of ws' ws clock sv]]
    by (cases "ws' = ws") (simp_all add: advances_def)
next
  case (broadcasted stats)
  then show ?thesis using advances_core [OF core_broadcast [OF slots_distinct [OF assms(2)]]] by simp
next
  case (protocol_moved u k clock ts)
  let ?v = "sv\<lparr>sv_protocol := u\<rparr>"
  have "distinct_clients ?v" using slots_distinct [OF assms(2)] by (simp add: distinct_clients_def)
  moreover have "advances sv ?v ws'" by (rule advances_same) (simp add: find_client_def)
  ultimately show ?thesis using advances_core_after [OF _ core_deliver] protocol_moved(1) by (simp add: protocol_moves_def)
qed

lemma counters_step: "server_step su sv sv' \<Longrightarrow> gateway_ok sv \<Longrightarrow> counters_ok sv \<Longrightarrow> counters_ok sv'"
proof -
  assume s: "server_step su sv sv'" and g: "gateway_ok sv" and c: "counters_ok sv"
  have "\<exists>i. n = Fin (of_int i)" if n: "rx_of sv' ws = Some n" for ws n
  proof -
    have f: "find_client sv' ws \<noteq> None" using n by (auto simp: rx_of_def split: option.splits)
    have a: "advances sv sv' ws" by (rule advances_step [OF s g])
    show ?thesis
    proof (cases "find_client sv ws = None")
      case True
      then have "n = Fin (of_int (-1))" using a f n by (simp add: advances_def)
      then show ?thesis by blast
    next
      case False
      then consider "rx_of sv ws = Some n" | i where "n = Fin (of_int i)" using a f n by (auto simp: advances_def)
      then show ?thesis using c by cases (auto simp: counters_ok_def)
    qed
  qed
  then show ?thesis by (simp add: counters_ok_def)
qed

lemma counters_reachable:
  assumes "server_reachable su start sv" and "gateway_ok start" and "sv_clients start = []"
  shows "counters_ok sv"
  using assms(1)
proof (induction rule: server_reachable.induct)
  case started
  then show ?case using assms(3) by (simp add: counters_ok_def rx_of_def find_client_def)
next
  case (moved sv sv')
  then show ?case using gateway_reachable [OF moved.hyps(1) assms(2)] counters_step by blast
qed

text \<open>\<open>stays su ws sv sv'\<close>: steps in which the connection \<open>ws\<close> is there throughout.\<close>

inductive stays :: "suite \<Rightarrow> nat \<Rightarrow> server \<Rightarrow> server \<Rightarrow> bool" for su ws where
  still: "find_client sv ws \<noteq> None \<Longrightarrow> stays su ws sv sv"
| longer: "stays su ws sv sv' \<Longrightarrow> server_step su sv' sv'' \<Longrightarrow> find_client sv'' ws \<noteq> None \<Longrightarrow> stays su ws sv sv''"

lemma stays_there: "stays su ws sv sv' \<Longrightarrow> find_client sv ws \<noteq> None \<and> find_client sv' ws \<noteq> None"
  by (induction rule: stays.induct) auto

lemma stays_rx:
  assumes "stays su ws sv sv'" and "gateway_ok sv" and "rx_of sv ws = Some (Fin q)"
  shows "gateway_ok sv' \<and> sizes sv' = sizes sv \<and> (\<exists>q'. q \<le> q' \<and> rx_of sv' ws = Some (Fin q'))"
  using assms
proof (induction rule: stays.induct)
  case (still sv)
  then show ?case by auto
next
  case (longer sv sv' sv'')
  then obtain q' where i: "gateway_ok sv'" "sizes sv' = sizes sv" "q \<le> q'" "rx_of sv' ws = Some (Fin q')" by blast
  have g: "gateway_ok sv''" "sizes sv'' = sizes sv'" using gateway_step [OF longer.hyps(2) i(1)] by simp_all
  have a: "advances sv' sv'' ws" by (rule advances_step [OF longer.hyps(2) i(1)])
  have f: "find_client sv' ws \<noteq> None" using stays_there [OF longer.hyps(1)] by simp
  consider "rx_of sv'' ws = Some (Fin q')" | i where "rx_of sv'' ws = Some (Fin (of_int i))" "\<not> of_int i \<le> q'"
    using a f longer.hyps(3) i(4) by (auto simp: advances_def)
  then have "\<exists>r. q' \<le> r \<and> rx_of sv'' ws = Some (Fin r)" by cases auto
  then show ?case using g i(2,3) by (metis order_trans)
qed

lemma valid_frame_iff: "valid_frame f \<longleftrightarrow> (\<exists>p. validate_frame f = Inr p)"
  by (auto simp: valid_frame_def split: sum.splits)

subsection \<open>Properties\<close>

text \<open>C11: slots and connections agree in every state the gateway reaches: each client has a slot of its own,
  the slots in use are exactly theirs, there are never more clients than slots, the handshakes are counted
  exactly and their number stays within the cap, and no connection is in its handshake and a client at once.\<close>

theorem gateway_slots:
  assumes "new_server config psk ne dn inst v au cap n ring = Inr start" and "config_ok config" and "server_reachable su start sv"
  shows "distinct (map cl_ws (sv_clients sv)) \<and> distinct (map cl_sid (sv_clients sv)) \<and>
    set (map cl_sid (sv_clients sv)) = set (sp_in_use (sv_pool sv)) \<and> (\<forall>sid \<in> set (sp_in_use (sv_pool sv)). int sid < n) \<and>
    int (length (sv_clients sv)) \<le> n \<and> sv_preauth_count sv = int (length (sv_handshakes sv)) \<and> sv_preauth_count sv \<le> max 0 cap \<and>
    set (sv_handshakes sv) \<inter> set (map cl_ws (sv_clients sv)) = {}"
proof -
  have g: "gateway_ok sv" "sizes sv = (nat n, cap, ne)" "0 < n"
    using gateway_reachable [OF assms(3)] gateway_fresh [OF assms(1,2)] by simp_all
  have s: "slots_ok sv" using g(1) by (simp add: gateway_ok_def)
  then have p: "pool_ok (sv_pool sv)" by (simp add: slots_ok_def)
  have "sp_size (sv_pool sv) = nat n" "sv_preauth_max sv = cap" using g(2) by (simp_all add: sizes_def)
  moreover have "length (sv_clients sv) = card (set (sp_in_use (sv_pool sv)))"
    using s distinct_card [of "map cl_sid (sv_clients sv)"] by (simp add: slots_ok_def)
  moreover have "card (set (sp_in_use (sv_pool sv))) \<le> sp_size (sv_pool sv)" using slots.never_more [OF p] .
  moreover have "set (sp_in_use (sv_pool sv)) \<subseteq> {..<sp_size (sv_pool sv)}" using slots.bounded [OF p] .
  ultimately have "int (length (sv_clients sv)) \<le> n" "\<forall>sid \<in> set (sp_in_use (sv_pool sv)). int sid < n" "sv_preauth_max sv = cap"
    using g(3) by auto
  then show ?thesis using s by (simp add: slots_ok_def distinct_clients_def)
qed

text \<open>
  Where a waiting frame comes from: a message of a client, in an earlier state, put it at the end of
  the queue under the slot of this client.
\<close>

definition queued_by :: "suite \<Rightarrow> server \<Rightarrow> server \<Rightarrow> bytes \<times> string \<times> json option \<Rightarrow> bool" where
  "queued_by su start sv x \<longleftrightarrow>
     (\<exists>sv0 ws c host clock raw. server_reachable su start sv0 \<and> find_client sv0 ws = Some c \<and>
        fst (snd x) = ''ws:'' @ dec (cl_sid c) \<and>
        ua_queue (sv_protocol (on_message su host clock ws raw sv0)) = ua_queue (sv_protocol sv0) @ [x] \<and>
        server_reachable su (on_message su host clock ws raw sv0) sv)"

lemma message_queue:
  assumes "gateway_ok sv" and "find_client sv ws = Some c"
  shows "\<exists>q. ua_queue (sv_protocol (on_message su host clock ws raw sv)) = ua_queue (sv_protocol sv) @ q \<and> own_frame c q"
proof -
  obtain sv1 exc where h: "handle_client_message su host ws raw sv = (sv1, exc)" by fastforce
  obtain q where q: "touches ws q sv sv1" "own_frame c q"
    using handle_client_message_touches [OF slots_distinct [OF assms(1)] assms(2), of su host raw] h by auto
  have "sv_protocol (on_message su host clock ws raw sv) = sv_protocol sv1"
    using h leave_protocol by (simp add: on_message_def)
  then show ?thesis using q by (auto simp: touches_def)
qed

text \<open>Every other step leaves the queue or takes frames from its front.\<close>

lemma step_queue:
  assumes "server_step su sv sv'" and "gateway_ok sv"
  shows "(\<exists>k. ua_queue (sv_protocol sv') = drop k (ua_queue (sv_protocol sv))) \<or>
    (\<exists>ws c host clock raw. find_client sv ws = Some c \<and> sv' = on_message su host clock ws raw sv)"
  using assms(1)
proof (cases rule: server_step.cases)
  case (opened ws)
  then have "ua_queue (sv_protocol sv') = drop 0 (ua_queue (sv_protocol sv))"
    by (simp add: open_connection_def emit_wire_def)
  then show ?thesis by blast
next
  case (shaken ws clock time server_rand event addr)
  obtain sv1 res where h: "handshake su ws server_rand event sv = (sv1, res)" by fastforce
  obtain k out where v: "sv1 = sv\<lparr>sv_psk_bytes := k, sv_out := sv_out sv @ out\<rparr>" using handshake_frame [OF h] by blast
  let ?v = "sv1\<lparr>sv_preauth_count := sv_preauth_count sv1 - 1, sv_handshakes := remove1 ws (sv_handshakes sv1)\<rparr>"
  have "int (length (remove1 ws (sv_handshakes sv))) = int (length (sv_handshakes sv)) - 1"
    using shaken(2) length_pos_if_in_set [OF shaken(2)] by (simp add: length_remove1 of_nat_diff Suc_leI)
  then have "slots_ok ?v" using assms(2) by (auto simp: gateway_ok_def slots_ok_def v distinct_clients_def)
  then have "sv_protocol sv' = sv_protocol ?v"
    using shaken(1) h join_protocol by (auto simp: end_handshake_def Let_def split: sum.split)
  then have "ua_queue (sv_protocol sv') = drop 0 (ua_queue (sv_protocol sv))" by (simp add: v)
  then show ?thesis by blast
next
  case (message ws c host clock raw)
  then show ?thesis by blast
next
  case (left ws c clock)
  then have "ua_queue (sv_protocol sv') = drop 0 (ua_queue (sv_protocol sv))" by (simp add: leave_protocol)
  then show ?thesis by blast
next
  case (broadcasted stats)
  then have "ua_queue (sv_protocol sv') = drop 0 (ua_queue (sv_protocol sv))"
    using core_protocol [OF core_broadcast [OF slots_distinct [OF assms(2)]]] by simp
  then show ?thesis by blast
next
  case (protocol_moved u k clock ts)
  let ?v = "sv\<lparr>sv_protocol := u\<rparr>"
  have "distinct_clients ?v" using slots_distinct [OF assms(2)] by (simp add: distinct_clients_def)
  then have "sv_protocol sv' = u"
    using protocol_moved(1) core_protocol [OF core_deliver] by (simp add: protocol_moves_def)
  then show ?thesis using protocol_moved(3) by auto
qed

lemma queue_origins:
  assumes "server_reachable su start sv" and "gateway_ok start" and "ua_queue (sv_protocol start) = []"
  shows "\<forall>x \<in> set (ua_queue (sv_protocol sv)). queued_by su start sv x"
  using assms(1)
proof (induction rule: server_reachable.induct)
  case started
  then show ?case using assms(3) by simp
next
  case (moved sv sv')
  have g: "gateway_ok sv" using gateway_reachable [OF moved.hyps(1) assms(2)] by simp
  have later: "queued_by su start sv x \<Longrightarrow> queued_by su start sv' x" for x
    unfolding queued_by_def using server_reachable.moved [OF _ moved.hyps(2)] by blast
  from step_queue [OF moved.hyps(2) g] show ?case
  proof (elim disjE exE conjE)
    fix k assume "ua_queue (sv_protocol sv') = drop k (ua_queue (sv_protocol sv))"
    then show ?thesis using moved.IH later in_set_dropD [of _ k] by fastforce
  next
    fix ws c host clock raw
    assume c: "find_client sv ws = Some c" and m: "sv' = on_message su host clock ws raw sv"
    obtain q where q: "ua_queue (sv_protocol sv') = ua_queue (sv_protocol sv) @ q" "own_frame c q"
      using message_queue [OF g c] unfolding m by blast
    show ?thesis
    proof (cases "q = []")
      case True
      then show ?thesis using q(1) moved.IH later by simp
    next
      case False
      then obtain x where x: "q = [x]" "fst (snd x) = ''ws:'' @ dec (cl_sid c)"
        using q(2) by (auto simp: own_frame_def sid_origin_def)
      have "queued_by su start sv' x"
        unfolding queued_by_def
        by (intro exI [of _ sv] exI [of _ ws] exI [of _ c] exI [of _ host] exI [of _ clock] exI [of _ raw] conjI)
          (use moved.hyps(1) c x q(1) m server_reachable.started in auto)
      then show ?thesis using q(1) x(1) moved.IH later by simp
    qed
  qed
qed

text \<open>C10: whatever the clients send, every frame that was written to the appliance passes the frame check.  Every
  frame that waits passes it too, and it carries its sender's slot: on the way to this state a message of a client
  put exactly this frame at the end of the queue, under the slot that client has.\<close>

theorem only_valid_frames_reach_bus:
  assumes "new_server config psk ne dn inst v au cap n ring = Inr start" and "config_ok config" and "server_reachable su start sv"
  shows "(\<forall>f \<in> set (ua_written (sv_protocol sv)). \<exists>p. validate_frame f = Inr p) \<and>
    (\<forall>(f, origin, req_id) \<in> set (ua_queue (sv_protocol sv)). (\<exists>p. validate_frame f = Inr p) \<and>
       (\<exists>before ws c host clock raw. server_reachable su start before \<and> find_client before ws = Some c \<and>
          origin = ''ws:'' @ dec (cl_sid c) \<and>
          ua_queue (sv_protocol (on_message su host clock ws raw before)) =
            ua_queue (sv_protocol before) @ [(f, origin, req_id)] \<and>
          server_reachable su (on_message su host clock ws raw before) sv))"
proof -
  have g: "gateway_ok sv" using gateway_reachable [OF assms(3)] gateway_fresh [OF assms(1,2)] by simp
  have "ua_queue (sv_protocol start) = []"
    using assms(1) by (auto simp: new_server_def new_uart_def split: if_splits sum.split_asm)
  then have "\<forall>x \<in> set (ua_queue (sv_protocol sv)). queued_by su start sv x"
    using queue_origins [OF assms(3)] gateway_fresh [OF assms(1,2)] by simp
  then have "\<forall>(f, origin, req_id) \<in> set (ua_queue (sv_protocol sv)). queued_by su start sv (f, origin, req_id)"
    by auto
  then show ?thesis using g
    unfolding queued_by_def fst_conv snd_conv
    by (auto simp: gateway_ok_def bus_ok_def list_all_iff valid_frame_iff)
qed

definition sent_to :: "nat \<Rightarrow> (nat \<times> wire) list \<Rightarrow> wire list" where
  "sent_to ws out = map snd (filter (\<lambda>x. fst x = ws) out)"

lemma sent_to_append [simp]: "sent_to ws (a @ b) = sent_to ws a @ sent_to ws b" "sent_to ws [] = []"
  "sent_to ws (map (Pair ws) out) = out" "ws' \<noteq> ws \<Longrightarrow> sent_to ws' (map (Pair ws) out) = []"
  by (simp_all add: sent_to_def comp_def filter_map)


text \<open>C9: a message is handled at most once on its connection: in an encrypted session, when the same text arrives
  again after a client's message was handled, after whatever else happened while the client stayed connected, it has no effect but that
  the client is told \<open>1008 malformed message\<close> and loses its slot.\<close>

theorem handled_once:
  assumes "new_server config psk False dn inst v au cap n ring = Inr start" and "config_ok config" and "server_reachable su start sv"
    and "find_client sv ws = Some c" and "cl_session c = Some s"
    and "stays su ws (on_message su host clock ws raw sv) later"
    and "after = on_message su host' clock' ws raw later"
  shows "find_client after ws = None \<and> sv_protocol after = sv_protocol later \<and>
    sv_out after = sv_out later @ [(ws, Close 1008 ''malformed message'')]"
proof -
  let ?sv1 = "on_message su host clock ws raw sv"
  have g: "gateway_ok sv" "sizes sv = (nat n, cap, False)"
    using gateway_reachable [OF assms(3)] gateway_fresh [OF assms(1,2)] by simp_all
  have ne: "\<not> sv_no_encrypt sv" using g(2) by (simp add: sizes_def)
  have there: "find_client ?sv1 ws \<noteq> None" using stays_there [OF assms(6)] by simp
  note m = message_rx [OF g(1) assms(4) there]
  then obtain s' msg where s': "decrypt_json (su_unseal su) raw s = (s', Inr msg)" "rx_of ?sv1 ws = Some (ss_rx_counter s')"
    using ne assms(5) by auto
  from decrypted_once [OF s'(1)] obtain i where i: "ss_rx_counter s' = Fin (of_int i)"
      "\<And>u. num_le (Fin (of_int i)) (ss_rx_counter u) \<Longrightarrow> decrypt_json (su_unseal su) raw u = (u, Inl ReplayError)" by blast
  have g1: "gateway_ok ?sv1" "sizes ?sv1 = sizes sv" using gateway_message [OF g(1) assms(4)] by simp_all
  obtain q' where l: "of_int i \<le> q'" "rx_of later ws = Some (Fin q')" "sizes later = sizes sv"
    using stays_rx [OF assms(6) g1(1)] s'(2) i(1) g1(2) by auto
  then obtain d u where d: "find_client later ws = Some d" "cl_session d = Some u" "ss_rx_counter u = Fin q'"
    by (auto simp: rx_of_def split: option.splits)
  have "decrypt_json (su_unseal su) raw u = (u, Inl ReplayError)" by (rule i(2)) (simp add: d(3) l(1))
  moreover have "\<not> sv_no_encrypt later" using l(3) g(2) by (simp add: sizes_def)
  moreover have "d\<lparr>cl_session := Some u\<rparr> = d" using d(2) by simp
  ultimately have dec: "connection_decrypt su (sv_no_encrypt later) raw d = (d, Inl ReplayError)" using d(2) by (simp add: connection_decrypt_def)
  have dw: "cl_ws d = ws" using find_client_Some [OF d(1)] by simp
  let ?v = "put_client d later" and ?r = "reject_client ws ReplayError (put_client d later)"
  have f: "find_client ?v ws = Some d" using find_put [of later d d] d(1) dw by simp
  have "find_client ?r ws = Some (d\<lparr>cl_rejected := True\<rparr>)"
    using f find_put [of ?v "d\<lparr>cl_rejected := True\<rparr>" d] dw by (simp add: reject_client_def emit_wire_def find_client_def)
  then have "after = leave clock' ws ?r"
    using assms(7) d(1) dec by (simp add: on_message_def handle_client_message_def Let_def caught_by_decode_def bind_res_def)
  moreover have "sv_out (leave clock' ws ?r) = sv_out ?r" by (simp add: leave_def Let_def split: option.split)
  moreover have "sv_out ?r = sv_out later @ [(ws, Close 1008 ''malformed message'')]" "sv_protocol ?r = sv_protocol later"
    using f by (simp_all add: reject_client_def emit_wire_def put_client_def)
  ultimately show ?thesis using find_leave_gone leave_protocol by simp
qed

subsection \<open>What the tap sends\<close>

lemma send_found:
  "find_client sv ws = Some c \<Longrightarrow> sv_out (send_to su ws j sv) = sv_out sv @ map (Pair ws) (snd (connection_send su (sv_no_encrypt sv) j c))"
  by (simp add: send_to_def emit_wire_def put_client_def split: prod.split)

lemma fold_send_log:
  assumes "distinct (map cl_ws cs)" and "distinct_clients sv" and "\<forall>c \<in> set cs. find_client sv (cl_ws c) = Some c"
  shows "sv_out (fold (\<lambda>c. if P c then send_to su (cl_ws c) (msg c) else id) cs sv) =
    sv_out sv @ concat (map (\<lambda>c. if P c then map (Pair (cl_ws c)) (snd (connection_send su (sv_no_encrypt sv) (msg c) c)) else []) cs)"
  using assms
proof (induction cs arbitrary: sv)
  case Nil
  then show ?case by simp
next
  case (Cons c cs)
  let ?v = "if P c then send_to su (cl_ws c) (msg c) sv else sv"
  have c: "find_client sv (cl_ws c) = Some c" using Cons.prems by simp
  have v: "core ?v = core sv" using Cons.prems(2) by simp
  then have d: "distinct_clients ?v" and ne: "sv_no_encrypt ?v = sv_no_encrypt sv" using Cons.prems(2) core_eqD(6,9) by blast+
  have "\<forall>e \<in> set cs. find_client ?v (cl_ws e) = Some e"
  proof
    fix e
    assume e: "e \<in> set cs"
    then have "cl_ws e \<noteq> cl_ws c" using Cons.prems(1) by (auto simp: image_iff dest: sym)
    then have "find_client ?v (cl_ws e) = find_client sv (cl_ws e)" using touches_other [OF touches_send [OF c]] by simp
    then show "find_client ?v (cl_ws e) = Some e" using e Cons.prems(3) by simp
  qed
  from Cons.IH [OF _ d this, unfolded ne] have "sv_out (fold (\<lambda>c. if P c then send_to su (cl_ws c) (msg c) else id) cs ?v) =
      sv_out ?v @ concat (map (\<lambda>c. if P c then map (Pair (cl_ws c)) (snd (connection_send su (sv_no_encrypt sv) (msg c) c)) else []) cs)"
    using Cons.prems(1) by simp
  then show ?case using send_found [OF c] by (cases "P c") simp_all
qed

lemma sent_to_concat:
  assumes "distinct (map cl_ws cs)"
  shows "sent_to ws (concat (map (\<lambda>c. map (Pair (cl_ws c)) (out c)) cs)) =
    (case find (\<lambda>c. cl_ws c = ws) cs of None \<Rightarrow> [] | Some c \<Rightarrow> out c)"
  using assms
proof (induction cs)
  case Nil
  then show ?case by simp
next
  case (Cons c cs)
  show ?case
  proof (cases "cl_ws c = ws")
    case True
    then have "find (\<lambda>c. cl_ws c = ws) cs = None" using Cons.prems by (auto simp: find_None_iff image_iff dest: sym)
    then show ?thesis using Cons True by simp
  next
    case False
    then show ?thesis using Cons by simp
  qed
qed

lemma tap_log:
  assumes "distinct_clients sv"
  shows "sent_to ws (sv_out (on_uart_frame su clock raw ts d meta sv)) = sent_to ws (sv_out sv) @
    (case find_client sv ws of
       None \<Rightarrow> []
     | Some c \<Rightarrow> if dir_name d \<in> set (cl_include c)
                 then snd (connection_send su (sv_no_encrypt sv) (frame_payload raw ts d meta (cl_annotate c)) c) else [])"
proof -
  let ?ev = "[(''port'', JStr ''uart''), (''peer'', JStr ''ac''), (''len'', JInt (int (length raw))), (''hex'', JStr (hex_spaced raw)),
    (''msg_id'', opt_int (case fm_msg_id meta of None \<Rightarrow> extract_msg_id raw | Some i \<Rightarrow> Some i)), (''tx_seq'', opt_int (fm_tx_seq meta)),
    (''origin'', opt_str (fm_origin meta)), (''req_id'', opt_json (fm_req_id meta)), (''reply_to'', reply_json (fm_reply_to meta))]"
  let ?v = "ring_event clock (''uart_'' @ dir_name d) ?ev sv"
  let ?P = "\<lambda>c. dir_name d \<in> set (cl_include c)" and ?msg = "\<lambda>c. frame_payload raw ts d meta (cl_annotate c)"
  let ?out = "\<lambda>c. if ?P c then snd (connection_send su (sv_no_encrypt sv) (?msg c) c) else []"
  have v: "core ?v = core sv" by simp
  have d: "distinct_clients ?v" using core_eqD(9) [OF v] assms by simp
  have m: "distinct (map cl_ws (sv_clients sv))" using assms by (simp add: distinct_clients_def)
  have f: "\<forall>c \<in> set (sv_clients sv). find_client ?v (cl_ws c) = Some c"
    using find_client_unique [OF assms] by (simp add: find_client_def)
  have log: "sv_out (on_uart_frame su clock raw ts d meta sv) =
      sv_out sv @ concat (map (\<lambda>c. map (Pair (cl_ws c)) (?out c)) (sv_clients sv))"
    using fold_send_log [OF m d f, of ?P su ?msg] core_eqD(6) [OF v]
    by (simp add: on_uart_frame_def Let_def if_distrib [of "map _"] cong: if_cong)
  show ?thesis unfolding log by (simp only: sent_to_append sent_to_concat [OF m]) (simp add: find_client_def)
qed


text \<open>The two ends of a connection: the session of the server's client and the session of the peer.\<close>

definition linked :: "server \<Rightarrow> nat \<Rightarrow> session \<Rightarrow> bool" where
  "linked sv ws peer \<longleftrightarrow>
     (\<exists>c s. find_client sv ws = Some c \<and> cl_session c = Some s \<and> paired s peer \<and> paired peer s \<and> ss_tx_counter s < 2 ^ 64)"

lemma linked_sends:
  assumes "aead_ok (su_seal su) (su_unseal su)" and "find_client sv ws = Some c" and "cl_session c = Some s" and "paired s peer"
    and "ss_tx_counter s < 2 ^ 64" and "wf_json j"
  shows "\<exists>text. snd (connection_send su False j c) = [Message text] \<and>
    decrypt_json (su_unseal su) text peer = (peer\<lparr>ss_rx_counter := Fin (of_int (ss_tx_counter s))\<rparr>, Inr j)"
proof -
  from json_encrypted [OF assms(1,4-6)] obtain sealed where
    e: "encrypt_json (su_seal su) j s = (s\<lparr>ss_tx_counter := ss_tx_counter s + 1\<rparr>, Inr sealed)" and
    d: "\<And>u. ss_rx_key u = ss_rx_key peer \<Longrightarrow> ss_rx_nonce_prefix u = ss_rx_nonce_prefix peer \<Longrightarrow>
       (\<exists>q. ss_rx_counter u = Fin (of_int q) \<and> q < ss_tx_counter s) \<Longrightarrow>
       decrypt_json (su_unseal su) sealed u = (u\<lparr>ss_rx_counter := Fin (of_int (ss_tx_counter s))\<rparr>, Inr j)" by blast
  have "\<exists>q. ss_rx_counter peer = Fin (of_int q) \<and> q < ss_tx_counter s" using assms(4) by (simp add: paired_def)
  then show ?thesis using e d [OF refl refl] assms(3) by (simp add: connection_send_def)
qed

text \<open>C14: in an encrypted session a subscriber reads exactly the frame that went by: the text the tap sent is accepted
  by the peer's session and decrypts to the frame's message.\<close>

theorem subscriber_reads_frame:
  assumes "new_server config psk False dn inst v au cap n ring = Inr start" and "config_ok config" and "server_reachable su start sv"
    and "aead_ok (su_seal su) (su_unseal su)" and "linked sv ws peer" and "find_client sv ws = Some c"
    and "dir_name d \<in> set (cl_include c)" and "wf_json (frame_payload raw ts d meta (cl_annotate c))"
  shows "\<exists>text peer'. sent_to ws (sv_out (on_uart_frame su clock raw ts d meta sv)) = sent_to ws (sv_out sv) @ [Message text] \<and>
    decrypt_json (su_unseal su) text peer = (peer', Inr (frame_payload raw ts d meta (cl_annotate c)))"
proof -
  have g: "gateway_ok sv" "sizes sv = (nat n, cap, False)"
    using gateway_reachable [OF assms(3)] gateway_fresh [OF assms(1,2)] by simp_all
  from assms(5,6) obtain s where s: "cl_session c = Some s" "paired s peer" "ss_tx_counter s < 2 ^ 64" by (auto simp: linked_def)
  from linked_sends [OF assms(4,6) s assms(8)] show ?thesis
    using tap_log [OF slots_distinct [OF g(1)], of ws su clock raw ts d meta] g(2) assms(6,7) by (auto simp: sizes_def)
qed

subsection \<open>From a client to the bus\<close>

lemma drained:
  "ua_queue ((transmit_queued now ^^ k) u) = drop k (ua_queue u) \<and>
   ua_written ((transmit_queued now ^^ k) u) = ua_written u @ map fst (take k (ua_queue u))"
proof (induction k)
  case 0
  then show ?case by simp
next
  case (Suc k)
  let ?v = "(transmit_queued now ^^ k) u"
  from transmit_queued_effect [of now ?v] have
    "ua_written (transmit_queued now ?v) = ua_written ?v @ map fst (take 1 (ua_queue ?v))" "ua_queue (transmit_queued now ?v) = drop 1 (ua_queue ?v)"
    by blast+
  moreover have "take (Suc k) xs = take k xs @ take 1 (drop k xs)" for xs :: "(bytes \<times> string \<times> json option) list"
    using take_add [of k 1 xs] by simp
  ultimately show ?case using Suc.IH by simp
qed

lemma send_keeps: "sv_protocol (send_to su ws j sv) = sv_protocol sv"
  by (simp add: send_to_def emit_wire_def put_client_def split: option.split prod.split)

lemma handle_frame_valid:
  assumes "jget msg ''hex'' = Some (JStr hex)" and "fromhex (filter (\<lambda>x. x \<noteq> CHR '' '') hex) = Inr f" and "validate_frame f = Inr p"
    and "queue_frame f (sid_origin (cl_sid c)) (if jget_or msg ''ref'' JNull = JNull then None else Some (jget_or msg ''ref'' JNull)) (sv_protocol sv) = (u, ok)"
  shows "handle_frame su c msg sv =
    (send_to su (cl_ws c) (if ok then ack_reply (jget_or msg ''ref'' JNull) ''queued'' else error_reply (jget_or msg ''ref'' JNull) ''queue full'')
       (sv\<lparr>sv_protocol := u\<rparr>), None)"
  using assms by (simp add: handle_frame_def Let_def)

lemma on_message_keeps:
  "handle_client_message su host ws raw sv = (sv', exc) \<Longrightarrow>
    sv_protocol (on_message su host clock ws raw sv) = sv_protocol sv' \<and> sv_out (on_message su host clock ws raw sv) = sv_out sv'"
  by (simp add: on_message_def leave_protocol) (simp add: leave_def Let_def split: option.split)

text \<open>A sealed message of the peer is opened and handled.\<close>

lemma peer_message:
  assumes "\<not> sv_no_encrypt sv" and "aead_ok (su_seal su) (su_unseal su)" and "linked sv ws peer" and "find_client sv ws = Some c"
    and "wf_json msg" and "is_object msg" and "ss_tx_counter peer < 2 ^ 64" and "encrypt_json (su_seal su) msg peer = (peer', Inr raw)"
  obtains s d where "ss_tx_counter s < 2 ^ 64" and "paired s peer'" and "d = c\<lparr>cl_session := Some s\<rparr>"
    and "\<And>host. handle_client_message su host ws raw sv = handle_request su host d msg (put_client d sv)"
    and "cl_ws d = ws" and "find_client (put_client d sv) ws = Some d"
proof -
  from assms(3,4) obtain s where s: "cl_session c = Some s" "paired s peer" "paired peer s" "ss_tx_counter s < 2 ^ 64" by (auto simp: linked_def)
  from json_encrypted [OF assms(2) s(3) assms(7,5)] obtain sealed where
    e: "encrypt_json (su_seal su) msg peer = (peer\<lparr>ss_tx_counter := ss_tx_counter peer + 1\<rparr>, Inr sealed)" and
    o: "\<And>u. ss_rx_key u = ss_rx_key s \<Longrightarrow> ss_rx_nonce_prefix u = ss_rx_nonce_prefix s \<Longrightarrow>
       (\<exists>q. ss_rx_counter u = Fin (of_int q) \<and> q < ss_tx_counter peer) \<Longrightarrow>
       decrypt_json (su_unseal su) sealed u = (u\<lparr>ss_rx_counter := Fin (of_int (ss_tx_counter peer))\<rparr>, Inr msg)" by blast
  let ?s = "s\<lparr>ss_rx_counter := Fin (of_int (ss_tx_counter peer))\<rparr>" and ?peer = "peer\<lparr>ss_tx_counter := ss_tx_counter peer + 1\<rparr>"
  have x: "raw = sealed" "peer' = ?peer" using e assms(8) by simp_all
  have "\<exists>q. ss_rx_counter s = Fin (of_int q) \<and> q < ss_tx_counter peer" using s(3) by (simp add: paired_def)
  then have dec: "connection_decrypt su (sv_no_encrypt sv) raw c = (c\<lparr>cl_session := Some ?s\<rparr>, Inr msg)"
    using o [OF refl refl] assms(1) s(1) by (simp add: connection_decrypt_def x(1))
  let ?d = "c\<lparr>cl_session := Some ?s\<rparr>"
  have w: "cl_ws ?d = ws" using find_client_Some [OF assms(4)] by simp
  have "find_client (put_client ?d sv) ws = Some ?d" using find_put [of sv ?d c] assms(4) w by simp
  moreover have "handle_client_message su host ws raw sv = handle_request su host ?d msg (put_client ?d sv)" for host
    using assms(4,6) dec by (simp add: handle_client_message_def Let_def bind_res_def)
  moreover have "paired ?s peer'" using s(2) by (simp add: paired_def x(2))
  ultimately show ?thesis using w s(4) by (intro that [of ?s ?d]) simp_all
qed

lemma frame_request:
  assumes "new_server config psk False dn inst v au cap n ring = Inr start" and "config_ok config" and "server_reachable su start sv"
    and "aead_ok (su_seal su) (su_unseal su)" and "linked sv ws peer" and "find_client sv ws = Some c"
    and "wf_json msg" and "is_object msg" and "jget msg ''type'' = Some (JStr ''frame'')" and "jget msg ''hex'' = Some (JStr hex)"
    and "fromhex (filter (\<lambda>x. x \<noteq> CHR '' '') hex) = Inr f" and "validate_frame f = Inr p" and "wf_json (jget_or msg ''ref'' JNull)"
    and "ss_tx_counter peer < 2 ^ 64" and "encrypt_json (su_seal su) msg peer = (peer', Inr raw)"
    and "sv' = on_message su host clock ws raw sv" and "room \<longleftrightarrow> (\<forall>m. queue_capacity (sv_protocol sv) = Some m \<longrightarrow> length (ua_queue (sv_protocol sv)) < m)"
  shows "(if room then
      \<exists>r. ua_queue (sv_protocol sv') = ua_queue (sv_protocol sv) @ [(f, ''ws:'' @ dec (cl_sid c), r)] \<and>
        (r = None \<longleftrightarrow> jget_or msg ''ref'' JNull = JNull) \<and> (\<forall>x. r = Some x \<longrightarrow> jget msg ''ref'' = Some x) \<and>
        last (ua_written ((transmit_queued now ^^ Suc (length (ua_queue (sv_protocol sv)))) (sv_protocol sv'))) = f
    else sv_protocol sv' = sv_protocol sv) \<and>
    (\<exists>answer peer''. sent_to ws (sv_out sv') = sent_to ws (sv_out sv) @ [Message answer] \<and>
       decrypt_json (su_unseal su) answer peer' = (peer'',
         Inr (if room then ack_reply (jget_or msg ''ref'' JNull) ''queued'' else error_reply (jget_or msg ''ref'' JNull) ''queue full'')))"
proof -
  have g: "gateway_ok sv" "sizes sv = (nat n, cap, False)"
    using gateway_reachable [OF assms(3)] gateway_fresh [OF assms(1,2)] by simp_all
  then have ne: "\<not> sv_no_encrypt sv" by (simp add: sizes_def)
  obtain s d where d: "ss_tx_counter s < 2 ^ 64" "paired s peer'" "d = c\<lparr>cl_session := Some s\<rparr>"
      "handle_client_message su host ws raw sv = handle_request su host d msg (put_client d sv)" "cl_ws d = ws"
      "find_client (put_client d sv) ws = Some d"
    using peer_message [OF ne assms(4-8,14,15)] by metis
  let ?v = "put_client d sv" and ?r = "jget_or msg ''ref'' JNull"
  have pv: "sv_protocol ?v = sv_protocol sv" "sv_no_encrypt ?v = sv_no_encrypt sv" "sv_out ?v = sv_out sv" by (simp_all add: put_client_def)
  let ?q = "if ?r = JNull then None else Some ?r"
  obtain u ok where u: "queue_frame f (sid_origin (cl_sid d)) ?q (sv_protocol ?v) = (u, ok)" by fastforce
  let ?answer = "if ok then ack_reply ?r ''queued'' else error_reply ?r ''queue full''"
  let ?w = "send_to su ws ?answer (?v\<lparr>sv_protocol := u\<rparr>)"
  have m: "handle_client_message su host ws raw sv = (?w, None)"
    using handle_frame_valid [OF assms(10-12) u] assms(9) d(4,5) by (simp add: handle_request_def)
  have k: "sv_protocol sv' = u" "sv_out sv' = sv_out ?w" using on_message_keeps [OF m] assms(16) send_keeps by simp_all
  have room: "ok = room" and eff: "ok \<Longrightarrow> ua_queue u = ua_queue (sv_protocol sv) @ [(f, sid_origin (cl_sid c), ?q)]" "\<not> ok \<Longrightarrow> u = sv_protocol sv"
    using u [unfolded pv] assms(17) d(3) by (auto simp: queue_frame_def queue_capacity_def split: if_splits)
  have f: "find_client (?v\<lparr>sv_protocol := u\<rparr>) ws = Some d" using d(6) by (simp add: find_client_def)
  note sent = send_found [OF this, of su ?answer]
  have "wf_json ?answer" using assms(13) by (auto simp: ack_reply_def error_reply_def dkeys_def)
  moreover have "cl_session d = Some s" by (simp add: d(3))
  ultimately obtain answer where a: "snd (connection_send su False ?answer d) = [Message answer]"
      "decrypt_json (su_unseal su) answer peer' = (peer'\<lparr>ss_rx_counter := Fin (of_int (ss_tx_counter s))\<rparr>, Inr ?answer)"
    using linked_sends [OF assms(4) f _ d(2,1)] by blast
  have answered: "\<exists>answer peer''. sent_to ws (sv_out sv') = sent_to ws (sv_out sv) @ [Message answer] \<and>
      decrypt_json (su_unseal su) answer peer' = (peer'', Inr ?answer)"
    using a sent ne k(2) pv by (auto simp: sent_to_def)
  show ?thesis
  proof (cases ok)
    case True
    have "ua_written ((transmit_queued now ^^ Suc (length (ua_queue (sv_protocol sv)))) u) =
        ua_written u @ map fst (ua_queue (sv_protocol sv) @ [(f, sid_origin (cl_sid c), ?q)])"
      using drained [of "Suc (length (ua_queue (sv_protocol sv)))" now u] eff(1) [OF True] by simp
    moreover have "\<forall>x. ?q = Some x \<longrightarrow> jget msg ''ref'' = Some x" by (auto simp: jget_or_def split: option.splits)
    ultimately show ?thesis using answered True room eff(1) [OF True] k(1) by (auto simp: sid_origin_def)
  next
    case False
    then show ?thesis using answered room eff(2) k(1) by auto
  qed
qed

text \<open>From a client to the bus and back: when the peer of an encrypted connection seals a frame request with a valid
  frame, the gateway puts exactly that frame, under the client's slot and with its reference, at the end of the queue if there is room, and
  as many transmissions later as frames are waiting it has been written to the bus; otherwise the queue stays as it is.  The
  peer can open the answer, which says which of the two happened.\<close>

theorem frame_request_transmitted:
  assumes "new_server config psk False dn inst v au cap n ring = Inr start" and "config_ok config" and "server_reachable su start sv"
    and "aead_ok (su_seal su) (su_unseal su)" and "linked sv ws peer" and "find_client sv ws = Some c"
    and "wf_json msg" and "is_object msg" and "jget msg ''type'' = Some (JStr ''frame'')" and "jget msg ''hex'' = Some (JStr hex)"
    and "fromhex (filter (\<lambda>x. x \<noteq> CHR '' '') hex) = Inr f" and "validate_frame f = Inr p" and "wf_json (jget_or msg ''ref'' JNull)"
    and "ss_tx_counter peer < 2 ^ 64" and "encrypt_json (su_seal su) msg peer = (peer', Inr raw)"
    and "sv' = on_message su host clock ws raw sv" and "room \<longleftrightarrow> (\<forall>m. queue_capacity (sv_protocol sv) = Some m \<longrightarrow> length (ua_queue (sv_protocol sv)) < m)"
  shows "(if room then
      \<exists>r. ua_queue (sv_protocol sv') = ua_queue (sv_protocol sv) @ [(f, ''ws:'' @ dec (cl_sid c), r)] \<and>
        (r = None \<longleftrightarrow> jget_or msg ''ref'' JNull = JNull) \<and> (\<forall>x. r = Some x \<longrightarrow> jget msg ''ref'' = Some x) \<and>
        last (ua_written ((transmit_queued now ^^ Suc (length (ua_queue (sv_protocol sv)))) (sv_protocol sv'))) = f
    else sv_protocol sv' = sv_protocol sv) \<and>
    (\<exists>answer peer''. sent_to ws (sv_out sv') = sent_to ws (sv_out sv) @ [Message answer] \<and>
       decrypt_json (su_unseal su) answer peer' = (peer'',
         Inr (if room then ack_reply (jget_or msg ''ref'' JNull) ''queued'' else error_reply (jget_or msg ''ref'' JNull) ''queue full'')))"
  by (rule frame_request [OF assms])

subsection \<open>Joining\<close>

text \<open>What the exchange of hellos gives: a slot, and a session that the holder of the key shares.  Only the
  length of the peer's random value matters here, not that it knows the key: the slot is taken before the
  first sealed message has arrived.\<close>

lemma hello_joins:
  assumes "psk_to_bytes (su_scrypt su) psk = Inr k" and "length cr = RAND_SIZE" and "length sr = RAND_SIZE"
    and "\<not> sv_no_encrypt sv" and "sv_psk sv = psk" and "sv_psk_bytes sv \<in> {None, Some k}" and "find_client sv ws = None"
    and "acquire (sv_pool sv) = (pool, Inr sid)"
    and "sv' = end_handshake su clock time ws sr (Hello_text (dumps (create_hello cr)) True) addr sv"
  shows "\<exists>c peer. find_client sv' ws = Some c \<and> cl_sid c = sid \<and> \<not> cl_rejected c \<and> cl_include c = [''rx''] \<and>
    cl_annotate c = [] \<and> complete_handshake_client (su_hkdf su) k cr (create_hello_ok sr) = Inr peer \<and> ss_tx_counter peer = 0 \<and> linked sv' ws peer \<and>
    sv_protocol sv' = sv_protocol sv \<and>
    (\<exists>s s' sealed. complete_handshake_server (su_hkdf su) k (create_hello cr) sr = Inr s \<and> cl_session c = Some s' \<and>
       encrypt_json (su_seal su) (slot_hello sid (sp_size pool) time) s = (s', Inr sealed) \<and>
       sent_to ws (sv_out sv') = sent_to ws (sv_out sv) @ [Message (dumps (create_hello_ok sr)), Message sealed])"
proof -
  obtain peer s where h: "complete_handshake_server (su_hkdf su) k (create_hello cr) sr = Inr s"
      "complete_handshake_client (su_hkdf su) k cr (create_hello_ok sr) = Inr peer"
      "paired peer s" "paired s peer" "ss_tx_counter peer = 0" "ss_tx_counter s = 0"
    using handshake_pairs [OF assms(2,3)] by blast
  have k: "ensure_psk su sv = (sv\<lparr>sv_psk_bytes := Some k\<rparr>, Inr k)"
    using assms(1,5,6) by (cases "sv_psk_bytes sv") (auto simp: ensure_psk_def)
  have r: "loads (dumps (create_hello cr)) = Inr (create_hello cr)" by (rule json_roundtrip [OF hello_ok(1)])
  let ?v = "emit_wire ws [Message (dumps (create_hello_ok sr))] (sv\<lparr>sv_psk_bytes := Some k\<rparr>)"
  have hs: "handshake su ws sr (Hello_text (dumps (create_hello cr)) True) sv = (?v, Inr (Some s))"
    using assms(4) k r h(1) by (simp add: handshake_def)
  let ?c = "\<lparr>cl_ws = ws, cl_session = Some s, cl_sid = sid, cl_include = [''rx''], cl_annotate = [], cl_rejected = False\<rparr>"
  let ?u = "?v\<lparr>sv_preauth_count := sv_preauth_count sv - 1, sv_handshakes := remove1 ws (sv_handshakes sv)\<rparr>"
  let ?w = "?u\<lparr>sv_pool := pool, sv_clients := sv_clients sv @ [?c]\<rparr>"
  have e: "sv' = join su clock time ws (Some s) addr ?u" using assms(9) hs by (simp add: end_handshake_def emit_wire_def)
  let ?hello = "slot_hello sid (sp_size pool) time"
  have "acquire (sv_pool ?u) = (pool, Inr sid)" using assms(8) by (simp add: emit_wire_def)
  then obtain ev x where j: "sv' = ring_event clock ev x (send_to su ws ?hello ?w)"
    unfolding e join_def by (simp add: Let_def emit_wire_def)
  have f: "find_client ?w ws = Some ?c" using assms(7) by (simp add: find_client_def find_appended)
  let ?s = "s\<lparr>ss_tx_counter := 1\<rparr>"
  obtain sealed where w: "encrypt_json (su_seal su) ?hello s = (?s, Inr sealed)"
    using h(6) by (auto simp: encrypt_json_def encrypt_def Let_def pack_q_def)
  then have m: "send_to su ws ?hello ?w = emit_wire ws [Message sealed] (put_client (?c\<lparr>cl_session := Some ?s\<rparr>) ?w)"
    using f assms(4) by (simp add: send_to_def emit_wire_def connection_send_def)
  then have "find_client sv' ws = Some (?c\<lparr>cl_session := Some ?s\<rparr>)"
    using j m find_put [of ?w "?c\<lparr>cl_session := Some ?s\<rparr>" ?c] f by (simp add: find_client_def emit_wire_def)
  moreover have "paired ?s peer" "paired peer ?s" using h(3,4,6) by (auto simp: paired_def)
  moreover have "sv_protocol sv' = sv_protocol sv"
    using j core_protocol [OF core_ring_event] send_keeps by (simp add: emit_wire_def)
  moreover have "sent_to ws (sv_out sv') = sent_to ws (sv_out sv) @ [Message (dumps (create_hello_ok sr)), Message sealed]"
    using j m by (simp add: emit_wire_def put_client_def sent_to_def)
  ultimately show ?thesis using h(1,2,5) w by (auto simp: linked_def)
qed

lemma client_joins:
  assumes "new_server config psk False dn inst v au cap n ring = Inr start" and "psk_to_bytes (su_scrypt su) psk = Inr k"
    and "length cr = RAND_SIZE" and "length sr = RAND_SIZE" and "0 < cap"
  shows "\<exists>sv c peer. server_reachable su start sv \<and> find_client sv ws = Some c \<and> cl_sid c = 0 \<and> \<not> cl_rejected c \<and> cl_include c = [''rx''] \<and>
    cl_annotate c = [] \<and> complete_handshake_client (su_hkdf su) k cr (create_hello_ok sr) = Inr peer \<and>
    ss_tx_counter peer = 0 \<and> linked sv ws peer \<and> sv_protocol sv = new_uart config True"
proof -
  have n: "0 < n" and start: "sv_clients start = []" "sv_handshakes start = []" "sv_preauth_count start = 0" "sv_preauth_max start = cap"
      "sv_pool start = \<lparr>sp_size = nat n, sp_in_use = []\<rparr>" "\<not> sv_no_encrypt start" "sv_psk start = psk" "sv_psk_bytes start = None"
      "sv_protocol start = new_uart config True"
    using assms(1) by (auto simp: new_server_def new_slot_pool_def split: if_splits)
  let ?sv1 = "open_connection ws start"
  have sv1: "?sv1 = start\<lparr>sv_preauth_count := 1, sv_handshakes := [ws]\<rparr>" using start assms(5) by (simp add: open_connection_def)
  have r1: "server_reachable su start ?sv1"
    by (rule server_reachable.moved [OF server_reachable.started], rule server_step.opened) (simp_all add: start find_client_def)
  let ?sv = "end_handshake su ([], []) ''0.0'' ws sr (Hello_text (dumps (create_hello cr)) True) [] ?sv1"
  have r2: "server_reachable su start ?sv"
    by (rule server_reachable.moved [OF r1], rule server_step.shaken) (simp add: sv1)
  have p: "pool_ok (sv_pool ?sv1)" "sp_in_use (sv_pool ?sv1) = []" "sp_size (sv_pool ?sv1) = nat n" by (simp_all add: sv1 start pool_ok_def)
  obtain pool where a: "acquire (sv_pool ?sv1) = (pool, Inr 0)"
  proof (cases "acquire (sv_pool ?sv1)")
    case (Pair pool r)
    show ?thesis
    proof (cases r)
      case (Inl e)
      then have "set (sp_in_use (sv_pool ?sv1)) = {..<sp_size (sv_pool ?sv1)}" using slots.exhausted [OF p(1)] Pair by blast
      then have "{..<nat n} = {}" unfolding p(2,3) by simp
      then show ?thesis using n by (simp add: lessThan_empty_iff)
    next
      case (Inr sid)
      then have "\<forall>m < sid. m \<in> set (sp_in_use (sv_pool ?sv1))" using slots.taken [OF p(1)] Pair Inr by blast
      then have "sid = 0" using p(2) by (cases sid) auto
      then show ?thesis using Pair Inr by (intro that [of pool]) simp
    qed
  qed
  have "find_client ?sv1 ws = None" by (simp add: sv1 start find_client_def)
  moreover have "\<not> sv_no_encrypt ?sv1" "sv_psk ?sv1 = psk" "sv_psk_bytes ?sv1 \<in> {None, Some k}" "sv_protocol ?sv1 = new_uart config True"
    by (simp_all add: sv1 start)
  ultimately obtain c peer where "find_client ?sv ws = Some c" "cl_sid c = 0" "\<not> cl_rejected c" "cl_include c = [''rx'']" "cl_annotate c = []"
      "complete_handshake_client (su_hkdf su) k cr (create_hello_ok sr) = Inr peer" "ss_tx_counter peer = 0" "linked ?sv ws peer"
      "sv_protocol ?sv = new_uart config True"
    using hello_joins [OF assms(2-4) _ _ _ _ a refl, of ws "([], [])" "''0.0''" "[]"] by metis
  then show ?thesis using r2 by blast
qed

text \<open>The comment at the handshake says that the pool only limits clients that hold the key.  A peer that does not hold it
  takes a slot as well, with any random value of the right length, and keeps it until it sends something.\<close>

theorem slot_without_key:
  assumes "psk_to_bytes (su_scrypt su) psk = Inr k" and "length anything = RAND_SIZE" and "length sr = RAND_SIZE"
    and "\<not> sv_no_encrypt sv" and "sv_psk sv = psk" and "sv_psk_bytes sv \<in> {None, Some k}" and "find_client sv ws = None"
    and "acquire (sv_pool sv) = (pool, Inr sid)"
  shows "\<exists>c. find_client (end_handshake su clock time ws sr (Hello_text (dumps (create_hello anything)) True) addr sv) ws = Some c \<and>
    cl_sid c = sid"
  using hello_joins [OF assms refl] by blast

subsection \<open>Witnesses\<close>

definition demo_suite :: suite where
  "demo_suite = \<lparr>su_seal = demo_seal, su_unseal = demo_unseal, su_hkdf = demo_hkdf, su_scrypt = (\<lambda>salt p. p), su_error = (\<lambda>_. ''error''),
     su_unknown = (\<lambda>_ _. ''unknown'')\<rparr>"

lemma demo_suite_ok: "aead_ok (su_seal demo_suite) (su_unseal demo_suite)"
  by (simp add: demo_suite_def demo_aead)

definition demo_start :: server where
  "demo_start = \<lparr>sv_psk = ''key'', sv_no_encrypt = False, sv_device_name = ''ac'', sv_instance = ''home'', sv_version = ''1.0'',
     sv_allow_update = False, sv_preauth_max = 8, sv_psk_bytes = None, sv_preauth_count = 0, sv_handshakes = [],
     sv_pool = \<lparr>sp_size = 4, sp_in_use = []\<rparr>, sv_clients = [], sv_protocol = new_uart dongle True, sv_ring = None, sv_out = []\<rparr>"

lemma demo_starts: "new_server dongle ''key'' False ''ac'' ''home'' ''1.0'' False 8 4 None = Inr demo_start"
  by (simp add: new_server_def new_slot_pool_def demo_start_def)

lemma demo_joins:
  obtains sv c peer where "server_reachable demo_suite demo_start sv" and "find_client sv 7 = Some c" and "cl_sid c = 0" and "\<not> cl_rejected c"
    and "cl_include c = [''rx'']" and "cl_annotate c = []" and "ss_tx_counter peer = 0" and "linked sv 7 peer"
    and "sv_protocol sv = new_uart dongle True"
proof -
  have "strip ''key'' = ''key''" by (simp add: strip_def str_space_def is_space_def)
  then have "psk_to_bytes (su_scrypt demo_suite) ''key'' = Inr (bytes_of_text ''key'')"
    by (simp add: psk_to_bytes_def demo_suite_def)
  from client_joins [OF demo_starts this, of "replicate 512 7" "replicate 512 9" 7] obtain sv c peer where
    "server_reachable demo_suite demo_start sv" "find_client sv 7 = Some c" "cl_sid c = 0" "\<not> cl_rejected c"
    "cl_include c = [''rx'']" "cl_annotate c = []" "ss_tx_counter peer = 0" "linked sv 7 peer"
    "sv_protocol sv = new_uart dongle True" by (auto simp: RAND_SIZE_def)
  then show ?thesis by (rule that)
qed

text \<open>The peer's request to send the serial number query's answer, and the state after it.\<close>

definition demo_host :: host where
  "demo_host = \<lparr>ho_journal = (\<lambda>_. []), ho_update = []\<rparr>"

definition demo_request :: "bytes \<Rightarrow> json" where
  "demo_request f = JObj [(''type'', JStr ''frame''), (''hex'', JStr (hex_spaced f)), (''ref'', JInt 1)]"

lemma demo_request_ok:
  "wf_json (demo_request f)" "is_object (demo_request f)" "jget (demo_request f) ''type'' = Some (JStr ''frame'')"
  "jget (demo_request f) ''hex'' = Some (JStr (hex_spaced f))" "jget (demo_request f) ''ref'' = Some (JInt 1)"
  "jget_or (demo_request f) ''ref'' JNull = JInt 1"
  by (simp_all add: demo_request_def dkeys_def is_object_def jget_def jget_or_def)

lemma demo_frame: "\<exists>f p. validate_frame f = Inr p \<and> pf_body p = [0x31]"
  using link.small_builds [of "[0x31]" 7 "0xAC" 0 0 0] validate_built [of "[0x31]" 7 "0xAC" 0 0 0] by fastforce

lemma sealed_by:
  assumes "linked sv ws peer" and "aead_ok (su_seal su) (su_unseal su)" and "wf_json j" and "ss_tx_counter peer = 0"
  shows "\<exists>raw peer'. encrypt_json (su_seal su) j peer = (peer', Inr raw)"
proof -
  from assms(1) obtain s where "paired peer s" by (auto simp: linked_def)
  from json_encrypted [OF assms(2) this _ assms(3)] assms(4) show ?thesis by auto
qed

theorem frame_request_transmitted_witness:
  "\<exists>sv sv' f raw peer peer' answer peer''. server_reachable demo_suite demo_start sv \<and> linked sv 7 peer \<and>
    encrypt_json (su_seal demo_suite) (demo_request f) peer = (peer', Inr raw) \<and>
    sv' = on_message demo_suite demo_host ([], []) 7 raw sv \<and>
    ua_queue (sv_protocol sv') = [(f, ''ws:'' @ dec 0, Some (JInt 1))] \<and>
    last (ua_written (transmit_queued 5 (sv_protocol sv'))) = f \<and>
    sent_to 7 (sv_out sv') = sent_to 7 (sv_out sv) @ [Message answer] \<and>
    decrypt_json (su_unseal demo_suite) answer peer' = (peer'', Inr (ack_reply (JInt 1) ''queued''))"
proof -
  obtain sv c peer where j: "server_reachable demo_suite demo_start sv" "find_client sv 7 = Some c" "cl_sid c = 0"
      "ss_tx_counter peer = 0" "linked sv 7 peer" "sv_protocol sv = new_uart dongle True" by (rule demo_joins)
  obtain f p where f: "validate_frame f = Inr p" using demo_frame by blast
  obtain raw peer' where raw: "encrypt_json (su_seal demo_suite) (demo_request f) peer = (peer', Inr raw)"
    using sealed_by [OF j(5) demo_suite_ok demo_request_ok(1) j(4)] by blast
  have q: "ua_queue (sv_protocol sv) = []" "\<forall>m. queue_capacity (sv_protocol sv) = Some m \<longrightarrow> length (ua_queue (sv_protocol sv)) < m"
    by (simp_all add: j(6) new_uart_def queue_capacity_def dongle_def)
  from frame_request_transmitted [OF demo_starts dongle_ok j(1) demo_suite_ok j(5,2) demo_request_ok(1-4) fromhex_hex f _ _ raw refl,
      of True demo_host "([], [])" 5] q
  show ?thesis using j(1,3-5) raw by (simp add: demo_request_ok j(6)) metis
qed

text \<open>A state with a client and a waiting frame.\<close>

lemma demo_queued:
  obtains sv f r where "server_reachable demo_suite demo_start sv" and "ua_queue (sv_protocol sv) = [(f, ''ws:'' @ dec 0, r)]"
proof -
  obtain sv c peer where j: "server_reachable demo_suite demo_start sv" "find_client sv 7 = Some c" "cl_sid c = 0"
      "ss_tx_counter peer = 0" "linked sv 7 peer" "sv_protocol sv = new_uart dongle True" by (rule demo_joins)
  obtain f p where f: "validate_frame f = Inr p" using demo_frame by blast
  obtain raw peer' where raw: "encrypt_json (su_seal demo_suite) (demo_request f) peer = (peer', Inr raw)"
    using sealed_by [OF j(5) demo_suite_ok demo_request_ok(1) j(4)] by blast
  have q: "ua_queue (sv_protocol sv) = []" "\<forall>m. queue_capacity (sv_protocol sv) = Some m \<longrightarrow> length (ua_queue (sv_protocol sv)) < m"
    by (simp_all add: j(6) new_uart_def queue_capacity_def dongle_def)
  let ?sv' = "on_message demo_suite demo_host ([], []) 7 raw sv"
  obtain r where "ua_queue (sv_protocol ?sv') = [(f, ''ws:'' @ dec 0, r)]"
    using frame_request [OF demo_starts dongle_ok j(1) demo_suite_ok j(5,2) demo_request_ok(1-4) fromhex_hex f _ _ raw refl,
        of True demo_host "([], [])" 5] q j(3,4) by (auto simp: demo_request_ok)
  moreover have "server_reachable demo_suite demo_start ?sv'"
    by (rule server_reachable.moved [OF j(1)], rule server_step.message [OF j(2)])
  ultimately show ?thesis using that by blast
qed

theorem gateway_slots_witness:
  "\<exists>sv c. server_reachable demo_suite demo_start sv \<and> find_client sv 7 = Some c \<and>
    set (map cl_sid (sv_clients sv)) = set (sp_in_use (sv_pool sv)) \<and> int (length (sv_clients sv)) \<le> 4"
proof -
  obtain sv c peer where j: "server_reachable demo_suite demo_start sv" "find_client sv 7 = Some c" by (rule demo_joins)
  from gateway_slots [OF demo_starts dongle_ok j(1)] j show ?thesis by blast
qed

theorem only_valid_frames_reach_bus_witness:
  "\<exists>sv f r p before ws c host clock raw. server_reachable demo_suite demo_start sv \<and>
    ua_queue (sv_protocol sv) = [(f, ''ws:'' @ dec 0, r)] \<and> validate_frame f = Inr p \<and>
    find_client before ws = Some c \<and> dec (cl_sid c) = dec 0 \<and>
    ua_queue (sv_protocol (on_message demo_suite host clock ws raw before)) =
      ua_queue (sv_protocol before) @ [(f, ''ws:'' @ dec 0, r)]"
proof -
  obtain sv f r where q: "server_reachable demo_suite demo_start sv" "ua_queue (sv_protocol sv) = [(f, ''ws:'' @ dec 0, r)]" by (rule demo_queued)
  from only_valid_frames_reach_bus [OF demo_starts dongle_ok q(1)] q(2) obtain p before ws c host clock raw where
    "validate_frame f = Inr p" "find_client before ws = Some c" "''ws:'' @ dec 0 = ''ws:'' @ dec (cl_sid c)"
    "ua_queue (sv_protocol (on_message demo_suite host clock ws raw before)) =
      ua_queue (sv_protocol before) @ [(f, ''ws:'' @ dec 0, r)]" by auto
  then show ?thesis using q by (metis append_same_eq same_append_eq)
qed



theorem subscriber_reads_frame_witness:
  "\<exists>sv c peer peer' sealed. server_reachable demo_suite demo_start sv \<and> find_client sv 7 = Some c \<and> linked sv 7 peer \<and>
    sent_to 7 (sv_out (on_uart_frame demo_suite ([], []) [0xAA] ''1.5'' Rx_frame
        \<lparr>fm_msg_id = None, fm_tx_seq = None, fm_origin = None, fm_req_id = None, fm_reply_to = None\<rparr> sv)) =
      sent_to 7 (sv_out sv) @ [Message sealed] \<and>
    decrypt_json (su_unseal demo_suite) sealed peer = (peer',
      Inr (JObj [(''type'', JStr ''frame''), (''hex'', JStr ''aa''), (''ts'', JFloat ''1.5''), (''dir'', JStr ''rx'')]))"
proof -
  obtain sv c peer where j: "server_reachable demo_suite demo_start sv" "find_client sv 7 = Some c" "cl_include c = [''rx'']" "cl_annotate c = []"
      "linked sv 7 peer" by (rule demo_joins)
  let ?meta = "\<lparr>fm_msg_id = None, fm_tx_seq = None, fm_origin = None, fm_req_id = None, fm_reply_to = None\<rparr> :: frame_meta"
  have h: "hex_spaced [0xAA] = ''aa''" by code_simp
  have t: "scan_literal ''1.5'' = Some (JFloat ''1.5'', [])" by code_simp
  have p: "frame_payload [0xAA] ''1.5'' Rx_frame ?meta (cl_annotate c) =
      JObj [(''type'', JStr ''frame''), (''hex'', JStr ''aa''), (''ts'', JFloat ''1.5''), (''dir'', JStr ''rx'')]"
    by (simp add: frame_payload_def dir_name_def h j(4))
  then have "wf_json (frame_payload [0xAA] ''1.5'' Rx_frame ?meta (cl_annotate c))" by (simp add: t dkeys_def)
  from subscriber_reads_frame [OF demo_starts dongle_ok j(1) demo_suite_ok j(5,2) _ this, of "([], [])"] j show ?thesis
    unfolding p by (simp add: dir_name_def) metis
qed

lemma send_rejected: "find_client sv ws = Some c \<Longrightarrow> \<exists>d. find_client (send_to su ws j sv) ws = Some d \<and> cl_rejected d = cl_rejected c"
proof -
  assume f: "find_client sv ws = Some c"
  obtain c' out where s: "connection_send su (sv_no_encrypt sv) j c = (c', out)" by fastforce
  then have c': "cl_ws c' = ws" "cl_rejected c' = cl_rejected c"
    using find_client_Some [OF f] by (auto simp: connection_send_def split: option.splits prod.splits sum.splits)
  then show ?thesis using f s find_put [of sv c' c] by (simp add: send_to_def emit_wire_def find_client_def)
qed

theorem handled_once_witness:
  "\<exists>sv sv1 c peer peer' raw. server_reachable demo_suite demo_start sv \<and> linked sv 7 peer \<and>
    encrypt_json (su_seal demo_suite) ping peer = (peer', Inr raw) \<and> sv1 = on_message demo_suite demo_host ([], []) 7 raw sv \<and>
    find_client sv1 7 = Some c \<and> find_client (on_message demo_suite demo_host ([], []) 7 raw sv1) 7 = None \<and>
    sv_out (on_message demo_suite demo_host ([], []) 7 raw sv1) = sv_out sv1 @ [(7, Close 1008 ''malformed message'')]"
proof -
  obtain sv c peer where j: "server_reachable demo_suite demo_start sv" "find_client sv 7 = Some c" "\<not> cl_rejected c"
      "ss_tx_counter peer = 0" "linked sv 7 peer" by (rule demo_joins)
  have ping: "wf_json ping" "is_object ping" "jget ping ''type'' = Some (JStr ''ping'')"
    by (simp_all add: ping_def dkeys_def is_object_def jget_def)
  obtain raw peer' where raw: "encrypt_json (su_seal demo_suite) ping peer = (peer', Inr raw)"
    using sealed_by [OF j(5) demo_suite_ok ping(1) j(4)] by blast
  obtain s where s: "cl_session c = Some s" using j(2,5) by (auto simp: linked_def)
  have "\<not> sv_no_encrypt sv"
    using gateway_reachable [OF j(1)] gateway_fresh [OF demo_starts dongle_ok] by (simp add: sizes_def)
  moreover have "ss_tx_counter peer < 2 ^ 64" using j(4) by simp
  ultimately obtain t d where d: "d = c\<lparr>cl_session := Some t\<rparr>"
      "\<And>host. handle_client_message demo_suite host 7 raw sv = handle_request demo_suite host d ping (put_client d sv)"
      "cl_ws d = 7" "find_client (put_client d sv) 7 = Some d"
    using peer_message [OF _ demo_suite_ok j(5,2) ping(1,2) _ raw] by metis
  let ?pong = "JObj [(''type'', JStr ''pong'')]"
  let ?sv1 = "on_message demo_suite demo_host ([], []) 7 raw sv"
  have h: "handle_client_message demo_suite demo_host 7 raw sv = (send_to demo_suite 7 ?pong (put_client d sv), None)"
    using d(2,3) ping(3) by (simp add: handle_request_def)
  obtain e where e: "find_client (send_to demo_suite 7 ?pong (put_client d sv)) 7 = Some e" "cl_rejected e = cl_rejected d"
    using send_rejected [OF d(4)] by blast
  then have "find_client ?sv1 7 = Some e" using h d(1) j(3) by (simp add: on_message_def)
  moreover from this have "stays demo_suite 7 ?sv1 ?sv1" by (intro stays.still) simp
  ultimately show ?thesis using handled_once [OF demo_starts dongle_ok j(1,2) s _ refl] j(1,5) raw by blast
qed

end
