(* ===== verification/Ws_Client.thy ===== *)
theory Ws_Client
  imports Gateway
begin

section \<open>The client end of a connection (\<open>client/ws_client.py\<close>)\<close>

text \<open>
  \<open>HvacClient\<close>: the handshake with key confirmation, sending, the requests that wait for a reply, the
  listening loop.  The state holds the socket as a flag, the session, what the gateway assigned, the
  futures of the requests, what was sent on the socket and what the callbacks were given.  A timeout and
  a socket that closes while \<open>connect\<close> waits are both \<open>ConnectionError\<close>.  A text whose first
  bytes mark it as UTF-16 or UTF-32, which \<open>json.loads\<close> accepts from bytes, is outside of the model;
  so are the client's log records and exceptions of callbacks.
\<close>

subsection \<open>State\<close>

record gw_session =
  gs_sid :: json  \<comment> \<open>\<open>JNull\<close> until the gateway has assigned one\<close>
  gs_pool_size :: json
  gs_connected_at :: rat
  gs_connected_wall :: rat
  gs_server_time :: pynum
  gs_next_req_id :: int

definition new_gw_session :: gw_session where
  "new_gw_session = \<lparr>gs_sid = JNull, gs_pool_size = JNull, gs_connected_at = 0, gs_connected_wall = 0, gs_server_time = Fin 0,
     gs_next_req_id = 0\<rparr>"

datatype future = Waiting | Answered json | Failed json | Cancelled

datatype client_event = Got_frame json json | Got_pi_status json | Got_message json

record hvac =
  hv_psk :: "bytes option"
  hv_no_encrypt :: bool
  hv_ws :: bool
  hv_session :: "session option"
  hv_gw :: gw_session
  hv_pending :: "(int, future) dict"
  hv_on_frame :: bool
  hv_on_pi_status :: bool
  hv_listeners :: nat
  hv_sent :: "string list"
  hv_events :: "client_event list"

definition new_hvac :: "bytes option \<Rightarrow> bool \<Rightarrow> hvac" where
  "new_hvac psk no_encrypt =
     \<lparr>hv_psk = psk, hv_no_encrypt = no_encrypt, hv_ws = False, hv_session = None, hv_gw = new_gw_session, hv_pending = [],
      hv_on_frame = False, hv_on_pi_status = False, hv_listeners = 0, hv_sent = [], hv_events = []\<rparr>"

text \<open>The key, when the client encrypts: an empty key counts as none.\<close>

definition the_key :: "hvac \<Rightarrow> bytes option" where
  "the_key h = (if hv_no_encrypt h then None else case hv_psk h of Some (b # bs) \<Rightarrow> Some (b # bs) | _ \<Rightarrow> None)"

subsection \<open>\<open>float\<close> of a JSON value\<close>

fun underscores_ok :: "bool \<Rightarrow> string \<Rightarrow> bool" where
  "underscores_ok after_digit [] = True"
| "underscores_ok after_digit (c # cs) =
     (if c = CHR ''_'' then after_digit \<and> (case cs of d # _ \<Rightarrow> is_dig d | [] \<Rightarrow> False) \<and> underscores_ok False cs
      else underscores_ok (is_dig c) cs)"

definition float_str :: "string \<Rightarrow> pynum res" where
  "float_str s =
     (let t = strip s;
          neg = (case t of c # _ \<Rightarrow> c = CHR ''-'' | [] \<Rightarrow> False);
          body = (case t of c # r \<Rightarrow> (if c = CHR ''-'' \<or> c = CHR ''+'' then r else t) | [] \<Rightarrow> []);
          word = lower body
      in if word \<in> {''inf'', ''infinity''} then Inr (if neg then Neg_inf else Pos_inf)
         else if word = ''nan'' then Inr Nan
         else if \<not> underscores_ok False body then Inl ValueError
         else
           let b = filter (\<lambda>c. c \<noteq> CHR ''_'') body;
               whole = takeWhile is_dig b;
               r = dropWhile is_dig b;
               fr = (case r of c # q \<Rightarrow> (if c = CHR ''.'' then takeWhile is_dig q else []) | [] \<Rightarrow> []);
               r1 = (case r of c # q \<Rightarrow> (if c = CHR ''.'' then dropWhile is_dig q else r) | [] \<Rightarrow> []);
               (ex, r2) = exp_part r1
           in if (whole = [] \<and> fr = []) \<or> r2 \<noteq> [] then Inl ValueError
              else Inr (float_value ((if neg then ''-'' else []) @ (if whole = [] then ''0'' else whole) @
                                     (if fr = [] then [] else ''.'' @ fr) @ ex)))"

definition float_of_json :: "json \<Rightarrow> pynum res" where
  "float_of_json j = (case j of JStr s \<Rightarrow> float_str s | _ \<Rightarrow> number_of_json j)"

subsection \<open>Connecting\<close>

definition handle_hello :: "json \<Rightarrow> hvac \<Rightarrow> hvac \<times> unit res" where
  "handle_hello msg h =
     (let gw = (hv_gw h)\<lparr>gs_sid := jget_or msg ''sid'' JNull, gs_pool_size := jget_or msg ''pool_size'' JNull\<rparr>
      in case float_of_json (jget_or msg ''server_time'' (JFloat ''0.0'')) of
           Inl e \<Rightarrow> (h\<lparr>hv_gw := gw\<rparr>, Inl e)
         | Inr t \<Rightarrow> (h\<lparr>hv_gw := gw\<lparr>gs_server_time := t\<rparr>\<rparr>, Inr ()))"

text \<open>\<open>k in first\<close>, for whatever JSON value arrived: a key, an element, a substring.\<close>

fun is_infix :: "string \<Rightarrow> string \<Rightarrow> bool" where
  "is_infix p [] \<longleftrightarrow> p = []"
| "is_infix p (c # cs) \<longleftrightarrow> starts_with p (c # cs) \<or> is_infix p cs"

definition json_in :: "string \<Rightarrow> json \<Rightarrow> bool res" where
  "json_in k j =
     (case j of
        JObj d \<Rightarrow> Inr (has_key d k)
      | JList xs \<Rightarrow> Inr (JStr k \<in> set xs)
      | JStr s \<Rightarrow> Inr (is_infix k s)
      | _ \<Rightarrow> Inl TypeError)"

text \<open>\<open>json.loads\<close> of bytes: UTF-8, a byte order mark is skipped.\<close>

definition loads_bytes :: "bytes \<Rightarrow> json res" where
  "loads_bytes b = bind_res (text_of_bytes (if take 3 b = [0xEF, 0xBB, 0xBF] then drop 3 b else b)) loads"

definition confirm_key :: "unseal \<Rightarrow> json \<Rightarrow> session \<Rightarrow> hvac \<Rightarrow> hvac \<times> session res" where
  "confirm_key unseal first s h =
     (case bind_res (json_in ''c'' first) (\<lambda>a. if a then json_in ''ct'' first else Inr False) of
        Inl e \<Rightarrow> (h, Inl e)
      | Inr True \<Rightarrow>
          (case decrypt unseal first s of
             (s', r) \<Rightarrow>
               (case bind_res r loads_bytes of
                  Inl e \<Rightarrow> (h, Inl (if e = InvalidTag then AuthenticationError else e))
                | Inr msg \<Rightarrow>
                    (if \<not> is_object msg then (h, Inl AttributeError)
                     else if has_type ''hello'' msg then (case handle_hello msg h of (h', r) \<Rightarrow> (h', bind_res r (\<lambda>_. Inr s')))
                     else (h, Inr s'))))
      | Inr False \<Rightarrow> (h, Inl (if is_object first then HandshakeError else AttributeError)))"

text \<open>\<open>connect\<close> on a socket that opened: what arrives while it waits is given, and the two times it stores.\<close>

definition client_handshake :: "hkdf \<Rightarrow> unseal \<Rightarrow> bytes \<Rightarrow> bytes \<Rightarrow> string option \<Rightarrow> string option \<Rightarrow> hvac \<Rightarrow> hvac \<times> session res" where
  "client_handshake hkdf unseal psk client_rand reply_raw first_raw h =
     (case bind_res (case reply_raw of None \<Rightarrow> Inl ConnectionError | Some t \<Rightarrow> loads t) (\<lambda>reply.
             bind_res (complete_handshake_client hkdf psk client_rand reply) (\<lambda>s.
             bind_res (case first_raw of None \<Rightarrow> Inl ConnectionError | Some t \<Rightarrow> loads t) (\<lambda>first. Inr (s, first)))) of
        Inl e \<Rightarrow> (h, Inl e)
      | Inr (s, first) \<Rightarrow> confirm_key unseal first s h)"

definition client_connect ::
    "hkdf \<Rightarrow> unseal \<Rightarrow> bytes \<Rightarrow> string option \<Rightarrow> string option \<Rightarrow> rat \<Rightarrow> rat \<Rightarrow> hvac \<Rightarrow> hvac \<times> unit res" where
  "client_connect hkdf unseal client_rand reply_raw first_raw tick wall h =
     (let publish = (\<lambda>s h. (h\<lparr>hv_ws := True, hv_session := s, hv_gw := (hv_gw h)\<lparr>gs_connected_at := tick, gs_connected_wall := wall\<rparr>\<rparr>, Inr ()))
      in case the_key h of
           None \<Rightarrow> publish None h
         | Some psk \<Rightarrow>
             (case client_handshake hkdf unseal psk client_rand reply_raw first_raw
                     (h\<lparr>hv_sent := hv_sent h @ [dumps (create_hello client_rand)]\<rparr>) of
                (h', Inl e) \<Rightarrow> (h', Inl e)
              | (h', Inr s) \<Rightarrow> publish (Some s) h'))"

definition client_close :: "hvac \<Rightarrow> hvac" where
  "client_close h = h\<lparr>hv_pending := [], hv_ws := False, hv_session := None\<rparr>"

subsection \<open>Sending\<close>

definition client_send :: "seal \<Rightarrow> json \<Rightarrow> hvac \<Rightarrow> hvac \<times> unit res" where
  "client_send seal msg h =
     (if \<not> hv_ws h then (h, Inl ConnectionError)
      else case the_key h of
             None \<Rightarrow> (h\<lparr>hv_sent := hv_sent h @ [dumps msg]\<rparr>, Inr ())
           | Some _ \<Rightarrow>
               (case hv_session h of
                  None \<Rightarrow> (h, Inl ConnectionError)
                | Some s \<Rightarrow>
                    (case encrypt_json seal msg s of
                       (s', Inl e) \<Rightarrow> (h\<lparr>hv_session := Some s'\<rparr>, Inl e)
                     | (s', Inr data) \<Rightarrow> (h\<lparr>hv_session := Some s', hv_sent := hv_sent h @ [data]\<rparr>, Inr ()))))"

definition next_ref :: "hvac \<Rightarrow> int \<times> hvac" where
  "next_ref h = (let n = gs_next_req_id (hv_gw h) + 1 in (n, h\<lparr>hv_gw := (hv_gw h)\<lparr>gs_next_req_id := n\<rparr>\<rparr>))"

definition frame_message :: "string \<Rightarrow> int \<Rightarrow> json \<Rightarrow> json" where
  "frame_message frame_hex ref sid =
     JObj ([(''type'', JStr ''frame''), (''hex'', JStr frame_hex), (''ref'', JInt ref)] @ (if sid = JNull then [] else [(''sid'', sid)]))"

definition client_send_frame :: "seal \<Rightarrow> string \<Rightarrow> hvac \<Rightarrow> hvac \<times> int res" where
  "client_send_frame seal frame_hex h =
     (case next_ref h of
        (ref, h) \<Rightarrow>
          (case client_send seal (frame_message frame_hex ref (gs_sid (hv_gw h))) h of (h, r) \<Rightarrow> (h, bind_res r (\<lambda>_. Inr ref))))"

definition client_send_ping :: "seal \<Rightarrow> hvac \<Rightarrow> hvac \<times> unit res" where
  "client_send_ping seal h = client_send seal ping h"

subsection \<open>Requests with a reply\<close>

text \<open>A request registers a future under a fresh reference before it is sent; when it is over, answered,
  failed, cancelled or timed out, the future is removed.\<close>

definition forget :: "int \<Rightarrow> (int, future) dict \<Rightarrow> (int, future) dict" where
  "forget ref d = filter (\<lambda>x. fst x \<noteq> ref) d"

definition start_request :: "seal \<Rightarrow> (int \<Rightarrow> json) \<Rightarrow> hvac \<Rightarrow> hvac \<times> int res" where
  "start_request seal msg h =
     (case next_ref h of
        (ref, h) \<Rightarrow>
          (case client_send seal (msg ref) (h\<lparr>hv_pending := dset ref Waiting (hv_pending h)\<rparr>) of
             (h, Inl e) \<Rightarrow> (h\<lparr>hv_pending := forget ref (hv_pending h)\<rparr>, Inl e)
           | (h, Inr _) \<Rightarrow> (h, Inr ref)))"

definition finish_request :: "int \<Rightarrow> hvac \<Rightarrow> hvac \<times> future" where  \<comment> \<open>\<open>Waiting\<close>: the wait timed out\<close>
  "finish_request ref h =
     (h\<lparr>hv_pending := forget ref (hv_pending h)\<rparr>, case dget (hv_pending h) ref of Some f \<Rightarrow> f | None \<Rightarrow> Cancelled)"

definition subscribe_message :: "string list option \<Rightarrow> string list option \<Rightarrow> int \<Rightarrow> json" where
  "subscribe_message include annotate ref =
     JObj [(''type'', JStr ''subscribe''), (''ref'', JInt ref),
           (''include'', JList (map JStr (case include of None \<Rightarrow> [''rx''] | Some ks \<Rightarrow> ks))),
           (''annotate'', JList (map JStr (case annotate of None \<Rightarrow> [] | Some fs \<Rightarrow> fs)))]"

definition send_subscribe :: "seal \<Rightarrow> string list option \<Rightarrow> string list option \<Rightarrow> hvac \<Rightarrow> hvac \<times> int res" where
  "send_subscribe seal include annotate h = start_request seal (subscribe_message include annotate) h"

definition request_debug_dump :: "seal \<Rightarrow> hvac \<Rightarrow> hvac \<times> int res" where
  "request_debug_dump seal h = start_request seal (\<lambda>ref. JObj [(''type'', JStr ''debug_dump''), (''ref'', JInt ref)]) h"

subsection \<open>Listening\<close>

definition client_recv :: "unseal \<Rightarrow> string \<Rightarrow> hvac \<Rightarrow> hvac \<times> json res" where
  "client_recv unseal raw h =
     (case (if hv_no_encrypt h then None else hv_session h) of
        None \<Rightarrow> (h, bind_res (loads raw) (\<lambda>m. if is_object m then Inr m else Inl AttributeError))
      | Some s \<Rightarrow>
          (case decrypt_json unseal raw s of
             (s', r) \<Rightarrow> (h\<lparr>hv_session := Some s'\<rparr>, bind_res r (\<lambda>m. if is_object m then Inr m else Inl AttributeError))))"

text \<open>The future a reference names: a number equal to the key, as Python compares them.\<close>

definition pending_key :: "json \<Rightarrow> hvac \<Rightarrow> int option res" where
  "pending_key ref h =
     (if \<not> hashable ref then Inl TypeError
      else Inr (find (\<lambda>k. number_of_json ref = Inr (Fin (of_int k))) (dkeys (hv_pending h))))"

definition resolve :: "json \<Rightarrow> future \<Rightarrow> hvac \<Rightarrow> hvac \<times> unit res" where
  "resolve ref result h =
     (case pending_key ref h of
        Inl e \<Rightarrow> (h, Inl e)
      | Inr None \<Rightarrow> (h, Inr ())
      | Inr (Some k) \<Rightarrow>
          (if dget (hv_pending h) k = Some Waiting then (h\<lparr>hv_pending := dset k result (hv_pending h)\<rparr>, Inr ()) else (h, Inr ())))"

definition note_event :: "client_event \<Rightarrow> hvac \<Rightarrow> hvac" where
  "note_event e h = h\<lparr>hv_events := hv_events h @ [e]\<rparr>"

definition dispatch :: "json \<Rightarrow> hvac \<Rightarrow> hvac \<times> unit res" where
  "dispatch msg h =
     (case (if has_type ''hello'' msg then handle_hello msg h
            else if has_type ''frame'' msg \<and> hv_on_frame h then
              (note_event (Got_frame (jget_or msg ''hex'' (JStr [])) (jget_or msg ''ts'' (JInt 0))) h, Inr ())
            else if has_type ''pi_status'' msg \<and> hv_on_pi_status h then (note_event (Got_pi_status msg) h, Inr ())
            else if has_type ''subscribed'' msg \<or> has_type ''debug_dump'' msg then
              (if jget_or msg ''ref'' JNull = JNull then (h, Inr ()) else resolve (jget_or msg ''ref'' JNull) (Answered msg) h)
            else if has_type ''error'' msg then resolve (jget_or msg ''ref'' JNull) (Failed (jget_or msg ''msg'' (JStr []))) h
            else (h, Inr ())) of
        (h, Inl e) \<Rightarrow> (h, Inl e)
      | (h, Inr _) \<Rightarrow> ((note_event (Got_message msg) ^^ hv_listeners h) h, Inr ()))"

text \<open>One turn of the loop; the flag: the loop goes on.\<close>

definition listen_turn :: "unseal \<Rightarrow> string \<Rightarrow> hvac \<Rightarrow> hvac \<times> bool" where
  "listen_turn unseal raw h =
     (case client_recv unseal raw h of
        (h, Inl _) \<Rightarrow> (h, False)
      | (h, Inr msg) \<Rightarrow> (case dispatch msg h of (h, r) \<Rightarrow> (h, \<not> isl r \<and> hv_ws h)))"

fun listen :: "unseal \<Rightarrow> string list \<Rightarrow> hvac \<Rightarrow> hvac" where
  "listen unseal [] h = h"
| "listen unseal (raw # rest) h =
     (if \<not> hv_ws h then h
      else case listen_turn unseal raw h of (h, going) \<Rightarrow> if going then listen unseal rest h else h)"

definition add_listener :: "hvac \<Rightarrow> hvac" where
  "add_listener h = h\<lparr>hv_listeners := hv_listeners h + 1\<rparr>"

text \<open>Between the awaits of its methods.\<close>

inductive client_step :: "hkdf \<Rightarrow> seal \<Rightarrow> unseal \<Rightarrow> hvac \<Rightarrow> hvac \<Rightarrow> bool" for hkdf seal unseal where
  connecting: "client_connect hkdf unseal client_rand reply_raw first_raw tick wall h = (h', r) \<Longrightarrow> client_step hkdf seal unseal h h'"
| closing: "client_step hkdf seal unseal h (client_close h)"
| sending: "client_send seal msg h = (h', r) \<Longrightarrow> client_step hkdf seal unseal h h'"
| framing: "client_send_frame seal frame_hex h = (h', ref) \<Longrightarrow> client_step hkdf seal unseal h h'"
| requesting: "start_request seal req h = (h', ref) \<Longrightarrow> client_step hkdf seal unseal h h'"
| finishing: "finish_request ref h = (h', f) \<Longrightarrow> client_step hkdf seal unseal h h'"
| listening: "hv_ws h \<Longrightarrow> listen_turn unseal raw h = (h', going) \<Longrightarrow> client_step hkdf seal unseal h h'"

inductive client_reachable :: "hkdf \<Rightarrow> seal \<Rightarrow> unseal \<Rightarrow> hvac \<Rightarrow> hvac \<Rightarrow> bool" for hkdf seal unseal start where
  client_started: "client_reachable hkdf seal unseal start start"
| client_moved: "client_reachable hkdf seal unseal start h \<Longrightarrow> client_step hkdf seal unseal h h' \<Longrightarrow> client_reachable hkdf seal unseal start h'"

end
