(* ===== verification/Ws_Client_Steps.thy ===== *)
theory Ws_Client_Steps
  imports Ws_Client
begin

section \<open>What a client promises\<close>

text \<open>
  A client that expects encryption never sends anything unsealed but its hello; it only counts as
  connected when it has opened a sealed message of the gateway; replies reach exactly the request they
  answer.  With the gateway: joining, the wrong key, and the way of a frame from \<open>send_frame\<close> to the bus.
\<close>

subsection \<open>Steps that leave the connection alone\<close>

lemma handle_hello_keeps:
  "handle_hello msg h = (h', r) \<Longrightarrow> \<exists>gw. h' = h\<lparr>hv_gw := gw\<rparr> \<and> gs_next_req_id gw = gs_next_req_id (hv_gw h)"
  by (auto simp: handle_hello_def Let_def split: sum.splits)

lemma resolve_cases:
  assumes "resolve ref f h = (h', r)"
  obtains "h' = h" | k where "pending_key ref h = Inr (Some k)" and "dget (hv_pending h) k = Some Waiting"
    and "h' = h\<lparr>hv_pending := dset k f (hv_pending h)\<rparr>"
  using assms by (auto simp: resolve_def split: sum.splits option.splits if_splits)

lemma resolve_keeps: "resolve ref f h = (h', r) \<Longrightarrow> \<exists>d. h' = h\<lparr>hv_pending := d\<rparr> \<and> dkeys d = dkeys (hv_pending h)"
proof (erule resolve_cases)
  assume "h' = h"
  then show ?thesis by (intro exI [of _ "hv_pending h"]) simp
next
  fix k
  assume "dget (hv_pending h) k = Some Waiting" and h': "h' = h\<lparr>hv_pending := dset k f (hv_pending h)\<rparr>"
  then have "has_key (hv_pending h) k" by (simp add: has_key_def)
  then have "dkeys (dset k f (hv_pending h)) = dkeys (hv_pending h)" by (simp add: dkeys_dset)
  then show ?thesis using h' by blast
qed

lemma note_events: "\<exists>es. (note_event e ^^ n) h = h\<lparr>hv_events := es\<rparr>"
proof (induction n)
  case 0
  have "h = h\<lparr>hv_events := hv_events h\<rparr>" by simp
  then show ?case by (metis funpow_0)
next
  case (Suc n)
  then show ?case by (auto simp: note_event_def)
qed

text \<open>\<open>quiet h h'\<close>: what a received message changes, at most.\<close>

definition quiet :: "hvac \<Rightarrow> hvac \<Rightarrow> bool" where
  "quiet h h' \<longleftrightarrow>
     hv_psk h' = hv_psk h \<and> hv_no_encrypt h' = hv_no_encrypt h \<and> hv_ws h' = hv_ws h \<and> hv_session h' = hv_session h \<and>
     hv_sent h' = hv_sent h \<and> dkeys (hv_pending h') = dkeys (hv_pending h) \<and>
     gs_next_req_id (hv_gw h') = gs_next_req_id (hv_gw h)"

lemma quiet_refl [simp]: "quiet h h"
  by (simp add: quiet_def)

lemma quiet_trans: "quiet h h1 \<Longrightarrow> quiet h1 h2 \<Longrightarrow> quiet h h2"
  by (simp add: quiet_def)

lemma quiet_events [simp]: "quiet h (h'\<lparr>hv_events := es\<rparr>) = quiet h h'" "quiet h (note_event e h') = quiet h h'"
  by (simp_all add: quiet_def note_event_def)

lemma hello_quiet: "handle_hello msg h = (h', r) \<Longrightarrow> quiet h h'"
  by (auto simp: quiet_def dest: handle_hello_keeps)

lemma resolve_quiet: "resolve ref f h = (h', r) \<Longrightarrow> quiet h h'"
  by (auto simp: quiet_def dest: resolve_keeps)

text \<open>What \<open>dispatch\<close> does before the listeners.\<close>

definition react :: "json \<Rightarrow> hvac \<Rightarrow> hvac \<times> unit res" where
  "react msg h =
     (if has_type ''hello'' msg then handle_hello msg h
      else if has_type ''frame'' msg \<and> hv_on_frame h then
        (note_event (Got_frame (jget_or msg ''hex'' (JStr [])) (jget_or msg ''ts'' (JInt 0))) h, Inr ())
      else if has_type ''pi_status'' msg \<and> hv_on_pi_status h then (note_event (Got_pi_status msg) h, Inr ())
      else if has_type ''subscribed'' msg \<or> has_type ''debug_dump'' msg then
        (if jget_or msg ''ref'' JNull = JNull then (h, Inr ()) else resolve (jget_or msg ''ref'' JNull) (Answered msg) h)
      else if has_type ''error'' msg then resolve (jget_or msg ''ref'' JNull) (Failed (jget_or msg ''msg'' (JStr []))) h
      else (h, Inr ()))"

lemma dispatch_react:
  "dispatch msg h = (case react msg h of (h, Inl e) \<Rightarrow> (h, Inl e) | (h, Inr _) \<Rightarrow> ((note_event (Got_message msg) ^^ hv_listeners h) h, Inr ()))"
  by (simp only: dispatch_def react_def)

lemma react_quiet: "react msg h = (h', r) \<Longrightarrow> quiet h h'"
  by (auto simp: react_def hello_quiet resolve_quiet split: if_splits)

lemma dispatch_shape:
  assumes "dispatch msg h = (h', r)"
  shows "\<exists>es. h' = (fst (react msg h))\<lparr>hv_events := es\<rparr>"
proof -
  obtain h1 s where s: "react msg h = (h1, s)" by fastforce
  consider (stopped) "h' = h1" | (heard) "h' = (note_event (Got_message msg) ^^ hv_listeners h1) h1"
    using assms s by (cases s) (simp_all add: dispatch_react)
  then show ?thesis
  proof cases
    case stopped
    then show ?thesis using s by (intro exI [of _ "hv_events h1"]) simp
  next
    case heard
    then show ?thesis using s note_events [where e = "Got_message msg" and n = "hv_listeners h1" and h = h1] by simp
  qed
qed

lemma dispatch_quiet: "dispatch msg h = (h', r) \<Longrightarrow> quiet h h'"
proof -
  assume d: "dispatch msg h = (h', r)"
  obtain es where es: "h' = (fst (react msg h))\<lparr>hv_events := es\<rparr>" using dispatch_shape [OF d] by blast
  have "quiet h (fst (react msg h))" by (rule react_quiet [OF prod.collapse [symmetric]])
  then show ?thesis unfolding es by simp
qed

lemma dispatch_pending: "dispatch msg h = (h', r) \<Longrightarrow> hv_pending h' = hv_pending (fst (react msg h))"
proof -
  assume d: "dispatch msg h = (h', r)"
  obtain es where es: "h' = (fst (react msg h))\<lparr>hv_events := es\<rparr>" using dispatch_shape [OF d] by blast
  show ?thesis unfolding es by simp
qed

subsection \<open>Never in the clear\<close>

text \<open>A text on the socket of a client that encrypts: its hello, or a sealed message.\<close>

definition veiled :: "seal \<Rightarrow> string \<Rightarrow> bool" where
  "veiled seal t \<longleftrightarrow> (\<exists>r. t = dumps (create_hello r)) \<or> (\<exists>j s s'. encrypt_json seal j s = (s', Inr t))"

definition secure :: "seal \<Rightarrow> hvac \<Rightarrow> bool" where
  "secure seal h \<longleftrightarrow> the_key h \<noteq> None \<longrightarrow> (hv_ws h \<longrightarrow> hv_session h \<noteq> None) \<and> list_all (veiled seal) (hv_sent h)"

lemma the_key_cong: "hv_psk h' = hv_psk h \<Longrightarrow> hv_no_encrypt h' = hv_no_encrypt h \<Longrightarrow> the_key h' = the_key h"
  by (simp add: the_key_def)

lemma secure_cong:
  "hv_psk h' = hv_psk h \<Longrightarrow> hv_no_encrypt h' = hv_no_encrypt h \<Longrightarrow> hv_ws h' = hv_ws h \<Longrightarrow>
    hv_session h' = None \<longleftrightarrow> hv_session h = None \<Longrightarrow> hv_sent h' = hv_sent h \<Longrightarrow> secure seal h' = secure seal h"
  using the_key_cong [of h' h] by (simp add: secure_def)

lemma secure_quiet: "quiet h h' \<Longrightarrow> secure seal h' = secure seal h"
  by (rule secure_cong) (simp_all add: quiet_def)

lemma client_send_effect:
  assumes "client_send seal msg h = (h', r)"
  shows "\<exists>s out. h' = h\<lparr>hv_session := s, hv_sent := hv_sent h @ out\<rparr> \<and> (s = None \<longleftrightarrow> hv_session h = None) \<and>
    (the_key h \<noteq> None \<longrightarrow> list_all (veiled seal) out)"
proof -
  show ?thesis
  proof (cases "hv_ws h \<and> (the_key h = None \<or> hv_session h \<noteq> None)")
    case False
    then have "h' = h" using assms by (auto simp: client_send_def split: option.splits if_splits)
    then show ?thesis by (intro exI [of _ "hv_session h"] exI [of _ "[]"]) simp
  next
    case True
    show ?thesis
    proof (cases "the_key h")
      case None
      then have "h' = h\<lparr>hv_session := hv_session h, hv_sent := hv_sent h @ [dumps msg]\<rparr>" using assms True by (simp add: client_send_def)
      then show ?thesis using None by blast
    next
      case (Some k)
      then obtain s where s: "hv_session h = Some s" using True by auto
      obtain s' x where x: "encrypt_json seal msg s = (s', x)" by fastforce
      show ?thesis
      proof (cases x)
        case (Inl e)
        then have "h' = h\<lparr>hv_session := Some s'\<rparr>" using assms True Some s x by (simp add: client_send_def)
        then show ?thesis using s by (intro exI [of _ "Some s'"] exI [of _ "[]"]) simp
      next
        case (Inr t)
        then have "h' = h\<lparr>hv_session := Some s', hv_sent := hv_sent h @ [t]\<rparr>" using assms True Some s x by (simp add: client_send_def)
        moreover have "veiled seal t" using x Inr by (auto simp: veiled_def)
        ultimately show ?thesis using s by (intro exI [of _ "Some s'"] exI [of _ "[t]"]) simp
      qed
    qed
  qed
qed

lemma secure_send: "client_send seal msg h = (h', r) \<Longrightarrow> secure seal h \<Longrightarrow> secure seal h'"
proof -
  assume c: "client_send seal msg h = (h', r)" and s: "secure seal h"
  obtain t out where e: "h' = h\<lparr>hv_session := t, hv_sent := hv_sent h @ out\<rparr>" "t = None \<longleftrightarrow> hv_session h = None"
      "the_key h \<noteq> None \<longrightarrow> list_all (veiled seal) out"
    using client_send_effect [OF c] by (elim exE conjE)
  have k: "the_key h' = the_key h" by (rule the_key_cong) (simp_all add: e(1))
  have "hv_ws h' = hv_ws h" "hv_session h' = t" "hv_sent h' = hv_sent h @ out" by (simp_all add: e(1))
  then show ?thesis using s e(2,3) k by (auto simp: secure_def)
qed

lemma confirm_key_quiet: "confirm_key unseal first s h = (h', r) \<Longrightarrow> quiet h h'"
  by (auto simp: confirm_key_def hello_quiet split: sum.splits bool.splits prod.splits if_splits)

lemma client_handshake_quiet: "client_handshake hkdf unseal k cr a b h = (h', r) \<Longrightarrow> quiet h h'"
  unfolding client_handshake_def by (auto simp: confirm_key_quiet split: sum.splits)

lemma secure_connect:
  assumes "client_connect hkdf unseal cr a b tick wall h = (h', r)" and "secure seal h"
  shows "secure seal h'"
proof (cases "the_key h")
  case None
  then have "hv_psk h' = hv_psk h" "hv_no_encrypt h' = hv_no_encrypt h" using assms(1) by (auto simp: client_connect_def)
  then show ?thesis using None the_key_cong [of h' h] by (simp add: secure_def)
next
  case (Some k)
  let ?h = "h\<lparr>hv_sent := hv_sent h @ [dumps (create_hello cr)]\<rparr>"
  obtain h1 q where q: "client_handshake hkdf unseal k cr a b ?h = (h1, q)" by fastforce
  have k: "the_key ?h = the_key h" by (rule the_key_cong) simp_all
  have "veiled seal (dumps (create_hello cr))" by (auto simp: veiled_def)
  then have "secure seal ?h" using assms(2) k by (auto simp: secure_def)
  then have s: "secure seal h1" using secure_quiet [OF client_handshake_quiet [OF q]] by simp
  show ?thesis
  proof (cases q)
    case (Inl e)
    then show ?thesis using assms(1) Some q s by (simp add: client_connect_def)
  next
    case (Inr t)
    have h': "h' = h1\<lparr>hv_ws := True, hv_session := Some t, hv_gw := (hv_gw h1)\<lparr>gs_connected_at := tick, gs_connected_wall := wall\<rparr>\<rparr>"
      using assms(1) Some q Inr by (simp add: client_connect_def)
    have "the_key h' = the_key h1" by (rule the_key_cong) (simp_all add: h')
    moreover have "hv_session h' = Some t" "hv_sent h' = hv_sent h1" by (simp_all add: h')
    ultimately show ?thesis using s by (simp add: secure_def)
  qed
qed

text \<open>Changes of the counter of references and of the futures do not matter.\<close>

lemma secure_simps [simp]:
  "secure seal (h\<lparr>hv_gw := gw\<rparr>) = secure seal h" "secure seal (h\<lparr>hv_pending := d\<rparr>) = secure seal h"
  "the_key (h\<lparr>hv_gw := gw\<rparr>) = the_key h" "the_key (h\<lparr>hv_pending := d\<rparr>) = the_key h"
  "the_key (h\<lparr>hv_session := s\<rparr>) = the_key h" "the_key (h\<lparr>hv_sent := ts\<rparr>) = the_key h"
  by (simp_all add: secure_def the_key_def)

lemma secure_frame: "client_send_frame seal x h = (h', r) \<Longrightarrow> secure seal h \<Longrightarrow> secure seal h'"
  by (auto simp: client_send_frame_def next_ref_def Let_def split: prod.splits dest!: secure_send)

lemma secure_request: "start_request seal req h = (h', r) \<Longrightarrow> secure seal h \<Longrightarrow> secure seal h'"
  by (auto simp: start_request_def next_ref_def Let_def split: prod.splits sum.splits dest!: secure_send)

lemma recv_effect: "client_recv unseal raw h = (h', r) \<Longrightarrow> \<exists>s. h' = h\<lparr>hv_session := s\<rparr> \<and> (s = None \<longleftrightarrow> hv_session h = None)"
proof -
  assume c: "client_recv unseal raw h = (h', r)"
  show ?thesis
  proof (cases "if hv_no_encrypt h then None else hv_session h")
    case None
    then have "h' = h" using c by (simp add: client_recv_def)
    then show ?thesis by (intro exI [of _ "hv_session h"]) simp
  next
    case (Some s)
    then have "hv_session h \<noteq> None" by (auto split: if_splits)
    then show ?thesis using c Some by (auto simp: client_recv_def split: prod.splits)
  qed
qed

lemma secure_turn: "listen_turn unseal raw h = (h', g) \<Longrightarrow> secure seal h \<Longrightarrow> secure seal h'"
proof -
  assume l: "listen_turn unseal raw h = (h', g)" and s: "secure seal h"
  obtain h1 r where r: "client_recv unseal raw h = (h1, r)" by fastforce
  obtain t where t: "h1 = h\<lparr>hv_session := t\<rparr>" "t = None \<longleftrightarrow> hv_session h = None" using recv_effect [OF r] by (elim exE conjE)
  have s1: "secure seal h1 = secure seal h" by (rule secure_cong) (simp_all add: t)
  show ?thesis
  proof (cases r)
    case (Inl e)
    then show ?thesis using l r s s1 by (simp add: listen_turn_def)
  next
    case (Inr m)
    obtain h2 q where q: "dispatch m h1 = (h2, q)" by fastforce
    then show ?thesis using l r Inr s s1 secure_quiet [OF dispatch_quiet [OF q]] by (simp add: listen_turn_def)
  qed
qed

lemma secure_step: "client_step hkdf seal unseal h h' \<Longrightarrow> secure seal h \<Longrightarrow> secure seal h'"
proof (induction rule: client_step.induct)
  case (closing h)
  then show ?case by (auto simp: client_close_def secure_def the_key_def)
next
  case (finishing ref h h' f)
  then show ?case by (auto simp: finish_request_def)
qed (auto dest: secure_connect secure_send secure_frame secure_request secure_turn)

text \<open>The configuration stays.\<close>

definition config_of :: "hvac \<Rightarrow> bytes option \<times> bool" where
  "config_of h = (hv_psk h, hv_no_encrypt h)"

lemma config_simps [simp]:
  "config_of (h\<lparr>hv_gw := gw\<rparr>) = config_of h" "config_of (h\<lparr>hv_pending := d\<rparr>) = config_of h" "config_of (h\<lparr>hv_session := s\<rparr>) = config_of h"
  "config_of (h\<lparr>hv_sent := ts\<rparr>) = config_of h" "config_of (h\<lparr>hv_ws := b\<rparr>) = config_of h"
  by (simp_all add: config_of_def)

lemma config_quiet: "quiet h h' \<Longrightarrow> config_of h' = config_of h"
  by (simp add: quiet_def config_of_def)

lemma config_send: "client_send seal msg h = (h', r) \<Longrightarrow> config_of h' = config_of h"
proof -
  assume c: "client_send seal msg h = (h', r)"
  obtain t out where e: "h' = h\<lparr>hv_session := t, hv_sent := hv_sent h @ out\<rparr>" using client_send_effect [OF c] by (elim exE conjE)
  show ?thesis by (simp add: e)
qed

lemma config_connect: "client_connect hkdf unseal cr a b tick wall h = (h', r) \<Longrightarrow> config_of h' = config_of h"
proof -
  assume c: "client_connect hkdf unseal cr a b tick wall h = (h', r)"
  show ?thesis
  proof (cases "the_key h")
    case None
    then show ?thesis using c by (auto simp: client_connect_def)
  next
    case (Some k)
    obtain h1 q where q: "client_handshake hkdf unseal k cr a b (h\<lparr>hv_sent := hv_sent h @ [dumps (create_hello cr)]\<rparr>) = (h1, q)" by fastforce
    have "config_of h1 = config_of h" using config_quiet [OF client_handshake_quiet [OF q]] by simp
    then show ?thesis using c Some q by (cases q) (auto simp: client_connect_def)
  qed
qed

lemma config_turn: "listen_turn unseal raw h = (h', g) \<Longrightarrow> config_of h' = config_of h"
proof -
  assume l: "listen_turn unseal raw h = (h', g)"
  obtain h1 r where r: "client_recv unseal raw h = (h1, r)" by fastforce
  obtain t where t: "h1 = h\<lparr>hv_session := t\<rparr>" using recv_effect [OF r] by (elim exE conjE)
  show ?thesis
  proof (cases r)
    case (Inl e)
    then show ?thesis using l r t by (auto simp: listen_turn_def)
  next
    case (Inr m)
    obtain h2 q where q: "dispatch m h1 = (h2, q)" by fastforce
    then show ?thesis using l r Inr t config_quiet [OF dispatch_quiet [OF q]] by (auto simp: listen_turn_def)
  qed
qed

lemma config_step: "client_step hkdf seal unseal h h' \<Longrightarrow> config_of h' = config_of h"
proof (induction rule: client_step.induct)
  case (closing h)
  then show ?case by (simp add: client_close_def)
next
  case (framing frame_hex h h' ref)
  then show ?case by (auto simp: client_send_frame_def next_ref_def Let_def split: prod.splits dest!: config_send)
next
  case (requesting req h h' ref)
  then show ?case by (auto simp: start_request_def next_ref_def Let_def split: prod.splits sum.splits dest!: config_send)
next
  case (finishing ref h h' f)
  then show ?case by (auto simp: finish_request_def)
qed (auto dest: config_connect config_send config_turn)

lemma reachable_secure:
  assumes "client_reachable hkdf seal unseal (new_hvac psk ne) h"
  shows "secure seal h \<and> config_of h = (psk, ne)"
  using assms
proof (induction rule: client_reachable.induct)
  case client_started
  then show ?case by (simp add: secure_def new_hvac_def config_of_def)
next
  case (client_moved h h')
  then show ?case using secure_step config_step by metis
qed

text \<open>C7: a client that was given a key never sends anything in the clear but its hello: whatever it does and
  whatever it receives, every text it has put on a socket is a hello or sealed by a session, and it only counts
  as connected when it has a session.\<close>

theorem never_in_the_clear:
  assumes "client_reachable hkdf seal unseal (new_hvac (Some key) False) h" and "key \<noteq> []"
  shows "(\<forall>t \<in> set (hv_sent h). (\<exists>r. t = dumps (create_hello r)) \<or> (\<exists>j s s'. encrypt_json seal j s = (s', Inr t))) \<and>
    (hv_ws h \<longrightarrow> (\<exists>s. hv_session h = Some s))"
proof -
  have s: "secure seal h" "config_of h = (Some key, False)" using reachable_secure [OF assms(1)] by simp_all
  then have "the_key h \<noteq> None" using assms(2) by (cases key) (auto simp: the_key_def config_of_def)
  then show ?thesis using s(1) by (auto simp: secure_def veiled_def list_all_iff)
qed

subsection \<open>Key confirmation\<close>

lemma confirm_key_Inr:
  assumes "confirm_key unseal first s h = (h', Inr s')"
  shows "\<exists>p m. decrypt unseal first s = (s', Inr p) \<and> loads_bytes p = Inr m \<and> is_object m"
  using assms by (auto simp: confirm_key_def split: sum.splits bool.splits prod.splits if_splits)

text \<open>Connecting confirms the key: when \<open>connect\<close> of a client that encrypts succeeds, its session was derived
  with its own key and has opened a message of the gateway; when it fails, the client stays unconnected
  as it was.\<close>

theorem connect_confirms_key:
  assumes "client_connect hkdf unseal cr reply_raw first_raw tick wall h = (h', r)" and "the_key h = Some psk"
  shows "case r of
      Inl e \<Rightarrow> hv_ws h' = hv_ws h \<and> hv_session h' = hv_session h
    | Inr _ \<Rightarrow> hv_ws h' \<and> (\<exists>reply s first s' p. bind_res (case reply_raw of None \<Rightarrow> Inl ConnectionError | Some t \<Rightarrow> loads t)
          (complete_handshake_client hkdf psk cr) = Inr s \<and> first_raw = Some reply \<and> loads reply = Inr first \<and>
        decrypt unseal first s = (s', Inr p) \<and> hv_session h' = Some s')"
proof -
  let ?h = "h\<lparr>hv_sent := hv_sent h @ [dumps (create_hello cr)]\<rparr>"
  obtain h1 q where q: "client_handshake hkdf unseal psk cr reply_raw first_raw ?h = (h1, q)" by fastforce
  have k: "hv_ws h1 = hv_ws h" "hv_session h1 = hv_session h" using client_handshake_quiet [OF q] by (simp_all add: quiet_def)
  show ?thesis
  proof (cases q)
    case (Inl e)
    then show ?thesis using assms q k by (auto simp: client_connect_def)
  next
    case (Inr s')
    then have r: "hv_ws h'" "hv_session h' = Some s'" "r = Inr ()" using assms q by (auto simp: client_connect_def)
    obtain s first where f: "bind_res (case reply_raw of None \<Rightarrow> Inl ConnectionError | Some t \<Rightarrow> loads t)
          (complete_handshake_client hkdf psk cr) = Inr s"
        "(case first_raw of None \<Rightarrow> Inl ConnectionError | Some t \<Rightarrow> loads t) = Inr first" "confirm_key unseal first s ?h = (h1, Inr s')"
      using q Inr by (auto simp: client_handshake_def split: sum.splits)
    from confirm_key_Inr [OF f(3)] f(1,2) r show ?thesis by (auto split: option.splits)
  qed
qed

text \<open>What a session opens with \<open>decrypt_json\<close>, \<open>confirm_key\<close> opens too.\<close>

lemma opened_bytes: "text_of_bytes p = Inr t \<Longrightarrow> loads_bytes p = loads t"
proof -
  assume t: "text_of_bytes p = Inr t"
  have "take 3 p \<noteq> [0xEF, 0xBB, 0xBF]"
  proof
    assume "take 3 p = [0xEF, 0xBB, 0xBF]"
    then obtain q where p: "p = 0xEF # q" by (cases p) auto
    have "text_of_bytes p = Inl ValueError" unfolding p text_of_bytes_def utf8_decode.simps by (simp add: bind_res_def split: list.split)
    then show False using t by simp
  qed
  then show ?thesis using t by (simp add: loads_bytes_def)
qed

lemma confirm_opened:
  assumes "loads sealed = Inr env" and "decrypt_json unseal sealed s = (s', Inr msg)" and "has_type ''hello'' msg" and "is_object msg"
  shows "confirm_key unseal env s h = (case handle_hello msg h of (h', r) \<Rightarrow> (h', bind_res r (\<lambda>_. Inr s')))"
proof -
  obtain p t where d: "decrypt unseal env s = (s', Inr p)" "text_of_bytes p = Inr t" "loads t = Inr msg"
    using assms(1,2) by (auto simp: decrypt_json_def split: prod.splits)
  obtain c n where c: "jitem env ''c'' = Inr c" "number_of_json c = Inr n" "\<not> num_le n (ss_rx_counter s)"
    using d(1) by (auto simp: decrypt_def bind_res_def split: sum.splits if_splits)
  have j: "jget env ''c'' = Some c" using c(1) by (simp add: jitem_cases split: option.splits)
  have "jget env ''ct'' \<noteq> None"
  proof
    assume "jget env ''ct'' = None"
    then have "\<exists>e. jitem env ''ct'' = Inl e" by (simp add: jitem_cases)
    then show False using d(1) decrypt_fresh [OF j c(2,3), of unseal] by auto
  qed
  then have "json_in ''c'' env = Inr True" "json_in ''ct'' env = Inr True"
    using j by (auto simp: json_in_def jget_def has_key_def split: json.splits)
  then show ?thesis using d opened_bytes [OF d(2)] assms(3,4) by (simp add: confirm_key_def)
qed

subsection \<open>Joining the gateway\<close>

lemma slot_hello_ok:
  assumes "scan_literal time = Some (JFloat time, [])" and "is_ascii time"
  shows "wf_json (slot_hello sid n time)" "has_type ''hello'' (slot_hello sid n time)" "is_object (slot_hello sid n time)"
    "handle_hello (slot_hello sid n time) h =
      (h\<lparr>hv_gw := (hv_gw h)\<lparr>gs_sid := JInt (int sid), gs_pool_size := JInt (int n), gs_server_time := float_value time\<rparr>\<rparr>, Inr ())"
  using assms
  by (simp_all add: slot_hello_def dkeys_def has_type_def jget_def is_object_def handle_hello_def jget_or_def float_of_json_def number_of_json_def)

text \<open>C5: a client and the gateway with the same key connect: when the gateway has a free slot, the client's hello and
  the two texts it gets back make \<open>connect\<close> succeed; the client then knows the slot it was given, and its
  session and the gateway's are the two ends of one channel.\<close>

theorem client_joins_gateway:
  assumes "psk_to_bytes (su_scrypt su) psk = Inr k" and "length cr = RAND_SIZE" and "length sr = RAND_SIZE"
    and "\<not> sv_no_encrypt sv" and "sv_psk sv = psk" and "sv_psk_bytes sv \<in> {None, Some k}" and "find_client sv ws = None"
    and "acquire (sv_pool sv) = (pool, Inr sid)"
    and "sv' = end_handshake su clock time ws sr (Hello_text (dumps (create_hello cr)) True) addr sv"
    and "aead_ok (su_seal su) (su_unseal su)" and "the_key h = Some k" and "scan_literal time = Some (JFloat time, [])" and "is_ascii time"
  shows "\<exists>reply first h' c peer. sent_to ws (sv_out sv') = sent_to ws (sv_out sv) @ [Message reply, Message first] \<and>
    client_connect (su_hkdf su) (su_unseal su) cr (Some reply) (Some first) tick wall h = (h', Inr ()) \<and>
    hv_sent h' = hv_sent h @ [dumps (create_hello cr)] \<and> gs_sid (hv_gw h') = JInt (int sid) \<and>
    find_client sv' ws = Some c \<and> cl_sid c = sid \<and> hv_ws h' \<and> hv_session h' = Some peer \<and> linked sv' ws peer \<and> ss_tx_counter peer = 0"
proof -
  obtain c peer s s' sealed where j: "find_client sv' ws = Some c" "cl_sid c = sid"
      "complete_handshake_client (su_hkdf su) k cr (create_hello_ok sr) = Inr peer" "ss_tx_counter peer = 0" "linked sv' ws peer"
      "complete_handshake_server (su_hkdf su) k (create_hello cr) sr = Inr s" "cl_session c = Some s'"
      "encrypt_json (su_seal su) (slot_hello sid (sp_size pool) time) s = (s', Inr sealed)"
      "sent_to ws (sv_out sv') = sent_to ws (sv_out sv) @ [Message (dumps (create_hello_ok sr)), Message sealed]"
    using hello_joins [OF assms(1-9)] by auto
  let ?msg = "slot_hello sid (sp_size pool) time"
  have "\<exists>cs ss. complete_handshake_server (su_hkdf su) k (create_hello cr) sr = Inr ss \<and>
      complete_handshake_client (su_hkdf su) k cr (create_hello_ok sr) = Inr cs \<and> paired cs ss \<and> paired ss cs \<and>
      ss_tx_counter cs = 0 \<and> ss_tx_counter ss = 0" by (rule handshake_pairs [OF assms(2,3)])
  then have p: "paired s peer" "ss_tx_counter s = 0" using j(3,6) by auto
  have lt: "ss_tx_counter s < 2 ^ 64" using p(2) by simp
  let ?peer = "peer\<lparr>ss_rx_counter := Fin (of_int (ss_tx_counter s))\<rparr>"
  from json_encrypted [OF assms(10) p(1) lt slot_hello_ok(1) [OF assms(12,13), of sid "sp_size pool"]] j(8) have
    s': "s' = s\<lparr>ss_tx_counter := ss_tx_counter s + 1\<rparr>" and
    o: "\<And>u. ss_rx_key u = ss_rx_key peer \<Longrightarrow> ss_rx_nonce_prefix u = ss_rx_nonce_prefix peer \<Longrightarrow>
       (\<exists>q. ss_rx_counter u = Fin (of_int q) \<and> q < ss_tx_counter s) \<Longrightarrow>
       decrypt_json (su_unseal su) sealed u = (u\<lparr>ss_rx_counter := Fin (of_int (ss_tx_counter s))\<rparr>, Inr ?msg)" by auto
  have "\<exists>q. ss_rx_counter peer = Fin (of_int q) \<and> q < ss_tx_counter s" using p(1) by (simp add: paired_def)
  then have d: "decrypt_json (su_unseal su) sealed peer = (?peer, Inr ?msg)" by (rule o [OF refl refl])
  obtain env where env: "loads sealed = Inr env" using d by (auto simp: decrypt_json_def split: sum.splits)
  let ?h = "h\<lparr>hv_sent := hv_sent h @ [dumps (create_hello cr)]\<rparr>"
  let ?h1 = "?h\<lparr>hv_gw := (hv_gw ?h)\<lparr>gs_sid := JInt (int sid), gs_pool_size := JInt (int (sp_size pool)), gs_server_time := float_value time\<rparr>\<rparr>"
  have "confirm_key (su_unseal su) env peer ?h = (?h1, Inr ?peer)"
    using confirm_opened [OF env d slot_hello_ok(2,3) [OF assms(12,13)], of ?h] slot_hello_ok(4) [OF assms(12,13), of sid "sp_size pool" ?h] by simp
  moreover have "loads (dumps (create_hello_ok sr)) = Inr (create_hello_ok sr)" by (rule json_roundtrip [OF hello_ok(2)])
  ultimately have hs: "client_handshake (su_hkdf su) (su_unseal su) k cr (Some (dumps (create_hello_ok sr))) (Some sealed) ?h = (?h1, Inr ?peer)"
    using j(3) env by (simp add: client_handshake_def)
  then have "\<exists>h'. client_connect (su_hkdf su) (su_unseal su) cr (Some (dumps (create_hello_ok sr))) (Some sealed) tick wall h = (h', Inr ()) \<and>
      hv_sent h' = hv_sent h @ [dumps (create_hello cr)] \<and> gs_sid (hv_gw h') = JInt (int sid) \<and> hv_ws h' \<and> hv_session h' = Some ?peer"
    using assms(11) by (simp add: client_connect_def)
  moreover have "linked sv' ws ?peer"
  proof -
    have "paired peer s'" using j(1,5,7) by (auto simp: linked_def)
    then have "paired ?peer s'" by (simp add: paired_def)
    moreover have "paired s' ?peer" using p by (auto simp: s' paired_def)
    ultimately show ?thesis using j(1,7) p(2) by (simp add: linked_def s')
  qed
  ultimately show ?thesis using j(1,2,4,9) by fastforce
qed

subsection \<open>The wrong key\<close>

lemma sealed_envelope:
  assumes "encrypt_json seal j s = (s', Inr sealed)"
  shows "\<exists>env packed ct. loads sealed = Inr env \<and> pack_q (ss_tx_counter s) = Inr packed \<and>
    env = JObj [(''c'', JInt (ss_tx_counter s)), (''ct'', JStr (b64encode (take (length ct - 16) ct))), (''tag'', JStr (b64encode (drop (length ct - 16) ct)))] \<and>
    ct = seal (ss_tx_key s) (ss_tx_nonce_prefix s @ packed) (bytes_of_text (dumps j))"
proof -
  obtain env where e: "encrypt seal (bytes_of_text (dumps j)) s = (s', Inr env)" "sealed = dumps env"
    using assms by (auto simp: encrypt_json_def split: prod.splits)
  have "0 \<le> ss_tx_counter s" "ss_tx_counter s < 2 ^ 64" using encrypt_counter [OF e(1)] by simp_all
  from encrypt_shape [OF this, of seal "bytes_of_text (dumps j)"] e(1) obtain packed ct where
    p: "pack_q (ss_tx_counter s) = Inr packed" "ct = seal (ss_tx_key s) (ss_tx_nonce_prefix s @ packed) (bytes_of_text (dumps j))" and
    v: "env = JObj [(''c'', JInt (ss_tx_counter s)), (''ct'', JStr (b64encode (take (length ct - 16) ct))),
      (''tag'', JStr (b64encode (drop (length ct - 16) ct)))]" by auto
  have "wf_json env" by (simp add: v dkeys_def)
  then have "loads sealed = Inr env" using e(2) json_roundtrip by simp
  then show ?thesis using p v by blast
qed

text \<open>C6: a client with another key is told so: when the cipher refuses what was sealed under the gateway's key, \<open>connect\<close> raises
  \<open>AuthenticationError\<close> and the client stays unconnected.  The gateway does not notice: the slot is taken.\<close>

theorem wrong_key_refused:
  assumes "psk_to_bytes (su_scrypt su) psk = Inr k" and "length cr = RAND_SIZE" and "length sr = RAND_SIZE"
    and "\<not> sv_no_encrypt sv" and "sv_psk sv = psk" and "sv_psk_bytes sv \<in> {None, Some k}" and "find_client sv ws = None"
    and "acquire (sv_pool sv) = (pool, Inr sid)"
    and "sv' = end_handshake su clock time ws sr (Hello_text (dumps (create_hello cr)) True) addr sv"
    and "the_key h = Some k'" and "complete_handshake_client (su_hkdf su) k' cr (create_hello_ok sr) = Inr q"
    and "complete_handshake_server (su_hkdf su) k (create_hello cr) sr = Inr s"
    and "\<And>n n' p. su_unseal su (ss_rx_key q) n (su_seal su (ss_tx_key s) n' p) = Inl InvalidTag"
  shows "\<exists>reply first h' c. sent_to ws (sv_out sv') = sent_to ws (sv_out sv) @ [Message reply, Message first] \<and>
    client_connect (su_hkdf su) (su_unseal su) cr (Some reply) (Some first) tick wall h = (h', Inl AuthenticationError) \<and>
    hv_ws h' = hv_ws h \<and> find_client sv' ws = Some c \<and> cl_sid c = sid"
proof -
  obtain c s1 sealed where j: "find_client sv' ws = Some c" "cl_sid c = sid"
      "encrypt_json (su_seal su) (slot_hello sid (sp_size pool) time) s = (s1, Inr sealed)"
      "sent_to ws (sv_out sv') = sent_to ws (sv_out sv) @ [Message (dumps (create_hello_ok sr)), Message sealed]"
    using hello_joins [OF assms(1-9)] assms(12) by auto
  have "\<exists>cs ss. complete_handshake_server (su_hkdf su) k (create_hello cr) sr = Inr ss \<and>
      complete_handshake_client (su_hkdf su) k cr (create_hello_ok sr) = Inr cs \<and> paired cs ss \<and> paired ss cs \<and>
      ss_tx_counter cs = 0 \<and> ss_tx_counter ss = 0" by (rule handshake_pairs [OF assms(2,3)])
  then have s0: "ss_tx_counter s = 0" using assms(12) by auto
  have "\<exists>cs ss. complete_handshake_server (su_hkdf su) k' (create_hello cr) sr = Inr ss \<and>
      complete_handshake_client (su_hkdf su) k' cr (create_hello_ok sr) = Inr cs \<and> paired cs ss \<and> paired ss cs \<and>
      ss_tx_counter cs = 0 \<and> ss_tx_counter ss = 0" by (rule handshake_pairs [OF assms(2,3)])
  then obtain i where i: "ss_rx_counter q = Fin (of_int i)" "i < 0" using assms(11) by (auto simp: paired_def)
  obtain env packed ct where env: "loads sealed = Inr env" "pack_q (ss_tx_counter s) = Inr packed"
      "env = JObj [(''c'', JInt (ss_tx_counter s)), (''ct'', JStr (b64encode (take (length ct - 16) ct))), (''tag'', JStr (b64encode (drop (length ct - 16) ct)))]"
      "ct = su_seal su (ss_tx_key s) (ss_tx_nonce_prefix s @ packed) (bytes_of_text (dumps (slot_hello sid (sp_size pool) time)))"
    using sealed_envelope [OF j(3)] by blast
  have c0: "jget env ''c'' = Some (JInt 0)" by (simp add: env(3) jget_def s0)
  have "num_le (Fin 0) (ss_rx_counter q) = False" using i by simp
  moreover have "jitem env ''ct'' = Inr (JStr (b64encode (take (length ct - 16) ct)))" "jitem env ''tag'' = Inr (JStr (b64encode (drop (length ct - 16) ct)))"
    by (simp_all add: env(3) jitem_def)
  ultimately have d: "decrypt (su_unseal su) env q = (q\<lparr>ss_rx_counter := Fin 0\<rparr>, Inl InvalidTag)"
    using decrypt_fresh [OF c0, of "Fin 0" q "su_unseal su"] env(2) s0 assms(13)
    by (simp add: number_of_json_def pack_counter_def env(4))
  have "json_in ''c'' env = Inr True" "json_in ''ct'' env = Inr True" by (simp_all add: env(3) json_in_def has_key_def)
  then have "confirm_key (su_unseal su) env q h1 = (h1, Inl AuthenticationError)" for h1
    using d by (simp add: confirm_key_def)
  moreover have "loads (dumps (create_hello_ok sr)) = Inr (create_hello_ok sr)" by (rule json_roundtrip [OF hello_ok(2)])
  ultimately have "client_handshake (su_hkdf su) (su_unseal su) k' cr (Some (dumps (create_hello_ok sr))) (Some sealed) h1 = (h1, Inl AuthenticationError)" for h1
    using assms(11) env(1) by (simp add: client_handshake_def)
  then have "client_connect (su_hkdf su) (su_unseal su) cr (Some (dumps (create_hello_ok sr))) (Some sealed) tick wall h =
      (h\<lparr>hv_sent := hv_sent h @ [dumps (create_hello cr)]\<rparr>, Inl AuthenticationError)"
    using assms(10) by (simp add: client_connect_def)
  then show ?thesis using j(1,2,4) by (intro exI conjI) (assumption | simp)+
qed

subsection \<open>Replies\<close>

text \<open>The references of waiting requests are below the counter.\<close>

definition refs_ok :: "hvac \<Rightarrow> bool" where
  "refs_ok h \<longleftrightarrow> (\<forall>k \<in> set (dkeys (hv_pending h)). k \<le> gs_next_req_id (hv_gw h)) \<and> distinct (dkeys (hv_pending h))"

lemma refs_quiet: "quiet h h' \<Longrightarrow> refs_ok h' = refs_ok h"
  by (simp add: quiet_def refs_ok_def)

lemma refs_simps [simp]:
  "refs_ok (h\<lparr>hv_session := s\<rparr>) = refs_ok h" "refs_ok (h\<lparr>hv_sent := ts\<rparr>) = refs_ok h" "refs_ok (h\<lparr>hv_ws := b\<rparr>) = refs_ok h"
  by (simp_all add: refs_ok_def)

lemma send_shape: "client_send seal msg h = (h', r) \<Longrightarrow> \<exists>s ts. h' = h\<lparr>hv_session := s, hv_sent := ts\<rparr>"
proof -
  assume c: "client_send seal msg h = (h', r)"
  obtain t out where e: "h' = h\<lparr>hv_session := t, hv_sent := hv_sent h @ out\<rparr>" using client_send_effect [OF c] by (elim exE conjE)
  then show ?thesis by blast
qed

lemma next_ref_shape: "next_ref h = (ref, h1) \<Longrightarrow> ref = gs_next_req_id (hv_gw h) + 1 \<and> hv_pending h1 = hv_pending h \<and> gs_next_req_id (hv_gw h1) = ref"
  by (auto simp: next_ref_def Let_def)

lemma refs_next: "next_ref h = (ref, h1) \<Longrightarrow> refs_ok h \<Longrightarrow> refs_ok h1 \<and> ref \<notin> set (dkeys (hv_pending h1))"
  using next_ref_shape [of h ref h1] by (auto simp: refs_ok_def)

lemma keys_forget: "dkeys (forget ref d) = filter (\<lambda>k. k \<noteq> ref) (dkeys d)"
  by (simp add: forget_def dkeys_def filter_map comp_def)

lemma refs_forget: "refs_ok h \<Longrightarrow> refs_ok (h\<lparr>hv_pending := forget ref (hv_pending h)\<rparr>)"
  by (auto simp: refs_ok_def keys_forget)

lemma refs_register:
  assumes "next_ref h = (ref, h1)" and "refs_ok h"
  shows "refs_ok (h1\<lparr>hv_pending := dset ref Waiting (hv_pending h1)\<rparr>)"
proof -
  have n: "refs_ok h1" "ref \<notin> set (dkeys (hv_pending h1))" "gs_next_req_id (hv_gw h1) = ref"
    using refs_next [OF assms] next_ref_shape [OF assms(1)] by simp_all
  then have "\<not> has_key (hv_pending h1) ref" by (simp add: has_key_set)
  then have "dkeys (dset ref Waiting (hv_pending h1)) = dkeys (hv_pending h1) @ [ref]" by (simp add: dkeys_dset)
  then show ?thesis using n by (auto simp: refs_ok_def)
qed

lemma refs_request: "start_request seal req h = (h', r) \<Longrightarrow> refs_ok h \<Longrightarrow> refs_ok h'"
proof -
  assume s: "start_request seal req h = (h', r)" and ok: "refs_ok h"
  obtain ref h1 where n: "next_ref h = (ref, h1)" by fastforce
  let ?h2 = "h1\<lparr>hv_pending := dset ref Waiting (hv_pending h1)\<rparr>"
  obtain h3 q where c: "client_send seal (req ref) ?h2 = (h3, q)" by fastforce
  obtain t ts where h3: "h3 = ?h2\<lparr>hv_session := t, hv_sent := ts\<rparr>" using send_shape [OF c] by blast
  have "refs_ok ?h2" by (rule refs_register [OF n ok])
  then have o3: "refs_ok h3" by (simp add: h3)
  have "h' = h3 \<or> h' = h3\<lparr>hv_pending := forget ref (hv_pending h3)\<rparr>" using s n c by (cases q) (auto simp: start_request_def)
  then show ?thesis using o3 refs_forget [OF o3, of ref] by auto
qed

lemma refs_frame: "client_send_frame seal x h = (h', r) \<Longrightarrow> refs_ok h \<Longrightarrow> refs_ok h'"
proof -
  assume s: "client_send_frame seal x h = (h', r)" and ok: "refs_ok h"
  obtain ref h1 where n: "next_ref h = (ref, h1)" by fastforce
  obtain h2 q where c: "client_send seal (frame_message x ref (gs_sid (hv_gw h1))) h1 = (h2, q)" by fastforce
  obtain t ts where h2: "h2 = h1\<lparr>hv_session := t, hv_sent := ts\<rparr>" using send_shape [OF c] by blast
  show ?thesis using s n c refs_next [OF n ok] by (auto simp: client_send_frame_def h2)
qed

lemma refs_connect: "client_connect hkdf unseal cr a b tick wall h = (h', r) \<Longrightarrow> refs_ok h \<Longrightarrow> refs_ok h'"
proof -
  assume c: "client_connect hkdf unseal cr a b tick wall h = (h', r)" and ok: "refs_ok h"
  show ?thesis
  proof (cases "the_key h")
    case None
    then show ?thesis using c ok by (auto simp: client_connect_def refs_ok_def)
  next
    case (Some k)
    obtain h1 q where q: "client_handshake hkdf unseal k cr a b (h\<lparr>hv_sent := hv_sent h @ [dumps (create_hello cr)]\<rparr>) = (h1, q)" by fastforce
    have "refs_ok h1" using refs_quiet [OF client_handshake_quiet [OF q]] ok by simp
    then show ?thesis using c Some q by (cases q) (auto simp: client_connect_def refs_ok_def)
  qed
qed

lemma refs_turn: "listen_turn unseal raw h = (h', g) \<Longrightarrow> refs_ok h \<Longrightarrow> refs_ok h'"
proof -
  assume l: "listen_turn unseal raw h = (h', g)" and ok: "refs_ok h"
  obtain h1 r where r: "client_recv unseal raw h = (h1, r)" by fastforce
  obtain t where t: "h1 = h\<lparr>hv_session := t\<rparr>" using recv_effect [OF r] by (elim exE conjE)
  show ?thesis
  proof (cases r)
    case (Inl e)
    then show ?thesis using l r t ok by (auto simp: listen_turn_def)
  next
    case (Inr m)
    obtain h2 q where q: "dispatch m h1 = (h2, q)" by fastforce
    then show ?thesis using l r Inr t ok refs_quiet [OF dispatch_quiet [OF q]] by (auto simp: listen_turn_def)
  qed
qed

lemma refs_step: "client_step hkdf seal unseal h h' \<Longrightarrow> refs_ok h \<Longrightarrow> refs_ok h'"
proof (induction rule: client_step.induct)
  case (closing h)
  then show ?case by (simp add: client_close_def refs_ok_def dkeys_def)
next
  case (sending msg h h' r)
  then show ?case using send_shape by fastforce
next
  case (finishing ref h h' f)
  then show ?case using refs_forget by (auto simp: finish_request_def)
qed (auto dest: refs_connect refs_frame refs_request refs_turn)

lemma reachable_refs: "client_reachable hkdf seal unseal (new_hvac psk ne) h \<Longrightarrow> refs_ok h"
proof (induction rule: client_reachable.induct)
  case client_started
  then show ?case by (simp add: refs_ok_def new_hvac_def dkeys_def)
next
  case (client_moved h h')
  then show ?case using refs_step by blast
qed

text \<open>A message names a request by a number equal to its reference.\<close>

definition names_ref :: "json \<Rightarrow> int \<Rightarrow> bool" where
  "names_ref msg k \<longleftrightarrow> number_of_json (jget_or msg ''ref'' JNull) = Inr (Fin (of_int k))"

lemma resolve_pending:
  "dget (hv_pending (fst (resolve j f h))) k =
    (if dget (hv_pending h) k = Some Waiting \<and> number_of_json j = Inr (Fin (of_int k)) then Some f else dget (hv_pending h) k)"
proof (cases "number_of_json j = Inr (Fin (of_int k)) \<and> dget (hv_pending h) k = Some Waiting")
  case True
  then have "hashable j" by (cases j) (simp_all add: number_of_json_def hashable_def)
  moreover have "find (\<lambda>k. number_of_json j = Inr (Fin (of_int k))) (dkeys (hv_pending h)) = Some k"
  proof -
    have "k \<in> set (dkeys (hv_pending h))" using True has_key_set [of "hv_pending h" k] by (simp add: has_key_def)
    then have "find (\<lambda>k. number_of_json j = Inr (Fin (of_int k))) (dkeys (hv_pending h)) \<noteq> None" using True by (auto simp: find_None_iff)
    then obtain k' where k': "find (\<lambda>k. number_of_json j = Inr (Fin (of_int k))) (dkeys (hv_pending h)) = Some k'" by auto
    then have "number_of_json j = Inr (Fin (of_int k'))" by (auto simp: find_Some_iff)
    then show ?thesis using True k' by simp
  qed
  ultimately show ?thesis using True by (simp add: resolve_def pending_key_def)
next
  case False
  obtain h' r where r: "resolve j f h = (h', r)" by fastforce
  show ?thesis
    using r
  proof (cases rule: resolve_cases)
    case 1
    then show ?thesis using False r by auto
  next
    case (2 k')
    then have "number_of_json j = Inr (Fin (of_int k'))" by (auto simp: pending_key_def find_Some_iff split: if_splits)
    then have "k' \<noteq> k" using False 2(2) by auto
    then show ?thesis using 2 False r by auto
  qed
qed

lemma react_pending:
  "dget (hv_pending (fst (react msg h))) k =
    (if dget (hv_pending h) k = Some Waiting \<and> names_ref msg k then
       (if has_type ''subscribed'' msg \<or> has_type ''debug_dump'' msg then Some (Answered msg)
        else if has_type ''error'' msg then Some (Failed (jget_or msg ''msg'' (JStr []))) else Some Waiting)
     else dget (hv_pending h) k)"
proof -
  have hello: "hv_pending (fst (handle_hello msg h)) = hv_pending h" by (simp add: handle_hello_def Let_def split: sum.split)
  have null: "\<not> names_ref msg k" if "jget_or msg ''ref'' JNull = JNull" using that by (simp add: names_ref_def number_of_json_def)
  show ?thesis
    using hello null
    by (auto simp: react_def note_event_def resolve_pending names_ref_def has_type_def)
qed

lemma request_registers:
  assumes "start_request seal req h = (h1, Inr ref)" and "refs_ok h"
  shows "ref \<notin> set (dkeys (hv_pending h)) \<and> hv_pending h1 = dset ref Waiting (hv_pending h)"
proof -
  obtain n h2 where n: "next_ref h = (n, h2)" by fastforce
  obtain h3 q where c: "client_send seal (req n) (h2\<lparr>hv_pending := dset n Waiting (hv_pending h2)\<rparr>) = (h3, q)" by fastforce
  obtain t ts where h3: "h3 = h2\<lparr>hv_pending := dset n Waiting (hv_pending h2)\<rparr>\<lparr>hv_session := t, hv_sent := ts\<rparr>" using send_shape [OF c] by blast
  have q: "q = Inr ()" "h1 = h3" "ref = n" using assms(1) n c by (auto simp: start_request_def split: sum.splits)
  have s: "ref \<notin> set (dkeys (hv_pending h2))" "hv_pending h2 = hv_pending h"
    using refs_next [OF n assms(2)] next_ref_shape [OF n] q(3) by simp_all
  show ?thesis unfolding q(2) h3 using s q(3) by simp
qed

text \<open>C8: replies reach the request they answer: a request is registered under a reference that no waiting request has;
  a received message then settles exactly the waiting requests whose reference it names, with the answer or
  the failure it carries, and no other message settles any.\<close>

theorem replies_match_requests:
  assumes "client_reachable hkdf seal unseal (new_hvac psk ne) h" and "start_request seal req h = (h1, Inr ref)"
  shows "ref \<notin> set (dkeys (hv_pending h)) \<and> dget (hv_pending h1) ref = Some Waiting \<and>
    (\<forall>k. k \<noteq> ref \<longrightarrow> dget (hv_pending h1) k = dget (hv_pending h) k) \<and>
    (\<forall>msg h2 r k. dispatch msg h1 = (h2, r) \<longrightarrow> dget (hv_pending h2) k =
       (if dget (hv_pending h1) k = Some Waiting \<and> names_ref msg k then
          (if has_type ''subscribed'' msg \<or> has_type ''debug_dump'' msg then Some (Answered msg)
           else if has_type ''error'' msg then Some (Failed (jget_or msg ''msg'' (JStr []))) else Some Waiting)
        else dget (hv_pending h1) k))"
  using request_registers [OF assms(2) reachable_refs [OF assms(1)]] dispatch_pending react_pending by simp

subsection \<open>From the client to the bus\<close>

lemma frame_message_ok:
  assumes "wf_json sid"
  shows "wf_json (frame_message x ref sid)" "is_object (frame_message x ref sid)" "jget (frame_message x ref sid) ''type'' = Some (JStr ''frame'')"
    "jget (frame_message x ref sid) ''hex'' = Some (JStr x)" "jget (frame_message x ref sid) ''ref'' = Some (JInt ref)"
    "jget_or (frame_message x ref sid) ''ref'' JNull = JInt ref"
  using assms by (auto simp: frame_message_def dkeys_def is_object_def jget_def jget_or_def)

text \<open>C4: the way of a frame: what \<open>send_frame\<close> of a connected client puts on its socket makes the gateway queue exactly that
  frame, under the client's slot and with the reference \<open>send_frame\<close> returned, if there is room; it is written to the
  bus after the frames before it; and the client reads the acknowledgement, or the refusal when the queue is full.\<close>

theorem client_frame_reaches_bus:
  assumes "new_server config psk False dn inst v au cap n ring = Inr start" and "config_ok config" and "server_reachable su start sv"
    and "aead_ok (su_seal su) (su_unseal su)" and "linked sv ws peer" and "find_client sv ws = Some c" and "ss_tx_counter peer < 2 ^ 64"
    and "hv_ws h" and "the_key h \<noteq> None" and "hv_session h = Some peer" and "wf_json (gs_sid (hv_gw h))"
    and "fromhex (filter (\<lambda>x. x \<noteq> CHR '' '') hex) = Inr f" and "validate_frame f = Inr p"
    and "client_send_frame (su_seal su) hex h = (h', r)"
    and "room \<longleftrightarrow> (\<forall>m. queue_capacity (sv_protocol sv) = Some m \<longrightarrow> length (ua_queue (sv_protocol sv)) < m)"
  shows "\<exists>raw ref sv' answer h''. r = Inr ref \<and> hv_sent h' = hv_sent h @ [raw] \<and> sv' = on_message su host clock ws raw sv \<and>
    (if room then
       ua_queue (sv_protocol sv') = ua_queue (sv_protocol sv) @ [(f, ''ws:'' @ dec (cl_sid c), Some (JInt ref))] \<and>
       last (ua_written ((transmit_queued now ^^ Suc (length (ua_queue (sv_protocol sv)))) (sv_protocol sv'))) = f
     else sv_protocol sv' = sv_protocol sv) \<and>
    sent_to ws (sv_out sv') = sent_to ws (sv_out sv) @ [Message answer] \<and>
    client_recv (su_unseal su) answer h' =
      (h'', Inr (if room then ack_reply (JInt ref) ''queued'' else error_reply (JInt ref) ''queue full''))"
proof -
  obtain ref h1 where n: "next_ref h = (ref, h1)" by fastforce
  then have h1: "h1 = h\<lparr>hv_gw := (hv_gw h)\<lparr>gs_next_req_id := ref\<rparr>\<rparr>" by (auto simp: next_ref_def Let_def)
  let ?msg = "frame_message hex ref (gs_sid (hv_gw h))"
  note msg = frame_message_ok [OF assms(11), of hex ref]
  obtain s where s: "paired peer s" using assms(5) by (auto simp: linked_def)
  from json_encrypted [OF assms(4) s assms(7) msg(1)] obtain raw where
    raw: "encrypt_json (su_seal su) ?msg peer = (peer\<lparr>ss_tx_counter := ss_tx_counter peer + 1\<rparr>, Inr raw)" by blast
  let ?peer = "peer\<lparr>ss_tx_counter := ss_tx_counter peer + 1\<rparr>"
  have k: "the_key h1 \<noteq> None" using assms(9) by (simp add: h1)
  then have "client_send (su_seal su) ?msg h1 = (h1\<lparr>hv_session := Some ?peer, hv_sent := hv_sent h @ [raw]\<rparr>, Inr ())"
    using assms(8,10) raw by (auto simp: client_send_def h1)
  then have c: "h' = h1\<lparr>hv_session := Some ?peer, hv_sent := hv_sent h @ [raw]\<rparr>" "r = Inr ref"
    using assms(14) n by (simp_all add: client_send_frame_def h1)
  have ok: "wf_json (jget_or ?msg ''ref'' JNull)" by (simp add: msg(6))
  have out: "\<not> hv_no_encrypt h" using assms(9) by (auto simp: the_key_def)
  let ?sv' = "on_message su host clock ws raw sv"
  from frame_request [OF assms(1-6) msg(1-4) assms(12,13) ok assms(7) raw refl assms(15), of host clock now] obtain answer peer'' where
    q: "if room then
      \<exists>r. ua_queue (sv_protocol ?sv') = ua_queue (sv_protocol sv) @ [(f, ''ws:'' @ dec (cl_sid c), r)] \<and>
        (r = None \<longleftrightarrow> jget_or ?msg ''ref'' JNull = JNull) \<and> (\<forall>x. r = Some x \<longrightarrow> jget ?msg ''ref'' = Some x) \<and>
        last (ua_written ((transmit_queued now ^^ Suc (length (ua_queue (sv_protocol sv)))) (sv_protocol ?sv'))) = f
      else sv_protocol ?sv' = sv_protocol sv" and
    a: "sent_to ws (sv_out ?sv') = sent_to ws (sv_out sv) @ [Message answer]"
      "decrypt_json (su_unseal su) answer ?peer = (peer'', Inr (if room then ack_reply (JInt ref) ''queued'' else error_reply (JInt ref) ''queue full''))"
    unfolding msg(6) by blast
  have q': "if room then
       ua_queue (sv_protocol ?sv') = ua_queue (sv_protocol sv) @ [(f, ''ws:'' @ dec (cl_sid c), Some (JInt ref))] \<and>
       last (ua_written ((transmit_queued now ^^ Suc (length (ua_queue (sv_protocol sv)))) (sv_protocol ?sv'))) = f
     else sv_protocol ?sv' = sv_protocol sv"
    using q by (cases room) (auto simp: msg(5,6))
  have "client_recv (su_unseal su) answer h' = (h'\<lparr>hv_session := Some peer''\<rparr>,
      Inr (if room then ack_reply (JInt ref) ''queued'' else error_reply (JInt ref) ''queue full''))"
    using a(2) out by (simp add: client_recv_def c(1) h1 is_object_def ack_reply_def error_reply_def)
  then show ?thesis using c q' a(1) by (intro exI [of _ raw] exI [of _ ref] exI [of _ ?sv'] exI [of _ answer]) (simp add: h1)
qed

subsection \<open>Witnesses of the client\<close>

theorem never_in_the_clear_witness:
  "\<exists>h t. client_reachable demo_hkdf demo_seal demo_unseal (new_hvac (Some [1]) False) h \<and> hv_sent h = [t] \<and>
    ((\<exists>r. t = dumps (create_hello r)) \<or> (\<exists>j s s'. encrypt_json demo_seal j s = (s', Inr t)))"
proof -
  let ?h = "new_hvac (Some [1]) False"
  let ?t = "dumps (create_hello [7])"
  let ?h' = "?h\<lparr>hv_sent := [?t]\<rparr>"
  have "client_connect demo_hkdf demo_unseal [7] None None 0 0 ?h = (?h', Inl ConnectionError)"
    by (simp add: client_connect_def the_key_def new_hvac_def client_handshake_def)
  from client_moved [OF client_started connecting [OF this], of demo_seal] have
    r: "client_reachable demo_hkdf demo_seal demo_unseal ?h ?h'" .
  from never_in_the_clear [OF r] show ?thesis using r by (intro exI [of _ ?h'] exI [of _ ?t]) simp
qed

text \<open>The gateway before the hello of connection 7.\<close>

lemma demo_acquire: "acquire (sv_pool (open_connection 7 demo_start)) = (\<lparr>sp_size = 4, sp_in_use = [0]\<rparr>, Inr 0)"
  by (simp add: open_connection_def demo_start_def acquire_def upt_rec)

lemma demo_opened:
  "\<not> sv_no_encrypt (open_connection 7 demo_start)" "sv_psk (open_connection 7 demo_start) = ''key''"
  "sv_psk_bytes (open_connection 7 demo_start) \<in> {None, Some k}" "find_client (open_connection 7 demo_start) 7 = None"
  by (simp_all add: open_connection_def demo_start_def find_client_def)

lemma key_bytes: "psk_to_bytes (\<lambda>salt p. p) ''key'' = Inr (bytes_of_text ''key'')" "bytes_of_text ''key'' = [107, 101, 121]"
proof -
  have "strip ''key'' = ''key''" by (simp add: strip_def str_space_def is_space_def)
  then show "psk_to_bytes (\<lambda>salt p. p) ''key'' = Inr (bytes_of_text ''key'')" by (simp add: psk_to_bytes_def)
  show "bytes_of_text ''key'' = [107, 101, 121]" by code_simp
qed

theorem client_joins_gateway_witness:
  "\<exists>sv' reply first h' peer. sv' = end_handshake demo_suite ([], []) ''1.5'' 7 (replicate 512 9)
      (Hello_text (dumps (create_hello (replicate 512 8))) True) [] (open_connection 7 demo_start) \<and>
    client_connect demo_hkdf demo_unseal (replicate 512 8) (Some reply) (Some first) 0 0 (new_hvac (Some [107, 101, 121]) False) = (h', Inr ()) \<and>
    gs_sid (hv_gw h') = JInt 0 \<and> hv_session h' = Some peer \<and> linked sv' 7 peer"
proof -
  have t: "scan_literal ''1.5'' = Some (JFloat ''1.5'', [])" "is_ascii ''1.5''" by code_simp+
  have k: "psk_to_bytes (su_scrypt demo_suite) ''key'' = Inr [107, 101, 121]" using key_bytes by (simp add: demo_suite_def)
  have h: "the_key (new_hvac (Some [107, 101, 121]) False) = Some [107, 101, 121]" by (simp add: the_key_def new_hvac_def)
  have l: "length (replicate 512 (8 :: byte)) = RAND_SIZE" "length (replicate 512 (9 :: byte)) = RAND_SIZE" by (simp_all add: RAND_SIZE_def)
  from client_joins_gateway [OF k l demo_opened(1,2,3,4) demo_acquire refl demo_suite_ok h t, of "([], [])" "[]" 0 0]
  show ?thesis by (simp add: demo_suite_def) metis
qed

text \<open>A cipher whose seal shows the key.\<close>

definition marked_seal :: seal where
  "marked_seal k n p = p @ take 16 (k @ replicate 16 0)"

definition marked_unseal :: unseal where
  "marked_unseal k n d = (if drop (length d - 16) d = take 16 (k @ replicate 16 0) then Inr (take (length d - 16) d) else Inl InvalidTag)"

definition marked_suite :: suite where
  "marked_suite = demo_suite\<lparr>su_seal := marked_seal, su_unseal := marked_unseal, su_hkdf := (\<lambda>secret salt info n. replicate n (hd secret))\<rparr>"

lemma marked_refuses: "marked_unseal (replicate 32 a) n (marked_seal (replicate 32 b) n' p) = Inl InvalidTag" if "a \<noteq> b"
  using that by (simp add: marked_unseal_def marked_seal_def)

theorem wrong_key_refused_witness:
  "\<exists>sv' reply first h' c. sv' = end_handshake marked_suite ([], []) ''1.5'' 7 (replicate 512 9)
      (Hello_text (dumps (create_hello (replicate 512 8))) True) [] (open_connection 7 demo_start) \<and>
    client_connect (su_hkdf marked_suite) (su_unseal marked_suite) (replicate 512 8) (Some reply) (Some first) 0 0 (new_hvac (Some [1]) False) =
      (h', Inl AuthenticationError) \<and> find_client sv' 7 = Some c"
proof -
  have k: "psk_to_bytes (su_scrypt marked_suite) ''key'' = Inr [107, 101, 121]" using key_bytes by (simp add: marked_suite_def demo_suite_def)
  have h: "the_key (new_hvac (Some [1]) False) = Some [1]" by (simp add: the_key_def new_hvac_def)
  have l: "length (replicate 512 (8 :: byte)) = RAND_SIZE" "length (replicate 512 (9 :: byte)) = RAND_SIZE" by (simp_all add: RAND_SIZE_def)
  let ?client = "new_session (replicate 32 1) (replicate 4 1) (replicate 32 1) (replicate 4 1)"
  let ?server = "new_session (replicate 32 107) (replicate 4 107) (replicate 32 107) (replicate 4 107)"
  have q: "complete_handshake_client (su_hkdf marked_suite) [1] (replicate 512 8) (create_hello_ok (replicate 512 9)) = Inr ?client"
    by (simp add: complete_handshake_client_def create_hello_ok_def is_object_def has_type_def jget_def jitem_def RAND_SIZE_def
        derive_session_def derive_direction_def marked_suite_def Let_def)
  have s: "complete_handshake_server (su_hkdf marked_suite) [107, 101, 121] (create_hello (replicate 512 8)) (replicate 512 9) = Inr ?server"
    by (simp add: complete_handshake_server_def create_hello_def is_object_def has_type_def jget_def jitem_def RAND_SIZE_def equals_int_def
        number_of_json_def PROTOCOL_VERSION_def derive_session_def derive_direction_def marked_suite_def Let_def)
  have u: "su_unseal marked_suite (ss_rx_key ?client) n (su_seal marked_suite (ss_tx_key ?server) n' p) = Inl InvalidTag" for n n' p
    using marked_refuses [of 1 107 n n' p] by (simp add: marked_suite_def new_session_def)
  from wrong_key_refused [OF k l demo_opened(1,2,3,4) demo_acquire refl h q s u, of "([], [])" "''1.5''" "[]" 0 0]
  show ?thesis by blast
qed

theorem replies_match_requests_witness:
  "\<exists>h h1 msg h2 r. client_reachable demo_hkdf demo_seal demo_unseal (new_hvac None False) h \<and>
    request_debug_dump demo_seal h = (h1, Inr 1) \<and> dget (hv_pending h1) 1 = Some Waiting \<and>
    msg = JObj [(''type'', JStr ''debug_dump''), (''ref'', JInt 1)] \<and> dispatch msg h1 = (h2, r) \<and> dget (hv_pending h2) 1 = Some (Answered msg)"
proof -
  let ?h0 = "new_hvac None False"
  obtain h where c: "client_connect demo_hkdf demo_unseal [] None None 0 0 ?h0 = (h, Inr ())" "hv_ws h" "the_key h = None"
      "gs_next_req_id (hv_gw h) = 0"
    by (simp add: client_connect_def the_key_def new_hvac_def new_gw_session_def)
  from client_moved [OF client_started connecting [OF c(1)], of demo_seal] have
    r: "client_reachable demo_hkdf demo_seal demo_unseal ?h0 h" .
  let ?dump = "\<lambda>ref. JObj [(''type'', JStr ''debug_dump''), (''ref'', JInt ref)]"
  obtain h1 where s: "start_request demo_seal ?dump h = (h1, Inr 1)"
    using c(2-4) by (simp add: start_request_def next_ref_def Let_def client_send_def)
  obtain h2 q where d: "dispatch (?dump 1) h1 = (h2, q)" by fastforce
  have "names_ref (?dump 1) 1" "has_type ''debug_dump'' (?dump 1)"
    by (simp_all add: names_ref_def jget_or_def jget_def number_of_json_def has_type_def)
  moreover have "dget (hv_pending h1) 1 = Some Waiting" using replies_match_requests [OF r s] by blast
  moreover note replies_match_requests [OF r s, THEN conjunct2, THEN conjunct2, THEN conjunct2, rule_format, OF d, of 1]
  ultimately have "dget (hv_pending h1) 1 = Some Waiting" "dget (hv_pending h2) 1 = Some (Answered (?dump 1))" by simp_all
  then show ?thesis using r s d unfolding request_debug_dump_def by blast
qed

theorem client_frame_reaches_bus_witness:
  "\<exists>sv h h' f raw ref sv'. server_reachable demo_suite demo_start sv \<and> client_send_frame demo_seal (hex_spaced f) h = (h', Inr ref) \<and>
    hv_sent h' = [raw] \<and> sv' = on_message demo_suite demo_host ([], []) 7 raw sv \<and>
    ua_queue (sv_protocol sv') = [(f, ''ws:'' @ dec 0, Some (JInt ref))] \<and> last (ua_written (transmit_queued 5 (sv_protocol sv'))) = f"
proof -
  obtain sv c peer where j: "server_reachable demo_suite demo_start sv" "find_client sv 7 = Some c" "cl_sid c = 0"
      "ss_tx_counter peer = 0" "linked sv 7 peer" "sv_protocol sv = new_uart dongle True" by (rule demo_joins)
  obtain f p where f: "validate_frame f = Inr p" using demo_frame by blast
  let ?h = "(new_hvac (Some [1]) False)\<lparr>hv_ws := True, hv_session := Some peer\<rparr>"
  have h: "hv_ws ?h" "the_key ?h \<noteq> None" "hv_session ?h = Some peer" "wf_json (gs_sid (hv_gw ?h))" "hv_sent ?h = []"
    by (simp_all add: the_key_def new_hvac_def new_gw_session_def)
  have tx: "ss_tx_counter peer < 2 ^ 64" using j(4) by simp
  obtain h' r where s: "client_send_frame (su_seal demo_suite) (hex_spaced f) ?h = (h', r)" by fastforce
  have q: "ua_queue (sv_protocol sv) = []" "True \<longleftrightarrow> (\<forall>m. queue_capacity (sv_protocol sv) = Some m \<longrightarrow> length (ua_queue (sv_protocol sv)) < m)"
    by (simp_all add: j(6) new_uart_def queue_capacity_def dongle_def)
  from client_frame_reaches_bus [OF demo_starts dongle_ok j(1) demo_suite_ok j(5,2) tx h(1-4) fromhex_hex f s q(2), of demo_host "([], [])" 5]
  obtain raw ref sv' where "r = Inr ref" "hv_sent h' = hv_sent ?h @ [raw]" "sv' = on_message demo_suite demo_host ([], []) 7 raw sv"
      "ua_queue (sv_protocol sv') = ua_queue (sv_protocol sv) @ [(f, ''ws:'' @ dec (cl_sid c), Some (JInt ref))]"
      "last (ua_written ((transmit_queued 5 ^^ Suc (length (ua_queue (sv_protocol sv)))) (sv_protocol sv'))) = f" by auto
  then have "r = Inr ref" "hv_sent h' = [raw]" "sv' = on_message demo_suite demo_host ([], []) 7 raw sv"
      "ua_queue (sv_protocol sv') = [(f, ''ws:'' @ dec 0, Some (JInt ref))]" "last (ua_written (transmit_queued 5 (sv_protocol sv'))) = f"
    using h(5) q(1) j(3) by simp_all
  moreover have "su_seal demo_suite = demo_seal" by (simp add: demo_suite_def)
  ultimately show ?thesis using j(1) s by metis
qed

text \<open>The docstring of \<open>GatewaySession\<close> says that commands omit the slot until the hello has arrived.  The client keeps
  one \<open>GatewaySession\<close> for its life: without encryption, where \<open>connect\<close> does not wait for the hello, frames sent
  after a reconnection carry the slot of the connection before.\<close>

theorem stale_slot_sent:
  assumes "the_key h = None" and "gs_sid (hv_gw h) = JInt sid"
  shows "\<exists>h1 h2 ref. client_connect hkdf unseal cr a b tick wall (client_close h) = (h1, Inr ()) \<and>
    client_send_frame seal x h1 = (h2, Inr ref) \<and>
    hv_sent h2 = hv_sent h @ [dumps (JObj [(''type'', JStr ''frame''), (''hex'', JStr x), (''ref'', JInt ref), (''sid'', JInt sid)])]"
proof -
  have "the_key (client_close h) = None" using assms(1) by (simp add: the_key_def client_close_def split: if_splits)
  then show ?thesis
    using assms by (simp add: client_connect_def client_send_frame_def next_ref_def Let_def client_send_def frame_message_def the_key_def client_close_def split: if_splits)
qed

end
