(* ===== verification/Override.thy ===== *)
theory Override
  imports Json
begin

section \<open>Glossary overrides (\<open>core/glossary_override.py\<close>)\<close>

text \<open>
  A user patches the glossary with a partial tree of the same shape.  \<open>deep_merge\<close> merges the trees,
  \<open>sanitize_override\<close> strips the protected keys, \<open>gate_excluded\<close> decides by the reasons of an
  excluded field whether its patch is merged, and every event is a message.

  The trees are what the YAML loader returns, as values of type \<^typ>\<open>json\<close>; keys are strings.  Python's
  \<open>==\<close> on them is \<open>json_eq\<close>: \<open>True == 1 == 1.0\<close>, dictionaries without regard to order.
  The texts of the messages are UTF-8 (they contain a dash).

  Lemmas: what a merge makes of each key, which changes are reported, that merging twice changes nothing
  more, and what the gate protects.
\<close>

subsection \<open>Equality\<close>

definition json_num :: "json \<Rightarrow> pynum option" where
  "json_num j =
     (case j of
        JInt i \<Rightarrow> Some (Fin (of_int i))
      | JBool b \<Rightarrow> Some (Fin (if b then 1 else 0))
      | JFloat l \<Rightarrow> Some (float_value l)
      | _ \<Rightarrow> None)"

definition scalar_eq :: "json \<Rightarrow> json \<Rightarrow> bool" where
  "scalar_eq a b =
     (case (a, b) of
        (JNull, JNull) \<Rightarrow> True
      | (JStr s, JStr t) \<Rightarrow> s = t
      | _ \<Rightarrow> (case (json_num a, json_num b) of (Some x, Some y) \<Rightarrow> x = y \<and> x \<noteq> Nan | _ \<Rightarrow> False))"

fun json_eq :: "json \<Rightarrow> json \<Rightarrow> bool"
    and list_eq :: "json list \<Rightarrow> json list \<Rightarrow> bool"
    and subdict :: "(string \<times> json) list \<Rightarrow> (string \<times> json) list \<Rightarrow> bool" where
  "json_eq (JList xs) b = (case b of JList ys \<Rightarrow> list_eq xs ys | _ \<Rightarrow> False)"
| "json_eq (JObj d) b = (case b of JObj e \<Rightarrow> length d = length e \<and> subdict d e | _ \<Rightarrow> False)"
| "json_eq a b = scalar_eq a b"
| "list_eq [] ys = (ys = [])"
| "list_eq (x # xs) ys = (case ys of [] \<Rightarrow> False | y # ys' \<Rightarrow> json_eq x y \<and> list_eq xs ys')"
| "subdict [] e = True"
| "subdict ((k, v) # d) e = ((case dget e k of None \<Rightarrow> False | Some w \<Rightarrow> json_eq v w) \<and> subdict d e)"

definition json_truthy :: "json \<Rightarrow> bool" where
  "json_truthy j =
     (case j of
        JNull \<Rightarrow> False
      | JStr s \<Rightarrow> s \<noteq> []
      | JList xs \<Rightarrow> xs \<noteq> []
      | JObj d \<Rightarrow> d \<noteq> []
      | _ \<Rightarrow> json_num j \<noteq> Some (Fin 0))"

subsection \<open>Merging\<close>

definition REMOVE_SENTINEL :: string where "REMOVE_SENTINEL = ''_remove''"

definition is_removal :: "json \<Rightarrow> bool" where
  "is_removal v = (case v of JObj d \<Rightarrow> dget d REMOVE_SENTINEL = Some (JBool True) | _ \<Rightarrow> False)"

definition ddel :: "'k \<Rightarrow> ('k, 'v) dict \<Rightarrow> ('k, 'v) dict" where  \<comment> \<open>\<open>del d[k]\<close> of a key that is there\<close>
  "ddel k d = filter (\<lambda>x. fst x \<noteq> k) d"

definition sub_path :: "string \<Rightarrow> string \<Rightarrow> string" where
  "sub_path path key = (if path = [] then key else path @ ''.'' @ key)"

fun mark_leaves :: "string \<Rightarrow> json \<Rightarrow> string list"
    and mark_pairs :: "string \<Rightarrow> (string \<times> json) list \<Rightarrow> string list" where
  "mark_leaves path (JObj d) = (if d = [] then [path] else mark_pairs path d)"
| "mark_leaves path v = [path]"
| "mark_pairs path [] = []"
| "mark_pairs path ((k, v) # d) = mark_leaves (path @ ''.'' @ k) v @ mark_pairs path d"

text \<open>The target and the affected paths are passed through the loop over the source; \<open>merge_value\<close> is its body.\<close>

type_synonym merge_state = "(string, json) dict \<times> string list"

fun merge_in_place :: "string \<Rightarrow> (string \<times> json) list \<Rightarrow> merge_state \<Rightarrow> merge_state"
    and merge_value :: "string \<Rightarrow> string \<Rightarrow> json \<Rightarrow> merge_state \<Rightarrow> merge_state" where
  "merge_in_place path [] st = st"
| "merge_in_place path ((key, src) # source) st = merge_in_place path source (merge_value (sub_path path key) key src st)"
| "merge_value p key (JObj sd) (target, affected) =
     (if is_removal (JObj sd) then
        (if has_key target key then (ddel key target, affected @ [p]) else (target, affected))
      else case dget target key of
             None \<Rightarrow> (dset key (JObj sd) target, affected @ mark_leaves p (JObj sd))
           | Some (JObj td) \<Rightarrow> (case merge_in_place p sd (td, affected) of (td', affected') \<Rightarrow> (dset key (JObj td') target, affected'))
           | Some old \<Rightarrow> if json_eq old (JObj sd) then (target, affected) else (dset key (JObj sd) target, affected @ [p]))"
| "merge_value p key src (target, affected) =
     (case dget target key of
        None \<Rightarrow> (dset key src target, affected @ mark_leaves p src)
      | Some old \<Rightarrow> if json_eq old src then (target, affected) else (dset key src target, affected @ [p]))"

definition deep_merge :: "(string, json) dict \<Rightarrow> (string, json) dict \<Rightarrow> (string, json) dict \<times> string list" where
  "deep_merge base override = (if override = [] then (base, []) else merge_in_place [] override (base, []))"

subsection \<open>Messages\<close>

datatype severity = Info | Warning | Error

record override_message =
  om_severity :: severity
  om_code :: string
  om_field :: "string option"
  om_reasons :: "string list"
  om_message :: string

definition PROTECTED_KEYS :: "string list" where "PROTECTED_KEYS = [''meta'']"

definition REJECT_REASONS :: "string list" where
  "REJECT_REASONS = [''protocol_inert'', ''unknown_semantic'', ''unsafe_write'']"

definition CAVEAT_REASONS :: "string list" where
  "CAVEAT_REASONS = [''decode_unverified'', ''unknown_technical_background'', ''never_observed'', ''never_tested_write'']"

text \<open>\<open>repr\<close> of a string.\<close>

definition repr_char :: "char \<Rightarrow> char \<Rightarrow> string" where
  "repr_char quote c =
     (let n = (of_char c :: nat)
      in if c = quote \<or> c = CHR 0x5C then [CHR 0x5C, c]
         else if c = CHR 0x0A then [CHR 0x5C, CHR ''n'']
         else if c = CHR 0x0D then [CHR 0x5C, CHR ''r'']
         else if c = CHR 0x09 then [CHR 0x5C, CHR ''t'']
         else if (32 \<le> n \<and> n < 127) \<or> (161 \<le> n \<and> n \<noteq> 173) then [c]
         else [CHR 0x5C, CHR ''x'', lower_char (hex_digit (n div 16)), lower_char (hex_digit (n mod 16))])"

definition repr_str :: "string \<Rightarrow> string" where
  "repr_str s =
     (let quote = (if CHR 0x27 \<in> set s \<and> CHR 0x22 \<notin> set s then CHR 0x22 else CHR 0x27)
      in [quote] @ concat (map (repr_char quote) s) @ [quote])"

definition protected_message :: "string \<Rightarrow> override_message" where
  "protected_message k =
     \<lparr>om_severity = Warning, om_code = ''protected_key'', om_field = None, om_reasons = [],
      om_message = ''Ignoring protected top-level key: '' @ repr_str k @ '' (overrides must not modify '' @ k @ '')''\<rparr>"

definition sanitize_override :: "(string, json) dict \<Rightarrow> (string, json) dict \<times> override_message list" where
  "sanitize_override override =
     (filter (\<lambda>(k, v). k \<notin> set PROTECTED_KEYS) override,
      map (protected_message \<circ> fst) (filter (\<lambda>(k, v). k \<in> set PROTECTED_KEYS) override))"

subsection \<open>The gate of excluded fields\<close>

datatype gate_outcome = Accepted | Caveat | Rejected

definition classify_reasons :: "string list \<Rightarrow> gate_outcome" where
  "classify_reasons rs =
     (if set rs \<inter> set REJECT_REASONS \<noteq> {} then Rejected
      else if set rs \<inter> set CAVEAT_REASONS \<noteq> {} then Caveat
      else Accepted)"

text \<open>\<open>[r for r in (j or []) if isinstance(r, str)]\<close>\<close>

definition reasons_of :: "json option \<Rightarrow> string list res" where
  "reasons_of j =
     (case j of
        None \<Rightarrow> Inr []
      | Some j \<Rightarrow>
          (if \<not> json_truthy j then Inr []
           else case j of
                  JList xs \<Rightarrow> Inr (concat (map (\<lambda>x. case x of JStr s \<Rightarrow> [s] | _ \<Rightarrow> []) xs))
                | JStr s \<Rightarrow> Inr (map (\<lambda>c. [c]) s)
                | JObj d \<Rightarrow> Inr (dkeys d)
                | _ \<Rightarrow> Inl TypeError))"

definition field_path :: "string \<Rightarrow> string \<Rightarrow> string" where
  "field_path cat name = ''fields.'' @ cat @ ''.'' @ name"

definition or_none :: "string \<Rightarrow> string" where
  "or_none s = (if s = [] then ''<no reasons>'' else s)"

definition gate_message :: "string \<Rightarrow> string \<Rightarrow> string list \<Rightarrow> override_message" where
  "gate_message cat name rs =
     (case classify_reasons rs of
        Rejected \<Rightarrow>
          \<lparr>om_severity = Error, om_code = ''excluded_rejected'', om_field = Some (field_path cat name), om_reasons = rs,
           om_message = ''override rejected: '' @ repr_str name @ '' is excluded for '' @ or_none (join_with '', '' rs) @
             '' '' @ [CHR 0xE2, CHR 0x80, CHR 0x94] @ '' at least one reason cannot be overridden via YAML''\<rparr>
      | Caveat \<Rightarrow>
          \<lparr>om_severity = Warning, om_code = ''excluded_caveat'', om_field = Some (field_path cat name), om_reasons = rs,
           om_message = ''override accepted with caveat: '' @ repr_str name @ '' is excluded for '' @ join_with '', '' rs @
             '' '' @ [CHR 0xE2, CHR 0x80, CHR 0x94] @ '' surfaced behaviour may be unverified''\<rparr>
      | Accepted \<Rightarrow>
          \<lparr>om_severity = Info, om_code = ''excluded_accepted'', om_field = Some (field_path cat name), om_reasons = rs,
           om_message = ''override accepted: '' @ repr_str name @ '' is excluded for '' @ or_none (join_with '', '' rs)\<rparr>)"

text \<open>The reasons of a base field that is excluded; \<open>None\<close> for any other.\<close>

definition excluded_reasons :: "json option \<Rightarrow> string list option res" where
  "excluded_reasons base_field =
     (case base_field of
        Some (JObj d) \<Rightarrow>
          (if dget d ''feature_available'' = Some (JStr ''excluded'')
           then bind_res (reasons_of (dget d ''excluded_reasons'')) (\<lambda>rs. Inr (Some rs)) else Inr None)
      | _ \<Rightarrow> Inr None)"

text \<open>One category: the patch without the rejected fields, and the messages.\<close>

fun gate_fields :: "string \<Rightarrow> (string, json) dict \<Rightarrow> (string \<times> json) list \<Rightarrow> ((string, json) dict \<times> override_message list) res" where
  "gate_fields cat base_cat [] = Inr ([], [])"
| "gate_fields cat base_cat ((name, patch) # rest) =
     bind_res (excluded_reasons (dget base_cat name)) (\<lambda>x.
     bind_res (gate_fields cat base_cat rest) (\<lambda>(kept, msgs).
       case x of
         None \<Rightarrow> Inr ((name, patch) # kept, msgs)
       | Some rs \<Rightarrow>
           Inr (if classify_reasons rs = Rejected then kept else (name, patch) # kept, gate_message cat name rs # msgs)))"

definition gate_category :: "string \<Rightarrow> json option \<Rightarrow> json \<Rightarrow> (json \<times> override_message list) res" where
  "gate_category cat base_cat patch =
     (case (patch, base_cat) of
        (JObj cat_patch, Some (JObj bc)) \<Rightarrow>
          bind_res (gate_fields cat bc cat_patch) (\<lambda>(kept, msgs). Inr (JObj kept, msgs))
      | _ \<Rightarrow> Inr (patch, []))"

fun gate_categories ::
    "(string, json) dict \<Rightarrow> (string \<times> json) list \<Rightarrow> ((string, json) dict \<times> override_message list) res" where
  "gate_categories base_fields [] = Inr ([], [])"
| "gate_categories base_fields ((cat, patch) # rest) =
     bind_res (gate_category cat (dget base_fields cat) patch) (\<lambda>(patch', msgs).
     bind_res (gate_categories base_fields rest) (\<lambda>(kept, msgs'). Inr ((cat, patch') # kept, msgs @ msgs')))"

definition gate_excluded ::
    "(string, json) dict \<Rightarrow> (string, json) dict \<Rightarrow> ((string, json) dict \<times> override_message list) res" where
  "gate_excluded base override =
     (case dget override ''fields'' of
        Some (JObj patches) \<Rightarrow>
          bind_res (gate_categories (case dget base ''fields'' of Some (JObj d) \<Rightarrow> d | _ \<Rightarrow> []) patches)
            (\<lambda>(kept, msgs). Inr (dset ''fields'' (JObj kept) override, msgs))
      | _ \<Rightarrow> Inr (override, []))"

definition apply_override ::
    "(string, json) dict \<Rightarrow> (string, json) dict \<Rightarrow> ((string, json) dict \<times> string list \<times> override_message list) res" where
  "apply_override base override =
     (case sanitize_override override of
        (clean, msgs) \<Rightarrow>
          bind_res (gate_excluded base clean) (\<lambda>(clean, gating).
            case deep_merge base clean of (merged, affected) \<Rightarrow> Inr (merged, affected, msgs @ gating)))"

subsection \<open>What a merge makes of each key\<close>

lemma dget_ddel [simp]: "dget (ddel k d) k' = (if k' = k then None else dget d k')"
  by (induction d) (auto simp: ddel_def)

text \<open>The value under a key, from the patch's value and the old one.\<close>

definition merged_value :: "json \<Rightarrow> json option \<Rightarrow> json option" where
  "merged_value v old =
     (if is_removal v then None
      else case old of
             None \<Rightarrow> Some v
           | Some (JObj td) \<Rightarrow>
               (case v of
                  JObj sd \<Rightarrow> Some (JObj (fst (merge_in_place [] sd (td, []))))
                | _ \<Rightarrow> Some (if json_eq (JObj td) v then JObj td else v))
           | Some o1 \<Rightarrow> Some (if json_eq o1 v then o1 else v))"

lemma merge_tree_only:
  "\<forall>p' a' d a. st = (d, a) \<longrightarrow> fst (merge_in_place p' source (d, a')) = fst (merge_in_place p source st)"
  "\<forall>p' a' d a. st = (d, a) \<longrightarrow> fst (merge_value p' key src (d, a')) = fst (merge_value p key src st)"
proof (induction p source st and p key src st rule: merge_in_place_merge_value.induct)
  case (1 path st)
  then show ?case by simp
next
  case (2 path key src source st)
  show ?case
  proof (intro allI impI)
    fix p' a' d a
    assume st: "st = (d, a)"
    obtain d1 a1 where 1: "merge_value (sub_path path key) key src st = (d1, a1)" by fastforce
    obtain d2 a2 where 2: "merge_value (sub_path p' key) key src (d, a') = (d2, a2)" by fastforce
    have "d2 = d1" using 2 1 "2.IH"(1) st by (metis fst_conv)
    then show "fst (merge_in_place p' ((key, src) # source) (d, a')) = fst (merge_in_place path ((key, src) # source) st)"
      using 1 2 "2.IH"(2) by simp
  qed
next
  case (3 p key sd target affected)
  show ?case
  proof (intro allI impI)
    fix p' a' d a
    assume "(target, affected) = (d, a)"
    then have d: "d = target" "a = affected" by simp_all
    show "fst (merge_value p' key (JObj sd) (d, a')) = fst (merge_value p key (JObj sd) (target, affected))"
    proof (cases "is_removal (JObj sd)")
      case True
      then show ?thesis by (simp add: d)
    next
      case False
      show ?thesis
      proof (cases "dget target key")
        case None
        then show ?thesis using False by (simp add: d)
      next
        case (Some old)
        show ?thesis
        proof (cases old)
          case (JObj td)
          obtain e1 b1 where 1: "merge_in_place p sd (td, affected) = (e1, b1)" by fastforce
          obtain e2 b2 where 2: "merge_in_place p' sd (td, a') = (e2, b2)" by fastforce
          have "e2 = e1" using "3.IH" [OF False Some JObj] 1 2 by (metis fst_conv)
          then show ?thesis using False Some JObj 1 2 by (simp add: d)
        qed (use False Some in \<open>simp_all add: d\<close>)
      qed
    qed
  qed
qed (simp_all split: option.splits)

lemma merge_tree: "fst (merge_in_place p s (d, a)) = fst (merge_in_place [] s (d, []))"
  using merge_tree_only(1) [where st = "(d, [])" and p = "[]" and source = s] by blast

lemma merge_value_lookup:
  "dget (fst (merge_value p key v (d, a))) k = (if k = key then merged_value v (dget d key) else dget d k)"
proof (cases v)
  case (JObj sd)
  show ?thesis
  proof (cases "is_removal v")
    case True
    then show ?thesis using JObj by (auto simp: merged_value_def has_key_def)
  next
    case False
    show ?thesis
    proof (cases "dget d key")
      case None
      then show ?thesis using JObj False by (simp add: merged_value_def)
    next
      case (Some old)
      show ?thesis
      proof (cases old)
        case o1: (JObj td)
        obtain e b where "merge_in_place p sd (td, a) = (e, b)" by fastforce
        then show ?thesis using JObj False Some o1 merge_tree [of p sd td a] by (simp add: merged_value_def)
      qed (use JObj False Some in \<open>simp_all add: merged_value_def\<close>)
    qed
  qed
qed (auto simp: merged_value_def is_removal_def split: option.splits json.splits)

lemma merge_lookup:
  "distinct (dkeys s) \<Longrightarrow> dget (fst (merge_in_place p s (d, a))) k = (case dget s k of None \<Rightarrow> dget d k | Some v \<Rightarrow> merged_value v (dget d k))"
proof (induction s arbitrary: d a)
  case Nil
  then show ?case by simp
next
  case (Cons x s)
  obtain key v where x: "x = (key, v)" by (cases x)
  obtain d1 a1 where 1: "merge_value (sub_path p key) key v (d, a) = (d1, a1)" by fastforce
  have k: "dget d1 k = (if k = key then merged_value v (dget d key) else dget d k)" for k
    using merge_value_lookup [of "sub_path p key" key v d a k] 1 by simp
  have "dget s key = None" using Cons.prems x by (simp add: dkeys_def map_of_eq_None_iff)
  moreover have "distinct (dkeys s)" using Cons.prems x by (simp add: dkeys_def)
  ultimately show ?case using Cons.IH [of d1 a1] x 1 k by (auto split: option.split)
qed

subsection \<open>What is reported\<close>

text \<open>The value at a path of keys, and the dotted form of the path below \<open>p\<close>.\<close>

fun path_get :: "json \<Rightarrow> string list \<Rightarrow> json option" where
  "path_get j [] = Some j"
| "path_get j (k # ks) = (case jget j k of None \<Rightarrow> None | Some v \<Rightarrow> path_get v ks)"

abbreviation dotted :: "string \<Rightarrow> string list \<Rightarrow> string" where
  "dotted \<equiv> foldl sub_path"

text \<open>Of two paths one goes on from the other, key by key.\<close>

fun along :: "string list \<Rightarrow> string list \<Rightarrow> bool" where
  "along (q # qs) (k # ks) \<longleftrightarrow> q = k \<and> along qs ks"
| "along _ _ \<longleftrightarrow> True"

text \<open>
  The paths that changed as a whole from one tree to another, followed through dictionaries that both
  trees have: a value that was removed, one that was replaced by a value that is not equal (unless both
  are dictionaries), and the leaves of what was added.
\<close>

definition both_dicts :: "json \<Rightarrow> json \<Rightarrow> bool" where
  "both_dicts v w = (case (v, w) of (JObj _, JObj _) \<Rightarrow> True | _ \<Rightarrow> False)"

definition is_leaf :: "json \<Rightarrow> bool" where
  "is_leaf v = (case v of JObj d \<Rightarrow> d = [] | _ \<Rightarrow> True)"

fun whole_change :: "json option \<Rightarrow> json option \<Rightarrow> string list \<Rightarrow> bool" where
  "whole_change old new [] =
     (case (old, new) of
        (None, None) \<Rightarrow> False
      | (None, Some v) \<Rightarrow> is_leaf v
      | (Some v, None) \<Rightarrow> True
      | (Some v, Some w) \<Rightarrow> \<not> both_dicts v w \<and> \<not> json_eq v w)"
| "whole_change old new (k # ks) =
     (case (old, new) of
        (Some (JObj d), Some (JObj e)) \<Rightarrow> whole_change (dget d k) (dget e k) ks
      | (None, Some (JObj e)) \<Rightarrow> whole_change None (dget e k) ks
      | _ \<Rightarrow> False)"

text \<open>Trees whose dictionaries have distinct keys, none of them empty.\<close>

fun named :: "json \<Rightarrow> bool"
    and named_pairs :: "(string \<times> json) list \<Rightarrow> bool" where
  "named (JObj d) = (distinct (dkeys d) \<and> [] \<notin> set (dkeys d) \<and> named_pairs d)"
| "named j = True"
| "named_pairs [] = True"
| "named_pairs ((k, v) # d) = (named v \<and> named_pairs d)"

abbreviation below :: "json option \<Rightarrow> string list \<Rightarrow> json option" where
  "below v ks \<equiv> (case v of None \<Rightarrow> None | Some w \<Rightarrow> path_get w ks)"

lemma along_Nil [simp]: "along [] ks" "along ks []"
  by (cases ks; simp)+

lemma whole_change_None [simp]: "\<not> whole_change None None ks"
  by (cases ks) simp_all

lemma jget_dict [simp]: "jget (JObj d) k = dget d k"
  by (simp add: jget_def)

definition all_along :: "string list list \<Rightarrow> (string list \<Rightarrow> bool) \<Rightarrow> bool" where
  "all_along new P \<longleftrightarrow> (\<forall>ks. P ks \<longrightarrow> (\<exists>r \<in> set new. along r ks))"

lemma all_along_mono: "all_along new P \<Longrightarrow> set new \<subseteq> set new' \<Longrightarrow> (\<And>ks. Q ks \<Longrightarrow> P ks) \<Longrightarrow> all_along new' Q"
  unfolding all_along_def by blast

lemma all_along_whole: "all_along (r # new) P" if "r = []"
  using that by (simp add: all_along_def)

text \<open>\<open>mark_leaves\<close> lists the leaves of a new subtree.\<close>

lemma marks_report:
  "named v \<longrightarrow> p \<noteq> [] \<longrightarrow> (\<exists>new. mark_leaves p v = map (dotted p) new \<and> new \<noteq> [] \<and>
     (\<forall>r \<in> set new. whole_change None (Some v) r) \<and> all_along new (\<lambda>ks. path_get v ks \<noteq> None))"
  "distinct (dkeys d) \<longrightarrow> named_pairs d \<longrightarrow> p \<noteq> [] \<longrightarrow> (\<exists>new. mark_pairs p d = map (dotted p) new \<and> (new = [] \<longrightarrow> d = []) \<and>
     (\<forall>r \<in> set new. r \<noteq> [] \<and> hd r \<in> set (dkeys d) \<and> whole_change None (Some (JObj d)) r) \<and>
     all_along new (\<lambda>ks. ks \<noteq> [] \<and> path_get (JObj d) ks \<noteq> None))"
proof (induction p v and p d rule: mark_leaves_mark_pairs.induct)
  case (1 path d)
  show ?case
  proof (intro impI)
    assume n: "named (JObj d)" and p: "path \<noteq> []"
    show "\<exists>new. mark_leaves path (JObj d) = map (dotted path) new \<and> new \<noteq> [] \<and>
      (\<forall>r \<in> set new. whole_change None (Some (JObj d)) r) \<and> all_along new (\<lambda>ks. path_get (JObj d) ks \<noteq> None)"
    proof (cases "d = []")
      case True
      then show ?thesis by (intro exI [of _ "[[]]"]) (simp add: is_leaf_def all_along_whole)
    next
      case False
      then obtain new where new: "mark_pairs path d = map (dotted path) new" "new \<noteq> []"
          "\<forall>r \<in> set new. whole_change None (Some (JObj d)) r"
          "all_along new (\<lambda>ks. ks \<noteq> [] \<and> path_get (JObj d) ks \<noteq> None)"
        using 1 n p by auto
      have "all_along new (\<lambda>ks. path_get (JObj d) ks \<noteq> None)"
        unfolding all_along_def
      proof (intro allI impI)
        fix ks assume "path_get (JObj d) ks \<noteq> None"
        then show "\<exists>r \<in> set new. along r ks"
          using new(2,4) by (cases ks) (auto simp: all_along_def neq_Nil_conv)
      qed
      then show ?thesis using False new by auto
    qed
  qed
next
  case (3 path)
  then show ?case by (auto simp: all_along_def neq_Nil_conv)
next
  case (4 path k v d)
  show ?case
  proof (intro impI)
    assume d: "distinct (dkeys ((k, v) # d))" and n: "named_pairs ((k, v) # d)" and p: "path \<noteq> []"
    let ?p = "path @ ''.'' @ k"
    have s: "sub_path path k = ?p" using p by (simp add: sub_path_def)
    obtain new1 where 1: "mark_leaves ?p v = map (dotted ?p) new1" "new1 \<noteq> []"
        "\<forall>r \<in> set new1. whole_change None (Some v) r" "all_along new1 (\<lambda>ks. path_get v ks \<noteq> None)"
      using "4.IH"(1) n by auto
    obtain new2 where 2: "mark_pairs path d = map (dotted path) new2"
        "\<forall>r \<in> set new2. r \<noteq> [] \<and> hd r \<in> set (dkeys d) \<and> whole_change None (Some (JObj d)) r"
        "all_along new2 (\<lambda>ks. ks \<noteq> [] \<and> path_get (JObj d) ks \<noteq> None)"
      using "4.IH"(2) n d p by (auto simp: dkeys_def)
    have k: "k \<notin> set (dkeys d)" using d by (simp add: dkeys_def)
    have "whole_change None (Some (JObj ((k, v) # d))) r" if "r \<in> set new2" for r
      using 2(2) that k by (cases r) auto
    moreover have "all_along (map (Cons k) new1 @ new2) (\<lambda>ks. ks \<noteq> [] \<and> path_get (JObj ((k, v) # d)) ks \<noteq> None)"
      unfolding all_along_def
    proof (intro allI impI)
      fix ks assume ks: "ks \<noteq> [] \<and> path_get (JObj ((k, v) # d)) ks \<noteq> None"
      then obtain k' ks' where c: "ks = k' # ks'" by (cases ks) simp_all
      show "\<exists>r \<in> set (map (Cons k) new1 @ new2). along r ks"
      proof (cases "k' = k")
        case True
        then have "path_get v ks' \<noteq> None" using ks c by simp
        then obtain r where "r \<in> set new1" "along r ks'" using 1(4) by (auto simp: all_along_def)
        then show ?thesis using c True by (intro bexI [of _ "k # r"]) simp_all
      next
        case False
        then have "path_get (JObj d) ks \<noteq> None" using ks c by simp
        then obtain r where "r \<in> set new2" "along r ks"
          using 2(3) ks unfolding all_along_def by blast
        then show ?thesis by (intro bexI [of _ r]) simp_all
      qed
    qed
    ultimately show "\<exists>new. mark_pairs path ((k, v) # d) = map (dotted path) new \<and> (new = [] \<longrightarrow> (k, v) # d = []) \<and>
        (\<forall>r \<in> set new. r \<noteq> [] \<and> hd r \<in> set (dkeys ((k, v) # d)) \<and> whole_change None (Some (JObj ((k, v) # d))) r) \<and>
        all_along new (\<lambda>ks. ks \<noteq> [] \<and> path_get (JObj ((k, v) # d)) ks \<noteq> None)"
      using 1(1-3) 2(1,2) s by (intro exI [of _ "map (Cons k) new1 @ new2"]) (auto simp: dkeys_def)
  qed
qed (auto intro!: exI [of _ "[[]]"] simp: is_leaf_def all_along_whole all_along_def)

text \<open>
  What a merge adds to the report: the dotted forms of paths that changed as a whole, and every path whose
  value changed is along one of them.  \<open>reports\<close> states it of a value under a key, \<open>dict_reports\<close> of a dictionary.
\<close>

definition reports :: "string \<Rightarrow> json option \<Rightarrow> json option \<Rightarrow> string list \<Rightarrow> bool" where
  "reports p old new added \<longleftrightarrow>
     (\<exists>rs. added = map (dotted p) rs \<and> (\<forall>r \<in> set rs. whole_change old new r) \<and>
        all_along rs (\<lambda>ks. below new ks \<noteq> below old ks) \<and> (rs = [] \<longrightarrow> new = old))"

definition dict_reports :: "string \<Rightarrow> string set \<Rightarrow> (string, json) dict \<Rightarrow> (string, json) dict \<Rightarrow> string list \<Rightarrow> bool" where
  "dict_reports p keys d e added \<longleftrightarrow>
     (\<exists>rs. added = map (dotted p) rs \<and>
        (\<forall>r \<in> set rs. r \<noteq> [] \<and> hd r \<in> keys \<and> whole_change (Some (JObj d)) (Some (JObj e)) r) \<and>
        all_along rs (\<lambda>ks. path_get (JObj e) ks \<noteq> path_get (JObj d) ks) \<and> (rs = [] \<longrightarrow> e = d))"

lemma reports_whole: "whole_change old new [] \<Longrightarrow> reports p old new [p]"
  unfolding reports_def by (intro exI [of _ "[[]]"]) (simp add: all_along_whole)

lemma reports_none: "reports p old old []"
  unfolding reports_def by (intro exI [of _ "[]"]) (simp add: all_along_def)

lemma reports_marks: "named v \<Longrightarrow> p \<noteq> [] \<Longrightarrow> reports p None (Some v) (mark_leaves p v)"
  using marks_report(1) [of v p] unfolding reports_def by auto

lemma reports_dict: "dict_reports p keys d e added \<Longrightarrow> reports p (Some (JObj d)) (Some (JObj e)) added"
  unfolding reports_def dict_reports_def by auto

lemma dict_reports_none: "dict_reports p keys d d []"
  unfolding dict_reports_def by (intro exI [of _ "[]"]) (simp add: all_along_def)

text \<open>One key after the other: the rest of the patch does not name the key again.\<close>

lemma dict_reports_Cons:
  assumes one: "reports (sub_path p key) (dget d key) (dget d1 key) added1" and same: "\<And>k. k \<noteq> key \<Longrightarrow> dget d1 k = dget d k"
    and rest: "dict_reports p keys d1 e added2" and key: "key \<notin> keys" "dget e key = dget d1 key" and kept: "added1 = [] \<Longrightarrow> d1 = d"
  shows "dict_reports p (insert key keys) d e (added1 @ added2)"
proof -
  obtain rs1 where 1: "added1 = map (dotted (sub_path p key)) rs1" "\<forall>r \<in> set rs1. whole_change (dget d key) (dget d1 key) r"
      "all_along rs1 (\<lambda>ks. below (dget d1 key) ks \<noteq> below (dget d key) ks)"
    using one by (auto simp: reports_def)
  obtain rs2 where 2: "added2 = map (dotted p) rs2"
      "\<forall>r \<in> set rs2. r \<noteq> [] \<and> hd r \<in> keys \<and> whole_change (Some (JObj d1)) (Some (JObj e)) r"
      "all_along rs2 (\<lambda>ks. path_get (JObj e) ks \<noteq> path_get (JObj d1) ks)" "rs2 = [] \<longrightarrow> e = d1"
    using rest by (auto simp: dict_reports_def)
  let ?rs = "map (Cons key) rs1 @ rs2"
  have "whole_change (Some (JObj d)) (Some (JObj e)) r" if "r \<in> set rs2" for r
  proof (cases r)
    case (Cons k ks)
    then have "k \<noteq> key" using 2(2) that key(1) by fastforce
    then show ?thesis using 2(2) that Cons same [of k] by auto
  qed (use 2(2) that in auto)
  then have changes: "\<forall>r \<in> set ?rs. r \<noteq> [] \<and> hd r \<in> insert key keys \<and> whole_change (Some (JObj d)) (Some (JObj e)) r"
    using 1(2) 2(2) key(2) by auto
  have unchanged: "e = d" if "?rs = []" using that 1(1) 2(4) kept by simp
  have "\<exists>r \<in> set ?rs. along r ks" if ne: "path_get (JObj e) ks \<noteq> path_get (JObj d) ks" for ks
  proof (cases ks)
    case Nil
    then have "e \<noteq> d" using ne by auto
    have "?rs \<noteq> []"
    proof
      assume "?rs = []"
      then show False using unchanged \<open>e \<noteq> d\<close> by blast
    qed
    then show ?thesis using Nil by (metis along_Nil(2) last_in_set)
  next
    case (Cons k ks')
    show ?thesis
    proof (cases "k = key")
      case True
      then obtain r where "r \<in> set rs1" "along r ks'" using 1(3) ne Cons key(2) by (auto simp: all_along_def)
      then show ?thesis using True Cons by (intro bexI [of _ "key # r"]) simp_all
    next
      case False
      then have "path_get (JObj e) ks \<noteq> path_get (JObj d1) ks" using ne Cons same [of k] by simp
      then show ?thesis using 2(3) by (auto simp: all_along_def)
    qed
  qed
  then show ?thesis using changes unchanged 1(1) 2(1)
    unfolding dict_reports_def all_along_def by (intro exI [of _ ?rs]) (simp add: comp_def)
qed

lemma merge_reports:
  "\<forall>d a. st = (d, a) \<longrightarrow> distinct (dkeys s) \<longrightarrow> [] \<notin> set (dkeys s) \<longrightarrow> named_pairs s \<longrightarrow>
     (\<exists>added. snd (merge_in_place p s st) = a @ added \<and>
        dict_reports p (set (dkeys s)) d (fst (merge_in_place p s st)) added)"
  "\<forall>d a. st = (d, a) \<longrightarrow> named v \<longrightarrow> p \<noteq> [] \<longrightarrow>
     (\<exists>added. snd (merge_value p key v st) = a @ added \<and>
        reports p (dget d key) (dget (fst (merge_value p key v st)) key) added \<and>
        (added = [] \<longrightarrow> fst (merge_value p key v st) = d))"
proof (induction p s st and p key v st rule: merge_in_place_merge_value.induct)
  case (1 path st)
  then show ?case by (simp add: dict_reports_none)
next
  case (2 path key src source st)
  show ?case
  proof (intro allI impI)
    fix d a
    assume st: "st = (d, a)" and s: "distinct (dkeys ((key, src) # source))" "[] \<notin> set (dkeys ((key, src) # source))"
      "named_pairs ((key, src) # source)"
    obtain d1 a1 where 1: "merge_value (sub_path path key) key src st = (d1, a1)" by fastforce
    obtain e a2 where 2: "merge_in_place path source (d1, a1) = (e, a2)" by fastforce
    have key: "sub_path path key \<noteq> []" "key \<notin> set (dkeys source)" "distinct (dkeys source)" "[] \<notin> set (dkeys source)"
      using s(1,2) by (auto simp: sub_path_def dkeys_def)
    obtain added1 where added1: "a1 = a @ added1" "reports (sub_path path key) (dget d key) (dget d1 key) added1"
        "added1 = [] \<longrightarrow> d1 = d"
      using "2.IH"(1) st 1 s(3) key(1) by auto
    obtain added2 where added2: "a2 = a1 @ added2" "dict_reports path (set (dkeys source)) d1 e added2"
      using "2.IH"(2) 1 2 s(3) key(3,4) by auto
    have others: "dget d1 k = dget d k" if "k \<noteq> key" for k
      using merge_value_lookup [of "sub_path path key" key src d a k] 1 st that by simp
    have "dget source key = None" using key(2) by (simp add: dkeys_def map_of_eq_None_iff)
    then have "dget e key = dget d1 key" using merge_lookup [OF key(3), of path d1 a1 key] 2 by simp
    from dict_reports_Cons [OF added1(2) others added2(2) key(2) this] added1(3)
    have "dict_reports path (insert key (set (dkeys source))) d e (added1 @ added2)" by blast
    then show "\<exists>added. snd (merge_in_place path ((key, src) # source) st) = a @ added \<and>
        dict_reports path (set (dkeys ((key, src) # source))) d (fst (merge_in_place path ((key, src) # source) st)) added"
      using 1 2 added1(1) added2(1) by (intro exI [of _ "added1 @ added2"]) (simp add: dkeys_def)
  qed
next
  case (3 p key sd target affected)
  show ?case
  proof (intro allI impI)
    fix d a
    assume "(target, affected) = (d, a)" and n: "named (JObj sd)" and p: "p \<noteq> []"
    then have d: "d = target" "a = affected" by simp_all
    let ?st = "merge_value p key (JObj sd) (target, affected)"
    show "\<exists>added. snd ?st = a @ added \<and> reports p (dget d key) (dget (fst ?st) key) added \<and> (added = [] \<longrightarrow> fst ?st = d)"
    proof (cases "is_removal (JObj sd)")
      case True
      then show ?thesis
        by (cases "dget target key") (auto simp: d has_key_def reports_none intro!: reports_whole)
    next
      case False
      show ?thesis
      proof (cases "dget target key")
        case None
        have "mark_leaves p (JObj sd) \<noteq> []" using marks_report(1) [of "JObj sd" p] n p by auto
        then show ?thesis using False None reports_marks [OF n p] by (simp add: d del: mark_leaves.simps)
      next
        case (Some old)
        show ?thesis
        proof (cases old)
          case (JObj td)
          obtain e b where m: "merge_in_place p sd (td, affected) = (e, b)" by fastforce
          obtain added where added: "b = affected @ added" "dict_reports p (set (dkeys sd)) td e added"
            using "3.IH" [OF False Some JObj] m n by auto
          then have "added = [] \<longrightarrow> e = td" by (auto simp: dict_reports_def)
          moreover have "dset key (JObj td) target = target" using Some JObj by (simp add: dset_same)
          ultimately show ?thesis
            using False Some JObj m added(1) reports_dict [OF added(2)] by (intro exI [of _ added]) (auto simp: d)
        qed (use False Some in \<open>auto simp: d reports_none both_dicts_def intro!: reports_whole\<close>)
      qed
    qed
  qed
qed (auto simp: reports_none both_dicts_def is_leaf_def split: option.split json.split intro!: reports_whole)

subsection \<open>A merge settles\<close>

text \<open>Patches with no removal among the trees they merge; keys are those of a dictionary.\<close>

fun plain :: "json \<Rightarrow> bool"
    and plain_pairs :: "(string \<times> json) list \<Rightarrow> bool" where
  "plain (JObj d) = (distinct (dkeys d) \<and> \<not> is_removal (JObj d) \<and> plain_pairs d)"
| "plain j = True"
| "plain_pairs [] = True"
| "plain_pairs ((k, v) # d) = (plain v \<and> plain_pairs d)"

lemma plain_pairs_iff: "plain_pairs d \<longleftrightarrow> (\<forall>(k, v) \<in> set d. plain v)"
  by (induction d) auto

lemma merge_value_fix:
  assumes "merged_value v (dget d k) = dget d k"
  shows "fst (merge_value p k v (d, a)) = d"
proof (cases "dget d k")
  case None
  then have "is_removal v" using assms by (auto simp: merged_value_def split: if_splits)
  then show ?thesis using None by (cases v) (auto simp: is_removal_def has_key_def)
next
  case (Some old)
  then have nr: "\<not> is_removal v" using assms by (auto simp: merged_value_def)
  show ?thesis
  proof (cases "\<exists>sd td. v = JObj sd \<and> old = JObj td")
    case True
    then obtain sd td where j: "v = JObj sd" "old = JObj td" by blast
    obtain e b where m: "merge_in_place p sd (td, a) = (e, b)" by fastforce
    have "e = td" using assms nr Some j m merge_tree [of p sd td a] by (simp add: merged_value_def)
    then show ?thesis using nr Some j m by (simp add: dset_same)
  next
    case False
    then show ?thesis using assms nr Some
      by (cases v; cases old) (auto simp: merged_value_def dset_same split: if_splits)
  qed
qed

lemma merge_fix:
  "(\<forall>(k, v) \<in> set s. merged_value v (dget d k) = dget d k) \<Longrightarrow> fst (merge_in_place p s (d, a)) = d"
proof (induction s arbitrary: a)
  case Nil
  then show ?case by simp
next
  case (Cons x s)
  obtain k v where x: "x = (k, v)" by (cases x)
  obtain d1 a1 where 1: "merge_value (sub_path p k) k v (d, a) = (d1, a1)" by fastforce
  have "d1 = d" using merge_value_fix [of v d k "sub_path p k" a] 1 Cons.prems x by simp
  then show ?case using Cons 1 x by simp
qed

lemma dget_member: "distinct (dkeys d) \<Longrightarrow> (k, v) \<in> set d \<Longrightarrow> dget d k = Some v"
  by (simp add: dkeys_def)

lemma merged_self: "plain v \<Longrightarrow> merged_value v (Some v) = Some v"
proof (induction v)
  case (JObj d)
  have "merged_value v (dget d k) = dget d k" if "(k, v) \<in> set d" for k v
    using that JObj.IH [of "(k, v)" v] JObj.prems dget_member [of d k v] by (auto simp: plain_pairs_iff)
  then have "fst (merge_in_place [] d (d, [])) = d" by (intro merge_fix) auto
  then show ?case using JObj.prems by (simp add: merged_value_def)
qed (auto simp: merged_value_def is_removal_def)

lemma merged_settles: "plain v \<Longrightarrow> merged_value v (merged_value v old) = merged_value v old"
proof (induction v arbitrary: old)
  case (JObj sd)
  have nr: "\<not> is_removal (JObj sd)" using JObj.prems by simp
  show ?case
  proof (cases "\<exists>td. old = Some (JObj td)")
    case True
    then obtain td where td: "old = Some (JObj td)" by blast
    let ?e = "fst (merge_in_place [] sd (td, []))"
    have "merged_value v (dget ?e k) = dget ?e k" if "(k, v) \<in> set sd" for k v
    proof -
      have "dget ?e k = merged_value v (dget td k)"
        using merge_lookup [of sd "[]" td "[]" k] dget_member [OF _ that] JObj.prems by simp
      then show ?thesis using JObj.IH [OF that, of v "dget td k"] that JObj.prems by (auto simp: plain_pairs_iff)
    qed
    then have "fst (merge_in_place [] sd (?e, [])) = ?e" by (intro merge_fix) auto
    then show ?thesis using td nr by (simp add: merged_value_def)
  next
    case False
    then have "merged_value (JObj sd) old = Some (JObj sd)"
      using nr by (cases old) (auto simp: merged_value_def scalar_eq_def json_num_def split: json.split)
    then show ?thesis using merged_self [OF JObj.prems] by simp
  qed
qed (auto simp: merged_value_def is_removal_def split: option.splits json.splits if_splits)

lemma merge_settles:
  assumes "distinct (dkeys s)" "plain_pairs s"
  shows "fst (merge_in_place p s (fst (merge_in_place p s (d, a)), b)) = fst (merge_in_place p s (d, a))"
proof (rule merge_fix, clarify)
  fix k v
  assume kv: "(k, v) \<in> set s"
  have "dget (fst (merge_in_place p s (d, a))) k = merged_value v (dget d k)"
    using merge_lookup [OF assms(1)] dget_member [OF assms(1) kv] by simp
  then show "merged_value v (dget (fst (merge_in_place p s (d, a))) k) = dget (fst (merge_in_place p s (d, a))) k"
    using merged_settles [of v] kv assms(2) by (auto simp: plain_pairs_iff)
qed

subsection \<open>What the gate protects\<close>

lemma dget_filter_keys: "dget (filter (\<lambda>(k, v). P k) d) k = (if P k then dget d k else None)"
  by (induction d) auto

lemma sanitized:
  assumes "sanitize_override ov = (clean, msgs)"
  shows "dget clean k = (if k \<in> set PROTECTED_KEYS then None else dget ov k)"
    and "distinct (dkeys ov) \<Longrightarrow> distinct (dkeys clean)"
proof -
  have c: "clean = filter (\<lambda>(k, v). k \<notin> set PROTECTED_KEYS) ov" using assms by (simp add: sanitize_override_def)
  show "dget clean k = (if k \<in> set PROTECTED_KEYS then None else dget ov k)" by (simp add: c dget_filter_keys)
  show "distinct (dkeys clean)" if "distinct (dkeys ov)" using that by (simp add: c dkeys_def distinct_map_filter)
qed

definition is_rejected :: "json option \<Rightarrow> bool" where
  "is_rejected base_field = (case excluded_reasons base_field of Inr (Some rs) \<Rightarrow> classify_reasons rs = Rejected | _ \<Rightarrow> False)"

lemma gate_fields_Cons:
  assumes "gate_fields cat bc ((m, v) # fs) = Inr (kept, msgs)"
  obtains kept' msgs' where "gate_fields cat bc fs = Inr (kept', msgs')" "excluded_reasons (dget bc m) = Inr None"
      "kept = (m, v) # kept'" "msgs = msgs'" "\<not> is_rejected (dget bc m)"
    | kept' msgs' rs where "gate_fields cat bc fs = Inr (kept', msgs')" "excluded_reasons (dget bc m) = Inr (Some rs)"
      "kept = (if is_rejected (dget bc m) then kept' else (m, v) # kept')" "msgs = gate_message cat m rs # msgs'"
proof -
  obtain y kept' msgs' where y: "excluded_reasons (dget bc m) = Inr y" "gate_fields cat bc fs = Inr (kept', msgs')"
    using assms by auto
  show thesis
  proof (cases y)
    case None
    then show thesis using assms y by (intro that(1) [of kept' msgs']) (simp_all add: is_rejected_def)
  next
    case (Some rs)
    then show thesis using assms y by (intro that(2) [of kept' msgs' rs]) (simp_all add: is_rejected_def)
  qed
qed

lemma gate_fields_lookup:
  "gate_fields cat bc fs = Inr (kept, msgs) \<Longrightarrow> dget kept n = (if is_rejected (dget bc n) then None else dget fs n)"
proof (induction fs arbitrary: kept msgs n)
  case (Cons x fs)
  obtain m v where x: "x = (m, v)" by (cases x)
  from Cons.prems [unfolded x] show ?case
    by (cases rule: gate_fields_Cons) (simp_all add: x Cons.IH split: if_splits)
qed simp

lemma gate_fields_keys:
  "gate_fields cat bc fs = Inr (kept, msgs) \<Longrightarrow> set (dkeys kept) \<subseteq> set (dkeys fs) \<and> (distinct (dkeys fs) \<longrightarrow> distinct (dkeys kept))"
proof (induction fs arbitrary: kept msgs)
  case (Cons x fs)
  obtain m v where x: "x = (m, v)" by (cases x)
  from Cons.prems [unfolded x] show ?case
  proof (cases rule: gate_fields_Cons)
    case (1 kept' msgs')
    then show ?thesis using Cons.IH [OF 1(1)] by (auto simp: x dkeys_def)
  next
    case (2 kept' msgs' rs)
    then show ?thesis using Cons.IH [OF 2(1)] by (auto simp: x dkeys_def)
  qed
qed simp

lemma gate_fields_messages:
  "gate_fields cat bc fs = Inr (kept, msgs) \<Longrightarrow> has_key fs n \<Longrightarrow> excluded_reasons (dget bc n) = Inr (Some rs) \<Longrightarrow>
   gate_message cat n rs \<in> set msgs"
proof (induction fs arbitrary: kept msgs)
  case (Cons x fs)
  obtain m v where x: "x = (m, v)" by (cases x)
  from Cons.prems(1) [unfolded x] show ?case
    by (cases rule: gate_fields_Cons) (use Cons.IH Cons.prems(2,3) in \<open>auto simp: x has_key_def split: if_splits\<close>)
qed (simp add: has_key_def)

lemma gate_categories_lookup:
  assumes "gate_categories bf cs = Inr (kept, msgs)" "dget bf cat = Some (JObj bc)" "dget cs cat = Some (JObj fs)"
  shows "\<exists>kept_fs fmsgs. gate_fields cat bc fs = Inr (kept_fs, fmsgs) \<and> dget kept cat = Some (JObj kept_fs) \<and> set fmsgs \<subseteq> set msgs"
  using assms(1,3)
proof (induction cs arbitrary: kept msgs)
  case Nil
  then show ?case by simp
next
  case (Cons x cs)
  obtain c v where x: "x = (c, v)" by (cases x)
  obtain v' ms kept' msgs' where v': "gate_category c (dget bf c) v = Inr (v', ms)"
    and k: "gate_categories bf cs = Inr (kept', msgs')" "kept = (c, v') # kept'" "msgs = ms @ msgs'"
    using Cons.prems(1) x by auto
  show ?case
  proof (cases "c = cat")
    case True
    then have "v = JObj fs" using Cons.prems(2) x by simp
    then show ?thesis using v' True assms(2) k by (auto simp: gate_category_def)
  next
    case False
    then show ?thesis using Cons.IH [OF k(1)] Cons.prems(2) x k by auto
  qed
qed

lemma gate_categories_keys:
  "gate_categories bf cs = Inr (kept, msgs) \<Longrightarrow> dkeys kept = dkeys cs"
proof (induction cs arbitrary: kept msgs)
  case (Cons x cs)
  then show ?case by (cases x) (auto simp: dkeys_def)
qed simp

text \<open>A category that the patch does not name, or names with a dictionary that is no removal.\<close>

definition ordinary :: "json option \<Rightarrow> bool" where
  "ordinary patch = (case patch of None \<Rightarrow> True | Some (JObj d) \<Rightarrow> \<not> is_removal (JObj d) \<and> distinct (dkeys d) | _ \<Rightarrow> False)"

lemma removal_kept:
  "gate_categories bf cs = Inr (kept, msgs) \<Longrightarrow> is_removal (JObj kept) \<Longrightarrow> is_removal (JObj cs)"
proof (induction cs arbitrary: kept msgs)
  case (Cons x cs)
  obtain c v where x: "x = (c, v)" by (cases x)
  obtain v' ms kept' msgs' where g: "gate_category c (dget bf c) v = Inr (v', ms)"
    and k: "gate_categories bf cs = Inr (kept', msgs')" "kept = (c, v') # kept'"
    using Cons.prems(1) x by auto
  have "v' = JBool True \<Longrightarrow> v = JBool True" using g by (auto simp: gate_category_def split: json.splits option.splits)
  then show ?case using Cons.IH [OF k(1)] Cons.prems(2) x k(2) by (auto simp: is_removal_def split: if_splits)
qed (simp add: is_removal_def)

lemma removal_kept_fields:
  assumes "gate_fields cat bc fs = Inr (kept, msgs)" "is_removal (JObj kept)"
  shows "is_removal (JObj fs)"
  using assms(2) gate_fields_lookup [OF assms(1), of REMOVE_SENTINEL] by (simp add: is_removal_def split: if_splits)

lemma deep_merge_eq: "deep_merge base ov = merge_in_place [] ov (base, [])"
  by (simp add: deep_merge_def)

lemma applied:
  assumes "apply_override base ov = Inr (merged, affected, msgs)"
  obtains clean smsgs gated gmsgs where "sanitize_override ov = (clean, smsgs)" "gate_excluded base clean = Inr (gated, gmsgs)"
    "merge_in_place [] gated (base, []) = (merged, affected)" "msgs = smsgs @ gmsgs"
proof -
  obtain clean smsgs where s: "sanitize_override ov = (clean, smsgs)" by fastforce
  obtain gated gmsgs where g: "gate_excluded base clean = Inr (gated, gmsgs)" 
    using assms s by (cases "gate_excluded base clean") (auto simp: apply_override_def)
  then have "deep_merge base gated = (merged, affected)" "msgs = smsgs @ gmsgs"
    using assms s by (simp_all add: apply_override_def split: prod.splits)
  then show thesis by (intro that [OF s g]) (simp_all add: deep_merge_eq)
qed

lemma gated_other:
  assumes "gate_excluded base clean = Inr (gated, msgs)"
  shows "k \<noteq> ''fields'' \<Longrightarrow> dget gated k = dget clean k" "distinct (dkeys clean) \<Longrightarrow> distinct (dkeys gated)"
  using assms by (auto simp: gate_excluded_def dkeys_def distinct_update split: option.splits json.splits)

lemma gated_fields:
  assumes "gate_excluded base clean = Inr (gated, msgs)" "dget base ''fields'' = Some (JObj bf)"
  shows "dget clean ''fields'' = Some (JObj cs) \<Longrightarrow>
      \<exists>kept. gate_categories bf cs = Inr (kept, msgs) \<and> dget gated ''fields'' = Some (JObj kept)"
    and "dget clean ''fields'' = None \<Longrightarrow> dget gated ''fields'' = None"
  using assms by (auto simp: gate_excluded_def)

text \<open>What the gate and the sanitizer leave of an override is named as it was.\<close>

lemma named_pairs_iff: "named_pairs d \<longleftrightarrow> (\<forall>(k, v) \<in> set d. named v)"
  by (induction d) auto

lemma sanitized_named:
  assumes "sanitize_override ov = (clean, msgs)" and "named (JObj ov)"
  shows "named (JObj clean)"
proof -
  have c: "clean = filter (\<lambda>(k, v). k \<notin> set PROTECTED_KEYS) ov" using assms(1) by (simp add: sanitize_override_def)
  then have "set clean \<subseteq> set ov" by auto
  then show ?thesis using assms(2) sanitized(2) [OF assms(1)] by (auto simp: named_pairs_iff dkeys_def)
qed

lemma gate_fields_named:
  "gate_fields cat bc fs = Inr (kept, msgs) \<Longrightarrow> named (JObj fs) \<Longrightarrow> named (JObj kept)"
proof -
  assume g: "gate_fields cat bc fs = Inr (kept, msgs)" and n: "named (JObj fs)"
  have "set kept \<subseteq> set fs" using g
  proof (induction fs arbitrary: kept msgs)
    case (Cons x fs)
    obtain m v where x: "x = (m, v)" by (cases x)
    from Cons.prems [unfolded x] show ?case
      by (cases rule: gate_fields_Cons) (use Cons.IH in \<open>fastforce simp: x split: if_splits\<close>)+
  qed simp
  then show ?thesis using n gate_fields_keys [OF g] by (auto simp: named_pairs_iff)
qed

lemma gate_category_named:
  "gate_category cat bc v = Inr (v', msgs) \<Longrightarrow> named v \<Longrightarrow> named v'"
  by (auto simp: gate_category_def simp del: named.simps dest: gate_fields_named split: json.split_asm option.split_asm)

lemma gate_categories_named:
  "gate_categories bf cs = Inr (kept, msgs) \<Longrightarrow> named_pairs cs \<Longrightarrow> named_pairs kept"
proof (induction cs arbitrary: kept msgs)
  case (Cons x cs)
  then show ?case by (cases x) (auto dest: gate_category_named)
qed simp

lemma gated_named:
  assumes "gate_excluded base clean = Inr (gated, msgs)" and "named (JObj clean)"
  shows "named (JObj gated)"
proof (cases "\<exists>cs. dget clean ''fields'' = Some (JObj cs)")
  case True
  then obtain cs where cs: "dget clean ''fields'' = Some (JObj cs)" by blast
  then obtain kept ms bf where k: "gate_categories bf cs = Inr (kept, ms)" "gated = dset ''fields'' (JObj kept) clean"
    using assms(1) by (auto simp: gate_excluded_def)
  have "(''fields'', JObj cs) \<in> set clean" using cs by (rule map_of_SomeD)
  moreover have "\<forall>(k, v) \<in> set clean. named v" using assms(2) by (simp add: named_pairs_iff)
  ultimately have "named (JObj cs)" by blast
  then have "named (JObj kept)" using gate_categories_named [OF k(1)] gate_categories_keys [OF k(1)] by simp
  moreover have "set (dkeys gated) \<subseteq> insert ''fields'' (set (dkeys clean))"
    by (auto simp: k(2) dkeys_dset split: if_splits)
  moreover have "distinct (dkeys gated)" using assms(2) by (simp add: k(2) dkeys_def distinct_update)
  moreover have "named_pairs d \<Longrightarrow> named w \<Longrightarrow> named_pairs (dset k w d)" for d k w
    by (induction d) auto
  ultimately show ?thesis using assms(2) by (auto simp: k(2))
next
  case False
  then have "gated = clean" using assms(1) by (auto simp: gate_excluded_def split: option.splits json.splits)
  then show ?thesis using assms(2) by simp
qed

lemma ordinaryE:
  assumes "ordinary patch"
  obtains "patch = None" | d where "patch = Some (JObj d)" "\<not> is_removal (JObj d)" "distinct (dkeys d)"
  using assms by (auto simp: ordinary_def split: option.splits json.splits)

lemma merged_dicts:
  "\<not> is_removal (JObj sd) \<Longrightarrow> merged_value (JObj sd) (Some (JObj td)) = Some (JObj (fst (merge_in_place [] sd (td, []))))"
  by (simp add: merged_value_def)

abbreviation patched :: "json option \<Rightarrow> json option \<Rightarrow> json option" where
  "patched patch old \<equiv> (case patch of None \<Rightarrow> old | Some v \<Rightarrow> merged_value v old)"

lemma gate_patches:
  assumes "gate_categories bf cs = Inr (kept, msgs)" "dget bf cat = Some (JObj bc)"
    and "distinct (dkeys cs)" "ordinary (dget cs cat)"
  shows "\<exists>mc. dget (fst (merge_in_place [] kept (bf, []))) cat = Some (JObj mc) \<and>
    dget mc n = (if is_rejected (dget bc n) then dget bc n
                 else patched (case dget cs cat of Some v \<Rightarrow> jget v n | None \<Rightarrow> None) (dget bc n))"
proof -
  have keys: "dkeys kept = dkeys cs" by (rule gate_categories_keys [OF assms(1)])
  then have m: "dget (fst (merge_in_place [] kept (bf, []))) cat = patched (dget kept cat) (Some (JObj bc))"
    using merge_lookup [of kept "[]" bf "[]" cat] assms(3) by (simp only: assms(2))
  from assms(4) show ?thesis
  proof (cases rule: ordinaryE)
    case 1
    then have "dget kept cat = None" using keys by (simp add: dkeys_def map_of_eq_None_iff flip: set_map)
    then show ?thesis using m 1 by simp
  next
    case (2 fs)
    obtain kfs fmsgs where f: "gate_fields cat bc fs = Inr (kfs, fmsgs)" "dget kept cat = Some (JObj kfs)"
      using gate_categories_lookup [OF assms(1,2) 2(1)] by blast
    have "\<not> is_removal (JObj kfs)" using removal_kept_fields [OF f(1)] 2(2) by blast
    moreover have "distinct (dkeys kfs)" using gate_fields_keys [OF f(1)] 2(3) by blast
    then have "dget (fst (merge_in_place [] kfs (bc, []))) n = patched (dget kfs n) (dget bc n)"
      by (rule merge_lookup)
    ultimately show ?thesis using m f(2) 2(1) merged_dicts [of kfs bc] gate_fields_lookup [OF f(1), of n]
      by (simp add: jget_def)
  qed
qed

lemma gate_exact:
  assumes "apply_override base ov = Inr (merged, affected, msgs)" "distinct (dkeys ov)"
    and base: "dget base ''fields'' = Some (JObj bf)" "dget bf cat = Some (JObj bc)"
    and patch: "ordinary (dget ov ''fields'')" "ordinary (path_get (JObj ov) [''fields'', cat])"
  shows "path_get (JObj merged) [''fields'', cat, n] =
     (if is_rejected (dget bc n) then dget bc n
      else patched (path_get (JObj ov) [''fields'', cat, n]) (dget bc n))"
proof -
  obtain clean smsgs gated gmsgs where a: "sanitize_override ov = (clean, smsgs)" "gate_excluded base clean = Inr (gated, gmsgs)"
      "merge_in_place [] gated (base, []) = (merged, affected)"
    by (rule applied [OF assms(1)])
  have c: "dget clean ''fields'' = dget ov ''fields''" using sanitized(1) [OF a(1)] by (simp add: PROTECTED_KEYS_def)
  have "distinct (dkeys gated)" using gated_other(2) [OF a(2)] sanitized(2) [OF a(1) assms(2)] by blast
  then have m: "dget merged ''fields'' = patched (dget gated ''fields'') (Some (JObj bf))"
    using merge_lookup [of gated "[]" base "[]" "''fields''"] by (simp only: a(3) fst_conv base(1))
  from patch(1) show ?thesis
  proof (cases rule: ordinaryE)
    case 1
    then show ?thesis using m gated_fields(2) [OF a(2) base(1)] c base(2) by (simp add: jget_def split: option.split)
  next
    case (2 cs)
    then obtain kept where k: "gate_categories bf cs = Inr (kept, gmsgs)" "dget gated ''fields'' = Some (JObj kept)"
      using gated_fields(1) [OF a(2) base(1)] c by auto
    have "\<not> is_removal (JObj kept)" using removal_kept [OF k(1)] 2(2) by blast
    then have "dget merged ''fields'' = Some (JObj (fst (merge_in_place [] kept (bf, []))))" using m k(2) merged_dicts by simp
    moreover have "ordinary (dget cs cat)" using patch(2) 2(1) by (simp add: jget_def split: option.splits)
    then obtain mc where "dget (fst (merge_in_place [] kept (bf, []))) cat = Some (JObj mc)"
      "dget mc n = (if is_rejected (dget bc n) then dget bc n
                    else patched (case dget cs cat of Some v \<Rightarrow> jget v n | None \<Rightarrow> None) (dget bc n))"
      using gate_patches [OF k(1) base(2) 2(3)] by blast
    ultimately show ?thesis using 2(1) by (auto simp: jget_def split: option.splits)
  qed
qed

subsection \<open>The contract of \<open>apply_override\<close>\<close>

definition excluded_entry :: "string \<Rightarrow> json" where
  "excluded_entry reason =
     JObj [(''feature_available'', JStr ''excluded''), (''excluded_reasons'', JList [JStr reason])]"

definition demo_base :: "(string, json) dict" where
  "demo_base =
     [(''meta'', JObj []),
      (''fields'', JObj [(''control'', JObj [(''a'', excluded_entry ''unsafe_write''), (''b'', excluded_entry ''never_observed'')])])]"

definition demo_patch :: "(string, json) dict" where
  "demo_patch =
     [(''meta'', JInt 1),
      (''fields'', JObj [(''control'', JObj [(''a'', JObj [(''feature_available'', JStr ''always'')]),
                                           (''b'', JObj [(''feature_available'', JStr ''always'')])])])]"

lemmas override_simps =
  apply_override_def sanitize_override_def gate_excluded_def gate_category_def excluded_reasons_def reasons_of_def
  json_truthy_def gate_message_def classify_reasons_def REJECT_REASONS_def CAVEAT_REASONS_def PROTECTED_KEYS_def
  deep_merge_def is_removal_def REMOVE_SENTINEL_def ddel_def has_key_def sub_path_def scalar_eq_def json_num_def

lemma demo_applied:
  "\<exists>msgs. apply_override demo_base demo_patch =
     Inr ([(''meta'', JObj []),
           (''fields'', JObj [(''control'', JObj [(''a'', excluded_entry ''unsafe_write''),
               (''b'', JObj [(''feature_available'', JStr ''always''), (''excluded_reasons'', JList [JStr ''never_observed''])])])])],
          [''fields.control.b.feature_available''], msgs)"
  by (simp add: override_simps demo_base_def demo_patch_def excluded_entry_def)

lemma category_removal_unchecked:
  "apply_override demo_base [(''fields'', JObj [(''control'', JObj [(''_remove'', JBool True)])])] =
     Inr ([(''meta'', JObj []), (''fields'', JObj [])], [''fields.control''], [])"
  by (simp add: override_simps demo_base_def)

lemma nested_removal_copied:
  "deep_merge [] [(''f'', JObj [(''g'', JObj [(''_remove'', JBool True)])])] =
     ([(''f'', JObj [(''g'', JObj [(''_remove'', JBool True)])])], [''f.g._remove''])"
  "deep_merge [(''f'', JObj [(''g'', JObj [(''_remove'', JBool True)])])] [(''f'', JObj [(''g'', JObj [(''_remove'', JBool True)])])] =
     ([(''f'', JObj [])], [''f.g''])"
  by (simp_all add: override_simps)

lemma equal_number_dropped:
  "deep_merge [(''f'', JInt 1)] [(''f'', JBool True)] = ([(''f'', JInt 1)], [])"
  by (simp add: override_simps)

text \<open>C18: what an override reports is complete and exact.  For an override whose keys are distinct and not empty,
  the reported paths are the dotted forms of key paths \<open>reports\<close> such that: whatever path of keys one looks up in
  the merged glossary, a value that is not the base's - changed, added or removed - has a reported path that goes
  on from it or that it goes on from, key by key; and every reported path changed as a whole: it was removed,
  replaced by an unequal value (not by merging two dictionaries), or is a leaf of what was added.\<close>

theorem changes_reported:
  assumes "apply_override base ov = Inr (merged, affected, msgs)" and "named (JObj ov)"
  shows "\<exists>reports. affected = map (dotted []) reports \<and>
    (\<forall>path. path_get (JObj merged) path \<noteq> path_get (JObj base) path \<longrightarrow> (\<exists>r \<in> set reports. along r path)) \<and>
    (\<forall>r \<in> set reports. r \<noteq> [] \<and> whole_change (Some (JObj base)) (Some (JObj merged)) r)"
proof -
  obtain clean smsgs gated gmsgs where a: "sanitize_override ov = (clean, smsgs)" "gate_excluded base clean = Inr (gated, gmsgs)"
      "merge_in_place [] gated (base, []) = (merged, affected)"
    by (rule applied [OF assms(1)])
  have "named (JObj gated)" using gated_named [OF a(2)] sanitized_named [OF a(1) assms(2)] by blast
  then obtain added where "affected = [] @ added" "dict_reports [] (set (dkeys gated)) base merged added"
    using merge_reports(1) [of "(base, [])" gated "[]"] a(3) by auto
  then show ?thesis by (auto simp: dict_reports_def all_along_def)
qed

theorem changes_reported_witness:
  "\<exists>merged affected msgs r. apply_override demo_base demo_patch = Inr (merged, affected, msgs) \<and>
     dotted [] r \<in> set affected \<and> along r [''fields'', ''control'', ''b'', ''feature_available''] \<and>
     whole_change (Some (JObj demo_base)) (Some (JObj merged)) r"
proof -
  obtain msgs where a: "apply_override demo_base demo_patch =
     Inr ([(''meta'', JObj []),
           (''fields'', JObj [(''control'', JObj [(''a'', excluded_entry ''unsafe_write''),
               (''b'', JObj [(''feature_available'', JStr ''always''), (''excluded_reasons'', JList [JStr ''never_observed''])])])])],
          [''fields.control.b.feature_available''], msgs)" (is "_ = Inr (?merged, ?affected, _)")
    using demo_applied by blast
  have n: "named (JObj demo_patch)" by (simp add: demo_patch_def dkeys_def)
  have "path_get (JObj ?merged) [''fields'', ''control'', ''b'', ''feature_available''] \<noteq>
      path_get (JObj demo_base) [''fields'', ''control'', ''b'', ''feature_available'']"
    by (simp add: demo_base_def excluded_entry_def)
  then obtain r where "dotted [] r \<in> set ?affected" "along r [''fields'', ''control'', ''b'', ''feature_available'']"
      "whole_change (Some (JObj demo_base)) (Some (JObj ?merged)) r"
    using changes_reported [OF a n] by (metis (no_types, lifting) imageI list.set_map)
  with a show ?thesis by blast
qed

text \<open>C29: the gate of excluded fields, exactly.  After an override whose \<open>fields\<close> block and whose block of the
  category are dictionaries (or absent) and not removals, a field of the base is unchanged when one of its reasons
  is in the reject set, and otherwise it is the merge of the base's entry with the patch.\<close>

theorem override_gate:
  assumes "apply_override base ov = Inr (merged, affected, msgs)" "distinct (dkeys ov)"
    and "dget base ''fields'' = Some (JObj bf)" "dget bf cat = Some (JObj bc)"
    and "ordinary (dget ov ''fields'')" "ordinary (path_get (JObj ov) [''fields'', cat])"
  shows "path_get (JObj merged) [''fields'', cat, name] =
     (if is_rejected (dget bc name) then dget bc name
      else case path_get (JObj ov) [''fields'', cat, name] of
             None \<Rightarrow> dget bc name | Some patch \<Rightarrow> merged_value patch (dget bc name))"
  by (rule gate_exact [OF assms])

theorem override_gate_witness:
  "\<exists>merged affected msgs. apply_override demo_base demo_patch = Inr (merged, affected, msgs) \<and>
     path_get (JObj merged) [''fields'', ''control'', ''a''] = Some (excluded_entry ''unsafe_write'') \<and>
     is_rejected (Some (excluded_entry ''unsafe_write''))"
proof -
  obtain merged affected msgs where a: "apply_override demo_base demo_patch = Inr (merged, affected, msgs)"
    using demo_applied by blast
  have r: "is_rejected (Some (excluded_entry ''unsafe_write''))"
    by (simp add: is_rejected_def excluded_entry_def override_simps)
  have "path_get (JObj merged) [''fields'', ''control'', ''a''] = Some (excluded_entry ''unsafe_write'')"
    by (subst override_gate [OF a, where cat = "''control''" and bf = "[(''control'', JObj [(''a'', excluded_entry ''unsafe_write''), (''b'', excluded_entry ''never_observed'')])]"
          and bc = "[(''a'', excluded_entry ''unsafe_write''), (''b'', excluded_entry ''never_observed'')]"])
      (simp_all add: demo_base_def demo_patch_def ordinary_def is_removal_def REMOVE_SENTINEL_def dkeys_def jget_def r)
  then show ?thesis using a r by blast
qed

text \<open>Protected keys and stability.  No override changes what the base has under \<open>meta\<close>; and merging a patch
  without removals a second time changes nothing.\<close>

theorem override_settles:
  assumes "distinct (dkeys ov)" "plain_pairs ov"
  shows "fst (deep_merge (fst (deep_merge base ov)) ov) = fst (deep_merge base ov) \<and>
    (apply_override base ov = Inr (merged, affected, msgs) \<longrightarrow> dget merged ''meta'' = dget base ''meta'')"
proof (intro conjI impI)
  show "fst (deep_merge (fst (deep_merge base ov)) ov) = fst (deep_merge base ov)"
    unfolding deep_merge_eq by (rule merge_settles [OF assms])
next
  assume r: "apply_override base ov = Inr (merged, affected, msgs)"
  obtain clean smsgs gated gmsgs where a: "sanitize_override ov = (clean, smsgs)" "gate_excluded base clean = Inr (gated, gmsgs)"
      "merge_in_place [] gated (base, []) = (merged, affected)"
    by (rule applied [OF r])
  have "dget gated ''meta'' = None" using gated_other(1) [OF a(2)] sanitized(1) [OF a(1)] by (simp add: PROTECTED_KEYS_def)
  moreover have "distinct (dkeys gated)" using gated_other(2) [OF a(2)] sanitized(2) [OF a(1) assms(1)] by blast
  ultimately show "dget merged ''meta'' = dget base ''meta''"
    using merge_lookup [of gated "[]" base "[]" "''meta''"] a(3) by simp
qed

theorem override_settles_witness:
  "fst (deep_merge (fst (deep_merge demo_base demo_patch)) demo_patch) = fst (deep_merge demo_base demo_patch) \<and>
   (\<exists>merged affected msgs. apply_override demo_base demo_patch = Inr (merged, affected, msgs) \<and>
      dget merged ''meta'' = Some (JObj []))"
proof -
  obtain merged affected msgs where a: "apply_override demo_base demo_patch = Inr (merged, affected, msgs)"
    using demo_applied by blast
  have p: "distinct (dkeys demo_patch)" "plain_pairs demo_patch"
    by (simp_all add: demo_patch_def dkeys_def is_removal_def REMOVE_SENTINEL_def)
  show ?thesis using override_settles [OF p, of demo_base merged affected msgs] a by (simp add: demo_base_def)
qed

end
