(* ===== verification/Scan_Queries.thy ===== *)
theory Scan_Queries
  imports Planner
begin

section \<open>The queries of an inventory scan (\<open>core/scan_queries.py\<close>)\<close>

text \<open>
  An inventory scan asks a device everything that is known to be askable: the query frames of the
  glossary, the direct sub-pages, all known properties in batches of eight, the device identifier and a
  sweep over the group pages.  \<open>build_scan_queries\<close> lists them as labels and frames.  Its arguments are the
  glossary and the protocol byte; the appliance byte is the default everywhere.

  Lemmas: every frame is built whatever the protocol byte, passes the check of the receiver, and the
  property batches name every known property exactly once.
\<close>

subsection \<open>Builders\<close>

definition build_direct_subpage_query :: "int \<Rightarrow> int \<Rightarrow> int \<Rightarrow> bytes res" where
  "build_direct_subpage_query subpage appliance proto = build_frame [0x41, low_byte subpage] 0x03 appliance proto 0 0"

definition build_optcommand_query :: "int \<Rightarrow> int \<Rightarrow> int \<Rightarrow> int \<Rightarrow> bytes res" where
  "build_optcommand_query opt_cmd query_stat appliance proto =
     build_frame ((replicate 24 0)[0 := 0x41, 1 := 0x21, 4 := low_byte opt_cmd, 5 := 0xFF, 7 := low_byte query_stat])
       0x03 appliance proto 0 0"

definition build_group_query_raw :: "int \<Rightarrow> int \<Rightarrow> int \<Rightarrow> int \<Rightarrow> bytes res" where
  "build_group_query_raw page variant appliance proto =
     bind_res (to_byte variant) (\<lambda>v.
       build_frame ((replicate 24 0)[0 := 0x41, 1 := v, 2 := 0x01, 3 := low_byte page]) 0x03 appliance proto 0 0)"

definition build_device_id_query :: "int \<Rightarrow> int \<Rightarrow> bytes res" where
  "build_device_id_query appliance proto = build_frame [0x00] 0x07 appliance proto 0 0"

definition scan_property_query :: "(int \<times> int) list \<Rightarrow> int \<Rightarrow> int \<Rightarrow> bytes res" where
  "scan_property_query prop_ids appliance proto =
     bind_res (to_byte (int (length prop_ids))) (\<lambda>n.
       build_frame (0xB1 # n # concat (map (\<lambda>(lo, hi). [low_byte lo, low_byte hi]) prop_ids)) 0x03 appliance proto 0 0)"

subsection \<open>The known properties\<close>

definition B1_PROPERTY_IDS :: "(int \<times> int \<times> string) list" where
  "B1_PROPERTY_IDS =
    [(0x15, 0x00, ''indoor_humidity''), (0x3F, 0x00, ''error_code_query''), (0x41, 0x00, ''mode_query''),
     (0x1A, 0x00, ''tone_buzzer''), (0x18, 0x00, ''no_wind_sense''), (0x32, 0x00, ''wind_straight_avoid''),
     (0x39, 0x00, ''self_clean''), (0x42, 0x00, ''prevent_straight_wind''), (0x48, 0x00, ''rate_select''),
     (0x09, 0x00, ''wind_swing_ud_angle''), (0x0A, 0x00, ''wind_swing_lr_angle''), (0x0B, 0x02, ''pm25_value''),
     (0x28, 0x02, ''operating_time''), (0x91, 0x00, ''has_icheck''), (0x4B, 0x00, ''fresh_air''),
     (0xAD, 0x00, ''comfort''), (0xE3, 0x00, ''ieco_switch''), (0x47, 0x00, ''high_temperature_monitor''),
     (0x21, 0x00, ''cool_hot_sense''), (0x26, 0x02, ''auto_prevent_straight_wind''),
     (0x34, 0x00, ''intelligent_wind''), (0x3A, 0x00, ''child_prevent_cold_wind''), (0x1B, 0x02, ''little_angel''),
     (0x29, 0x00, ''security''), (0x31, 0x00, ''intelligent_control''), (0x44, 0x00, ''face_register''),
     (0x4E, 0x00, ''even_wind''), (0x4F, 0x00, ''single_tuyere''), (0x58, 0x00, ''prevent_straight_wind_lr''),
     (0x98, 0x00, ''cvp''), (0xAA, 0x00, ''new_wind_sense''), (0x01, 0x02, ''pre_cool_hot''),
     (0x34, 0x02, ''body_check''), (0x8D, 0x00, ''mito_cool_temp''), (0x8E, 0x00, ''mito_heat_temp''),
     (0x4C, 0x00, ''extreme_wind''), (0x59, 0x00, ''wind_around''), (0x8F, 0x00, ''dr_time''),
     (0x27, 0x02, ''remote_control_lock''), (0x49, 0x00, ''prevent_super_cool''), (0x09, 0x04, ''filter_level''),
     (0x20, 0x00, ''voice_control''), (0x24, 0x00, ''volume_control''), (0x90, 0x00, ''cool_heat_amount''),
     (0xE0, 0x00, ''ieco_frame''), (0xAB, 0x00, ''indoor_unit_code''), (0xAC, 0x00, ''outdoor_unit_code''),
     (0x51, 0x00, ''parent_control''), (0x25, 0x02, ''temperature_ranges''),
     (0x30, 0x02, ''main_horizontal_guide_strip''), (0x31, 0x02, ''sup_horizontal_guide_strip'')]"

definition BATCH :: nat where "BATCH = 8"

definition batches :: "'a list \<Rightarrow> 'a list list" where  \<comment> \<open>\<open>xs[i : i + BATCH] for i in range(0, len(xs), BATCH)\<close>\<close>
  "batches xs = map (\<lambda>k. slice (BATCH * k) (BATCH * k + BATCH) xs) [0..<(length xs + (BATCH - 1)) div BATCH]"

subsection \<open>The list of queries\<close>

definition SCAN_FRAMES :: "string list" where
  "SCAN_FRAMES =
     [''cmd_0xb5_extended'', ''cmd_0xb5_simple'', ''cmd_0x41'', ''cmd_0x41_group4_power'', ''cmd_0x41_group5'', ''cmd_0x41_ext'']"

definition scan_glossary_queries :: "glossary \<Rightarrow> int \<Rightarrow> (string \<times> bytes) list" where
  "scan_glossary_queries g proto =
     concat (map (\<lambda>fid.
       case dget (gl_frames g) fid of
         None \<Rightarrow> []
       | Some spec \<Rightarrow>
           (if ''uart'' \<notin> set (if fs_bus spec = [] then [''uart'', ''rt''] else fs_bus spec) then []
            else case build_frame_from_spec fid g 0xAC proto 0 0 None [] 0 of Inl _ \<Rightarrow> [] | Inr frame \<Rightarrow> [(fid, frame)]))
       SCAN_FRAMES)"

definition labelled :: "string \<Rightarrow> bytes res \<Rightarrow> (string \<times> bytes) res" where
  "labelled label r = bind_res r (\<lambda>frame. Inr (label, frame))"

definition property_batch :: "int \<Rightarrow> (int \<times> int \<times> string) list \<Rightarrow> (string \<times> bytes) res" where
  "property_batch proto batch =
     labelled (''B1_props_'' @ join_with ''+'' (map (\<lambda>(lo, hi, lbl). lbl) batch))
       (scan_property_query (map (\<lambda>(lo, hi, lbl). (lo, hi)) batch) 0xAC proto)"

definition group_query :: "int \<Rightarrow> string \<Rightarrow> int \<Rightarrow> (string \<times> bytes) res" where
  "group_query proto suffix page =
     labelled (''group_0x'' @ hex2 (low_byte page) @ ''_v21'' @ suffix) (build_group_query_raw page 0x21 0xAC proto)"

definition build_scan_queries :: "glossary \<Rightarrow> int \<Rightarrow> (string \<times> bytes) list res" where
  "build_scan_queries g proto =
     bind_res (map_res (\<lambda>sp. labelled (''direct_subpage_0x'' @ hex2 (low_byte sp)) (build_direct_subpage_query sp 0xAC proto)) [0x01, 0x02]) (\<lambda>subpages.
     bind_res (map_res (property_batch proto) (batches B1_PROPERTY_IDS)) (\<lambda>properties.
     bind_res (labelled ''device_id_0x07'' (build_device_id_query 0xAC proto)) (\<lambda>device_id.
     bind_res (map_res (group_query proto [])
       [0x40, 0x42, 0x43, 0x46, 0x47, 0x48, 0x49, 0x4A, 0x4B, 0x4C, 0x4D, 0x4E, 0x4F]) (\<lambda>groups.
     bind_res (map_res (group_query proto ''_rt_test'') [0x41, 0x43]) (\<lambda>tests.
       Inr (scan_glossary_queries g proto @ subpages @ properties @ [device_id] @ groups @ tests))))))"

subsection \<open>Every query is built and valid\<close>

definition query_on_wire :: "int \<Rightarrow> bytes \<Rightarrow> bytes \<Rightarrow> bool" where
  "query_on_wire proto body f \<longleftrightarrow>
     (\<exists>p. validate_frame f = Inr p \<and> pf_body p = body \<and> pf_proto p = proto mod 256 \<and> pf_appliance p = 0xAC)"

lemma query_built:
  assumes "body \<noteq> []" "length body \<le> 244" "0 \<le> msg" "msg < 256"
  shows "\<exists>f. build_frame body msg 0xAC proto 0 0 = Inr f \<and> query_on_wire proto body f"
proof -
  obtain f where f: "build_frame body msg 0xAC proto 0 0 = Inr f"
    using link.small_builds [OF assms(2-4), of "0xAC" proto 0 0] by auto
  show ?thesis using f validate_built [OF f assms(1)] by (simp add: query_on_wire_def)
qed

definition property_ids :: "bytes \<Rightarrow> (int \<times> int) list" where
  "property_ids f =
     (case validate_frame f of
        Inr p \<Rightarrow> if hd (pf_body p) = 0xB1 then query_pairs (drop 2 (pf_body p)) else []
      | Inl _ \<Rightarrow> [])"

lemma property_ids_body:
  "query_on_wire proto body f \<Longrightarrow> property_ids f = (if hd body = 0xB1 then query_pairs (drop 2 body) else [])"
  by (auto simp: query_on_wire_def property_ids_def)

definition sound_query :: "int \<Rightarrow> (int \<times> int) list \<Rightarrow> string \<times> bytes \<Rightarrow> bool" where
  "sound_query proto ids q \<longleftrightarrow> (\<exists>body. query_on_wire proto body (snd q)) \<and> property_ids (snd q) = ids"

lemma labelled_sound:
  assumes "\<exists>f. r = Inr f \<and> query_on_wire proto body f"
  shows "\<exists>q. labelled l r = Inr q \<and> sound_query proto (if hd body = 0xB1 then query_pairs (drop 2 body) else []) q"
  using assms by (auto simp: labelled_def sound_query_def property_ids_body)

lemma subpage_sound: "\<exists>q. labelled l (build_direct_subpage_query sp 0xAC proto) = Inr q \<and> sound_query proto [] q"
  using labelled_sound [OF query_built [of "[0x41, low_byte sp]" 3 proto]] by (simp add: build_direct_subpage_query_def)

lemma device_id_sound: "\<exists>q. labelled l (build_device_id_query 0xAC proto) = Inr q \<and> sound_query proto [] q"
  using labelled_sound [OF query_built [of "[0x00]" 7 proto]] by (simp add: build_device_id_query_def)

lemma group_sound: "\<exists>q. group_query proto suffix page = Inr q \<and> sound_query proto [] q"
  using labelled_sound [OF query_built [of "(replicate 24 0)[0 := 0x41, 1 := 0x21, 2 := 0x01, 3 := low_byte page]" 3 proto]]
  by (simp add: group_query_def build_group_query_raw_def to_byte_def hd_conv_nth)

definition batch_ids :: "(int \<times> int \<times> string) list \<Rightarrow> (int \<times> int) list" where
  "batch_ids batch = map (\<lambda>(lo, hi, lbl). (lo, hi)) batch"

lemma batch_sound:
  assumes "length batch \<le> 100" "list_all (\<lambda>(lo, hi, lbl). 0 \<le> lo \<and> lo < 256 \<and> 0 \<le> hi \<and> hi < 256) batch"
  shows "\<exists>q. property_batch proto batch = Inr q \<and> sound_query proto (batch_ids batch) q"
proof -
  let ?ids = "batch_ids batch"
  let ?body = "0xB1 # word_of_nat (length ?ids) # concat (map (\<lambda>(lo, hi). [low_byte lo, low_byte hi]) ?ids)"
  have n: "length ?ids \<le> 100" using assms(1) by (simp add: batch_ids_def)
  have "\<exists>f. build_frame ?body 3 0xAC proto 0 0 = Inr f \<and> query_on_wire proto ?body f"
    by (rule query_built) (use n in \<open>simp_all add: length_pair_bytes\<close>)
  from labelled_sound [OF this]
  have "\<exists>q. property_batch proto batch = Inr q \<and> sound_query proto (query_pairs (drop 2 ?body)) q"
    using n by (simp add: property_batch_def scan_property_query_def to_byte_def flip: batch_ids_def)
  moreover have "query_pairs (drop 2 ?body) = map (\<lambda>(lo, hi). (lo mod 256, hi mod 256)) ?ids"
    by (simp add: query_pairs_concat)
  moreover have "map (\<lambda>(lo, hi). (lo mod 256, hi mod 256)) ?ids = ?ids"
    using assms(2) by (induction batch) (auto simp: batch_ids_def)
  ultimately show ?thesis by simp
qed

lemma batches_flat:
  "concat (map batch_ids (batches B1_PROPERTY_IDS)) = batch_ids B1_PROPERTY_IDS"
  by (simp add: batches_def BATCH_def B1_PROPERTY_IDS_def slice_def batch_ids_def upt_rec)

lemma batches_small:
  "batch \<in> set (batches B1_PROPERTY_IDS) \<Longrightarrow>
   length batch \<le> BATCH \<and> list_all (\<lambda>(lo, hi, lbl). 0 \<le> lo \<and> lo < 256 \<and> 0 \<le> hi \<and> hi < 256) batch"
proof -
  have "list_all (\<lambda>batch. length batch \<le> BATCH \<and> list_all (\<lambda>(lo, hi, lbl). 0 \<le> lo \<and> lo < 256 \<and> 0 \<le> hi \<and> hi < 256) batch)
          (batches B1_PROPERTY_IDS)"
    by (simp add: batches_def BATCH_def B1_PROPERTY_IDS_def slice_def upt_rec)
  then show "batch \<in> set (batches B1_PROPERTY_IDS) \<Longrightarrow> ?thesis" by (simp add: list_all_iff)
qed

lemma known_distinct: "distinct (batch_ids B1_PROPERTY_IDS)"
  by (simp add: B1_PROPERTY_IDS_def batch_ids_def)

lemma sound_flat:
  "list_all2 (\<lambda>x. sound_query proto (ids x)) xs qs \<Longrightarrow> concat (map (property_ids \<circ> snd) qs) = concat (map ids xs)"
  by (induction rule: list_all2_induct) (simp_all add: sound_query_def)

definition valid_query :: "int \<Rightarrow> string \<times> bytes \<Rightarrow> bool" where
  "valid_query proto q \<longleftrightarrow>
     (\<exists>p. validate_frame (snd q) = Inr p \<and> pf_proto p = proto mod 256 \<and> pf_appliance p = 0xAC) \<and>
     length (property_ids (snd q)) \<le> BATCH"

lemma sound_valid:
  "list_all2 (\<lambda>x. sound_query proto (ids x)) xs qs \<Longrightarrow> \<forall>x \<in> set xs. length (ids x) \<le> BATCH \<Longrightarrow> list_all (valid_query proto) qs"
  by (induction rule: list_all2_induct) (auto simp: sound_query_def valid_query_def query_on_wire_def)

text \<open>Whatever the glossary holds and whatever the protocol byte is, the list is built.  It starts with
  the query frames of the glossary; every other frame passes the receiver's check with the protocol and the
  appliance byte asked for and names at most eight properties; together they name every known property
  exactly once, in order.\<close>

theorem scan_asks_everything:
  "\<exists>own. build_scan_queries g proto = Inr (scan_glossary_queries g proto @ own) \<and>
     list_all (valid_query proto) own \<and>
     concat (map (property_ids \<circ> snd) own) = map (\<lambda>(lo, hi, lbl). (lo, hi)) B1_PROPERTY_IDS \<and>
     distinct (concat (map (property_ids \<circ> snd) own))"
proof -
  have subs: "\<exists>qs. map_res (\<lambda>sp. labelled (''direct_subpage_0x'' @ hex2 (low_byte sp)) (build_direct_subpage_query sp 0xAC proto)) sps = Inr qs \<and>
      list_all2 (\<lambda>x. sound_query proto []) sps qs" for sps
    by (rule map_res_all) (rule subpage_sound)
  then obtain sub where sub: "map_res (\<lambda>sp. labelled (''direct_subpage_0x'' @ hex2 (low_byte sp)) (build_direct_subpage_query sp 0xAC proto)) [0x01, 0x02] = Inr sub"
      "list_all2 (\<lambda>x. sound_query proto []) [0x01, 0x02 :: int] sub"
    by blast
  have "\<exists>q. property_batch proto b = Inr q \<and> sound_query proto (batch_ids b) q" if "b \<in> set (batches B1_PROPERTY_IDS)" for b
    by (rule batch_sound) (use batches_small [OF that] in \<open>simp_all add: BATCH_def\<close>)
  then obtain props where props: "map_res (property_batch proto) (batches B1_PROPERTY_IDS) = Inr props"
      "list_all2 (\<lambda>b. sound_query proto (batch_ids b)) (batches B1_PROPERTY_IDS) props"
    using map_res_all [of "batches B1_PROPERTY_IDS" "property_batch proto" "\<lambda>b. sound_query proto (batch_ids b)"] by blast
  obtain dev where dev: "labelled ''device_id_0x07'' (build_device_id_query 0xAC proto) = Inr dev" "sound_query proto [] dev"
    using device_id_sound by blast
  have groups: "\<exists>qs. map_res (group_query proto suffix) pages = Inr qs \<and> list_all2 (\<lambda>x. sound_query proto []) pages qs" for suffix pages
    by (rule map_res_all) (rule group_sound)
  define pages where "pages = [0x40, 0x42, 0x43, 0x46, 0x47, 0x48, 0x49, 0x4A, 0x4B, 0x4C, 0x4D, 0x4E, 0x4F :: int]"
  obtain grp tst where grp: "map_res (group_query proto []) pages = Inr grp" "list_all2 (\<lambda>x. sound_query proto []) pages grp"
    and tst: "map_res (group_query proto ''_rt_test'') [0x41, 0x43] = Inr tst" "list_all2 (\<lambda>x. sound_query proto []) [0x41, 0x43 :: int] tst"
    using groups by blast
  let ?own = "sub @ props @ [dev] @ grp @ tst"
  have "build_scan_queries g proto = Inr (scan_glossary_queries g proto @ ?own)"
    by (simp only: build_scan_queries_def bind_res_simps sub(1) props(1) dev(1) grp(1) [unfolded pages_def] tst(1))
  moreover have "list_all (valid_query proto) ?own"
    using sound_valid [OF sub(2)] sound_valid [OF grp(2)] sound_valid [OF tst(2)] sound_valid [of proto "\<lambda>_. []" "[()]" "[dev]"] dev(2)
      sound_valid [OF props(2)] batches_small by (auto simp: batch_ids_def list_all_iff)
  moreover have "concat (map (property_ids \<circ> snd) ?own) = batch_ids B1_PROPERTY_IDS"
  proof -
    have "concat (map (property_ids \<circ> snd) sub) = []" using sound_flat [OF sub(2)] by simp
    moreover have "concat (map (property_ids \<circ> snd) grp) = []" using sound_flat [OF grp(2)] by simp
    moreover have "concat (map (property_ids \<circ> snd) tst) = []" using sound_flat [OF tst(2)] by simp
    moreover have "property_ids (snd dev) = []" using dev(2) by (simp add: sound_query_def)
    ultimately show ?thesis using sound_flat [OF props(2)] batches_flat by (simp del: concat_eq_Nil_conv)
  qed
  ultimately show ?thesis using known_distinct unfolding batch_ids_def by (intro exI [of _ ?own]) simp
qed

end
