(* ===== verification/Quirks.thy ===== *)
theory Quirks
  imports Typing Device
begin

section \<open>Device quirks (\<open>core/quirks.py\<close>)\<close>

text \<open>
  A quirks file corrects what a device says about itself: it overrides the availability of fields and
  injects capability records the device should have sent.  \<open>apply_device_quirks\<close> changes the status in
  place; here the new status is returned with the report, also when an exception leaves the function.

  The types are the ones of \<open>data/device_quirks_schema.json\<close>: bytes are integers of 0..255.  The
  validator of the \<open>jsonschema\<close> package is the argument \<open>valid\<close>.

  Lemmas: overrides win over what the records say, what the device itself reported is kept unless a quirk
  forces it, and applying the same quirks twice changes nothing more.
\<close>

record synth_entry =
  se_cap_id :: string
  se_cap_type :: "byte option"
  se_data :: bytes
  se_force :: bool

record quirks =
  qk_name :: string
  qk_feature_available :: "(string, string) dict"
  qk_synthesize :: "synth_entry list"

record quirks_report =
  qr_name :: string
  qr_fields_overridden :: "string list"
  qr_caps_synthesized :: "string list"
  qr_caps_skipped :: "string list"

definition int_base16 :: "string \<Rightarrow> int res" where  \<comment> \<open>\<open>int(s, 16)\<close> of a string that starts with \<open>0x\<close>\<close>
  "int_base16 s = prefixed_digits 16 (drop 2 (strip s))"

subsection \<open>Overrides\<close>

fun override_fields :: "(string, field_def) dict \<Rightarrow> (string \<times> string) list \<Rightarrow> status \<Rightarrow> string list \<Rightarrow> status \<times> string list res" where
  "override_fields flds [] st over = (st, Inr over)"
| "override_fields flds ((name, fa) # rest) st over =
     (if \<not> has_key flds name then (st, Inl ValueError)
      else if \<not> has_key (st_fields st) name then (st, Inl ValueError)
      else override_fields flds rest (set_feature name fa st) (over @ [name]))"

subsection \<open>Synthesized capabilities\<close>

text \<open>\<open>existing_cap_ids\<close> maps an identifier to the position of its last record.\<close>

definition cap_positions :: "cap_record list \<Rightarrow> (string, nat) dict" where
  "cap_positions caps = fold (\<lambda>(i, r). dset (lower (cr_cap_id r)) i) (enumerate 0 caps) []"

record synthesis =
  sy_caps_raw :: "cap_record list"
  sy_existing :: "(string, nat) dict"
  sy_records :: "cap_record list"
  sy_applied :: "string list"
  sy_skipped :: "string list"

definition synth_record :: "synth_entry \<Rightarrow> int \<Rightarrow> cap_record" where
  "synth_record e n = mk_cap_record (low_byte n) (case se_cap_type e of None \<Rightarrow> 0x02 | Some t \<Rightarrow> t) (se_data e)"

definition synthesize_one :: "synth_entry \<Rightarrow> synthesis \<Rightarrow> synthesis res" where
  "synthesize_one e y =
     (let key = lower (se_cap_id e)
      in if has_key (sy_existing y) key \<and> \<not> se_force e then Inr (y\<lparr>sy_skipped := sy_skipped y @ [se_cap_id e]\<rparr>)
         else bind_res (int_base16 key) (\<lambda>n.
           let r = synth_record e n;
               y' = (case dget (sy_existing y) key of
                       Some i \<Rightarrow> y\<lparr>sy_caps_raw := (sy_caps_raw y)[i := r]\<rparr>
                     | None \<Rightarrow> y\<lparr>sy_caps_raw := sy_caps_raw y @ [r], sy_existing := dset key (length (sy_caps_raw y)) (sy_existing y)\<rparr>)
           in Inr (y'\<lparr>sy_records := sy_records y @ [r], sy_applied := sy_applied y @ [se_cap_id e]\<rparr>)))"

fun synthesize :: "synth_entry list \<Rightarrow> synthesis \<Rightarrow> synthesis \<times> unit res" where  \<comment> \<open>the state also when an exception ends it\<close>
  "synthesize [] y = (y, Inr ())"
| "synthesize (e # es) y = (case synthesize_one e y of Inl x \<Rightarrow> (y, Inl x) | Inr y' \<Rightarrow> synthesize es y')"

definition initial_synthesis :: "status \<Rightarrow> synthesis" where
  "initial_synthesis st =
     \<lparr>sy_caps_raw = st_capabilities_raw st, sy_existing = cap_positions (st_capabilities_raw st),
      sy_records = [], sy_applied = [], sy_skipped = []\<rparr>"

definition reapply :: "(string, string) dict \<Rightarrow> status \<Rightarrow> status" where
  "reapply overrides st = fold (\<lambda>(name, fa). set_feature name fa) overrides st"

definition apply_device_quirks :: "(quirks \<Rightarrow> bool) \<Rightarrow> status \<Rightarrow> quirks \<Rightarrow> glossary \<Rightarrow> status \<times> quirks_report res" where
  "apply_device_quirks valid st q g =
     (if \<not> valid q then (st, Inl ValueError)
      else case override_fields (walk_fields g) (qk_feature_available q) st [] of
             (st, Inl e) \<Rightarrow> (st, Inl e)
           | (st, Inr over) \<Rightarrow>
               (case synthesize (qk_synthesize q) (initial_synthesis st) of
                  (y, r) \<Rightarrow>
                    (let st = st\<lparr>st_capabilities_raw := sy_caps_raw y\<rparr>
                     in case r of
                          Inl e \<Rightarrow> (st, Inl e)
                        | Inr _ \<Rightarrow>
                            (let st = (if sy_records y \<noteq> [] then apply_caps_to_fields True g (sy_records y) st else st)
                             in (reapply (qk_feature_available q) st,
                                 Inr \<lparr>qr_name = qk_name q, qr_fields_overridden = over,
                                      qr_caps_synthesized = sy_applied y, qr_caps_skipped = sy_skipped y\<rparr>)))))"

fun apply_quirks_files :: "(quirks \<Rightarrow> bool) \<Rightarrow> status \<Rightarrow> (string \<times> quirks) list \<Rightarrow> glossary \<Rightarrow> status \<times> (quirks_report \<times> string) list res" where
  \<comment> \<open>the loaded files with their paths\<close>
  "apply_quirks_files valid st [] g = (st, Inr [])"
| "apply_quirks_files valid st ((path, q) # rest) g =
     (case apply_device_quirks valid st q g of
        (st, Inl e) \<Rightarrow> (st, Inl e)
      | (st, Inr report) \<Rightarrow>
          (case apply_quirks_files valid st rest g of
             (st, r) \<Rightarrow> (st, bind_res r (\<lambda>reports. Inr ((report, path) # reports)))))"

subsection \<open>Overrides win\<close>

lemma set_feature_same: "feature st n = Some fa \<Longrightarrow> set_feature n fa st = st"
proof (cases "dget (st_fields st) n")
  case (Some sf)
  assume "feature st n = Some fa"
  then have "sf\<lparr>sf_feature_available := Some fa\<rparr> = sf" using Some by (simp add: feature_def)
  then show ?thesis using Some by (simp add: set_feature_def dset_same)
qed (simp add: feature_def)

lemma override_fields_Inr:
  "override_fields flds ov st over = (st', Inr out) \<Longrightarrow>
     same_session st st' \<and> out = over @ dkeys ov \<and> list_all (\<lambda>(n, fa). has_key flds n \<and> has_key (st_fields st) n) ov \<and>
     (typed st \<longrightarrow> typed st')"
proof (induction flds ov st over rule: override_fields.induct)
  case (2 flds n fa rest st over)
  then have h: "has_key flds n" "has_key (st_fields st) n"
    and r: "override_fields flds rest (set_feature n fa st) (over @ [n]) = (st', Inr out)"
    by (auto split: if_splits)
  have k: "has_key (st_fields (set_feature n fa st)) m = has_key (st_fields st) m" for m
    using same_session_basic(2) [where st = st and name = n and fa = fa] by (simp add: same_session_def)
  show ?case using "2.IH" [OF _ _ r] h same_session_trans [OF same_session_basic(2) [where st = st and name = n and fa = fa], of st']
    by (simp add: k dkeys_def typing)
qed (simp add: dkeys_def)

lemma override_fields_same:
  "list_all (\<lambda>(n, fa). has_key flds n \<and> feature st n = Some fa) ov \<Longrightarrow> override_fields flds ov st over = (st, Inr (over @ dkeys ov))"
proof (induction ov arbitrary: over)
  case (Cons x ov)
  obtain n fa where x: "x = (n, fa)" by (cases x)
  have "has_key (st_fields st) n" using Cons.prems x by (auto simp: feature_def has_key_def split: option.splits)
  then show ?case using Cons x by (simp add: set_feature_same dkeys_def)
qed (simp add: dkeys_def)

lemma reapply_same: "list_all (\<lambda>(n, fa). feature st n = Some fa) ov \<Longrightarrow> reapply ov st = st"
  by (induction ov) (auto simp: reapply_def set_feature_same)

lemma reapply_session: "same_session st (reapply ov st)"
proof (induction ov arbitrary: st)
  case (Cons x ov)
  obtain n fa where x: "x = (n, fa)" by (cases x)
  show ?case using Cons [of "set_feature n fa st"] same_session_trans [OF same_session_basic(2) [where st = st and name = n and fa = fa]]
    by (simp add: reapply_def x)
qed (simp add: reapply_def)

lemma reapply_typed: "typed st \<Longrightarrow> typed (reapply ov st)"
  by (induction ov arbitrary: st) (auto simp: reapply_def typing)

lemma reapply_other: "n \<notin> set (dkeys ov) \<Longrightarrow> feature (reapply ov st) n = feature st n"
  by (induction ov arbitrary: st) (auto simp: reapply_def dkeys_def)

lemma reapply_wins:
  "distinct (dkeys ov) \<Longrightarrow> list_all (\<lambda>(n, fa). has_key (st_fields st) n) ov \<Longrightarrow>
   list_all (\<lambda>(n, fa). feature (reapply ov st) n = Some fa) ov"
proof (induction ov arbitrary: st)
  case (Cons x ov)
  obtain n fa where x: "x = (n, fa)" by (cases x)
  have k: "has_key (st_fields (set_feature n fa st)) m = has_key (st_fields st) m" for m
    using same_session_basic(2) [where st = st and name = n and fa = fa] by (simp add: same_session_def)
  have r: "reapply (x # ov) st = reapply ov (set_feature n fa st)" by (simp add: reapply_def x)
  have "feature (reapply ov (set_feature n fa st)) n = Some fa"
    using reapply_other [of n ov "set_feature n fa st"] Cons.prems x by (simp add: dkeys_def)
  moreover have "list_all (\<lambda>(m, f). feature (reapply ov (set_feature n fa st)) m = Some f) ov"
    using Cons.IH [of "set_feature n fa st"] Cons.prems by (simp add: x dkeys_def k)
  ultimately show ?case unfolding r by (simp add: x)
qed simp

subsection \<open>Records of the device are kept\<close>

definition cap_key :: "cap_record \<Rightarrow> string" where "cap_key r = lower (cr_cap_id r)"

text \<open>The pattern the schema asks of an identifier.\<close>

definition cap_id_ok :: "string \<Rightarrow> bool" where
  "cap_id_ok s = (case s of [z, x, a, b] \<Rightarrow> z = CHR ''0'' \<and> x = CHR ''x'' \<and> hex_val a \<noteq> None \<and> hex_val b \<noteq> None | _ \<Rightarrow> False)"

lemma lower_char_idem: "lower_char (lower_char c) = lower_char c"
  by (auto simp: lower_char_def Let_def)

lemma hex_digit_of_val:
  assumes "hex_val c = Some d"
  shows "0 \<le> d \<and> d < 16 \<and> lower_char (hex_digit (nat d)) = lower_char c"
proof -
  define m where "m = lower_char c"
  define n where "n = (of_char m :: nat)"
  have m: "m = char_of n" by (simp add: n_def)
  have nn: "(of_char m :: int) = int n" unfolding n_def by (rule of_nat_of_char [symmetric])
  have d: "48 \<le> n \<and> n \<le> 57 \<and> d = int n - 48 \<or> 97 \<le> n \<and> n \<le> 102 \<and> d = int n - 87"
    using assms by (auto simp: hex_val_def Let_def nn simp flip: m_def split: if_splits)
  have "n \<in> {48, 49, 50, 51, 52, 53, 54, 55, 56, 57, 97, 98, 99, 100, 101, 102}" unfolding insert_iff empty_iff using d by presburger
  then have "lower_char (hex_digit (nat d)) = m" unfolding m
    using d by (elim insertE emptyE) (simp_all add: hex_digit_def lower_char_def char_of_def bit_0)
  then show ?thesis using d by (auto simp: m_def)
qed


lemma cap_key_synth:
  assumes "cap_id_ok s"
  shows "\<exists>n. int_base16 (lower s) = Inr n \<and> (\<forall>t d. cap_key (mk_cap_record (low_byte n) t d) = lower s)"
proof -
  obtain a b i j where s: "s = [CHR ''0'', CHR ''x'', a, b]" and h: "hex_val a = Some i" "hex_val b = Some j"
    using assms by (auto simp: cap_id_ok_def split: list.splits)
  have l: "hex_val (lower_char c) = hex_val c" for c by (simp add: hex_val_def lower_char_idem)
  have i: "0 \<le> i" "i < 16" "lower_char (hex_digit (nat i)) = lower_char a" using hex_digit_of_val [OF h(1)] by simp_all
  have j: "0 \<le> j" "j < 16" "lower_char (hex_digit (nat j)) = lower_char b" using hex_digit_of_val [OF h(2)] by simp_all
  have u: "\<not> str_space (lower_char b)" "lower_char a \<noteq> CHR ''_''"
    using h l [of a] l [of b] by (auto simp: str_space_def is_space_def hex_val_def Let_def lower_char_def)
  have z: "lower s = [CHR ''0'', CHR ''x'', lower_char a, lower_char b]" by (simp add: s lower_def lower_char_def char_of_def)
  have t: "strip (lower s) = lower s" using u by (simp add: z strip_def str_space_def is_space_def)
  have n: "int_base16 (lower s) = Inr (16 * i + j)"
    unfolding int_base16_def t unfolding z using u i j h by (simp add: prefixed_digits_def l)
  have w: "unat (low_byte (16 * i + j)) = nat (16 * i + j)"
    using i(1,2) j(1,2) by (simp add: unat_eq_nat_uint uint_low_byte)
  have "nat (16 * i + j) = 16 * nat i + nat j" "nat j < 16" using i(1) j(1,2) by (simp_all add: nat_add_distrib nat_mult_distrib)
  then have q: "nat (16 * i + j) div 16 = nat i" "nat (16 * i + j) mod 16 = nat j" by simp_all
  have "cap_key (mk_cap_record (low_byte (16 * i + j)) t d) = lower s" for t d
    by (simp add: cap_key_def mk_cap_record_def hex2_def w q i(3) j(3) z) (simp add: lower_def i(3) j(3) lower_char_def [of "CHR ''0''"] lower_char_def [of "CHR ''x''"] char_of_def)
  then show ?thesis using n by blast
qed

text \<open>The positions always point at the record of their identifier, and every record has one.\<close>

definition synthesis_ok :: "synthesis \<Rightarrow> bool" where
  "synthesis_ok y \<longleftrightarrow>
     (\<forall>k i. dget (sy_existing y) k = Some i \<longrightarrow> i < length (sy_caps_raw y) \<and> cap_key (sy_caps_raw y ! i) = k) \<and>
     (\<forall>r \<in> set (sy_caps_raw y). has_key (sy_existing y) (cap_key r))"

lemma cap_positions_snoc: "cap_positions (caps @ [r]) = dset (cap_key r) (length caps) (cap_positions caps)"
  by (simp add: cap_positions_def enumerate_append_eq cap_key_def)

lemma cap_positions_ok:
  "(\<forall>k i. dget (cap_positions caps) k = Some i \<longrightarrow> i < length caps \<and> cap_key (caps ! i) = k) \<and>
   (\<forall>r \<in> set caps. has_key (cap_positions caps) (cap_key r))"
proof (induction caps rule: rev_induct)
  case Nil
  then show ?case by (simp add: cap_positions_def)
next
  case (snoc r caps)
  then show ?case by (auto simp: cap_positions_snoc nth_append less_Suc_eq)
qed

lemma initial_synthesis_ok: "synthesis_ok (initial_synthesis st)"
  using cap_positions_ok [of "st_capabilities_raw st"] by (simp add: synthesis_ok_def initial_synthesis_def)

text \<open>What one entry does: the identifiers stay where they were, and without force the records do.\<close>

definition grown :: "bool \<Rightarrow> synthesis \<Rightarrow> synthesis \<Rightarrow> bool" where
  "grown forced y y' \<longleftrightarrow>
     take (length (sy_caps_raw y)) (map cap_key (sy_caps_raw y')) = map cap_key (sy_caps_raw y) \<and>
     (\<not> forced \<longrightarrow> take (length (sy_caps_raw y)) (sy_caps_raw y') = sy_caps_raw y) \<and>
     (\<forall>k. has_key (sy_existing y) k \<longrightarrow> has_key (sy_existing y') k)"

lemma grown_refl: "grown f y y"
  by (simp add: grown_def)

lemma take_prefix_trans: "take (length xs) ys = xs \<Longrightarrow> take (length ys) zs = ys \<Longrightarrow> take (length xs) zs = xs"
  by (metis append_take_drop_id length_append take_all_iff take_append diff_is_0_eq' le_add1 take0 append_Nil2 linorder_le_cases take_take min.absorb1)

lemma grown_trans: "grown f y y' \<Longrightarrow> grown f y' y'' \<Longrightarrow> grown f y y''"
  unfolding grown_def
  using take_prefix_trans [of "map cap_key (sy_caps_raw y)" "map cap_key (sy_caps_raw y')" "map cap_key (sy_caps_raw y'')"]
    take_prefix_trans [of "sy_caps_raw y" "sy_caps_raw y'" "sy_caps_raw y''"] by simp

lemma synthesize_one_ok:
  assumes "synthesis_ok y" "cap_id_ok (se_cap_id e)"
  shows "\<exists>y'. synthesize_one e y = Inr y' \<and> synthesis_ok y' \<and> grown (se_force e) y y' \<and> has_key (sy_existing y') (lower (se_cap_id e))"
proof -
  let ?k = "lower (se_cap_id e)"
  obtain n where n: "int_base16 ?k = Inr n" "\<And>t d. cap_key (mk_cap_record (low_byte n) t d) = ?k"
    using cap_key_synth [OF assms(2)] by blast
  have r: "cap_key (synth_record e n) = ?k" by (simp add: synth_record_def n(2))
  show ?thesis
  proof (cases "dget (sy_existing y) ?k")
    case None
    then have "\<not> has_key (sy_existing y) ?k" by (simp add: has_key_def)
    then show ?thesis using None n(1) r assms(1)
      by (auto simp: synthesize_one_def Let_def synthesis_ok_def grown_def nth_append less_Suc_eq)
  next
    case (Some i)
    then have h: "has_key (sy_existing y) ?k" by (simp add: has_key_def)
    show ?thesis
    proof (cases "se_force e")
      case False
      then show ?thesis using h assms(1) by (auto simp: synthesize_one_def Let_def synthesis_ok_def grown_def)
    next
      case True
      have i: "i < length (sy_caps_raw y)" "cap_key (sy_caps_raw y ! i) = ?k" using assms(1) Some by (auto simp: synthesis_ok_def)
      have m: "map cap_key ((sy_caps_raw y)[i := synth_record e n]) = map cap_key (sy_caps_raw y)"
        using i r by (metis list_update_id map_update)
      have a: "\<forall>k j. dget (sy_existing y) k = Some j \<longrightarrow>
          j < length ((sy_caps_raw y)[i := synth_record e n]) \<and> cap_key ((sy_caps_raw y)[i := synth_record e n] ! j) = k"
        using assms(1) i r by (auto simp: synthesis_ok_def nth_list_update)
      have b: "\<forall>q \<in> set ((sy_caps_raw y)[i := synth_record e n]). has_key (sy_existing y) (cap_key q)"
        using assms(1) r h set_update_subset_insert [of "sy_caps_raw y" i "synth_record e n"] by (fastforce simp: synthesis_ok_def)
      show ?thesis using True h Some n(1) a b m by (simp add: synthesize_one_def Let_def synthesis_ok_def grown_def)
    qed
  qed
qed

lemma synthesize_ok:
  assumes "synthesis_ok y" "list_all (cap_id_ok \<circ> se_cap_id) es"
  shows "\<exists>y'. synthesize es y = (y', Inr ()) \<and> synthesis_ok y' \<and> grown (list_ex se_force es) y y' \<and>
     list_all (\<lambda>e. has_key (sy_existing y') (lower (se_cap_id e))) es"
  using assms
proof (induction es arbitrary: y)
  case Nil
  then show ?case by (simp add: grown_refl)
next
  case (Cons e es)
  obtain y1 where 1: "synthesize_one e y = Inr y1" "synthesis_ok y1" "grown (se_force e) y y1" "has_key (sy_existing y1) (lower (se_cap_id e))"
    using synthesize_one_ok [of y e] Cons.prems by auto
  obtain y2 where 2: "synthesize es y1 = (y2, Inr ())" "synthesis_ok y2" "grown (list_ex se_force es) y1 y2"
      "list_all (\<lambda>e. has_key (sy_existing y2) (lower (se_cap_id e))) es"
    using Cons.IH [of y1] 1(2) Cons.prems by auto
  have "grown (se_force e \<or> list_ex se_force es) y y1" "grown (se_force e \<or> list_ex se_force es) y1 y2"
    using 1(3) 2(3) by (simp_all add: grown_def)
  then have "grown (se_force e \<or> list_ex se_force es) y y2" by (rule grown_trans)
  moreover have "has_key (sy_existing y2) (lower (se_cap_id e))" using 1(4) 2(3) by (simp add: grown_def)
  ultimately show ?case using 1(1) 2 by simp
qed

text \<open>When every identifier is there and nothing is forced, every entry is skipped.\<close>

lemma synthesize_skips:
  "list_all (\<lambda>e. has_key (sy_existing y) (lower (se_cap_id e)) \<and> \<not> se_force e) es \<Longrightarrow>
   synthesize es y = (y\<lparr>sy_skipped := sy_skipped y @ map se_cap_id es\<rparr>, Inr ())"
  by (induction es arbitrary: y) (auto simp: synthesize_one_def Let_def)


subsection \<open>The contract\<close>

definition quirks_ok :: "quirks \<Rightarrow> bool" where  \<comment> \<open>what the schema and the type of a dictionary promise\<close>
  "quirks_ok q \<longleftrightarrow> distinct (dkeys (qk_feature_available q)) \<and> list_all (cap_id_ok \<circ> se_cap_id) (qk_synthesize q)"

lemma applied_quirks:
  assumes "apply_device_quirks valid st q g = (st', Inr rep)" "quirks_ok q"
  obtains st1 y where "valid q" "override_fields (walk_fields g) (qk_feature_available q) st [] = (st1, Inr (dkeys (qk_feature_available q)))"
    "synthesize (qk_synthesize q) (initial_synthesis st1) = (y, Inr ())"
    "same_session st st1"
    "same_session (st1\<lparr>st_capabilities_raw := sy_caps_raw y\<rparr>) st'"
    "list_all (\<lambda>(n, fa). has_key (walk_fields g) n \<and> feature st' n = Some fa) (qk_feature_available q)"
    "typed st \<longrightarrow> typed st'"
    "rep = \<lparr>qr_name = qk_name q, qr_fields_overridden = dkeys (qk_feature_available q),
            qr_caps_synthesized = sy_applied y, qr_caps_skipped = sy_skipped y\<rparr>"
proof -
  have v: "valid q" using assms(1) by (auto simp: apply_device_quirks_def split: if_splits)
  obtain st1 r where o: "override_fields (walk_fields g) (qk_feature_available q) st [] = (st1, r)" by fastforce
  obtain over where r: "r = Inr over" using assms(1) v o by (cases r) (auto simp: apply_device_quirks_def)
  note ov = override_fields_Inr [OF o [unfolded r]]
  obtain y where y: "synthesize (qk_synthesize q) (initial_synthesis st1) = (y, Inr ())"
    using synthesize_ok [OF initial_synthesis_ok, of "qk_synthesize q" st1] assms(2) by (auto simp: quirks_ok_def)
  define st2 where "st2 = st1\<lparr>st_capabilities_raw := sy_caps_raw y\<rparr>"
  define st3 where "st3 = (if sy_records y \<noteq> [] then apply_caps_to_fields True g (sy_records y) st2 else st2)"
  have st': "st' = reapply (qk_feature_available q) st3"
    and rep: "rep = \<lparr>qr_name = qk_name q, qr_fields_overridden = over, qr_caps_synthesized = sy_applied y, qr_caps_skipped = sy_skipped y\<rparr>"
    using assms(1) v o r y by (auto simp: apply_device_quirks_def Let_def st2_def st3_def split: if_splits)
  have s3: "same_session st2 st3" unfolding st3_def by (simp add: apply_caps_same_session)
  have "same_session st2 st'" unfolding st' by (rule same_session_trans [OF s3 reapply_session])
  have "has_key (st_fields st3) n = has_key (st_fields st) n" for n
    using s3 ov by (simp add: same_session_def st2_def)
  then have "list_all (\<lambda>(n, fa). feature st' n = Some fa) (qk_feature_available q)"
    unfolding st' using assms(2) ov by (intro reapply_wins) (auto simp: quirks_ok_def list_all_iff)
  then have w: "list_all (\<lambda>(n, fa). has_key (walk_fields g) n \<and> feature st' n = Some fa) (qk_feature_available q)"
    using ov by (auto simp: list_all_iff)
  have "typed st2" if "typed st" using ov that typed_fields [of st1 st2] by (simp add: st2_def)
  then have t: "typed st \<longrightarrow> typed st'" unfolding st' st3_def by (intro impI reapply_typed) (simp add: typing)
  show thesis
    by (rule that [OF v _ y _ _ w t]) (use o r rep ov \<open>same_session st2 st'\<close> in \<open>simp_all add: st2_def\<close>)
qed


text \<open>What a quirks file does.  Every override is in force afterwards, whatever the injected records say;
  each injected identifier has a record; the records the device had stay in their places, and unless the file
  forces it they are unchanged; readings and the state of the session are untouched, and every field keeps
  having its availability.\<close>

theorem quirks_contract:
  assumes "apply_device_quirks valid st q g = (st', Inr rep)" "quirks_ok q"
  shows "list_all (\<lambda>(n, fa). feature st' n = Some fa) (qk_feature_available q) \<and>
    list_all (\<lambda>e. lower (se_cap_id e) \<in> cap_key ` set (st_capabilities_raw st')) (qk_synthesize q) \<and>
    take (length (st_capabilities_raw st)) (map cap_key (st_capabilities_raw st')) = map cap_key (st_capabilities_raw st) \<and>
    (list_all (\<lambda>e. \<not> se_force e) (qk_synthesize q) \<longrightarrow>
       take (length (st_capabilities_raw st)) (st_capabilities_raw st') = st_capabilities_raw st) \<and>
    (\<forall>n. field_sources st' n = field_sources st n) \<and>
    me_phase (st_meta st') = me_phase (st_meta st) \<and> me_caps_finalized (st_meta st') = me_caps_finalized (st_meta st) \<and>
    (typed st \<longrightarrow> typed st')"
proof -
  obtain st1 y where a: "synthesize (qk_synthesize q) (initial_synthesis st1) = (y, Inr ())" "same_session st st1"
      "same_session (st1\<lparr>st_capabilities_raw := sy_caps_raw y\<rparr>) st'"
    and w: "list_all (\<lambda>(n, fa). has_key (walk_fields g) n \<and> feature st' n = Some fa) (qk_feature_available q)"
    and t: "typed st \<longrightarrow> typed st'"
    by (rule applied_quirks [OF assms])
  have y: "synthesis_ok y" "grown (list_ex se_force (qk_synthesize q)) (initial_synthesis st1) y"
      "list_all (\<lambda>e. has_key (sy_existing y) (lower (se_cap_id e))) (qk_synthesize q)"
    using synthesize_ok [OF initial_synthesis_ok, of "qk_synthesize q" st1] assms(2) a(1) by (auto simp: quirks_ok_def)
  have raw: "st_capabilities_raw st' = sy_caps_raw y" "st_capabilities_raw st = sy_caps_raw (initial_synthesis st1)"
    using a(2,3) by (simp_all add: same_session_def initial_synthesis_def)
  have there: "has_key (sy_existing y) k \<Longrightarrow> k \<in> cap_key ` set (sy_caps_raw y)" for k
    using y(1) by (force simp: synthesis_ok_def has_key_def)
  show ?thesis
    using w t y a(2,3) there unfolding raw
    by (auto simp: list_all_iff list_ex_iff grown_def same_session_def field_sources_def)
qed

text \<open>Applying the same quirks again changes nothing: without forced entries the second run returns the
  status it was given, has overridden the same fields, injected nothing and skipped every entry.\<close>

theorem quirks_settle:
  assumes "apply_device_quirks valid st q g = (st', Inr rep)" "quirks_ok q" "list_all (\<lambda>e. \<not> se_force e) (qk_synthesize q)"
  shows "apply_device_quirks valid st' q g =
    (st', Inr (rep\<lparr>qr_caps_synthesized := [], qr_caps_skipped := map se_cap_id (qk_synthesize q)\<rparr>))"
proof -
  obtain st1 y where v: "valid q" and a: "synthesize (qk_synthesize q) (initial_synthesis st1) = (y, Inr ())" "same_session st st1"
      "same_session (st1\<lparr>st_capabilities_raw := sy_caps_raw y\<rparr>) st'"
    and w: "list_all (\<lambda>(n, fa). has_key (walk_fields g) n \<and> feature st' n = Some fa) (qk_feature_available q)"
    and rep: "rep = \<lparr>qr_name = qk_name q, qr_fields_overridden = dkeys (qk_feature_available q),
            qr_caps_synthesized = sy_applied y, qr_caps_skipped = sy_skipped y\<rparr>"
    by (rule applied_quirks [OF assms(1,2)])
  have y: "synthesis_ok y" "list_all (\<lambda>e. has_key (sy_existing y) (lower (se_cap_id e))) (qk_synthesize q)"
    using synthesize_ok [OF initial_synthesis_ok, of "qk_synthesize q" st1] assms(2) a(1) by (auto simp: quirks_ok_def)
  have raw: "st_capabilities_raw st' = sy_caps_raw y" using a(3) by (simp add: same_session_def)
  have "has_key (cap_positions (sy_caps_raw y)) k" if "has_key (sy_existing y) k" for k
  proof -
    have "k \<in> cap_key ` set (sy_caps_raw y)" using y(1) that by (force simp: synthesis_ok_def has_key_def)
    then show ?thesis using cap_positions_ok [of "sy_caps_raw y"] by auto
  qed
  then have "synthesize (qk_synthesize q) (initial_synthesis st') =
      ((initial_synthesis st')\<lparr>sy_skipped := map se_cap_id (qk_synthesize q)\<rparr>, Inr ())"
    using synthesize_skips [of "initial_synthesis st'" "qk_synthesize q"] y(2) assms(3) raw
    by (simp add: initial_synthesis_def list_all_iff)
  moreover have "list_all (\<lambda>(n, fa). feature st' n = Some fa) (qk_feature_available q)" using w by (auto simp: list_all_iff)
  ultimately show ?thesis
    using v override_fields_same [OF w] by (simp add: apply_device_quirks_def reapply_same rep initial_synthesis_def Let_def)
qed

definition DEMO_QUIRKS :: quirks where
  "DEMO_QUIRKS =
     \<lparr>qk_name = ''unit'', qk_feature_available = [(''power'', ''readable'')],
      qk_synthesize = [\<lparr>se_cap_id = ''0x10'', se_cap_type = None, se_data = [0], se_force = False\<rparr>,
                       \<lparr>se_cap_id = ''0x1a'', se_cap_type = Some 2, se_data = [1], se_force = False\<rparr>]\<rparr>"

lemma demo_quirks:
  "quirks_ok DEMO_QUIRKS" "list_all (\<lambda>e. \<not> se_force e) (qk_synthesize DEMO_QUIRKS)"
  by (simp_all add: quirks_ok_def DEMO_QUIRKS_def dkeys_def cap_id_ok_def hex_val_def lower_char_def char_of_def Let_def)

lemma demo_report:
  "snd (apply_device_quirks (\<lambda>q. True) BOOTED DEMO_QUIRKS EXAMPLE) =
     Inr \<lparr>qr_name = ''unit'', qr_fields_overridden = [''power''], qr_caps_synthesized = [''0x1a''], qr_caps_skipped = [''0x10'']\<rparr>"
  by code_simp

theorem quirks_contract_witness:
  "\<exists>st' rep. apply_device_quirks (\<lambda>q. True) BOOTED DEMO_QUIRKS EXAMPLE = (st', Inr rep) \<and>
     feature st' ''power'' = Some ''readable'' \<and> ''0x1a'' \<in> cap_key ` set (st_capabilities_raw st')"
proof -
  obtain st' rep where a: "apply_device_quirks (\<lambda>q. True) BOOTED DEMO_QUIRKS EXAMPLE = (st', Inr rep)"
    using demo_report by (metis prod.collapse)
  have "lower ''0x1a'' = ''0x1a''" by (simp add: lower_def lower_char_def)
  then show ?thesis using a quirks_contract [OF a demo_quirks(1)] by (simp add: DEMO_QUIRKS_def)
qed

theorem quirks_settle_witness:
  "\<exists>st' rep. apply_device_quirks (\<lambda>q. True) BOOTED DEMO_QUIRKS EXAMPLE = (st', Inr rep) \<and>
     apply_device_quirks (\<lambda>q. True) st' DEMO_QUIRKS EXAMPLE =
       (st', Inr (rep\<lparr>qr_caps_synthesized := [], qr_caps_skipped := [''0x10'', ''0x1a'']\<rparr>))"
proof -
  obtain st' rep where a: "apply_device_quirks (\<lambda>q. True) BOOTED DEMO_QUIRKS EXAMPLE = (st', Inr rep)"
    using demo_report by (metis prod.collapse)
  show ?thesis using a quirks_settle [OF a demo_quirks] by (auto simp: DEMO_QUIRKS_def)
qed

end
