(* ===== verification/Inventory.thy ===== *)
theory Inventory
  imports Decode Override Hex "HOL-Library.List_Lexorder" "HOL-Library.Char_ord"
begin

section \<open>Field inventory (\<open>core/inventory.py\<close>)\<close>

text \<open>
  An inventory finds out which fields a unit really fills.  A \<open>ShadowDecoder\<close> decodes every response
  without looking at the capabilities; \<open>snapshot\<close> classifies every field of the glossary by the latest
  responses; fields whose encoding depends on a capability are decoded once per value of the capability and
  \<open>pick_variant\<close> chooses.  For a populated field that is hidden, \<open>synthesize_override_snippet\<close> writes a
  glossary override; \<open>generate_compare_report\<close> compares two inventories.

  The clock, the YAML printer and the schema validator are arguments: \<open>errors\<close> gives the (path, message)
  pairs of a glossary tree.  The typed glossary and its YAML tree are separate arguments where the code
  reads both.  Texts are UTF-8.

  Lemmas: how each field is classified, what a suggested override does to the glossary, and that a comparison
  puts every field into one bucket.
\<close>

subsection \<open>Indices\<close>

definition build_frame_field_index :: "glossary \<Rightarrow> (string, string list) dict" where
  "build_frame_field_index g =
     fold (\<lambda>(field_name, field_def) index.
       fold (\<lambda>protocol_key index. dset protocol_key (dget_or index protocol_key [] @ [field_name]) index)
         (dkeys (fd_protocols field_def)) index)
     (walk_fields g) []"

definition is_cap_dependent :: "field_def \<Rightarrow> bool" where
  "is_cap_dependent field_def =
     list_ex (\<lambda>(_, entry). list_ex (\<lambda>step. ds_encoding step = Some ''capability'') (pl_decode entry)) (fd_protocols field_def)"

definition cap_dependent_fields :: "glossary \<Rightarrow> string list" where
  "cap_dependent_fields g = map fst (filter (\<lambda>(_, field_def). is_cap_dependent field_def) (walk_fields g))"

subsection \<open>Classification\<close>

datatype classification = CLASS_POPULATED | CLASS_ZERO | CLASS_FF_FLOOD | CLASS_NONE | CLASS_NOT_SEEN

definition ALL_CLASSIFICATIONS :: "classification list" where
  "ALL_CLASSIFICATIONS = [CLASS_POPULATED, CLASS_ZERO, CLASS_FF_FLOOD, CLASS_NONE, CLASS_NOT_SEEN]"

definition flooded :: "bytes \<Rightarrow> bool" where
  "flooded body \<longleftrightarrow> body \<noteq> [] \<and> list_all (\<lambda>b. b = 0xFF) body"

definition classify :: "pyval \<Rightarrow> bytes option \<Rightarrow> classification" where
  "classify value raw_frame_body =
     (case value of
        PNone \<Rightarrow> CLASS_NONE
      | PBool b \<Rightarrow> (if b then CLASS_POPULATED else CLASS_ZERO)
      | _ \<Rightarrow>
          (if value = PInt 0 \<or> value = PFloat 0 then CLASS_ZERO
           else if value = PStr [] then CLASS_ZERO
           else case raw_frame_body of
                  Some body \<Rightarrow> if flooded body then CLASS_FF_FLOOD else CLASS_POPULATED
                | None \<Rightarrow> CLASS_POPULATED))"

subsection \<open>Variants\<close>

record variant =
  va_cap_value_name :: string
  va_raw :: int
  va_encoding :: "string option"
  va_value :: pyval
  va_feature_available :: "string option"

definition int_hex :: "string \<Rightarrow> int res" where  \<comment> \<open>\<open>int(s, 16)\<close> of digits, with or without \<open>0x\<close>\<close>
  "int_hex s =
     (let t = (if starts_with ''0x'' s then drop 2 s else s)
      in if t = [] \<or> list_ex (\<lambda>c. hex_val c = None) t then Inl ValueError
         else Inr (fold (\<lambda>c n. 16 * n + the (hex_val c)) t 0))"

definition fake_cap :: "string \<Rightarrow> int \<Rightarrow> int \<Rightarrow> int \<Rightarrow> cap_record" where
  "fake_cap cid n ctype raw_val =
     \<lparr>cr_cap_id = cid, cr_cap_type = ctype, cr_key_16 = ''0x'' @ hex2 (low_byte ctype) @ hex2 (low_byte n),
      cr_data_len = 1, cr_data = [low_byte raw_val], cr_data_hex = lower (hex2 (low_byte raw_val))\<rparr>"

definition entry_value :: "(string, decoded) dict \<Rightarrow> string \<Rightarrow> pyval" where  \<comment> \<open>\<open>(decoded.get(name) or {}).get("value")\<close>\<close>
  "entry_value decoded name = (case dget decoded name of None \<Rightarrow> PNone | Some d \<Rightarrow> decoded_value d)"

definition decode_variants :: "string \<Rightarrow> field_def \<Rightarrow> string \<Rightarrow> bytes \<Rightarrow> glossary \<Rightarrow> variant list res" where
  "decode_variants field_name field_def protocol_key body g =
     (case fd_capability field_def of
        None \<Rightarrow> Inr []
      | Some cap_def \<Rightarrow>
          (case cap_id cap_def of
             None \<Rightarrow> Inr []
           | Some cid \<Rightarrow>
               (if cid = [] \<or> cap_values cap_def = [] then Inr []
                else
                  let ctype = (if cap_type cap_def = Some ''extended'' then 2 else 0)
                  in fold_res (\<lambda>(value_name, vdef) variants.
                       case cv_raw vdef of
                         None \<Rightarrow> Inr variants
                       | Some raw_val \<Rightarrow>
                           bind_res (int_hex (lower cid)) (\<lambda>n.
                           bind_res (decode_frame_fields body protocol_key g (Some [fake_cap cid n ctype raw_val]) None) (\<lambda>(decoded, _).
                             Inr (variants @ [\<lparr>va_cap_value_name = value_name, va_raw = raw_val, va_encoding = cv_encoding vdef,
                                    va_value = entry_value decoded field_name, va_feature_available = cv_feature_available vdef\<rparr>]))))
                     (cap_values cap_def) [])))"

definition meaningful :: "variant \<Rightarrow> bool" where
  "meaningful v \<longleftrightarrow> va_value v \<noteq> PNone \<and> \<not> py_eq (va_value v) (PInt 0)"

text \<open>\<open>lo <= value <= hi\<close>; the bounds are numbers.\<close>

definition between :: "pyval \<Rightarrow> pyval \<Rightarrow> pyval \<Rightarrow> bool res" where
  "between lo hi v =
     (case (num_of lo, num_of hi, num_of v) of
        (Some l, Some h, Some x) \<Rightarrow> Inr (l \<le> x \<and> x \<le> h)
      | _ \<Rightarrow> Inl TypeError)"

fun filter_res :: "('a \<Rightarrow> bool res) \<Rightarrow> 'a list \<Rightarrow> 'a list res" where
  "filter_res p [] = Inr []"
| "filter_res p (x # xs) =
     bind_res (p x) (\<lambda>b. bind_res (filter_res p xs) (\<lambda>ys. Inr (if b then x # ys else ys)))"

definition plausible :: "field_def \<Rightarrow> variant list \<Rightarrow> variant list res" where
  "plausible field_def vs =
     (let candidates = filter (\<lambda>v. va_encoding v \<noteq> None \<and> va_encoding v \<noteq> Some [] \<and> va_feature_available v \<noteq> Some ''excluded'') vs
      in case fd_range field_def of
           Some [lo, hi] \<Rightarrow> filter_res (\<lambda>v. between lo hi (va_value v)) candidates
         | _ \<Rightarrow> Inr candidates)"

definition pick_variant :: "variant list \<Rightarrow> field_def \<Rightarrow> (variant option \<times> bool) res" where
  "pick_variant variants field_def =
     (case filter meaningful variants of
        [] \<Rightarrow> Inr (None, False)
      | [v] \<Rightarrow> Inr (Some v, False)
      | v # vs \<Rightarrow>
          bind_res (plausible field_def (v # vs)) (\<lambda>candidates.
            case candidates of
              [c] \<Rightarrow> Inr (Some c, False)
            | c # cs \<Rightarrow> Inr (Some c, True)
            | [] \<Rightarrow> Inr (Some v, True)))"

subsection \<open>Suggested overrides\<close>

definition preset :: "string \<Rightarrow> string \<Rightarrow> int option \<Rightarrow> (string, json) dict" where
  "preset dc unit precision =
     [(''device_class'', JStr dc), (''state_class'', JStr ''measurement''), (''unit_of_measurement'', JStr unit)] @
     (case precision of None \<Rightarrow> [] | Some p \<Rightarrow> [(''suggested_display_precision'', JInt p)])"

definition energy_preset :: "string \<Rightarrow> int \<Rightarrow> (string, json) dict" where
  "energy_preset unit precision =
     [(''device_class'', JStr ''energy''), (''state_class'', JStr ''total_increasing''), (''unit_of_measurement'', JStr unit),
      (''suggested_display_precision'', JInt precision), (''off_behavior'', JStr ''available'')]"

definition degree :: "string \<Rightarrow> string" where  \<comment> \<open>the degree sign before a letter\<close>
  "degree c = [CHR 0xC2, CHR 0xB0] @ c"

definition HA_UNIT_PRESETS :: "(string, (string, json) dict) dict" where
  "HA_UNIT_PRESETS =
     [(''kWh'', energy_preset ''kWh'' 2),
      (''Wh'', energy_preset ''Wh'' 0),
      (''kW'', preset ''power'' ''kW'' (Some 3)),
      (''W'', preset ''power'' ''W'' (Some 0)),
      (degree ''C'', preset ''temperature'' (degree ''C'') (Some 1) @ [(''off_behavior'', JStr ''available'')]),
      (degree ''F'', preset ''temperature'' (degree ''F'') (Some 1) @ [(''off_behavior'', JStr ''available'')]),
      (''Hz'', preset ''frequency'' ''Hz'' (Some 0)),
      (''V'', preset ''voltage'' ''V'' (Some 1)),
      (''A'', preset ''current'' ''A'' (Some 2)),
      (''min'', preset ''duration'' ''min'' None),
      (''s'', preset ''duration'' ''s'' None),
      (''h'', preset ''duration'' ''h'' None),
      (''days'', preset ''duration'' ''d'' None)]"

fun has_infix :: "string \<Rightarrow> string \<Rightarrow> bool" where  \<comment> \<open>\<open>p in s\<close>\<close>
  "has_infix p [] = (p = [])"
| "has_infix p (c # s) = (starts_with p (c # s) \<or> has_infix p s)"

definition infer_ha_metadata :: "string \<Rightarrow> field_def \<Rightarrow> (string, json) dict" where
  "infer_ha_metadata field_name field_def =
     (case fd_unit field_def of
        None \<Rightarrow> []
      | Some unit \<Rightarrow>
          (if unit = ''%''
           then preset (if has_infix ''humid'' field_name then ''humidity'' else ''power_factor'') ''%'' None
           else case dget HA_UNIT_PRESETS unit of None \<Rightarrow> [] | Some p \<Rightarrow> p))"

text \<open>The search runs over the YAML tree.\<close>

definition is_field_tree :: "json option \<Rightarrow> bool" where
  "is_field_tree node = (case node of Some (JObj d) \<Rightarrow> has_key d ''data_type'' | _ \<Rightarrow> False)"

fun contains_field :: "json \<Rightarrow> string \<Rightarrow> bool"
    and any_contains :: "(string \<times> json) list \<Rightarrow> string \<Rightarrow> bool" where
  "contains_field (JObj d) field_name = (is_field_tree (dget d field_name) \<or> any_contains d field_name)"
| "contains_field _ field_name = False"
| "any_contains [] field_name = False"
| "any_contains ((_, v) # d) field_name = (contains_field v field_name \<or> any_contains d field_name)"

definition find_category :: "string \<Rightarrow> (string, json) dict \<Rightarrow> string option" where
  "find_category field_name tree =
     (case dget tree ''fields'' of
        Some (JObj cats) \<Rightarrow> map_option fst (find (\<lambda>(_, subtree). contains_field subtree field_name) cats)
      | _ \<Rightarrow> None)"

definition cap_id_lower :: "capability \<Rightarrow> string" where
  "cap_id_lower cap_def = lower (case cap_id cap_def of None \<Rightarrow> [] | Some c \<Rightarrow> c)"

definition same_cap :: "capability \<Rightarrow> cap_record \<Rightarrow> bool" where
  "same_cap cap_def r \<longleftrightarrow> lower (cr_cap_id r) = cap_id_lower cap_def"

definition matched_cap_value_name :: "capability \<Rightarrow> cap_record list \<Rightarrow> string option" where
  "matched_cap_value_name cap_def cap_records =
     (case find (same_cap cap_def) cap_records of
        None \<Rightarrow> None
      | Some r \<Rightarrow>
          (case cr_data r of
             [] \<Rightarrow> None
           | b # _ \<Rightarrow> map_option fst (find (\<lambda>(_, vdef). cv_raw vdef = Some (uint b)) (cap_values cap_def))))"

definition raw_hex :: "cap_record list \<Rightarrow> capability \<Rightarrow> string" where
  "raw_hex cap_records cap_def =
     (case find (\<lambda>r. same_cap cap_def r \<and> cr_data r \<noteq> []) cap_records of
        None \<Rightarrow> ''absent''
      | Some r \<Rightarrow> ''0x'' @ lower (hex2 (hd (cr_data r))))"

definition matched_cap_fa :: "capability \<Rightarrow> string \<Rightarrow> string option" where
  "matched_cap_fa cap_def matched_name = (case dget (cap_values cap_def) matched_name of None \<Rightarrow> None | Some v \<Rightarrow> cv_feature_available v)"

definition or_excluded :: "string option \<Rightarrow> string" where  \<comment> \<open>\<open>fa or "excluded"\<close>\<close>
  "or_excluded fa = (case fa of Some (c # cs) \<Rightarrow> c # cs | _ \<Rightarrow> ''excluded'')"

record override_snippet =
  os_field_name :: string
  os_category :: string
  os_reason :: string
  os_picked_variant :: "variant option"
  os_is_guessed :: bool
  os_picked_value :: pyval
  os_ha_metadata :: "(string, json) dict"
  os_override_dict :: "(string, json) dict"
  os_yaml_text :: string

definition field_patch :: "string \<Rightarrow> string \<Rightarrow> (string, json) dict \<Rightarrow> (string, json) dict" where
  "field_patch category field_name patch = [(''fields'', JObj [(category, JObj [(field_name, JObj patch)])])]"

definition ha_block :: "(string, json) dict \<Rightarrow> (string, json) dict" where
  "ha_block ha_meta = (if ha_meta = [] then [] else [(''ha'', JObj ha_meta)])"

definition value_patch :: "string \<Rightarrow> string \<Rightarrow> (string, json) dict" where
  "value_patch matched_name enc =
     [(''capability'', JObj [(''values'', JObj [(matched_name,
        JObj [(''feature_available'', JStr ''always''), (''encoding'', JStr enc)])])])]"

definition dash :: string where "dash = [CHR 0xE2, CHR 0x80, CHR 0x94]"

definition value_reason :: "capability \<Rightarrow> cap_record list \<Rightarrow> string \<Rightarrow> string" where
  "value_reason cap_def cap_records matched_name =
     ''populated; cap '' @ (case cap_id cap_def of None \<Rightarrow> ''?'' | Some c \<Rightarrow> c) @ ''='' @ raw_hex cap_records cap_def @
     '' currently gates the field to '' @ or_excluded (matched_cap_fa cap_def matched_name)"

definition field_reason :: "capability option \<Rightarrow> string" where
  "field_reason cap_def =
     ''populated; cap '' @ (case cap_def of Some c \<Rightarrow> (case cap_id c of None \<Rightarrow> ''?'' | Some i \<Rightarrow> i) | None \<Rightarrow> ''?'') @
     '' not present in B5 '' @ dash @
     '' field-level unlock. A proper quirks entry may be more robust (see blaueis-libmidea/.../device_quirks/).''"

definition no_value :: "pyval \<Rightarrow> bool" where  \<comment> \<open>\<open>value in (None, 0, 0.0, False, "")\<close>\<close>
  "no_value v \<longleftrightarrow> v = PNone \<or> py_eq v (PInt 0) \<or> v = PStr []"

text \<open>The effective value with the variant it comes from; \<open>None\<close> when nothing is worth unlocking.\<close>

definition effective_variant ::
    "string \<Rightarrow> field_def \<Rightarrow> string \<Rightarrow> bytes \<Rightarrow> glossary \<Rightarrow> pyval \<Rightarrow> (variant option \<times> bool \<times> pyval) option res" where
  "effective_variant field_name field_def protocol_key body g current_value =
     (if is_cap_dependent field_def
      then bind_res (decode_variants field_name field_def protocol_key body g) (\<lambda>variants.
           bind_res (pick_variant variants field_def) (\<lambda>(picked, is_guessed).
             case picked of
               None \<Rightarrow> Inr None
             | Some v \<Rightarrow> Inr (if va_encoding v = None then None else Some (Some v, is_guessed, va_value v))))
      else Inr (if no_value current_value then None else Some (None, False, current_value)))"

definition matched_name :: "field_def \<Rightarrow> cap_record list \<Rightarrow> string option" where
  "matched_name field_def cap_records =
     (case fd_capability field_def of
        None \<Rightarrow> None
      | Some cap_def \<Rightarrow> (case matched_cap_value_name cap_def cap_records of Some (c # cs) \<Rightarrow> Some (c # cs) | _ \<Rightarrow> None))"

definition patch_and_reason ::
    "field_def \<Rightarrow> cap_record list \<Rightarrow> variant option \<Rightarrow> (string, json) dict \<Rightarrow> (string, json) dict \<times> string" where
  "patch_and_reason field_def cap_records picked ha_meta =
     (case (matched_name field_def cap_records, picked, fd_capability field_def) of
        (Some m, Some v, Some cap_def) \<Rightarrow>
          (value_patch m (case va_encoding v of None \<Rightarrow> [] | Some e \<Rightarrow> e) @ ha_block ha_meta, value_reason cap_def cap_records m)
      | _ \<Rightarrow> ((''feature_available'', JStr ''always'') # ha_block ha_meta, field_reason (fd_capability field_def)))"

text \<open>The schema accepts what the override adds.\<close>

definition no_new_errors ::
    "((string, json) dict \<Rightarrow> (string \<times> string) list res) \<Rightarrow> (string, json) dict \<Rightarrow> (string, json) dict \<Rightarrow> bool" where
  "no_new_errors errors tree override =
     (case bind_res (apply_override tree override) (\<lambda>(merged, _, _).
           bind_res (errors tree) (\<lambda>base_sigs.
           bind_res (errors merged) (\<lambda>es. Inr (filter (\<lambda>e. e \<notin> set base_sigs) es)))) of
        Inr es \<Rightarrow> es = []
      | Inl _ \<Rightarrow> False)"

definition synthesize_override_snippet ::
    "((string, json) dict \<Rightarrow> (string \<times> string) list res) \<Rightarrow> (json \<Rightarrow> string) \<Rightarrow> (string, json) dict \<Rightarrow>
     string \<Rightarrow> field_def \<Rightarrow> string \<Rightarrow> bytes \<Rightarrow> glossary \<Rightarrow> cap_record list \<Rightarrow> pyval \<Rightarrow> override_snippet option res" where
  "synthesize_override_snippet errors safe_dump tree field_name field_def protocol_key body g cap_records current_value =
     (if fd_feature_available field_def = Some ''always'' \<or> fd_feature_available field_def = Some ''readable'' then Inr None
      else bind_res (effective_variant field_name field_def protocol_key body g current_value) (\<lambda>eff.
        case eff of
          None \<Rightarrow> Inr None
        | Some (picked, is_guessed, effective_value) \<Rightarrow>
            (case find_category field_name tree of
               None \<Rightarrow> Inr None
             | Some category \<Rightarrow>
                 (let ha_meta = infer_ha_metadata field_name field_def
                  in case patch_and_reason field_def cap_records picked ha_meta of
                       (patch, reason) \<Rightarrow>
                         (let override = field_patch category field_name patch
                          in if no_new_errors errors tree override
                             then Inr (Some \<lparr>os_field_name = field_name, os_category = category, os_reason = reason,
                                 os_picked_variant = picked, os_is_guessed = is_guessed, os_picked_value = effective_value,
                                 os_ha_metadata = ha_meta, os_override_dict = override, os_yaml_text = safe_dump (JObj override)\<rparr>)
                             else Inr None)))))"

subsection \<open>The shadow decoder\<close>

record frame_observation =
  fo_timestamp :: string
  fo_protocol_key :: string
  fo_body :: bytes
  fo_decoded :: "(string, decoded) dict"
  fo_ff_flood :: bool

record field_state =
  fs_value :: pyval
  fs_frame :: "string option"
  fs_raw_body :: "bytes option"
  fs_variants :: "variant list"
  fs_classification :: classification
  fs_ff_flood_seen :: bool

definition new_field_state :: field_state where
  "new_field_state =
     \<lparr>fs_value = PNone, fs_frame = None, fs_raw_body = None, fs_variants = [], fs_classification = CLASS_NOT_SEEN,
      fs_ff_flood_seen = False\<rparr>"

record shadow_decoder =
  sd_glossary :: glossary
  sd_index :: "(string, string list) dict"
  sd_cap_dependent :: "string list"
  sd_walk :: "(string, field_def) dict"
  sd_observations :: "frame_observation list"

definition new_shadow :: "glossary \<Rightarrow> shadow_decoder" where
  "new_shadow g =
     \<lparr>sd_glossary = g, sd_index = build_frame_field_index g, sd_cap_dependent = cap_dependent_fields g,
      sd_walk = walk_fields g, sd_observations = []\<rparr>"

definition observe :: "string \<Rightarrow> string \<Rightarrow> bytes \<Rightarrow> shadow_decoder \<Rightarrow> shadow_decoder" where
  "observe now protocol_key body sd =
     (case decode_frame_fields body protocol_key (sd_glossary sd) None None of
        Inl _ \<Rightarrow> sd
      | Inr (decoded, _) \<Rightarrow>
          sd\<lparr>sd_observations := sd_observations sd @
            [\<lparr>fo_timestamp = now, fo_protocol_key = protocol_key, fo_body = body, fo_decoded = decoded,
              fo_ff_flood = flooded body\<rparr>]\<rparr>)"

record inventory_result =
  ir_states :: "(string, field_state) dict"
  ir_observations :: "frame_observation list"
  ir_cap_records :: "cap_record list"
  ir_index :: "(string, string list) dict"

definition latest_by_key :: "frame_observation list \<Rightarrow> (string, frame_observation) dict" where
  "latest_by_key os = fold (\<lambda>ob. dset (fo_protocol_key ob) ob) os []"

definition setdefault :: "'k \<Rightarrow> 'v \<Rightarrow> ('k, 'v) dict \<Rightarrow> ('k, 'v) dict" where
  "setdefault k v d = (if has_key d k then d else dset k v d)"

definition initial_states :: "shadow_decoder \<Rightarrow> (string, field_state) dict" where
  "initial_states sd = fold (\<lambda>fname. setdefault fname new_field_state) (concat (map snd (sd_index sd))) []"

definition field_variants :: "shadow_decoder \<Rightarrow> string \<Rightarrow> frame_observation \<Rightarrow> variant list \<Rightarrow> variant list res" where
  "field_variants sd fname ob old =
     (if fname \<in> set (sd_cap_dependent sd)
      then case dget (sd_walk sd) fname of
             None \<Rightarrow> Inr []
           | Some field_def \<Rightarrow> decode_variants fname field_def (fo_protocol_key ob) (fo_body ob) (sd_glossary sd)
      else Inr old)"

definition populate_field ::
    "shadow_decoder \<Rightarrow> frame_observation \<Rightarrow> string \<times> decoded \<Rightarrow> (string, field_state) dict \<Rightarrow> (string, field_state) dict res" where
  "populate_field sd ob entry states =
     (case entry of (fname, d) \<Rightarrow>
        let st = dget_or states fname new_field_state
        in bind_res (field_variants sd fname ob (fs_variants st)) (\<lambda>vs.
             Inr (dset fname \<lparr>fs_value = decoded_value d, fs_frame = Some (fo_protocol_key ob), fs_raw_body = Some (fo_body ob),
                    fs_variants = vs, fs_classification = fs_classification st,
                    fs_ff_flood_seen = (fs_ff_flood_seen st \<or> fo_ff_flood ob)\<rparr> states)))"

definition populate :: "shadow_decoder \<Rightarrow> (string, frame_observation) dict \<Rightarrow> (string, field_state) dict \<Rightarrow> (string, field_state) dict res" where
  "populate sd latest states =
     fold_res (\<lambda>(_, ob). fold_res (populate_field sd ob) (fo_decoded ob)) latest states"

definition effective :: "shadow_decoder \<Rightarrow> string \<Rightarrow> field_state \<Rightarrow> pyval res" where
  "effective sd fname st =
     (if fname \<in> set (sd_cap_dependent sd) \<and> fs_variants st \<noteq> []
      then case dget (sd_walk sd) fname of
             None \<Rightarrow> Inr (fs_value st)
           | Some field_def \<Rightarrow>
               bind_res (pick_variant (fs_variants st) field_def) (\<lambda>(picked, _).
                 Inr (case picked of None \<Rightarrow> fs_value st | Some v \<Rightarrow> va_value v))
      else Inr (fs_value st))"

definition classify_field :: "shadow_decoder \<Rightarrow> string \<times> field_state \<Rightarrow> (string \<times> field_state) res" where
  "classify_field sd entry =
     (case entry of (fname, st) \<Rightarrow>
        if fs_frame st = None then Inr (fname, st\<lparr>fs_classification := CLASS_NOT_SEEN\<rparr>)
        else if fs_ff_flood_seen st then Inr (fname, st\<lparr>fs_classification := CLASS_FF_FLOOD\<rparr>)
        else bind_res (effective sd fname st) (\<lambda>v. Inr (fname, st\<lparr>fs_classification := classify v (fs_raw_body st)\<rparr>)))"

definition snapshot_inventory :: "cap_record list \<Rightarrow> shadow_decoder \<Rightarrow> inventory_result res" where
  "snapshot_inventory cap_records sd =
     bind_res (populate sd (latest_by_key (sd_observations sd)) (initial_states sd)) (\<lambda>states.
     bind_res (map_res (classify_field sd) states) (\<lambda>states.
       Inr \<lparr>ir_states = states, ir_observations = sd_observations sd, ir_cap_records = cap_records, ir_index = sd_index sd\<rparr>))"

subsection \<open>Reports\<close>

definition class_name :: "classification \<Rightarrow> string" where
  "class_name c =
     (case c of
        CLASS_POPULATED \<Rightarrow> ''populated'' | CLASS_ZERO \<Rightarrow> ''zero'' | CLASS_FF_FLOOD \<Rightarrow> ''ff_flood''
      | CLASS_NONE \<Rightarrow> ''none'' | CLASS_NOT_SEEN \<Rightarrow> ''not_seen'')"

definition arrow :: string where "arrow = [CHR 0xE2, CHR 0x86, CHR 0x92]"

definition describe_cap_state :: "field_def option \<Rightarrow> cap_record list \<Rightarrow> string" where
  "describe_cap_state fdef cap_records =
     (let fa = (case fdef of None \<Rightarrow> None | Some d \<Rightarrow> fd_feature_available d);
          cap = (case fdef of None \<Rightarrow> None | Some d \<Rightarrow> fd_capability d)
      in if fa \<in> {Some ''always'', Some ''readable'', Some ''excluded''} then the fa
         else case cap of
                Some cap_def \<Rightarrow>
                  (case cap_id cap_def of
                     Some (c # cs) \<Rightarrow>
                       ''cap '' @ (c # cs) @ ''='' @ raw_hex cap_records cap_def @
                       (case matched_cap_value_name cap_def cap_records of
                          Some (m # ms) \<Rightarrow> '' '' @ arrow @ '' '' @ or_excluded (matched_cap_fa cap_def (m # ms))
                        | _ \<Rightarrow> '' (unmatched)'')
                   | _ \<Rightarrow> (case fa of None \<Rightarrow> [] | Some s \<Rightarrow> s))
              | None \<Rightarrow> (case fa of None \<Rightarrow> [] | Some s \<Rightarrow> s))"

record sidecar_observation =
  so_timestamp :: string
  so_protocol_key :: string
  so_body_hex :: string
  so_ff_flood :: bool

record sidecar_field =
  sf_classification :: string
  sf_value :: pyval
  sf_frame :: "string option"
  sf_unit :: "string option"
  sf_cap_state :: string
  sf_variants :: "variant list"  \<comment> \<open>absent when empty\<close>

record sidecar_override =
  sv_field :: string
  sv_category :: string
  sv_reason :: string
  sv_picked_encoding :: "string option"
  sv_picked_value :: pyval
  sv_is_guessed :: bool
  sv_ha_metadata :: "(string, json) dict"
  sv_yaml_snippet :: string

record sidecar =
  sc_timestamp :: string
  sc_label :: string
  sc_glossary_version :: string
  sc_host :: "string option"
  sc_observations :: "sidecar_observation list"
  sc_cap_records :: "cap_record list"
  sc_fields :: "(string, sidecar_field) dict"
  sc_suggested :: "sidecar_override list"  \<comment> \<open>absent when empty\<close>

definition generate_json_sidecar ::
    "string \<Rightarrow> inventory_result \<Rightarrow> glossary \<Rightarrow> string \<Rightarrow> string option \<Rightarrow> override_snippet list \<Rightarrow> sidecar" where
  "generate_json_sidecar now result g label host suggested =
     \<lparr>sc_timestamp = now, sc_label = label, sc_glossary_version = gl_version g, sc_host = host,
      sc_observations = map (\<lambda>ob. \<lparr>so_timestamp = fo_timestamp ob, so_protocol_key = fo_protocol_key ob,
        so_body_hex = bytes_hex (fo_body ob), so_ff_flood = fo_ff_flood ob\<rparr>) (ir_observations result),
      sc_cap_records = ir_cap_records result,
      sc_fields = fold (\<lambda>(fname, st). dset fname
          \<lparr>sf_classification = class_name (fs_classification st), sf_value = fs_value st, sf_frame = fs_frame st,
           sf_unit = (case dget (walk_fields g) fname of None \<Rightarrow> None | Some d \<Rightarrow> fd_unit d),
           sf_cap_state = describe_cap_state (dget (walk_fields g) fname) (ir_cap_records result),
           sf_variants = fs_variants st\<rparr>) (ir_states result) [],
      sc_suggested = map (\<lambda>s. \<lparr>sv_field = os_field_name s, sv_category = os_category s, sv_reason = os_reason s,
           sv_picked_encoding = (case os_picked_variant s of None \<Rightarrow> None | Some v \<Rightarrow> va_encoding v),
           sv_picked_value = os_picked_value s, sv_is_guessed = os_is_guessed s, sv_ha_metadata = os_ha_metadata s,
           sv_yaml_snippet = os_yaml_text s\<rparr>) suggested\<rparr>"

subsection \<open>Comparison\<close>

record comparison =
  cm_became :: "(string \<times> pyval \<times> pyval) list"
  cm_stopped :: "(string \<times> pyval \<times> pyval) list"
  cm_changed :: "(string \<times> pyval \<times> pyval) list"
  cm_stable :: nat

definition class_value :: "sidecar \<Rightarrow> string \<Rightarrow> string \<times> pyval" where
  "class_value sc fname =
     (case dget (sc_fields sc) fname of None \<Rightarrow> (''not_seen'', PNone) | Some f \<Rightarrow> (sf_classification f, sf_value f))"

definition compare_field :: "sidecar \<Rightarrow> sidecar \<Rightarrow> string \<Rightarrow> comparison \<Rightarrow> comparison" where
  "compare_field prev cur fname c =
     (case (class_value prev fname, class_value cur fname) of ((pc, pv), (cc, cv)) \<Rightarrow>
        let p_pop = (pc = ''populated''); c_pop = (cc = ''populated'')
        in if \<not> p_pop \<and> c_pop then c\<lparr>cm_became := cm_became c @ [(fname, pv, cv)]\<rparr>
           else if p_pop \<and> \<not> c_pop then c\<lparr>cm_stopped := cm_stopped c @ [(fname, pv, cv)]\<rparr>
           else if p_pop \<and> c_pop then
             (if \<not> py_eq pv cv then c\<lparr>cm_changed := cm_changed c @ [(fname, pv, cv)]\<rparr>
              else c\<lparr>cm_stable := cm_stable c + 1\<rparr>)
           else c)"

definition all_fields :: "sidecar \<Rightarrow> sidecar \<Rightarrow> string list" where
  "all_fields prev cur = sort (remdups (dkeys (sc_fields prev) @ dkeys (sc_fields cur)))"

definition compare_sidecars :: "sidecar \<Rightarrow> sidecar \<Rightarrow> comparison" where
  "compare_sidecars prev cur =
     fold (compare_field prev cur) (all_fields prev cur) \<lparr>cm_became = [], cm_stopped = [], cm_changed = [], cm_stable = 0\<rparr>"

text \<open>The report as lines; \<open>show_val\<close> is \<open>str\<close> of a value.\<close>

definition change_rows :: "(pyval \<Rightarrow> string) \<Rightarrow> (string \<times> pyval \<times> pyval) list \<Rightarrow> string list" where
  "change_rows show_val rows =
     (if rows = [] then [''_(none)_'']
      else [''| Field | Was | Now |'', ''|---|---|---|''] @
        map (\<lambda>(fname, was, now). ''| `'' @ fname @ ''` | `'' @ show_val was @ ''` | `'' @ show_val now @ ''` |'') rows)"

definition change_section :: "(pyval \<Rightarrow> string) \<Rightarrow> string \<Rightarrow> (string \<times> pyval \<times> pyval) list \<Rightarrow> string list" where
  "change_section show_val title rows = [[], ''## '' @ title @ '' ('' @ dec (length rows) @ '')'', []] @ change_rows show_val rows"

definition generate_compare_report :: "(pyval \<Rightarrow> string) \<Rightarrow> sidecar \<Rightarrow> sidecar \<Rightarrow> string" where
  "generate_compare_report show_val prev cur =
     (let c = compare_sidecars prev cur;
          title = ''# Field inventory comparison '' @ dash @ '' `'' @ sc_label prev @ ''` '' @ arrow @ '' `'' @ sc_label cur @ ''`'';
          from_line = ''- **From:** `'' @ sc_label prev @ ''` at '' @ sc_timestamp prev;
          to_line = ''- **To:** `'' @ sc_label cur @ ''` at '' @ sc_timestamp cur
      in join_with [CHR 0x0A]
           ([title, [], from_line, to_line] @
            change_section show_val ''Became populated'' (cm_became c) @
            change_section show_val ''Stopped being populated'' (cm_stopped c) @
            change_section show_val ''Value changed'' (cm_changed c) @
            [[], ''## Stable ('' @ dec (cm_stable c) @ '')'', [],
             ''Fields populated in both runs with identical values '' @ dash @ '' not listed.'']))"

subsection \<open>How a field is classified\<close>

text \<open>What a decoder has observed: decoded frames with their flood marks.\<close>

definition observation_ok :: "glossary \<Rightarrow> frame_observation \<Rightarrow> bool" where
  "observation_ok g ob \<longleftrightarrow>
     (\<exists>rej. decode_frame_fields (fo_body ob) (fo_protocol_key ob) g None None = Inr (fo_decoded ob, rej)) \<and>
     fo_ff_flood ob = flooded (fo_body ob) \<and> distinct (dkeys (fo_decoded ob))"

lemma distinct_dset: "distinct (dkeys d) \<Longrightarrow> distinct (dkeys (dset k v d))"
  by (simp add: dkeys_def distinct_update)

lemma decoded_distinct:
  assumes "decode_frame_fields body key g recs None = Inr (result, rej)"
  shows "distinct (dkeys result)"
proof -
  obtain by_prop acc where a: "fold_res (decode_entry body by_prop (gl_encodings g) recs) (build_field_map g key) ([], []) = Inr acc"
      "fold_res (synthesize_entry body by_prop (gl_encodings g) key) (walk_fields g) (fst acc) = Inr result"
    using assms by (auto simp: decode_frame_fields_def Let_def)
  have "distinct (dkeys (fst acc))"
    by (rule fold_res_invariant [OF a(1)])
      (auto simp: dkeys_def distinct_update decode_entry_def split: source.splits prod.splits)
  then show ?thesis
    by (rule fold_res_invariant [OF a(2)])
      (auto simp: distinct_dset synthesize_entry_def split: prod.splits if_splits option.splits source.splits)
qed

lemma observe_ok:
  assumes "list_all (observation_ok (sd_glossary sd)) (sd_observations sd)"
  shows "list_all (observation_ok (sd_glossary sd)) (sd_observations (observe now key body sd)) \<and>
    sd_glossary (observe now key body sd) = sd_glossary sd \<and> sd_index (observe now key body sd) = sd_index sd \<and>
    sd_cap_dependent (observe now key body sd) = sd_cap_dependent sd \<and> sd_walk (observe now key body sd) = sd_walk sd"
  using assms decoded_distinct
  by (auto simp: observe_def observation_ok_def split: sum.split)

definition observe_all :: "(string \<times> string \<times> bytes) list \<Rightarrow> shadow_decoder \<Rightarrow> shadow_decoder" where
  "observe_all frames sd = fold (\<lambda>(now, key, body). observe now key body) frames sd"

lemma observe_all_ok:
  "list_all (observation_ok (sd_glossary sd)) (sd_observations sd) \<Longrightarrow>
   list_all (observation_ok (sd_glossary sd)) (sd_observations (observe_all frames sd)) \<and>
    sd_glossary (observe_all frames sd) = sd_glossary sd \<and> sd_index (observe_all frames sd) = sd_index sd \<and>
    sd_cap_dependent (observe_all frames sd) = sd_cap_dependent sd \<and> sd_walk (observe_all frames sd) = sd_walk sd"
proof (induction frames arbitrary: sd)
  case (Cons f frames)
  obtain now key body where f: "f = (now, key, body)" by (cases f)
  have "observe_all (f # frames) sd = observe_all frames (observe now key body sd)" by (simp add: observe_all_def f)
  then show ?case using Cons.IH [of "observe now key body sd"] observe_ok [OF Cons.prems, of now key body] by simp
qed (simp add: observe_all_def)

text \<open>The latest frame of a key, and the frames that carry a field in the order of the table.\<close>

lemma latest_snoc: "latest_by_key (os @ [ob]) = dset (fo_protocol_key ob) ob (latest_by_key os)"
  by (simp add: latest_by_key_def)

lemma latest_by_key_find: "dget (latest_by_key os) key = find (\<lambda>ob. fo_protocol_key ob = key) (rev os)"
  by (induction os rule: rev_induct) (simp_all add: latest_snoc, simp add: latest_by_key_def)

lemma latest_subset: "snd ` set (latest_by_key os) \<subseteq> set os"
proof (induction os rule: rev_induct)
  case (snoc ob os)
  have "set (dset k v d) \<subseteq> insert (k, v) (set d)" for k v and d :: "(string, frame_observation) dict"
    by (induction d) auto
  then show ?case using snoc by (force simp: latest_snoc)
qed (simp add: latest_by_key_def)

definition carriers :: "frame_observation list \<Rightarrow> string \<Rightarrow> frame_observation list" where
  "carriers os fname = filter (\<lambda>ob. has_key (fo_decoded ob) fname) (map snd (latest_by_key os))"

text \<open>The state of one field after one frame, and after the frames that carry it.\<close>

definition seen_state :: "frame_observation \<Rightarrow> decoded \<Rightarrow> variant list \<Rightarrow> field_state \<Rightarrow> field_state" where
  "seen_state ob d vs st =
     \<lparr>fs_value = decoded_value d, fs_frame = Some (fo_protocol_key ob), fs_raw_body = Some (fo_body ob), fs_variants = vs,
      fs_classification = fs_classification st, fs_ff_flood_seen = (fs_ff_flood_seen st \<or> fo_ff_flood ob)\<rparr>"

lemma populate_field_step:
  assumes "populate_field sd ob (n, d) states = Inr states'"
  shows "m \<noteq> n \<Longrightarrow> dget states' m = dget states m"
    and "\<exists>vs. field_variants sd n ob (fs_variants (dget_or states n new_field_state)) = Inr vs \<and>
      dget states' n = Some (seen_state ob d vs (dget_or states n new_field_state))"
  using assms by (auto simp: populate_field_def seen_state_def Let_def)

lemma populate_other:
  "fold_res (populate_field sd ob) es states = Inr states' \<Longrightarrow> dget es m = None \<Longrightarrow> dget states' m = dget states m"
proof (induction es arbitrary: states)
  case (Cons e es)
  obtain n d where e: "e = (n, d)" by (cases e)
  obtain states1 where s: "populate_field sd ob (n, d) states = Inr states1" "fold_res (populate_field sd ob) es states1 = Inr states'"
    using Cons.prems(1) e by auto
  show ?case using Cons.IH [OF s(2)] populate_field_step(1) [OF s(1), of m] Cons.prems(2) e by (auto split: if_splits)
qed simp

lemma populate_seen:
  "fold_res (populate_field sd ob) es states = Inr states' \<Longrightarrow> distinct (dkeys es) \<Longrightarrow> dget es m = Some d \<Longrightarrow>
   \<exists>vs. field_variants sd m ob (fs_variants (dget_or states m new_field_state)) = Inr vs \<and>
      dget states' m = Some (seen_state ob d vs (dget_or states m new_field_state))"
proof (induction es arbitrary: states)
  case (Cons e es)
  obtain n d' where e: "e = (n, d')" by (cases e)
  obtain states1 where s: "populate_field sd ob (n, d') states = Inr states1" "fold_res (populate_field sd ob) es states1 = Inr states'"
    using Cons.prems(1) e by auto
  show ?case
  proof (cases "m = n")
    case True
    have "dget es m = None" using Cons.prems(2) e True by (simp add: dkeys_def map_of_eq_None_iff)
    then have "dget states' m = dget states1 m" by (rule populate_other [OF s(2)])
    moreover have "d' = d" using Cons.prems(3) e True by simp
    ultimately show ?thesis using populate_field_step(2) [OF s(1)] True by simp
  next
    case False
    then have "dget_or states1 m new_field_state = dget_or states m new_field_state"
      using populate_field_step(1) [OF s(1), of m] by (simp add: dget_or_def)
    then show ?thesis using Cons.IH [OF s(2)] Cons.prems(2,3) e False by (simp add: dkeys_def)
  qed
qed simp

definition filled :: "shadow_decoder \<Rightarrow> string \<Rightarrow> frame_observation list \<Rightarrow> field_state option \<Rightarrow> field_state option \<Rightarrow> bool" where
  "filled sd fname obs st0 st \<longleftrightarrow>
     (if obs = [] then st = st0
      else \<exists>s old. st = Some s \<and>
        fs_value s = entry_value (fo_decoded (last obs)) fname \<and> fs_frame s = Some (fo_protocol_key (last obs)) \<and>
        fs_raw_body s = Some (fo_body (last obs)) \<and>
        field_variants sd fname (last obs) old = Inr (fs_variants s) \<and>
        fs_ff_flood_seen s = ((case st0 of None \<Rightarrow> False | Some s0 \<Rightarrow> fs_ff_flood_seen s0) \<or> list_ex fo_ff_flood obs))"

lemma populate_filled:
  assumes "fold_res (\<lambda>(_, ob). fold_res (populate_field sd ob) (fo_decoded ob)) latest states = Inr states'"
    and "list_all (\<lambda>(_, ob). distinct (dkeys (fo_decoded ob))) latest"
  shows "filled sd fname (filter (\<lambda>ob. has_key (fo_decoded ob) fname) (map snd latest)) (dget states fname) (dget states' fname)"
  using assms
proof (induction latest arbitrary: states' rule: rev_induct)
  case Nil
  then show ?case by (simp add: filled_def)
next
  case (snoc x latest)
  obtain key ob where x: "x = (key, ob)" by (cases x)
  let ?obs = "filter (\<lambda>ob. has_key (fo_decoded ob) fname) (map snd latest)"
  obtain states1 where s: "fold_res (\<lambda>(_, ob). fold_res (populate_field sd ob) (fo_decoded ob)) latest states = Inr states1"
      "fold_res (populate_field sd ob) (fo_decoded ob) states1 = Inr states'"
    using snoc.prems(1) x by (auto simp: fold_res_append)
  have f: "filled sd fname ?obs (dget states fname) (dget states1 fname)" using snoc.IH [OF s(1)] snoc.prems(2) by simp
  show ?case
  proof (cases "dget (fo_decoded ob) fname")
    case None
    then show ?thesis using f populate_other [OF s(2) None] x by (simp add: has_key_def)
  next
    case (Some d)
    let ?st = "dget_or states1 fname new_field_state"
    obtain vs where v: "field_variants sd fname ob (fs_variants ?st) = Inr vs" "dget states' fname = Some (seen_state ob d vs ?st)"
      using populate_seen [OF s(2) _ Some] snoc.prems(2) x by auto
    have "fs_ff_flood_seen ?st = ((case dget states fname of None \<Rightarrow> False | Some s0 \<Rightarrow> fs_ff_flood_seen s0) \<or> list_ex fo_ff_flood ?obs)"
    proof (cases "?obs = []")
      case True
      then show ?thesis using f by (auto simp: filled_def dget_or_def new_field_state_def split: option.split)
    next
      case False
      then obtain s1 where "dget states1 fname = Some s1"
          "fs_ff_flood_seen s1 = ((case dget states fname of None \<Rightarrow> False | Some s0 \<Rightarrow> fs_ff_flood_seen s0) \<or> list_ex fo_ff_flood ?obs)"
        using f by (auto simp only: filled_def if_False)
      then show ?thesis by (simp add: dget_or_def)
    qed
    moreover have "filter (\<lambda>ob. has_key (fo_decoded ob) fname) (map snd (latest @ [x])) = ?obs @ [ob]"
      using Some x by (simp add: has_key_def)
    ultimately show ?thesis using v Some
      by (auto simp: filled_def seen_state_def entry_value_def simp del: filter_append filter.simps list_ex_append
          simp: list_ex_iff)
  qed
qed

text \<open>The value a frame gives a field: of the chosen variant where the encoding depends on a capability.\<close>

definition observed_value :: "shadow_decoder \<Rightarrow> string \<Rightarrow> frame_observation \<Rightarrow> pyval res" where
  "observed_value sd fname ob =
     bind_res (field_variants sd fname ob []) (\<lambda>vs.
       effective sd fname (new_field_state\<lparr>fs_value := entry_value (fo_decoded ob) fname, fs_variants := vs\<rparr>))"

lemma effective_cong:
  assumes "fs_value st = fs_value st'" "fs_variants st = fs_variants st'"
  shows "effective sd fname st = effective sd fname st'"
  unfolding effective_def assms by (rule refl)

lemma observed_value_eq:
  assumes "field_variants sd fname ob old = Inr (fs_variants st)" "fs_value st = entry_value (fo_decoded ob) fname"
  shows "effective sd fname st = observed_value sd fname ob"
proof (cases "fname \<in> set (sd_cap_dependent sd)")
  case True
  then have "field_variants sd fname ob [] = Inr (fs_variants st)" using assms(1) by (simp add: field_variants_def)
  then show ?thesis unfolding observed_value_def using assms(2) by (simp only: bind_res_simps) (rule effective_cong, simp_all)
next
  case False
  then show ?thesis using assms(2) by (simp add: observed_value_def effective_def field_variants_def)
qed

lemma setdefault_lookup: "dget (setdefault k v d) k' = (if k' = k \<and> dget d k = None then Some v else dget d k')"
  by (auto simp: setdefault_def has_key_def)

lemma initial_states_lookup:
  "dget (initial_states sd) n = (if n \<in> set (concat (map snd (sd_index sd))) then Some new_field_state else None)"
proof -
  have "dget (fold (\<lambda>fname. setdefault fname new_field_state) ns d) n =
      (case dget d n of Some s \<Rightarrow> Some s | None \<Rightarrow> if n \<in> set ns then Some new_field_state else None)" for ns and d :: "(string, field_state) dict"
    by (induction ns arbitrary: d) (auto simp: setdefault_lookup split: option.split)
  from this [of "concat (map snd (sd_index sd))" "[]"] show ?thesis by (simp add: initial_states_def)
qed

lemma classify_fields_lookup:
  "map_res (classify_field sd) states = Inr out \<Longrightarrow>
   (case dget states n of None \<Rightarrow> dget out n = None | Some st \<Rightarrow> \<exists>st'. classify_field sd (n, st) = Inr (n, st') \<and> dget out n = Some st')"
proof (induction states arbitrary: out)
  case (Cons x states)
  obtain m st where x: "x = (m, st)" by (cases x)
  obtain y out' where y: "classify_field sd (m, st) = Inr y" "map_res (classify_field sd) states = Inr out'" "out = y # out'"
    using Cons.prems x by auto
  have "fst y = m" using y(1) by (auto simp: classify_field_def split: if_splits)
  then obtain st' where "y = (m, st')" by (cases y) simp
  then show ?case using Cons.IH [OF y(2)] y x by (cases "n = m") (auto split: option.splits)
qed simp

lemma classify_bounds: "\<not> flooded body \<Longrightarrow> classify v (Some body) \<noteq> CLASS_FF_FLOOD \<and> classify v (Some body) \<noteq> CLASS_NOT_SEEN"
  by (auto simp: classify_def split: pyval.split)

lemma inventory_states:
  fixes fname :: string
  assumes "snapshot_inventory caps sd = Inr r"
    and "list_all (\<lambda>ob. distinct (dkeys (fo_decoded ob)) \<and> fo_ff_flood ob = flooded (fo_body ob)) (sd_observations sd)"
  defines "obs \<equiv> carriers (sd_observations sd) fname"
  shows "case dget (ir_states r) fname of
     None \<Rightarrow> fname \<notin> set (concat (map snd (sd_index sd))) \<and> obs = []
   | Some st \<Rightarrow>
       (fname \<in> set (concat (map snd (sd_index sd))) \<or> obs \<noteq> []) \<and>
       (if obs = [] then fs_classification st = CLASS_NOT_SEEN
        else fs_frame st = Some (fo_protocol_key (last obs)) \<and> fs_value st = entry_value (fo_decoded (last obs)) fname \<and>
          (if list_ex (\<lambda>ob. flooded (fo_body ob)) obs then fs_classification st = CLASS_FF_FLOOD
           else \<exists>v. observed_value sd fname (last obs) = Inr v \<and> fs_classification st = classify v (Some (fo_body (last obs)))))"
proof -
  let ?latest = "latest_by_key (sd_observations sd)"
  obtain states out where s: "populate sd ?latest (initial_states sd) = Inr states" "map_res (classify_field sd) states = Inr out"
      "ir_states r = out"
    using assms(1) by (auto simp: snapshot_inventory_def)
  have sub: "snd ` set ?latest \<subseteq> set (sd_observations sd)" by (rule latest_subset)
  then have d: "list_all (\<lambda>(_, ob). distinct (dkeys (fo_decoded ob))) ?latest" using assms(2) by (fastforce simp: list_all_iff)
  have f: "filled sd fname obs (dget (initial_states sd) fname) (dget states fname)"
    unfolding obs_def carriers_def using populate_filled [OF s(1) [unfolded populate_def] d] .
  have fl: "fo_ff_flood ob = flooded (fo_body ob)" if "ob \<in> set obs" for ob
    using that sub assms(2) unfolding obs_def carriers_def by (fastforce simp: list_all_iff)
  note look = classify_fields_lookup [OF s(2), of fname]
  show ?thesis
  proof (cases "obs = []")
    case True
    then have "dget states fname = (if fname \<in> set (concat (map snd (sd_index sd))) then Some new_field_state else None)"
      using f initial_states_lookup [of sd fname] by (simp add: filled_def)
    then show ?thesis using look s(3) True by (auto simp: classify_field_def new_field_state_def split: if_splits)
  next
    case False
    then obtain st old where st: "dget states fname = Some st" "fs_value st = entry_value (fo_decoded (last obs)) fname"
        "fs_frame st = Some (fo_protocol_key (last obs))" "fs_raw_body st = Some (fo_body (last obs))"
        "field_variants sd fname (last obs) old = Inr (fs_variants st)"
        "fs_ff_flood_seen st = ((case dget (initial_states sd) fname of None \<Rightarrow> False | Some s0 \<Rightarrow> fs_ff_flood_seen s0) \<or> list_ex fo_ff_flood obs)"
      using f by (auto simp only: filled_def if_False)
    have "list_ex fo_ff_flood obs = list_ex (\<lambda>ob. flooded (fo_body ob)) obs" using fl by (auto simp: list_ex_iff)
    then have seen: "fs_ff_flood_seen st = list_ex (\<lambda>ob. flooded (fo_body ob)) obs"
      using st(6) initial_states_lookup [of sd fname] by (simp add: new_field_state_def)
    obtain st' where o: "classify_field sd (fname, st) = Inr (fname, st')" "dget out fname = Some st'" using look st(1) by auto
    have e: "effective sd fname st = observed_value sd fname (last obs)" by (rule observed_value_eq [OF st(5,2)])
    show ?thesis using o s(3) False st(2-4) seen e by (auto simp: classify_field_def split: if_splits)
  qed
qed

text \<open>C38: the inventory classifies each field exactly by what was received.  With the latest frame of every
  protocol key that decodes the field, in the order in which the keys were first seen: without one the field is
  not seen; if one of them is all 0xFF it is flooded; otherwise its class is that of the value of the last one,
  under the chosen variant where the encoding depends on a capability, and then never flooded or not seen.\<close>

theorem inventory_exact:
  assumes "snapshot_inventory caps (observe_all frames (new_shadow g)) = Inr r" "dget (ir_states r) fname = Some st"
  defines "sd \<equiv> observe_all frames (new_shadow g)"
  defines "obs \<equiv> carriers (sd_observations sd) fname"
  shows "if obs = [] then fs_classification st = CLASS_NOT_SEEN
     else fs_frame st = Some (fo_protocol_key (last obs)) \<and> fs_value st = entry_value (fo_decoded (last obs)) fname \<and>
       (if list_ex (\<lambda>ob. flooded (fo_body ob)) obs then fs_classification st = CLASS_FF_FLOOD
        else \<exists>v. observed_value sd fname (last obs) = Inr v \<and> fs_classification st = classify v (Some (fo_body (last obs))) \<and>
          fs_classification st \<noteq> CLASS_FF_FLOOD \<and> fs_classification st \<noteq> CLASS_NOT_SEEN)"
proof -
  have ok: "list_all (observation_ok (sd_glossary (new_shadow g))) (sd_observations sd)"
    unfolding sd_def using observe_all_ok [of "new_shadow g" frames] by (simp add: new_shadow_def)
  have l: "list_all (\<lambda>ob. distinct (dkeys (fo_decoded ob)) \<and> fo_ff_flood ob = flooded (fo_body ob)) (sd_observations sd)"
    using ok by (auto simp: list_all_iff observation_ok_def)
  have nf: "\<not> flooded (fo_body (last obs))" if "obs \<noteq> []" "\<not> list_ex (\<lambda>ob. flooded (fo_body ob)) obs"
    using that by (auto simp: list_ex_iff)
  show ?thesis
    using inventory_states [OF assms(1) [folded sd_def] l, of fname] assms(2) nf classify_bounds
    unfolding obs_def by (auto split: if_splits)
qed

subsection \<open>What a suggested override does\<close>

lemma path_get_append: "path_get j (p @ q) = (case path_get j p of None \<Rightarrow> None | Some v \<Rightarrow> path_get v q)"
  by (induction p arbitrary: j) (auto split: option.splits)

lemma json_eq_str: "json_eq o1 (JStr s) \<longleftrightarrow> o1 = JStr s"
  by (cases o1) (auto simp: scalar_eq_def json_num_def)

lemma patch_wins:
  "plain v \<Longrightarrow> path_get v path = Some (JStr s) \<Longrightarrow>
   \<exists>m. merged_value v old = Some m \<and> path_get m path = Some (JStr s)"
proof (induction path arbitrary: v old)
  case Nil
  then have v: "v = JStr s" by simp
  show ?case by (cases old) (auto simp: v merged_value_def is_removal_def json_eq_str split: json.split)
next
  case (Cons k ks)
  obtain d w where d: "v = JObj d" "dget d k = Some w" "path_get w ks = Some (JStr s)"
    using Cons.prems(2) by (auto simp: jget_def split: json.splits option.splits)
  have nr: "\<not> is_removal (JObj d)" and dis: "distinct (dkeys d)" and w: "plain w"
    using Cons.prems(1) d(1) map_of_SomeD [OF d(2)] by (auto simp: plain_pairs_iff)
  show ?case
  proof (cases "\<exists>td. old = Some (JObj td)")
    case True
    then obtain td where td: "old = Some (JObj td)" by blast
    obtain m where m: "merged_value w (dget td k) = Some m" "path_get m ks = Some (JStr s)"
      using Cons.IH [OF w d(3)] by blast
    have "dget (fst (merge_in_place [] d (td, []))) k = Some m"
      using merge_lookup [OF dis, of "[]" td "[]" k] d(2) m(1) by simp
    then show ?thesis using m(2) td nr d(1) by (simp add: merged_value_def jget_def)
  next
    case False
    then have "merged_value v old = Some v"
      using nr by (cases old) (auto simp: d(1) merged_value_def scalar_eq_def json_num_def split: json.split)
    then show ?thesis using Cons.prems(2) by blast
  qed
qed

lemma preset_plain: "plain (JObj (preset dc unit p))"
  by (auto simp: preset_def dkeys_def is_removal_def REMOVE_SENTINEL_def split: option.split)

lemma presets_plain: "list_all (\<lambda>(_, p). plain (JObj p)) HA_UNIT_PRESETS"
  by (simp add: HA_UNIT_PRESETS_def energy_preset_def preset_def dkeys_def is_removal_def REMOVE_SENTINEL_def)

lemma metadata_plain: "plain (JObj (infer_ha_metadata n d))"
proof -
  have "plain (JObj p)" if "dget HA_UNIT_PRESETS unit = Some p" for unit p
    using presets_plain map_of_SomeD [OF that] by (auto simp: list_all_iff)
  moreover have "plain (JObj [])" by (simp add: dkeys_def is_removal_def)
  ultimately show ?thesis
    using preset_plain unfolding infer_ha_metadata_def by (auto simp del: plain.simps split: option.split)
qed

definition unlock_path :: "field_def \<Rightarrow> cap_record list \<Rightarrow> variant option \<Rightarrow> string list" where
  "unlock_path field_def cap_records picked =
     (case (matched_name field_def cap_records, picked) of
        (Some m, Some v) \<Rightarrow> [''capability'', ''values'', m, ''feature_available'']
      | _ \<Rightarrow> [''feature_available''])"

lemma patch_unlocks:
  assumes "patch_and_reason field_def caps picked ha_meta = (patch, reason)" "plain (JObj ha_meta)"
  shows "plain (JObj patch) \<and> path_get (JObj patch) (unlock_path field_def caps picked) = Some (JStr ''always'')"
proof -
  have ha: "plain_pairs (ha_block ha_meta)" using assms(2) by (simp add: ha_block_def)
  have k: "set (dkeys (ha_block ha_meta)) \<subseteq> {''ha''}" "distinct (dkeys (ha_block ha_meta))"
    "dget (ha_block ha_meta) ''_remove'' = None"
    by (simp_all add: ha_block_def dkeys_def)
  show ?thesis
  proof (cases "\<exists>m v cap_def. matched_name field_def caps = Some m \<and> picked = Some v \<and> fd_capability field_def = Some cap_def")
    case True
    then obtain m v cap_def where m: "matched_name field_def caps = Some m" "picked = Some v" "fd_capability field_def = Some cap_def" by blast
    have "patch = value_patch m (case va_encoding v of None \<Rightarrow> [] | Some e \<Rightarrow> e) @ ha_block ha_meta"
      using assms(1) m by (simp add: patch_and_reason_def)
    then show ?thesis using ha k m(1,2)
      by (auto simp: value_patch_def unlock_path_def dkeys_def is_removal_def REMOVE_SENTINEL_def jget_def plain_pairs_iff map_add_def)
  next
    case False
    have "fd_capability field_def \<noteq> None" if "matched_name field_def caps = Some m" for m
      using that by (auto simp: matched_name_def split: option.splits)
    then have u: "unlock_path field_def caps picked = [''feature_available'']"
      "patch = (''feature_available'', JStr ''always'') # ha_block ha_meta"
      using False assms(1) by (auto simp: unlock_path_def patch_and_reason_def split: option.splits)
    then show ?thesis using ha k by (auto simp: dkeys_def is_removal_def REMOVE_SENTINEL_def jget_def)
  qed
qed


lemma synthesized:
  assumes "synthesize_override_snippet errors safe_dump tree fname fdef key body g caps value = Inr (Some s)"
  obtains picked cat patch reason where "find_category fname tree = Some cat"
    "patch_and_reason fdef caps picked (infer_ha_metadata fname fdef) = (patch, reason)"
    "no_new_errors errors tree (field_patch cat fname patch)"
    "os_category s = cat" "os_picked_variant s = picked" "os_override_dict s = field_patch cat fname patch"
proof -
  have nf: "\<not> (fd_feature_available fdef = Some ''always'' \<or> fd_feature_available fdef = Some ''readable'')"
    using assms by (auto simp: synthesize_override_snippet_def)
  obtain eff where e: "effective_variant fname fdef key body g value = Inr eff"
    using assms nf by (cases "effective_variant fname fdef key body g value") (auto simp: synthesize_override_snippet_def)
  obtain picked guessed v where eff: "eff = Some (picked, guessed, v)"
    using assms nf e by (cases eff) (auto simp: synthesize_override_snippet_def)
  obtain cat where cat: "find_category fname tree = Some cat"
    using assms nf e eff by (cases "find_category fname tree") (auto simp: synthesize_override_snippet_def)
  obtain patch reason where p: "patch_and_reason fdef caps picked (infer_ha_metadata fname fdef) = (patch, reason)" by fastforce
  have n: "no_new_errors errors tree (field_patch cat fname patch)"
    using assms nf e eff cat p by (auto simp: synthesize_override_snippet_def Let_def split: if_splits)
  then have "os_category s = cat \<and> os_picked_variant s = picked \<and> os_override_dict s = field_patch cat fname patch"
    using assms nf e eff cat p by (auto simp: synthesize_override_snippet_def Let_def)
  then show thesis using that cat p n by blast
qed

text \<open>What a suggested override is worth.  Merged into the glossary it adds no schema error; and when the field
  stands directly under its category, the merge makes it available - at the field, or at the capability value the
  unit reports - unless the gate of excluded fields rejects it: then the suggested override changes nothing.\<close>

theorem snippet_unlocks:
  assumes "synthesize_override_snippet errors safe_dump tree fname fdef key body g caps value = Inr (Some s)"
    and "dget tree ''fields'' = Some (JObj bf)" "dget bf (os_category s) = Some (JObj bc)"
  shows "\<exists>merged affected msgs base_errors merged_errors.
    apply_override tree (os_override_dict s) = Inr (merged, affected, msgs) \<and>
    errors tree = Inr base_errors \<and> errors merged = Inr merged_errors \<and> set merged_errors \<subseteq> set base_errors \<and>
    find_category fname tree = Some (os_category s) \<and>
    (if is_rejected (dget bc fname) then path_get (JObj merged) [''fields'', os_category s, fname] = dget bc fname
     else path_get (JObj merged) ([''fields'', os_category s, fname] @ unlock_path fdef caps (os_picked_variant s)) =
       Some (JStr ''always''))"
proof -
  let ?ha = "infer_ha_metadata fname fdef"
  obtain picked cat patch reason where
      c: "find_category fname tree = Some cat" and p: "patch_and_reason fdef caps picked ?ha = (patch, reason)"
    and n: "no_new_errors errors tree (field_patch cat fname patch)"
    and s: "os_category s = cat" "os_picked_variant s = picked" "os_override_dict s = field_patch cat fname patch"
    by (rule synthesized [OF assms(1)])
  obtain merged affected msgs be me where a: "apply_override tree (field_patch cat fname patch) = Inr (merged, affected, msgs)"
    and e: "errors tree = Inr be" "errors merged = Inr me" "set me \<subseteq> set be"
  proof -
    obtain es where "bind_res (apply_override tree (field_patch cat fname patch)) (\<lambda>(merged, _, _).
           bind_res (errors tree) (\<lambda>base_sigs.
           bind_res (errors merged) (\<lambda>es. Inr (filter (\<lambda>e. e \<notin> set base_sigs) es)))) = Inr es" "es = []"
      using n by (auto simp: no_new_errors_def split: sum.splits)
    then show thesis using that by (auto simp: filter_empty_conv subset_eq)
  qed
  have pl: "plain (JObj patch)" "path_get (JObj patch) (unlock_path fdef caps picked) = Some (JStr ''always'')"
    using patch_unlocks [OF p metadata_plain] by simp_all
  have ord: "ordinary (dget (field_patch cat fname patch) ''fields'')" "ordinary (path_get (JObj (field_patch cat fname patch)) [''fields'', cat])"
    by (simp_all add: field_patch_def ordinary_def is_removal_def jget_def dkeys_def)
  have g: "path_get (JObj merged) [''fields'', cat, fname] =
     (if is_rejected (dget bc fname) then dget bc fname else merged_value (JObj patch) (dget bc fname))"
    using gate_exact [OF a _ assms(2) _ ord, of bc fname] assms(3) s(1)
    by (simp add: field_patch_def dkeys_def jget_def)
  have "path_get (JObj merged) ([''fields'', cat, fname] @ unlock_path fdef caps picked) = Some (JStr ''always'')"
    if "\<not> is_rejected (dget bc fname)"
  proof -
    obtain m where m: "merged_value (JObj patch) (dget bc fname) = Some m" "path_get m (unlock_path fdef caps picked) = Some (JStr ''always'')"
      using patch_wins [OF pl] by blast
    then have "path_get (JObj merged) [''fields'', cat, fname] = Some m" using g that by simp
    then show ?thesis using m(2) by (simp only: path_get_append option.case)
  qed
  then have "if is_rejected (dget bc fname) then path_get (JObj merged) [''fields'', cat, fname] = dget bc fname
     else path_get (JObj merged) ([''fields'', cat, fname] @ unlock_path fdef caps picked) = Some (JStr ''always'')"
    using g by simp
  then show ?thesis unfolding s using a e c by blast
qed

subsection \<open>Comparisons are complete\<close>

definition bucket :: "sidecar \<Rightarrow> sidecar \<Rightarrow> string \<Rightarrow> bool \<times> bool" where
  "bucket prev cur fname = (fst (class_value prev fname) = ''populated'', fst (class_value cur fname) = ''populated'')"

definition change :: "sidecar \<Rightarrow> sidecar \<Rightarrow> string \<Rightarrow> string \<times> pyval \<times> pyval" where
  "change prev cur fname = (fname, snd (class_value prev fname), snd (class_value cur fname))"

definition same_value :: "sidecar \<Rightarrow> sidecar \<Rightarrow> string \<Rightarrow> bool" where
  "same_value prev cur fname = py_eq (snd (class_value prev fname)) (snd (class_value cur fname))"

lemma compare_fold:
  "fold (compare_field prev cur) fs c =
     \<lparr>cm_became = cm_became c @ map (change prev cur) (filter (\<lambda>f. bucket prev cur f = (False, True)) fs),
      cm_stopped = cm_stopped c @ map (change prev cur) (filter (\<lambda>f. bucket prev cur f = (True, False)) fs),
      cm_changed = cm_changed c @ map (change prev cur) (filter (\<lambda>f. bucket prev cur f = (True, True) \<and> \<not> same_value prev cur f) fs),
      cm_stable = cm_stable c + length (filter (\<lambda>f. bucket prev cur f = (True, True) \<and> same_value prev cur f) fs)\<rparr>"
proof (induction fs arbitrary: c)
  case (Cons f fs)
  then show ?case
    by (cases "class_value prev f"; cases "class_value cur f")
      (auto simp: compare_field_def bucket_def change_def same_value_def Let_def)
qed simp

text \<open>A comparison of two inventories names every field that became or stopped being populated or changed
  its value, in alphabetical order and with both values, and counts the others: the four parts together are
  exactly the fields populated in one of the two.\<close>

theorem comparison_exact:
  fixes prev cur :: sidecar
  defines "c \<equiv> compare_sidecars prev cur"
    and "fs \<equiv> all_fields prev cur"
  shows "cm_became c = map (change prev cur) (filter (\<lambda>f. bucket prev cur f = (False, True)) fs) \<and>
    cm_stopped c = map (change prev cur) (filter (\<lambda>f. bucket prev cur f = (True, False)) fs) \<and>
    cm_changed c = map (change prev cur) (filter (\<lambda>f. bucket prev cur f = (True, True) \<and> \<not> same_value prev cur f) fs) \<and>
    length (cm_became c) + length (cm_stopped c) + length (cm_changed c) + cm_stable c =
      length (filter (\<lambda>f. fst (bucket prev cur f) \<or> snd (bucket prev cur f)) fs) \<and>
    sorted fs \<and> distinct fs \<and> set fs = set (dkeys (sc_fields prev)) \<union> set (dkeys (sc_fields cur))"
proof -
  have "length (filter (\<lambda>f. bucket prev cur f = (False, True)) fs) + length (filter (\<lambda>f. bucket prev cur f = (True, False)) fs) +
      length (filter (\<lambda>f. bucket prev cur f = (True, True) \<and> \<not> same_value prev cur f) fs) +
      length (filter (\<lambda>f. bucket prev cur f = (True, True) \<and> same_value prev cur f) fs) =
      length (filter (\<lambda>f. fst (bucket prev cur f) \<or> snd (bucket prev cur f)) fs)" for fs
    by (induction fs) (auto simp: bucket_def)
  then show ?thesis unfolding c_def fs_def compare_sidecars_def compare_fold by (auto simp: all_fields_def)
qed

subsection \<open>Examples\<close>

definition HUMID :: "(string \<times> string \<times> bytes) list" where
  "HUMID = [(''t0'', ''rsp_0xb1'', [0xB1, 1, 0x15, 0, 0, 1, 55])]"

lemma humid_inventory:
  "(case snapshot_inventory [] (observe_all HUMID (new_shadow EXAMPLE)) of
      Inr r \<Rightarrow> map_option fs_classification (dget (ir_states r) ''humidity'') = Some CLASS_POPULATED
    | Inl _ \<Rightarrow> False)"
  by code_simp

theorem inventory_exact_witness:
  "\<exists>r st. snapshot_inventory [] (observe_all HUMID (new_shadow EXAMPLE)) = Inr r \<and> dget (ir_states r) ''humidity'' = Some st \<and>
     fs_classification st = CLASS_POPULATED \<and> fs_frame st = Some ''rsp_0xb1''"
proof -
  obtain r where r: "snapshot_inventory [] (observe_all HUMID (new_shadow EXAMPLE)) = Inr r"
      "map_option fs_classification (dget (ir_states r) ''humidity'') = Some CLASS_POPULATED"
    using humid_inventory by (auto split: sum.splits)
  then obtain st where st: "dget (ir_states r) ''humidity'' = Some st" "fs_classification st = CLASS_POPULATED" by auto
  have k: "map fo_protocol_key (carriers (sd_observations (observe_all HUMID (new_shadow EXAMPLE))) ''humidity'') = [''rsp_0xb1'']"
    by code_simp
  then have "carriers (sd_observations (observe_all HUMID (new_shadow EXAMPLE))) ''humidity'' \<noteq> []"
    "fo_protocol_key (last (carriers (sd_observations (observe_all HUMID (new_shadow EXAMPLE))) ''humidity'')) = ''rsp_0xb1''"
    by (auto simp: map_eq_Cons_conv)
  then show ?thesis using inventory_exact [OF r(1) st(1)] r(1) st by auto
qed

text \<open>The latest frame of every key is used, but the keys stay in the order they were first seen: a field two
  frames carry keeps the value of the key seen later first, although the other frame has arrived since.\<close>

definition body40 :: "byte \<Rightarrow> bytes" where "body40 b = 0x40 # b # replicate 22 1"
definition bodyC0 :: "byte \<Rightarrow> bytes" where "bodyC0 b = 0xC0 # b # replicate 22 1"

lemma fresher_frame_ignored:
  "(case snapshot_inventory [] (observe_all
        [(''t0'', ''rsp_0xc0'', bodyC0 1), (''t1'', ''cmd_0x40'', body40 1), (''t2'', ''rsp_0xc0'', bodyC0 0)] (new_shadow EXAMPLE)) of
      Inr r \<Rightarrow> map_option fs_value (dget (ir_states r) ''power'') = Some (PBool True)
    | Inl _ \<Rightarrow> False)"
  by code_simp

text \<open>A hidden field of a small glossary, and the same field excluded for a reason no override passes.\<close>

definition hidden_tree :: "json \<Rightarrow> (string, json) dict" where
  "hidden_tree entry = [(''fields'', JObj [(''sensor'', JObj [(''humidity'', entry)])])]"

definition hidden_entry :: json where
  "hidden_entry = JObj [(''data_type'', JStr ''uint8''), (''feature_available'', JStr ''capability'')]"

definition excluded_humidity :: json where
  "excluded_humidity = JObj [(''data_type'', JStr ''uint8''), (''feature_available'', JStr ''excluded''),
     (''excluded_reasons'', JList [JStr ''unsafe_write''])]"

definition hidden_field :: "string \<Rightarrow> field_def" where
  "hidden_field fa = field_of_type ''uint8'' (Some fa)
     [(''rsp_0xb1'', loc ''response'' [(plain_step 0 (7, 0))\<lparr>ds_property_id := Some ''0x15,0x00''\<rparr>])]"

definition demo_snippet :: "string \<Rightarrow> json \<Rightarrow> override_snippet option res" where
  "demo_snippet fa entry =
     synthesize_override_snippet (\<lambda>_. Inr []) (\<lambda>_. []) (hidden_tree entry) ''humidity'' (hidden_field fa) ''rsp_0xb1''
       [0xB1, 1, 0x15, 0, 0, 1, 55] EXAMPLE [] (PInt 55)"

lemma demo_patch_plain:
  "field_patch ''sensor'' ''humidity'' [(''feature_available'', JStr ''always'')] =
     [(''fields'', JObj [(''sensor'', JObj [(''humidity'', JObj [(''feature_available'', JStr ''always'')])])])]"
  by (simp add: field_patch_def)

lemma hidden_snippet:
  assumes "entry = hidden_entry \<or> entry = excluded_humidity" "fa = ''capability'' \<or> fa = ''excluded''"
  shows "\<exists>s. demo_snippet fa entry = Inr (Some s) \<and> os_category s = ''sensor'' \<and> os_picked_variant s = None"
proof -
  have c: "find_category ''humidity'' (hidden_tree entry) = Some ''sensor''"
    using assms(1) by (auto simp: find_category_def hidden_tree_def is_field_tree_def has_key_def hidden_entry_def excluded_humidity_def)
  have d: "fd_capability (hidden_field fa) = None" "fd_unit (hidden_field fa) = None" "fd_feature_available (hidden_field fa) = Some fa"
      "\<not> is_cap_dependent (hidden_field fa)"
    by (simp_all add: hidden_field_def field_of_type_def is_cap_dependent_def loc_def plain_step_def)
  have p: "patch_and_reason (hidden_field fa) [] None [] = ([(''feature_available'', JStr ''always'')], field_reason None)"
    using d(1) by (simp add: patch_and_reason_def matched_name_def ha_block_def)
  have "\<exists>m. apply_override (hidden_tree entry) (field_patch ''sensor'' ''humidity'' [(''feature_available'', JStr ''always'')]) = Inr m"
    using assms(1) by (elim disjE) (simp_all add: override_simps field_patch_def hidden_tree_def hidden_entry_def excluded_humidity_def)
  then have "no_new_errors (\<lambda>_. Inr []) (hidden_tree entry) (field_patch ''sensor'' ''humidity'' [(''feature_available'', JStr ''always'')])"
    by (auto simp: no_new_errors_def)
  then show ?thesis
    using assms(2) c d p by (auto simp: demo_snippet_def synthesize_override_snippet_def effective_variant_def
        no_value_def py_eq_def infer_ha_metadata_def Let_def)
qed

theorem snippet_unlocks_witness:
  "\<exists>s merged affected msgs. demo_snippet ''capability'' hidden_entry = Inr (Some s) \<and>
     apply_override (hidden_tree hidden_entry) (os_override_dict s) = Inr (merged, affected, msgs) \<and>
     path_get (JObj merged) [''fields'', ''sensor'', ''humidity'', ''feature_available''] = Some (JStr ''always'')"
proof -
  obtain s where s: "demo_snippet ''capability'' hidden_entry = Inr (Some s)" "os_category s = ''sensor''" "os_picked_variant s = None"
    using hidden_snippet by blast
  have b: "dget (hidden_tree hidden_entry) ''fields'' = Some (JObj [(''sensor'', JObj [(''humidity'', hidden_entry)])])"
      "dget [(''sensor'', JObj [(''humidity'', hidden_entry)])] (os_category s) = Some (JObj [(''humidity'', hidden_entry)])"
    by (simp_all add: hidden_tree_def s(2))
  have r: "\<not> is_rejected (dget [(''humidity'', hidden_entry)] ''humidity'')"
    by (simp add: is_rejected_def excluded_reasons_def hidden_entry_def)
  have u: "unlock_path (hidden_field ''capability'') [] None = [''feature_available'']"
    by (simp add: unlock_path_def matched_name_def hidden_field_def field_of_type_def)
  show ?thesis
    using snippet_unlocks [OF s(1) [unfolded demo_snippet_def] b] s r u by auto
qed

text \<open>An override is suggested for a field the gate never unlocks, and changes nothing.\<close>

lemma useless_snippet:
  "\<exists>s merged affected msgs. demo_snippet ''excluded'' excluded_humidity = Inr (Some s) \<and>
     apply_override (hidden_tree excluded_humidity) (os_override_dict s) = Inr (merged, affected, msgs) \<and>
     merged = hidden_tree excluded_humidity \<and> affected = []"
proof -
  obtain s where s: "demo_snippet ''excluded'' excluded_humidity = Inr (Some s)" using hidden_snippet by blast
  have "os_override_dict s = field_patch ''sensor'' ''humidity'' [(''feature_available'', JStr ''always'')]"
  proof -
    obtain picked cat patch reason where c: "find_category ''humidity'' (hidden_tree excluded_humidity) = Some cat"
      "patch_and_reason (hidden_field ''excluded'') [] picked (infer_ha_metadata ''humidity'' (hidden_field ''excluded'')) = (patch, reason)"
      "os_override_dict s = field_patch cat ''humidity'' patch"
      by (rule synthesized [OF s [unfolded demo_snippet_def]])
    have "cat = ''sensor''" using c(1) by (simp add: find_category_def hidden_tree_def is_field_tree_def has_key_def excluded_humidity_def)
    moreover have "patch = [(''feature_available'', JStr ''always'')]"
      using c(2) by (simp add: patch_and_reason_def matched_name_def hidden_field_def field_of_type_def infer_ha_metadata_def ha_block_def)
    ultimately show ?thesis using c(3) by simp
  qed
  then show ?thesis using s
    by (simp add: override_simps field_patch_def hidden_tree_def excluded_humidity_def)
qed

subsection \<open>The markdown report\<close>

definition count_class :: "inventory_result \<Rightarrow> classification \<Rightarrow> nat" where
  "count_class result c = length (filter (\<lambda>(_, st). fs_classification st = c) (ir_states result))"

definition or_empty :: "string option \<Rightarrow> string" where
  "or_empty s = (case s of None \<Rightarrow> [] | Some x \<Rightarrow> x)"

text \<open>\<open>sort(key=lambda x: (x[1].frame or "", x[0]))\<close>: pairs are compared like lists of two.\<close>

definition rows_of :: "inventory_result \<Rightarrow> classification \<Rightarrow> (string \<times> field_state) list" where
  "rows_of result c =
     sort_key (\<lambda>(fname, st). [or_empty (fs_frame st), fname]) (filter (\<lambda>(_, st). fs_classification st = c) (ir_states result))"

definition frame_text :: "field_state \<Rightarrow> string" where  \<comment> \<open>\<open>f"{st.frame}"\<close>\<close>
  "frame_text st = (case fs_frame st of None \<Rightarrow> ''None'' | Some s \<Rightarrow> s)"

definition code_text :: "string \<Rightarrow> string" where "code_text s = ''`'' @ s @ ''`''"

definition value_for_markdown :: "(pyval \<Rightarrow> string) \<Rightarrow> string \<Rightarrow> field_state \<Rightarrow> (string, field_def) dict \<Rightarrow> string res" where
  "value_for_markdown show_val field_name st walk =
     bind_res (if fs_variants st = [] then Inr (None, False)
               else case dget walk field_name of
                      Some fdef \<Rightarrow> pick_variant (fs_variants st) fdef
                    | None \<Rightarrow> Inr (None, False)) (\<lambda>(picked, guessed).
       case picked of
         Some v \<Rightarrow>
           (if va_value v \<noteq> PNone
            then Inr (code_text (show_val (va_value v)) @
              (case va_encoding v of Some (c # cs) \<Rightarrow> '' via '' @ code_text (c # cs) | _ \<Rightarrow> []) @
              (if guessed then '' _(guessed)_'' else []))
            else Inr (code_text (show_val (fs_value st))))
       | None \<Rightarrow> Inr (code_text (show_val (fs_value st))))"

definition populated_row ::
    "(pyval \<Rightarrow> string) \<Rightarrow> glossary \<Rightarrow> cap_record list \<Rightarrow> string \<times> field_state \<Rightarrow> string res" where
  "populated_row show_val g caps row =
     (case row of (fname, st) \<Rightarrow>
        let fdef = dget (walk_fields g) fname;
            unit = (case fdef of None \<Rightarrow> [] | Some d \<Rightarrow> or_empty (fd_unit d))
        in bind_res (value_for_markdown show_val fname st (walk_fields g)) (\<lambda>v.
             Inr (''| '' @ code_text fname @ '' | '' @ code_text (frame_text st) @ '' | '' @ v @ '' | '' @ unit @ '' | '' @
               describe_cap_state fdef caps @ '' |'')))"

definition snippet_lines :: "(pyval \<Rightarrow> string) \<Rightarrow> (string \<Rightarrow> string) \<Rightarrow> override_snippet \<Rightarrow> string list" where
  "snippet_lines show_val rstrip snip =
     [''### '' @ code_text (os_field_name snip), []] @
     (case os_picked_variant snip of
        Some v \<Rightarrow>
          [''- **Live-decoded value:** '' @ code_text (show_val (va_value v)) @ '' via '' @
             code_text (case va_encoding v of None \<Rightarrow> ''None'' | Some e \<Rightarrow> e) @ '' encoding'' @
             (if os_is_guessed snip then '' (guessed '' @ dash @ '' verify against a physical meter)'' else [])]
      | None \<Rightarrow>
          (if os_picked_value snip \<noteq> PNone then [''- **Live-decoded value:** '' @ code_text (show_val (os_picked_value snip))] else [])) @
     [''- **Reason:** '' @ os_reason snip, [], ''```yaml'', rstrip (os_yaml_text snip), ''```'', []]"

definition suggested_lines :: "(pyval \<Rightarrow> string) \<Rightarrow> (string \<Rightarrow> string) \<Rightarrow> override_snippet list \<Rightarrow> string list" where
  "suggested_lines show_val rstrip snips =
     (if snips = [] then []
      else [''## Suggested overrides ('' @ dec (length snips) @ '' fields)'', [],
            ''These are `populated` on your device but currently hidden in HA by cap-gating. Paste any snippet below into *Configure '' @ arrow @
            '' Advanced '' @ dash @ '' Glossary overrides (YAML)*. Snippets are self-contained '' @ dash @
            '' stack multiple under the same `fields:` root and the YAML merge handles it.'', []] @
           concat (map (snippet_lines show_val rstrip) snips))"

definition zero_lines :: "(pyval \<Rightarrow> string) \<Rightarrow> inventory_result \<Rightarrow> string list" where
  "zero_lines show_val result =
     (let rows = rows_of result CLASS_ZERO
      in if rows = [] then []
         else [''## Zero-valued fields '' @ dash @ '' may be idle, may be dead ('' @ dec (length rows) @ '')'', [],
               ''| Field | Frame | Last-seen value |'', ''|---|---|---|''] @
              map (\<lambda>(fname, st). ''| '' @ code_text fname @ '' | '' @ code_text (frame_text st) @ '' | '' @ code_text (show_val (fs_value st)) @ '' |'') rows @ [[]])"

definition flood_lines :: "inventory_result \<Rightarrow> string list" where
  "flood_lines result =
     (let rows = rows_of result CLASS_FF_FLOOD
      in if rows = [] then []
         else [''## FF-flooded fields '' @ dash @ '' firmware accepts the query, doesn'' @ [CHR 0x27] @ ''t populate ('' @ dec (length rows) @ '')'', [],
               ''| Field | Frame |'', ''|---|---|''] @
              map (\<lambda>(fname, st). ''| '' @ code_text fname @ '' | '' @ code_text (frame_text st) @ '' |'') rows @ [[]])"

definition none_lines :: "inventory_result \<Rightarrow> string list" where
  "none_lines result =
     (let n = count_class result CLASS_NONE
      in if n = 0 then []
         else [''## Decoder returned None ('' @ dec n @ '')'', [],
               ''Could not decode a value from the observed frame '' @ dash @
               '' possibly a cap-dependent field with no plausible encoding variant.'', []])"

definition summary_lines :: "inventory_result \<Rightarrow> string list" where
  "summary_lines result =
     [''## Summary by classification'', [], ''| Classification | Count |'', ''|---|---|''] @
     map (\<lambda>c. ''| '' @ class_name c @ '' | '' @ dec (count_class result c) @ '' |'') ALL_CLASSIFICATIONS @ [[]]"

definition header_lines :: "string \<Rightarrow> string \<Rightarrow> inventory_result \<Rightarrow> glossary \<Rightarrow> string \<Rightarrow> string option \<Rightarrow> string list" where
  "header_lines now now_human result g label host =
     (let obs = ir_observations result
      in [''<!-- Field inventory generated '' @ now_human @ '' (label: '' @ [CHR 0x22] @ label @ [CHR 0x22] @ '') -->'', [],
          ''# Field inventory '' @ dash @ '' '' @ label, []] @
         (case host of Some (c # cs) \<Rightarrow> [''**Device:** '' @ (c # cs)] | _ \<Rightarrow> []) @
         [''**Timestamp:** '' @ now, ''**Glossary version:** '' @ gl_version g,
          ''**Queries observed:** '' @ dec (length (remdups (map fo_protocol_key obs))) @ ''    **Responses recorded:** '' @ dec (length obs) @
          ''    **FF-flooded frames:** '' @ dec (length (filter fo_ff_flood obs)), []])"

definition generate_markdown_report ::
    "(pyval \<Rightarrow> string) \<Rightarrow> (string \<Rightarrow> string) \<Rightarrow> string \<Rightarrow> string \<Rightarrow> inventory_result \<Rightarrow> glossary \<Rightarrow> string \<Rightarrow> string option \<Rightarrow>
     override_snippet list \<Rightarrow> string res" where
  "generate_markdown_report show_val rstrip now now_human result g label host snips =
     (let populated = rows_of result CLASS_POPULATED
      in bind_res (map_res (populated_row show_val g (ir_cap_records result)) populated) (\<lambda>rows.
         Inr (join_with [CHR 0x0A]
           (header_lines now now_human result g label host @ summary_lines result @
            [''## Populated fields ('' @ dec (length populated) @ '')'', [], ''| Field | Frame | Value | Unit | Cap |'', ''|---|---|---|---|---|''] @
            rows @ [[]] @ suggested_lines show_val rstrip snips @ zero_lines show_val result @ flood_lines result @ none_lines result @
            [''## Not-seen fields ('' @ dec (count_class result CLASS_NOT_SEEN) @ '') '' @ dash @ '' no matching response frame this run'', [],
             ''Fields omitted here '' @ dash @ '' see the JSON sidecar for the full list.'', []]))))"

text \<open>The counts of the summary add up to the fields, and the tables list exactly the fields of their class.\<close>

lemma counts_complete: "sum_list (map (count_class result) ALL_CLASSIFICATIONS) = length (ir_states result)"
proof -
  have "length (filter (\<lambda>(_, st). fs_classification st = CLASS_POPULATED) sts) + (length (filter (\<lambda>(_, st). fs_classification st = CLASS_ZERO) sts) +
      (length (filter (\<lambda>(_, st). fs_classification st = CLASS_FF_FLOOD) sts) + (length (filter (\<lambda>(_, st). fs_classification st = CLASS_NONE) sts) +
       length (filter (\<lambda>(_, st). fs_classification st = CLASS_NOT_SEEN) sts)))) = length sts" for sts :: "(string \<times> field_state) list"
  proof (induction sts)
    case (Cons x sts)
    obtain n st where "x = (n, st)" by (cases x)
    then show ?case using Cons by (cases "fs_classification st") simp_all
  qed simp
  then show ?thesis by (simp add: ALL_CLASSIFICATIONS_def count_class_def)
qed

lemma rows_complete:
  "set (rows_of result c) = {(fname, st) \<in> set (ir_states result). fs_classification st = c}"
  "length (rows_of result c) = count_class result c"
  unfolding rows_of_def count_class_def by auto

end
