(* ===== verification/Collisions.thy ===== *)
theory Collisions
  imports Codec Json "HOL-Library.List_Lexorder" "HOL-Library.Char_ord" "HOL-Library.Product_Lexorder"
begin

section \<open>Collisions of bit positions (\<open>tools/glossary_collisions.py\<close>)\<close>

text \<open>
  A static check of the glossary: \<open>build_position_catalogue\<close> lists every bit every field claims, in the
  namespace of its frame, property or capability; \<open>find_collisions\<close> reports the bits two fields claim, unless
  an allowlist names them; \<open>find_shared_bytes\<close> lists the bytes fields share without colliding.

  The glossary is the tree of the YAML file.  Its schema makes offsets integers and identifiers strings; a
  value of another type is treated as absent there.  Containers of a wrong type raise as they do in Python.

  Lemmas: a collision is reported exactly where two fields claim a bit; in a glossary without collisions
  any two fields of a scope are apart in the sense of the field codec, so that encoding one leaves what the
  other decodes.
\<close>

subsection \<open>Trees\<close>

text \<open>\<open>(x or {}).items()\<close> and iterating over \<open>x or []\<close>.\<close>

definition tree_truthy :: "json \<Rightarrow> bool" where
  "tree_truthy j =
     (case j of
        JNull \<Rightarrow> False | JBool b \<Rightarrow> b | JInt i \<Rightarrow> i \<noteq> 0 | JFloat l \<Rightarrow> float_value l \<noteq> Fin 0
      | JStr s \<Rightarrow> s \<noteq> [] | JList xs \<Rightarrow> xs \<noteq> [] | JObj d \<Rightarrow> d \<noteq> [])"

definition tree_items :: "json option \<Rightarrow> (string \<times> json) list res" where
  "tree_items j =
     (case j of
        None \<Rightarrow> Inr []
      | Some j \<Rightarrow> (if \<not> tree_truthy j then Inr [] else case j of JObj d \<Rightarrow> Inr d | _ \<Rightarrow> Inl AttributeError))"

definition tree_str :: "json option \<Rightarrow> string option" where
  "tree_str j = (case j of Some (JStr s) \<Rightarrow> Some s | _ \<Rightarrow> None)"

definition tree_int :: "json \<Rightarrow> int option" where  \<comment> \<open>\<open>isinstance(x, int)\<close>\<close>
  "tree_int j = (case j of JInt i \<Rightarrow> Some i | JBool b \<Rightarrow> Some (if b then 1 else 0) | _ \<Rightarrow> None)"

subsection \<open>Scopes\<close>

datatype scope_type = SCOPE_FLAT_BODY | SCOPE_PROPERTY_TLV | SCOPE_CAPABILITY | SCOPE_CAP_DECODE

definition FRAME_SCOPE_RULES :: "(string \<times> scope_type \<times> string) list" where
  "FRAME_SCOPE_RULES =
     [(''rsp_0xb1'', SCOPE_PROPERTY_TLV, ''read''),
      (''cmd_0xb0'', SCOPE_PROPERTY_TLV, ''write''),
      (''cmd_0xb1'', SCOPE_PROPERTY_TLV, ''write''),
      (''rsp_0xb5_tlv'', SCOPE_CAPABILITY, ''cap''),
      (''rsp_0xb5'', SCOPE_CAPABILITY, ''cap''),
      (''cmd_0x'', SCOPE_FLAT_BODY, ''write''),
      (''rsp_0x'', SCOPE_FLAT_BODY, ''read'')]"

definition classify_frame :: "string \<Rightarrow> (scope_type \<times> string) option" where
  "classify_frame frame_id = map_option snd (find (\<lambda>(p, _). starts_with p frame_id) FRAME_SCOPE_RULES)"

subsection \<open>Decode steps\<close>

record bit_step =
  bt_offset :: int
  bt_high :: int
  bt_low :: int
  bt_encoding :: "string option"
  bt_property_id :: "string option"

text \<open>The step as one that claims bits; \<open>None\<close> for logic steps and malformed ones.\<close>

definition claiming_step :: "json \<Rightarrow> bit_step option res" where
  "claiming_step step =
     (case step of
        JObj d \<Rightarrow>
          (if has_key d ''logic'' then Inr None
           else case dget d ''offset'' of
                  Some (JInt offset) \<Rightarrow>
                    (case dget d ''bits'' of
                       None \<Rightarrow> Inr None
                     | Some bits \<Rightarrow>
                         (if \<not> tree_truthy bits then Inr None
                          else case bits of
                                 JList [high, low] \<Rightarrow>
                                   (case (tree_int high, tree_int low) of
                                      (Some h, Some l) \<Rightarrow>
                                        Inr (Some \<lparr>bt_offset = offset, bt_high = h, bt_low = l,
                                               bt_encoding = tree_str (dget d ''encoding''),
                                               bt_property_id = tree_str (dget d ''property_id'')\<rparr>)
                                    | _ \<Rightarrow> Inr None)
                               | JList _ \<Rightarrow> Inr None
                               | JStr _ \<Rightarrow> Inr None
                               | JObj _ \<Rightarrow> Inr None
                               | _ \<Rightarrow> Inl TypeError))
                | _ \<Rightarrow> Inr None)
      | _ \<Rightarrow> Inr None)"

definition walk_decode_steps :: "json option \<Rightarrow> bit_step list res" where
  "walk_decode_steps steps =
     (case steps of
        None \<Rightarrow> Inr []
      | Some j \<Rightarrow>
          (if \<not> tree_truthy j then Inr []
           else case j of
                  JList xs \<Rightarrow> bind_res (map_res claiming_step xs) (\<lambda>ss. Inr (List.map_filter id ss))
                | JStr _ \<Rightarrow> Inr []
                | JObj _ \<Rightarrow> Inr []
                | _ \<Rightarrow> Inl TypeError))"

subsection \<open>The catalogue\<close>

record claim =
  pc_field :: string
  pc_field_class :: "string option"
  pc_feature_available :: "string option"
  pc_class :: string
  pc_frame :: string
  pc_scope_type :: scope_type
  pc_scope_key :: string
  pc_byte :: int
  pc_bit_high :: int
  pc_bit_low :: int
  pc_bit :: int
  pc_encoding :: "string option"
  pc_property_id :: "string option"
  pc_cap_id :: "string option"

definition emit_claims ::
    "string \<Rightarrow> (string, json) dict \<Rightarrow> scope_type \<Rightarrow> string \<Rightarrow> string \<Rightarrow> string \<Rightarrow> string option \<Rightarrow> string option \<Rightarrow> bit_step \<Rightarrow> claim list" where
  "emit_claims fname fdef stype cls frame_id scope_extra property_id cid s =
     map (\<lambda>b. \<lparr>pc_field = fname, pc_field_class = tree_str (dget fdef ''field_class''),
               pc_feature_available = tree_str (dget fdef ''feature_available''), pc_class = cls, pc_frame = frame_id,
               pc_scope_type = stype, pc_scope_key = (if scope_extra = [] then frame_id else frame_id @ ''/'' @ scope_extra),
               pc_byte = bt_offset s, pc_bit_high = bt_high s, pc_bit_low = bt_low s, pc_bit = b,
               pc_encoding = bt_encoding s, pc_property_id = property_id, pc_cap_id = cid\<rparr>)
       [bt_low s..bt_high s]"

definition protocol_claims :: "string \<Rightarrow> (string, json) dict \<Rightarrow> string \<times> json \<Rightarrow> claim list res" where
  "protocol_claims fname fdef entry =
     (case entry of (pkey, pdef) \<Rightarrow>
        case pdef of
          JObj p \<Rightarrow>
            (case classify_frame pkey of
               None \<Rightarrow> Inr []
             | Some (stype, cls) \<Rightarrow>
                 bind_res (walk_decode_steps (dget p ''decode'')) (\<lambda>ss.
                   Inr (concat (map (\<lambda>s.
                     if stype = SCOPE_PROPERTY_TLV
                     then (case bt_property_id s of
                             None \<Rightarrow> emit_claims fname fdef stype cls pkey ''<missing-property_id>'' None None s
                           | Some prop \<Rightarrow> emit_claims fname fdef stype cls pkey (''prop='' @ prop) (Some prop) None s)
                     else emit_claims fname fdef stype cls pkey [] None None s) ss))))
        | _ \<Rightarrow> Inr [])"

definition or_str :: "json option \<Rightarrow> string \<Rightarrow> string" where  \<comment> \<open>\<open>s or default\<close>\<close>
  "or_str j dflt = (case tree_str j of Some (c # cs) \<Rightarrow> c # cs | _ \<Rightarrow> dflt)"

definition sub_claims ::
    "string \<Rightarrow> (string, json) dict \<Rightarrow> scope_type \<Rightarrow> (string \<Rightarrow> string) \<Rightarrow> (string \<Rightarrow> string) \<Rightarrow> string \<Rightarrow> string \<times> json \<Rightarrow> claim list res" where
  "sub_claims fname fdef stype frame_of extra_of cid entry =
     (case entry of (key, sub) \<Rightarrow>
        case sub of
          JObj d \<Rightarrow>
            bind_res (walk_decode_steps (dget d ''decode'')) (\<lambda>ss.
              Inr (concat (map (emit_claims fname fdef stype ''cap'' (frame_of key) (extra_of key) None (Some cid)) ss)))
        | _ \<Rightarrow> Inr [])"

definition capability_claims :: "string \<Rightarrow> (string, json) dict \<Rightarrow> claim list res" where
  "capability_claims fname fdef =
     (case dget fdef ''capability'' of
        Some (JObj cap) \<Rightarrow>
          (let cid = or_str (dget cap ''cap_id'') (or_str (dget cap ''cap_id_16'') ''<unknown_cap>'')
           in bind_res (tree_items (dget cap ''frames'')) (\<lambda>frames.
              bind_res (map_res (sub_claims fname fdef SCOPE_CAPABILITY (\<lambda>k. k) (\<lambda>_. ''cap='' @ cid) cid) frames) (\<lambda>as.
              bind_res (tree_items (dget cap ''decode'')) (\<lambda>subs.
              bind_res (map_res (sub_claims fname fdef SCOPE_CAP_DECODE (\<lambda>_. ''capability.decode'') (\<lambda>k. ''cap='' @ cid @ ''/'' @ k) cid) subs) (\<lambda>bs.
                Inr (concat as @ concat bs))))))
      | _ \<Rightarrow> Inr [])"

definition field_claims :: "string \<times> json \<Rightarrow> claim list res" where
  "field_claims entry =
     (case entry of (fname, fdef) \<Rightarrow>
        case fdef of
          JObj d \<Rightarrow>
            bind_res (tree_items (dget d ''protocols'')) (\<lambda>protocols.
            bind_res (map_res (protocol_claims fname d) protocols) (\<lambda>ps.
            bind_res (capability_claims fname d) (\<lambda>cs. Inr (concat ps @ cs))))
        | _ \<Rightarrow> Inr [])"

definition section_claims :: "(string \<times> json) list \<Rightarrow> string \<Rightarrow> claim list res" where
  "section_claims troot sec =
     bind_res (tree_items (dget troot sec)) (\<lambda>entries. bind_res (map_res field_claims entries) (\<lambda>cs. Inr (concat cs)))"

definition build_position_catalogue :: "(string, json) dict \<Rightarrow> claim list res" where
  "build_position_catalogue glossary =
     bind_res (tree_items (dget glossary ''fields'')) (\<lambda>troot.
     bind_res (map_res (section_claims troot) [''sensor'', ''control'']) (\<lambda>cs. Inr (concat cs)))"

subsection \<open>Collisions\<close>

type_synonym slot_key = "string \<times> int \<times> int"

definition claim_slot :: "claim \<Rightarrow> slot_key" where
  "claim_slot r = (pc_scope_key r, pc_byte r, pc_bit r)"

definition by_slot :: "claim list \<Rightarrow> (slot_key, claim list) dict" where
  "by_slot catalogue = fold (\<lambda>r d. dset (claim_slot r) (dget_or d (claim_slot r) [] @ [r]) d) catalogue []"

definition owners_of :: "claim list \<Rightarrow> string list" where  \<comment> \<open>\<open>sorted({r["field"] for r in recs})\<close>\<close>
  "owners_of recs = sort (remdups (map pc_field recs))"

text \<open>The key of an allowlist entry; entries whose key cannot equal a collision's are \<open>None\<close>.\<close>

definition allow_fields :: "json \<Rightarrow> string list option" where
  "allow_fields j =
     (case j of
        JList xs \<Rightarrow>
          (if list_all (\<lambda>x. case x of JStr _ \<Rightarrow> True | _ \<Rightarrow> False) xs
           then Some (sort (map (\<lambda>x. case x of JStr s \<Rightarrow> s | _ \<Rightarrow> []) xs)) else None)
      | JStr s \<Rightarrow> Some (sort (map (\<lambda>c. [c]) s))
      | JObj d \<Rightarrow> Some (sort (dkeys d))
      | _ \<Rightarrow> None)"

definition allow_key :: "json \<Rightarrow> (slot_key \<times> string list) option" where
  "allow_key entry =
     (case entry of
        JObj d \<Rightarrow>
          (case (dget d ''fields'', dget d ''scope'', dget d ''byte'', dget d ''bit'') of
             (Some fs, Some (JStr scope), Some byte, Some b) \<Rightarrow>
               (case (allow_fields fs, tree_int byte, tree_int b) of
                  (Some names, Some i, Some k) \<Rightarrow> Some ((scope, i, k), names)
                | _ \<Rightarrow> None)
           | _ \<Rightarrow> None)
      | _ \<Rightarrow> None)"

record collision =
  co_scope_key :: string
  co_byte :: int
  co_bit :: int
  co_fields :: "string list"
  co_class :: string
  co_frame :: string
  co_scope_type :: scope_type

definition collision_of :: "slot_key \<times> claim list \<Rightarrow> collision" where
  "collision_of e =
     (case e of ((scope, byte, b), recs) \<Rightarrow>
        \<lparr>co_scope_key = scope, co_byte = byte, co_bit = b, co_fields = owners_of recs,
         co_class = pc_class (hd recs), co_frame = pc_frame (hd recs), co_scope_type = pc_scope_type (hd recs)\<rparr>)"

definition find_collisions :: "claim list \<Rightarrow> json list \<Rightarrow> collision list" where
  "find_collisions catalogue allow =
     (let allow_keys = List.map_filter allow_key allow
      in sort_key (\<lambda>c. (co_class c, co_scope_key c, co_byte c, co_bit c))
           (map collision_of (filter (\<lambda>(slot, recs). 1 < length (owners_of recs) \<and> (slot, owners_of recs) \<notin> set allow_keys)
              (by_slot catalogue))))"

subsection \<open>Shared bytes and the allowlist\<close>

record shared_byte =
  sh_scope_key :: string
  sh_byte :: int
  sh_owners :: "string list"
  sh_bit_layout :: "(int \<times> string list) list"

definition by_byte :: "claim list \<Rightarrow> (string \<times> int, claim list) dict" where
  "by_byte catalogue =
     fold (\<lambda>r d. let k = (pc_scope_key r, pc_byte r) in dset k (dget_or d k [] @ [r]) d) catalogue []"

definition bit_layout :: "claim list \<Rightarrow> (int \<times> string list) list" where
  "bit_layout recs =
     map (\<lambda>b. (b, owners_of (filter (\<lambda>r. pc_bit r = b) recs))) (sort (remdups (map pc_bit recs)))"

definition find_shared_bytes :: "claim list \<Rightarrow> shared_byte list" where
  "find_shared_bytes catalogue =
     sort_key (\<lambda>r. (sh_scope_key r, sh_byte r))
       (map (\<lambda>((scope, byte), recs). \<lparr>sh_scope_key = scope, sh_byte = byte, sh_owners = owners_of recs, sh_bit_layout = bit_layout recs\<rparr>)
         (filter (\<lambda>(_, recs). 2 \<le> length (owners_of recs) \<and> list_all (\<lambda>(_, names). length names \<le> 1) (bit_layout recs))
           (by_byte catalogue)))"

definition load_allowlist :: "json option \<Rightarrow> json list" where  \<comment> \<open>of the tree in the file, \<open>None\<close> without a file\<close>
  "load_allowlist data =
     (case data of
        Some (JObj d) \<Rightarrow>
          (case dget d ''allowed_collisions'' of
             Some (JList entries) \<Rightarrow> filter (\<lambda>e. case e of JObj _ \<Rightarrow> True | _ \<Rightarrow> False) entries
           | _ \<Rightarrow> [])
      | _ \<Rightarrow> [])"

subsection \<open>What the catalogue holds\<close>

text \<open>Every bit of a claimed range has its claim.\<close>

definition complete_claims :: "claim list \<Rightarrow> bool" where
  "complete_claims cs \<longleftrightarrow>
     (\<forall>c \<in> set cs. pc_bit_low c \<le> pc_bit c \<and> pc_bit c \<le> pc_bit_high c \<and>
        (\<forall>b. pc_bit_low c \<le> b \<and> b \<le> pc_bit_high c \<longrightarrow> c\<lparr>pc_bit := b\<rparr> \<in> set cs))"

lemma emit_complete: "complete_claims (emit_claims fname fdef stype cls frame_id extra prop cid s)"
  by (auto simp: complete_claims_def emit_claims_def image_iff)

lemma complete_append: "complete_claims cs \<Longrightarrow> complete_claims ds \<Longrightarrow> complete_claims (cs @ ds)"
  by (auto simp: complete_claims_def)

lemma complete_concat: "(\<And>cs. cs \<in> set css \<Longrightarrow> complete_claims cs) \<Longrightarrow> complete_claims (concat css)"
  by (induction css) (auto simp: complete_append, simp add: complete_claims_def)

lemma map_res_member: "map_res h xs = Inr ys \<Longrightarrow> y \<in> set ys \<Longrightarrow> \<exists>x \<in> set xs. h x = Inr y"
  by (induction xs arbitrary: ys) auto

lemma complete_map_res:
  assumes "map_res h xs = Inr css" "\<And>x cs. h x = Inr cs \<Longrightarrow> complete_claims cs"
  shows "complete_claims (concat css)"
  using assms map_res_member [OF assms(1)] by (intro complete_concat) blast

lemma protocol_complete: "protocol_claims fname fdef e = Inr cs \<Longrightarrow> complete_claims cs"
  by (auto simp: protocol_claims_def emit_complete complete_claims_def [of "[]"] intro!: complete_concat
      split: prod.splits json.splits option.splits if_splits)

lemma sub_complete: "sub_claims fname fdef stype fo eo cid e = Inr cs \<Longrightarrow> complete_claims cs"
  by (auto simp: sub_claims_def emit_complete complete_claims_def [of "[]"] intro!: complete_concat
      split: prod.splits json.splits)

lemma capability_complete:
  assumes "capability_claims fname fdef = Inr cs"
  shows "complete_claims cs"
proof (cases "\<exists>cap. dget fdef ''capability'' = Some (JObj cap)")
  case True
  then obtain cap where cap: "dget fdef ''capability'' = Some (JObj cap)" by blast
  define cid where "cid = or_str (dget cap ''cap_id'') (or_str (dget cap ''cap_id_16'') ''<unknown_cap>'')"
  obtain frames subs as bs where
      "map_res (sub_claims fname fdef SCOPE_CAPABILITY (\<lambda>k. k) (\<lambda>_. ''cap='' @ cid) cid) frames = Inr as"
      "map_res (sub_claims fname fdef SCOPE_CAP_DECODE (\<lambda>_. ''capability.decode'') (\<lambda>k. ''cap='' @ cid @ ''/'' @ k) cid) subs = Inr bs"
      "cs = concat as @ concat bs"
    using assms cap by (auto simp: capability_claims_def Let_def cid_def)
  then show ?thesis
    by (simp add: complete_append [OF complete_map_res [OF _ sub_complete] complete_map_res [OF _ sub_complete]])
next
  case False
  then have "cs = []" using assms by (auto simp: capability_claims_def split: option.splits json.splits)
  then show ?thesis by (simp add: complete_claims_def)
qed

lemma field_complete:
  assumes "field_claims e = Inr cs"
  shows "complete_claims cs"
proof (cases "\<exists>d. snd e = JObj d")
  case True
  then obtain fname d where e: "e = (fname, JObj d)" by (cases e) auto
  obtain protocols ps ks where p: "map_res (protocol_claims fname d) protocols = Inr ps" "capability_claims fname d = Inr ks" "cs = concat ps @ ks"
    using assms e by (auto simp: field_claims_def)
  show ?thesis unfolding p(3)
    by (rule complete_append [OF complete_map_res [OF p(1) protocol_complete] capability_complete [OF p(2)]])
next
  case False
  then have "cs = []" using assms by (auto simp: field_claims_def split: prod.splits json.splits)
  then show ?thesis by (simp add: complete_claims_def)
qed

lemma section_complete: "section_claims troot sec = Inr cs \<Longrightarrow> complete_claims cs"
  by (auto simp: section_claims_def intro!: complete_map_res [OF _ field_complete])

lemma catalogue_complete: "build_position_catalogue tree = Inr cs \<Longrightarrow> complete_claims cs"
  by (auto simp del: map_res.simps simp: build_position_catalogue_def intro!: complete_map_res [OF _ section_complete])

subsection \<open>Collisions are exact\<close>

definition claims_at :: "claim list \<Rightarrow> slot_key \<Rightarrow> claim list" where
  "claims_at cat slot = filter (\<lambda>r. claim_slot r = slot) cat"

lemma by_slot_snoc: "by_slot (cat @ [r]) = dset (claim_slot r) (dget_or (by_slot cat) (claim_slot r) [] @ [r]) (by_slot cat)"
  by (simp add: by_slot_def)

lemma by_slot_lookup: "dget (by_slot cat) slot = (if claims_at cat slot = [] then None else Some (claims_at cat slot))"
proof (induction cat rule: rev_induct)
  case Nil
  then show ?case by (simp add: by_slot_def claims_at_def)
next
  case (snoc r cat)
  then show ?case by (auto simp: by_slot_snoc claims_at_def dget_or_def)
qed

lemma by_slot_distinct: "distinct (dkeys (by_slot cat))"
  by (induction cat rule: rev_induct) (simp_all add: by_slot_snoc dkeys_def distinct_update, simp add: by_slot_def)

lemma by_slot_member: "(slot, recs) \<in> set (by_slot cat) \<longleftrightarrow> recs = claims_at cat slot \<and> recs \<noteq> []"
proof -
  have "(slot, recs) \<in> set (by_slot cat) \<longleftrightarrow> dget (by_slot cat) slot = Some recs"
    using by_slot_distinct [of cat] by (simp add: dkeys_def)
  then show ?thesis by (auto simp: by_slot_lookup)
qed

lemma two_owners: "1 < length (owners_of recs) \<longleftrightarrow> (\<exists>r1 \<in> set recs. \<exists>r2 \<in> set recs. pc_field r1 \<noteq> pc_field r2)"
proof -
  have "length (owners_of recs) = card (pc_field ` set recs)" by (simp add: owners_of_def length_remdups_card_conv)
  moreover have "1 < card S \<longleftrightarrow> (\<exists>x \<in> S. \<exists>y \<in> S. x \<noteq> y)" if "finite S" for S :: "string set"
    using that by (metis One_nat_def card_le_Suc0_iff_eq not_less)
  ultimately show ?thesis by auto
qed

definition co_slot :: "collision \<Rightarrow> slot_key" where
  "co_slot c = (co_scope_key c, co_byte c, co_bit c)"

lemma collisions_member:
  "c \<in> set (find_collisions cat allow) \<longleftrightarrow>
     (\<exists>slot. c = collision_of (slot, claims_at cat slot) \<and> 1 < length (owners_of (claims_at cat slot)) \<and>
       (slot, owners_of (claims_at cat slot)) \<notin> set (List.map_filter allow_key allow))"
proof -
  have ne: "1 < length (owners_of (claims_at cat slot)) \<Longrightarrow> claims_at cat slot \<noteq> []" for slot
    by (auto simp: owners_of_def)
  let ?P = "\<lambda>slot recs. 1 < length (owners_of recs) \<and> (slot, owners_of recs) \<notin> set (List.map_filter allow_key allow)"
  have "c \<in> set (find_collisions cat allow) \<longleftrightarrow> (\<exists>slot recs. (slot, recs) \<in> set (by_slot cat) \<and> ?P slot recs \<and> c = collision_of (slot, recs))"
    unfolding find_collisions_def Let_def by (auto simp del: One_nat_def)
  also have "\<dots> \<longleftrightarrow> (\<exists>slot. c = collision_of (slot, claims_at cat slot) \<and> ?P slot (claims_at cat slot))"
    unfolding by_slot_member using ne by blast
  finally show ?thesis .
qed

lemma collision_of_slot: "co_slot (collision_of (slot, recs)) = slot" "co_fields (collision_of (slot, recs)) = owners_of recs"
  by (cases slot; simp add: collision_of_def co_slot_def)+

text \<open>A bit is reported exactly when two claims of different fields meet there and the allowlist does not
  name it with exactly its owners; what is reported are all the fields that claim it.\<close>

theorem collisions_exact:
  "(\<exists>c \<in> set (find_collisions cat allow). co_slot c = slot \<and> co_fields c = names) \<longleftrightarrow>
     (\<exists>r1 r2. r1 \<in> set cat \<and> r2 \<in> set cat \<and> claim_slot r1 = slot \<and> claim_slot r2 = slot \<and> pc_field r1 \<noteq> pc_field r2) \<and>
     names = owners_of (claims_at cat slot) \<and> (slot, names) \<notin> set (List.map_filter allow_key allow)"
proof -
  have t: "1 < length (owners_of (claims_at cat slot)) \<longleftrightarrow>
      (\<exists>r1 r2. r1 \<in> set cat \<and> r2 \<in> set cat \<and> claim_slot r1 = slot \<and> claim_slot r2 = slot \<and> pc_field r1 \<noteq> pc_field r2)"
    unfolding two_owners by (auto simp: claims_at_def)
  show ?thesis unfolding t [symmetric] collisions_member Bex_def using collision_of_slot by metis
qed


subsection \<open>No collision, no interference\<close>

definition claim_range :: "claim \<Rightarrow> nat \<times> nat \<times> nat" where
  "claim_range c = (nat (pc_byte c), nat (pc_bit_high c), nat (pc_bit_low c))"

definition natural_claim :: "claim \<Rightarrow> bool" where
  "natural_claim c \<longleftrightarrow> 0 \<le> pc_byte c \<and> 0 \<le> pc_bit_low c"

lemma collision_free_apart:
  assumes "build_position_catalogue tree = Inr cat" "find_collisions cat [] = []"
    and "c1 \<in> set cat" "c2 \<in> set cat" "pc_scope_key c1 = pc_scope_key c2" "pc_field c1 \<noteq> pc_field c2"
    and "natural_claim c1" "natural_claim c2"
  shows "apart (claim_range c1) (claim_range c2)"
proof (rule ccontr)
  assume "\<not> ?thesis"
  then have b: "nat (pc_byte c1) = nat (pc_byte c2)"
      "nat (pc_bit_low c2) \<le> nat (pc_bit_high c1)" "nat (pc_bit_low c1) \<le> nat (pc_bit_high c2)"
    by (auto simp: apart_def claim_range_def disjoint_bits_def not_less)
  have l: "pc_bit_low c1 \<le> pc_bit_high c1" "pc_bit_low c2 \<le> pc_bit_high c2"
    using catalogue_complete [OF assms(1)] assms(3,4) by (force simp: complete_claims_def)+
  define k where "k = max (pc_bit_low c1) (pc_bit_low c2)"
  have k: "pc_bit_low c1 \<le> k \<and> k \<le> pc_bit_high c1" "pc_bit_low c2 \<le> k \<and> k \<le> pc_bit_high c2"
    using b(2,3) l assms(7,8) by (auto simp: k_def natural_claim_def)
  have byte: "pc_byte c1 = pc_byte c2" using b(1) assms(7,8) by (simp add: natural_claim_def eq_nat_nat_iff)
  let ?slot = "(pc_scope_key c1, pc_byte c1, k)"
  have "c1\<lparr>pc_bit := k\<rparr> \<in> set cat" "c2\<lparr>pc_bit := k\<rparr> \<in> set cat"
    using catalogue_complete [OF assms(1)] assms(3,4) k by (auto simp: complete_claims_def)
  then have "c1\<lparr>pc_bit := k\<rparr> \<in> set (claims_at cat ?slot)" "c2\<lparr>pc_bit := k\<rparr> \<in> set (claims_at cat ?slot)"
    using assms(5) byte by (simp_all add: claims_at_def claim_slot_def)
  moreover have "pc_field (c1\<lparr>pc_bit := k\<rparr>) \<noteq> pc_field (c2\<lparr>pc_bit := k\<rparr>)" using assms(6) by simp
  ultimately have "1 < length (owners_of (claims_at cat ?slot))" unfolding two_owners by blast
  then have "collision_of (?slot, claims_at cat ?slot) \<in> set (find_collisions cat [])"
    unfolding collisions_member by auto
  then show False using assms(2) by simp
qed

text \<open>C31: in a glossary without collisions, encoding one field leaves every other field of the frame alone: when
  the positions \<open>encode_field\<close> writes are positions the catalogue lists for the field, the bits any other field
  of the scope claims are the same before and after.\<close>

theorem collision_free_encoding:
  assumes "build_position_catalogue tree = Inr cat" "find_collisions cat [] = []"
    and "encode_field body steps dt v encs = Inr body'"
    and "\<forall>p \<in> set (written steps). \<exists>c \<in> set cat. pc_field c = fname \<and> pc_scope_key c = scope \<and> natural_claim c \<and> p = claim_range c"
    and "other \<in> set cat" "pc_field other \<noteq> fname" "pc_scope_key other = scope" "natural_claim other"
  shows "field_at body' (claim_range other) = field_at body (claim_range other)"
proof -
  have "\<forall>p \<in> set (written steps). apart p (claim_range other)"
    using collision_free_apart [OF assms(1,2)] assms(4-8) by metis
  then show ?thesis using encode_field_frame_lemma [OF assms(3)] by blast
qed


definition field_tree :: "string \<Rightarrow> json list \<Rightarrow> json" where
  "field_tree frame steps = JObj [(''protocols'', JObj [(frame, JObj [(''decode'', JList steps)])])]"

definition step_tree :: "int \<Rightarrow> int \<Rightarrow> int \<Rightarrow> json" where
  "step_tree offset high low = JObj [(''offset'', JInt offset), (''bits'', JList [JInt high, JInt low])]"

definition TWO_FIELDS :: "(string, json) dict" where
  "TWO_FIELDS =
     [(''fields'', JObj [(''control'', JObj [(''fan'', field_tree ''cmd_0x40'' [step_tree 1 2 1]),
                                             (''turbo'', field_tree ''cmd_0x40'' [step_tree 1 0 0])])])]"

lemma two_fields:
  "\<exists>cat. build_position_catalogue TWO_FIELDS = Inr cat \<and> find_collisions cat [] = [] \<and>
     (\<exists>c \<in> set cat. pc_field c = ''fan'' \<and> pc_scope_key c = ''cmd_0x40'' \<and> natural_claim c \<and> claim_range c = (1, 2, 1)) \<and>
     (\<exists>c \<in> set cat. pc_field c = ''turbo'' \<and> pc_scope_key c = ''cmd_0x40'' \<and> natural_claim c \<and> claim_range c = (1, 0, 0))"
  by (simp add: TWO_FIELDS_def field_tree_def step_tree_def build_position_catalogue_def tree_items_def tree_truthy_def
      section_claims_def field_claims_def protocol_claims_def classify_frame_def FRAME_SCOPE_RULES_def starts_with_def
      walk_decode_steps_def claiming_step_def has_key_def tree_int_def tree_str_def emit_claims_def capability_claims_def
      List.map_filter_def find_collisions_def by_slot_def claim_slot_def owners_of_def dget_or_def natural_claim_def claim_range_def
      upto.simps)

theorem collision_free_encoding_witness:
  "\<exists>body'. encode_field [0x40, 0x01] [plain_step 1 (2, 1)] None (PInt 3) [] = Inr body' \<and>
     field_at body' (1, 0, 0) = field_at [0x40, 0x01] (1, 0, 0)"
proof -
  obtain body' where e: "encode_field [0x40, 0x01] [plain_step 1 (2, 1)] None (PInt 3) [] = Inr body'"
  proof -
    have "\<not> isl (encode_field [0x40, 0x01] [plain_step 1 (2, 1)] None (PInt 3) [])" by code_simp
    then show thesis using that by (cases "encode_field [0x40, 0x01] [plain_step 1 (2, 1)] None (PInt 3) []") auto
  qed
  obtain cat c d where cat: "build_position_catalogue TWO_FIELDS = Inr cat" "find_collisions cat [] = []"
    and c: "c \<in> set cat" "pc_field c = ''fan''" "pc_scope_key c = ''cmd_0x40''" "natural_claim c" "claim_range c = (1, 2, 1)"
    and d: "d \<in> set cat" "pc_field d = ''turbo''" "pc_scope_key d = ''cmd_0x40''" "natural_claim d" "claim_range d = (1, 0, 0)"
    using two_fields by blast
  have w: "\<forall>p \<in> set (written [plain_step 1 (2, 1)]). \<exists>c \<in> set cat. pc_field c = ''fan'' \<and> pc_scope_key c = ''cmd_0x40'' \<and> natural_claim c \<and> p = claim_range c"
    using c by (auto simp: written_def plain_step_def)
  have "field_at body' (claim_range d) = field_at [0x40, 0x01] (claim_range d)"
    by (rule collision_free_encoding [OF cat e w d(1) _ d(3,4)]) (simp add: d(2))
  then show ?thesis using e d(5) by auto
qed

text \<open>The bit of a half-degree flag is written by the encoder but is no claim: a field on the same bit goes unnoticed.\<close>

lemma half_bit_unclaimed:
  "\<exists>cat. build_position_catalogue
     [(''fields'', JObj [(''control'', JObj
        [(''temp'', field_tree ''cmd_0x40'' [JObj [(''offset'', JInt 2), (''bits'', JList [JInt 3, JInt 0]),
            (''half_bit'', JObj [(''offset'', JInt 2), (''bit'', JInt 4)])]]),
         (''flag'', field_tree ''cmd_0x40'' [step_tree 2 4 4])])])] = Inr cat \<and> find_collisions cat [] = []"
  by (simp add: field_tree_def step_tree_def build_position_catalogue_def tree_items_def tree_truthy_def
      section_claims_def field_claims_def protocol_claims_def classify_frame_def FRAME_SCOPE_RULES_def starts_with_def
      walk_decode_steps_def claiming_step_def has_key_def tree_int_def tree_str_def emit_claims_def capability_claims_def
      List.map_filter_def find_collisions_def by_slot_def claim_slot_def owners_of_def dget_or_def upto.simps)

end
