(* ===== verification/Lint.thy ===== *)
theory Lint
  imports Collisions Override
begin

section \<open>The mutual-exclusion lint (\<open>tools/glossary_lint.py\<close>)\<close>

text \<open>
  Before a glossary is released its mutual-exclusion blocks are checked: what a field forces must exist, be a
  legal value and be possible in every mode the field is visible in, and two fields must not force each other
  on.  \<open>lint\<close> returns the violations; here each is a value of \<open>lint_error\<close> instead of its text (the lists
  inside a text are sorted when it is printed).  \<open>build_mutex_report\<close> looks for edges that seem to be missing.

  The flat glossary is a dictionary of YAML trees; \<open>==\<close> is \<open>json_eq\<close>.  A value that cannot be hashed raises
  \<open>TypeError\<close> where the code tests membership in a set; that \<open>forces\<close> is no dictionary raises here as
  \<open>AttributeError\<close> whatever it is.

  Lemmas: the lint is silent exactly when the glossary satisfies the declarative rules; two fields are
  neighbours in the report when each switches the other off, and a reported pair has no edge either way.
\<close>

definition VALID_MODES :: "string list" where
  "VALID_MODES = [''cool'', ''heat'', ''fan_only'', ''dry'', ''auto'']"

subsection \<open>Access\<close>

text \<open>\<open>(x or {}).get(k)\<close>; a missing value and \<open>None\<close> are the same to the callers.\<close>

definition get_in :: "json option \<Rightarrow> string \<Rightarrow> json option res" where
  "get_in j k =
     (case j of
        None \<Rightarrow> Inr None
      | Some j \<Rightarrow>
          (if \<not> tree_truthy j then Inr None
           else case j of JObj d \<Rightarrow> Inr (case dget d k of Some JNull \<Rightarrow> None | v \<Rightarrow> v) | _ \<Rightarrow> Inl AttributeError))"

definition flatten_group :: "string \<Rightarrow> (string \<times> json) list \<Rightarrow> (string, json) dict \<Rightarrow> (string, json) dict" where
  "flatten_group grp entries flat =
     fold (\<lambda>(name, fdef) flat.
       if has_key flat name then dset (''__dup__'' @ grp @ ''_'' @ name) fdef flat else dset name fdef flat) entries flat"

definition flatten_glossary :: "(string, json) dict \<Rightarrow> (string, json) dict res" where
  "flatten_glossary doc =
     bind_res (tree_items (dget doc ''fields'')) (\<lambda>groups.
       Inr (fold (\<lambda>(grp, entries) flat. case entries of JObj d \<Rightarrow> flatten_group grp d flat | _ \<Rightarrow> flat) groups []))"

definition hashable_tree :: "json \<Rightarrow> bool" where
  "hashable_tree j = (case j of JList _ \<Rightarrow> False | JObj _ \<Rightarrow> False | _ \<Rightarrow> True)"

definition in_tree_set :: "json \<Rightarrow> json list \<Rightarrow> bool res" where  \<comment> \<open>membership in a set\<close>
  "in_tree_set j xs = (if hashable_tree j then Inr (list_ex (json_eq j) xs) else Inl TypeError)"

text \<open>\<open>enc["default"]\<close> when \<open>"default" in enc\<close>.\<close>

definition encoding_default :: "json option \<Rightarrow> json option res" where
  "encoding_default enc =
     (case enc of
        None \<Rightarrow> Inr None
      | Some j \<Rightarrow>
          (if \<not> tree_truthy j then Inr None
           else case j of
                  JObj d \<Rightarrow> Inr (dget d ''default'')
                | JStr s \<Rightarrow> (if contains ''default'' s then Inl TypeError else Inr None)
                | JList xs \<Rightarrow> (if JStr ''default'' \<in> set xs then Inl TypeError else Inr None)
                | _ \<Rightarrow> Inl TypeError))"

definition field_default :: "(string, json) dict \<Rightarrow> json res" where
  "field_default fdef =
     bind_res (get_in (dget fdef ''codec'') ''encoding'') (\<lambda>enc.
       case dget fdef ''default'' of
         Some v \<Rightarrow> Inr v
       | None \<Rightarrow>
           bind_res (encoding_default enc) (\<lambda>e.
             case e of
               Some v \<Rightarrow> Inr v
             | None \<Rightarrow>
                 Inr (if dget fdef ''data_type'' \<in> {Some (JStr ''bool''), Some (JStr ''uint8''), Some (JStr ''uint16''),
                           Some (JStr ''int8''), Some (JStr ''int16'')} then JInt 0 else JNull)))"

text \<open>The raws of a block of values.\<close>

definition raws_of :: "json option \<Rightarrow> json list res" where
  "raws_of vals =
     bind_res (tree_items vals) (\<lambda>entries.
     fold_res (\<lambda>(_, vdef) raws.
         case vdef of
           JObj d \<Rightarrow>
             (case dget d ''raw'' of
                None \<Rightarrow> Inr raws
              | Some r \<Rightarrow> bind_res (in_tree_set r raws) (\<lambda>known. Inr (if known then raws else raws @ [r])))
         | _ \<Rightarrow> Inr raws) entries [])"

definition field_value_domain :: "(string, json) dict \<Rightarrow> json list res" where  \<comment> \<open>\<open>[]\<close> for \<open>None\<close>: open-ended\<close>
  "field_value_domain fdef =
     bind_res (get_in (dget fdef ''capability'') ''values'') (\<lambda>vals.
     bind_res (raws_of vals) (\<lambda>domain.
       if domain \<noteq> [] then Inr domain
       else bind_res (get_in (dget fdef ''codec'') ''encoding'') (\<lambda>enc.
            bind_res (get_in enc ''values'') raws_of)))"

definition is_truthy_force :: "json \<Rightarrow> json \<Rightarrow> bool" where
  "is_truthy_force forced_value target_default =
     (if json_eq forced_value target_default then False else tree_truthy forced_value)"

definition modes_of :: "(string, json) dict \<Rightarrow> json option res" where
  "modes_of fdef = get_in (dget fdef ''ux'') ''visible_in_modes''"

definition mutex_forces :: "(string, json) dict \<Rightarrow> (string \<times> json) list res" where
  "mutex_forces fdef =
     bind_res (get_in (dget fdef ''mutual_exclusion'') ''when_on'') (\<lambda>when_on.
     bind_res (get_in when_on ''forces'') tree_items)"

subsection \<open>The checks\<close>

datatype lint_error =
    Modes_Not_List string
  | Unknown_Mode string json
  | No_Visible_Modes string
  | Unknown_Target string string
  | Not_Bool string string json
  | Not_In_Domain string string json "json list" json
  | Mode_Subset string string json "json list"  \<comment> \<open>the modes of the field; \<open>[]\<close> when it is visible in all\<close>
  | Mutex_Cycle string string json json

fun all_hashable :: "json list \<Rightarrow> unit res" where  \<comment> \<open>\<open>set(xs)\<close>\<close>
  "all_hashable [] = Inr ()"
| "all_hashable (x # xs) = (if hashable_tree x then all_hashable xs else Inl TypeError)"

text \<open>\<open>sorted\<close> of a set in a message: elements of types that cannot be compared raise, unless there is only one.\<close>

definition sortable :: "json list \<Rightarrow> unit res" where
  "sortable xs =
     (if xs = [] \<or> list_all (json_eq (hd xs)) xs \<or> list_all (\<lambda>x. case x of JStr _ \<Rightarrow> True | _ \<Rightarrow> False) xs \<or>
         list_all (\<lambda>x. json_num x \<noteq> None) xs
      then Inr () else Inl TypeError)"

definition subset_tree :: "json list \<Rightarrow> json list \<Rightarrow> bool" where
  "subset_tree xs ys = list_all (\<lambda>x. list_ex (json_eq x) ys) xs"

definition mode_subset_error :: "string \<Rightarrow> json option \<Rightarrow> string \<Rightarrow> json option \<Rightarrow> json \<Rightarrow> lint_error list res" where
  "mode_subset_error src source_visible target target_visible forced_value =
     (case target_visible of
        None \<Rightarrow> Inr []
      | Some tv \<Rightarrow>
          (case source_visible of
             None \<Rightarrow>
               bind_res (case tv of JList b \<Rightarrow> bind_res (all_hashable b) (\<lambda>_. sortable b) | JStr _ \<Rightarrow> Inr () | JObj _ \<Rightarrow> Inr () | _ \<Rightarrow> Inl TypeError) (\<lambda>_.
                 Inr [Mode_Subset src target forced_value []])
           | Some sv \<Rightarrow>
               (case (sv, tv) of
                  (JList a, JList b) \<Rightarrow>
                    bind_res (all_hashable a) (\<lambda>_. bind_res (all_hashable b) (\<lambda>_.
                      if subset_tree a b then Inr []
                      else bind_res (sortable (filter (\<lambda>x. \<not> list_ex (json_eq x) b) a)) (\<lambda>_.
                             Inr [Mode_Subset src target forced_value a])))
                | _ \<Rightarrow> Inr [])))"

definition mode_errors :: "string \<Rightarrow> json option \<Rightarrow> lint_error list res" where
  "mode_errors name modes =
     (case modes of
        None \<Rightarrow> Inr []
      | Some (JList ms) \<Rightarrow>
          bind_res (map_res (\<lambda>m. bind_res (in_tree_set m (map JStr VALID_MODES)) (\<lambda>ok.
            Inr (if ok then [] else [Unknown_Mode name m]))) ms) (\<lambda>es. Inr (concat es))
      | Some _ \<Rightarrow> Inr [Modes_Not_List name])"

definition value_errors :: "string \<Rightarrow> string \<Rightarrow> (string, json) dict \<Rightarrow> json \<Rightarrow> json list \<Rightarrow> json \<Rightarrow> lint_error list res" where
  "value_errors name target tdef v domain dflt =
     (if dget tdef ''data_type'' = Some (JStr ''bool'')
      then Inr (if json_eq v (JInt 0) \<or> json_eq v (JInt 1) then [] else [Not_Bool name target v])
      else if domain = [] then Inr []
      else bind_res (in_tree_set v domain) (\<lambda>known.
             if \<not> known \<and> \<not> json_eq v dflt
             then bind_res (sortable domain) (\<lambda>_. Inr [Not_In_Domain name target v domain dflt]) else Inr []))"

definition force_errors :: "(string, json) dict \<Rightarrow> string \<Rightarrow> json option \<Rightarrow> string \<times> json \<Rightarrow> lint_error list res" where
  "force_errors glossary name modes force =
     (case force of (target, v) \<Rightarrow>
        case dget glossary target of
          None \<Rightarrow> Inr [Unknown_Target name target]
        | Some (JObj tdef) \<Rightarrow>
            bind_res (field_value_domain tdef) (\<lambda>domain.
            bind_res (field_default tdef) (\<lambda>dflt.
            bind_res (value_errors name target tdef v domain dflt) (\<lambda>es.
              if is_truthy_force v dflt
              then bind_res (modes_of tdef) (\<lambda>tv.
                   bind_res (mode_subset_error name modes target tv v) (\<lambda>ms. Inr (es @ ms)))
              else Inr es)))
        | Some _ \<Rightarrow> Inl AttributeError)"

definition entry_errors :: "(string, json) dict \<Rightarrow> string \<times> json \<Rightarrow> lint_error list res" where
  "entry_errors glossary entry =
     (case entry of (name, fdef) \<Rightarrow>
        case fdef of
          JObj d \<Rightarrow>
            bind_res (modes_of d) (\<lambda>modes.
            bind_res (mode_errors name modes) (\<lambda>es.
            bind_res (mutex_forces d) (\<lambda>forces.
              if forces = [] then Inr es
              else bind_res (map_res (force_errors glossary name modes) forces) (\<lambda>fs.
                Inr (es @ (if modes = None then [No_Visible_Modes name] else []) @ concat fs)))))
        | _ \<Rightarrow> Inr [])"

definition mex_edges :: "(string, json) dict \<Rightarrow> (string \<times> (string, json) dict) list res" where
  "mex_edges glossary =
     bind_res (map_res (\<lambda>(name, fdef).
         case fdef of
           JObj d \<Rightarrow> bind_res (mutex_forces d) (\<lambda>forces. Inr (if forces = [] then [] else [(name, forces)]))
         | _ \<Rightarrow> Inr []) glossary) (\<lambda>es. Inr (concat es))"

definition default_of :: "(string, json) dict \<Rightarrow> string \<Rightarrow> json res" where
  "default_of glossary name =
     (case dget glossary name of None \<Rightarrow> field_default [] | Some (JObj d) \<Rightarrow> field_default d | Some _ \<Rightarrow> Inl AttributeError)"

definition cycle_errors :: "(string, json) dict \<Rightarrow> (string \<times> (string, json) dict) list \<Rightarrow> string \<Rightarrow> string \<times> json \<Rightarrow> lint_error list res" where
  "cycle_errors glossary edges a force =
     (case force of (b, forced_b) \<Rightarrow>
        case dget edges b of
          None \<Rightarrow> Inr []
        | Some b_forces \<Rightarrow>
            (case dget b_forces a of
               None \<Rightarrow> Inr []
             | Some forced_a \<Rightarrow>
                 bind_res (default_of glossary b) (\<lambda>b_default.
                 bind_res (default_of glossary a) (\<lambda>a_default.
                   Inr (if \<not> json_eq forced_b b_default \<and> \<not> json_eq forced_a a_default
                        then [Mutex_Cycle a b forced_b forced_a] else [])))))"

definition lint :: "(string, json) dict \<Rightarrow> lint_error list res" where
  "lint glossary =
     bind_res (map_res (entry_errors glossary) glossary) (\<lambda>es.
     bind_res (mex_edges glossary) (\<lambda>edges.
     bind_res (map_res (\<lambda>(a, a_forces). bind_res (map_res (cycle_errors glossary edges a) a_forces) (\<lambda>cs. Inr (concat cs))) edges) (\<lambda>cs.
       Inr (concat es @ concat cs))))"

subsection \<open>The rules\<close>

definition modes_within :: "json option \<Rightarrow> json option \<Rightarrow> bool" where
  "modes_within modes tv =
     (case tv of
        None \<Rightarrow> True
      | Some t \<Rightarrow>
          (case modes of
             None \<Rightarrow> False
           | Some s \<Rightarrow> (case (s, t) of (JList a, JList b) \<Rightarrow> subset_tree a b | _ \<Rightarrow> True)))"

definition legal_value :: "(string, json) dict \<Rightarrow> json \<Rightarrow> json list \<Rightarrow> json \<Rightarrow> bool" where
  "legal_value tdef v domain dflt =
     (if dget tdef ''data_type'' = Some (JStr ''bool'') then json_eq v (JInt 0) \<or> json_eq v (JInt 1)
      else domain = [] \<or> list_ex (json_eq v) domain \<or> json_eq v dflt)"

definition legal_force :: "(string, json) dict \<Rightarrow> json option \<Rightarrow> string \<times> json \<Rightarrow> bool" where
  "legal_force glossary modes force \<longleftrightarrow>
     (\<exists>tdef domain dflt tv. dget glossary (fst force) = Some (JObj tdef) \<and>
        field_value_domain tdef = Inr domain \<and> field_default tdef = Inr dflt \<and>
        legal_value tdef (snd force) domain dflt \<and>
        (is_truthy_force (snd force) dflt \<longrightarrow> modes_of tdef = Inr tv \<and> modes_within modes tv))"

definition legal_modes :: "json option \<Rightarrow> bool" where
  "legal_modes modes =
     (case modes of
        None \<Rightarrow> True
      | Some (JList ms) \<Rightarrow> list_all (\<lambda>m. list_ex (json_eq m) (map JStr VALID_MODES)) ms
      | Some _ \<Rightarrow> False)"

definition legal_entry :: "(string, json) dict \<Rightarrow> (string, json) dict \<Rightarrow> bool" where
  "legal_entry glossary d \<longleftrightarrow>
     (\<exists>modes forces. modes_of d = Inr modes \<and> mutex_forces d = Inr forces \<and> legal_modes modes \<and>
        (forces \<noteq> [] \<longrightarrow> modes \<noteq> None \<and> list_all (legal_force glossary modes) forces))"

lemma map_res_concat_Nil:
  "map_res h xs = Inr ys \<Longrightarrow> concat ys = [] \<longleftrightarrow> (\<forall>x \<in> set xs. h x = Inr [])"
proof (induction xs arbitrary: ys)
  case (Cons x xs)
  then obtain y zs where y: "h x = Inr y" "map_res h xs = Inr zs" "ys = y # zs" by auto
  show ?case using Cons.IH [OF y(2)] y by simp
qed simp

lemma map_res_all_Nil: "\<forall>x \<in> set xs. h x = Inr [] \<Longrightarrow> \<exists>ys. map_res h xs = Inr ys \<and> concat ys = []"
  by (induction xs) auto

lemma mode_errors_exact: "mode_errors name modes = Inr es \<Longrightarrow> es = [] \<longleftrightarrow> legal_modes modes"
proof (cases "\<exists>ms. modes = Some (JList ms)")
  case True
  then obtain ms where m: "modes = Some (JList ms)" by blast
  assume "mode_errors name modes = Inr es"
  then obtain ys where y: "map_res (\<lambda>m. bind_res (in_tree_set m (map JStr VALID_MODES)) (\<lambda>ok. Inr (if ok then [] else [Unknown_Mode name m]))) ms = Inr ys"
      "es = concat ys"
    using m by (auto simp: mode_errors_def)
  have h: "\<forall>m \<in> set ms. hashable_tree m"
    using y(1) by (induction ms arbitrary: ys) (auto simp: in_tree_set_def split: if_splits)
  show ?thesis using map_res_concat_Nil [OF y(1)] y(2) m h by (auto simp: legal_modes_def in_tree_set_def list_all_iff)
qed (auto simp: mode_errors_def legal_modes_def split: option.splits json.splits)

lemma value_errors_exact:
  "value_errors name target tdef v domain dflt = Inr es \<Longrightarrow> es = [] \<longleftrightarrow> legal_value tdef v domain dflt"
  by (auto simp: value_errors_def legal_value_def in_tree_set_def split: if_splits)

lemma mode_subset_exact:
  "mode_subset_error src sv target tv v = Inr es \<Longrightarrow> es = [] \<longleftrightarrow> modes_within sv tv"
  by (auto simp: mode_subset_error_def modes_within_def split: option.splits json.splits if_splits)

lemma force_errors_exact:
  assumes "force_errors glossary name modes force = Inr es"
  shows "es = [] \<longleftrightarrow> legal_force glossary modes force"
proof -
  obtain target v where f: "force = (target, v)" by (cases force)
  show ?thesis
  proof (cases "\<exists>tdef. dget glossary target = Some (JObj tdef)")
    case True
    then obtain tdef where t: "dget glossary target = Some (JObj tdef)" by blast
    obtain domain dflt ve where d: "field_value_domain tdef = Inr domain" "field_default tdef = Inr dflt"
        "value_errors name target tdef v domain dflt = Inr ve"
      using assms f t by (auto simp: force_errors_def)
    note ve = value_errors_exact [OF d(3)]
    show ?thesis
    proof (cases "is_truthy_force v dflt")
      case True
      obtain tv ms where m: "modes_of tdef = Inr tv" "mode_subset_error name modes target tv v = Inr ms" "es = ve @ ms"
        using assms f t d True by (auto simp: force_errors_def)
      show ?thesis using ve mode_subset_exact [OF m(2)] m d t f True by (simp add: legal_force_def)
    next
      case False
      then have "es = ve" using assms f t d by (simp add: force_errors_def)
      then show ?thesis using ve d t f False by (simp add: legal_force_def)
    qed
  next
    case False
    then have "es \<noteq> []" using assms f by (auto simp: force_errors_def split: option.splits json.splits)
    then show ?thesis using False f by (auto simp: legal_force_def)
  qed
qed

lemma entry_errors_exact:
  assumes "entry_errors glossary (name, JObj d) = Inr es"
  shows "es = [] \<longleftrightarrow> legal_entry glossary d"
proof -
  obtain modes me forces where m: "modes_of d = Inr modes" "mode_errors name modes = Inr me" "mutex_forces d = Inr forces"
    using assms by (auto simp: entry_errors_def)
  note me = mode_errors_exact [OF m(2)]
  show ?thesis
  proof (cases "forces = []")
    case True
    then show ?thesis using assms m me by (simp add: entry_errors_def legal_entry_def)
  next
    case False
    obtain fs where fs: "map_res (force_errors glossary name modes) forces = Inr fs"
        "es = me @ (if modes = None then [No_Visible_Modes name] else []) @ concat fs"
      using assms m False by (auto simp: entry_errors_def)
    have "concat fs = [] \<longleftrightarrow> list_all (legal_force glossary modes) forces"
    proof -
      have "force_errors glossary name modes f = Inr [] \<longleftrightarrow> legal_force glossary modes f" if "f \<in> set forces" for f
      proof -
        have "\<exists>e. force_errors glossary name modes f = Inr e"
          using fs(1) that by (induction forces arbitrary: fs) auto
        then show ?thesis using force_errors_exact by blast
      qed
      then show ?thesis using map_res_concat_Nil [OF fs(1)] by (auto simp: list_all_iff)
    qed
    then show ?thesis using fs(2) me m False by (auto simp: legal_entry_def)
  qed
qed

text \<open>An edge of the exclusion graph, and the pairs that force each other away from their defaults.\<close>

definition forces_to :: "(string, json) dict \<Rightarrow> string \<Rightarrow> string \<Rightarrow> json \<Rightarrow> bool" where
  "forces_to glossary a b v \<longleftrightarrow>
     (\<exists>d forces. dget glossary a = Some (JObj d) \<and> mutex_forces d = Inr forces \<and> dget forces b = Some v)"

definition mutual_on :: "(string, json) dict \<Rightarrow> string \<Rightarrow> string \<Rightarrow> bool" where
  "mutual_on glossary a b \<longleftrightarrow>
     (\<exists>forced_a forced_b da db. forces_to glossary a b forced_b \<and> forces_to glossary b a forced_a \<and>
        default_of glossary a = Inr da \<and> default_of glossary b = Inr db \<and> \<not> json_eq forced_b db \<and> \<not> json_eq forced_a da)"

definition edges_of :: "string \<times> json \<Rightarrow> (string \<times> (string, json) dict) list res" where
  "edges_of entry =
     (case entry of (name, fdef) \<Rightarrow>
        case fdef of
          JObj d \<Rightarrow> bind_res (mutex_forces d) (\<lambda>forces. Inr (if forces = [] then [] else [(name, forces)]))
        | _ \<Rightarrow> Inr [])"

lemma map_res_total_member: "map_res h xs = Inr ys \<Longrightarrow> x \<in> set xs \<Longrightarrow> \<exists>y. h x = Inr y"
  by (induction xs arbitrary: ys) auto

lemma mex_edges_eq: "mex_edges glossary = bind_res (map_res edges_of glossary) (\<lambda>es. Inr (concat es))"
  unfolding mex_edges_def edges_of_def by (simp add: split_beta')

lemma edges_of_cases:
  assumes "edges_of (name, fdef) = Inr es"
  shows "es = [] \<and> (\<forall>d forces. fdef = JObj d \<longrightarrow> mutex_forces d = Inr forces \<longrightarrow> forces = []) \<or>
    (\<exists>d forces. fdef = JObj d \<and> mutex_forces d = Inr forces \<and> forces \<noteq> [] \<and> es = [(name, forces)])"
  using assms by (auto simp: edges_of_def split: json.splits if_splits)

lemma edges_names: "map_res edges_of glossary = Inr es \<Longrightarrow> set (dkeys (concat es)) \<subseteq> set (dkeys glossary)"
proof (induction glossary arbitrary: es)
  case (Cons x glossary)
  obtain n f where x: "x = (n, f)" by (cases x)
  obtain e es' where e: "edges_of (n, f) = Inr e" "map_res edges_of glossary = Inr es'" "es = e # es'" using Cons.prems x by auto
  have "set (dkeys e) \<subseteq> {n}" using edges_of_cases [OF e(1)] by (auto simp: dkeys_def)
  moreover have "dkeys (concat es) = dkeys e @ dkeys (concat es')" "dkeys (x # glossary) = n # dkeys glossary"
    by (simp_all add: e(3) x dkeys_def)
  ultimately show ?case using Cons.IH [OF e(2)] by auto
qed (simp add: dkeys_def)

lemma edges_lookup:
  "map_res edges_of glossary = Inr es \<Longrightarrow> distinct (dkeys glossary) \<Longrightarrow>
   dget (concat es) a = Some forces \<longleftrightarrow> (\<exists>d. dget glossary a = Some (JObj d) \<and> mutex_forces d = Inr forces \<and> forces \<noteq> [])"
proof (induction glossary arbitrary: es)
  case (Cons x glossary)
  obtain n f where x: "x = (n, f)" by (cases x)
  obtain e es' where e: "edges_of (n, f) = Inr e" "map_res edges_of glossary = Inr es'" "es = e # es'" using Cons.prems(1) x by auto
  have d: "n \<notin> set (dkeys glossary)" "distinct (dkeys glossary)" using Cons.prems(2) x by (simp_all add: dkeys_def)
  have no: "dget (concat es') n = None" using edges_names [OF e(2)] d(1) by (auto simp: dkeys_def map_of_eq_None_iff)
  note ih = Cons.IH [OF e(2) d(2)]
  have c: "dget (concat es) a = (case dget e a of None \<Rightarrow> dget (concat es') a | Some v \<Rightarrow> Some v)"
    by (simp add: e(3) map_add_def)
  show ?case
  proof (cases "a = n")
    case True
    then show ?thesis using edges_of_cases [OF e(1)] no c x by auto
  next
    case False
    have "dget e a = None" using edges_of_cases [OF e(1)] False by auto
    then show ?thesis using ih c x False by simp
  qed
qed simp

lemma edges_distinct:
  "map_res edges_of glossary = Inr es \<Longrightarrow> distinct (dkeys glossary) \<Longrightarrow> distinct (dkeys (concat es))"
proof (induction glossary arbitrary: es)
  case (Cons x glossary)
  obtain n f where x: "x = (n, f)" by (cases x)
  obtain e es' where e: "edges_of (n, f) = Inr e" "map_res edges_of glossary = Inr es'" "es = e # es'" using Cons.prems(1) x by auto
  have d: "n \<notin> set (dkeys glossary)" "distinct (dkeys glossary)" using Cons.prems(2) x by (simp_all add: dkeys_def)
  have "dkeys (concat es) = dkeys e @ dkeys (concat es')" by (simp add: e(3) dkeys_def)
  moreover have "dkeys e = [] \<or> dkeys e = [n]" using edges_of_cases [OF e(1)] by (auto simp: dkeys_def)
  ultimately show ?case using Cons.IH [OF e(2) d(2)] edges_names [OF e(2)] d(1) by auto
qed (simp add: dkeys_def)

definition dict_forces :: "(string, json) dict \<Rightarrow> bool" where  \<comment> \<open>keys of dictionaries are distinct\<close>
  "dict_forces glossary \<longleftrightarrow> distinct (dkeys glossary) \<and>
     list_all (\<lambda>(_, fdef). case fdef of JObj d \<Rightarrow> (case mutex_forces d of Inr forces \<Rightarrow> distinct (dkeys forces) | Inl _ \<Rightarrow> True) | _ \<Rightarrow> True) glossary"

lemma forces_to_edge:
  assumes "map_res edges_of glossary = Inr es" "distinct (dkeys glossary)"
  shows "forces_to glossary a b v \<longleftrightarrow> (\<exists>forces. dget (concat es) a = Some forces \<and> dget forces b = Some v)"
  unfolding forces_to_def edges_lookup [OF assms] by auto

lemma cycle_errors_exact:
  assumes "map_res edges_of glossary = Inr es" "distinct (dkeys glossary)" "dget (concat es) a = Some forces" "dget forces b = Some v"
    and "cycle_errors glossary (concat es) a (b, v) = Inr cs"
  shows "cs = [] \<longleftrightarrow> \<not> mutual_on glossary a b"
proof -
  note edge = forces_to_edge [OF assms(1,2)]
  have ab: "forces_to glossary a b w \<longleftrightarrow> w = v" for w using edge assms(3,4) by auto
  show ?thesis
  proof (cases "\<exists>bf w. dget (concat es) b = Some bf \<and> dget bf a = Some w")
    case True
    then obtain bf w where b: "dget (concat es) b = Some bf" "dget bf a = Some w" by blast
    have ba: "forces_to glossary b a x \<longleftrightarrow> x = w" for x using edge b by auto
    obtain db da where d: "default_of glossary b = Inr db" "default_of glossary a = Inr da"
        "cs = (if \<not> json_eq v db \<and> \<not> json_eq w da then [Mutex_Cycle a b v w] else [])"
      using assms(5) b by (auto simp: cycle_errors_def)
    show ?thesis using d ab ba by (auto simp: mutual_on_def)
  next
    case False
    then have "cs = []" using assms(5) by (auto simp: cycle_errors_def split: option.splits)
    moreover have "\<not> forces_to glossary b a x" for x using edge False by blast
    ultimately show ?thesis by (simp add: mutual_on_def)
  qed
qed

lemma pair_rows: "(\<And>a b. (a, b) \<in> X \<Longrightarrow> P (a, b) \<longleftrightarrow> Q a b) \<Longrightarrow> (\<forall>x \<in> X. P x) \<longleftrightarrow> (\<forall>a b. (a, b) \<in> X \<longrightarrow> Q a b)"
  by auto

text \<open>C37: the lint is exact.  On a glossary it can read it reports nothing if and only if every field's block is
  legal - modes known, every forced field defined, every forced value legal for it, forcing it on possible in
  every mode of the field - and no two fields force each other away from their defaults.\<close>

theorem lint_exact:
  assumes "lint glossary = Inr errs" "dict_forces glossary"
  shows "errs = [] \<longleftrightarrow>
    list_all (\<lambda>(name, fdef). case fdef of JObj d \<Rightarrow> legal_entry glossary d | _ \<Rightarrow> True) glossary \<and>
    (\<forall>a b. \<not> mutual_on glossary a b)"
proof -
  have dk: "distinct (dkeys glossary)" using assms(2) by (simp add: dict_forces_def)
  let ?row = "\<lambda>edges. \<lambda>(a, a_forces). bind_res (map_res (cycle_errors glossary edges a) a_forces) (\<lambda>cs. Inr (concat cs))"
  obtain es ed cs where e: "map_res (entry_errors glossary) glossary = Inr es"
    and ed: "map_res edges_of glossary = Inr ed"
    and c: "map_res (?row (concat ed)) (concat ed) = Inr cs" and errs: "errs = concat es @ concat cs"
    using assms(1) by (auto simp: lint_def mex_edges_eq)
  have entry: "entry_errors glossary (n, f) = Inr [] \<longleftrightarrow> (case f of JObj d \<Rightarrow> legal_entry glossary d | _ \<Rightarrow> True)"
    if nf: "(n, f) \<in> set glossary" for n f
  proof -
    obtain x where x: "entry_errors glossary (n, f) = Inr x" using map_res_total_member [OF e nf] by blast
    show ?thesis
    proof (cases f)
      case (JObj d)
      then show ?thesis using entry_errors_exact [of glossary n d x] x by simp
    qed (simp_all add: entry_errors_def)
  qed
  have 1: "concat es = [] \<longleftrightarrow> list_all (\<lambda>(name, fdef). case fdef of JObj d \<Rightarrow> legal_entry glossary d | _ \<Rightarrow> True) glossary"
    unfolding map_res_concat_Nil [OF e] using entry by (auto simp: list_all_iff)
  have row: "?row (concat ed) (a, fs) = Inr [] \<longleftrightarrow> (\<forall>b. b \<in> set (dkeys fs) \<longrightarrow> \<not> mutual_on glossary a b)" if afs: "(a, fs) \<in> set (concat ed)" for a fs
  proof -
    have look: "dget (concat ed) a = Some fs" using afs edges_distinct [OF ed dk] by (simp add: dkeys_def)
    then obtain d where d: "dget glossary a = Some (JObj d)" "mutex_forces d = Inr fs" using edges_lookup [OF ed dk] by blast
    have dfs: "distinct (dkeys fs)"
      using assms(2) map_of_SomeD [OF d(1)] d(2) by (fastforce simp: dict_forces_def list_all_iff)
    have "\<exists>x. ?row (concat ed) (a, fs) = Inr x" by (rule map_res_total_member [OF c afs])
    then obtain css where css: "map_res (cycle_errors glossary (concat ed) a) fs = Inr css" by auto
    have one: "cycle_errors glossary (concat ed) a (b, v) = Inr [] \<longleftrightarrow> \<not> mutual_on glossary a b" if bv: "(b, v) \<in> set fs" for b v
    proof -
      have "\<exists>x. cycle_errors glossary (concat ed) a (b, v) = Inr x" using map_res_total_member [OF css bv] .
      then show ?thesis using cycle_errors_exact [OF ed dk look] dget_member [OF dfs bv] by blast
    qed
    have "?row (concat ed) (a, fs) = Inr [] \<longleftrightarrow> (\<forall>x \<in> set fs. cycle_errors glossary (concat ed) a x = Inr [])"
      using map_res_concat_Nil [OF css] css by simp
    then show ?thesis using one by (force simp: dkeys_def)
  qed
  have 2: "concat cs = [] \<longleftrightarrow> (\<forall>a b. \<not> mutual_on glossary a b)"
  proof -
    have "concat cs = [] \<longleftrightarrow> (\<forall>a fs. (a, fs) \<in> set (concat ed) \<longrightarrow> (\<forall>b. b \<in> set (dkeys fs) \<longrightarrow> \<not> mutual_on glossary a b))"
      unfolding map_res_concat_Nil [OF c] 
      by (rule pair_rows [where X = "set (concat ed)" and P = "\<lambda>x. ?row (concat ed) x = Inr []"
            and Q = "\<lambda>a fs. \<forall>b. b \<in> set (dkeys fs) \<longrightarrow> \<not> mutual_on glossary a b"]) (rule row)
    also have "\<dots> \<longleftrightarrow> (\<forall>a b. \<not> mutual_on glossary a b)"
    proof (intro iffI allI notI)
      fix a b
      assume all: "\<forall>a fs. (a, fs) \<in> set (concat ed) \<longrightarrow> (\<forall>b. b \<in> set (dkeys fs) \<longrightarrow> \<not> mutual_on glossary a b)" and m: "mutual_on glossary a b"
      then obtain v where "forces_to glossary a b v" by (auto simp: mutual_on_def)
      then obtain fs where fs: "dget (concat ed) a = Some fs" "dget fs b = Some v" using forces_to_edge [OF ed dk] by blast
      have "(a, fs) \<in> set (concat ed)" "b \<in> set (dkeys fs)"
        by (rule map_of_SomeD [OF fs(1)]) (simp only: dkeys_def set_map, rule image_eqI [OF _ map_of_SomeD [OF fs(2)]], simp)
      then show False using all m by blast
    qed blast
    finally show ?thesis .
  qed
  show ?thesis using 1 2 errs by simp
qed

definition lint_example :: "(string, json) dict" where
  "lint_example =
     [(''turbo'', JObj [(''data_type'', JStr ''bool''), (''ux'', JObj [(''visible_in_modes'', JList [JStr ''cool''])]),
        (''mutual_exclusion'', JObj [(''when_on'', JObj [(''forces'', JObj [(''eco'', JInt 0)])])])]),
      (''eco'', JObj [(''data_type'', JStr ''bool''), (''ux'', JObj [(''visible_in_modes'', JList [JStr ''cool''])])])]"

lemma lint_exact_witness:
  "(\<exists>errs. lint lint_example = Inr errs) \<and> dict_forces lint_example \<and>
   list_all (\<lambda>(name, fdef). case fdef of JObj d \<Rightarrow> legal_entry lint_example d | _ \<Rightarrow> True) lint_example"
proof -
  have l: "lint lint_example = Inr []" by code_simp
  have d: "dict_forces lint_example" by code_simp
  show ?thesis using lint_exact [OF l d] l d by simp
qed

subsection \<open>Edges that seem to be missing (\<open>build_mutex_report\<close>)\<close>

text \<open>
  \<open>bidir\<close> maps a field to the fields it and they switch each other off; an overlap is the exact quotient where
  the code has a float rounded to two digits.
\<close>

definition is_falsy_force :: "json \<Rightarrow> bool" where
  "is_falsy_force v = json_eq v (JInt 0)"

definition edge_value :: "(string \<times> (string, json) dict) list \<Rightarrow> string \<Rightarrow> string \<Rightarrow> string \<Rightarrow> json" where
  "edge_value mex b a miss = dget_or (dget_or mex b []) a (JStr miss)"  \<comment> \<open>\<open>mex_fields[b].get(a, miss)\<close>\<close>

definition add_neighbour :: "string \<Rightarrow> string \<Rightarrow> (string, string list) dict \<Rightarrow> (string, string list) dict" where
  "add_neighbour a b bidir = (let ns = dget_or bidir a [] in dset a (if b \<in> set ns then ns else ns @ [b]) bidir)"

definition bidir_edge :: "(string \<times> (string, json) dict) list \<Rightarrow> string \<times> string \<times> json \<Rightarrow> bool" where
  "bidir_edge mex e =
     (case e of (a, b, v) \<Rightarrow> is_falsy_force v \<and> has_key mex b \<and> is_falsy_force (edge_value mex b a ''MISS''))"

definition edge_list :: "(string \<times> (string, json) dict) list \<Rightarrow> (string \<times> string \<times> json) list" where
  "edge_list mex = concat (map (\<lambda>(a, fa). map (\<lambda>(b, v). (a, b, v)) fa) mex)"

definition bidir_of :: "(string \<times> (string, json) dict) list \<Rightarrow> (string, string list) dict" where
  "bidir_of mex =
     fold (\<lambda>(a, b, _) bidir. add_neighbour b a (add_neighbour a b bidir)) (filter (bidir_edge mex) (edge_list mex)) []"

definition asymmetric_edges :: "(string \<times> (string, json) dict) list \<Rightarrow> (string \<times> string \<times> json) list" where
  "asymmetric_edges mex =
     filter (\<lambda>(a, b, v). is_falsy_force v \<and> has_key mex b \<and> \<not> has_key (dget_or mex b []) a) (edge_list mex)"

record sibling_pair =
  sb_a :: string
  sb_b :: string
  sb_common :: "string list"
  sb_overlap :: rat

definition sibling_of ::
    "(string \<times> (string, json) dict) list \<Rightarrow> (string, string list) dict \<Rightarrow> string \<times> string \<Rightarrow> sibling_pair option" where
  "sibling_of mex bidir p =
     (case p of (a, b) \<Rightarrow>
        let na = dget_or bidir a []; nb = dget_or bidir b [];
            common = filter (\<lambda>x. x \<in> set nb) na;
            ratio = of_nat (length common) / of_nat (min (length na) (length nb))
        in if b \<le> a \<or> b \<in> set na \<or> has_key (dget_or mex b []) a \<or> has_key (dget_or mex a []) b then None
           else if length na < 2 \<or> length nb < 2 \<or> length common < 2 then None
           else if 67 / 100 \<le> ratio
           then Some \<lparr>sb_a = a, sb_b = b, sb_common = sort common, sb_overlap = ratio\<rparr> else None)"

definition missing_siblings :: "(string \<times> (string, json) dict) list \<Rightarrow> sibling_pair list" where
  "missing_siblings mex =
     (let names = sort (dkeys mex)
      in List.map_filter (sibling_of mex (bidir_of mex)) (List.product names names))"

datatype activator_kind = Pure_Activator | Supervisor | Mutual_Activator

record activator =
  ac_from :: string
  ac_to :: string
  ac_value :: json
  ac_kind :: activator_kind
  ac_reverse :: json

definition activator_of :: "(string, json) dict \<Rightarrow> string \<Rightarrow> string \<times> json \<Rightarrow> activator list res" where
  "activator_of glossary a force =
     (case force of (b, v) \<Rightarrow>
        if is_falsy_force v then Inr []
        else case dget glossary b of
               Some (JObj b_def) \<Rightarrow>
                 bind_res (field_default b_def) (\<lambda>b_default.
                   if json_eq v b_default then Inr []
                   else bind_res (mutex_forces b_def) (\<lambda>fb.
                          let rev = dget_or fb a (JStr ''__missing__'');
                              kind = (if json_eq rev (JStr ''__missing__'') then Pure_Activator
                                      else if is_falsy_force rev then Supervisor else Mutual_Activator)
                          in Inr [\<lparr>ac_from = a, ac_to = b, ac_value = v, ac_kind = kind, ac_reverse = rev\<rparr>]))
             | _ \<Rightarrow> Inr [])"

definition activators :: "(string, json) dict \<Rightarrow> activator list res" where
  "activators glossary =
     bind_res (map_res (\<lambda>(a, fdef).
         case fdef of
           JObj d \<Rightarrow> bind_res (mutex_forces d) (\<lambda>fa. bind_res (map_res (activator_of glossary a) fa) (\<lambda>xs. Inr (concat xs)))
         | _ \<Rightarrow> Inr []) glossary) (\<lambda>xs. Inr (concat xs))"

record mutex_report =
  mr_asymmetric :: "(string \<times> string \<times> json) list"
  mr_missing_siblings :: "sibling_pair list"
  mr_activators :: "activator list"

definition build_mutex_report :: "(string, json) dict \<Rightarrow> mutex_report res" where
  "build_mutex_report glossary =
     bind_res (mex_edges glossary) (\<lambda>mex.
     bind_res (activators glossary) (\<lambda>acts.
       Inr \<lparr>mr_asymmetric = asymmetric_edges mex, mr_missing_siblings = missing_siblings mex, mr_activators = acts\<rparr>))"

text \<open>Two fields are neighbours when each switches the other off; a reported pair has no edge either way.\<close>

lemma add_neighbour_lookup:
  "x \<in> set (dget_or (add_neighbour a b bidir) y []) \<longleftrightarrow> x \<in> set (dget_or bidir y []) \<or> (x = b \<and> y = a)"
  by (auto simp: add_neighbour_def dget_or_def Let_def split: option.splits)

lemma bidir_fold:
  "x \<in> set (dget_or (fold (\<lambda>(a, b, _) bidir. add_neighbour b a (add_neighbour a b bidir)) es bidir) y []) \<longleftrightarrow>
   x \<in> set (dget_or bidir y []) \<or> (\<exists>v. (x, y, v) \<in> set es \<or> (y, x, v) \<in> set es)"
  by (induction es arbitrary: bidir) (auto simp: add_neighbour_lookup)

definition switches_off :: "(string \<times> (string, json) dict) list \<Rightarrow> string \<Rightarrow> string \<Rightarrow> bool" where
  "switches_off mex a b \<longleftrightarrow> (\<exists>fa v. dget mex a = Some fa \<and> dget fa b = Some v \<and> is_falsy_force v)"

lemma not_falsy_str: "\<not> is_falsy_force (JStr s)"
  by (simp add: is_falsy_force_def scalar_eq_def json_num_def)

lemma bidir_edges:
  assumes "distinct (dkeys mex)" "\<And>a fa. (a, fa) \<in> set mex \<Longrightarrow> distinct (dkeys fa)"
  shows "(\<exists>v. (a, b, v) \<in> set (filter (bidir_edge mex) (edge_list mex))) \<longleftrightarrow> switches_off mex a b \<and> switches_off mex b a"
proof -
  have e: "(a, b, v) \<in> set (edge_list mex) \<longleftrightarrow> (\<exists>fa. dget mex a = Some fa \<and> dget fa b = Some v)" for v
  proof -
    have "(a, b, v) \<in> set (edge_list mex) \<longleftrightarrow> (\<exists>fa. (a, fa) \<in> set mex \<and> (b, v) \<in> set fa)"
      by (force simp: edge_list_def)
    also have "\<dots> \<longleftrightarrow> (\<exists>fa. dget mex a = Some fa \<and> dget fa b = Some v)"
    proof (intro iffI; elim exE conjE)
      fix fa assume fa: "(a, fa) \<in> set mex" "(b, v) \<in> set fa"
      show "\<exists>fa. dget mex a = Some fa \<and> dget fa b = Some v"
        by (intro exI conjI, rule dget_member [OF assms(1) fa(1)], rule dget_member [OF assms(2) [OF fa(1)] fa(2)])
    next
      fix fa assume fa: "dget mex a = Some fa" "dget fa b = Some v"
      show "\<exists>fa. (a, fa) \<in> set mex \<and> (b, v) \<in> set fa"
        by (intro exI conjI, rule map_of_SomeD [OF fa(1)], rule map_of_SomeD [OF fa(2)])
    qed
    finally show ?thesis .
  qed
  have r: "is_falsy_force (edge_value mex b a ''MISS'') \<longleftrightarrow> switches_off mex b a"
    by (auto simp: edge_value_def switches_off_def dget_or_def not_falsy_str split: option.splits)
  have k: "switches_off mex b a \<Longrightarrow> has_key mex b" by (auto simp: switches_off_def has_key_def)
  show ?thesis unfolding set_filter bidir_edge_def using e r k by (auto simp: switches_off_def)
qed

theorem neighbours_exact:
  assumes "distinct (dkeys mex)" "\<And>a fa. (a, fa) \<in> set mex \<Longrightarrow> distinct (dkeys fa)"
  shows "x \<in> set (dget_or (bidir_of mex) y []) \<longleftrightarrow> switches_off mex x y \<and> switches_off mex y x"
  unfolding bidir_of_def bidir_fold ex_disj_distrib
  using bidir_edges [OF assms, where a = x and b = y] bidir_edges [OF assms, where a = y and b = x]
  by (auto simp: dget_or_def simp del: set_filter)

theorem siblings_unrelated:
  assumes "s \<in> set (missing_siblings mex)"
  shows "\<not> has_key (dget_or mex (sb_a s) []) (sb_b s) \<and> \<not> has_key (dget_or mex (sb_b s) []) (sb_a s)"
  using assms
  by (auto simp: missing_siblings_def sibling_of_def List.map_filter_def Let_def split: if_splits)

end
