(* ===== verification/Updater.thy ===== *)
theory Updater
  imports Json
begin

section \<open>Remote updates (\<open>gateway/release.py\<close>, \<open>GatewayServer._run_update\<close>)\<close>

text \<open>
  The gateway is a git checkout.  An update asks GitHub for the latest release, checks its commit out, installs
  the packages and records the way back in a state file; when the installation fails it returns to the old
  commit.

  The programs git and pip and the answer of GitHub are the record \<open>tools\<close>: a run of a program takes the state of
  the checkout, of any type, to an outcome and the new state.  What is needed of git is the predicate
  \<open>git_law\<close>.  Exceptions carry their text, which becomes part of the report.  Texts are UTF-8.

  Lemmas: the state file reads back; a failed update leaves the old commit checked out or says that restoring it
  failed; a successful one that moved leaves the old commit as the previous one in the state file.
\<close>

subsection \<open>Programs and failures\<close>

datatype run_outcome = Completed int string string | Timed_Out string | Not_Run string

datatype github_reply = Http_Error int string | Unreachable string | Reply json  \<comment> \<open>the status and its text\<close>

record 'r tools =
  to_git :: "'r \<Rightarrow> string list \<Rightarrow> run_outcome \<times> 'r"
  to_pip :: "'r \<Rightarrow> run_outcome \<times> 'r"
  to_reply :: github_reply
  to_repr :: "json \<Rightarrow> string"
  to_write_error :: "string option"  \<comment> \<open>whether writing the state file fails\<close>

datatype failure = Lookup_Error string | Runtime_Error string | Value_Error string | Timeout_Expired string | OS_Error string

definition failure_text :: "failure \<Rightarrow> string" where
  "failure_text e =
     (case e of Lookup_Error t \<Rightarrow> t | Runtime_Error t \<Rightarrow> t | Value_Error t \<Rightarrow> t | Timeout_Expired t \<Rightarrow> t | OS_Error t \<Rightarrow> t)"

datatype state_file = No_File | Content string | Unreadable string

record 'r install =
  il_repo :: 'r
  il_state :: state_file
  il_steps :: "(string \<times> bool \<times> string) list"
  il_restart :: bool

type_synonym ('r, 'a) op = "'r install \<Rightarrow> (failure + 'a) \<times> 'r install"

definition give :: "'a \<Rightarrow> ('r, 'a) op" where
  "give x s = (Inr x, s)"

definition raise :: "failure \<Rightarrow> ('r, 'a) op" where
  "raise e s = (Inl e, s)"

definition and_then :: "('r, 'a) op \<Rightarrow> ('a \<Rightarrow> ('r, 'b) op) \<Rightarrow> ('r, 'b) op" where
  "and_then m f s = (case m s of (Inl e, s') \<Rightarrow> (Inl e, s') | (Inr x, s') \<Rightarrow> f x s')"

definition caught :: "('r, 'a) op \<Rightarrow> ('r, failure + 'a) op" where  \<comment> \<open>\<open>try\<close>: the failure becomes a value\<close>
  "caught m s = (case m s of (r, s') \<Rightarrow> (Inr r, s'))"

definition record_step :: "string \<Rightarrow> bool \<Rightarrow> string \<Rightarrow> ('r, unit) op" where
  "record_step name ok t s = (Inr (), s\<lparr>il_steps := il_steps s @ [(name, ok, t)]\<rparr>)"

definition finish_run :: "(run_outcome \<times> 'r) \<Rightarrow> 'r install \<Rightarrow> (failure + int \<times> string \<times> string) \<times> 'r install" where
  "finish_run run s =
     (case run of (o', r) \<Rightarrow>
        ((case o' of Completed rc out err \<Rightarrow> Inr (rc, out, err) | Timed_Out t \<Rightarrow> Inl (Timeout_Expired t) | Not_Run t \<Rightarrow> Inl (OS_Error t)),
         s\<lparr>il_repo := r\<rparr>))"

definition git :: "'r tools \<Rightarrow> string list \<Rightarrow> ('r, int \<times> string \<times> string) op" where
  "git tools args s = finish_run (to_git tools (il_repo s) args) s"

subsection \<open>The release\<close>

definition FALLBACK_REF :: string where
  "FALLBACK_REF = ''main''"

definition ref_head :: "char \<Rightarrow> bool" where
  "ref_head c = (let n = (of_char c :: nat) in 65 \<le> n \<and> n \<le> 90 \<or> 97 \<le> n \<and> n \<le> 122 \<or> 48 \<le> n \<and> n \<le> 57 \<or> c = CHR ''.'' \<or> c = CHR ''_'')"

definition ref_char :: "char \<Rightarrow> bool" where
  "ref_char c = (ref_head c \<or> c = CHR ''/'' \<or> c = CHR ''-'')"

definition valid_ref :: "string \<Rightarrow> bool" where
  "valid_ref ref = (case ref of [] \<Rightarrow> False | c # cs \<Rightarrow> ref_head c \<and> list_all ref_char cs \<and> \<not> contains ''..'' ref)"

definition tag_of :: "(json \<Rightarrow> string) \<Rightarrow> json \<Rightarrow> failure + string option" where
  "tag_of repr reply =
     (let tag = (case reply of JObj d \<Rightarrow> dget_or d ''tag_name'' JNull | _ \<Rightarrow> JNull);
          bad = Inl (Lookup_Error (''unexpected tag_name in release reply: '' @ repr tag))
      in case tag of JStr t \<Rightarrow> (if valid_ref t then Inr (Some t) else bad) | _ \<Rightarrow> bad)"

definition latest_release_tag :: "'r tools \<Rightarrow> failure + string option" where
  "latest_release_tag tools =
     (case to_reply tools of
        Http_Error code t \<Rightarrow> (if code = 404 then Inr None else Inl (Lookup_Error (''GitHub API answered HTTP '' @ t)))
      | Unreachable t \<Rightarrow> Inl (Lookup_Error (''GitHub API unreachable: '' @ t))
      | Reply reply \<Rightarrow> tag_of (to_repr tools) reply)"

definition NO_RELEASE :: string where
  "NO_RELEASE = ''no GitHub release published yet '' @ [CHR 0xE2, CHR 0x80, CHR 0x94] @ '' falling back to '' @ [CHR 0x27] @ FALLBACK_REF @ [CHR 0x27]"

definition resolve_target :: "'r tools \<Rightarrow> (string \<Rightarrow> string) \<Rightarrow> string option \<Rightarrow> failure + (string \<times> string option)" where
  "resolve_target tools repr ref =
     (case ref of
        Some (c # cs) \<Rightarrow>
          (if valid_ref (c # cs) then Inr (c # cs, None) else Inl (Value_Error (''invalid ref: '' @ repr (c # cs))))
      | _ \<Rightarrow>
          (case latest_release_tag tools of
             Inl e \<Rightarrow> Inl e
           | Inr None \<Rightarrow> Inr (FALLBACK_REF, Some NO_RELEASE)
           | Inr (Some tag) \<Rightarrow> Inr (tag, None)))"

subsection \<open>The state file\<close>

definition NL :: string where
  "NL = [CHR 0x0A]"

text \<open>The lines of a file opened as text, where all three line ends are one.\<close>

fun file_lines :: "string \<Rightarrow> string list" where
  "file_lines [] = [[]]"
| "file_lines (c # s) =
     (if c = CHR 0x0A \<or> (c = CHR 0x0D \<and> (case s of d # _ \<Rightarrow> d \<noteq> CHR 0x0A | [] \<Rightarrow> True)) then [] # file_lines s
      else if c = CHR 0x0D then file_lines s
      else case file_lines s of l # ls \<Rightarrow> (c # l) # ls | [] \<Rightarrow> [[c]])"

definition read_line :: "string \<Rightarrow> (string, string) dict \<Rightarrow> (string, string) dict" where
  "read_line line st =
     (let l = strip line; key = takeWhile (\<lambda>c. c \<noteq> CHR ''='') l; rest = dropWhile (\<lambda>c. c \<noteq> CHR ''='') l
      in if rest \<noteq> [] \<and> key \<noteq> [] then dset key (tl rest) st else st)"

definition read_state :: "state_file \<Rightarrow> failure + (string, string) dict" where
  "read_state f =
     (case f of No_File \<Rightarrow> Inr [] | Unreadable t \<Rightarrow> Inl (OS_Error t) | Content s \<Rightarrow> Inr (fold read_line (file_lines s) []))"

definition state_text :: "string \<Rightarrow> string \<Rightarrow> string \<Rightarrow> string \<Rightarrow> string" where
  "state_text current_ref current_sha previous_ref previous_sha =
     ''current_ref='' @ current_ref @ NL @ ''current_sha='' @ current_sha @ NL @
     ''previous_ref='' @ previous_ref @ NL @ ''previous_sha='' @ previous_sha @ NL"

definition write_state :: "'r tools \<Rightarrow> string \<Rightarrow> string \<Rightarrow> string \<Rightarrow> string \<Rightarrow> ('r, unit) op" where
  "write_state tools current_ref current_sha previous_ref previous_sha s =
     (case to_write_error tools of
        Some t \<Rightarrow> (Inl (OS_Error t), s)
      | None \<Rightarrow> (Inr (), s\<lparr>il_state := Content (state_text current_ref current_sha previous_ref previous_sha)\<rparr>))"

subsection \<open>The checkout\<close>

definition head_sha :: "'r tools \<Rightarrow> ('r, string) op" where
  "head_sha tools =
     and_then (git tools [''rev-parse'', ''HEAD'']) (\<lambda>(rc, out, _). give (if rc = 0 then strip out else []))"

fun first_name :: "'r tools \<Rightarrow> string \<Rightarrow> string list list \<Rightarrow> ('r, string) op" where
  "first_name tools sha [] = give (if take 12 sha = [] then ''unknown'' else take 12 sha)"
| "first_name tools sha (args # rest) =
     and_then (git tools args) (\<lambda>(rc, out, _). if rc = 0 \<and> strip out \<noteq> [] then give (strip out) else first_name tools sha rest)"

definition current_ref_name :: "'r tools \<Rightarrow> ('r, string) op" where
  "current_ref_name tools =
     and_then (head_sha tools) (\<lambda>sha s.
       case read_state (il_state s) of
         Inl e \<Rightarrow> (Inl e, s)
       | Inr st \<Rightarrow>
           (if sha \<noteq> [] \<and> dget st ''current_sha'' = Some sha \<and> dget_or st ''current_ref'' [] \<noteq> []
            then give (dget_or st ''current_ref'' []) s
            else first_name tools sha [[''describe'', ''--tags'', ''--exact-match'', ''HEAD''],
                                       [''symbolic-ref'', ''--short'', ''-q'', ''HEAD'']] s))"

definition or_text :: "string \<Rightarrow> string \<Rightarrow> string" where  \<comment> \<open>\<open>s or t\<close>\<close>
  "or_text s t = (if s \<noteq> [] then s else t)"

definition tag_refspec :: "string \<Rightarrow> string" where
  "tag_refspec ref = ''refs/tags/'' @ ref"

definition fetch_plan :: "string \<Rightarrow> bool \<Rightarrow> string list \<times> string" where
  "fetch_plan ref tagged =
     (if tagged
      then ([''fetch'', ''-q'', ''--depth'', ''1'', ''--force'', ''origin'', tag_refspec ref @ '':'' @ tag_refspec ref], tag_refspec ref @ ''^{commit}'')
      else ([''fetch'', ''-q'', ''--depth'', ''50'', ''origin'', ref], ''FETCH_HEAD^{commit}''))"

definition resolved :: "'r tools \<Rightarrow> string \<Rightarrow> string \<Rightarrow> ('r, string) op" where  \<comment> \<open>the commit a fetched name stands for\<close>
  "resolved tools ref fetched =
     and_then (git tools [''rev-parse'', ''--verify'', ''-q'', fetched]) (\<lambda>(rc, out, _).
       if rc \<noteq> 0 \<or> strip out = [] then raise (Runtime_Error (''cannot resolve '' @ ref @ '' after fetch''))
       else give (strip out))"

definition fetch_ref :: "'r tools \<Rightarrow> (string \<Rightarrow> string) \<Rightarrow> string \<Rightarrow> ('r, string) op" where
  "fetch_ref tools repr ref =
     (if \<not> valid_ref ref then raise (Value_Error (''invalid ref: '' @ repr ref))
      else and_then (git tools [''ls-remote'', ''--exit-code'', ''--tags'', ''origin'', tag_refspec ref]) (\<lambda>(rc, _, _).
           let plan = fetch_plan ref (rc = 0)
           in and_then (git tools (fst plan)) (\<lambda>(rc, out, err).
              if rc \<noteq> 0 then raise (Runtime_Error (''git fetch '' @ ref @ '' failed: '' @ or_text (strip err) (strip out)))
              else resolved tools ref (snd plan))))"

definition checkout_args :: "string \<Rightarrow> string list" where
  "checkout_args sha = [''-c'', ''advice.detachedHead=false'', ''checkout'', ''-q'', ''--force'', ''--detach'', sha]"

definition checkout :: "'r tools \<Rightarrow> string \<Rightarrow> ('r, unit) op" where
  "checkout tools sha =
     and_then (git tools (checkout_args sha)) (\<lambda>(rc, out, err).
       if rc \<noteq> 0 then raise (Runtime_Error (''git checkout failed: '' @ or_text (strip err) (strip out))) else give ())"

subsection \<open>The update\<close>

record update_result =
  ur_ok :: bool
  ur_old_version :: string
  ur_new_version :: "string option"
  ur_error :: "string option"
  ur_steps :: "(string \<times> bool \<times> string) list"

definition get_version :: "'r tools \<Rightarrow> ('r, string) op" where
  "get_version tools s =
     (case git tools [''describe'', ''--tags'', ''--always'', ''--dirty''] s of
        (Inr (rc, out, _), s') \<Rightarrow> (Inr (if rc = 0 then strip out else ''unknown''), s')
      | (Inl _, s') \<Rightarrow> (Inr ''unknown'', s'))"

definition pip_install :: "'r tools \<Rightarrow> ('r, int \<times> string \<times> string) op" where
  "pip_install tools s =
     (case finish_run (to_pip tools (il_repo s)) s of
        (Inl (Timeout_Expired _), s') \<Rightarrow> (Inr (1, [], ''pip install timed out''), s')
      | r \<Rightarrow> r)"

definition fail_with :: "string \<Rightarrow> string option \<Rightarrow> ('r, update_result) op" where
  "fail_with old_version e s =
     (Inr \<lparr>ur_ok = False, ur_old_version = old_version, ur_new_version = None, ur_error = e, ur_steps = il_steps s\<rparr>, s)"

definition move_to :: "'r tools \<Rightarrow> (string \<Rightarrow> string) \<Rightarrow> string \<Rightarrow> string \<Rightarrow> ('r, string) op" where
  "move_to tools repr target old_sha =
     and_then (fetch_ref tools repr target) (\<lambda>new_sha.
     and_then (if new_sha \<noteq> old_sha then checkout tools new_sha else give ()) (\<lambda>_. give new_sha))"

definition go_back :: "'r tools \<Rightarrow> string \<Rightarrow> string \<Rightarrow> ('r, bool \<times> string) op" where
  "go_back tools old_sha old_ref =
     (if old_sha = [] then raise (Runtime_Error ''previous commit unknown'')
      else and_then (checkout tools old_sha) (\<lambda>_.
           and_then (pip_install tools) (\<lambda>(rc, _, err).
           give (rc = 0, if rc = 0 then ''back at '' @ old_ref else take 200 (strip err)))))"

definition restore :: "'r tools \<Rightarrow> string \<Rightarrow> string \<Rightarrow> ('r, unit) op" where
  "restore tools old_sha old_ref =
     and_then (caught (go_back tools old_sha old_ref)) (\<lambda>r.
       case r of
         Inr (ok, detail) \<Rightarrow> record_step ''restore'' ok detail
       | Inl (Runtime_Error t) \<Rightarrow> record_step ''restore'' False t
       | Inl (Lookup_Error t) \<Rightarrow> record_step ''restore'' False t
       | Inl (Timeout_Expired t) \<Rightarrow> record_step ''restore'' False t
       | Inl e \<Rightarrow> raise e)"

definition note_state :: "'r tools \<Rightarrow> string \<Rightarrow> string \<Rightarrow> string \<Rightarrow> string \<Rightarrow> ('r, unit) op" where
  "note_state tools target new_sha old_ref old_sha =
     (if new_sha \<noteq> old_sha
      then and_then (caught (write_state tools target new_sha old_ref old_sha)) (\<lambda>r.
             case r of
               Inr _ \<Rightarrow> give ()
             | Inl (OS_Error t) \<Rightarrow> record_step ''state_file'' False t
             | Inl e \<Rightarrow> raise e)
      else give ())"

definition complete_update ::
    "'r tools \<Rightarrow> string \<Rightarrow> string \<Rightarrow> string \<Rightarrow> string \<Rightarrow> string \<Rightarrow> ('r, update_result) op" where
  "complete_update tools old_version target new_sha old_ref old_sha =
     and_then (note_state tools target new_sha old_ref old_sha) (\<lambda>_.
     and_then (get_version tools) (\<lambda>new_version s.
       (Inr \<lparr>ur_ok = True, ur_old_version = old_version, ur_new_version = Some new_version, ur_error = None, ur_steps = il_steps s\<rparr>,
        s\<lparr>il_restart := il_restart s \<or> old_version \<noteq> new_version\<rparr>)))"

definition install_phase ::
    "'r tools \<Rightarrow> string \<Rightarrow> string \<Rightarrow> string \<Rightarrow> string \<Rightarrow> string \<Rightarrow> ('r, update_result) op" where
  "install_phase tools old_version target new_sha old_ref old_sha =
     and_then (pip_install tools) (\<lambda>(rc, _, err).
     and_then (record_step ''pip_install'' (rc = 0) (if rc \<noteq> 0 then take 200 (strip err) else ''ok'')) (\<lambda>_.
       if rc \<noteq> 0
       then and_then (if new_sha \<noteq> old_sha then restore tools old_sha old_ref else give ()) (\<lambda>_.
              fail_with old_version (Some (''pip install failed: '' @ take 200 (strip err))))
       else complete_update tools old_version target new_sha old_ref old_sha))"

definition after_move ::
    "'r tools \<Rightarrow> string \<Rightarrow> string \<Rightarrow> string \<Rightarrow> string \<Rightarrow> failure + string \<Rightarrow> ('r, update_result) op" where
  "after_move tools old_version target old_ref old_sha r =
     (case r of
        Inl (OS_Error t) \<Rightarrow> raise (OS_Error t)
      | Inl e \<Rightarrow> and_then (record_step ''git_checkout'' False (failure_text e)) (\<lambda>_. fail_with old_version None)
      | Inr new_sha \<Rightarrow>
          and_then (record_step ''git_checkout'' True
              (if new_sha = old_sha then ''already at '' @ target else old_ref @ '' -> '' @ target)) (\<lambda>_.
            install_phase tools old_version target new_sha old_ref old_sha))"

definition update_body :: "'r tools \<Rightarrow> (string \<Rightarrow> string) \<Rightarrow> string \<Rightarrow> ('r, update_result) op" where
  "update_body tools repr old_version =
     (case resolve_target tools repr None of
        Inl (Lookup_Error t) \<Rightarrow> and_then (record_step ''resolve'' False t) (\<lambda>_. fail_with old_version None)
      | Inl e \<Rightarrow> raise e
      | Inr (target, warning) \<Rightarrow>
          and_then (record_step ''resolve'' True (case warning of None \<Rightarrow> target | Some w \<Rightarrow> w)) (\<lambda>_.
          and_then (head_sha tools) (\<lambda>old_sha.
          and_then (current_ref_name tools) (\<lambda>old_ref.
          and_then (caught (move_to tools repr target old_sha)) (after_move tools old_version target old_ref old_sha)))))"

definition run_update :: "'r tools \<Rightarrow> (string \<Rightarrow> string) \<Rightarrow> string \<Rightarrow> 'r install \<Rightarrow> update_result \<times> 'r install" where
  "run_update tools repr old_version s =
     (case update_body tools repr old_version (s\<lparr>il_steps := []\<rparr>) of
        (Inr r, s') \<Rightarrow> (r, s')
      | (Inl e, s') \<Rightarrow>
          (\<lparr>ur_ok = False, ur_old_version = old_version, ur_new_version = None, ur_error = Some (failure_text e), ur_steps = il_steps s'\<rparr>, s'))"

subsection \<open>The state file reads back\<close>

definition line_ok :: "string \<Rightarrow> bool" where
  "line_ok v \<longleftrightarrow> CHR 0x0A \<notin> set v \<and> CHR 0x0D \<notin> set v \<and> (v = [] \<or> \<not> str_space (last v))"

lemma file_lines_line:
  "CHR 0x0A \<notin> set l \<Longrightarrow> CHR 0x0D \<notin> set l \<Longrightarrow> file_lines (l @ NL @ t) = l # file_lines t"
  by (induction l) (auto simp: NL_def)

lemma file_lines_last: "CHR 0x0A \<notin> set l \<Longrightarrow> CHR 0x0D \<notin> set l \<Longrightarrow> file_lines (l @ NL) = [l, []]"
  using file_lines_line [of l "[]"] by simp

lemma strip_keep:
  assumes "s \<noteq> []" "\<not> str_space (hd s)" "\<not> str_space (last s)"
  shows "strip s = s"
proof -
  have "dropWhile str_space s = s" using assms by (simp only: dropWhile_eq_self_iff simp_thms)
  moreover have "dropWhile str_space (rev s) = rev s" using assms by (simp only: dropWhile_eq_self_iff hd_rev simp_thms)
  ultimately show ?thesis by (simp only: strip_def rev_rev_ident)
qed

lemma read_line_entry:
  assumes "line_ok v" "key \<noteq> []" "CHR ''='' \<notin> set key" "\<not> str_space (hd key)"
  shows "read_line (key @ ''='' @ v) st = dset key v st"
proof -
  have "\<not> str_space (CHR ''='')" by (simp add: str_space_def is_space_def)
  then have "strip (key @ ''='' @ v) = key @ ''='' @ v"
    using assms by (intro strip_keep) (auto simp: line_ok_def hd_append)
  moreover have "takeWhile (\<lambda>c. c \<noteq> CHR ''='') (key @ ''='' @ v) = key" "dropWhile (\<lambda>c. c \<noteq> CHR ''='') (key @ ''='' @ v) = ''='' @ v"
    using assms(3) by (auto simp: takeWhile_append dropWhile_append)
  ultimately show ?thesis using assms(2) by (simp add: read_line_def Let_def)
qed

lemma read_line_empty: "read_line [] st = st"
  by (simp add: read_line_def strip_def)

definition no_break :: "string \<Rightarrow> bool" where
  "no_break l \<longleftrightarrow> CHR 0x0A \<notin> set l \<and> CHR 0x0D \<notin> set l"

lemma four_lines:
  assumes "no_break l1" "no_break l2" "no_break l3" "no_break l4"
  shows "file_lines (l1 @ NL @ l2 @ NL @ l3 @ NL @ l4 @ NL) = [l1, l2, l3, l4, []]"
  using assms by (simp add: no_break_def file_lines_line file_lines_last)

lemma key_line: "no_break k \<Longrightarrow> line_ok v \<Longrightarrow> no_break (k @ ''='' @ v)"
  by (simp add: line_ok_def no_break_def)

lemma state_text_reads:
  assumes "line_ok a" "line_ok b" "line_ok c" "line_ok d"
  shows "read_state (Content (state_text a b c d)) =
    Inr [(''current_ref'', a), (''current_sha'', b), (''previous_ref'', c), (''previous_sha'', d)]"
proof -
  define k1 k2 k3 k4 where k: "k1 = ''current_ref''" "k2 = ''current_sha''" "k3 = ''previous_ref''" "k4 = ''previous_sha''"
  have kb: "no_break k1" "no_break k2" "no_break k3" "no_break k4" by (simp_all add: k no_break_def)
  have kn: "\<forall>k \<in> {k1, k2, k3, k4}. CHR 0x0A \<notin> set k \<and> CHR 0x0D \<notin> set k \<and> k \<noteq> [] \<and> CHR ''='' \<notin> set k \<and> \<not> str_space (hd k)"
    by (simp add: k str_space_def is_space_def)
  have "file_lines (state_text a b c d) = [k1 @ ''='' @ a, k2 @ ''='' @ b, k3 @ ''='' @ c, k4 @ ''='' @ d, []]"
  proof -
    have "state_text a b c d = (k1 @ ''='' @ a) @ NL @ (k2 @ ''='' @ b) @ NL @ (k3 @ ''='' @ c) @ NL @ (k4 @ ''='' @ d) @ NL"
      by (simp add: state_text_def k)
    then show ?thesis
      by (simp only: four_lines [OF key_line [OF kb(1) assms(1)] key_line [OF kb(2) assms(2)] key_line [OF kb(3) assms(3)] key_line [OF kb(4) assms(4)]])
  qed
  moreover have "fold read_line [k1 @ ''='' @ a, k2 @ ''='' @ b, k3 @ ''='' @ c, k4 @ ''='' @ d, []] [] = dset k4 d (dset k3 c (dset k2 b (dset k1 a [])))"
    using read_line_entry [OF assms(1), of k1] read_line_entry [OF assms(2), of k2]
      read_line_entry [OF assms(3), of k3] read_line_entry [OF assms(4), of k4] kn
    by (simp only: fold_simps read_line_empty insert_iff simp_thms ball_simps)
  ultimately show ?thesis by (simp add: read_state_def k)
qed

text \<open>What is read is a line.\<close>

lemma file_lines_ok: "l \<in> set (file_lines s) \<Longrightarrow> no_break l"
proof (induction s arbitrary: l)
  case Nil
  then show ?case by (simp add: no_break_def)
next
  case (Cons c s)
  note ih = Cons.IH
  define b where "b \<longleftrightarrow> c = CHR 0x0A \<or> (c = CHR 0x0D \<and> (case s of d # _ \<Rightarrow> d \<noteq> CHR 0x0A | [] \<Rightarrow> True))"
  have e: "file_lines (c # s) = (if b then [] # file_lines s else if c = CHR 0x0D then file_lines s
      else case file_lines s of l # ls \<Rightarrow> (c # l) # ls | [] \<Rightarrow> [[c]])" by (simp add: b_def)
  consider "b" | "\<not> b" "c = CHR 0x0D" | "c \<noteq> CHR 0x0A" "c \<noteq> CHR 0x0D" "\<not> b" using b_def by blast
  then show ?case
  proof cases
    case 1
    then have "l = [] \<or> l \<in> set (file_lines s)" using Cons.prems e by simp
    then show ?thesis using Cons.IH by (auto simp: no_break_def)
  next
    case 2
    then have "l \<in> set (file_lines s)" using Cons.prems e by simp
    then show ?thesis by (rule Cons.IH)
  next
    case 3
    show ?thesis
    proof (cases "file_lines s")
      case Nil
      then have "l = [c]" using Cons.prems e 3 by simp
      then show ?thesis using 3 by (simp add: no_break_def)
    next
      case (Cons l' ls)
      then have "l = c # l' \<or> l \<in> set ls" using \<open>l \<in> set (file_lines (c # s))\<close> e 3 by simp
      then show ?thesis using ih [of l'] ih [of l] 3 Cons by (auto simp: no_break_def)
    qed
  qed
qed

lemma strip_line_ok:
  assumes "no_break (strip l)"
  shows "line_ok (strip l)"
proof -
  let ?d = "dropWhile str_space (rev (dropWhile str_space l))"
  have "?d = [] \<or> \<not> str_space (hd ?d)" using hd_dropWhile by blast
  then have "strip l = [] \<or> \<not> str_space (last (strip l))" by (auto simp: strip_def last_rev)
  then show ?thesis using assms by (simp add: line_ok_def no_break_def)
qed

lemma set_strip: "set (strip l) \<subseteq> set l"
  by (auto simp: strip_def dest!: set_dropWhileD)

lemma line_ok_suffix: "line_ok (xs @ ys) \<Longrightarrow> line_ok ys"
  by (auto simp: line_ok_def)

lemma read_line_ok:
  assumes "no_break l" "\<forall>k v. dget st k = Some v \<longrightarrow> line_ok v"
  shows "\<forall>k v. dget (read_line l st) k = Some v \<longrightarrow> line_ok v"
proof -
  let ?rest = "dropWhile (\<lambda>c. c \<noteq> CHR ''='') (strip l)"
  have "line_ok (strip l)" using assms(1) set_strip [of l] by (intro strip_line_ok) (auto simp: no_break_def)
  then have r: "line_ok ?rest" using line_ok_suffix [of "takeWhile (\<lambda>c. c \<noteq> CHR ''='') (strip l)"] by simp
  have "line_ok (tl ?rest)" if "?rest \<noteq> []"
    using r that line_ok_suffix [of "[hd ?rest]" "tl ?rest"] by simp
  then show ?thesis using assms(2) by (auto simp: read_line_def Let_def)
qed

lemma read_lines_ok:
  "\<forall>l \<in> set ls. no_break l \<Longrightarrow> \<forall>k v. dget st k = Some v \<longrightarrow> line_ok v \<Longrightarrow>
   dget (fold read_line ls st) k = Some v \<Longrightarrow> line_ok v"
proof (induction ls arbitrary: st)
  case (Cons l ls)
  show ?case by (rule Cons.IH [OF _ read_line_ok [OF _ Cons.prems(2), of l]]) (use Cons.prems in auto)
qed simp

lemma read_state_ok: "read_state f = Inr st \<Longrightarrow> dget st k = Some v \<Longrightarrow> line_ok v"
  using read_lines_ok [of "file_lines s" "[]" k v for s] file_lines_ok
  by (auto simp: read_state_def split: state_file.splits)

subsection \<open>What is needed of git\<close>

definition commit_id :: "string \<Rightarrow> bool" where
  "commit_id s \<longleftrightarrow> s \<noteq> [] \<and> list_all (\<lambda>c. digit_val c \<noteq> None \<or> c \<in> set ''abcdef'') s"

definition single_line :: "string \<Rightarrow> bool" where
  "single_line out \<longleftrightarrow> no_break (strip out)"

text \<open>
  \<open>head\<close> is the commit checked out.  Only \<open>checkout\<close> moves it, and a checkout that reports success has moved it
  to the commit named; \<open>rev-parse\<close> prints commits, \<open>describe\<close> and \<open>symbolic-ref\<close> one line; pip leaves the checkout.
\<close>

definition git_law :: "'r tools \<Rightarrow> ('r \<Rightarrow> string) \<Rightarrow> bool" where
  "git_law tools head \<longleftrightarrow>
     (\<forall>r args. (\<forall>sha. args \<noteq> checkout_args sha) \<longrightarrow> head (snd (to_git tools r args)) = head r) \<and>
     (\<forall>r sha rc out err. fst (to_git tools r (checkout_args sha)) = Completed rc out err \<longrightarrow> commit_id sha \<longrightarrow>
        head (snd (to_git tools r (checkout_args sha))) = (if rc = 0 then sha else head r)) \<and>
     (\<forall>r out err. fst (to_git tools r [''rev-parse'', ''HEAD'']) = Completed 0 out err \<longrightarrow> strip out = head r \<and> commit_id (head r)) \<and>
     (\<forall>r x out err. fst (to_git tools r [''rev-parse'', ''--verify'', ''-q'', x]) = Completed 0 out err \<longrightarrow> strip out \<noteq> [] \<longrightarrow> commit_id (strip out)) \<and>
     (\<forall>r args out err. hd args \<in> {''describe'', ''symbolic-ref''} \<longrightarrow> fst (to_git tools r args) = Completed 0 out err \<longrightarrow> single_line out) \<and>
     (\<forall>r. head (snd (to_pip tools r)) = head r)"

text \<open>The programs start and git ends in time.\<close>

definition programs_run :: "'r tools \<Rightarrow> bool" where
  "programs_run tools \<longleftrightarrow>
     (\<forall>r args. case fst (to_git tools r args) of Completed _ _ _ \<Rightarrow> True | _ \<Rightarrow> False) \<and>
     (\<forall>r. case fst (to_pip tools r) of Not_Run _ \<Rightarrow> False | _ \<Rightarrow> True)"

lemma clean_line:
  assumes "\<forall>c \<in> set s. c \<noteq> CHR 0x0A \<and> c \<noteq> CHR 0x0D \<and> \<not> str_space c"
  shows "line_ok s"
  unfolding line_ok_def using assms last_in_set [of s] by blast

lemma id_char_ok: "digit_val c \<noteq> None \<or> c \<in> set ''abcdef'' \<Longrightarrow> c \<noteq> CHR 0x0A \<and> c \<noteq> CHR 0x0D \<and> \<not> str_space c"
  by (auto simp: digit_val_def str_space_def is_space_def Let_def split: if_splits)

lemma commit_line_ok: "commit_id s \<Longrightarrow> line_ok s"
  unfolding commit_id_def list_all_iff using id_char_ok by (intro clean_line) blast

lemma ref_char_ok: "ref_char c \<Longrightarrow> c \<noteq> CHR 0x0A \<and> c \<noteq> CHR 0x0D \<and> \<not> str_space c"
  by (auto simp: ref_char_def ref_head_def str_space_def is_space_def Let_def)

lemma valid_ref_chars: "valid_ref ref \<Longrightarrow> list_all ref_char ref"
  by (auto simp: valid_ref_def ref_char_def split: list.splits)

lemma ref_line_ok: "valid_ref ref \<Longrightarrow> line_ok ref"
  using valid_ref_chars [of ref] ref_char_ok unfolding list_all_iff by (intro clean_line) blast

lemma target_valid: "resolve_target tools repr ref = Inr (target, w) \<Longrightarrow> valid_ref target"
proof -
  assume r: "resolve_target tools repr ref = Inr (target, w)"
  have t: "tag_of f j = Inr (Some t) \<Longrightarrow> valid_ref t" "tag_of f j \<noteq> Inr None" for f j t
    by (auto simp: tag_of_def Let_def split: json.splits if_splits)
  have "valid_ref FALLBACK_REF" by code_simp
  then show ?thesis using r t
    by (auto simp: resolve_target_def latest_release_tag_def split: option.splits list.splits sum.splits github_reply.splits if_splits)
qed

text \<open>No argument made of a reference is an option.\<close>

theorem no_option_injection:
  assumes "resolve_target tools repr ref = Inr (target, w)"
  shows "\<not> starts_with ''-'' target \<and> contains '' '' target = False \<and> last (fst (fetch_plan target b)) \<noteq> [] \<and>
    \<not> starts_with ''-'' (last (fst (fetch_plan target b)))"
proof -
  note v = target_valid [OF assms]
  obtain c cs where t: "target = c # cs" using v by (cases target) (auto simp: valid_ref_def)
  have c: "c \<noteq> CHR ''-''" using v t by (auto simp: valid_ref_def ref_head_def Let_def)
  have "CHR '' '' \<notin> set target"
    using v t by (auto simp: valid_ref_def ref_char_def ref_head_def Let_def list_all_iff)
  then have "\<not> contains '' '' target" by (induction target) (auto simp: starts_with_def take_Suc_conv_app_nth split: list.splits)
  then show ?thesis using c t by (cases b) (auto simp: fetch_plan_def tag_refspec_def starts_with_def)
qed

lemma git_lawD:
  assumes "git_law tools head"
  shows "(\<And>sha. args \<noteq> checkout_args sha) \<Longrightarrow> head (snd (to_git tools r args)) = head r"
    and "fst (to_git tools r (checkout_args sha)) = Completed rc out err \<Longrightarrow> commit_id sha \<Longrightarrow>
      head (snd (to_git tools r (checkout_args sha))) = (if rc = 0 then sha else head r)"
    and "fst (to_git tools r [''rev-parse'', ''HEAD'']) = Completed 0 out err \<Longrightarrow> strip out = head r \<and> commit_id (head r)"
    and "fst (to_git tools r [''rev-parse'', ''--verify'', ''-q'', x]) = Completed 0 out err \<Longrightarrow> strip out \<noteq> [] \<Longrightarrow> commit_id (strip out)"
    and "hd args \<in> {''describe'', ''symbolic-ref''} \<Longrightarrow> fst (to_git tools r args) = Completed 0 out err \<Longrightarrow> single_line out"
    and "head (snd (to_pip tools r)) = head r"
  using assms unfolding git_law_def by blast+

subsection \<open>What leaves the checkout alone\<close>

definition unmoved :: "('r \<Rightarrow> string) \<Rightarrow> 'r install \<Rightarrow> 'r install \<Rightarrow> bool" where
  "unmoved head s s' \<longleftrightarrow> head (il_repo s') = head (il_repo s) \<and> il_state s' = il_state s \<and> il_steps s' = il_steps s"

definition stays_put :: "('r \<Rightarrow> string) \<Rightarrow> ('r, 'a) op \<Rightarrow> bool" where
  "stays_put head m \<longleftrightarrow> (\<forall>s r s'. m s = (r, s') \<longrightarrow> unmoved head s s')"

lemma unmoved_refl [simp]: "unmoved head s s"
  by (simp add: unmoved_def)

lemma unmoved_trans: "unmoved head s t \<Longrightarrow> unmoved head t u \<Longrightarrow> unmoved head s u"
  by (simp add: unmoved_def)

lemma staysD: "stays_put head m \<Longrightarrow> m s = (r, s') \<Longrightarrow> unmoved head s s'"
  by (simp add: stays_put_def)

lemma stays_basic [simp]: "stays_put head (give x)" "stays_put head (raise e)"
  by (simp_all add: stays_put_def give_def raise_def)

lemma stays_then:
  assumes "stays_put head m" "\<And>x. stays_put head (f x)"
  shows "stays_put head (and_then m f)"
  unfolding stays_put_def
proof (intro allI impI)
  fix s r s'
  assume r: "and_then m f s = (r, s')"
  obtain q s1 where q: "m s = (q, s1)" by fastforce
  have u: "unmoved head s s1" by (rule staysD [OF assms(1) q])
  show "unmoved head s s'"
  proof (cases q)
    case (Inl e)
    then show ?thesis using r q u by (simp add: and_then_def)
  next
    case (Inr x)
    then have "f x s1 = (r, s')" using r q by (simp add: and_then_def)
    from unmoved_trans [OF u staysD [OF assms(2) this]] show ?thesis .
  qed
qed

lemma finish_unmoved: "finish_run run s = (r, s') \<Longrightarrow> head (snd run) = head (il_repo s) \<Longrightarrow> unmoved head s s'"
  by (cases run) (auto simp: finish_run_def unmoved_def)

lemma git_stays:
  assumes "git_law tools head" "\<And>sha. args \<noteq> checkout_args sha"
  shows "stays_put head (git tools args)"
  unfolding stays_put_def git_def
proof (intro allI impI)
  fix s r s'
  assume "finish_run (to_git tools (il_repo s) args) s = (r, s')"
  then show "unmoved head s s'" by (rule finish_unmoved) (rule git_lawD(1) [OF assms])
qed

lemma pip_stays:
  assumes "git_law tools head"
  shows "stays_put head (pip_install tools)"
  unfolding stays_put_def
proof (intro allI impI)
  fix s r s'
  assume r: "pip_install tools s = (r, s')"
  obtain q s1 where q: "finish_run (to_pip tools (il_repo s)) s = (q, s1)" by fastforce
  have "unmoved head s s1" by (rule finish_unmoved [OF q]) (rule git_lawD(6) [OF assms])
  moreover have "s' = s1" using r q by (auto simp: pip_install_def split: sum.splits failure.splits)
  ultimately show "unmoved head s s'" by simp
qed

lemma not_checkout [simp]:
  "[''rev-parse'', x] \<noteq> checkout_args sha" "''describe'' # xs \<noteq> checkout_args sha" "''symbolic-ref'' # xs \<noteq> checkout_args sha"
  "''ls-remote'' # xs \<noteq> checkout_args sha" "''rev-parse'' # xs \<noteq> checkout_args sha" "fst (fetch_plan ref b) \<noteq> checkout_args sha"
  by (simp_all add: checkout_args_def fetch_plan_def)

lemma head_sha_stays: "git_law tools head \<Longrightarrow> stays_put head (head_sha tools)"
  unfolding head_sha_def by (rule stays_then [OF git_stays]) (auto simp: split_beta)

lemma first_name_stays:
  "git_law tools head \<Longrightarrow> \<forall>args \<in> set names. \<forall>sha. args \<noteq> checkout_args sha \<Longrightarrow> stays_put head (first_name tools sha names)"
  by (induction names) (auto simp: split_beta intro!: stays_then git_stays)

lemma current_ref_name_stays:
  assumes "git_law tools head"
  shows "stays_put head (current_ref_name tools)"
  unfolding current_ref_name_def
proof (rule stays_then [OF head_sha_stays [OF assms]])
  fix sha
  have f: "stays_put head (first_name tools sha [[''describe'', ''--tags'', ''--exact-match'', ''HEAD''], [''symbolic-ref'', ''--short'', ''-q'', ''HEAD'']])"
    by (rule first_name_stays [OF assms]) simp
  show "stays_put head (\<lambda>s. case read_state (il_state s) of
         Inl e \<Rightarrow> (Inl e, s)
       | Inr st \<Rightarrow>
           (if sha \<noteq> [] \<and> dget st ''current_sha'' = Some sha \<and> dget_or st ''current_ref'' [] \<noteq> []
            then give (dget_or st ''current_ref'' []) s
            else first_name tools sha [[''describe'', ''--tags'', ''--exact-match'', ''HEAD''],
                                       [''symbolic-ref'', ''--short'', ''-q'', ''HEAD'']] s))"
    using f unfolding stays_put_def by (simp add: give_def del: first_name.simps split: sum.split)
qed

lemma fetch_ref_stays: "git_law tools head \<Longrightarrow> stays_put head (fetch_ref tools repr ref)"
  unfolding fetch_ref_def resolved_def by (auto simp: split_beta Let_def intro!: stays_then git_stays)

lemma get_version_stays:
  assumes "git_law tools head"
  shows "stays_put head (get_version tools)"
proof -
  have g: "stays_put head (git tools [''describe'', ''--tags'', ''--always'', ''--dirty''])" by (rule git_stays [OF assms]) simp
  show ?thesis unfolding stays_put_def
  proof (intro allI impI)
    fix s r s'
    assume r: "get_version tools s = (r, s')"
    obtain q s1 where q: "git tools [''describe'', ''--tags'', ''--always'', ''--dirty''] s = (q, s1)" by fastforce
    have "s' = s1" using r q by (auto simp: get_version_def split: sum.splits)
    then show "unmoved head s s'" using staysD [OF g q] by simp
  qed
qed

subsection \<open>What is found out\<close>

lemma git_Inr: "git tools args s = (Inr (rc, out, err), s') \<Longrightarrow> fst (to_git tools (il_repo s) args) = Completed rc out err \<and> il_repo s' = snd (to_git tools (il_repo s) args)"
  by (cases "to_git tools (il_repo s) args") (auto simp: git_def finish_run_def split: run_outcome.splits)

lemma and_then_Inr: "and_then m f s = (Inr y, s') \<longleftrightarrow> (\<exists>x s1. m s = (Inr x, s1) \<and> f x s1 = (Inr y, s'))"
  by (auto simp: and_then_def split: prod.splits sum.splits)

lemma and_then_Inl: "and_then m f s = (Inl e, s') \<longleftrightarrow> m s = (Inl e, s') \<or> (\<exists>x s1. m s = (Inr x, s1) \<and> f x s1 = (Inl e, s'))"
  by (auto simp: and_then_def split: prod.splits sum.splits)

lemma head_sha_known:
  "git_law tools head \<Longrightarrow> head_sha tools s = (Inr sha, s') \<Longrightarrow> sha = [] \<or> sha = head (il_repo s) \<and> commit_id sha"
  unfolding head_sha_def and_then_Inr
  using git_lawD(3) by (fastforce simp: give_def dest!: git_Inr split: if_splits)

lemma resolved_commit:
  assumes "git_law tools head" "resolved tools ref fetched s = (Inr sha, s')"
  shows "commit_id sha"
proof -
  obtain rc out err s1 where g: "git tools [''rev-parse'', ''--verify'', ''-q'', fetched] s = (Inr (rc, out, err), s1)"
    and r: "(if rc \<noteq> 0 \<or> strip out = [] then raise (Runtime_Error (''cannot resolve '' @ ref @ '' after fetch'')) else give (strip out)) s1 = (Inr sha, s')"
    using assms(2) unfolding resolved_def and_then_Inr by (elim exE conjE) (simp only: split_paired_all prod.case)
  have "rc = 0" "strip out \<noteq> []" "sha = strip out" using r by (auto simp: raise_def give_def split: if_splits)
  then show ?thesis using git_lawD(4) [OF assms(1), of "il_repo s" fetched out err] git_Inr [OF g] by simp
qed

lemma fetch_ref_commit:
  assumes "git_law tools head" "fetch_ref tools repr ref s = (Inr sha, s')"
  shows "commit_id sha"
proof -
  have "\<exists>fetched t. resolved tools ref fetched t = (Inr sha, s')"
    using assms(2) by (auto simp: fetch_ref_def and_then_Inr Let_def raise_def split: if_splits)
  then show ?thesis using resolved_commit [OF assms(1)] by blast
qed

lemma checkout_moves:
  assumes "git_law tools head" "commit_id sha" "checkout tools sha s = (r, s')"
  shows "il_state s' = il_state s \<and> il_steps s' = il_steps s"
    and "r = Inr u \<Longrightarrow> head (il_repo s') = sha"
    and "programs_run tools \<Longrightarrow> r = Inl e \<Longrightarrow> head (il_repo s') = head (il_repo s) \<and> (\<exists>t. e = Runtime_Error t)"
proof -
  obtain o' r' where g: "to_git tools (il_repo s) (checkout_args sha) = (o', r')" by fastforce
  have law: "o' = Completed rc out err \<Longrightarrow> head r' = (if rc = 0 then sha else head (il_repo s))" for rc out err
    using assms(1,2) g unfolding git_law_def by (metis fst_conv snd_conv)
  note defs = checkout_def and_then_def git_def finish_run_def g give_def raise_def
  show "il_state s' = il_state s \<and> il_steps s' = il_steps s"
    using assms(3) by (cases o') (auto simp: defs split: if_splits)
  show "head (il_repo s') = sha" if "r = Inr u"
    using assms(3) law that by (cases o') (auto simp: defs split: if_splits)
  assume p: "programs_run tools" and e: "r = Inl e"
  then obtain rc out err where "o' = Completed rc out err" using g unfolding programs_run_def by (metis fst_conv run_outcome.exhaust run_outcome.simps(11,12))
  then show "head (il_repo s') = head (il_repo s) \<and> (\<exists>t. e = Runtime_Error t)"
    using assms(3) law e by (auto simp: defs split: if_splits)
qed

subsection \<open>An update that fails\<close>

lemma record_step_simp [simp]: "record_step name ok t s = (Inr (), s\<lparr>il_steps := il_steps s @ [(name, ok, t)]\<rparr>)"
  by (simp add: record_step_def)

lemma and_then_record [simp]:
  "and_then (record_step name ok t) f s = f () (s\<lparr>il_steps := il_steps s @ [(name, ok, t)]\<rparr>)"
  by (simp add: and_then_def)

lemma move_to_done:
  assumes "git_law tools head" "move_to tools repr target old_sha s = (Inr new_sha, s')"
  shows "commit_id new_sha \<and> il_state s' = il_state s \<and> head (il_repo s') = (if new_sha \<noteq> old_sha then new_sha else head (il_repo s))"
proof -
  obtain s1 u where f: "fetch_ref tools repr target s = (Inr new_sha, s1)"
    and c: "(if new_sha \<noteq> old_sha then checkout tools new_sha else give ()) s1 = (Inr u, s')"
    using assms(2) by (auto simp: move_to_def and_then_Inr give_def)
  note id = fetch_ref_commit [OF assms(1) f] and same = staysD [OF fetch_ref_stays [OF assms(1)] f]
  show ?thesis
  proof (cases "new_sha = old_sha")
    case True
    then show ?thesis using c id same by (simp add: give_def unmoved_def)
  next
    case False
    then have k: "checkout tools new_sha s1 = (Inr u, s')" using c by simp
    show ?thesis using checkout_moves(1,2) [OF assms(1) id k] False id same by (simp add: unmoved_def)
  qed
qed

lemma move_to_failed:
  assumes "git_law tools head" "programs_run tools" "move_to tools repr target old_sha s = (Inl e, s')"
  shows "head (il_repo s') = head (il_repo s)"
proof -
  obtain q s1 where q: "fetch_ref tools repr target s = (q, s1)" by fastforce
  note same = staysD [OF fetch_ref_stays [OF assms(1)] q]
  show ?thesis
  proof (cases q)
    case (Inl f)
    then show ?thesis using assms(3) q same by (simp add: move_to_def and_then_def unmoved_def)
  next
    case (Inr new_sha)
    then have f: "fetch_ref tools repr target s = (Inr new_sha, s1)" using q by simp
    have c: "new_sha \<noteq> old_sha \<and> checkout tools new_sha s1 = (Inl e, s')"
      using assms(3) by (auto simp: move_to_def and_then_def f give_def split: if_splits prod.splits sum.splits)
    then show ?thesis using checkout_moves(3) [OF assms(1) fetch_ref_commit [OF assms(1) f] conjunct2 [OF c] assms(2) refl] same
      by (simp add: unmoved_def)
  qed
qed

lemma pip_runs:
  assumes "programs_run tools"
  obtains rc out err s' where "pip_install tools s = (Inr (rc, out, err), s')"
proof -
  obtain o' r where p: "to_pip tools (il_repo s) = (o', r)" by fastforce
  have "case o' of Not_Run _ \<Rightarrow> False | _ \<Rightarrow> True" using assms p unfolding programs_run_def by (metis fst_conv)
  then have "\<exists>x s'. pip_install tools s = (Inr x, s')"
    by (cases o') (simp_all add: pip_install_def finish_run_def p)
  then show thesis using that by (metis prod_cases3)
qed

lemma go_back_cases:
  assumes "git_law tools head" "programs_run tools" "old_sha = [] \<or> commit_id old_sha"
  shows "\<exists>s'. (\<exists>t. go_back tools old_sha old_ref s = (Inl (Runtime_Error t), s')) \<or>
     (\<exists>ok d. go_back tools old_sha old_ref s = (Inr (ok, d), s') \<and> old_sha \<noteq> [] \<and> head (il_repo s') = old_sha)"
proof (cases "old_sha = []")
  case True
  then show ?thesis by (simp add: go_back_def raise_def)
next
  case False
  then have id: "commit_id old_sha" using assms(3) by simp
  obtain q s1 where q: "checkout tools old_sha s = (q, s1)" by fastforce
  show ?thesis
  proof (cases q)
    case (Inl e)
    then have k: "checkout tools old_sha s = (Inl e, s1)" using q by simp
    obtain t where "e = Runtime_Error t" using checkout_moves(3) [OF assms(1) id k assms(2) refl] by blast
    then show ?thesis using False by (auto simp: go_back_def and_then_def k)
  next
    case (Inr u)
    then have k: "checkout tools old_sha s = (Inr u, s1)" using q by simp
    obtain rc out err s2 where p: "pip_install tools s1 = (Inr (rc, out, err), s2)" by (rule pip_runs [OF assms(2)])
    have "head (il_repo s2) = old_sha"
      using checkout_moves(2) [OF assms(1) id k refl] staysD [OF pip_stays [OF assms(1)] p] by (simp add: unmoved_def)
    then show ?thesis using False by (simp add: go_back_def and_then_def k and_then_def p give_def)
  qed
qed

definition restore_failed :: "(string \<times> bool \<times> string) list \<Rightarrow> bool" where
  "restore_failed steps \<longleftrightarrow> (\<exists>t. (''restore'', False, t) \<in> set steps)"

lemma restore_reports:
  assumes "git_law tools head" "programs_run tools" "old_sha = [] \<or> commit_id old_sha"
  obtains s' where "restore tools old_sha old_ref s = (Inr (), s')"
    and "old_sha \<noteq> [] \<and> head (il_repo s') = old_sha \<or> restore_failed (il_steps s')"
proof -
  obtain s1 where "(\<exists>t. go_back tools old_sha old_ref s = (Inl (Runtime_Error t), s1)) \<or>
     (\<exists>ok d. go_back tools old_sha old_ref s = (Inr (ok, d), s1) \<and> old_sha \<noteq> [] \<and> head (il_repo s1) = old_sha)"
    using go_back_cases [OF assms, of old_ref s] by blast
  then show thesis
  proof (elim disjE exE conjE)
    fix t assume g: "go_back tools old_sha old_ref s = (Inl (Runtime_Error t), s1)"
    show thesis by (rule that) (auto simp: restore_def and_then_def caught_def g restore_failed_def)
  next
    fix ok d assume g: "go_back tools old_sha old_ref s = (Inr (ok, d), s1)" and h: "old_sha \<noteq> []" "head (il_repo s1) = old_sha"
    show thesis by (rule that) (use h in \<open>auto simp: restore_def and_then_def caught_def g\<close>)
  qed
qed

lemma note_state_done: "\<exists>s'. note_state tools target new_sha old_ref old_sha s = (Inr (), s')"
  by (auto simp: note_state_def and_then_def caught_def write_state_def give_def split: option.split)

lemma get_version_done: "\<exists>x s'. get_version tools s = (Inr x, s')"
  by (cases "git tools [''describe'', ''--tags'', ''--always'', ''--dirty''] s") (auto simp: get_version_def split: sum.splits)

lemma complete_update_ok: "\<exists>res s'. complete_update tools v target new_sha old_ref old_sha s = (Inr res, s') \<and> ur_ok res"
proof -
  obtain s1 where s1: "note_state tools target new_sha old_ref old_sha s = (Inr (), s1)" using note_state_done by blast
  obtain x s2 where "get_version tools s1 = (Inr x, s2)" using get_version_done by blast
  then show ?thesis by (simp add: complete_update_def and_then_def s1)
qed

lemma install_phase_failed:
  assumes "git_law tools head" "programs_run tools" "old_sha = [] \<or> commit_id old_sha"
    and "install_phase tools v target new_sha old_ref old_sha s = (q, s')" "\<And>res. q = Inr res \<Longrightarrow> \<not> ur_ok res"
  shows "(\<exists>res. q = Inr res \<and> ur_steps res = il_steps s') \<and>
    (new_sha = old_sha \<and> head (il_repo s') = head (il_repo s) \<or> old_sha \<noteq> [] \<and> head (il_repo s') = old_sha \<or> restore_failed (il_steps s'))"
proof -
  obtain rc out err s1 where p: "pip_install tools s = (Inr (rc, out, err), s1)" by (rule pip_runs [OF assms(2)])
  note same = staysD [OF pip_stays [OF assms(1)] p]
  define s2 where "s2 = s1\<lparr>il_steps := il_steps s1 @ [(''pip_install'', rc = 0, if rc \<noteq> 0 then take 200 (strip err) else ''ok'')]\<rparr>"
  have run: "(if rc \<noteq> 0
       then and_then (if new_sha \<noteq> old_sha then restore tools old_sha old_ref else give ()) (\<lambda>_.
              fail_with v (Some (''pip install failed: '' @ take 200 (strip err))))
       else complete_update tools v target new_sha old_ref old_sha) s2 = (q, s')"
    using assms(4) by (simp add: install_phase_def and_then_def [of "pip_install tools"] p s2_def)
  have rc: "rc \<noteq> 0"
  proof
    assume "rc = 0"
    then have "complete_update tools v target new_sha old_ref old_sha s2 = (q, s')" using run by simp
    then show False using complete_update_ok [of tools v target new_sha old_ref old_sha s2] assms(5) by auto
  qed
  have h: "head (il_repo s2) = head (il_repo s)" using same by (simp add: s2_def unmoved_def)
  show ?thesis
  proof (cases "new_sha = old_sha")
    case True
    then show ?thesis using run rc h by (auto simp: and_then_def give_def fail_with_def)
  next
    case False
    obtain s3 where s3: "restore tools old_sha old_ref s2 = (Inr (), s3)" "old_sha \<noteq> [] \<and> head (il_repo s3) = old_sha \<or> restore_failed (il_steps s3)"
      by (rule restore_reports [OF assms(1-3)])
    then show ?thesis using run rc False by (auto simp: and_then_def s3(1) fail_with_def)
  qed
qed

lemma fail_with_simp [simp]: "fail_with v e s = (Inr \<lparr>ur_ok = False, ur_old_version = v, ur_new_version = None, ur_error = e, ur_steps = il_steps s\<rparr>, s)"
  by (simp add: fail_with_def)

lemma update_body_failed:
  assumes "git_law tools head" "programs_run tools"
    and "update_body tools repr v s = (q, s')" "\<And>res. q = Inr res \<Longrightarrow> \<not> ur_ok res"
  shows "(head (il_repo s') = head (il_repo s) \<or> restore_failed (il_steps s')) \<and> (\<forall>res. q = Inr res \<longrightarrow> ur_steps res = il_steps s')"
proof (cases "resolve_target tools repr None")
  case (Inl e)
  then show ?thesis using assms(3) by (cases e) (auto simp: update_body_def raise_def)
next
  case (Inr tw)
  obtain target w where t: "resolve_target tools repr None = Inr (target, w)" using Inr by (cases tw) simp
  define s1 where "s1 = s\<lparr>il_steps := il_steps s @ [(''resolve'', True, case w of None \<Rightarrow> target | Some w \<Rightarrow> w)]\<rparr>"
  obtain r1 s2 where r1: "head_sha tools s1 = (r1, s2)" by fastforce
  have h2: "head (il_repo s2) = head (il_repo s)" using staysD [OF head_sha_stays [OF assms(1)] r1] by (simp add: unmoved_def s1_def)
  note body = assms(3) [unfolded update_body_def t, simplified, folded s1_def]
  show ?thesis
  proof (cases r1)
    case (Inl e)
    then show ?thesis using body h2 by (auto simp: and_then_def r1)
  next
    case (Inr old_sha)
    have old: "old_sha = [] \<or> old_sha = head (il_repo s) \<and> commit_id old_sha"
      using head_sha_known [OF assms(1), of s1 old_sha s2] r1 Inr by (simp add: s1_def)
    obtain r2 s3 where r2: "current_ref_name tools s2 = (r2, s3)" by fastforce
    have h3: "head (il_repo s3) = head (il_repo s)" using staysD [OF current_ref_name_stays [OF assms(1)] r2] h2 by (simp add: unmoved_def)
    show ?thesis
    proof (cases r2)
      case (Inl e)
      then show ?thesis using body h3 \<open>r1 = Inr old_sha\<close> by (auto simp: and_then_def r1 r2)
    next
      case (Inr old_ref)
      obtain r3 s4 where r3: "move_to tools repr target old_sha s3 = (r3, s4)" by fastforce
      show ?thesis
      proof (cases r3)
        case (Inl e)
        have "head (il_repo s4) = head (il_repo s)" using move_to_failed [OF assms(1,2), of repr target old_sha s3 e s4] r3 Inl h3 by simp
        then show ?thesis using body \<open>r1 = Inr old_sha\<close> \<open>r2 = Inr old_ref\<close> Inl
          by (cases e) (auto simp: and_then_def caught_def raise_def after_move_def r1 r2 r3)
      next
        case (Inr new_sha)
        define s5 where "s5 = s4\<lparr>il_steps := il_steps s4 @ [(''git_checkout'', True,
            if new_sha = old_sha then ''already at '' @ target else old_ref @ '' -> '' @ target)]\<rparr>"
        have i: "install_phase tools v target new_sha old_ref old_sha s5 = (q, s')"
          using body \<open>r1 = Inr old_sha\<close> \<open>r2 = Inr old_ref\<close> Inr by (simp add: and_then_def caught_def after_move_def r1 r2 r3 s5_def)
        have m: "move_to tools repr target old_sha s3 = (Inr new_sha, s4)" using r3 Inr by simp
        have h5: "new_sha = old_sha \<Longrightarrow> head (il_repo s5) = head (il_repo s)"
          using move_to_done [OF assms(1) m] h3 by (simp add: s5_def)
        have id: "old_sha = [] \<or> commit_id old_sha" using old by blast
        show ?thesis using install_phase_failed [OF assms(1,2) id i assms(4)] h5 old by auto
      qed
    qed
  qed
qed

text \<open>C17: an update that fails leaves the checkout on the commit it was on, or its report says that restoring it
  failed - as long as git and pip can be started and git ends in time.\<close>

theorem update_restores:
  assumes "git_law tools head" "programs_run tools"
    and "run_update tools repr v s = (res, s')" "\<not> ur_ok res"
  shows "head (il_repo s') = head (il_repo s) \<or> restore_failed (ur_steps res)"
proof -
  obtain q s1 where q: "update_body tools repr v (s\<lparr>il_steps := []\<rparr>) = (q, s1)" by fastforce
  have n: "\<And>r. q = Inr r \<Longrightarrow> \<not> ur_ok r" and s': "s' = s1" using assms(3,4) q by (auto simp: run_update_def split: sum.splits)
  from update_body_failed [OF assms(1,2) q n] show ?thesis
    using assms(3) q s' by (auto simp: run_update_def split: sum.splits)
qed

subsection \<open>An update that succeeds\<close>

lemma first_name_line:
  "git_law tools head \<Longrightarrow> \<forall>args \<in> set names. hd args \<in> {''describe'', ''symbolic-ref''} \<Longrightarrow> line_ok (take 12 sha) \<Longrightarrow>
   first_name tools sha names s = (Inr ref, s') \<Longrightarrow> line_ok ref"
proof (induction names arbitrary: s)
  case Nil
  have "line_ok ''unknown''" by (simp add: line_ok_def str_space_def is_space_def)
  then show ?case using Nil.prems(3,4) by (auto simp: give_def split: if_splits)
next
  case (Cons args names)
  obtain rc out err s1 where g: "git tools args s = (Inr (rc, out, err), s1)"
    and r: "(if rc = 0 \<and> strip out \<noteq> [] then give (strip out) else first_name tools sha names) s1 = (Inr ref, s')"
    using Cons.prems(4) by (auto simp: and_then_Inr)
  show ?case
  proof (cases "rc = 0 \<and> strip out \<noteq> []")
    case True
    then have "single_line out" using git_lawD(5) [OF Cons.prems(1), of args "il_repo s" out err] git_Inr [OF g] Cons.prems(2) by simp
    then have "line_ok (strip out)" unfolding single_line_def by (rule strip_line_ok)
    then show ?thesis using r True by (simp add: give_def)
  next
    case False
    then show ?thesis using Cons.IH [OF Cons.prems(1) _ Cons.prems(3)] Cons.prems(2) r by auto
  qed
qed

lemma id_prefix_line:
  assumes "sha = [] \<or> commit_id sha"
  shows "line_ok (take n sha)"
proof (rule clean_line, rule ballI)
  fix c assume "c \<in> set (take n sha)"
  then have "c \<in> set sha" by (rule in_set_takeD)
  then have "digit_val c \<noteq> None \<or> c \<in> set ''abcdef''" using assms by (auto simp only: commit_id_def list_all_iff list.set)
  then show "c \<noteq> CHR 0x0A \<and> c \<noteq> CHR 0x0D \<and> \<not> str_space c" by (rule id_char_ok)
qed

lemma current_ref_line:
  assumes "git_law tools head" "current_ref_name tools s = (Inr ref, s')"
  shows "line_ok ref"
proof -
  obtain sha s1 where h: "head_sha tools s = (Inr sha, s1)"
    and r: "(case read_state (il_state s1) of
         Inl e \<Rightarrow> (Inl e, s1)
       | Inr st \<Rightarrow>
           (if sha \<noteq> [] \<and> dget st ''current_sha'' = Some sha \<and> dget_or st ''current_ref'' [] \<noteq> []
            then give (dget_or st ''current_ref'' []) s1
            else first_name tools sha [[''describe'', ''--tags'', ''--exact-match'', ''HEAD''],
                                       [''symbolic-ref'', ''--short'', ''-q'', ''HEAD'']] s1)) = (Inr ref, s')"
    using assms(2) unfolding current_ref_name_def and_then_Inr by blast
  have p: "line_ok (take 12 sha)" using head_sha_known [OF assms(1) h] by (intro id_prefix_line) blast
  obtain st where st: "read_state (il_state s1) = Inr st" using r by (cases "read_state (il_state s1)") auto
  show ?thesis
  proof (cases "sha \<noteq> [] \<and> dget st ''current_sha'' = Some sha \<and> dget_or st ''current_ref'' [] \<noteq> []")
    case True
    then have "dget st ''current_ref'' = Some ref" using r st by (auto simp: give_def dget_or_def split: option.splits)
    then show ?thesis by (rule read_state_ok [OF st])
  next
    case False
    then have f: "first_name tools sha [[''describe'', ''--tags'', ''--exact-match'', ''HEAD''],
                                       [''symbolic-ref'', ''--short'', ''-q'', ''HEAD'']] s1 = (Inr ref, s')"
      using r by (simp only: st sum.case if_not_P [OF False] if_False)
    show ?thesis by (rule first_name_line [OF assms(1) _ p f]) simp
  qed
qed

definition way_back :: "state_file \<Rightarrow> string \<Rightarrow> string \<Rightarrow> bool" where
  "way_back f current previous \<longleftrightarrow>
     (\<exists>st. read_state f = Inr st \<and> dget st ''current_sha'' = Some current \<and> dget st ''previous_sha'' = Some previous)"

lemma complete_update_notes:
  assumes "git_law tools head" "to_write_error tools = None" "new_sha \<noteq> old_sha"
    and "line_ok target" "line_ok new_sha" "line_ok old_ref" "line_ok old_sha"
    and "complete_update tools v target new_sha old_ref old_sha s = (Inr res, s')"
  shows "way_back (il_state s') new_sha old_sha \<and> head (il_repo s') = head (il_repo s)"
proof -
  define s1 where "s1 = s\<lparr>il_state := Content (state_text target new_sha old_ref old_sha)\<rparr>"
  have n: "note_state tools target new_sha old_ref old_sha s = (Inr (), s1)"
    using assms(2,3) by (simp add: note_state_def and_then_def caught_def write_state_def give_def s1_def)
  obtain x s2 where g: "get_version tools s1 = (Inr x, s2)" using get_version_done by blast
  have s': "il_state s' = il_state s2 \<and> il_repo s' = il_repo s2" using assms(8) by (auto simp: complete_update_def and_then_def n g)
  have "unmoved head s1 s2" by (rule staysD [OF get_version_stays [OF assms(1)] g])
  then show ?thesis using s' state_text_reads [OF assms(4-7)] by (simp add: unmoved_def s1_def way_back_def)
qed

lemma complete_update_head:
  assumes "git_law tools head" "complete_update tools v target new_sha old_ref old_sha s = (Inr res, s')"
  shows "head (il_repo s') = head (il_repo s)"
proof -
  obtain s1 where n: "note_state tools target new_sha old_ref old_sha s = (Inr (), s1)" using note_state_done by blast
  have "il_repo s1 = il_repo s"
    using n by (auto simp: note_state_def and_then_def caught_def write_state_def give_def split: if_splits option.splits)
  moreover obtain x s2 where g: "get_version tools s1 = (Inr x, s2)" using get_version_done by blast
  moreover have "unmoved head s1 s2" by (rule staysD [OF get_version_stays [OF assms(1)] g])
  moreover have "il_repo s' = il_repo s2" using assms(2) by (auto simp: complete_update_def and_then_def n g)
  ultimately show ?thesis by (simp add: unmoved_def)
qed

lemma install_phase_ok:
  assumes "git_law tools head" "install_phase tools v target new_sha old_ref old_sha s = (Inr res, s')" "ur_ok res"
  shows "\<exists>t. complete_update tools v target new_sha old_ref old_sha t = (Inr res, s') \<and> head (il_repo t) = head (il_repo s)"
proof -
  obtain q s1 where q: "pip_install tools s = (q, s1)" by fastforce
  then obtain rc out err where p: "pip_install tools s = (Inr (rc, out, err), s1)"
    using assms(2) by (cases q) (auto simp: install_phase_def and_then_def)
  define s2 where "s2 = s1\<lparr>il_steps := il_steps s1 @ [(''pip_install'', rc = 0, if rc \<noteq> 0 then take 200 (strip err) else ''ok'')]\<rparr>"
  have run: "(if rc \<noteq> 0
       then and_then (if new_sha \<noteq> old_sha then restore tools old_sha old_ref else give ()) (\<lambda>_.
              fail_with v (Some (''pip install failed: '' @ take 200 (strip err))))
       else complete_update tools v target new_sha old_ref old_sha) s2 = (Inr res, s')"
    using assms(2) by (simp add: install_phase_def and_then_def [of "pip_install tools"] p s2_def)
  have "rc = 0"
  proof (rule ccontr)
    assume "rc \<noteq> 0"
    then have "\<not> ur_ok res" using run by (auto simp: and_then_Inr)
    then show False using assms(3) by simp
  qed
  then show ?thesis using run staysD [OF pip_stays [OF assms(1)] p] by (intro exI [of _ s2]) (simp add: unmoved_def s2_def)
qed

text \<open>C30: after an update that succeeded and moved the checkout, the state file names the commit that is checked
  out now and, as the previous one, the commit that was checked out before: a rollback finds its way.  This
  is so when the state file can be written (the update succeeds without it too) and the first question of the
  update for the commit checked out, \<open>git rev-parse HEAD\<close>, is answered (otherwise it notes an empty one).\<close>

theorem update_keeps_way_back:
  assumes "git_law tools head" "to_write_error tools = None"
    and "run_update tools repr v s = (res, s')" "ur_ok res" "head (il_repo s') \<noteq> head (il_repo s)"
    and "\<exists>out err. fst (to_git tools (il_repo s) [''rev-parse'', ''HEAD'']) = Completed 0 out err"
  shows "way_back (il_state s') (head (il_repo s')) (head (il_repo s))"
proof -
  have b: "update_body tools repr v (s\<lparr>il_steps := []\<rparr>) = (Inr res, s')"
    using assms(3,4) by (auto simp: run_update_def split: sum.splits prod.splits)
  then obtain target w where t: "resolve_target tools repr None = Inr (target, w)"
    by (auto simp: update_body_def raise_def split: sum.splits failure.splits) (use assms(4) in auto)
  define s1 where "s1 = s\<lparr>il_steps := [(''resolve'', True, case w of None \<Rightarrow> target | Some w \<Rightarrow> w)]\<rparr>"
  obtain old_sha s2 old_ref s3 r s4 where r1: "head_sha tools s1 = (Inr old_sha, s2)" and r2: "current_ref_name tools s2 = (Inr old_ref, s3)"
    and r3: "move_to tools repr target old_sha s3 = (r, s4)" and m: "after_move tools v target old_ref old_sha r s4 = (Inr res, s')"
    using b unfolding update_body_def t
    by (auto simp: and_then_Inr caught_def s1_def split: prod.splits) (metis prod.exhaust)
  obtain new_sha where n: "r = Inr new_sha"
    using m assms(4) by (cases r) (auto simp: after_move_def raise_def split: failure.splits)
  define s5 where "s5 = s4\<lparr>il_steps := il_steps s4 @ [(''git_checkout'', True,
      if new_sha = old_sha then ''already at '' @ target else old_ref @ '' -> '' @ target)]\<rparr>"
  have i: "install_phase tools v target new_sha old_ref old_sha s5 = (Inr res, s')"
    using m by (simp add: after_move_def n s5_def)
  have h3: "head (il_repo s3) = head (il_repo s)"
    using staysD [OF head_sha_stays [OF assms(1)] r1] staysD [OF current_ref_name_stays [OF assms(1)] r2] by (simp add: unmoved_def s1_def)
  have old: "old_sha = head (il_repo s) \<and> commit_id old_sha"
  proof -
    obtain out err where "fst (to_git tools (il_repo s) [''rev-parse'', ''HEAD'']) = Completed 0 out err" using assms(6) by blast
    note k = this git_lawD(3) [OF assms(1) this]
    have "old_sha = strip out"
      using r1 k(1) by (cases "to_git tools (il_repo s) [''rev-parse'', ''HEAD'']") (auto simp: head_sha_def and_then_def git_def finish_run_def give_def s1_def)
    then show ?thesis using k(2) by simp
  qed
  note md = move_to_done [OF assms(1) r3 [unfolded n]]
  obtain s6 where c: "complete_update tools v target new_sha old_ref old_sha s6 = (Inr res, s')" and h6: "head (il_repo s6) = head (il_repo s5)"
    using install_phase_ok [OF assms(1) i assms(4)] by blast
  have ne: "new_sha \<noteq> old_sha"
  proof
    assume "new_sha = old_sha"
    then have "head (il_repo s5) = head (il_repo s)" using md h3 by (simp add: s5_def)
    moreover have "head (il_repo s') = head (il_repo s6)" using complete_update_head [OF assms(1) c] .
    ultimately show False using assms(5) h6 by simp
  qed
  have "way_back (il_state s') new_sha old_sha \<and> head (il_repo s') = head (il_repo s6)"
    by (rule complete_update_notes [OF assms(1,2) ne ref_line_ok [OF target_valid [OF t]] commit_line_ok current_ref_line [OF assms(1) r2] commit_line_ok c])
      (use md old in auto)
  then show ?thesis using md ne h6 old by (simp add: s5_def)
qed

text \<open>What \<open>write_state\<close> writes reads back: single lines without trailing space.\<close>

theorem state_file_roundtrip:
  assumes "line_ok a" "line_ok b" "line_ok c" "line_ok d" "write_state tools a b c d s = (Inr u, s')"
  shows "read_state (il_state s') = Inr [(''current_ref'', a), (''current_sha'', b), (''previous_ref'', c), (''previous_sha'', d)]"
  using state_text_reads [OF assms(1-4)] assms(5) by (auto simp: write_state_def split: option.splits)

subsection \<open>A checkout of two commits\<close>

definition commit_of :: "bool \<Rightarrow> string" where
  "commit_of new = (if new then ''b2'' else ''a1'')"

definition demo_git :: "bool \<Rightarrow> string list \<Rightarrow> run_outcome \<times> bool" where
  "demo_git r args =
     (if args = [''rev-parse'', ''HEAD''] then (Completed 0 (commit_of r @ NL) [], r)
      else if hd args = ''rev-parse'' then (Completed 0 (''b2'' @ NL) [], r)
      else if args = checkout_args ''a1'' then (Completed 0 [] [], False)
      else if args = checkout_args ''b2'' then (Completed 0 [] [], True)
      else if hd args = ''-c'' then (Completed 1 [] [], r)
      else (Completed 0 (commit_of r @ NL) [], r))"

definition demo_tools :: "run_outcome \<Rightarrow> bool tools" where
  "demo_tools new_install =
     \<lparr>to_git = demo_git, to_pip = (\<lambda>r. (if r then new_install else Completed 0 [] [], r)),
      to_reply = Reply (JObj [(''tag_name'', JStr ''v2'')]), to_repr = (\<lambda>_. []), to_write_error = None\<rparr>"

definition demo_install :: "bool install" where
  "demo_install = \<lparr>il_repo = False, il_state = No_File, il_steps = [], il_restart = False\<rparr>"

lemma strip_commit: "strip (commit_of r @ NL) = commit_of r" "strip (''b2'' @ NL) = ''b2''"
  by (cases r) (simp_all add: commit_of_def NL_def strip_def str_space_def is_space_def)

lemma demo_law: "git_law (demo_tools p) commit_of"
proof -
  have id: "commit_id (commit_of r)" "no_break (commit_of r)" for r
    by (cases r; simp add: commit_of_def commit_id_def no_break_def digit_val_def)+
  have inj: "checkout_args x = checkout_args y \<longleftrightarrow> x = y" for x y by (simp add: checkout_args_def)
  have h: "checkout_args sha \<noteq> [''rev-parse'', ''HEAD'']" "hd (checkout_args sha) = ''-c''" "''-c'' \<noteq> ''rev-parse''" for sha
    by (simp_all add: checkout_args_def)
  have c: "demo_git r (checkout_args sha) = (if sha = ''a1'' then (Completed 0 [] [], False) else if sha = ''b2'' then (Completed 0 [] [], True) else (Completed 1 [] [], r))" for r sha
    by (simp only: demo_git_def inj h if_False if_True simp_thms)
  have s: "snd (demo_git r args) = r" if n: "\<And>sha. args \<noteq> checkout_args sha" for r args
  proof -
    have "demo_git r args = (if args = [''rev-parse'', ''HEAD''] then (Completed 0 (commit_of r @ NL) [], r)
      else if hd args = ''rev-parse'' then (Completed 0 (''b2'' @ NL) [], r)
      else if hd args = ''-c'' then (Completed 1 [] [], r)
      else (Completed 0 (commit_of r @ NL) [], r))"
      unfolding demo_git_def if_not_P [OF n [of "''a1''"]] if_not_P [OF n [of "''b2''"]] by (rule refl)
    then show ?thesis by (simp only: if_distrib [of snd] snd_conv if_cancel)
  qed
  have "commit_of (snd (demo_git r args)) = commit_of r" if "\<And>sha. args \<noteq> checkout_args sha" for r args
    using s [OF that] by simp
  moreover have "commit_of (snd (demo_git r (checkout_args sha))) = (if rc = 0 then sha else commit_of r)"
    if "fst (demo_git r (checkout_args sha)) = Completed rc out err" for r sha rc out err
    using that by (auto simp: c commit_of_def split: if_splits)
  moreover have "strip out = commit_of r \<and> commit_id (commit_of r)"
    if "fst (demo_git r [''rev-parse'', ''HEAD'']) = Completed 0 out err" for r out err
    using that id strip_commit by (auto simp: demo_git_def)
  moreover have "commit_id (strip out)" if "fst (demo_git r [''rev-parse'', ''--verify'', ''-q'', x]) = Completed 0 out err" for r x out err
    using that id(1) [of True] strip_commit(2) by (auto simp: demo_git_def commit_of_def)
  moreover have "single_line out" if "hd args \<in> {''describe'', ''symbolic-ref''}" "fst (demo_git r args) = Completed 0 out err" for r args out err
  proof -
    have "args \<noteq> checkout_args sha" "args \<noteq> [''rev-parse'', ''HEAD'']" for sha using that(1) by (auto simp: checkout_args_def)
    then have "out = commit_of r @ NL" using that by (auto simp: demo_git_def)
    then show ?thesis using id strip_commit by (simp add: single_line_def)
  qed
  ultimately show ?thesis unfolding git_law_def demo_tools_def by simp
qed

lemma demo_runs: "programs_run (demo_tools (Completed rc out err))"
  by (auto simp: programs_run_def demo_tools_def demo_git_def)

theorem update_restores_witness:
  "\<not> ur_ok (fst (run_update (demo_tools (Completed 1 [] ''broken'')) id ''1'' demo_install)) \<and>
   commit_of (il_repo (snd (run_update (demo_tools (Completed 1 [] ''broken'')) id ''1'' demo_install))) = ''a1''"
proof -
  let ?run = "run_update (demo_tools (Completed 1 [] ''broken'')) id ''1'' demo_install"
  have f: "\<not> ur_ok (fst ?run)" "\<not> list_ex (\<lambda>(n, ok, _). n = ''restore'' \<and> \<not> ok) (ur_steps (fst ?run))" by code_simp+
  have "commit_of (il_repo (snd ?run)) = commit_of (il_repo demo_install) \<or> restore_failed (ur_steps (fst ?run))"
    by (rule update_restores [OF demo_law demo_runs surjective_pairing f(1)])
  then show ?thesis using f by (auto simp: restore_failed_def list_ex_iff demo_install_def commit_of_def)
qed

theorem update_keeps_way_back_witness:
  "way_back (il_state (snd (run_update (demo_tools (Completed 0 [] [])) id ''1'' demo_install))) ''b2'' ''a1''"
proof -
  let ?run = "run_update (demo_tools (Completed 0 [] [])) id ''1'' demo_install"
  have f: "ur_ok (fst ?run)" "il_repo (snd ?run)" by code_simp+
  have n: "commit_of (il_repo (snd ?run)) \<noteq> commit_of (il_repo demo_install)"
    using f(2) by (simp add: commit_of_def demo_install_def)
  have h: "\<exists>out err. fst (to_git (demo_tools (Completed 0 [] [])) (il_repo demo_install) [''rev-parse'', ''HEAD'']) = Completed 0 out err"
    by (simp add: demo_tools_def demo_git_def)
  have w: "to_write_error (demo_tools (Completed 0 [] [])) = None" by (simp add: demo_tools_def)
  show ?thesis using update_keeps_way_back [OF demo_law w surjective_pairing f(1) n h] f(2) by (simp add: commit_of_def demo_install_def)
qed

theorem state_file_roundtrip_witness:
  "read_state (il_state (snd (write_state (demo_tools (Completed 0 [] [])) ''v2'' ''b2'' ''main'' ''a1'' demo_install))) =
     Inr [(''current_ref'', ''v2''), (''current_sha'', ''b2''), (''previous_ref'', ''main''), (''previous_sha'', ''a1'')]"
proof -
  let ?run = "write_state (demo_tools (Completed 0 [] [])) ''v2'' ''b2'' ''main'' ''a1'' demo_install"
  have r: "?run = (Inr (), snd ?run)" by (simp add: write_state_def demo_tools_def)
  have l: "line_ok ''v2''" "line_ok ''b2''" "line_ok ''main''" "line_ok ''a1''"
    by (simp_all add: line_ok_def str_space_def is_space_def)
  show ?thesis by (rule state_file_roundtrip [OF l r])
qed

text \<open>When pip cannot be started the exception passes by the restoring: the new commit stays_put checked out.\<close>

lemma pip_missing_strands:
  "let (res, s') = run_update (demo_tools (Not_Run ''pip'')) id ''1'' demo_install
   in \<not> ur_ok res \<and> commit_of (il_repo s') = ''b2'' \<and> ur_steps res = [(''resolve'', True, ''v2''), (''git_checkout'', True, ''a1 -> v2'')]"
  by code_simp

end
