(* ===== verification/Gateway_Config.thy ===== *)
theory Gateway_Config
  imports Lint
begin

section \<open>Configuration (\<open>gateway/configure.py\<close>, \<open>load_config\<close> of \<open>gateway/server.py\<close>)\<close>

text \<open>
  The set-up wizard asks for the settings of an instance, checks that no other instance uses its ports and writes
  a file; \<open>load_config\<close> reads the file when the gateway starts.

  A file is the tree its YAML text stands for, or broken; the directory of the instances is a dictionary.  What the
  user types is a list of lines; when it ends, \<open>input\<close> raises \<open>EOFError\<close>.  \<open>str_of\<close> is \<open>str\<close> of a YAML value.  The
  random key, the serial ports found and an INI section are arguments.  What is printed is left out, and so
  are the tests of the serial port and the calls of systemd, whose results the wizard only prints.

  Lemmas: what is typed is what the gateway loads, with settings in range; no two instances are loaded with
  the same serial port or WebSocket port, as long as every file names both.
\<close>

subsection \<open>Loading\<close>

definition get_or :: "json \<Rightarrow> string \<Rightarrow> json \<Rightarrow> json res" where  \<comment> \<open>\<open>x.get(key, default)\<close>\<close>
  "get_or j k dflt = (case j of JObj d \<Rightarrow> Inr (dget_or d k dflt) | _ \<Rightarrow> Inl AttributeError)"

definition or_empty_tree :: "json \<Rightarrow> json" where  \<comment> \<open>\<open>yaml.safe_load(f) or {}\<close>\<close>
  "or_empty_tree j = (if tree_truthy j then j else JObj [])"

definition CONFIG_DEFAULTS :: "(string, json) dict" where
  "CONFIG_DEFAULTS =
     [(''psk'', JStr []), (''uart_port'', JStr ''/dev/serial0''), (''uart_baud'', JInt 9600),
      (''ws_host'', JStr ''0.0.0.0''), (''ws_port'', JInt 8765), (''max_queue'', JInt 16),
      (''frame_spacing_ms'', JInt 150), (''stats_interval'', JInt 60), (''fake_ip'', JStr ''192.168.1.100''),
      (''signal_level'', JInt 4), (''log_level'', JStr ''INFO''), (''device_name'', JStr ''Midea AC''),
      (''allow_remote_update'', JBool True), (''debug_ring_enabled'', JBool True),
      (''debug_ring_size_mb'', JInt 5), (''slot_pool_size'', JInt 8)]"

text \<open>The keys of the legacy INI section, whether they are numbers, and their defaults.\<close>

definition LEGACY_KEYS :: "(string \<times> bool \<times> string) list" where
  "LEGACY_KEYS =
     [(''psk'', False, []), (''uart_port'', False, ''/dev/serial0''), (''uart_baud'', True, ''9600''),
      (''ws_host'', False, ''0.0.0.0''), (''ws_port'', True, ''8765''), (''max_queue'', True, ''8''),
      (''frame_spacing_ms'', True, ''150''), (''stats_interval'', True, ''60''), (''fake_ip'', False, ''192.168.1.100''),
      (''signal_level'', True, ''4''), (''log_level'', False, ''INFO'')]"

definition legacy_entry :: "(string, string) dict \<Rightarrow> string \<times> bool \<times> string \<Rightarrow> (string \<times> json) res" where
  "legacy_entry sec key =
     (case key of (k, number, dflt) \<Rightarrow>
        if number then bind_res (int_of_str (dget_or sec k dflt)) (\<lambda>i. Inr (k, JInt i))
        else Inr (k, JStr (dget_or sec k dflt)))"

definition legacy_config :: "(string, string) dict \<Rightarrow> (string, json) dict res" where
  "legacy_config sec = bind_res (map_res (legacy_entry sec) LEGACY_KEYS) (\<lambda>es. Inr (dupdate CONFIG_DEFAULTS es))"

definition global_config :: "json option \<Rightarrow> (string, json) dict \<Rightarrow> (string, json) dict res" where
  "global_config doc cfg =
     (case doc of
        None \<Rightarrow> Inr cfg
      | Some doc \<Rightarrow>
          let g = or_empty_tree doc
          in bind_res (get_or g ''logging'' (JObj [])) (\<lambda>logging.
             bind_res (get_or logging ''level'' (JStr ''INFO'')) (\<lambda>level.
             bind_res (get_or g ''allow_remote_update'' JNull) (\<lambda>allow.
               Inr (if (case g of JObj d \<Rightarrow> has_key d ''allow_remote_update'' | _ \<Rightarrow> False)
                    then dset ''allow_remote_update'' (JBool (tree_truthy allow)) (dset ''log_level'' level cfg)
                    else dset ''log_level'' level cfg)))))"

definition TUNING_KEYS :: "string list" where
  "TUNING_KEYS =
     [''mirror_tx_gateway'', ''mirror_tx_all'', ''debug_ring_enabled'', ''debug_ring_size_mb'', ''slot_pool_size'', ''max_queue'',
      ''frame_spacing_ms'', ''stats_interval'', ''fake_ip'', ''signal_level'', ''allow_remote_update'']"

definition pass_through :: "json \<Rightarrow> (string, json) dict \<Rightarrow> (string, json) dict" where
  "pass_through inst cfg =
     fold (\<lambda>k cfg. case inst of JObj d \<Rightarrow> (case dget d k of Some v \<Rightarrow> dset k v cfg | None \<Rightarrow> cfg) | _ \<Rightarrow> cfg) TUNING_KEYS cfg"

definition instance_config :: "json option \<Rightarrow> (string, json) dict \<Rightarrow> (string, json) dict res" where
  "instance_config doc cfg =
     (case doc of
        None \<Rightarrow> Inr cfg
      | Some doc \<Rightarrow>
          let inst = or_empty_tree doc
          in bind_res (get_or inst ''device'' (JObj [])) (\<lambda>device.
             bind_res (get_or inst ''websocket'' (JObj [])) (\<lambda>ws.
             bind_res (get_or inst ''security'' (JObj [])) (\<lambda>sec.
             bind_res (get_or sec ''psk'' (JStr [])) (\<lambda>psk.
             bind_res (get_or device ''serial_port'' (JStr ''/dev/serial0'')) (\<lambda>uart_port.
             bind_res (get_or device ''baud_rate'' (JInt 9600)) (\<lambda>baud.
             bind_res (get_or ws ''host'' (JStr ''0.0.0.0'')) (\<lambda>host.
             bind_res (get_or ws ''port'' (JInt 8765)) (\<lambda>port.
             bind_res (get_or device ''name'' (JStr ''Midea AC'')) (\<lambda>name.
               Inr (pass_through inst (dupdate cfg
                 [(''psk'', psk), (''uart_port'', uart_port), (''uart_baud'', baud), (''ws_host'', host), (''ws_port'', port),
                  (''device_name'', name)]))))))))))))"

text \<open>The trees of the two YAML files, \<open>None\<close> where there is none, and the legacy section when a legacy file is given.\<close>

definition load_config :: "json option \<Rightarrow> json option \<Rightarrow> (string, string) dict option \<Rightarrow> (string, json) dict res" where
  "load_config global_doc instance_doc legacy =
     (case legacy of
        Some sec \<Rightarrow> legacy_config sec
      | None \<Rightarrow> bind_res (global_config global_doc CONFIG_DEFAULTS) (instance_config instance_doc))"

subsection \<open>The console\<close>

datatype setup_fault = Fault py_error | Yaml_Fault | Eof

type_synonym 'a reply = "setup_fault + 'a \<times> string list"

definition bind_in :: "'a reply \<Rightarrow> ('a \<Rightarrow> string list \<Rightarrow> 'b reply) \<Rightarrow> 'b reply" where
  "bind_in m f = (case m of Inl e \<Rightarrow> Inl e | Inr (x, rest) \<Rightarrow> f x rest)"

definition lift_in :: "'a res \<Rightarrow> string list \<Rightarrow> 'a reply" where
  "lift_in r answers = (case r of Inl e \<Rightarrow> Inl (Fault e) | Inr x \<Rightarrow> Inr (x, answers))"

definition input_line :: "string list \<Rightarrow> string reply" where
  "input_line answers = (case answers of [] \<Rightarrow> Inl Eof | x # rest \<Rightarrow> Inr (strip x, rest))"

text \<open>A validator accepts, rejects, or asks for a confirmation first.\<close>

datatype 'a verdict = Accept 'a | Reject | Confirm 'a

definition entered :: "string option \<Rightarrow> string \<Rightarrow> string" where
  "entered dflt raw = (case dflt of Some (c # cs) \<Rightarrow> (if raw = [] then c # cs else raw) | _ \<Rightarrow> raw)"

fun ask :: "string option \<Rightarrow> (string \<Rightarrow> 'a verdict) \<Rightarrow> string list \<Rightarrow> 'a reply" where
  "ask dflt validator [] = Inl Eof"
| "ask dflt validator (x # rest) =
     (case validator (entered dflt (strip x)) of
        Accept v \<Rightarrow> Inr (v, rest)
      | Reject \<Rightarrow> ask dflt validator rest
      | Confirm v \<Rightarrow>
          (case rest of
             [] \<Rightarrow> Inl Eof
           | y # rest' \<Rightarrow> (if lower (strip y) = ''y'' then Inr (v, rest') else ask dflt validator rest')))"

fun pick_port :: "json list \<Rightarrow> string list \<Rightarrow> json reply" where
  "pick_port ports [] = Inl Eof"
| "pick_port ports (x # rest) =
     (case int_of_str (if strip x = [] then ''1'' else strip x) of
        Inr idx \<Rightarrow>
          (if 1 \<le> idx \<and> idx \<le> int (length ports) then Inr (ports ! nat (idx - 1), rest)
           else if idx = int (length ports) + 1 then bind_in (input_line rest) (\<lambda>s rest'. Inr (JStr s, rest'))
           else pick_port ports rest)
      | Inl _ \<Rightarrow> pick_port ports rest)"

definition ask_serial_port :: "json list \<Rightarrow> string list \<Rightarrow> json reply" where
  "ask_serial_port ports answers =
     (if ports \<noteq> [] then pick_port ports answers else bind_in (input_line answers) (\<lambda>s rest. Inr (JStr s, rest)))"

subsection \<open>Keys, names and ports\<close>

definition PSK_ALPHABET :: string where
  "PSK_ALPHABET = ''abcdefghijklmnopqrstuvwxyzABCDEFGHIJKLMNOPQRSTUVWXYZ0123456789''"

definition PSK_LENGTH :: nat where "PSK_LENGTH = 44"

definition PSK_MIN_LENGTH :: nat where "PSK_MIN_LENGTH = 12"

definition generate_psk :: "(nat \<Rightarrow> nat) \<Rightarrow> string" where  \<comment> \<open>the random choices\<close>
  "generate_psk choice = map (\<lambda>i. PSK_ALPHABET ! (choice i mod length PSK_ALPHABET)) [0..<PSK_LENGTH]"

definition tree_len :: "json \<Rightarrow> nat res" where
  "tree_len j = (case j of JStr s \<Rightarrow> Inr (length s) | JList xs \<Rightarrow> Inr (length xs) | JObj d \<Rightarrow> Inr (length d) | _ \<Rightarrow> Inl TypeError)"

definition validate_psk :: "json \<Rightarrow> json res" where
  "validate_psk psk = bind_res (tree_len psk) (\<lambda>n. if n < PSK_MIN_LENGTH then Inl ValueError else Inr psk)"

definition ask_new_psk :: "(nat \<Rightarrow> nat) \<Rightarrow> string list \<Rightarrow> json reply" where
  "ask_new_psk choice answers =
     bind_in (input_line answers) (\<lambda>raw rest.
       if raw = [] then Inr (JStr (generate_psk choice), rest) else lift_in (validate_psk (JStr raw)) rest)"

definition ask_psk :: "(nat \<Rightarrow> nat) \<Rightarrow> json \<Rightarrow> string list \<Rightarrow> json reply" where
  "ask_psk choice existing answers =
     (if tree_truthy existing
      then (case validate_psk existing of
              Inr psk \<Rightarrow> Inr (psk, answers)
            | Inl ValueError \<Rightarrow> ask_new_psk choice answers
            | Inl e \<Rightarrow> Inl (Fault e))
      else ask_new_psk choice answers)"

definition name_end :: "char \<Rightarrow> bool" where
  "name_end c = (let n = (of_char c :: nat) in 97 \<le> n \<and> n \<le> 122 \<or> 48 \<le> n \<and> n \<le> 57)"

text \<open>\<open>INSTANCE_NAME_RE.match\<close>; \<open>$\<close> also matches before a final line end.\<close>

definition instance_name_ok :: "string \<Rightarrow> bool" where
  "instance_name_ok s =
     (let t = (if s \<noteq> [] \<and> last s = CHR 0x0A then butlast s else s)
      in t \<noteq> [] \<and> length t \<le> 48 \<and> name_end (hd t) \<and> name_end (last t) \<and> list_all (\<lambda>c. name_end c \<or> c = CHR ''-'') t)"

definition validate_port :: "string \<Rightarrow> string verdict" where  \<comment> \<open>\<open>_validate_port\<close>\<close>
  "validate_port p =
     (case int_of_str p of Inr i \<Rightarrow> (if 1024 \<le> i \<and> i \<le> 65535 then Accept (dec (nat i)) else Reject) | Inl _ \<Rightarrow> Reject)"

subsection \<open>The directory\<close>

datatype instance_file = Parsed json | Broken

record conf_dir =
  cd_global :: "json option"
  cd_instances :: "(string, instance_file) dict"

definition GLOBAL_DEFAULT :: json where
  "GLOBAL_DEFAULT =
     JObj [(''schema_version'', JInt 1), (''logging'', JObj [(''level'', JStr ''INFO'')]), (''allow_remote_update'', JBool True)]"

definition write_global_config :: "conf_dir \<Rightarrow> conf_dir" where
  "write_global_config d = (if cd_global d \<noteq> None then d else d\<lparr>cd_global := Some GLOBAL_DEFAULT\<rparr>)"

definition sorted_instances :: "conf_dir \<Rightarrow> (string \<times> instance_file) list" where  \<comment> \<open>\<open>sorted(INSTANCES_DIR.glob("*.yaml"))\<close>\<close>
  "sorted_instances d = sort_key (\<lambda>(n, _). n @ ''.yaml'') (cd_instances d)"

definition load_all_instances :: "conf_dir \<Rightarrow> (string \<times> json) list" where
  "load_all_instances d =
     List.map_filter (\<lambda>(n, f). case f of Parsed j \<Rightarrow> Some (n, or_empty_tree j) | Broken \<Rightarrow> None) (sorted_instances d)"

datatype port_conflict = Serial_Conflict string | Port_Conflict string

definition conflicts_with :: "(json \<Rightarrow> string) \<Rightarrow> string \<Rightarrow> json \<Rightarrow> string \<Rightarrow> string \<times> json \<Rightarrow> port_conflict list res" where
  "conflicts_with str_of name serial_port ws_port other =
     (case other of (other_name, other_cfg) \<Rightarrow>
        if other_name = name then Inr []
        else bind_res (get_or other_cfg ''device'' (JObj [])) (\<lambda>device.
             bind_res (get_or other_cfg ''websocket'' (JObj [])) (\<lambda>ws.
             bind_res (get_or device ''serial_port'' JNull) (\<lambda>serial.
             bind_res (get_or ws ''port'' JNull) (\<lambda>port.
               Inr ((if json_eq serial serial_port then [Serial_Conflict other_name] else []) @
                    (if str_of port = ws_port then [Port_Conflict other_name] else [])))))))"

definition check_collisions :: "(json \<Rightarrow> string) \<Rightarrow> conf_dir \<Rightarrow> string \<Rightarrow> json \<Rightarrow> string \<Rightarrow> port_conflict list res" where
  "check_collisions str_of d name serial_port ws_port =
     bind_res (map_res (conflicts_with str_of name serial_port ws_port) (load_all_instances d)) (\<lambda>cs. Inr (concat cs))"

definition instance_tree :: "json \<Rightarrow> json \<Rightarrow> int \<Rightarrow> json \<Rightarrow> json \<Rightarrow> json" where
  "instance_tree serial_port baud ws_port psk device_name =
     JObj [(''schema_version'', JInt 1),
           (''device'', JObj [(''name'', device_name), (''serial_port'', serial_port), (''baud_rate'', baud)]),
           (''websocket'', JObj [(''host'', JStr ''0.0.0.0''), (''port'', JInt ws_port)]),
           (''security'', JObj [(''psk'', psk)])]"

definition write_instance_config :: "string \<Rightarrow> json \<Rightarrow> json \<Rightarrow> string \<Rightarrow> json \<Rightarrow> json \<Rightarrow> conf_dir \<Rightarrow> conf_dir res" where
  "write_instance_config name serial_port baud ws_port psk device_name d =
     bind_res (int_of_str ws_port) (\<lambda>port.
       Inr (d\<lparr>cd_instances := dset name (Parsed (instance_tree serial_port baud port psk device_name)) (cd_instances d)\<rparr>))"

definition remove_instance :: "string \<Rightarrow> conf_dir \<Rightarrow> string list \<Rightarrow> (bool \<times> conf_dir) reply" where
  "remove_instance name d answers =
     (if \<not> has_key (cd_instances d) name then Inr ((False, d), answers)
      else bind_in (input_line answers) (\<lambda>confirm rest.
             if lower confirm \<noteq> ''y'' then Inr ((False, d), rest)
             else Inr ((True, d\<lparr>cd_instances := AList.delete name (cd_instances d)\<rparr>), rest)))"

definition set_instance_enabled :: "string \<Rightarrow> bool \<Rightarrow> conf_dir \<Rightarrow> string list \<Rightarrow> (bool \<times> conf_dir) reply" where
  "set_instance_enabled name enabled d answers =
     (case dget (cd_instances d) name of
        None \<Rightarrow> Inr ((False, d), answers)
      | Some Broken \<Rightarrow> Inl Yaml_Fault
      | Some (Parsed j) \<Rightarrow>
          (case or_empty_tree j of
             JObj data \<Rightarrow> Inr ((True, d\<lparr>cd_instances := dset name (Parsed (JObj (dset ''enabled'' (JBool enabled) data))) (cd_instances d)\<rparr>), answers)
           | _ \<Rightarrow> Inl (Fault TypeError)))"

subsection \<open>The wizard\<close>

record setup_args =
  sa_instance :: "string option"
  sa_psk :: string
  sa_remove :: string
  sa_disable :: string
  sa_enable :: string

record setup_host =
  sh_ports :: "string list"  \<comment> \<open>\<open>detect_serial_ports()\<close>\<close>
  sh_choice :: "nat \<Rightarrow> nat"
  sh_str :: "json \<Rightarrow> string"

definition is_letter :: "char \<Rightarrow> bool" where
  "is_letter c = (let n = (of_char (lower_char c) :: nat) in 97 \<le> n \<and> n \<le> 122)"

definition upper_char :: "char \<Rightarrow> char" where
  "upper_char c = (let n = (of_char c :: nat) in if 97 \<le> n \<and> n \<le> 122 then char_of (n - 32) else c)"

fun title_case :: "bool \<Rightarrow> string \<Rightarrow> string" where  \<comment> \<open>\<open>str.title\<close> of ASCII text; inside of a word?\<close>
  "title_case inside [] = []"
| "title_case inside (c # s) = (if inside then lower_char c else upper_char c) # title_case (is_letter c) s"

definition default_name :: "string \<Rightarrow> string" where
  "default_name name = title_case False (map (\<lambda>c. if c = CHR ''-'' then CHR '' '' else c) name) @ '' AC''"

definition read_instance :: "instance_file \<Rightarrow> string list \<Rightarrow> json reply" where
  "read_instance f answers = (case f of Parsed j \<Rightarrow> Inr (or_empty_tree j, answers) | Broken \<Rightarrow> Inl Yaml_Fault)"

definition check_name :: "conf_dir \<Rightarrow> string \<Rightarrow> string verdict" where
  "check_name d name =
     (if \<not> instance_name_ok name then Reject else if has_key (cd_instances d) name then Confirm name else Accept name)"

definition ask_instance_name :: "conf_dir \<Rightarrow> string list \<Rightarrow> string reply" where
  "ask_instance_name d answers = ask None (check_name d) answers"

definition new_instance :: "conf_dir \<Rightarrow> string list \<Rightarrow> (string \<times> json) reply" where
  "new_instance d answers = bind_in (ask_instance_name d answers) (\<lambda>name rest. Inr ((name, JObj []), rest))"

text \<open>The name of the instance and the settings it has.\<close>

definition choose_instance :: "setup_args \<Rightarrow> conf_dir \<Rightarrow> string list \<Rightarrow> (string \<times> json) reply" where
  "choose_instance args d answers =
     (case sa_instance args of
        Some (c # cs) \<Rightarrow>
          (case dget (cd_instances d) (c # cs) of
             None \<Rightarrow> Inr ((c # cs, JObj []), answers)
           | Some f \<Rightarrow> bind_in (read_instance f answers) (\<lambda>j rest. Inr ((c # cs, j), rest)))
      | _ \<Rightarrow>
          (if cd_instances d = [] then new_instance d answers
           else bind_in (input_line answers) (\<lambda>choice rest.
                  if choice = [] \<or> lower choice = ''n'' then new_instance d rest
                  else case int_of_str choice of
                         Inl _ \<Rightarrow> new_instance d rest
                       | Inr idx \<Rightarrow>
                           (if 1 \<le> idx \<and> idx \<le> int (length (cd_instances d))
                            then (let (name, f) = sorted_instances d ! nat (idx - 1)
                                  in bind_in (read_instance f rest) (\<lambda>j rest'. Inr ((name, j), rest')))
                            else new_instance d rest))))"

definition or_tree :: "json \<Rightarrow> json \<Rightarrow> json" where  \<comment> \<open>\<open>x or y\<close>\<close>
  "or_tree x y = (if tree_truthy x then x else y)"

definition ask_device_name :: "json \<Rightarrow> string list \<Rightarrow> json reply" where  \<comment> \<open>\<open>ask\<close> without a validator, with a default\<close>
  "ask_device_name dflt answers = bind_in (input_line answers) (\<lambda>raw rest. Inr (if raw = [] then dflt else JStr raw, rest))"

definition offered_ports :: "string list \<Rightarrow> json \<Rightarrow> json list" where
  "offered_ports found default_port =
     (let ports = map JStr found
      in if tree_truthy default_port \<and> \<not> list_ex (json_eq default_port) ports then ports @ [default_port] else ports)"

definition save_instance ::
    "setup_host \<Rightarrow> conf_dir \<Rightarrow> string \<Rightarrow> json \<Rightarrow> json \<Rightarrow> string \<Rightarrow> json \<Rightarrow> json \<Rightarrow> (int \<times> conf_dir) res" where
  "save_instance host d name serial_port baud ws_port psk device_name =
     bind_res (check_collisions (sh_str host) d name serial_port ws_port) (\<lambda>conflicts.
       if conflicts \<noteq> [] then Inr (1, d)
       else bind_res (write_instance_config name serial_port baud ws_port psk device_name (write_global_config d)) (\<lambda>d'. Inr (0, d')))"

definition edit_instance :: "setup_host \<Rightarrow> setup_args \<Rightarrow> conf_dir \<Rightarrow> string \<Rightarrow> json \<Rightarrow> string list \<Rightarrow> (int \<times> conf_dir) reply" where
  "edit_instance host args d name existing answers =
     bind_in (lift_in (get_or existing ''device'' (JObj [])) answers) (\<lambda>device answers.
     bind_in (lift_in (get_or existing ''websocket'' (JObj [])) answers) (\<lambda>ws answers.
     bind_in (lift_in (get_or existing ''security'' (JObj [])) answers) (\<lambda>sec answers.
     bind_in (lift_in (get_or device ''name'' JNull) answers) (\<lambda>old_name answers.
     bind_in (ask_device_name (or_tree old_name (JStr (default_name name))) answers) (\<lambda>device_name answers.
     bind_in (lift_in (get_or device ''serial_port'' JNull) answers) (\<lambda>default_port answers.
     bind_in (ask_serial_port (offered_ports (sh_ports host) default_port) answers) (\<lambda>serial_port answers.
     bind_in (lift_in (get_or device ''baud_rate'' (JInt 9600)) answers) (\<lambda>baud answers.
     bind_in (if sa_psk args \<noteq> [] then Inr (JStr (sa_psk args), answers) else lift_in (get_or sec ''psk'' JNull) answers) (\<lambda>old_psk answers.
     bind_in (ask_psk (sh_choice host) old_psk answers) (\<lambda>psk answers.
     bind_in (lift_in (get_or ws ''port'' (JInt 8765)) answers) (\<lambda>old_port answers.
     bind_in (ask (Some (sh_str host old_port)) validate_port answers) (\<lambda>ws_port answers.
       lift_in (save_instance host d name serial_port baud ws_port psk device_name) answers))))))))))))"

text \<open>\<open>main\<close>: the exit code (0 for \<open>None\<close>) and the directory it leaves.\<close>

definition exit_code :: "(bool \<times> conf_dir) reply \<Rightarrow> (int \<times> conf_dir) reply" where
  "exit_code r = bind_in r (\<lambda>(ok, d) rest. Inr ((if ok then 0 else 1, d), rest))"

definition configure :: "setup_host \<Rightarrow> setup_args \<Rightarrow> conf_dir \<Rightarrow> string list \<Rightarrow> (int \<times> conf_dir) reply" where
  "configure host args d answers =
     (if sa_remove args \<noteq> [] then exit_code (remove_instance (sa_remove args) d answers)
      else if sa_disable args \<noteq> [] then exit_code (set_instance_enabled (sa_disable args) False d answers)
      else if sa_enable args \<noteq> [] then exit_code (set_instance_enabled (sa_enable args) True d answers)
      else bind_in (choose_instance args d answers) (\<lambda>(name, existing) rest. edit_instance host args d name existing rest))"

subsection \<open>What the wizard accepts\<close>

lemma bind_in_Inr: "bind_in m f = Inr y \<longleftrightarrow> (\<exists>x rest. m = Inr (x, rest) \<and> f x rest = Inr y)"
  by (cases m) (auto simp: bind_in_def)

lemma lift_in_Inr: "lift_in r answers = Inr (x, rest) \<longleftrightarrow> r = Inr x \<and> rest = answers"
  by (cases r) (auto simp: lift_in_def)

lemma ask_verdict: "ask dflt validator answers = Inr (v, rest) \<Longrightarrow> \<exists>raw. validator raw = Accept v \<or> validator raw = Confirm v"
proof (induction dflt validator answers rule: ask.induct)
  case (2 dflt validator x rest')
  show ?case
  proof (cases "validator (entered dflt (strip x))")
    case (Accept w)
    then show ?thesis using "2.prems" by auto
  next
    case Reject
    then show ?thesis using 2 by simp
  next
    case (Confirm w)
    then show ?thesis using 2 by (cases rest') (auto split: if_splits)
  qed
qed simp

lemma port_verdict: "validate_port p \<noteq> Confirm w" "validate_port p = Accept w \<Longrightarrow> \<exists>i. w = dec (nat i) \<and> 1024 \<le> i \<and> i \<le> 65535"
  by (auto simp: validate_port_def split: sum.splits if_splits)

lemma new_psk_long: "ask_new_psk choice answers = Inr (psk, rest) \<Longrightarrow> \<exists>n. tree_len psk = Inr n \<and> PSK_MIN_LENGTH \<le> n"
  by (auto simp: ask_new_psk_def bind_in_Inr lift_in_Inr validate_psk_def tree_len_def generate_psk_def PSK_LENGTH_def PSK_MIN_LENGTH_def split: if_splits)

lemma psk_long: "ask_psk choice existing answers = Inr (psk, rest) \<Longrightarrow> \<exists>n. tree_len psk = Inr n \<and> PSK_MIN_LENGTH \<le> n"
proof (cases "tree_truthy existing")
  case True
  assume a: "ask_psk choice existing answers = Inr (psk, rest)"
  show ?thesis
  proof (cases "validate_psk existing")
    case (Inr v)
    then show ?thesis using a True by (auto simp: ask_psk_def validate_psk_def split: if_splits)
  next
    case (Inl e)
    then have "ask_new_psk choice answers = Inr (psk, rest)" using a True by (auto simp: ask_psk_def split: py_error.splits)
    then show ?thesis by (rule new_psk_long)
  qed
qed (auto simp: ask_psk_def intro: new_psk_long)

text \<open>The settings one run saves.\<close>

definition saves :: "setup_host \<Rightarrow> conf_dir \<Rightarrow> conf_dir \<Rightarrow> string \<Rightarrow> json \<Rightarrow> json \<Rightarrow> int \<Rightarrow> json \<Rightarrow> json \<Rightarrow> bool" where
  "saves host d d' name serial_port baud port psk device_name \<longleftrightarrow>
     check_collisions (sh_str host) d name serial_port (dec (nat port)) = Inr [] \<and> 1024 \<le> port \<and> port \<le> 65535 \<and>
     (\<exists>n. tree_len psk = Inr n \<and> PSK_MIN_LENGTH \<le> n) \<and>
     d' = (write_global_config d)\<lparr>cd_instances := dset name (Parsed (instance_tree serial_port baud port psk device_name)) (cd_instances d)\<rparr>"

lemma save_instance_saves:
  assumes "save_instance host d name serial_port baud (dec (nat i)) psk device_name = Inr (c, d')"
    and "1024 \<le> i" "i \<le> 65535" "\<exists>n. tree_len psk = Inr n \<and> PSK_MIN_LENGTH \<le> n"
  shows "c = 1 \<and> d' = d \<or> c = 0 \<and> saves host d d' name serial_port baud i psk device_name"
proof -
  have p: "int_of_str (dec (nat i)) = Inr i" using assms(2) by (simp add: int_of_str_dec)
  have w: "cd_instances (write_global_config d) = cd_instances d" by (simp add: write_global_config_def)
  show ?thesis using assms by (auto simp: save_instance_def write_instance_config_def p w saves_def split: if_splits)
qed

lemma edit_instance_saves:
  assumes "edit_instance host args d name existing answers = Inr ((c, d'), rest)"
  shows "c = 1 \<and> d' = d \<or> c = 0 \<and> (\<exists>serial_port baud port psk device_name. saves host d d' name serial_port baud port psk device_name)"
proof -
  obtain serial_port baud psk device_name ws_port a1 a2 a3 old_psk dflt where psk: "ask_psk (sh_choice host) old_psk a1 = Inr (psk, a2)"
    and port: "ask dflt validate_port a2 = Inr (ws_port, a3)"
    and save: "save_instance host d name serial_port baud ws_port psk device_name = Inr (c, d')"
    using assms unfolding edit_instance_def bind_in_Inr lift_in_Inr by blast
  obtain i where i: "ws_port = dec (nat i)" "1024 \<le> i" "i \<le> 65535" using ask_verdict [OF port] port_verdict by blast
  show ?thesis using save_instance_saves [OF save [unfolded i(1)] i(2,3) psk_long [OF psk]] by blast
qed

definition plain_args :: "setup_args \<Rightarrow> bool" where
  "plain_args args \<longleftrightarrow> sa_remove args = [] \<and> sa_disable args = [] \<and> sa_enable args = []"

lemma configure_saves:
  assumes "configure host args d answers = Inr ((c, d'), rest)" "plain_args args"
  shows "c = 1 \<and> d' = d \<or> c = 0 \<and> (\<exists>name serial_port baud port psk device_name. saves host d d' name serial_port baud port psk device_name)"
proof -
  obtain name existing a1 where e: "edit_instance host args d name existing a1 = Inr ((c, d'), rest)"
    using assms by (auto simp: configure_def plain_args_def bind_in_Inr)
  show ?thesis using edit_instance_saves [OF e] by blast
qed

subsection \<open>What the wizard writes is what the gateway loads\<close>

lemma default_global_loads: "global_config (Some GLOBAL_DEFAULT) CONFIG_DEFAULTS = Inr CONFIG_DEFAULTS"
proof -
  have d: "dget CONFIG_DEFAULTS ''log_level'' = Some (JStr ''INFO'')" "dget CONFIG_DEFAULTS ''allow_remote_update'' = Some (JBool True)"
    by (simp_all add: CONFIG_DEFAULTS_def)
  show ?thesis
    by (simp add: global_config_def GLOBAL_DEFAULT_def or_empty_tree_def tree_truthy_def get_or_def dget_or_def has_key_def
        dset_same [OF d(1)] dset_same [OF d(2)])
qed

lemma instance_tree_config:
  "instance_config (Some (instance_tree serial_port baud port psk device_name)) cfg =
     Inr (dupdate cfg
       [(''psk'', psk), (''uart_port'', serial_port), (''uart_baud'', baud), (''ws_host'', JStr ''0.0.0.0''),
        (''ws_port'', JInt port), (''device_name'', device_name)])"
proof -
  let ?t = "instance_tree serial_port baud port psk device_name"
  have e: "or_empty_tree ?t = ?t" by (simp add: or_empty_tree_def instance_tree_def tree_truthy_def)
  have g: "get_or ?t ''device'' x = Inr (JObj [(''name'', device_name), (''serial_port'', serial_port), (''baud_rate'', baud)])"
      "get_or ?t ''websocket'' x = Inr (JObj [(''host'', JStr ''0.0.0.0''), (''port'', JInt port)])"
      "get_or ?t ''security'' x = Inr (JObj [(''psk'', psk)])" for x
    by (simp_all add: get_or_def instance_tree_def dget_or_def)
  have p: "pass_through ?t c = c" for c by (simp add: pass_through_def TUNING_KEYS_def instance_tree_def)
  show ?thesis
    unfolding instance_config_def option.case Let_def e g bind_res_simps p by (simp add: get_or_def dget_or_def)
qed

lemma instance_tree_loads:
  "load_config (Some GLOBAL_DEFAULT) (Some (instance_tree serial_port baud port psk device_name)) None =
     Inr (dupdate CONFIG_DEFAULTS
       [(''psk'', psk), (''uart_port'', serial_port), (''uart_baud'', baud), (''ws_host'', JStr ''0.0.0.0''),
        (''ws_port'', JInt port), (''device_name'', device_name)])"
  unfolding load_config_def by (simp only: option.case default_global_loads bind_res_simps instance_tree_config)

text \<open>Whatever is typed, what a successful run wrote is loaded, with the port and the key in range.\<close>

lemma wizard_settings_in_range:
  assumes "configure host args d answers = Inr ((0, d'), rest)" "plain_args args" "cd_global d = None"
  shows "\<exists>name tree serial_port baud port psk device_name n.
    dget (cd_instances d') name = Some (Parsed tree) \<and> (\<forall>m. m \<noteq> name \<longrightarrow> dget (cd_instances d') m = dget (cd_instances d) m) \<and>
    load_config (cd_global d') (Some tree) None =
      Inr (dupdate CONFIG_DEFAULTS
        [(''psk'', psk), (''uart_port'', serial_port), (''uart_baud'', baud), (''ws_host'', JStr ''0.0.0.0''),
         (''ws_port'', JInt port), (''device_name'', device_name)]) \<and>
    1024 \<le> port \<and> port \<le> 65535 \<and> tree_len psk = Inr n \<and> 12 \<le> n"
proof -
  obtain name serial_port baud port psk device_name where s: "saves host d d' name serial_port baud port psk device_name"
    using configure_saves [OF assms(1,2)] by auto
  then obtain n where n: "tree_len psk = Inr n" "12 \<le> n" by (auto simp: saves_def PSK_MIN_LENGTH_def)
  have g: "cd_global d' = Some GLOBAL_DEFAULT" using s assms(3) by (simp add: saves_def write_global_config_def)
  have i: "cd_instances d' = dset name (Parsed (instance_tree serial_port baud port psk device_name)) (cd_instances d)"
    using s by (simp add: saves_def)
  have d: "dget (cd_instances d') name = Some (Parsed (instance_tree serial_port baud port psk device_name))"
      "\<forall>m. m \<noteq> name \<longrightarrow> dget (cd_instances d') m = dget (cd_instances d) m" unfolding i by simp_all
  have p: "1024 \<le> port" "port \<le> 65535" using s by (simp_all add: saves_def)
  show ?thesis using d p n instance_tree_loads [of serial_port baud port psk device_name] unfolding g by blast
qed

text \<open>The answers to the questions about a new instance; an empty line takes the default.\<close>

definition typed :: "string \<Rightarrow> string \<Rightarrow> string" where
  "typed dflt line = (if strip line = [] then dflt else strip line)"

lemma port_typed:
  assumes "int_of_str (typed dflt line) = Inr p" and "1024 \<le> p" and "p \<le> 65535"
  shows "ask (Some dflt) validate_port (line # rest) = Inr (dec (nat p), rest)"
proof -
  have "entered (Some dflt) (strip line) = typed dflt line" by (auto simp: entered_def typed_def split: list.split)
  then show ?thesis using assms by (simp add: validate_port_def)
qed

lemma serial_typed:
  assumes "int_of_str (typed ''1'' line) = Inr (int i + 1)" and "i < length ports"
  shows "ask_serial_port (map JStr ports) (line # rest) = Inr (JStr (ports ! i), rest)"
proof -
  have "(if strip line = [] then ''1'' else strip line) = typed ''1'' line" by (simp add: typed_def)
  then show ?thesis using assms by (auto simp: ask_serial_port_def)
qed

lemma edit_new_instance:
  assumes "sa_psk args = []"
    and "int_of_str (typed ''1'' a_serial) = Inr (int i + 1)" and "i < length (sh_ports host)"
    and "key = typed (generate_psk (sh_choice host)) a_key" and "12 \<le> length key"
    and "int_of_str (typed (sh_str host (JInt 8765)) a_port) = Inr p" and "1024 \<le> p" and "p \<le> 65535"
  shows "edit_instance host args d name (JObj []) (a_name # a_serial # a_key # a_port # rest) =
    lift_in (save_instance host d name (JStr (sh_ports host ! i)) (JInt 9600) (dec (nat p)) (JStr key)
      (JStr (typed (default_name name) a_name))) rest"
proof -
  have g: "get_or (JObj []) k x = Inr x" for k x by (simp add: get_or_def dget_or_def)
  have o: "offered_ports (sh_ports host) JNull = map JStr (sh_ports host)" by (simp add: offered_ports_def tree_truthy_def)
  have b: "bind_in (Inr (x, r)) h = h x r" for x r and h :: "'a \<Rightarrow> string list \<Rightarrow> 'b reply" by (simp add: bind_in_def)
  have t: "or_tree JNull y = y" for y by (simp add: or_tree_def tree_truthy_def)
  have dn: "ask_device_name (JStr e) (line # r) = Inr (JStr (typed e line), r)" for e line r
    by (simp add: ask_device_name_def bind_in_def input_line_def typed_def)
  have pk: "ask_psk (sh_choice host) JNull (a_key # r) = Inr (JStr key, r)" for r
    using assms(5) unfolding assms(4) typed_def
    by (cases "strip a_key = []")
      (simp_all add: ask_psk_def tree_truthy_def ask_new_psk_def bind_in_def input_line_def lift_in_def
        validate_psk_def tree_len_def PSK_MIN_LENGTH_def)
  have l: "lift_in (Inr x) r = Inr (x, r)" for x and r by (simp add: lift_in_def)
  note port = port_typed [OF assms(6-8)] and serial = serial_typed [OF assms(2,3)]
  show ?thesis
    unfolding edit_instance_def g l b t dn o serial assms(1) simp_thms if_False pk port by (rule TrueI)
qed


subsection \<open>No two instances share a port\<close>

definition setting :: "conf_dir \<Rightarrow> string \<Rightarrow> string \<Rightarrow> string \<Rightarrow> json option" where
  "setting d name sec k =
     (case dget (cd_instances d) name of
        Some (Parsed j) \<Rightarrow>
          (case or_empty_tree j of
             JObj c \<Rightarrow> (case dget c sec of Some (JObj s) \<Rightarrow> dget s k | _ \<Rightarrow> None)
           | _ \<Rightarrow> None)
      | _ \<Rightarrow> None)"

text \<open>The serial port and the WebSocket port the gateway gets when it loads an instance.\<close>

definition loaded_ports :: "conf_dir \<Rightarrow> string \<Rightarrow> (json \<times> json) option" where
  "loaded_ports d name =
     (case dget (cd_instances d) name of
        Some (Parsed j) \<Rightarrow>
          (case load_config (cd_global d) (Some j) None of
             Inr cfg \<Rightarrow>
               (case (dget cfg ''uart_port'', dget cfg ''ws_port'') of (Some s, Some p) \<Rightarrow> Some (s, p) | _ \<Rightarrow> None)
           | Inl _ \<Rightarrow> None)
      | _ \<Rightarrow> None)"

definition ports_apart :: "conf_dir \<Rightarrow> bool" where
  "ports_apart d \<longleftrightarrow>
     (\<forall>n m s s' p p'. n \<noteq> m \<and> loaded_ports d n = Some (s, p) \<and> loaded_ports d m = Some (s', p') \<longrightarrow>
        (\<forall>x. \<not> (s = JStr x \<and> s' = JStr x)) \<and> (\<forall>i. \<not> (p = JInt i \<and> p' = JInt i)))"

text \<open>Every instance names both of its ports, as the wizard makes them; \<open>load_config\<close> has defaults for others.\<close>

definition names_ports :: "conf_dir \<Rightarrow> bool" where
  "names_ports d \<longleftrightarrow>
     (\<forall>n j. dget (cd_instances d) n = Some (Parsed j) \<longrightarrow>
        setting d n ''device'' ''serial_port'' \<noteq> None \<and> setting d n ''websocket'' ''port'' \<noteq> None)"

text \<open>When a tree loads, and with which ports.\<close>

definition sections_load :: "json \<Rightarrow> json \<Rightarrow> json \<Rightarrow> bool" where
  "sections_load inst s p \<longleftrightarrow>
     (\<exists>device ws sec. get_or inst ''device'' (JObj []) = Inr (JObj device) \<and> get_or inst ''websocket'' (JObj []) = Inr (JObj ws) \<and>
        get_or inst ''security'' (JObj []) = Inr (JObj sec) \<and>
        s = dget_or device ''serial_port'' (JStr ''/dev/serial0'') \<and> p = dget_or ws ''port'' (JInt 8765))"

lemma get_or_Inr: "get_or j k x = Inr v \<longleftrightarrow> (\<exists>d. j = JObj d \<and> v = dget_or d k x)"
  by (cases j) (auto simp: get_or_def)

lemma pass_through_ports:
  "k \<notin> set TUNING_KEYS \<Longrightarrow> dget (pass_through inst cfg) k = dget cfg k"
proof -
  have "k \<notin> set ks \<Longrightarrow> dget (fold (\<lambda>k cfg. case inst of JObj d \<Rightarrow> (case dget d k of Some v \<Rightarrow> dset k v cfg | None \<Rightarrow> cfg) | _ \<Rightarrow> cfg) ks cfg) k = dget cfg k" for ks
    by (induction ks arbitrary: cfg) (auto split: json.split option.split)
  then show "k \<notin> set TUNING_KEYS \<Longrightarrow> ?thesis" by (simp add: pass_through_def)
qed

lemma instance_config_ports:
  "(\<exists>out. instance_config (Some j) cfg = Inr out \<and> dget out ''uart_port'' = Some s \<and> dget out ''ws_port'' = Some p) \<longleftrightarrow>
     sections_load (or_empty_tree j) s p"
proof -
  have k: "''uart_port'' \<notin> set TUNING_KEYS" "''ws_port'' \<notin> set TUNING_KEYS" by (simp_all add: TUNING_KEYS_def)
  note ports = pass_through_ports [OF k(1)] pass_through_ports [OF k(2)]
  show ?thesis
  proof
    assume "\<exists>out. instance_config (Some j) cfg = Inr out \<and> dget out ''uart_port'' = Some s \<and> dget out ''ws_port'' = Some p"
    then show "sections_load (or_empty_tree j) s p"
      unfolding instance_config_def option.case Let_def bind_res_eq_Inr get_or_Inr sections_load_def
      by (auto simp: ports dupdate_def)
  next
    assume "sections_load (or_empty_tree j) s p"
    then obtain device ws sec where g: "get_or (or_empty_tree j) ''device'' (JObj []) = Inr (JObj device)"
        "get_or (or_empty_tree j) ''websocket'' (JObj []) = Inr (JObj ws)"
        "get_or (or_empty_tree j) ''security'' (JObj []) = Inr (JObj sec)"
        "s = dget_or device ''serial_port'' (JStr ''/dev/serial0'')" "p = dget_or ws ''port'' (JInt 8765)"
      unfolding sections_load_def by blast
    then show "\<exists>out. instance_config (Some j) cfg = Inr out \<and> dget out ''uart_port'' = Some s \<and> dget out ''ws_port'' = Some p"
      by (simp add: instance_config_def g get_or_def [of "JObj _"] ports dupdate_def)
  qed
qed

lemma loaded_ports_iff:
  "loaded_ports d n = Some (s, p) \<longleftrightarrow>
     (\<exists>j cfg. dget (cd_instances d) n = Some (Parsed j) \<and> global_config (cd_global d) CONFIG_DEFAULTS = Inr cfg \<and>
        sections_load (or_empty_tree j) s p)"
  unfolding instance_config_ports [symmetric, of _ _ _ "case global_config (cd_global d) CONFIG_DEFAULTS of Inr cfg \<Rightarrow> cfg | Inl _ \<Rightarrow> []"]
  by (cases "global_config (cd_global d) CONFIG_DEFAULTS")
    (auto simp: loaded_ports_def load_config_def split: option.splits instance_file.splits sum.splits)

text \<open>A tree that names its ports loads with these.\<close>

lemma loaded_named:
  assumes "loaded_ports d n = Some (s, p)" and "names_ports d"
  shows "setting d n ''device'' ''serial_port'' = Some s" "setting d n ''websocket'' ''port'' = Some p"
proof -
  obtain j where j: "dget (cd_instances d) n = Some (Parsed j)" "sections_load (or_empty_tree j) s p"
    using assms(1) by (auto simp: loaded_ports_iff)
  then have n: "setting d n ''device'' ''serial_port'' \<noteq> None" "setting d n ''websocket'' ''port'' \<noteq> None"
    using assms(2) by (auto simp: names_ports_def)
  obtain inst where i: "or_empty_tree j = JObj inst" using j(2) by (auto simp: sections_load_def get_or_Inr)
  show "setting d n ''device'' ''serial_port'' = Some s" "setting d n ''websocket'' ''port'' = Some p"
    using n j(2) i by (auto simp: setting_def j(1) sections_load_def get_or_def dget_or_def split: option.splits json.splits)
qed

lemma apart_fewer:
  assumes "ports_apart d" and "\<And>n s p. loaded_ports d' n = Some (s, p) \<Longrightarrow> loaded_ports d n = Some (s, p)"
  shows "ports_apart d'"
  using assms unfolding ports_apart_def by blast

lemma loaded_member:
  assumes "dget (cd_instances d) name = Some (Parsed j)"
  shows "(name, or_empty_tree j) \<in> set (load_all_instances d)"
  using map_of_SomeD [OF assms] by (force simp: load_all_instances_def sorted_instances_def List.map_filter_def)

lemma setting_SomeD:
  assumes "setting d m sec k = Some v"
  obtains j c sd where "dget (cd_instances d) m = Some (Parsed j)" "or_empty_tree j = JObj c" "dget c sec = Some (JObj sd)" "dget sd k = Some v"
proof -
  obtain j where j: "dget (cd_instances d) m = Some (Parsed j)" using assms by (auto simp: setting_def split: option.splits instance_file.splits)
  obtain c where c: "or_empty_tree j = JObj c" using assms j by (cases "or_empty_tree j") (simp_all add: setting_def)
  obtain x where x: "dget c sec = Some x" using assms j c by (cases "dget c sec") (simp_all add: setting_def)
  obtain sd where sd: "x = JObj sd" using assms j c x by (cases x) (simp_all add: setting_def)
  show thesis by (rule that [OF j c x [unfolded sd]]) (use assms j c x sd in \<open>simp add: setting_def\<close>)
qed

lemma conflict_free:
  assumes "check_collisions str_of d name serial_port ws_port = Inr []" "m \<noteq> name"
    and "dget (cd_instances d) m = Some (Parsed j)" "or_empty_tree j = JObj c"
  shows "dget c ''device'' = Some (JObj sd) \<Longrightarrow> dget sd ''serial_port'' = Some v \<Longrightarrow> \<not> json_eq v serial_port"
    and "dget c ''websocket'' = Some (JObj sw) \<Longrightarrow> dget sw ''port'' = Some w \<Longrightarrow> str_of w \<noteq> ws_port"
proof -
  obtain cs where cs: "map_res (conflicts_with str_of name serial_port ws_port) (load_all_instances d) = Inr cs" "concat cs = []"
    using assms(1) by (auto simp: check_collisions_def)
  have "(m, JObj c) \<in> set (load_all_instances d)" using loaded_member [OF assms(3)] assms(4) by simp
  then have "conflicts_with str_of name serial_port ws_port (m, JObj c) = Inr []"
    using map_res_concat_Nil [OF cs(1)] cs(2) by blast
  then obtain device ws serial port where g: "get_or (JObj c) ''device'' (JObj []) = Inr device" "get_or (JObj c) ''websocket'' (JObj []) = Inr ws"
      "get_or device ''serial_port'' JNull = Inr serial" "get_or ws ''port'' JNull = Inr port"
      "\<not> json_eq serial serial_port" "str_of port \<noteq> ws_port"
    using assms(2) by (auto simp: conflicts_with_def split: if_splits)
  show "dget c ''device'' = Some (JObj sd) \<Longrightarrow> dget sd ''serial_port'' = Some v \<Longrightarrow> \<not> json_eq v serial_port"
    using g(1,3,5) by (auto simp: get_or_def dget_or_def)
  show "dget c ''websocket'' = Some (JObj sw) \<Longrightarrow> dget sw ''port'' = Some w \<Longrightarrow> str_of w \<noteq> ws_port"
    using g(2,4,6) by (auto simp: get_or_def dget_or_def)
qed

lemma no_conflict:
  assumes "check_collisions str_of d name serial_port ws_port = Inr []" "m \<noteq> name"
  shows "setting d m ''device'' ''serial_port'' = Some v \<Longrightarrow> \<not> json_eq v serial_port"
    and "setting d m ''websocket'' ''port'' = Some w \<Longrightarrow> str_of w \<noteq> ws_port"
  using conflict_free [OF assms] by (metis setting_SomeD)+

lemma setting_saved:
  assumes "cd_instances d' = dset name (Parsed (instance_tree serial_port baud port psk device_name)) (cd_instances d)"
  shows "setting d' name ''device'' ''serial_port'' = Some serial_port" "setting d' name ''websocket'' ''port'' = Some (JInt port)"
    and "m \<noteq> name \<Longrightarrow> setting d' m sec k = setting d m sec k"
  by (simp_all add: setting_def assms or_empty_tree_def tree_truthy_def instance_tree_def)

lemma saves_apart:
  assumes "saves host d d' name serial_port baud port psk device_name" "ports_apart d" "names_ports d"
    and "\<And>i. 0 \<le> i \<Longrightarrow> sh_str host (JInt i) = dec (nat i)"
  shows "ports_apart d' \<and> names_ports d'"
proof -
  have c: "check_collisions (sh_str host) d name serial_port (dec (nat port)) = Inr []" and p: "1024 \<le> port"
    and i: "cd_instances d' = dset name (Parsed (instance_tree serial_port baud port psk device_name)) (cd_instances d)"
    and g: "cd_global d' = cd_global (write_global_config d)"
    using assms(1) by (simp_all add: saves_def)
  note st = setting_saved [OF i]
  have named: "names_ports d'" unfolding names_ports_def
  proof (intro allI impI)
    fix n j assume "dget (cd_instances d') n = Some (Parsed j)"
    then show "setting d' n ''device'' ''serial_port'' \<noteq> None \<and> setting d' n ''websocket'' ''port'' \<noteq> None"
      using st assms(3) by (cases "n = name") (auto simp: i names_ports_def)
  qed
  have glob: "\<exists>cfg. global_config (cd_global d) CONFIG_DEFAULTS = Inr cfg"
    if "global_config (cd_global d') CONFIG_DEFAULTS = Inr cfg" for cfg
    using that by (cases "cd_global d") (auto simp: g write_global_config_def global_config_def)
  have old: "loaded_ports d m = Some (s, p)" if "loaded_ports d' m = Some (s, p)" "m \<noteq> name" for m s p
    using that glob by (auto simp: loaded_ports_iff i)
  have j: "json_eq (JStr x) (JStr x)" for x by (simp add: scalar_eq_def)
  have new: "(\<forall>x. \<not> (s = JStr x \<and> serial_port = JStr x)) \<and> (\<forall>i. \<not> (q = JInt i \<and> JInt port = JInt i))"
    if "loaded_ports d' m = Some (s, q)" "m \<noteq> name" for m s q
  proof -
    have "setting d m ''device'' ''serial_port'' = Some s" "setting d m ''websocket'' ''port'' = Some q"
      using loaded_named [OF old [OF that] assms(3)] .
    then have "\<not> json_eq s serial_port" "sh_str host q \<noteq> dec (nat port)" using no_conflict [OF c that(2)] by blast+
    then show ?thesis using j assms(4) [of port] p by auto
  qed
  have own: "s = serial_port \<and> q = JInt port" if "loaded_ports d' name = Some (s, q)" for s q
    using loaded_named [OF that named] st(1,2) by simp
  have "ports_apart d'" unfolding ports_apart_def
  proof (intro allI impI, elim conjE)
    fix n m s s' q q'
    assume nm: "n \<noteq> m" "loaded_ports d' n = Some (s, q)" "loaded_ports d' m = Some (s', q')"
    consider "n = name" | "m = name" | "n \<noteq> name" "m \<noteq> name" by blast
    then show "(\<forall>x. \<not> (s = JStr x \<and> s' = JStr x)) \<and> (\<forall>i. \<not> (q = JInt i \<and> q' = JInt i))"
    proof cases
      case 1
      then show ?thesis using own [of s q] new [OF nm(3)] nm by blast
    next
      case 2
      then show ?thesis using own [of s' q'] new [OF nm(2)] nm by blast
    next
      case 3
      then show ?thesis using old [OF nm(2)] old [OF nm(3)] assms(2) nm(1) unfolding ports_apart_def by blast
    qed
  qed
  then show ?thesis using named by blast
qed

lemma removed_apart:
  assumes "remove_instance name d answers = Inr ((ok, d'), rest)" "ports_apart d" "names_ports d"
  shows "ports_apart d' \<and> names_ports d'"
proof (cases "d' = d")
  case False
  then have d': "d' = d\<lparr>cd_instances := AList.delete name (cd_instances d)\<rparr>"
    using assms(1) by (auto simp: remove_instance_def bind_in_Inr split: if_splits)
  have i: "dget (cd_instances d') n = (if n = name then None else dget (cd_instances d) n)" for n
    by (simp add: d' delete_conv')
  have "setting d' n sec k = (if n = name then None else setting d n sec k)" for n sec k
    by (simp add: setting_def i)
  then have "names_ports d'" using assms(3) by (auto simp: names_ports_def i)
  moreover have "ports_apart d'"
  proof (rule apart_fewer [OF assms(2)])
    fix n s p assume "loaded_ports d' n = Some (s, p)"
    then show "loaded_ports d n = Some (s, p)" by (auto simp: loaded_ports_iff d' delete_conv' split: if_splits)
  qed
  ultimately show ?thesis by simp
qed (use assms in simp)

lemma enabled_apart:
  assumes "set_instance_enabled name b d answers = Inr ((ok, d'), rest)" "ports_apart d" "names_ports d"
  shows "ports_apart d' \<and> names_ports d'"
proof (cases "d' = d")
  case False
  then obtain j data where j: "dget (cd_instances d) name = Some (Parsed j)" "or_empty_tree j = JObj data"
    and d': "d' = d\<lparr>cd_instances := dset name (Parsed (JObj (dset ''enabled'' (JBool b) data))) (cd_instances d)\<rparr>"
    using assms(1) by (auto simp: set_instance_enabled_def split: option.splits instance_file.splits json.splits)
  have "dset ''enabled'' (JBool b) data \<noteq> []" by (cases data) auto
  then have e: "or_empty_tree (JObj (dset ''enabled'' (JBool b) data)) = JObj (dset ''enabled'' (JBool b) data)"
    by (simp add: or_empty_tree_def tree_truthy_def)
  have "setting d' n sec k = setting d n sec k" if "sec \<noteq> ''enabled''" for n sec k
    using that j e by (simp add: setting_def d')
  then have "names_ports d'" using assms(3) j(1) by (auto simp: names_ports_def d' split: if_splits)
  moreover have "ports_apart d'"
  proof (rule apart_fewer [OF assms(2)])
    fix n s p assume l: "loaded_ports d' n = Some (s, p)"
    have "sections_load (JObj (dset ''enabled'' (JBool b) data)) s p \<longleftrightarrow> sections_load (JObj data) s p"
      by (simp add: sections_load_def get_or_def dget_or_def)
    then show "loaded_ports d n = Some (s, p)" using l j e by (auto simp: loaded_ports_iff d' split: if_splits)
  qed
  ultimately show ?thesis by simp
qed (use assms in simp)


subsection \<open>A first run\<close>

definition FRESH :: conf_dir where
  "FRESH = \<lparr>cd_global = None, cd_instances = []\<rparr>"

definition wizard_host :: setup_host where
  "wizard_host = \<lparr>sh_ports = [''/dev/serial0''], sh_choice = (\<lambda>i. i),
     sh_str = (\<lambda>j. case j of JInt i \<Rightarrow> (if 0 \<le> i then dec (nat i) else ''-'') | JStr s \<Rightarrow> s | _ \<Rightarrow> ''None'')\<rparr>"

definition no_args :: setup_args where
  "no_args = \<lparr>sa_instance = None, sa_psk = [], sa_remove = [], sa_disable = [], sa_enable = []\<rparr>"

definition TYPED :: "string list" where  \<comment> \<open>a bad name, then good answers; empty lines take the defaults\<close>
  "TYPED = [''Bedroom!'', ''bedroom'', [], [], [], []]"

definition BEDROOM :: json where
  "BEDROOM = instance_tree (JStr ''/dev/serial0'') (JInt 9600) 8765 (JStr (generate_psk (\<lambda>i. i))) (JStr ''Bedroom AC'')"

lemma strip_empty [simp]: "strip [] = []"
  by (simp add: strip_def)

lemma strip_name: "strip ''bedroom'' = ''bedroom''" "strip ''Bedroom!'' = ''Bedroom!''"
  by (simp_all add: strip_def str_space_def is_space_def)

lemma name_asked: "choose_instance no_args FRESH TYPED = Inr ((''bedroom'', JObj []), [[], [], [], []])"
  by (simp add: choose_instance_def no_args_def FRESH_def new_instance_def ask_instance_name_def TYPED_def bind_in_def
      strip_name entered_def check_name_def instance_name_ok_def name_end_def Let_def has_key_def)

text \<open>A run that takes the defaults, in a directory where no port is taken.\<close>

lemma defaults_typed:
  "int_of_str (typed ''1'' []) = Inr (int 0 + 1)" "0 < length (sh_ports wizard_host)"
  "generate_psk (\<lambda>i. i) = typed (generate_psk (sh_choice wizard_host)) []" "12 \<le> length (generate_psk (\<lambda>i. i))"
  "int_of_str (typed (sh_str wizard_host (JInt 8765)) []) = Inr 8765" "(1024 :: int) \<le> 8765" "8765 \<le> (65535 :: int)"
proof -
  have "int_of_str (dec 8765) = Inr 8765" unfolding int_of_str_dec by simp
  then show "int_of_str (typed (sh_str wizard_host (JInt 8765)) []) = Inr 8765" by (simp add: typed_def wizard_host_def)
  show "int_of_str (typed ''1'' []) = Inr (int 0 + 1)"
    by (simp add: typed_def int_of_str_def unsigned_of_str_def digit_val_def strip_def str_space_def is_space_def)
qed (simp_all add: typed_def wizard_host_def generate_psk_def PSK_LENGTH_def)

lemma no_conflicts_fresh: "check_collisions f FRESH n sp wp = Inr []"
  by (simp add: check_collisions_def load_all_instances_def sorted_instances_def FRESH_def List.map_filter_def)

lemma edited: "edit_instance wizard_host no_args FRESH ''bedroom'' (JObj []) [[], [], [], []] =
    Inr ((0, \<lparr>cd_global = Some GLOBAL_DEFAULT, cd_instances = [(''bedroom'', Parsed BEDROOM)]\<rparr>), [])"
proof -
  have "default_name ''bedroom'' = ''Bedroom AC''" by code_simp
  moreover have "int_of_str (dec 8765) = Inr 8765" unfolding int_of_str_dec by simp
  moreover have "sa_psk no_args = []" "sh_ports wizard_host ! 0 = ''/dev/serial0''" by (simp_all add: no_args_def wizard_host_def)
  ultimately show ?thesis
    using edit_new_instance [OF _ defaults_typed, of no_args FRESH "''bedroom''" "[]" "[]"] no_conflicts_fresh
    by (simp add: lift_in_def save_instance_def write_instance_config_def write_global_config_def BEDROOM_def typed_def)
      (simp add: FRESH_def)
qed

lemma first_run:
  "configure wizard_host no_args FRESH TYPED =
     Inr ((0, \<lparr>cd_global = Some GLOBAL_DEFAULT, cd_instances = [(''bedroom'', Parsed BEDROOM)]\<rparr>), [])"
proof -
  have "configure wizard_host no_args FRESH TYPED =
      bind_in (choose_instance no_args FRESH TYPED) (\<lambda>(name, existing) rest. edit_instance wizard_host no_args FRESH name existing rest)"
    by (simp add: configure_def no_args_def)
  then show ?thesis by (simp add: name_asked bind_in_def edited)
qed



text \<open>
  An instance whose file has no WebSocket port gets 8765 when it is loaded; the collision check compares the
  settings in the files, so the wizard gives the same port to the next instance.
\<close>

definition HALL :: conf_dir where
  "HALL = \<lparr>cd_global = None,
     cd_instances = [(''hall'', Parsed (JObj [(''device'', JObj [(''serial_port'', JStr ''/dev/ttyUSB0'')])]))]\<rparr>"

lemma default_port_shared:
  "\<exists>d'. configure wizard_host (no_args\<lparr>sa_instance := Some ''bedroom''\<rparr>) HALL [[], [], [], []] = Inr ((0, d'), []) \<and>
     loaded_ports d' ''hall'' = Some (JStr ''/dev/ttyUSB0'', JInt 8765) \<and>
     loaded_ports d' ''bedroom'' = Some (JStr ''/dev/serial0'', JInt 8765)"
proof -
  let ?args = "no_args\<lparr>sa_instance := Some ''bedroom''\<rparr>"
  have a: "sa_psk ?args = []" "sh_ports wizard_host ! 0 = ''/dev/serial0''" by (simp_all add: no_args_def wizard_host_def)
  have port: "int_of_str (dec 8765) = Inr 8765" unfolding int_of_str_dec by simp
  have "''None'' \<noteq> dec 8765"
  proof
    assume "''None'' = dec 8765"
    then have "int_of_str ''None'' = Inr 8765" using port by simp
    then show False by (simp add: int_of_str_def unsigned_of_str_def digit_val_def strip_def str_space_def is_space_def)
  qed
  then have none: "check_collisions (sh_str wizard_host) HALL ''bedroom'' (JStr ''/dev/serial0'') (dec 8765) = Inr []"
    by (simp add: check_collisions_def load_all_instances_def sorted_instances_def HALL_def List.map_filter_def
        conflicts_with_def or_empty_tree_def tree_truthy_def get_or_def dget_or_def wizard_host_def scalar_eq_def json_num_def)
  let ?tree = "instance_tree (JStr ''/dev/serial0'') (JInt 9600) 8765 (JStr (generate_psk (\<lambda>i. i))) (JStr (typed (default_name ''bedroom'') []))"
  let ?d' = "\<lparr>cd_global = Some GLOBAL_DEFAULT, cd_instances = cd_instances HALL @ [(''bedroom'', Parsed ?tree)]\<rparr>"
  have "configure wizard_host ?args HALL [[], [], [], []] = Inr ((0, ?d'), [])"
    using edit_new_instance [OF a(1) defaults_typed, of HALL "''bedroom''" "[]" "[]"] none port a(2)
    by (simp add: configure_def no_args_def choose_instance_def bind_in_def)
      (simp add: HALL_def lift_in_def save_instance_def write_instance_config_def write_global_config_def)
  moreover have "loaded_ports ?d' ''hall'' = Some (JStr ''/dev/ttyUSB0'', JInt 8765)"
    by (simp add: loaded_ports_iff default_global_loads sections_load_def HALL_def or_empty_tree_def tree_truthy_def get_or_def dget_or_def)
  moreover have "loaded_ports ?d' ''bedroom'' = Some (JStr ''/dev/serial0'', JInt 8765)"
    by (simp add: loaded_ports_iff default_global_loads sections_load_def HALL_def or_empty_tree_def tree_truthy_def get_or_def dget_or_def instance_tree_def)
  ultimately show ?thesis by blast
qed

text \<open>A typed passphrase that is too short ends the wizard with the exception instead of being asked for again; an
  empty \<open>logging\<close> section of the global file keeps the gateway from starting.\<close>

lemma short_key_raises: "ask_psk choice JNull [''secret''] = Inl (Fault ValueError)"
  by (simp add: ask_psk_def tree_truthy_def ask_new_psk_def bind_in_def input_line_def strip_def str_space_def is_space_def
      lift_in_def validate_psk_def tree_len_def PSK_MIN_LENGTH_def)

lemma empty_logging_raises: "load_config (Some (JObj [(''logging'', JNull)])) inst None = Inl AttributeError"
  by (simp add: load_config_def global_config_def or_empty_tree_def tree_truthy_def get_or_def dget_or_def)

end
