(* ===== verification/Spec2Isabelle.thy ===== *)
theory Spec2Isabelle
  imports Frame Gating Process Clock Command Status_DB Planner Typing Device Device_Steps Polling Link Uart
    Hex Json Crypto Pools Server Server_Steps Gateway Ws_Client Ws_Client_Steps
    Override Scan_Queries Quirks Inventory Collisions Lint Updater Gateway_Config
begin

text \<open>
  \<^bold>\<open>The program.\<close> \<open>blaueis-libmidea\<close> talks to Midea air conditioners over the serial bus of their dongle
  connector.  It has four packages under \<open>src/packages\<close>.  \<open>blaueis-core\<close> holds the wire formats and what is known of
  the fields of a unit, driven by the data file \<open>glossary.yaml\<close>.  \<open>blaueis-gateway\<close> runs on a small computer at the
  bus: it plays the dongle and lets clients reach the bus over an encrypted WebSocket.  \<open>blaueis-client\<close> is such a
  client, with a database of the state of one unit.  \<open>blaueis-tools\<close> checks and explores glossaries and units.
  A reading passes through the parts in this order: bytes of the line (\<open>Uart\<close>), a message to the subscribers
  (\<open>Server\<close>, \<open>Crypto\<close>, \<open>Json\<close>), the client's transport (\<open>Ws_Client\<close>), the device (\<open>Device\<close>), its database
  (\<open>Status_DB\<close>, \<open>Process\<close>, \<open>Decode\<close>, \<open>Codec\<close>), a slot of a field (\<open>Status\<close>), and a read by priority (\<open>Query\<close>).  A command goes
  the opposite way: gates and expansion (\<open>Status_DB\<close>), the command body (\<open>Command\<close>), the frame (\<open>Frame\<close>), a sealed request, the
  queue of the gateway, the line.

  \<^bold>\<open>Theories and code.\<close>  Paths are relative to \<open>src/packages/blaueis-*/src/blaueis/\<close>.

    \<^item> \<open>Py_Prelude\<close>: Python as the code uses it: exceptions as \<open>'a res\<close>, scalars, bytes, dictionaries, texts; \<open>Clock\<close>: ISO
      timestamps (\<open>core/query.py\<close>, \<open>core/command.py\<close>); \<open>Json\<close>: \<open>dumps\<close> and \<open>loads\<close>; \<open>Hex\<close>: hexadecimal texts.
    \<^item> \<open>Frame\<close>: \<open>core/frame.py\<close>.  CRC-8, checksum, \<open>build_frame\<close>, \<open>parse_frame\<close>, \<open>validate_frame\<close>, fixed builders.
    \<^item> \<open>Glossary\<close>: the entries of \<open>core/data/glossary.yaml\<close> by \<open>glossary_schema.json\<close>, and the walkers of \<open>core/codec.py\<close>.
    \<^item> \<open>Tlv\<close>, \<open>Codec\<close>, \<open>Decode\<close>: the rest of \<open>core/codec.py\<close> and \<open>core/decode_predicates.py\<close>: record parsers, bits and
      encodings, decoding of fields, capabilities and frames; \<open>Formula\<close>: \<open>core/formula.py\<close>.
    \<^item> \<open>Status\<close>, \<open>Query\<close>, \<open>Process\<close>, \<open>Typing\<close>: \<open>core/status.py\<close>, \<open>core/query.py\<close>, \<open>core/process.py\<close>: the status of a
      device as a record, its readings, the ingress of frames as the relation \<open>ingress\<close>.
    \<^item> \<open>Gating\<close>: \<open>core/ux_gating.py\<close>, \<open>core/gate_eval.py\<close>, \<open>core/gate_anchors.py\<close>, \<open>core/validation.py\<close>.
    \<^item> \<open>Command\<close>: \<open>core/command.py\<close>; \<open>Planner\<close>: the query planner of \<open>core/codec.py\<close> and the frames made of glossary specs;
      \<open>Scan_Queries\<close>: \<open>core/scan_queries.py\<close>.
    \<^item> \<open>Override\<close>, \<open>Quirks\<close>, \<open>Inventory\<close>: \<open>core/glossary_override.py\<close>, \<open>core/quirks.py\<close>, \<open>core/inventory.py\<close>.
    \<^item> \<open>Status_DB\<close>: \<open>client/status_db.py\<close>; \<open>Device\<close>, \<open>Device_Steps\<close>, \<open>Polling\<close>, \<open>Link\<close>: \<open>client/device.py\<close>;
      \<open>Ws_Client\<close>, \<open>Ws_Client_Steps\<close>: \<open>client/ws_client.py\<close>.
    \<^item> \<open>Crypto\<close>: \<open>core/crypto.py\<close>; \<open>Pools\<close>: \<open>gateway/slot_pool.py\<close> and \<open>core/debug_ring.py\<close>; \<open>Uart\<close>: \<open>gateway/uart_protocol.py\<close>;
      \<open>Server\<close>, \<open>Server_Steps\<close>, \<open>Gateway\<close>: \<open>gateway/server.py\<close>.
    \<^item> \<open>Updater\<close>: \<open>gateway/release.py\<close> and the remote update of \<open>gateway/server.py\<close>; \<open>Gateway_Config\<close>:
      \<open>gateway/configure.py\<close> and \<open>load_config\<close> of \<open>gateway/server.py\<close>.
    \<^item> \<open>Collisions\<close>, \<open>Lint\<close>: \<open>tools/glossary_collisions.py\<close>, \<open>tools/glossary_lint.py\<close>.

  \<^bold>\<open>State and operations.\<close>  Objects are records and their methods are functions from a state to a state and a result;
  definitions carry the names of the code, with a prefix or suffix where a name is taken.  Exceptions are
  values of \<open>error\<close> in \<open>'a res\<close> and every \<open>raise\<close>, \<open>return\<close> and \<open>continue\<close> is a branch.  Where the program is a reaction to
  events (ingress, a device, its link, the gateway, a client) there is an inductive step relation over the
  operations, and the properties are invariants of what is reachable.  A lock, or a handler without an \<open>await\<close> between
  accesses to shared state, makes an operation one step.

  \<^bold>\<open>What is shown.\<close>  Wire: a frame reads back, and a change of one byte other than the length byte fails the check meant
  for it (a change of the length byte can pass: \<open>length_byte_error_accepted\<close>); records are parsed inside their bounds;
  encoding then decoding a field gives the value and leaves the bits of other fields; JSON, hexadecimal and
  base64 texts read back.  Channel: both ends agree on keys, what arrives is what was sealed, nothing is accepted twice and
  no nonce is used twice.  Gateway: slots and clients correspond, clients are isolated, only valid frames reach the bus,
  each subscriber sees each frame once, the serial protocol never raises and resynchronises after noise.  Client:
  nothing leaves unsealed, replies reach their requests, a handshake with the right key succeeds and with another
  fails.  Device: whatever arrives, the status moves by steps of the core; the capability scan ends;
  \<open>on_connected\<close> is honest; polls cover what is available.  Database and commands: the gates accept exactly what they should, forced
  values keep what was asked, limits hold, a command overwrites no neighbour it has not read.  Readings: the newest
  observation wins.  Glossary tools: what an override changes is reported and what it must not change is kept, the
  inventory classifies exactly, the collision check and the lint are exact, and a clean collision check is what
  encoding next to other fields needs.  A remote
  update that fails returns to the old commit or says that it could not, and one that succeeds records the way back.
  What is typed into the set-up wizard is what the gateway loads, and instances that name their ports share none.
  The interfaces are locales with interpretations on the model: \<open>frame_link\<close>, \<open>tlv_cursor\<close>, \<open>value_store\<close>,
  \<open>numbered_pool\<close>, \<open>bounded_fifo\<close>, \<open>partition_gate\<close> and \<open>gate_pair\<close>.

  \<^bold>\<open>Bounds and fuel.\<close>  Bytes are words of 8 bits and Python's integers unbounded.  Three functions take fuel.
  The loops over records (\<open>Tlv\<close>) count the records still wanted, which is the loop's own bound, and stop where the code
  does.  The reader of JSON (\<open>Json\<close>) is given the length of its text, and every value or member consumes a
  character; the round trip shows that it is enough for all that is printed.  The parser of formulas (\<open>Formula\<close>) is given
  five times the number of tokens, as at most five levels pass a token; its round trip holds at every depth; the depth
  at which Python gives up is part of the argument that stands for the interpreter.
  Loops that wait for events are recursive over the list of what arrives, or steps of a relation; where such a loop
  must end by itself (scan, expansion of forced values, reconnection, planning) that is a theorem.

  \<^bold>\<open>Parameters.\<close>  The cipher, HKDF and scrypt, the YAML loader and printer, the validator of JSON schemas, random
  bytes, clocks, sockets and the serial line are arguments; what is needed of the cipher (opening undoes sealing, a
  tag has 16 bytes) is a hypothesis with a witness.  The limits of the Python
  interpreter and the powers that are not rational are an argument of the evaluator of formulas.  Git, pip and the
  answer of GitHub are arguments of the update; \<open>git_law\<close> says what is needed of git.

  \<^bold>\<open>Not modelled.\<close>  Opening files, sockets and the serial device; the statistics of the host and the journal;
  the command lines (\<open>main\<close> of each module, \<open>client/cli.py\<close>, \<open>tools/ac_monitor.py\<close>, \<open>tools/ac_probe.py\<close>, \<open>tools/field_inventory.py\<close>,
  \<open>tools/check_collisions.py\<close>), which parse arguments, print and write files around the modelled functions; the text of
  the lint's report.  The order in which asyncio runs tasks is any order of steps, but a callback scheduled with
  \<open>ensure_future\<close> to send a message is taken to send at once; log records are left out.  Floats are exact rationals, so the
  final rounding of a division is not seen; characters are those up to U+00FF; JSON texts in UTF-16 or UTF-32 are
  refused.
\<close>

section \<open>Properties across components\<close>

text \<open>The newest slot is the latest observation: the readings are chosen by comparing ISO timestamps as
  strings, and no slot of the matched scope was stamped at a later moment than the one that is read.\<close>

theorem latest_observation_wins:
  assumes "read_field st name priority = Some r" and "rr_ts r = isoformat t" and "wf_moment t"
    and "dget (st_fields st) name = Some sf" and "(k, s) \<in> set (slots_in_scope (sf_sources sf) (rr_scope_matched r))"
    and "sl_ts s = Some (isoformat u)" and "wf_moment u"
  shows "\<not> earlier t u"
proof -
  from assms(1) obtain sf' where "dget (st_fields st) name = Some sf'" and
    c: "cascade (sf_sources sf') (effective_priority sf' priority) = Some r" by (rule read_field_SomeD)
  with assms(4) have sf: "sf' = sf" by simp
  from cascade_Some [OF c] obtain s' where
    n: "newest (slots_in_scope (sf_sources sf) (rr_scope_matched r)) = Some (rr_source r, s')" and v: "rr_ts r = ts_of s'"
    unfolding sf by blast
  have s: "stamped s" "ts_of s = isoformat u"
    using assms(6) by (simp_all add: stamped_def isoformat_def)
  have "ts_of s \<le> ts_of s'" by (rule newest_Some(3) [OF n assms(5) s(1)])
  then have "\<not> isoformat t < isoformat u" using s(2) v assms(2) by (simp add: not_less)
  then show ?thesis by (simp add: isoformat_less [OF assms(3,7)])
qed

definition LATE :: moment where
  "LATE = \<lparr>mo_year = 2026, mo_month = 1, mo_day = 1, mo_hour = 0, mo_minute = 0, mo_second = 0, mo_micro = 1\<rparr>"

definition EARLY :: moment where
  "EARLY = LATE\<lparr>mo_micro := 0\<rparr>"

definition TWO_SLOTS :: status where
  "TWO_SLOTS = write_field OBSERVED ''power'' (PBool True) ''rsp_0xa0'' ''legacy'' (isoformat LATE)"

theorem latest_observation_wins_witness:
  "read_value TWO_SLOTS ''power'' = PBool True \<and> isoformat EARLY = ''2026-01-01T00:00:00+00:00'' \<and> \<not> earlier LATE EARLY"
proof -
  have v: "map_option (\<lambda>r. (rr_ts r, rr_scope_matched r)) (read_field TWO_SLOTS ''power'' None) = Some (isoformat LATE, ''protocol_all'')"
    by code_simp
  then obtain r where r: "read_field TWO_SLOTS ''power'' None = Some r" "rr_ts r = isoformat LATE" "rr_scope_matched r = ''protocol_all''"
    by auto
  obtain sf where sf: "dget (st_fields TWO_SLOTS) ''power'' = Some sf"
    using r(1) by (auto elim: read_field_SomeD)
  have s: "dget (field_sources TWO_SLOTS ''power'') ''rsp_0xc0'' = Some (written_slot (PBool False) ''legacy'' (isoformat EARLY))"
    by code_simp
  then have m: "(''rsp_0xc0'', written_slot (PBool False) ''legacy'' (isoformat EARLY)) \<in> set (slots_in_scope (sf_sources sf) (rr_scope_matched r))"
    using sf r(3) by (auto simp: field_sources_def slots_in_scope_def dest: map_of_SomeD)
  have wf: "wf_moment LATE" "wf_moment EARLY" by (simp_all add: LATE_def EARLY_def wf_moment_def)
  have "\<not> earlier LATE EARLY"
    by (rule latest_observation_wins [OF r(1,2) wf(1) sf m _ wf(2)]) (simp add: written_slot_def)
  moreover have "read_value TWO_SLOTS ''power'' = PBool True" by code_simp
  moreover have "isoformat EARLY = ''2026-01-01T00:00:00+00:00''" by code_simp
  ultimately show ?thesis by blast
qed

end
